(* ===== verification/Prelude.thy ===== *)
theory Prelude
  imports Main "HOL-Library.Word"
begin

unbundle bit_operations_syntax

text \<open>
  What the component theories share: the machine types, the error numbers of the kernel and
  a few facts on lists and words.
\<close>

type_synonym u8 = "8 word"
type_synonym u16 = "16 word"
type_synonym u32 = "32 word"

text \<open>The status codes of the server, \<^verbatim>\<open>STATUS\<close> of \<^verbatim>\<open>asd_common.h\<close>.\<close>

datatype status = ST_OK | ST_ERR | ST_TIMEOUT

text \<open>The errors a kernel entry returns; success is \<^const>\<open>None\<close>.\<close>

datatype errno = EINVAL | EFAULT | EOPNOTSUPP | EBUSY | ENOMEM | EBADF

text \<open>
  A call that can fault (\<^const>\<open>None\<close>: a wild access or a trap) or return a status with the
  state after it; \<open>and_then\<close> is the pattern \<^verbatim>\<open>if (... != ST_OK) return ST_ERR;\<close>.
\<close>

type_synonym 's outcome = "(status \<times> 's) option"

definition and_then :: "'s outcome \<Rightarrow> ('s \<Rightarrow> 's outcome) \<Rightarrow> 's outcome" where
  "and_then m f = (case m of None \<Rightarrow> None
     | Some (st, s) \<Rightarrow> if st = ST_OK then f s else Some (ST_ERR, s))"

lemma and_then_simps [simp]:
  "and_then None f = None"
  "and_then (Some (ST_OK, s)) f = f s"
  "st \<noteq> ST_OK \<Longrightarrow> and_then (Some (st, s)) f = Some (ST_ERR, s)"
  by (simp_all add: and_then_def)

lemma mult_add_div: "k < m \<Longrightarrow> (m * q + k) div m = (q :: nat)"
  by (simp add: div_mult_self4)

lemma mult_add_mod: "k < m \<Longrightarrow> (m * q + k) mod m = (k :: nat)"
  by simp

lemma ceil8: "L mod 8 \<noteq> 0 \<Longrightarrow> (L + 7) div 8 = Suc (L div 8 :: nat)"
proof -
  assume "L mod 8 \<noteq> 0"
  define m r where "m = L div 8" and "r = L mod 8"
  have "L = 8 * m + r" "r < 8" "r \<noteq> 0"
    using \<open>L mod 8 \<noteq> 0\<close> by (simp_all add: m_def r_def)
  then have "(L + 7) div 8 = Suc m"
    by (intro div_nat_eqI) simp_all
  then show ?thesis by (simp add: m_def)
qed

lemma div_mod_range:
  assumes "q * m \<le> k" "k < Suc q * m"
  shows "k div m = q" "k mod m = k - q * (m :: nat)"
proof -
  show "k div m = q" using assms by (intro div_nat_eqI) (simp_all add: mult.commute)
  then show "k mod m = k - q * m" by (simp add: modulo_nat_def)
qed

lemma add_32: "(j + 32) div 8 = Suc (Suc (Suc (Suc (j div 8))))" "(j + 32) mod 8 = j mod (8::nat)"
      "(j + 32) div 32 = Suc (j div 32)"
  using div_mult_self2 [of 8 j 4] mod_mult_self2 [of j 8 4]  by simp_all

lemma less_same_byte:
  assumes "i div 8 = L div (8 :: nat)"
  shows "i < L \<longleftrightarrow> i mod 8 < L mod 8"
  using assms mult_div_mod_eq [of 8 L] mult_div_mod_eq [of 8 i] by (metis add_less_cancel_left)

section \<open>Bytes and tables\<close>

lemma upt_from_0: "2 \<le> n \<Longrightarrow> [0..<n] = 0 # 1 # [2..<n]"
  by (simp add: upt_rec [of 0] upt_rec [of "Suc 0"] numeral_2_eq_2)

lemma byte_eqI:
  fixes x y :: u8
  assumes "bit x 0 = bit y 0" "bit x 1 = bit y 1" "bit x 2 = bit y 2" "bit x 3 = bit y 3"
    "bit x 4 = bit y 4" "bit x 5 = bit y 5" "bit x 6 = bit y 6" "bit x 7 = bit y 7"
  shows "x = y"
proof (rule bit_word_eqI)
  fix n assume "n < LENGTH(8)"
  then have "n \<in> {0, 1, 2, 3, 4, 5, 6, 7}" by auto
  then show "bit x n = bit y n" using assms by auto
qed

lemma byte_bits_le:
  fixes x :: u8
  assumes "\<And>k. n \<le> k \<Longrightarrow> k < 8 \<Longrightarrow> \<not> bit x k"
  shows "unat x < 2 ^ n"
proof -
  have "take_bit n x = x"
  proof (rule bit_word_eqI)
    show "bit (take_bit n x) k = bit x k" if "k < LENGTH(8)" for k
      using assms [of k] that by (cases "n \<le> k") (auto simp: bit_take_bit_iff)
  qed
  then have "unat x = take_bit n (unat x)" by (metis unsigned_take_bit_eq)
  then show ?thesis by (metis take_bit_nat_less_exp)
qed

lemma xor_same_iff: "c XOR b = c XOR b' \<longleftrightarrow> b = b'" "b XOR c = b' XOR c \<longleftrightarrow> b = b'"
  for b :: "'a :: len word"
proof -
  show *: "c XOR b = c XOR b' \<longleftrightarrow> b = b'" by (metis xor.assoc xor.left_neutral xor_self_eq)
  then show "b XOR c = b' XOR c \<longleftrightarrow> b = b'" by (simp add: xor.commute)
qed

section \<open>File descriptors\<close>

text \<open>
  A kernel that keeps the open descriptors: \<open>opened\<close> reads them off its state, a successful open adds a
  new one and only close removes one.
\<close>

definition opens :: "('o \<Rightarrow> int set) \<Rightarrow> int \<times> 'o \<Rightarrow> 'o \<Rightarrow> bool" where
  "opens opened r w \<longleftrightarrow> (case r of (fd, w') \<Rightarrow>
     if fd = -1 then opened w' = opened w else fd \<notin> opened w \<and> opened w' = insert fd (opened w))"

text \<open>
  What a handler owns is open, once, and the rest \<open>B\<close> of the process is left alone.
\<close>

definition owns :: "('o \<Rightarrow> int set) \<Rightarrow> int set \<Rightarrow> int set \<Rightarrow> 'o \<Rightarrow> bool" where
  "owns opened B fds w \<longleftrightarrow> fds \<inter> B = {} \<and> opened w = B \<union> fds"

text \<open>A kernel whose state is its list of open descriptors.\<close>

definition new_file :: "int list \<Rightarrow> int \<times> int list" where
  "new_file w = (let fd = 3 + foldr max w 0 in (fd, fd # w))"

lemma new_file_opens: "opens set (new_file w) w"
proof -
  have "x \<le> foldr max w 0" if "x \<in> set w" for x using that by (induction w) auto
  then have "3 + foldr max w 0 \<notin> set w" by force
  moreover have "foldr max w 0 \<ge> 0" by (induction w) auto
  ultimately show ?thesis by (simp add: opens_def new_file_def Let_def)
qed

end
