(* ===== verification/Ext_Network.thy ===== *)
theory Ext_Network
  imports Prelude
begin

text \<open>
  The external network interface, \<^verbatim>\<open>ext_network.c\<close> with the plain handlers of \<^verbatim>\<open>ext_tcp.c\<close> and
  the transfer functions of \<^verbatim>\<open>ext_tls.c\<close>. What the operating system and the TLS library
  answer is a parameter of each operation; the descriptors the process holds open are its
  state. The lemmas follow the descriptors: which operation closes which, and where one leaks.
\<close>

section \<open>Connections\<close>

abbreviation "UNUSED_SOCKET_FD \<equiv> -1 :: int"

record extnet_conn =
  sockfd :: int
  p_hdlr_data :: "nat option"

datatype hdlrs = Tcp | Tls

record extnet =
  p_hdlrs :: hdlrs
  n_max_sessions :: int

text \<open>The descriptors the process has open.\<close>

type_synonym fds = "int set"

datatype hdlr_type = EXTNET_HDLR_NON_ENCRYPT | EXTNET_HDLR_TLS | EXTNET_HDLR_INVALID

text \<open>\<open>init_ok\<close> is what the initialisation of the handler returns; memory is not exhausted.\<close>

definition extnet_init :: "bool \<Rightarrow> hdlr_type \<Rightarrow> nat option \<Rightarrow> int \<Rightarrow> extnet option" where
  "extnet_init init_ok e_type hdlr_data max_sessions =
     (case hdlr_data of None \<Rightarrow> None
      | Some _ \<Rightarrow>
        (case e_type of
           EXTNET_HDLR_NON_ENCRYPT \<Rightarrow> Some \<lparr>p_hdlrs = Tcp, n_max_sessions = max_sessions\<rparr>
         | EXTNET_HDLR_TLS \<Rightarrow>
             if init_ok then Some \<lparr>p_hdlrs = Tls, n_max_sessions = max_sessions\<rparr> else None
         | EXTNET_HDLR_INVALID \<Rightarrow> None))"

text \<open>The answers of the system calls made while the listening socket is set up.\<close>

record socket_calls =
  r_socket :: int
  r_nodelay :: int
  r_reuse :: int
  r_bindtodevice :: int
  r_bind :: int
  r_listen :: int

definition extnet_open_external_socket ::
  "socket_calls \<Rightarrow> bool \<Rightarrow> fds \<Rightarrow> status \<times> int \<times> fds" where
  "extnet_open_external_socket os bind_if fds =
     (let fd = r_socket os
      in if fd < 0 then (ST_ERR, fd, fds)
         else let fds' = insert fd fds
         in if r_nodelay os < 0 then (ST_ERR, fd, fds')
         else if r_reuse os < 0 then (ST_ERR, fd, fds')
         else if bind_if \<and> r_bindtodevice os < 0 then (ST_ERR, fd, fds')
         else if r_bind os < 0 then (ST_ERR, -1, fds' - {fd})
         else if r_listen os < 0 then (ST_ERR, -1, fds' - {fd})
         else (ST_OK, fd, fds'))"

definition extnet_is_client_closed :: "extnet_conn \<Rightarrow> bool" where
  "extnet_is_client_closed c \<longleftrightarrow> sockfd c < 0"

text \<open>\<open>hdlr_st\<close> is the answer of \<^verbatim>\<open>on_close_client\<close>, \<open>close_ok\<close> the one of \<^verbatim>\<open>close\<close>.\<close>

definition extnet_close_client ::
  "status \<Rightarrow> bool \<Rightarrow> extnet_conn \<Rightarrow> fds \<Rightarrow> status \<times> extnet_conn \<times> fds" where
  "extnet_close_client hdlr_st close_ok c fds =
     (if sockfd c < 0 then (ST_ERR, c, fds)
      else (if close_ok then hdlr_st else ST_ERR,
            c\<lparr>sockfd := UNUSED_SOCKET_FD, p_hdlr_data := None\<rparr>, fds - {sockfd c}))"

text \<open>\<open>on_accept\<close> is the TLS handshake (or nothing): a status and the connection it leaves.\<close>

definition extnet_accept_connection ::
  "(extnet_conn \<Rightarrow> status \<times> extnet_conn) \<Rightarrow> status \<Rightarrow> bool \<Rightarrow> int \<Rightarrow> extnet_conn \<Rightarrow> fds
     \<Rightarrow> status \<times> extnet_conn \<times> fds" where
  "extnet_accept_connection on_accept hdlr_st close_ok fd c fds =
     (let c = c\<lparr>sockfd := fd\<rparr>
      in if fd < 0 then (ST_ERR, c, fds)
         else let fds = insert fd fds; (st, c) = on_accept c
              in if st \<noteq> ST_OK
                 then let (_, c, fds) = extnet_close_client hdlr_st close_ok c fds in (st, c, fds)
                 else (st, c, fds))"

definition extnet_init_client :: "status \<Rightarrow> extnet_conn \<Rightarrow> status \<times> extnet_conn" where
  "extnet_init_client hdlr_st c = (hdlr_st, c\<lparr>sockfd := UNUSED_SOCKET_FD\<rparr>)"

section \<open>The handlers\<close>

definition exttcp_on_accept :: "extnet_conn \<Rightarrow> status \<times> extnet_conn" where
  "exttcp_on_accept c = (ST_OK, c)"
definition exttcp_init_client :: "extnet_conn \<Rightarrow> status" where
  "exttcp_init_client c = ST_OK"
definition exttcp_on_close_client :: "extnet_conn \<Rightarrow> status" where
  "exttcp_on_close_client c = ST_OK"

text \<open>The result of a read: the count, and the pending flag.\<close>

definition exttcp_recv :: "int \<Rightarrow> extnet_conn \<Rightarrow> int \<times> bool" where
  "exttcp_recv os_recv c = (if sockfd c < 0 then (-1, False) else (os_recv, False))"

definition exttcp_send :: "int \<Rightarrow> extnet_conn \<Rightarrow> int" where
  "exttcp_send os_send c = (if sockfd c < 0 then -1 else os_send)"

record ssl_answers =
  ssl_n :: int
  ssl_closed_st :: status
  ssl_error_st :: status
  ssl_pending :: int

definition exttls_recv :: "ssl_answers \<Rightarrow> extnet_conn \<Rightarrow> bool \<Rightarrow> int \<times> bool" where
  "exttls_recv ssl c pending =
     (if sockfd c < 0 then (-1, pending)
      else if p_hdlr_data c = None then (-1, pending)
      else if ssl_n ssl \<le> 0
      then (if ssl_closed_st ssl \<noteq> ST_OK then (0, False)
            else if ssl_error_st ssl \<noteq> ST_OK then (-1, False)
            else (ssl_n ssl, False))
      else (ssl_n ssl, ssl_pending ssl > 0))"

definition exttls_send :: "ssl_answers \<Rightarrow> extnet_conn \<Rightarrow> int" where
  "exttls_send ssl c =
     (if sockfd c < 0 then -1
      else if p_hdlr_data c = None then -1
      else if ssl_n ssl \<le> 0 \<and> ssl_error_st ssl \<noteq> ST_OK then -1 else ssl_n ssl)"

definition extnet_recv :: "hdlrs \<Rightarrow> int \<Rightarrow> ssl_answers \<Rightarrow> extnet_conn \<Rightarrow> bool \<Rightarrow> int \<times> bool" where
  "extnet_recv h os_recv ssl c pending =
     (case h of Tcp \<Rightarrow> exttcp_recv os_recv c | Tls \<Rightarrow> exttls_recv ssl c pending)"

definition extnet_send :: "hdlrs \<Rightarrow> int \<Rightarrow> ssl_answers \<Rightarrow> extnet_conn \<Rightarrow> int" where
  "extnet_send h os_send ssl c = (case h of Tcp \<Rightarrow> exttcp_send os_send c | Tls \<Rightarrow> exttls_send ssl c)"

section \<open>Descriptors\<close>

lemma close_client_closed [simp]:
  "extnet_is_client_closed (fst (snd (extnet_close_client st ok c fds)))"
  by (simp add: extnet_close_client_def extnet_is_client_closed_def)

lemma close_client_fds:
  "snd (snd (extnet_close_client st ok c fds)) = (if sockfd c < 0 then fds else fds - {sockfd c})"
  by (simp add: extnet_close_client_def)

lemma accept_keeps_fds_on_failure:
  assumes "extnet_accept_connection on_accept hst ok fd c fds = (st, c', fds')" "st \<noteq> ST_OK"
    and "fd \<notin> fds" "\<And>c. sockfd (snd (on_accept c)) = sockfd c"
  shows "fds' = fds \<and> extnet_is_client_closed c'"
  using assms
  by (auto simp: extnet_accept_connection_def extnet_close_client_def Let_def split_beta
      extnet_is_client_closed_def split: if_splits)

text \<open>
  A listening socket that could not be set up is released only in part of the cases: when
  \<^verbatim>\<open>bind\<close> or \<^verbatim>\<open>listen\<close> fails the descriptor is closed, but when one of the socket options cannot be
  set the function returns an error and the descriptor stays open. In every other case the
  descriptors held are the ones before, with the new one exactly on success.
\<close>

theorem open_socket_fds:
  assumes "extnet_open_external_socket os bind_if fds = (st, fd, fds')" "r_socket os \<notin> fds"
  shows "(st = ST_OK \<longrightarrow> fd = r_socket os \<and> 0 \<le> fd \<and> fds' = insert fd fds) \<and>
    (st \<noteq> ST_OK \<longrightarrow>
      fds' = (if 0 \<le> r_socket os \<and>
                 (r_nodelay os < 0 \<or> r_reuse os < 0 \<or> bind_if \<and> r_bindtodevice os < 0)
              then insert (r_socket os) fds else fds))"
  using assms by (auto simp: extnet_open_external_socket_def Let_def split: if_splits)

lemma open_socket_fds_witness:
  "extnet_open_external_socket \<lparr>r_socket = 7, r_nodelay = 0, r_reuse = -1, r_bindtodevice = 0,
      r_bind = 0, r_listen = 0\<rparr> False {3} = (ST_ERR, 7, {3, 7}) \<and> {3, 7} = insert 7 {3 :: int}"
  using open_socket_fds [of "\<lparr>r_socket = 7, r_nodelay = 0, r_reuse = -1, r_bindtodevice = 0,
      r_bind = 0, r_listen = 0\<rparr>" False "{3}" ST_ERR 7 "{3, 7}"]
  by (auto simp: extnet_open_external_socket_def)

end
