(* ===== verification/Ext_Tls.thy ===== *)
theory Ext_Tls
  imports Ext_Network
begin

text \<open>
  The TLS handler \<^verbatim>\<open>ext_tls.c\<close>: its context, the handshake of a new client and what it makes of the errors of the
  library. The answers of OpenSSL are parameters. The state is what the process holds: open descriptors
  and objects of the library, which the lemmas show to be released when a handshake fails.
\<close>

section \<open>The context\<close>

text \<open>The answers of the library while a context is made; the objects are numbers.\<close>

record ctx_calls =
  ctx_new :: "nat option"
  cipher_list_ok :: bool
  certificate_ok :: bool
  private_key_ok :: bool
  key_matches :: bool

type_synonym ssl_objects = "nat set"

definition cleanup :: "nat \<Rightarrow> ssl_objects \<Rightarrow> ssl_objects" where
  "cleanup ctx objs = objs - {ctx}"

definition init_ssl_context :: "ctx_calls \<Rightarrow> ssl_objects \<Rightarrow> nat option \<times> ssl_objects" where
  "init_ssl_context ans objs = (case ctx_new ans of
       None \<Rightarrow> (None, objs)
     | Some ctx \<Rightarrow>
         let objs = insert ctx objs
         in if \<not> cipher_list_ok ans then (None, cleanup ctx objs)
            else if \<not> certificate_ok ans then (None, cleanup ctx objs)
            else if \<not> private_key_ok ans then (None, cleanup ctx objs)
            else if \<not> key_matches ans then (None, cleanup ctx objs)
            else (Some ctx, objs))"

text \<open>The static variable \<^verbatim>\<open>sg_data.ssl_ctx\<close> and the objects; a null file name keeps none.\<close>

definition exttls_init :: "ctx_calls \<Rightarrow> string option \<Rightarrow> nat option \<times> ssl_objects \<Rightarrow> status \<times> nat option \<times> ssl_objects" where
  "exttls_init ans certkeyfile = (\<lambda>(_, objs). case certkeyfile of
       None \<Rightarrow> (ST_ERR, None, objs)
     | Some _ \<Rightarrow> let (ctx, objs) = init_ssl_context ans objs in (if ctx \<noteq> None then ST_OK else ST_ERR, ctx, objs))"

definition exttls_cleanup :: "nat option \<times> ssl_objects \<Rightarrow> nat option \<times> ssl_objects" where
  "exttls_cleanup = (\<lambda>(ctx, objs). (None, case ctx of None \<Rightarrow> objs | Some c \<Rightarrow> cleanup c objs))"

section \<open>Clients\<close>

definition exttls_init_client :: "extnet_conn \<Rightarrow> status \<times> extnet_conn" where
  "exttls_init_client c = (ST_OK, c\<lparr>p_hdlr_data := None\<rparr>)"

definition exttls_on_close_client :: "extnet_conn \<Rightarrow> ssl_objects \<Rightarrow> status \<times> extnet_conn \<times> ssl_objects" where
  "exttls_on_close_client c objs = (case p_hdlr_data c of
       None \<Rightarrow> (ST_OK, c, objs)
     | Some ssl \<Rightarrow> (ST_OK, c\<lparr>p_hdlr_data := None\<rparr>, objs - {ssl}))"

text \<open>\<^verbatim>\<open>extnet_close_client\<close> with this handler.\<close>

definition tls_close_client :: "bool \<Rightarrow> extnet_conn \<Rightarrow> fds \<times> ssl_objects \<Rightarrow> status \<times> extnet_conn \<times> fds \<times> ssl_objects" where
  "tls_close_client close_ok c = (\<lambda>(f, objs).
     if sockfd c < 0 then (ST_ERR, c, f, objs)
     else let (st, c, objs) = exttls_on_close_client c objs; (st, c, f) = extnet_close_client st close_ok c f
          in (st, c, f, objs))"

record accept_calls =
  ssl_new :: "nat option"
  set_fd_ok :: bool
  rcvtimeo_ok :: bool
  ssl_accept_ok :: bool
  tls_close_ok :: bool

text \<open>A refused handshake closes the client itself; the other failures leave that to the caller.\<close>

definition exttls_on_accept :: "accept_calls \<Rightarrow> extnet_conn \<Rightarrow> fds \<times> ssl_objects \<Rightarrow> status \<times> extnet_conn \<times> fds \<times> ssl_objects" where
  "exttls_on_accept ans c = (\<lambda>(f, objs).
     if sockfd c < 0 then (ST_ERR, c, f, objs)
     else case ssl_new ans of
            None \<Rightarrow> (ST_ERR, c\<lparr>p_hdlr_data := None\<rparr>, f, objs)
          | Some ssl \<Rightarrow>
              let c = c\<lparr>p_hdlr_data := Some ssl\<rparr>; objs = insert ssl objs
              in if \<not> set_fd_ok ans then (ST_ERR, c, f, objs)
                 else if \<not> rcvtimeo_ok ans then (ST_ERR, c, f, objs)
                 else if \<not> ssl_accept_ok ans then
                   let (_, c, x) = tls_close_client (tls_close_ok ans) (c\<lparr>p_hdlr_data := None\<rparr>) (f, objs - {ssl}) in (ST_ERR, c, x)
                 else (ST_OK, c, f, objs))"

text \<open>\<^verbatim>\<open>extnet_accept_connection\<close> with this handler; \<open>fd\<close> is what \<^verbatim>\<open>accept\<close> returns.\<close>

definition tls_accept_connection :: "accept_calls \<Rightarrow> int \<Rightarrow> extnet_conn \<Rightarrow> fds \<times> ssl_objects
    \<Rightarrow> status \<times> extnet_conn \<times> fds \<times> ssl_objects" where
  "tls_accept_connection ans fd c = (\<lambda>(f, objs).
     let c = c\<lparr>sockfd := fd\<rparr>
     in if fd < 0 then (ST_ERR, c, f, objs)
        else let (st, c, x) = exttls_on_accept ans c (insert fd f, objs)
             in if st \<noteq> ST_OK then let (_, c, x) = tls_close_client (tls_close_ok ans) c x in (st, c, x)
                else (st, c, x))"

section \<open>Errors\<close>

datatype ssl_errcode = SSL_ERROR_NONE | SSL_ERROR_ZERO_RETURN | SSL_ERROR_WANT_READ | SSL_ERROR_WANT_WRITE
  | SSL_ERROR_SYSCALL | SSL_ERROR_SSL | SSL_ERROR_OTHER

definition exttls_has_read_error_closed :: "ssl_errcode \<Rightarrow> status" where
  "exttls_has_read_error_closed err = (if err = SSL_ERROR_NONE \<or> err = SSL_ERROR_ZERO_RETURN then ST_OK else ST_ERR)"

definition exttls_has_read_error :: "ssl_errcode \<Rightarrow> status" where
  "exttls_has_read_error err = (case err of SSL_ERROR_SYSCALL \<Rightarrow> ST_ERR | SSL_ERROR_SSL \<Rightarrow> ST_ERR | _ \<Rightarrow> ST_OK)"

definition exttls_has_write_error :: "ssl_errcode \<Rightarrow> status" where
  "exttls_has_write_error err = (if err \<in> {SSL_ERROR_NONE, SSL_ERROR_ZERO_RETURN, SSL_ERROR_SYSCALL, SSL_ERROR_SSL}
     then ST_ERR else ST_OK)"

text \<open>What the transfer functions see of a read and of a write that returned \<open>n\<close>.\<close>

definition read_answers :: "int \<Rightarrow> ssl_errcode \<Rightarrow> int \<Rightarrow> ssl_answers" where
  "read_answers n err pending = \<lparr>ssl_n = n, ssl_closed_st = exttls_has_read_error_closed err,
     ssl_error_st = exttls_has_read_error err, ssl_pending = pending\<rparr>"

definition write_answers :: "int \<Rightarrow> ssl_errcode \<Rightarrow> ssl_answers" where
  "write_answers n err = \<lparr>ssl_n = n, ssl_closed_st = ST_OK, ssl_error_st = exttls_has_write_error err, ssl_pending = 0\<rparr>"

text \<open>
  Errors of a read are never told from the end of the connection: the check for errors is only made when the
  connection was closed, and then there is none, so that the answer -1 for an error is not reached.
\<close>

lemma read_errors_look_closed:
  assumes "0 \<le> sockfd c" "p_hdlr_data c \<noteq> None" "n \<le> 0"
  shows "exttls_recv (read_answers n err pending) c p =
    (if err = SSL_ERROR_NONE \<or> err = SSL_ERROR_ZERO_RETURN then n else 0, False)"
  using assms by (auto simp: exttls_recv_def read_answers_def exttls_has_read_error_closed_def exttls_has_read_error_def)

text \<open>A write that the library asks to repeat is reported with its own count, which is not positive.\<close>

lemma write_wants_more:
  assumes "0 \<le> sockfd c" "p_hdlr_data c \<noteq> None" "n \<le> 0"
  shows "exttls_send (write_answers n err) c = (if exttls_has_write_error err = ST_OK then n else -1)"
  using assms by (auto simp: exttls_send_def write_answers_def)

section \<open>What a client holds\<close>

lemma init_keeps_objects:
  assumes "exttls_init ans certkeyfile (old, objs) = (st, ctx, objs')" "\<forall>c. ctx_new ans = Some c \<longrightarrow> c \<notin> objs"
  shows "(st = ST_OK \<longleftrightarrow> ctx \<noteq> None) \<and> objs' = (case ctx of None \<Rightarrow> objs | Some c \<Rightarrow> insert c objs) \<and>
    snd (exttls_cleanup (ctx, objs')) = objs"
proof -
  have c: "(\<exists>a. init_ssl_context ans objs = (Some a, insert a objs) \<and> a \<notin> objs) \<or> init_ssl_context ans objs = (None, objs)"
    using assms(2) by (cases "ctx_new ans") (auto simp: init_ssl_context_def cleanup_def Let_def)
  show ?thesis
    using assms(1) c by (cases certkeyfile) (auto simp: exttls_init_def exttls_cleanup_def cleanup_def)
qed

text \<open>
  A client that gets in holds one new descriptor and one new object of the library, which closing it
  releases; a client that does not leaves nothing behind, at whichever step it failed.
\<close>

lemma accept_holds:
  assumes "tls_accept_connection ans fd c (f, objs) = (st, c', f', objs')" "fd \<notin> f" "\<forall>s. ssl_new ans = Some s \<longrightarrow> s \<notin> objs"
  shows "if st = ST_OK then sockfd c' = fd \<and> 0 \<le> fd \<and> f' = insert fd f \<and> (\<exists>s. p_hdlr_data c' = Some s \<and> objs' = insert s objs \<and> s \<notin> objs)
    else sockfd c' < 0 \<and> f' = f \<and> objs' = objs"
  using assms
  by (auto simp: tls_accept_connection_def exttls_on_accept_def tls_close_client_def exttls_on_close_client_def
      extnet_close_client_def Let_def split: option.splits if_splits prod.splits)

lemma accept_close:
  assumes "tls_accept_connection ans fd c (f, objs) = (ST_OK, c', f', objs')" "fd \<notin> f" "\<forall>s. ssl_new ans = Some s \<longrightarrow> s \<notin> objs"
    and "tls_close_client ok c' (f', objs') = (st, c'', x)"
  shows "x = (f, objs) \<and> extnet_is_client_closed c''"
  using accept_holds [OF assms(1-3)] assms(2,4)
  by (auto simp: tls_close_client_def exttls_on_close_client_def extnet_close_client_def extnet_is_client_closed_def
      split: if_splits)

end
