(* ===== verification/Session.thy ===== *)
theory Session
  imports Ext_Network
begin

text \<open>
  The table of remote sessions, \<^verbatim>\<open>session.c\<close>: five slots, of which at most one may be
  authenticated. The invariant says how the slots, their flags and the recorded identifier
  fit together, and the operations are shown to implement a plain specification: a finite map
  from open descriptors to their deadlines and at most one authenticated descriptor in it.
\<close>

section \<open>The table\<close>

abbreviation "MAX_SESSIONS \<equiv> 5 :: nat"
abbreviation "SESSION_AUTH_EXPIRE_TIMEOUT \<equiv> 15 :: int"
abbreviation "NO_SESSION_AUTHENTICATED \<equiv> -1 :: int"

record session_t =
  s_id :: int
  s_extconn :: extnet_conn
  s_t_auth_tout :: int
  s_b_authenticated :: bool
  s_b_data_pending :: bool

record session =
  b_initialized :: bool
  sessions :: "session_t list"
  n_authenticated_id :: int

abbreviation fd_of :: "session_t \<Rightarrow> int" where
  "fd_of p \<equiv> sockfd (s_extconn p)"

text \<open>
  \<open>garbage\<close> is what \<^verbatim>\<open>malloc\<close> left in the connections; \<open>hdlr\<close> is the answer of the handler for
  each slot. The loop stops at the first failure.
\<close>

definition session_init :: "(nat \<Rightarrow> status) \<Rightarrow> extnet_conn \<Rightarrow> session option" where
  "session_init hdlr garbage =
     (if list_all (\<lambda>i. fst (extnet_init_client (hdlr i) garbage) = ST_OK) [0 ..< MAX_SESSIONS]
      then Some \<lparr>b_initialized = True,
             sessions = map (\<lambda>i. \<lparr>s_id = int i, s_extconn = snd (extnet_init_client (hdlr i) garbage),
               s_t_auth_tout = 0, s_b_authenticated = False, s_b_data_pending = False\<rparr>)
               [0 ..< MAX_SESSIONS],
             n_authenticated_id = NO_SESSION_AUTHENTICATED\<rparr>
      else None)"

definition session_find_private :: "session \<Rightarrow> int \<Rightarrow> nat option" where
  "session_find_private s fd =
     (if b_initialized s
      then (case filter (\<lambda>i. fd_of (sessions s ! i) = fd) [0 ..< MAX_SESSIONS] of
              [] \<Rightarrow> None | i # _ \<Rightarrow> Some i)
      else None)"

definition session_lookup_conn :: "session \<Rightarrow> int \<Rightarrow> extnet_conn option" where
  "session_lookup_conn s fd =
     (case session_find_private s fd of
        None \<Rightarrow> None
      | Some i \<Rightarrow> if fd_of (sessions s ! i) \<ge> 0 then Some (s_extconn (sessions s ! i)) else None)"

definition session_open :: "int \<Rightarrow> session \<Rightarrow> extnet_conn \<Rightarrow> status \<times> session" where
  "session_open now s c =
     (case session_find_private s UNUSED_SOCKET_FD of
        None \<Rightarrow> (ST_ERR, s)
      | Some i \<Rightarrow>
          (ST_OK, s\<lparr>sessions := (sessions s)[i := (sessions s ! i)\<lparr>s_extconn := c,
             s_t_auth_tout := SESSION_AUTH_EXPIRE_TIMEOUT + now, s_b_authenticated := False\<rparr>]\<rparr>))"

text \<open>The status of the close is not looked at, so it is not a parameter here.\<close>

definition session_close_private :: "session \<Rightarrow> nat \<Rightarrow> fds \<Rightarrow> session \<times> fds" where
  "session_close_private s i fds =
     (let p = sessions s ! i;
          (c, fds) = (if extnet_is_client_closed (s_extconn p) then (s_extconn p, fds)
                      else snd (extnet_close_client ST_OK True (s_extconn p) fds));
          n_auth = (if s_id p = n_authenticated_id s then NO_SESSION_AUTHENTICATED
                    else n_authenticated_id s)
      in (s\<lparr>sessions := (sessions s)[i := p\<lparr>s_extconn := c, s_t_auth_tout := 0,
              s_b_authenticated := False\<rparr>], n_authenticated_id := n_auth\<rparr>, fds))"

definition session_close :: "session \<Rightarrow> extnet_conn \<Rightarrow> fds \<Rightarrow> status \<times> session \<times> fds" where
  "session_close s c fds =
     (if sockfd c = UNUSED_SOCKET_FD then (ST_ERR, s, fds)
      else case session_find_private s (sockfd c) of
             None \<Rightarrow> (ST_ERR, s, fds)
           | Some i \<Rightarrow> (ST_OK, session_close_private s i fds))"

definition close_when :: "(session_t \<Rightarrow> bool) \<Rightarrow> nat \<Rightarrow> session \<times> fds \<Rightarrow> session \<times> fds" where
  "close_when P i = (\<lambda>(s, fds). if P (sessions s ! i) then session_close_private s i fds else (s, fds))"

definition session_close_all :: "session \<Rightarrow> fds \<Rightarrow> session \<times> fds" where
  "session_close_all s fds =
     (if b_initialized s
      then fold (close_when (\<lambda>p. \<not> extnet_is_client_closed (s_extconn p))) [0 ..< MAX_SESSIONS] (s, fds)
      else (s, fds))"

definition session_close_expired_unauth :: "int \<Rightarrow> session \<Rightarrow> fds \<Rightarrow> session \<times> fds" where
  "session_close_expired_unauth now s fds =
     (if b_initialized s
      then fold (close_when (\<lambda>p. \<not> extnet_is_client_closed (s_extconn p) \<and>
             \<not> s_b_authenticated p \<and> s_t_auth_tout p \<le> now)) [0 ..< MAX_SESSIONS] (s, fds)
      else (s, fds))"

definition session_already_authenticated :: "session \<Rightarrow> extnet_conn \<Rightarrow> status" where
  "session_already_authenticated s c =
     (if b_initialized s \<and> \<not> extnet_is_client_closed c
      then (case session_find_private s (sockfd c) of
              None \<Rightarrow> ST_ERR
            | Some i \<Rightarrow> if s_b_authenticated (sessions s ! i) then ST_OK else ST_ERR)
      else ST_ERR)"

definition session_auth_complete :: "session \<Rightarrow> extnet_conn \<Rightarrow> status \<times> session" where
  "session_auth_complete s c =
     (if \<not> b_initialized s then (ST_ERR, s)
      else if n_authenticated_id s \<ge> 0 then (ST_ERR, s)
      else case session_find_private s (sockfd c) of
             None \<Rightarrow> (ST_ERR, s)
           | Some i \<Rightarrow>
               (ST_OK, s\<lparr>sessions := (sessions s)[i := (sessions s ! i)\<lparr>s_b_authenticated := True\<rparr>],
                  n_authenticated_id := s_id (sessions s ! i)\<rparr>))"

definition session_get_authenticated_conn :: "session \<Rightarrow> extnet_conn option" where
  "session_get_authenticated_conn s =
     (if b_initialized s \<and> n_authenticated_id s \<ge> 0
      then Some (s_extconn (sessions s ! nat (n_authenticated_id s))) else None)"

definition session_set_data_pending :: "session \<Rightarrow> extnet_conn \<Rightarrow> bool \<Rightarrow> status \<times> session" where
  "session_set_data_pending s c b =
     (if \<not> b_initialized s then (ST_ERR, s)
      else case session_find_private s (sockfd c) of
             None \<Rightarrow> (ST_ERR, s)
           | Some i \<Rightarrow>
               (ST_OK, s\<lparr>sessions := (sessions s)[i := (sessions s ! i)\<lparr>s_b_data_pending := b\<rparr>]\<rparr>))"

text \<open>The result is the flag, or none when the status is an error and the caller's flag stays.\<close>

definition session_get_data_pending :: "session \<Rightarrow> extnet_conn \<Rightarrow> bool option" where
  "session_get_data_pending s c =
     (if \<not> b_initialized s then None
      else map_option (\<lambda>i. s_b_data_pending (sessions s ! i)) (session_find_private s (sockfd c)))"

text \<open>One slot of \<^verbatim>\<open>session_getfds\<close>: descriptors so far, timeout, the pending flag carried over.\<close>

definition getfds_slot :: "int \<Rightarrow> session \<Rightarrow> nat \<Rightarrow> int list \<times> int \<times> bool \<times> bool
    \<Rightarrow> int list \<times> int \<times> bool \<times> bool" where
  "getfds_slot now s i = (\<lambda>(fdl, tmo, pending, zero).
     let p = sessions s ! i
     in if extnet_is_client_closed (s_extconn p) then (fdl, tmo, pending, zero)
        else
          let tmo = (if s_b_authenticated p then tmo
                else let remain = max 0 (signed_take_bit 31 (1000 * (s_t_auth_tout p - now)))
                     in if tmo < 0 \<or> remain < tmo then remain else tmo);
              pending = (case session_get_data_pending s (s_extconn p) of
                           None \<Rightarrow> pending | Some b \<Rightarrow> b)
          in (fdl @ [fd_of p], tmo, pending, zero \<or> pending))"

definition session_getfds :: "int \<Rightarrow> session \<Rightarrow> int \<Rightarrow> (int list \<times> int) option" where
  "session_getfds now s timeout_ms =
     (if b_initialized s
      then let (fdl, tmo, _, zero) = fold (getfds_slot now s) [0 ..< MAX_SESSIONS] ([], timeout_ms, False, False)
           in Some (fdl, if zero then 0 else tmo)
      else None)"

section \<open>The invariant\<close>

definition slot :: "session \<Rightarrow> nat \<Rightarrow> session_t" where
  "slot s i = sessions s ! i"

definition session_inv :: "session \<Rightarrow> fds \<Rightarrow> bool" where
  "session_inv s fds \<longleftrightarrow> b_initialized s \<and> length (sessions s) = MAX_SESSIONS \<and>
     (\<forall>i < MAX_SESSIONS. s_id (slot s i) = int i \<and> fd_of (slot s i) \<ge> -1 \<and>
        (0 \<le> fd_of (slot s i) \<longrightarrow> fd_of (slot s i) \<in> fds) \<and>
        (s_b_authenticated (slot s i) \<longleftrightarrow> n_authenticated_id s = int i)) \<and>
     (\<forall>i < MAX_SESSIONS. \<forall>j < MAX_SESSIONS.
        fd_of (slot s i) = fd_of (slot s j) \<and> 0 \<le> fd_of (slot s i) \<longrightarrow> i = j) \<and>
     (n_authenticated_id s = -1 \<or>
      (\<exists>k < MAX_SESSIONS. n_authenticated_id s = int k \<and> 0 \<le> fd_of (slot s k)))"

lemma session_invD:
  assumes "session_inv s fds"
  shows "b_initialized s" "length (sessions s) = MAX_SESSIONS"
    and "\<And>i. i < MAX_SESSIONS \<Longrightarrow> s_id (slot s i) = int i"
    and "\<And>i. i < MAX_SESSIONS \<Longrightarrow> fd_of (slot s i) \<ge> -1"
    and "\<And>i. i < MAX_SESSIONS \<Longrightarrow> 0 \<le> fd_of (slot s i) \<Longrightarrow> fd_of (slot s i) \<in> fds"
    and "\<And>i. i < MAX_SESSIONS \<Longrightarrow> s_b_authenticated (slot s i) \<longleftrightarrow> n_authenticated_id s = int i"
    and "\<And>i j. i < MAX_SESSIONS \<Longrightarrow> j < MAX_SESSIONS \<Longrightarrow> fd_of (slot s i) = fd_of (slot s j) \<Longrightarrow>
           0 \<le> fd_of (slot s i) \<Longrightarrow> i = j"
    and "n_authenticated_id s = -1 \<or>
      (\<exists>k < MAX_SESSIONS. n_authenticated_id s = int k \<and> 0 \<le> fd_of (slot s k))"
  using assms unfolding session_inv_def by blast+

lemma find_None:
  assumes "b_initialized s"
  shows "session_find_private s fd = None \<longleftrightarrow> (\<forall>i < MAX_SESSIONS. fd_of (slot s i) \<noteq> fd)"
proof -
  have "filter (\<lambda>i. fd_of (sessions s ! i) = fd) [0 ..< MAX_SESSIONS] = [] \<longleftrightarrow>
      (\<forall>i < MAX_SESSIONS. fd_of (slot s i) \<noteq> fd)"
    unfolding filter_empty_conv slot_def by auto
  then show ?thesis
    using assms by (cases "filter (\<lambda>i. fd_of (sessions s ! i) = fd) [0 ..< MAX_SESSIONS]")
      (simp_all add: session_find_private_def)
qed

lemma find_Some:
  assumes "session_find_private s fd = Some i"
  shows "i < MAX_SESSIONS" "fd_of (slot s i) = fd" "b_initialized s"
proof -
  let ?xs = "filter (\<lambda>i. fd_of (sessions s ! i) = fd) [0 ..< MAX_SESSIONS]"
  show "b_initialized s"
    using assms by (simp add: session_find_private_def split: if_splits)
  then have "?xs \<noteq> []" "hd ?xs = i"
    using assms unfolding session_find_private_def by (cases ?xs; simp)+
  then have "i \<in> set ?xs" using hd_in_set by blast
  then show "i < MAX_SESSIONS" "fd_of (slot s i) = fd" by (simp_all add: slot_def)
qed

lemma find_open:
  assumes "session_inv s fds" "i < MAX_SESSIONS" "0 \<le> fd_of (slot s i)"
  shows "session_find_private s (fd_of (slot s i)) = Some i"
proof (cases "session_find_private s (fd_of (slot s i))")
  case None
  then show ?thesis
    using find_None session_invD(1) [OF assms(1)] assms(2) by blast
next
  case (Some j)
  then show ?thesis
    using find_Some [OF Some] session_invD(7) [OF assms(1)] assms(2,3) by metis
qed

lemma slot_update:
  assumes "i < length (sessions s)"
  shows "slot (s\<lparr>sessions := (sessions s)[i := p]\<rparr>) j = (if j = i then p else slot s j)"
    "slot (s\<lparr>sessions := (sessions s)[i := p], n_authenticated_id := n\<rparr>) j = (if j = i then p else slot s j)"
  using assms by (auto simp: slot_def nth_list_update)

subsection \<open>Every operation preserves it\<close>

lemma session_init_inv:
  assumes "session_init hdlr garbage = Some s"
  shows "session_inv s fds"
  using assms
  by (auto simp: session_init_def session_inv_def slot_def extnet_init_client_def
      split: if_splits)

lemma session_open_inv:
  assumes inv: "session_inv s fds" and "0 \<le> sockfd c" "sockfd c \<in> fds"
    and fresh: "\<forall>i < MAX_SESSIONS. fd_of (slot s i) \<noteq> sockfd c"
  shows "session_inv (snd (session_open now s c)) fds"
proof (cases "session_find_private s UNUSED_SOCKET_FD")
  case None
  then show ?thesis using inv by (simp add: session_open_def)
next
  case (Some k)
  note k = find_Some [OF this]
  have len: "k < length (sessions s)" using k(1) session_invD(2) [OF inv] by simp
  have "n_authenticated_id s \<noteq> int k"
    using session_invD(8) [OF inv] k by auto
  then show ?thesis
    using inv Some k assms(2,3) fresh
    unfolding session_open_def session_inv_def
    by (auto simp: slot_update [OF len] slot_def [symmetric])
qed

lemma session_close_private_inv:
  assumes inv: "session_inv s fds" and k: "k < MAX_SESSIONS"
  shows "session_inv (fst (session_close_private s k fds)) (snd (session_close_private s k fds))"
proof -
  have len: "k < length (sessions s)" using k session_invD(2) [OF inv] by simp
  define fds' where "fds' = (if fd_of (slot s k) < 0 then fds else fds - {fd_of (slot s k)})"
  obtain c where c: "sockfd c < 0" "-1 \<le> sockfd c"
    "session_close_private s k fds = (s\<lparr>sessions := (sessions s)[k := (slot s k)\<lparr>s_extconn := c,
       s_t_auth_tout := 0, s_b_authenticated := False\<rparr>],
       n_authenticated_id := (if n_authenticated_id s = int k then -1 else n_authenticated_id s)\<rparr>, fds')"
  proof (cases "fd_of (slot s k) < 0")
    case True
    then show ?thesis
      using that [of "s_extconn (slot s k)"] session_invD(3,4) [OF inv k]
      by (auto simp: session_close_private_def extnet_is_client_closed_def slot_def fds'_def Let_def)
  next
    case False
    then show ?thesis
      using that [of "(s_extconn (slot s k))\<lparr>sockfd := -1, p_hdlr_data := None\<rparr>"] session_invD(3) [OF inv k]
      by (auto simp: session_close_private_def extnet_is_client_closed_def extnet_close_client_def
          slot_def fds'_def Let_def)
  qed
  have mem: "fd_of (slot s i) \<in> fds'" if "i < MAX_SESSIONS" "0 \<le> fd_of (slot s i)" "i \<noteq> k" for i
    using session_invD(5,7) [OF inv] that k by (auto simp: fds'_def)
  show ?thesis
    unfolding c(3) session_inv_def
    using inv c(1,2) k mem
    by (auto simp: slot_update [OF len] session_inv_def)
qed

lemma close_when_inv:
  assumes "session_inv (fst p) (snd p)" "k < MAX_SESSIONS"
  shows "session_inv (fst (close_when P k p)) (snd (close_when P k p))"
  using assms session_close_private_inv by (auto simp: close_when_def split_beta)

lemma fold_close_when_inv:
  assumes "session_inv (fst p) (snd p)" "\<forall>k \<in> set ks. k < MAX_SESSIONS"
  shows "session_inv (fst (fold (close_when P) ks p)) (snd (fold (close_when P) ks p))"
  using assms by (induction ks arbitrary: p) (simp_all add: close_when_inv)

lemma session_close_inv:
  assumes "session_inv s fds"
  shows "session_inv (fst (snd (session_close s c fds))) (snd (snd (session_close s c fds)))"
  using assms session_close_private_inv find_Some(1)
  by (auto simp: session_close_def split: option.split)

lemma session_close_many_inv:
  assumes "session_inv s fds"
  shows "session_inv (fst (session_close_all s fds)) (snd (session_close_all s fds))"
    "session_inv (fst (session_close_expired_unauth now s fds))
       (snd (session_close_expired_unauth now s fds))"
  using assms fold_close_when_inv [of "(s, fds)"]
  by (simp_all only: session_close_all_def session_close_expired_unauth_def split: if_split) simp_all

lemma session_invI:
  assumes "b_initialized s" "length (sessions s) = MAX_SESSIONS"
    and "\<And>i. i < MAX_SESSIONS \<Longrightarrow> s_id (slot s i) = int i"
    and "\<And>i. i < MAX_SESSIONS \<Longrightarrow> fd_of (slot s i) \<ge> -1"
    and "\<And>i. i < MAX_SESSIONS \<Longrightarrow> 0 \<le> fd_of (slot s i) \<Longrightarrow> fd_of (slot s i) \<in> fds"
    and "\<And>i. i < MAX_SESSIONS \<Longrightarrow> s_b_authenticated (slot s i) \<longleftrightarrow> n_authenticated_id s = int i"
    and "\<And>i j. i < MAX_SESSIONS \<Longrightarrow> j < MAX_SESSIONS \<Longrightarrow> fd_of (slot s i) = fd_of (slot s j) \<Longrightarrow>
           0 \<le> fd_of (slot s i) \<Longrightarrow> i = j"
    and "n_authenticated_id s = -1 \<or>
      (\<exists>k < MAX_SESSIONS. n_authenticated_id s = int k \<and> 0 \<le> fd_of (slot s k))"
  shows "session_inv s fds"
  using assms unfolding session_inv_def by blast

text \<open>Changing the flags of a slot, but not its connection.\<close>

lemma session_inv_flags:
  assumes inv: "session_inv s fds" and k: "k < MAX_SESSIONS"
    and p: "s_id p = int k" "s_extconn p = s_extconn (slot s k)" "s_b_authenticated p \<longleftrightarrow> n = int k"
    and n: "\<And>i. i \<noteq> k \<Longrightarrow> n = int i \<longleftrightarrow> n_authenticated_id s = int i"
      "n = -1 \<or> n = n_authenticated_id s \<or> n = int k \<and> 0 \<le> fd_of (slot s k)"
  shows "session_inv (s\<lparr>sessions := (sessions s)[k := p], n_authenticated_id := n\<rparr>) fds"
proof -
  let ?s = "s\<lparr>sessions := (sessions s)[k := p], n_authenticated_id := n\<rparr>"
  have "k < length (sessions s)" using k session_invD(2) [OF inv] by simp
  note sl = slot_update(2) [OF this, where p = p and n = n]
  have fd: "fd_of (slot ?s j) = fd_of (slot s j)" for j
    by (simp add: sl p(2))
  show ?thesis
  proof (rule session_invI)
    show "n_authenticated_id ?s = -1 \<or>
        (\<exists>k < MAX_SESSIONS. n_authenticated_id ?s = int k \<and> 0 \<le> fd_of (slot ?s k))"
      using n(2) session_invD(8) [OF inv] k unfolding fd by auto
    show "s_b_authenticated (slot ?s i) \<longleftrightarrow> n_authenticated_id ?s = int i" if "i < MAX_SESSIONS" for i
      using session_invD(6) [OF inv that] n(1) [of i] p(3) by (simp add: sl)
    show "s_id (slot ?s i) = int i" if "i < MAX_SESSIONS" for i
      using session_invD(3) [OF inv that] p(1) by (simp add: sl)
  qed (use session_invD [OF inv] in \<open>simp_all add: fd\<close>)
qed

lemma session_auth_complete_inv:
  assumes inv: "session_inv s fds" and "0 \<le> sockfd c"
  shows "session_inv (snd (session_auth_complete s c)) fds"
proof (cases "n_authenticated_id s \<ge> 0 \<or> session_find_private s (sockfd c) = None")
  case True
  then show ?thesis using inv session_invD(1) [OF inv] by (auto simp: session_auth_complete_def)
next
  case False
  then obtain k where k: "session_find_private s (sockfd c) = Some k" by auto
  note f = find_Some [OF k]
  have "n_authenticated_id s = -1"
    using False session_invD(8) [OF inv] by auto
  then have "session_inv (s\<lparr>sessions := (sessions s)[k := (slot s k)\<lparr>s_b_authenticated := True\<rparr>],
      n_authenticated_id := s_id (slot s k)\<rparr>) fds"
    using f assms(2) session_invD(3) [OF inv f(1)] by (intro session_inv_flags [OF inv f(1)]) auto
  with k False f(3) show ?thesis
    by (simp add: session_auth_complete_def slot_def)
qed

lemma session_set_data_pending_inv:
  assumes inv: "session_inv s fds"
  shows "session_inv (snd (session_set_data_pending s c b)) fds"
proof (cases "session_find_private s (sockfd c)")
  case None
  then show ?thesis using inv by (simp add: session_set_data_pending_def)
next
  case (Some k)
  note f = find_Some [OF this]
  have "session_inv (s\<lparr>sessions := (sessions s)[k := (slot s k)\<lparr>s_b_data_pending := b\<rparr>],
      n_authenticated_id := n_authenticated_id s\<rparr>) fds"
    using session_invD(3,6) [OF inv f(1)] by (intro session_inv_flags [OF inv f(1)]) auto
  with Some f(3) show ?thesis
    by (simp add: session_set_data_pending_def slot_def)
qed

section \<open>The specification: open descriptors and one authenticated among them\<close>

definition open_map :: "session \<Rightarrow> int \<rightharpoonup> int" where
  "open_map s fd = (if fd < 0 then None
     else map_option (\<lambda>i. s_t_auth_tout (slot s i)) (session_find_private s fd))"

definition auth_fd :: "session \<Rightarrow> int option" where
  "auth_fd s = map_option sockfd (session_get_authenticated_conn s)"

lemma open_map_Some:
  assumes "session_inv s fds"
  shows "open_map s fd = Some t \<longleftrightarrow>
    (\<exists>i < MAX_SESSIONS. fd_of (slot s i) = fd \<and> 0 \<le> fd \<and> t = s_t_auth_tout (slot s i))"
proof
  assume "open_map s fd = Some t"
  then obtain i where "0 \<le> fd" "session_find_private s fd = Some i" "t = s_t_auth_tout (slot s i)"
    by (auto simp: open_map_def split: if_splits)
  then show "\<exists>i < MAX_SESSIONS. fd_of (slot s i) = fd \<and> 0 \<le> fd \<and> t = s_t_auth_tout (slot s i)"
    using find_Some by blast
next
  assume "\<exists>i < MAX_SESSIONS. fd_of (slot s i) = fd \<and> 0 \<le> fd \<and> t = s_t_auth_tout (slot s i)"
  then obtain i where "i < MAX_SESSIONS" "fd_of (slot s i) = fd" "0 \<le> fd" "t = s_t_auth_tout (slot s i)"
    by blast
  then show "open_map s fd = Some t"
    using find_open [OF assms, of i] by (simp add: open_map_def)
qed

lemma open_map_eqI:
  assumes "\<And>fd t. f fd = Some t \<longleftrightarrow> g fd = Some t"
  shows "f = g"
proof
  fix fd
  show "f fd = g fd"
    using assms [of fd] by (metis not_Some_eq)
qed

lemma auth_fd_Some:
  assumes "session_inv s fds"
  shows "auth_fd s = Some fd \<longleftrightarrow>
    (\<exists>i < MAX_SESSIONS. n_authenticated_id s = int i \<and> fd_of (slot s i) = fd \<and> 0 \<le> fd)"
  using session_invD(1,8) [OF assms]
  by (auto simp: auth_fd_def session_get_authenticated_conn_def slot_def)

lemma auth_fd_None:
  assumes "session_inv s fds"
  shows "auth_fd s = None \<longleftrightarrow> n_authenticated_id s = -1"
  using session_invD(1,8) [OF assms]
  by (auto simp: auth_fd_def session_get_authenticated_conn_def)

lemma free_slot_iff:
  assumes inv: "session_inv s fds"
  shows "session_find_private s UNUSED_SOCKET_FD = None \<longleftrightarrow> card (dom (open_map s)) = MAX_SESSIONS"
    "card (dom (open_map s)) \<le> MAX_SESSIONS"
proof -
  let ?I = "{i. i < MAX_SESSIONS \<and> 0 \<le> fd_of (slot s i)}"
  have "dom (open_map s) = (\<lambda>i. fd_of (slot s i)) ` ?I"
    using open_map_Some [OF inv] by (auto simp: dom_def)
  moreover have "inj_on (\<lambda>i. fd_of (slot s i)) ?I"
    using session_invD(7) [OF inv] by (auto intro: inj_onI)
  ultimately have card: "card (dom (open_map s)) = card ?I"
    by (simp add: card_image)
  have sub: "?I \<subseteq> {..< MAX_SESSIONS}" by auto
  show "card (dom (open_map s)) \<le> MAX_SESSIONS"
    unfolding card using card_mono [OF _ sub] by simp
  have "card ?I = MAX_SESSIONS \<longleftrightarrow> ?I = {..< MAX_SESSIONS}"
  proof
    assume "card ?I = MAX_SESSIONS"
    then have "card ?I = card {..< MAX_SESSIONS}" by (simp only: card_lessThan)
    then show "?I = {..< MAX_SESSIONS}" by (rule card_subset_eq [OF finite_lessThan sub])
  qed (simp only: card_lessThan)
  also have "\<dots> \<longleftrightarrow> (\<forall>i < MAX_SESSIONS. 0 \<le> fd_of (slot s i))" by blast
  also have "\<dots> \<longleftrightarrow> (\<forall>i < MAX_SESSIONS. fd_of (slot s i) \<noteq> -1)"
  proof -
    have "0 \<le> fd_of (slot s i) \<longleftrightarrow> fd_of (slot s i) \<noteq> -1" if "i < MAX_SESSIONS" for i
      using session_invD(4) [OF inv that] by linarith
    then show ?thesis by blast
  qed
  finally show "session_find_private s UNUSED_SOCKET_FD = None \<longleftrightarrow> card (dom (open_map s)) = MAX_SESSIONS"
    unfolding card using find_None [OF session_invD(1) [OF inv]] by simp
qed

text \<open>Only what the first test of a slot sees of its descriptor decides about the loops.\<close>

lemma open_map_update:
  assumes inv: "session_inv s fds" and inv': "session_inv s' fds'" and k: "k < MAX_SESSIONS"
    and other: "\<And>j. j < MAX_SESSIONS \<Longrightarrow> j \<noteq> k \<Longrightarrow>
      fd_of (slot s' j) = fd_of (slot s j) \<and> s_t_auth_tout (slot s' j) = s_t_auth_tout (slot s j)"
    and closed: "fd_of (slot s' k) < 0"
  shows "open_map s' = (open_map s)(fd_of (slot s k) := None)"
proof (rule open_map_eqI)
  fix fd t
  have "(\<exists>j < MAX_SESSIONS. fd_of (slot s' j) = fd \<and> 0 \<le> fd \<and> t = s_t_auth_tout (slot s' j)) \<longleftrightarrow>
      (\<exists>j < MAX_SESSIONS. j \<noteq> k \<and> fd_of (slot s j) = fd \<and> 0 \<le> fd \<and> t = s_t_auth_tout (slot s j))"
    using other closed by (metis leD)
  also have "\<dots> \<longleftrightarrow> fd \<noteq> fd_of (slot s k) \<and>
      (\<exists>j < MAX_SESSIONS. fd_of (slot s j) = fd \<and> 0 \<le> fd \<and> t = s_t_auth_tout (slot s j))"
    using session_invD(7) [OF inv] k by metis
  finally show "open_map s' fd = Some t \<longleftrightarrow> ((open_map s)(fd_of (slot s k) := None)) fd = Some t"
    using open_map_Some [OF inv] open_map_Some [OF inv'] by simp
qed

lemma close_private_effect:
  assumes inv: "session_inv s fds" and k: "k < MAX_SESSIONS"
  defines "s' \<equiv> fst (session_close_private s k fds)"
  shows "open_map s' = (open_map s)(fd_of (slot s k) := None)"
    "auth_fd s' = (if auth_fd s = Some (fd_of (slot s k)) then None else auth_fd s)"
    "\<And>j. j < MAX_SESSIONS \<Longrightarrow> j \<noteq> k \<Longrightarrow> slot s' j = slot s j"
    "snd (session_close_private s k fds) = fds - ({fd_of (slot s k)} \<inter> {0..})"
proof -
  have len: "k < length (sessions s)" using k session_invD(2) [OF inv] by simp
  have inv': "session_inv s' (snd (session_close_private s k fds))"
    unfolding s'_def by (rule session_close_private_inv [OF inv k])
  show other: "\<And>j. j < MAX_SESSIONS \<Longrightarrow> j \<noteq> k \<Longrightarrow> slot s' j = slot s j"
    by (simp add: s'_def session_close_private_def Let_def split_beta slot_update [OF len])
  have closed: "fd_of (slot s' k) < 0"
    by (auto simp: s'_def session_close_private_def Let_def split_beta slot_update [OF len]
        extnet_is_client_closed_def extnet_close_client_def)
  show "open_map s' = (open_map s)(fd_of (slot s k) := None)"
    using other closed by (intro open_map_update [OF inv inv' k]) auto
  have n: "n_authenticated_id s' = (if n_authenticated_id s = int k then -1 else n_authenticated_id s)"
    using session_invD(3) [OF inv k]
    by (auto simp: s'_def session_close_private_def Let_def split_beta slot_def)
  have fdk: "auth_fd s = Some (fd_of (slot s k)) \<longleftrightarrow> n_authenticated_id s = int k"
    using auth_fd_Some [OF inv] session_invD(7,8) [OF inv] k by fastforce
  show "auth_fd s' = (if auth_fd s = Some (fd_of (slot s k)) then None else auth_fd s)"
  proof (cases "n_authenticated_id s = int k")
    case True
    with fdk n auth_fd_None [OF inv'] show ?thesis by simp
  next
    case False
    have "auth_fd s' = Some fd \<longleftrightarrow> auth_fd s = Some fd" for fd
      unfolding auth_fd_Some [OF inv] auth_fd_Some [OF inv'] using n False other by auto
    then have "auth_fd s' = auth_fd s" by (metis not_Some_eq)
    with False fdk show ?thesis by simp
  qed
  show "snd (session_close_private s k fds) = fds - ({fd_of (slot s k)} \<inter> {0..})"
    by (auto simp: session_close_private_def Let_def split_beta slot_def
        extnet_is_client_closed_def extnet_close_client_def)
qed

definition doomed :: "(session_t \<Rightarrow> bool) \<Rightarrow> nat list \<Rightarrow> session \<Rightarrow> int set" where
  "doomed P ks s = (\<lambda>k. fd_of (slot s k)) ` {k \<in> set ks. P (slot s k)}"

lemma close_when_effect:
  fixes P
  assumes "session_inv s fds" "k < MAX_SESSIONS"
  defines "s' \<equiv> fst (close_when P k (s, fds))"
  shows "open_map s' = open_map s |` (- doomed P [k] s)"
    "auth_fd s' = (case auth_fd s of None \<Rightarrow> None | Some fd \<Rightarrow> if fd \<in> doomed P [k] s then None else Some fd)"
    "\<And>j. j < MAX_SESSIONS \<Longrightarrow> j \<noteq> k \<Longrightarrow> slot s' j = slot s j"
    "snd (close_when P k (s, fds)) = fds - (doomed P [k] s \<inter> {0..})"
  using close_private_effect [OF assms(1,2)]
  by (auto simp: s'_def close_when_def doomed_def slot_def restrict_map_def fun_eq_iff
      split: option.split)

lemma close_when_fold_effect:
  fixes P
  assumes "session_inv s fds" "distinct ks" "\<forall>k \<in> set ks. k < MAX_SESSIONS"
  defines "s' \<equiv> fst (fold (close_when P) ks (s, fds))"
  shows "open_map s' = open_map s |` (- doomed P ks s) \<and>
    auth_fd s' = (case auth_fd s of None \<Rightarrow> None | Some fd \<Rightarrow> if fd \<in> doomed P ks s then None else Some fd) \<and>
    snd (fold (close_when P) ks (s, fds)) = fds - (doomed P ks s \<inter> {0..})"
  using assms(1-3) unfolding s'_def
proof (induction ks arbitrary: s fds)
  case Nil
  then show ?case by (auto simp: doomed_def split: option.split)
next
  case (Cons k ks)
  obtain s1 fds1 where s1: "close_when P k (s, fds) = (s1, fds1)" by fastforce
  have k: "k < MAX_SESSIONS" using Cons.prems(3) by simp
  have inv1: "session_inv s1 fds1"
    using close_when_inv [of "(s, fds)" k P] Cons.prems(1) k s1 by simp
  note eff = close_when_effect [OF Cons.prems(1) k, where P = P, unfolded s1 fst_conv snd_conv]
  have "slot s1 j = slot s j" if "j \<in> set ks" for j
    using eff(3) that Cons.prems(2,3) by auto
  then have "doomed P ks s1 = doomed P ks s"
    by (auto simp: doomed_def)
  moreover have "doomed P (k # ks) s = doomed P [k] s \<union> doomed P ks s"
    by (auto simp: doomed_def)
  ultimately show ?case
    using Cons.IH [OF inv1] Cons.prems(2,3) eff(1,2,4) s1
    by (auto simp: restrict_map_def fun_eq_iff split: option.split)
qed

section \<open>Refinement\<close>

text \<open>The operations as one step function, and what the specification says of each.\<close>

datatype session_op =
    Op_Open extnet_conn int
  | Op_Close extnet_conn
  | Op_CloseAll
  | Op_Expire int
  | Op_Auth extnet_conn
  | Op_Pending extnet_conn bool

fun session_do :: "session_op \<Rightarrow> session \<times> fds \<Rightarrow> status \<times> session \<times> fds" where
  "session_do (Op_Open c now) (s, fds) = (let (st, s) = session_open now s c in (st, s, fds))"
| "session_do (Op_Close c) (s, fds) = session_close s c fds"
| "session_do Op_CloseAll (s, fds) = (ST_OK, session_close_all s fds)"
| "session_do (Op_Expire now) (s, fds) = (ST_OK, session_close_expired_unauth now s fds)"
| "session_do (Op_Auth c) (s, fds) = (let (st, s) = session_auth_complete s c in (st, s, fds))"
| "session_do (Op_Pending c b) (s, fds) = (let (st, s) = session_set_data_pending s c b in (st, s, fds))"

type_synonym session_spec = "(int \<rightharpoonup> int) \<times> int option"

fun spec_do :: "session_op \<Rightarrow> session_spec \<Rightarrow> status \<times> session_spec" where
  "spec_do (Op_Open c now) (m, a) =
     (if card (dom m) < MAX_SESSIONS then (ST_OK, m(sockfd c \<mapsto> 15 + now), a) else (ST_ERR, m, a))"
| "spec_do (Op_Close c) (m, a) =
     (if sockfd c \<in> dom m
      then (ST_OK, m(sockfd c := None), if a = Some (sockfd c) then None else a) else (ST_ERR, m, a))"
| "spec_do Op_CloseAll (m, a) = (ST_OK, Map.empty, None)"
| "spec_do (Op_Expire now) (m, a) =
     (ST_OK, m |` {fd. a = Some fd \<or> (\<exists>t. m fd = Some t \<and> now < t)}, a)"
| "spec_do (Op_Auth c) (m, a) =
     (if a = None \<and> sockfd c \<in> dom m then (ST_OK, m, Some (sockfd c)) else (ST_ERR, m, a))"
| "spec_do (Op_Pending c b) (m, a) = (if sockfd c \<in> dom m then ST_OK else ST_ERR, m, a)"

definition session_abs :: "session \<Rightarrow> session_spec" where
  "session_abs s = (open_map s, auth_fd s)"

text \<open>
  What the callers guarantee: a connection that is opened is a fresh descriptor of the kernel,
  one that is authenticated or flagged has a descriptor.
\<close>

fun op_allowed :: "session_op \<Rightarrow> session \<times> fds \<Rightarrow> bool" where
  "op_allowed (Op_Open c now) (s, fds) =
     (0 \<le> sockfd c \<and> sockfd c \<in> fds \<and> sockfd c \<notin> dom (open_map s))"
| "op_allowed (Op_Auth c) (s, fds) = (0 \<le> sockfd c)"
| "op_allowed (Op_Pending c b) (s, fds) = (0 \<le> sockfd c)"
| "op_allowed _ _ = True"

lemma find_open_map:
  assumes "session_inv s fds" "0 \<le> fd"
  shows "session_find_private s fd = None \<longleftrightarrow> fd \<notin> dom (open_map s)"
  using assms(2) by (simp add: open_map_def domIff)

lemma session_do_inv:
  assumes "session_inv s fds" "op_allowed op (s, fds)"
  shows "session_inv (fst (snd (session_do op (s, fds)))) (snd (snd (session_do op (s, fds))))"
proof (cases op)
  case (Op_Open c now)
  have "\<forall>i < MAX_SESSIONS. fd_of (slot s i) \<noteq> sockfd c"
    using assms Op_Open find_open_map [OF assms(1)] find_None session_invD(1) [OF assms(1)] by auto
  with Op_Open assms show ?thesis
    using session_open_inv [OF assms(1), of c now] by (simp add: split_beta)
qed (use assms session_close_inv session_close_many_inv session_auth_complete_inv
    session_set_data_pending_inv in \<open>simp_all add: split_beta\<close>)

lemma refine_open:
  assumes inv: "session_inv s fds" and ok: "op_allowed (Op_Open c now) (s, fds)"
  defines "s' \<equiv> snd (session_open now s c)"
  shows "(fst (session_open now s c), session_abs s') = spec_do (Op_Open c now) (session_abs s)"
proof (cases "session_find_private s UNUSED_SOCKET_FD")
  case None
  then have "card (dom (open_map s)) = MAX_SESSIONS" using free_slot_iff(1) [OF inv] by blast
  with None show ?thesis by (simp add: s'_def session_open_def session_abs_def)
next
  case (Some k)
  note f = find_Some [OF this]
  have "card (dom (open_map s)) \<noteq> MAX_SESSIONS" using free_slot_iff(1) [OF inv] Some by simp
  then have card: "card (dom (open_map s)) < MAX_SESSIONS"
    using free_slot_iff(2) [OF inv] by linarith
  have len: "k < length (sessions s)" using f(1) session_invD(2) [OF inv] by simp
  have inv': "session_inv s' fds"
    using session_do_inv [OF inv ok] by (simp add: s'_def split_beta)
  have sl: "slot s' j = (if j = k then (slot s k)\<lparr>s_extconn := c, s_t_auth_tout := 15 + now,
      s_b_authenticated := False\<rparr> else slot s j)" for j
    using Some by (simp add: s'_def session_open_def slot_update [OF len]) (simp add: slot_def)
  have n: "n_authenticated_id s' = n_authenticated_id s"
    using Some by (simp add: s'_def session_open_def)
  have "open_map s' = (open_map s)(sockfd c \<mapsto> 15 + now)"
  proof (rule open_map_eqI)
    fix fd t
    have "(\<exists>j < MAX_SESSIONS. fd_of (slot s' j) = fd \<and> 0 \<le> fd \<and> t = s_t_auth_tout (slot s' j)) \<longleftrightarrow>
        fd = sockfd c \<and> 0 \<le> fd \<and> t = 15 + now \<or>
        (\<exists>j < MAX_SESSIONS. j \<noteq> k \<and> fd_of (slot s j) = fd \<and> 0 \<le> fd \<and> t = s_t_auth_tout (slot s j))"
      using f(1) unfolding sl by auto
    also have "\<dots> \<longleftrightarrow> fd = sockfd c \<and> 0 \<le> fd \<and> t = 15 + now \<or> open_map s fd = Some t"
      using open_map_Some [OF inv] f by auto
    finally show "open_map s' fd = Some t \<longleftrightarrow> ((open_map s)(sockfd c \<mapsto> 15 + now)) fd = Some t"
      using open_map_Some [OF inv'] ok by (auto simp: domIff)
  qed
  moreover have "auth_fd s' = auth_fd s"
  proof -
    have "auth_fd s' = Some fd \<longleftrightarrow> auth_fd s = Some fd" for fd
      unfolding auth_fd_Some [OF inv] auth_fd_Some [OF inv'] n sl
      using session_invD(8) [OF inv] f by auto
    then show ?thesis by (metis not_Some_eq)
  qed
  ultimately show ?thesis
    using Some card by (simp add: s'_def session_open_def session_abs_def)
qed

lemma refine_close:
  assumes inv: "session_inv s fds"
  shows "(fst (session_close s c fds), session_abs (fst (snd (session_close s c fds)))) =
    spec_do (Op_Close c) (session_abs s)"
proof (cases "session_find_private s (sockfd c)")
  case None
  then have "sockfd c \<notin> dom (open_map s)" by (auto simp: open_map_def split: if_splits)
  with None show ?thesis by (simp add: session_close_def session_abs_def)
next
  case (Some k)
  note f = find_Some [OF this]
  note eff = close_private_effect [OF inv f(1)]
  show ?thesis
  proof (cases "sockfd c < 0")
    case True
    then have "sockfd c = -1" using f session_invD(4) [OF inv f(1)] by linarith
    then show ?thesis by (auto simp: session_close_def session_abs_def open_map_def)
  next
    case False
    then have "sockfd c \<in> dom (open_map s)" using Some by (auto simp: open_map_def)
    with Some False eff(1,2) f show ?thesis by (simp add: session_close_def session_abs_def)
  qed
qed

lemma restrict_empty_iff: "(\<And>x y. m x = Some y \<Longrightarrow> x \<notin> A) \<Longrightarrow> m |` A = Map.empty"
  by (auto simp: restrict_map_def fun_eq_iff) (metis not_Some_eq)

lemma refine_close_all:
  assumes inv: "session_inv s fds"
  shows "session_abs (fst (session_close_all s fds)) = (Map.empty, None)"
proof -
  let ?P = "\<lambda>p. \<not> extnet_is_client_closed (s_extconn p)"
  have all: "fd \<in> doomed ?P [0 ..< MAX_SESSIONS] s" if "open_map s fd = Some t" for fd t
    using that open_map_Some [OF inv] by (auto simp: doomed_def extnet_is_client_closed_def)
  have "open_map s |` (- doomed ?P [0 ..< MAX_SESSIONS] s) = Map.empty"
    using all by (intro restrict_empty_iff) auto
  moreover have "fd \<in> doomed ?P [0 ..< MAX_SESSIONS] s" if "auth_fd s = Some fd" for fd
    using that auth_fd_Some [OF inv] by (auto simp: doomed_def extnet_is_client_closed_def)
  ultimately show ?thesis
    using close_when_fold_effect [OF inv, of "[0 ..< MAX_SESSIONS]" ?P] session_invD(1) [OF inv]
    by (auto simp: session_close_all_def session_abs_def split: option.split)
qed

lemma auth_fd_slot:
  assumes inv: "session_inv s fds" and "k < MAX_SESSIONS" "0 \<le> fd_of (slot s k)"
  shows "auth_fd s = Some (fd_of (slot s k)) \<longleftrightarrow> s_b_authenticated (slot s k)"
  using auth_fd_Some [OF inv] session_invD(6,7) [OF inv] assms(2,3) by (metis of_nat_eq_iff)

lemma refine_expire:
  assumes inv: "session_inv s fds"
  shows "session_abs (fst (session_close_expired_unauth now s fds)) =
    snd (spec_do (Op_Expire now) (session_abs s))"
proof -
  let ?P = "\<lambda>p. \<not> extnet_is_client_closed (s_extconn p) \<and> \<not> s_b_authenticated p \<and> s_t_auth_tout p \<le> now"
  let ?D = "doomed ?P [0 ..< MAX_SESSIONS] s"
  have doomed: "fd \<in> ?D \<longleftrightarrow> auth_fd s \<noteq> Some fd \<and> t \<le> now" if om: "open_map s fd = Some t" for fd t
  proof -
    obtain i where i: "i < MAX_SESSIONS" "fd_of (slot s i) = fd" "0 \<le> fd" "t = s_t_auth_tout (slot s i)"
      using om open_map_Some [OF inv] by blast
    have uniq: "k = i" if "k < MAX_SESSIONS" "fd_of (slot s k) = fd" for k
      using session_invD(7) [OF inv that(1) i(1)] that(2) i(2,3) by simp
    have "fd \<in> ?D \<longleftrightarrow> (\<exists>k < MAX_SESSIONS. ?P (slot s k) \<and> fd_of (slot s k) = fd)"
      unfolding doomed_def by auto
    also have "\<dots> \<longleftrightarrow> ?P (slot s i)"
      using uniq i(1,2) by blast
    finally have "fd \<in> ?D \<longleftrightarrow> ?P (slot s i)" .
    then show ?thesis
      using i auth_fd_slot [OF inv i(1)] by (simp add: extnet_is_client_closed_def)
  qed
  have "open_map s |` (- ?D) = open_map s |` {fd. auth_fd s = Some fd \<or> (\<exists>t. open_map s fd = Some t \<and> now < t)}"
  proof
    fix fd
    show "(open_map s |` (- ?D)) fd =
        (open_map s |` {fd. auth_fd s = Some fd \<or> (\<exists>t. open_map s fd = Some t \<and> now < t)}) fd"
      using doomed [of fd] by (cases "open_map s fd") (auto simp: restrict_map_def)
  qed
  moreover have "fd \<notin> ?D" if au: "auth_fd s = Some fd" for fd
  proof -
    obtain t where "open_map s fd = Some t"
      using au auth_fd_Some [OF inv] open_map_Some [OF inv] by blast
    then show ?thesis using doomed au by blast
  qed
  ultimately show ?thesis
    using close_when_fold_effect [OF inv, of "[0 ..< MAX_SESSIONS]" ?P] session_invD(1) [OF inv]
    by (auto simp: session_close_expired_unauth_def session_abs_def split: option.split)
qed

lemma refine_auth:
  assumes inv: "session_inv s fds" and fd: "0 \<le> sockfd c"
  shows "(fst (session_auth_complete s c), session_abs (snd (session_auth_complete s c))) =
    spec_do (Op_Auth c) (session_abs s)"
proof (cases "n_authenticated_id s \<ge> 0")
  case True
  then have "auth_fd s \<noteq> None" using auth_fd_None [OF inv] by auto
  with True session_invD(1) [OF inv] show ?thesis
    by (simp add: session_auth_complete_def session_abs_def)
next
  case False
  then have none: "auth_fd s = None"
    using auth_fd_None [OF inv] session_invD(8) [OF inv] by auto
  show ?thesis
  proof (cases "session_find_private s (sockfd c)")
    case None
    then show ?thesis
      using False none session_invD(1) [OF inv] find_open_map [OF inv fd]
      by (simp add: session_auth_complete_def session_abs_def)
  next
    case (Some k)
    note f = find_Some [OF this]
    have len: "k < length (sessions s)" using f(1) session_invD(2) [OF inv] by simp
    define s' where "s' = snd (session_auth_complete s c)"
    have inv': "session_inv s' fds" unfolding s'_def by (rule session_auth_complete_inv [OF inv fd])
    have s': "s' = s\<lparr>sessions := (sessions s)[k := (slot s k)\<lparr>s_b_authenticated := True\<rparr>],
        n_authenticated_id := s_id (slot s k)\<rparr>"
      using Some False f(3) by (simp add: s'_def session_auth_complete_def slot_def)
    then have sl: "slot s' j = (if j = k then (slot s k)\<lparr>s_b_authenticated := True\<rparr> else slot s j)" for j
      by (simp add: slot_update [OF len])
    have "open_map s' = open_map s"
    proof (rule open_map_eqI)
      fix fd t
      show "open_map s' fd = Some t \<longleftrightarrow> open_map s fd = Some t"
        unfolding open_map_Some [OF inv] open_map_Some [OF inv'] sl by auto
    qed
    moreover have "auth_fd s' = Some (sockfd c)"
    proof -
      have "n_authenticated_id s' = int k" using session_invD(3) [OF inv f(1)] by (simp add: s')
      then show ?thesis unfolding auth_fd_Some [OF inv'] using f fd by (auto simp: sl)
    qed
    moreover have "sockfd c \<in> dom (open_map s)"
      using Some find_open_map [OF inv fd] by auto
    ultimately show ?thesis
      using none Some False f(3) s'_def by (simp add: session_abs_def session_auth_complete_def)
  qed
qed

lemma refine_pending:
  assumes inv: "session_inv s fds" and fd: "0 \<le> sockfd c"
  shows "(fst (session_set_data_pending s c b), session_abs (snd (session_set_data_pending s c b))) =
    spec_do (Op_Pending c b) (session_abs s)"
proof (cases "session_find_private s (sockfd c)")
  case None
  then show ?thesis
    using session_invD(1) [OF inv] find_open_map [OF inv fd]
    by (simp add: session_set_data_pending_def session_abs_def)
next
  case (Some k)
  note f = find_Some [OF this]
  have len: "k < length (sessions s)" using f(1) session_invD(2) [OF inv] by simp
  define s' where "s' = snd (session_set_data_pending s c b)"
  have inv': "session_inv s' fds" unfolding s'_def by (rule session_set_data_pending_inv [OF inv])
  have s': "s' = s\<lparr>sessions := (sessions s)[k := (slot s k)\<lparr>s_b_data_pending := b\<rparr>]\<rparr>"
    using Some f(3) by (simp add: s'_def session_set_data_pending_def slot_def)
  then have sl: "slot s' j = (if j = k then (slot s k)\<lparr>s_b_data_pending := b\<rparr> else slot s j)" for j
    by (simp add: slot_update [OF len])
  have "open_map s' = open_map s"
  proof (rule open_map_eqI)
    fix fd t
    show "open_map s' fd = Some t \<longleftrightarrow> open_map s fd = Some t"
      unfolding open_map_Some [OF inv] open_map_Some [OF inv'] sl by auto
  qed
  moreover have "auth_fd s' = auth_fd s"
  proof -
    have "auth_fd s' = Some fd \<longleftrightarrow> auth_fd s = Some fd" for fd
      unfolding auth_fd_Some [OF inv] auth_fd_Some [OF inv'] sl by (auto simp: s')
    then show ?thesis by (metis not_Some_eq)
  qed
  moreover have "sockfd c \<in> dom (open_map s)"
    using Some find_open_map [OF inv fd] by auto
  ultimately show ?thesis
    using Some f(3) s'_def by (simp add: session_abs_def session_set_data_pending_def)
qed

lemma session_do_refines:
  assumes "session_inv s fds" "op_allowed op (s, fds)"
  shows "(fst (session_do op (s, fds)), session_abs (fst (snd (session_do op (s, fds))))) =
    spec_do op (session_abs s)"
proof (cases op)
  case (Op_Open c now)
  with assms refine_open [OF assms(1)] show ?thesis by (simp add: split_beta)
next
  case (Op_Expire now)
  with refine_expire [OF assms(1), of now] show ?thesis by (simp add: session_abs_def)
qed (use assms refine_close refine_close_all refine_auth refine_pending in \<open>simp_all add: split_beta session_abs_def\<close>)

text \<open>The states the server can bring the table into.\<close>

inductive session_reach :: "session \<Rightarrow> fds \<Rightarrow> bool" where
  init: "session_init hdlr garbage = Some s \<Longrightarrow> session_reach s fds"
| step: "session_reach s fds \<Longrightarrow> op_allowed op (s, fds) \<Longrightarrow> session_do op (s, fds) = (st, s', fds') \<Longrightarrow>
    session_reach s' fds'"
| kernel: "session_reach s fds \<Longrightarrow> session_reach s (insert fd fds)"

inductive_cases session_reachE: "session_reach s fds"

lemma session_inv_more_fds: "session_inv s fds \<Longrightarrow> session_inv s (insert fd fds)"
  unfolding session_inv_def by blast

lemma session_reach_inv: "session_reach s fds \<Longrightarrow> session_inv s fds"
proof (induction rule: session_reach.induct)
  case (step s fds op st s' fds')
  then show ?case using session_do_inv [OF step.IH step.hyps(2)] by simp
qed (auto intro: session_init_inv session_inv_more_fds)

section \<open>Properties of the table\<close>

text \<open>
  C6. The session table implements its specification. In every state the server can reach,
  each operation its callers may call returns the status and has the effect of the plain
  specification over open descriptors and one authenticated descriptor, and it leads to a
  state the server can reach again.
\<close>

theorem session_refines:
  assumes "session_reach s fds" "op_allowed op (s, fds)"
    and "session_do op (s, fds) = (st, s', fds')"
  shows "spec_do op (session_abs s) = (st, session_abs s') \<and> session_reach s' fds'"
  using session_do_refines [OF session_reach_inv [OF assms(1)] assms(2)] assms session_reach.step
  by auto

definition sample_conn :: "int \<Rightarrow> extnet_conn" where
  "sample_conn fd = \<lparr>sockfd = fd, p_hdlr_data = None\<rparr>"

definition empty_session :: session where
  "empty_session = the (session_init (\<lambda>_. ST_OK) (sample_conn 0))"

lemma empty_session_reach: "session_reach empty_session fds"
  by (rule session_reach.init [of "\<lambda>_. ST_OK" "sample_conn 0"])
    (simp add: empty_session_def session_init_def extnet_init_client_def list_all_iff)

lemma empty_open_map: "open_map empty_session = Map.empty"
proof -
  have "open_map empty_session fd = None" for fd
  proof (rule ccontr)
    assume "open_map empty_session fd \<noteq> None"
    then obtain i where "i < MAX_SESSIONS" "fd_of (slot empty_session i) = fd" "0 \<le> fd"
      using open_map_Some [OF session_reach_inv [OF empty_session_reach]] by fastforce
    then show False
      by (simp add: empty_session_def session_init_def extnet_init_client_def slot_def list_all_iff)
  qed
  then show ?thesis by auto
qed

lemma session_refines_witness:
  "\<exists>st s' fds'. session_do (Op_Open (sample_conn 7) 100) (empty_session, {7}) = (st, s', fds') \<and>
    spec_do (Op_Open (sample_conn 7) 100) (session_abs empty_session) = (st, session_abs s') \<and>
    session_reach s' fds'"
proof -
  obtain st s' fds' where d: "session_do (Op_Open (sample_conn 7) 100) (empty_session, {7}) = (st, s', fds')"
    by (metis prod_cases3)
  have "op_allowed (Op_Open (sample_conn 7) 100) (empty_session, {7})"
    by (simp add: empty_open_map sample_conn_def)
  from session_refines [OF empty_session_reach this d] d show ?thesis by blast
qed

lemma already_authenticated_iff:
  assumes inv: "session_inv s fds"
  shows "session_already_authenticated s c = ST_OK \<longleftrightarrow> auth_fd s = Some (sockfd c)"
proof (cases "sockfd c < 0")
  case True
  then show ?thesis
    using auth_fd_Some [OF inv] by (auto simp: session_already_authenticated_def extnet_is_client_closed_def)
next
  case False
  show ?thesis
  proof (cases "session_find_private s (sockfd c)")
    case None
    then have "open_map s (sockfd c) = None" by (simp add: open_map_def)
    then have "auth_fd s \<noteq> Some (sockfd c)"
      using auth_fd_Some [OF inv] open_map_Some [OF inv] by (metis option.distinct(1))
    with None show ?thesis by (simp add: session_already_authenticated_def)
  next
    case (Some k)
    note f = find_Some [OF this]
    have "auth_fd s = Some (sockfd c) \<longleftrightarrow> s_b_authenticated (slot s k)"
      using auth_fd_slot [OF inv f(1)] f(2) False by simp
    with Some False f(3) show ?thesis
      by (simp add: session_already_authenticated_def extnet_is_client_closed_def slot_def)
  qed
qed

text \<open>
  C7. Only one remote debugger at a time is authenticated: in every reachable state two
  connections that both count as authenticated are the same descriptor, that descriptor is an
  open one of the process, it is the one \<^verbatim>\<open>session_get_authenticated_conn\<close> reports, and no
  connection can complete authentication while there is one.
\<close>

theorem one_authenticated_session:
  assumes "session_reach s fds" "session_already_authenticated s c = ST_OK"
  shows "(\<forall>d. session_already_authenticated s d = ST_OK \<longleftrightarrow> sockfd d = sockfd c) \<and>
    sockfd c \<in> fds \<and> map_option sockfd (session_get_authenticated_conn s) = Some (sockfd c) \<and>
    (\<forall>d. session_auth_complete s d = (ST_ERR, s))"
proof -
  note inv = session_reach_inv [OF assms(1)]
  have au: "auth_fd s = Some (sockfd c)"
    using assms(2) already_authenticated_iff [OF inv] by simp
  then obtain i where i: "i < MAX_SESSIONS" "n_authenticated_id s = int i" "fd_of (slot s i) = sockfd c"
      "0 \<le> sockfd c"
    using auth_fd_Some [OF inv] by blast
  then have "sockfd c \<in> fds" using session_invD(5) [OF inv] by metis
  moreover have "session_auth_complete s d = (ST_ERR, s)" for d
    using i(2) by (simp add: session_auth_complete_def)
  ultimately show ?thesis
    using au already_authenticated_iff [OF inv] by (auto simp: auth_fd_def)
qed

lemma one_authenticated_session_witness:
  defines "s \<equiv> snd (session_auth_complete (snd (session_open 100 empty_session (sample_conn 7))) (sample_conn 7))"
  shows "session_already_authenticated s (sample_conn 7) = ST_OK \<and> sockfd (sample_conn 7) \<in> {7 :: int} \<and>
    (\<forall>d. session_auth_complete s d = (ST_ERR, s))"
proof -
  have 1: "session_reach (snd (session_open 100 empty_session (sample_conn 7))) {7}"
    by (rule session_reach.step [OF empty_session_reach [of "{7}"],
        where op = "Op_Open (sample_conn 7) 100" and st = "fst (session_open 100 empty_session (sample_conn 7))"])
      (simp_all add: empty_open_map sample_conn_def split_beta)
  have 2: "session_reach s {7}"
    unfolding s_def
    by (rule session_reach.step [OF 1, where op = "Op_Auth (sample_conn 7)" and
        st = "fst (session_auth_complete (snd (session_open 100 empty_session (sample_conn 7))) (sample_conn 7))"])
      (simp_all add: sample_conn_def split_beta)
  have 3: "session_already_authenticated s (sample_conn 7) = ST_OK"
    unfolding s_def by code_simp
  from one_authenticated_session [OF 2 3] 3 show ?thesis by blast
qed

text \<open>The descriptors polled, and when the poll must wake up at the latest.\<close>

definition open_slots :: "session \<Rightarrow> nat list \<Rightarrow> nat list" where
  "open_slots s ks = filter (\<lambda>k. 0 \<le> fd_of (slot s k)) ks"

definition remaining_ms :: "int \<Rightarrow> session_t \<Rightarrow> int" where
  "remaining_ms now p = max 0 (signed_take_bit 31 (1000 * (s_t_auth_tout p - now)))"

lemma getfds_fold:
  assumes inv: "session_inv s fds" and "\<forall>k \<in> set ks. k < MAX_SESSIONS"
    and "fold (getfds_slot now s) ks (fdl, tmo, pending, zero) = (fdl', tmo', pending', zero')"
  shows "fdl' = fdl @ map (\<lambda>k. fd_of (slot s k)) (open_slots s ks) \<and>
    (zero' \<longleftrightarrow> zero \<or> (\<exists>k \<in> set (open_slots s ks). s_b_data_pending (slot s k))) \<and>
    (0 \<le> tmo \<longrightarrow> 0 \<le> tmo' \<and> tmo' \<le> tmo) \<and>
    (\<forall>k \<in> set (open_slots s ks). \<not> s_b_authenticated (slot s k) \<longrightarrow>
      0 \<le> tmo' \<and> tmo' \<le> remaining_ms now (slot s k))"
  using assms(2,3)
proof (induction ks arbitrary: fdl tmo pending zero)
  case Nil
  then show ?case by (simp add: open_slots_def)
next
  case (Cons k ks)
  have k: "k < MAX_SESSIONS" using Cons.prems(1) by simp
  show ?case
  proof (cases "fd_of (slot s k) < 0")
    case True
    then have "getfds_slot now s k (fdl, tmo, pending, zero) = (fdl, tmo, pending, zero)"
      by (simp add: getfds_slot_def extnet_is_client_closed_def slot_def)
    moreover have "open_slots s (k # ks) = open_slots s ks" using True by (simp add: open_slots_def)
    ultimately show ?thesis using Cons by simp
  next
    case False
    define tmo1 where "tmo1 = (if s_b_authenticated (slot s k) then tmo
      else if tmo < 0 \<or> remaining_ms now (slot s k) < tmo then remaining_ms now (slot s k) else tmo)"
    let ?b = "s_b_data_pending (slot s k)"
    have "session_get_data_pending s (s_extconn (slot s k)) = Some ?b"
      using find_open [OF inv k] False session_invD(1) [OF inv]
      by (simp add: session_get_data_pending_def slot_def)
    then have "getfds_slot now s k (fdl, tmo, pending, zero) = (fdl @ [fd_of (slot s k)], tmo1, ?b, zero \<or> ?b)"
      using False
      by (simp add: getfds_slot_def extnet_is_client_closed_def tmo1_def remaining_ms_def Let_def slot_def)
    then have "fold (getfds_slot now s) ks (fdl @ [fd_of (slot s k)], tmo1, ?b, zero \<or> ?b) =
        (fdl', tmo', pending', zero')"
      using Cons.prems(2) by simp
    from Cons.IH [OF _ this] Cons.prems(1) have IH:
      "fdl' = (fdl @ [fd_of (slot s k)]) @ map (\<lambda>k. fd_of (slot s k)) (open_slots s ks)"
      "zero' \<longleftrightarrow> (zero \<or> ?b) \<or> (\<exists>k \<in> set (open_slots s ks). s_b_data_pending (slot s k))"
      "0 \<le> tmo1 \<longrightarrow> 0 \<le> tmo' \<and> tmo' \<le> tmo1"
      "\<forall>k \<in> set (open_slots s ks). \<not> s_b_authenticated (slot s k) \<longrightarrow>
        0 \<le> tmo' \<and> tmo' \<le> remaining_ms now (slot s k)"
      by auto
    have "open_slots s (k # ks) = k # open_slots s ks" using False by (simp add: open_slots_def)
    moreover have "0 \<le> remaining_ms now (slot s k)" by (simp add: remaining_ms_def)
    ultimately show ?thesis
      using IH by (auto simp: tmo1_def split: if_splits)
  qed
qed

text \<open>
  The main loop polls exactly the open sessions and never sleeps past the deadline of one:
  the descriptors are those of the open sessions, each once; the timeout is zero when data is
  already pending for one of them, and otherwise at most the time left to every session that
  has not authenticated yet, so an idle unauthenticated connection cannot keep its slot.
\<close>

theorem getfds_wakes_up:
  assumes "session_reach s fds"
  shows "\<exists>fdl tmo. session_getfds now s timeout_ms = Some (fdl, tmo) \<and> set fdl = dom (open_map s) \<and>
    distinct fdl \<and>
    ((\<exists>k < MAX_SESSIONS. 0 \<le> fd_of (slot s k) \<and> s_b_data_pending (slot s k)) \<longrightarrow> tmo = 0) \<and>
    (\<forall>k < MAX_SESSIONS. 0 \<le> fd_of (slot s k) \<and> \<not> s_b_authenticated (slot s k) \<longrightarrow>
      0 \<le> tmo \<and> tmo \<le> remaining_ms now (slot s k))"
proof -
  note inv = session_reach_inv [OF assms]
  obtain fdl tmo p zero where fold: "fold (getfds_slot now s) [0 ..< MAX_SESSIONS] ([], timeout_ms, False, False) =
      (fdl, tmo, p, zero)"
    by (metis prod_cases4)
  note f = getfds_fold [OF inv _ fold, simplified]
  have os: "set (open_slots s [0 ..< MAX_SESSIONS]) = {k. k < MAX_SESSIONS \<and> 0 \<le> fd_of (slot s k)}"
    by (auto simp: open_slots_def)
  have "set fdl = dom (open_map s)"
    using f os open_map_Some [OF inv] by (fastforce simp: dom_def)
  moreover have "distinct fdl"
  proof -
    have "inj_on (\<lambda>k. fd_of (slot s k)) (set (open_slots s [0 ..< MAX_SESSIONS]))"
      unfolding os using session_invD(7) [OF inv] by (auto intro: inj_onI)
    then show ?thesis using f by (simp add: distinct_map open_slots_def)
  qed
  moreover have "session_getfds now s timeout_ms = Some (fdl, if zero then 0 else tmo)"
    using session_invD(1) [OF inv] fold by (simp add: session_getfds_def)
  moreover have "0 \<le> remaining_ms now q" for q by (simp add: remaining_ms_def)
  ultimately show ?thesis
    using f os by auto
qed

lemma getfds_wakes_up_witness:
  "\<exists>fdl tmo. session_getfds 5 empty_session (-1) = Some (fdl, tmo) \<and> set fdl = dom (open_map empty_session) \<and>
    distinct fdl"
  using getfds_wakes_up [OF empty_session_reach, of 5 "-1"] by blast

lemma find_firstI:
  assumes "b_initialized s" "k < MAX_SESSIONS" "fd_of (slot s k) = fd" "\<forall>j < k. fd_of (slot s j) \<noteq> fd"
  shows "session_find_private s fd = Some k"
proof -
  have "[0 ..< MAX_SESSIONS] = [0 ..< k] @ k # [Suc k ..< MAX_SESSIONS]"
    using upt_add_eq_append [of 0 k "MAX_SESSIONS - k"] assms(2) by (simp add: upt_conv_Cons)
  moreover have "filter (\<lambda>i. fd_of (sessions s ! i) = fd) [0 ..< k] = []"
    using assms(4) by (simp add: filter_empty_conv slot_def)
  ultimately show ?thesis
    using assms(1,3) by (simp add: session_find_private_def slot_def)
qed

text \<open>
  A new session inherits the data-pending flag of the session that used its slot before:
  neither closing nor opening a session clears it. In any reachable state, when a pending
  session in the first slot that will be free is closed and another connection is opened, that
  connection is marked pending at once, although nothing has been received from it, and the
  main loop polls without waiting.
\<close>

theorem pending_flag_is_inherited:
  assumes "session_reach s fds" "session_find_private s (sockfd c) = Some k" "0 \<le> sockfd c"
    and "s_b_data_pending (slot s k)" "\<forall>j < k. 0 \<le> fd_of (slot s j)"
    and "0 \<le> sockfd d" "sockfd d \<notin> dom (open_map s)"
  shows "session_get_data_pending (snd (session_open now (fst (snd (session_close s c fds))) d)) d = Some True"
proof -
  note inv = session_reach_inv [OF assms(1)]
  note f = find_Some [OF assms(2)]
  define s1 where "s1 = fst (snd (session_close s c fds))"
  have s1: "s1 = fst (session_close_private s k fds)"
    using assms(2,3) by (simp add: s1_def session_close_def)
  have inv1: "session_inv s1 (snd (session_close_private s k fds))"
    unfolding s1 by (rule session_close_private_inv [OF inv f(1)])
  have len: "k < length (sessions s)" "k < length (sessions s1)"
    using f(1) session_invD(2) [OF inv] session_invD(2) [OF inv1] by simp_all
  have other: "slot s1 j = slot s j" if "j < MAX_SESSIONS" "j \<noteq> k" for j
    using close_private_effect(3) [OF inv f(1) that] by (simp add: s1)
  have k1: "fd_of (slot s1 k) = -1" "s_b_data_pending (slot s1 k)"
    using assms(3,4) f(2)
    by (simp_all add: s1 session_close_private_def Let_def split_beta slot_update [OF len(1)])
      (simp_all add: slot_def extnet_is_client_closed_def extnet_close_client_def)
  have "fd_of (slot s1 j) \<noteq> -1" if "j < k" for j
  proof -
    have "0 \<le> fd_of (slot s j)" using assms(5) that by simp
    then show ?thesis using other [of j] that f(1) by simp
  qed
  then have find1: "session_find_private s1 UNUSED_SOCKET_FD = Some k"
    using k1(1) f(1) session_invD(1) [OF inv1] by (intro find_firstI) simp_all
  define s2 where "s2 = snd (session_open now s1 d)"
  have s2: "s2 = s1\<lparr>sessions := (sessions s1)[k := (slot s1 k)\<lparr>s_extconn := d, s_t_auth_tout := 15 + now,
      s_b_authenticated := False\<rparr>]\<rparr>"
    using find1 by (simp add: s2_def session_open_def slot_def)
  have "fd_of (slot s j) \<noteq> sockfd d" if "j < MAX_SESSIONS" for j
    using assms(6,7) that open_map_Some [OF inv] by blast
  then have "fd_of (slot s2 j) \<noteq> sockfd d" if "j < k" for j
    using that other [of j] f(1) by (simp add: s2 slot_update [OF len(2)])
  then have "session_find_private s2 (sockfd d) = Some k"
    using f(1) session_invD(1) [OF inv1] by (intro find_firstI) (simp_all add: s2 slot_update [OF len(2)])
  then have "session_get_data_pending s2 d = Some (s_b_data_pending (slot s2 k))"
    using session_invD(1) [OF inv1] by (simp add: session_get_data_pending_def slot_def s2)
  then show ?thesis
    using k1(2) by (simp add: s2_def [symmetric] s1_def [symmetric]) (simp add: s2 slot_update [OF len(2)])
qed

definition pending_session :: session where
  "pending_session =
     snd (session_set_data_pending (snd (session_open 100 empty_session (sample_conn 7))) (sample_conn 7) True)"

lemma pending_flag_is_inherited_witness:
  "session_get_data_pending (snd (session_open 200
     (fst (snd (session_close pending_session (sample_conn 7) {7}))) (sample_conn 8))) (sample_conn 8) = Some True"
proof -
  have 1: "session_reach (snd (session_open 100 empty_session (sample_conn 7))) {7}"
    by (rule session_reach.step [OF empty_session_reach [of "{7}"],
        where op = "Op_Open (sample_conn 7) 100" and st = "fst (session_open 100 empty_session (sample_conn 7))"])
      (simp_all add: empty_open_map sample_conn_def split_beta)
  have 2: "session_reach pending_session {7}"
    unfolding pending_session_def
    by (rule session_reach.step [OF 1, where op = "Op_Pending (sample_conn 7) True" and st = "fst
        (session_set_data_pending (snd (session_open 100 empty_session (sample_conn 7))) (sample_conn 7) True)"])
      (simp_all add: sample_conn_def split_beta)
  have 3: "session_find_private pending_session (sockfd (sample_conn 7)) = Some 0"
    "s_b_data_pending (slot pending_session 0)" "sockfd (sample_conn 8) \<notin> dom (open_map pending_session)"
    by (code_simp, code_simp, simp add: domIff, code_simp)
  show ?thesis
    by (rule pending_flag_is_inherited [OF 2 3(1)]) (simp_all add: 3(2,3), simp_all add: sample_conn_def)
qed

text \<open>
  Closing all sessions releases every descriptor they hold and nothing else, and leaves an
  empty table.
\<close>

theorem close_all_releases_descriptors:
  assumes "session_reach s fds"
  shows "snd (session_close_all s fds) = fds - dom (open_map s) \<and>
    session_abs (fst (session_close_all s fds)) = (Map.empty, None)"
proof -
  note inv = session_reach_inv [OF assms]
  let ?P = "\<lambda>p. \<not> extnet_is_client_closed (s_extconn p)"
  have "doomed ?P [0 ..< MAX_SESSIONS] s \<inter> {0..} = dom (open_map s)"
    using open_map_Some [OF inv] by (auto simp: doomed_def extnet_is_client_closed_def dom_def)
  then show ?thesis
    using close_when_fold_effect [OF inv, of "[0 ..< MAX_SESSIONS]" ?P] session_invD(1) [OF inv]
      refine_close_all [OF inv]
    by (simp add: session_close_all_def)
qed

lemma close_all_releases_descriptors_witness:
  "snd (session_close_all empty_session {4}) = {4} - dom (open_map empty_session) \<and>
    session_abs (fst (session_close_all empty_session {4})) = (Map.empty, None)"
  by (rule close_all_releases_descriptors [OF empty_session_reach])

end
