(* ===== verification/Asd_Message.thy ===== *)
theory Asd_Message
  imports Prelude
begin

text \<open>
  The ASD packet: its bit-field header, its size field, the reader over a payload
  (\<^verbatim>\<open>get_packet_data\<close>) and the functions that send one, from \<^verbatim>\<open>asd_common.h\<close> and \<^verbatim>\<open>asd_msg.c\<close>,
  with the bounded copy \<^verbatim>\<open>memcpy_s\<close> they use. The lemmas show that headers and sizes survive
  the round trip over the wire, and what exactly is handed to the send function.
\<close>

section \<open>Bounded copies\<close>

text \<open>
  \<^verbatim>\<open>memcpy_s\<close> on a destination of which \<open>dmax\<close> bytes may be written, from the start of \<open>dest\<close>; the
  source \<^const>\<open>None\<close> is a null pointer. An error clears the destination. The regions the
  server copies between never overlap.
\<close>

abbreviation (input) "RSIZE_MAX_MEM \<equiv> 268435456 :: nat"

definition memcpy_s :: "u8 list \<Rightarrow> nat \<Rightarrow> u8 list option \<Rightarrow> nat \<Rightarrow> bool \<times> u8 list" where
  "memcpy_s dest dmax src slen =
     (if slen = 0 then (True, dest)
      else if dmax = 0 then (False, dest)
      else if dmax > RSIZE_MAX_MEM then (False, dest)
      else case src of
             None \<Rightarrow> (False, replicate dmax 0 @ drop dmax dest)
           | Some bs \<Rightarrow>
               if slen > dmax then (False, replicate dmax 0 @ drop dmax dest)
               else (True, take slen bs @ drop slen dest))"

text \<open>The same, at an offset into a buffer.\<close>

definition memcpy_at :: "u8 list \<Rightarrow> nat \<Rightarrow> nat \<Rightarrow> u8 list option \<Rightarrow> nat \<Rightarrow> bool \<times> u8 list" where
  "memcpy_at buf off dmax src slen =
     (let (ok, rest) = memcpy_s (drop off buf) dmax src slen in (ok, take off buf @ rest))"

lemma memcpy_s_ok:
  assumes "slen \<le> dmax" "dmax \<le> RSIZE_MAX_MEM" "length bs = slen"
  shows "memcpy_s dest dmax (Some bs) slen = (True, bs @ drop slen dest)"
  using assms by (auto simp: memcpy_s_def)

lemma memcpy_at_ok:
  assumes "slen \<le> dmax" "dmax \<le> RSIZE_MAX_MEM" "length bs = slen"
  shows "memcpy_at buf off dmax (Some bs) slen = (True, take off buf @ bs @ drop (off + slen) buf)"
  using memcpy_s_ok [OF assms] by (simp add: memcpy_at_def add.commute)

lemma length_memcpy_s:
  assumes "slen \<le> dmax \<longrightarrow> (\<forall>bs. src = Some bs \<longrightarrow> length bs = slen)" "dmax \<le> length dest"
  shows "length (snd (memcpy_s dest dmax src slen)) = length dest"
  using assms by (auto simp: memcpy_s_def split: option.split)

section \<open>The header\<close>

abbreviation (input) "MAX_DATA_SIZE \<equiv> 3000 :: nat"
abbreviation (input) "HEADER_SIZE \<equiv> 4 :: nat"
abbreviation (input) "MAX_PACKET_SIZE \<equiv> 3004 :: nat"

record message_header =
  origin_id :: "3 word"
  reserved :: "1 word"
  enc_bit :: "1 word"
  mtype :: "3 word"
  size_lsb :: "8 word"
  size_msb :: "5 word"
  tag :: "3 word"
  cmd_stat :: "8 word"

record asd_message =
  header :: message_header
  buffer :: "u8 list"

abbreviation (input) "AGENT_CONTROL_TYPE \<equiv> 0 :: 3 word"
abbreviation (input) "JTAG_TYPE \<equiv> 1 :: 3 word"
abbreviation (input) "PROBE_MODE_TYPE \<equiv> 2 :: 3 word"
abbreviation (input) "DMA_TYPE \<equiv> 3 :: 3 word"
abbreviation (input) "HARDWARE_LOG_EVENT \<equiv> 5 :: 3 word"
abbreviation (input) "I2C_TYPE \<equiv> 6 :: 3 word"

abbreviation (input) "ASD_SUCCESS \<equiv> 0 :: u8"
abbreviation (input) "ASD_MSG_CRYPY_NOT_SUPPORTED \<equiv> 0x25 :: u8"
abbreviation (input) "ASD_FAILURE_INIT_JTAG_HANDLER \<equiv> 0x26 :: u8"
abbreviation (input) "ASD_FAILURE_INIT_I2C_HANDLER \<equiv> 0x27 :: u8"
abbreviation (input) "ASD_MSG_NOT_SUPPORTED \<equiv> 0x29 :: u8"
abbreviation (input) "ASD_FAILURE_PROCESS_JTAG_MSG \<equiv> 0x2A :: u8"
abbreviation (input) "ASD_FAILURE_PROCESS_I2C_MSG \<equiv> 0x2B :: u8"
abbreviation (input) "ASD_FAILURE_PROCESS_I2C_LOCK \<equiv> 0x2C :: u8"
abbreviation (input) "ASD_I2C_MSG_NOT_SUPPORTED \<equiv> 0x2D :: u8"
abbreviation (input) "ASD_FAILURE_REMOVE_I2C_LOCK \<equiv> 0x2E :: u8"
abbreviation (input) "ASD_FAILURE_HEADER_SIZE \<equiv> 0x2F :: u8"
abbreviation (input) "ASD_FAILURE_XDP_PRESENT \<equiv> 0x30 :: u8"
abbreviation (input) "ASD_FAILURE_INIT_VPROBE_HANDLER \<equiv> 0x31 :: u8"
abbreviation (input) "ASD_UNKNOWN_ERROR \<equiv> 0x7F :: u8"

text \<open>The packed layout: bit fields are allocated from the least significant bit.\<close>

definition encode_header :: "message_header \<Rightarrow> u8 list" where
  "encode_header h =
     [ucast (origin_id h) OR push_bit 3 (ucast (reserved h)) OR push_bit 4 (ucast (enc_bit h)) OR
        push_bit 5 (ucast (mtype h)),
      size_lsb h,
      ucast (size_msb h) OR push_bit 5 (ucast (tag h)),
      cmd_stat h]"

definition decode_header :: "u8 list \<Rightarrow> message_header" where
  "decode_header bs = \<lparr>origin_id = ucast (bs ! 0), reserved = ucast (drop_bit 3 (bs ! 0)),
     enc_bit = ucast (drop_bit 4 (bs ! 0)), mtype = ucast (drop_bit 5 (bs ! 0)),
     size_lsb = bs ! 1, size_msb = ucast (bs ! 2), tag = ucast (drop_bit 5 (bs ! 2)),
     cmd_stat = bs ! 3\<rparr>"

definition lsb_from_msg_size :: "u32 \<Rightarrow> u8" where
  "lsb_from_msg_size response_cnt = ucast (response_cnt AND 0xFF)"

definition msb_from_msg_size :: "u32 \<Rightarrow> u8" where
  "msb_from_msg_size response_cnt = ucast (drop_bit 8 response_cnt AND 0x1F)"

definition get_message_size :: "asd_message \<Rightarrow> int" where
  "get_message_size m =
     (let result = uint ((ucast (size_lsb (header m)) AND 0xFF :: u32) OR
            push_bit 8 (ucast (size_msb (header m)) AND 0x1F))
      in if result > int MAX_DATA_SIZE then -1 else result)"

text \<open>Storing a size into the two fields of the header; the upper one has five bits.\<close>

definition set_size :: "u32 \<Rightarrow> message_header \<Rightarrow> message_header" where
  "set_size n h = h\<lparr>size_lsb := lsb_from_msg_size n, size_msb := ucast (msb_from_msg_size n)\<rparr>"

section \<open>Reading a payload\<close>

text \<open>
  The pointer \<^verbatim>\<open>next_data\<close> and the count \<^verbatim>\<open>used\<close> always move together, so a reader is the payload
  \<open>packet_bytes\<close> with the count; \<open>unget\<close> moves both back.
\<close>

record packet_data =
  packet_bytes :: "u8 list"
  used :: nat
  total :: nat

definition get_packet_data :: "packet_data \<Rightarrow> nat \<Rightarrow> (u8 list \<times> packet_data) option" where
  "get_packet_data p bytes_wanted =
     (if used p + bytes_wanted > total p then None
      else Some (take bytes_wanted (drop (used p) (packet_bytes p)), p\<lparr>used := used p + bytes_wanted\<rparr>))"

definition unget :: "nat \<Rightarrow> packet_data \<Rightarrow> packet_data" where
  "unget n p = p\<lparr>used := used p - n\<rparr>"

definition packet_of :: "u8 list \<Rightarrow> nat \<Rightarrow> packet_data" where
  "packet_of bs n = \<lparr>packet_bytes = bs, used = 0, total = n\<rparr>"

text \<open>A reader is sound when the bytes of its total are really there.\<close>

definition packet_ok :: "packet_data \<Rightarrow> bool" where
  "packet_ok p \<longleftrightarrow> used p \<le> total p \<and> total p \<le> length (packet_bytes p)"

lemma packet_of_ok: "n \<le> length bs \<Longrightarrow> packet_ok (packet_of bs n)"
  by (simp add: packet_ok_def packet_of_def)

lemma get_packet_data_ok:
  assumes "get_packet_data p n = Some (bs, p')" "packet_ok p"
  shows "length bs = n" "packet_ok p'" "used p' = used p + n" "total p' = total p"
    "packet_bytes p' = packet_bytes p" "bs = take n (drop (used p) (packet_bytes p))"
  using assms by (auto simp: get_packet_data_def packet_ok_def split: if_splits)

lemma get_packet_data_used:
  assumes "get_packet_data p n = Some (bs, p')"
  shows "used p' = used p + n" "total p' = total p" "used p' \<le> total p'" "packet_bytes p' = packet_bytes p"
  using assms by (auto simp: get_packet_data_def split: if_splits)

lemma unget_get:
  assumes "get_packet_data p n = Some (bs, p')"
  shows "unget n p' = p"
  using assms by (auto simp: get_packet_data_def unget_def split: if_splits)

lemma get_packet_data_byte:
  assumes "used p < total p" "packet_ok p"
  shows "get_packet_data p 1 = Some ([packet_bytes p ! used p], p\<lparr>used := Suc (used p)\<rparr>)"
  using assms by (simp add: get_packet_data_def packet_ok_def take_Suc_conv_app_nth Cons_nth_drop_Suc [symmetric])

section \<open>Sending\<close>

text \<open>
  The send function of the caller is a parameter: a status from the packets sent so far and the
  one to send. Every packet handed to it is kept.
\<close>

record transport =
  send_function :: "u8 list list \<Rightarrow> u8 list \<Rightarrow> status"
  sent :: "u8 list list"

definition transmit :: "u8 list \<Rightarrow> transport \<Rightarrow> status \<times> transport" where
  "transmit bs tx = (send_function tx (sent tx) bs, tx\<lparr>sent := sent tx @ [bs]\<rparr>)"

text \<open>
  \<^verbatim>\<open>send_response\<close> fills a buffer on the stack, whose contents are \<open>junk\<close>, and sends a prefix of it.
\<close>

definition send_response :: "u8 list \<Rightarrow> asd_message \<Rightarrow> transport \<Rightarrow> status \<times> transport" where
  "send_response junk m tx =
     (let size = get_message_size m
      in if size = -1 then (ST_ERR, tx)
         else
           let send_buffer_size = HEADER_SIZE + nat size;
               (_, buf) = memcpy_s junk MAX_PACKET_SIZE (Some (encode_header (header m))) HEADER_SIZE;
               (_, buf) = memcpy_at buf HEADER_SIZE (MAX_PACKET_SIZE - HEADER_SIZE)
                            (Some (take (nat size) (buffer m))) (nat size)
           in transmit (take send_buffer_size buf) tx)"

definition send_error_message :: "u8 list \<Rightarrow> asd_message \<Rightarrow> u8 \<Rightarrow> transport \<Rightarrow> transport" where
  "send_error_message junk input_message stat tx =
     snd (send_response junk
            \<lparr>header = (header input_message)\<lparr>mtype := 1, size_lsb := 0, size_msb := 0, cmd_stat := stat\<rparr>,
             buffer = replicate MAX_DATA_SIZE 0\<rparr> tx)"

section \<open>Remote logging\<close>

text \<open>
  The log levels of the server and those of \<^verbatim>\<open>IPC_LogType\<close> are the numbers from 0 (trace) to 5
  (off); \<^verbatim>\<open>init_logging_map\<close> assigns to each level of the server the one of the same name.
\<close>

abbreviation (input) "IPC_LogType_Off \<equiv> 5 :: nat"
abbreviation (input) "AGENT_CONFIGURATION_CMD \<equiv> 8 :: u8"

definition init_logging_map :: "nat list" where
  "init_logging_map =
     (replicate 6 0)[5 := IPC_LogType_Off, 1 := 1, 2 := 2, 3 := 3, 4 := 4, 0 := 0]"

record remote_logging_config =
  logging_level :: "3 word"
  logging_stream :: "3 word"

text \<open>The union with the byte the client reads and writes.\<close>

definition config_value :: "remote_logging_config \<Rightarrow> u8" where
  "config_value c = ucast (logging_level c) OR push_bit 3 (ucast (logging_stream c))"

definition config_of_value :: "u8 \<Rightarrow> remote_logging_config" where
  "config_of_value v = \<lparr>logging_level = ucast v, logging_stream = ucast (drop_bit 3 v)\<rparr>"

definition should_remote_log :: "remote_logging_config \<Rightarrow> nat \<Rightarrow> bool" where
  "should_remote_log cfg asd_level \<longleftrightarrow>
     unat (logging_level cfg) \<noteq> IPC_LogType_Off \<and> unat (logging_level cfg) \<le> init_logging_map ! asd_level"

text \<open>
  The message is its bytes up to the terminating zero. The two bytes before it are the command and
  the level and stream it is logged at.
\<close>

definition send_remote_log_message :: "u8 list \<Rightarrow> remote_logging_config \<Rightarrow> nat \<Rightarrow> u8 list \<Rightarrow> transport
    \<Rightarrow> transport" where
  "send_remote_log_message junk cfg asd_level message tx =
     (if should_remote_log cfg asd_level then
        let config_byte = cfg\<lparr>logging_level := of_nat (init_logging_map ! asd_level)\<rparr>;
            message_length = min (length message) MAX_DATA_SIZE;
            message_length = (if message_length > MAX_DATA_SIZE - 2 then MAX_DATA_SIZE - 2 else message_length);
            buffer_length = message_length + 2;
            buf = (replicate MAX_DATA_SIZE 0)[0 := AGENT_CONFIGURATION_CMD, 1 := config_value config_byte];
            (_, buf) = memcpy_at buf 2 MAX_DATA_SIZE (Some (take message_length message)) message_length;
            hdr = \<lparr>origin_id = 0, reserved = 0, enc_bit = 0, mtype = HARDWARE_LOG_EVENT, size_lsb = 0,
              size_msb = 0, tag = 0, cmd_stat = ASD_SUCCESS\<rparr>
        in snd (send_response junk \<lparr>header = set_size (of_nat buffer_length) hdr, buffer = buf\<rparr> tx)
      else tx)"

section \<open>What goes over the wire\<close>

lemma byte0_fields:
  fixes a :: "3 word" and r e :: "1 word" and t :: "3 word"
  defines "b \<equiv> ucast a OR push_bit 3 (ucast r) OR push_bit 4 (ucast e) OR push_bit 5 (ucast t) :: u8"
  shows "ucast b = a" "ucast (drop_bit 3 b) = r" "ucast (drop_bit 4 b) = e" "ucast (drop_bit 5 b) = t"
proof -
  show "ucast b = a"
    by (rule bit_word_eqI) (auto simp: b_def bit_simps)
  show "ucast (drop_bit 3 b) = r"
    by (rule bit_word_eqI) (auto simp: b_def bit_simps dest: bit_imp_le_length)
  show "ucast (drop_bit 4 b) = e"
    by (rule bit_word_eqI) (auto simp: b_def bit_simps dest: bit_imp_le_length)
  show "ucast (drop_bit 5 b) = t"
    by (rule bit_word_eqI) (auto simp: b_def bit_simps dest: bit_imp_le_length)
qed

lemma byte2_fields:
  fixes m :: "5 word" and t :: "3 word"
  defines "b \<equiv> ucast m OR push_bit 5 (ucast t) :: u8"
  shows "ucast b = m" "ucast (drop_bit 5 b) = t"
proof -
  show "ucast b = m"
    by (rule bit_word_eqI) (auto simp: b_def bit_simps)
  show "ucast (drop_bit 5 b) = t"
    by (rule bit_word_eqI) (auto simp: b_def bit_simps dest: bit_imp_le_length)
qed

lemma nth_four: "[a, b, c, d] ! 0 = a" "[a, b, c, d] ! 1 = b" "[a, b, c, d] ! 2 = c" "[a, b, c, d] ! 3 = d"
  by simp_all

lemma decode_encode_header: "decode_header (encode_header h) = h"
  unfolding decode_header_def encode_header_def by (simp only: nth_four byte0_fields byte2_fields) simp

lemma byte0_bits:
  fixes b :: u8
  shows "(ucast (ucast b :: 3 word) OR push_bit 3 (ucast (ucast (drop_bit 3 b) :: 1 word)) OR
           push_bit 4 (ucast (ucast (drop_bit 4 b) :: 1 word)) OR
           push_bit 5 (ucast (ucast (drop_bit 5 b) :: 3 word)) :: u8) = b"
proof (rule bit_word_eqI)
  fix n assume "n < LENGTH(8)"
  then have "n \<in> {0, 1, 2, 3, 4, 5, 6, 7}" by auto
  then show "bit (ucast (ucast b :: 3 word) OR push_bit 3 (ucast (ucast (drop_bit 3 b) :: 1 word)) OR
           push_bit 4 (ucast (ucast (drop_bit 4 b) :: 1 word)) OR
           push_bit 5 (ucast (ucast (drop_bit 5 b) :: 3 word)) :: u8) n \<longleftrightarrow> bit b n"
    by (elim insertE) (simp_all add: bit_simps)
qed

lemma byte2_bits:
  fixes b :: u8
  shows "(ucast (ucast b :: 5 word) OR push_bit 5 (ucast (ucast (drop_bit 5 b) :: 3 word)) :: u8) = b"
proof (rule bit_word_eqI)
  fix n assume "n < LENGTH(8)"
  then have "n \<in> {0, 1, 2, 3, 4, 5, 6, 7}" by auto
  then show "bit (ucast (ucast b :: 5 word) OR push_bit 5 (ucast (ucast (drop_bit 5 b) :: 3 word)) :: u8) n
      \<longleftrightarrow> bit b n"
    by (elim insertE) (simp_all add: bit_simps)
qed

lemma encode_decode_header:
  assumes "length bs = 4"
  shows "encode_header (decode_header bs) = bs"
proof -
  obtain a b c d where bs: "bs = [a, b, c, d]"
    using assms by (auto simp: numeral_eq_Suc length_Suc_conv)
  show ?thesis
    by (simp add: bs decode_header_def encode_header_def byte0_bits byte2_bits)
qed

lemma length_encode_header [simp]: "length (encode_header h) = 4"
  by (simp add: encode_header_def)

lemma mask_FF: "(0xFF :: u32) = mask 8" and mask_1F: "(0x1F :: u32) = mask 5"
  by (simp_all add: mask_eq_exp_minus_1)

lemma get_message_size_def':
  "get_message_size m =
     (let n = unat (size_lsb (header m)) + 256 * unat (size_msb (header m))
      in if n > MAX_DATA_SIZE then -1 else int n)"
proof -
  define l h where "l = size_lsb (header m)" and "h = size_msb (header m)"
  have "(ucast l AND 0xFF :: u32) = ucast l" "(ucast h AND 0x1F :: u32) = ucast h"
    unfolding mask_FF mask_1F by (rule bit_word_eqI; auto simp: bit_simps dest: bit_imp_le_length)+
  moreover have "(ucast l :: u32) OR push_bit 8 (ucast h) = ucast l + push_bit 8 (ucast h)"
    by (rule disjunctive_add [symmetric]) (auto simp: bit_simps dest: bit_imp_le_length)
  moreover have "unat (ucast l + push_bit 8 (ucast h) :: u32) = unat l + 256 * unat h"
  proof -
    have h: "unat h < 32" using unsigned_less [where 'a = nat, of h] by simp
    have l: "unat l < 256" using unsigned_less [where 'a = nat, of l] by simp
    have "unat (push_bit 8 (ucast h) :: u32) = 256 * unat h"
      using h by (simp add: push_bit_eq_mult unat_word_ariths unsigned_ucast_eq take_bit_nat_eq_self)
    then show ?thesis
      using h l by (simp add: unat_word_ariths unsigned_ucast_eq take_bit_nat_eq_self)
  qed
  ultimately have "unat ((ucast l AND 0xFF :: u32) OR push_bit 8 (ucast h AND 0x1F)) = unat l + 256 * unat h"
    by simp
  then have "uint ((ucast l AND 0xFF :: u32) OR push_bit 8 (ucast h AND 0x1F)) = int (unat l + 256 * unat h)"
    by (metis uint_nat)
  then show ?thesis
    unfolding get_message_size_def l_def [symmetric] h_def [symmetric] Let_def
    by (simp only: of_nat_less_iff)
qed

lemma get_message_size_range:
  "get_message_size m = -1 \<or> 0 \<le> get_message_size m \<and> get_message_size m \<le> int MAX_DATA_SIZE"
  unfolding get_message_size_def' Let_def by (auto simp del: of_nat_add of_nat_mult)

lemma size_fields:
  assumes "n < 8192"
  shows "unat (lsb_from_msg_size (of_nat n)) = n mod 256"
    "unat (ucast (msb_from_msg_size (of_nat n)) :: 5 word) = n div 256"
proof -
  have n: "unat (of_nat n :: u32) = n"
    using assms by (simp add: unat_of_nat)
  show "unat (lsb_from_msg_size (of_nat n)) = n mod 256"
    unfolding lsb_from_msg_size_def mask_FF
    by (simp add: take_bit_eq_mask [symmetric] unsigned_ucast_eq unsigned_take_bit_eq n) (simp add: take_bit_eq_mod)
  have "n div 256 < 32"
    using assms by (simp add: less_mult_imp_div_less)
  then show "unat (ucast (msb_from_msg_size (of_nat n)) :: 5 word) = n div 256"
    unfolding msb_from_msg_size_def mask_1F
    by (simp add: take_bit_eq_mask [symmetric] unsigned_ucast_eq unsigned_take_bit_eq unsigned_drop_bit_eq n)
      (simp add: take_bit_eq_mod drop_bit_eq_div)
qed

lemma get_message_size_set:
  assumes "n < 8192" "header m = set_size (of_nat n) h"
  shows "get_message_size m = (if n > MAX_DATA_SIZE then -1 else int n)"
  using assms by (simp add: get_message_size_def' set_size_def size_fields)

section \<open>Properties\<close>

text \<open>
  A header survives the wire in both directions: its four bytes decode to it, and any four
  bytes are the encoding of the header they decode to. A size of up to 3000 stored in its two
  fields is read back, and the thirteen bits can hold no larger one that is not refused.
\<close>

theorem header_round_trip:
  "decode_header (encode_header h) = h \<and>
   (length bs = 4 \<longrightarrow> encode_header (decode_header bs) = bs) \<and>
   (n < 8192 \<longrightarrow> get_message_size (m\<lparr>header := set_size (of_nat n) h\<rparr>) =
      (if n \<le> MAX_DATA_SIZE then int n else -1))"
  by (auto simp: decode_encode_header encode_decode_header get_message_size_set)

theorem header_round_trip_witness:
  "encode_header (decode_header [0xE1, 0xB8, 0x4B, 0x2A]) = [0xE1, 0xB8, 0x4B, 0x2A] \<and>
   get_message_size ((\<lparr>header = decode_header [0, 0, 0, 0], buffer = []\<rparr>)\<lparr>header :=
     set_size (of_nat 2999) (decode_header [0, 0, 0, 0])\<rparr>) = 2999"
  using header_round_trip [where bs = "[0xE1, 0xB8, 0x4B, 0x2A]" and n = 2999 and
      m = "\<lparr>header = decode_header [0, 0, 0, 0], buffer = []\<rparr>" and h = "decode_header [0, 0, 0, 0]"] by simp

lemma send_response_bytes:
  assumes "length junk = MAX_PACKET_SIZE" "length (buffer m) = MAX_DATA_SIZE"
  shows "send_response junk m tx =
    (if get_message_size m = -1 then (ST_ERR, tx)
     else transmit (encode_header (header m) @ take (nat (get_message_size m)) (buffer m)) tx)"
proof (cases "get_message_size m = -1")
  case False
  then have n: "nat (get_message_size m) \<le> MAX_DATA_SIZE"
    using get_message_size_range [of m] by auto
  define n where "n = nat (get_message_size m)"
  have h: "memcpy_s junk MAX_PACKET_SIZE (Some (encode_header (header m))) HEADER_SIZE =
      (True, encode_header (header m) @ drop HEADER_SIZE junk)"
    by (rule memcpy_s_ok) simp_all
  have b: "memcpy_at (encode_header (header m) @ drop HEADER_SIZE junk) HEADER_SIZE
       (MAX_PACKET_SIZE - HEADER_SIZE) (Some (take n (buffer m))) n =
      (True, take HEADER_SIZE (encode_header (header m) @ drop HEADER_SIZE junk) @ take n (buffer m) @
         drop (HEADER_SIZE + n) (encode_header (header m) @ drop HEADER_SIZE junk))"
    by (rule memcpy_at_ok) (use n assms in \<open>simp_all add: n_def\<close>)
  show ?thesis
    using False n assms h b by (simp add: send_response_def n_def [symmetric] Let_def)
qed (simp add: send_response_def)

text \<open>
  C38. A response is refused when its size is above the maximum and nothing is sent; otherwise
  exactly one packet is handed over, the four header bytes followed by the payload the header
  announces, whatever the stack held before. An error answer is a bare header: the origin and the
  tag of the request, type 1, size zero and the error code.
\<close>

theorem response_on_the_wire:
  assumes "length junk = MAX_PACKET_SIZE" "length (buffer m) = MAX_DATA_SIZE"
  shows "send_response junk m tx =
      (if get_message_size m = -1 then (ST_ERR, tx)
       else (send_function tx (sent tx) (encode_header (header m) @ take (nat (get_message_size m)) (buffer m)),
             tx\<lparr>sent := sent tx @ [encode_header (header m) @ take (nat (get_message_size m)) (buffer m)]\<rparr>)) \<and>
    sent (send_error_message junk m e tx) = sent tx @ [encode_header ((header m)\<lparr>mtype := 1,
      size_lsb := 0, size_msb := 0, cmd_stat := e\<rparr>)]"
proof -
  have "get_message_size \<lparr>header = (header m)\<lparr>mtype := 1, size_lsb := 0, size_msb := 0, cmd_stat := e\<rparr>,
          buffer = replicate MAX_DATA_SIZE 0\<rparr> = 0"
    by (simp add: get_message_size_def')
  then show ?thesis
    using assms by (simp add: send_response_bytes send_error_message_def transmit_def)
qed

definition ok_transport :: transport where
  "ok_transport = \<lparr>send_function = (\<lambda>_ _. ST_OK), sent = []\<rparr>"

theorem response_on_the_wire_witness:
  "snd (send_response (replicate 3004 7) \<lparr>header = decode_header [0x21, 2, 0x40, 0], buffer = replicate 3000 9\<rparr>
      ok_transport) = ok_transport\<lparr>sent := [[0x21, 2, 0x40, 0, 9, 9]]\<rparr> \<and>
   sent (send_error_message (replicate 3004 7)
      \<lparr>header = decode_header [0x21, 2, 0x40, 0], buffer = replicate 3000 9\<rparr> 0x2A ok_transport) =
      [[0x21, 0, 0x40, 0x2A]]"
proof -
  let ?m = "\<lparr>header = decode_header [0x21, 2, 0x40, 0], buffer = replicate 3000 9\<rparr> :: asd_message"
  have n: "get_message_size ?m = 2"
    by (simp add: get_message_size_def' decode_header_def)
  have t: "take 2 (replicate 3000 9) = [9, 9 :: u8]"
    by (simp add: take_replicate numeral_2_eq_2)
  have e: "encode_header (decode_header [0x21, 2, 0x40, 0]) = [0x21, 2, 0x40, 0]"
    by (simp add: encode_decode_header)
  have d: "encode_header ((decode_header [0x21, 2, 0x40, 0])\<lparr>mtype := 1, size_lsb := 0, size_msb := 0,
     cmd_stat := 0x2A\<rparr>) = [0x21, 0, 0x40, 0x2A]"
    by (simp add: encode_header_def decode_header_def)
  show ?thesis
    using response_on_the_wire [of "replicate 3004 7" ?m ok_transport "0x2A"]
    by (simp add: n t e d ok_transport_def) (simp add: numeral_2_eq_2)
qed

lemma init_logging_map_id: "level < 6 \<Longrightarrow> init_logging_map ! level = level"
  by (auto simp: init_logging_map_def nth_Cons' numeral_nat less_Suc_eq)

text \<open>
  Exactly the levels from the configured one upwards are forwarded to the client (none when it
  is off); a forwarded message is cut to 2998 bytes and sent as an event that carries the
  command byte and the byte with its level and the configured stream.
\<close>

theorem remote_log_cut:
  assumes "length junk = MAX_PACKET_SIZE" "level < 6"
  shows "sent (send_remote_log_message junk cfg level msg tx) =
    (if unat (logging_level cfg) = IPC_LogType_Off \<or> level < unat (logging_level cfg) then sent tx
     else sent tx @ [[0xA0, of_nat ((min 2998 (length msg) + 2) mod 256),
             of_nat ((min 2998 (length msg) + 2) div 256), ASD_SUCCESS, AGENT_CONFIGURATION_CMD,
             config_value (cfg\<lparr>logging_level := of_nat level\<rparr>)] @ take 2998 msg])"
proof (cases "should_remote_log cfg level")
  case False
  then show ?thesis
    using assms by (auto simp: send_remote_log_message_def should_remote_log_def init_logging_map_id)
next
  case True
  define k where "k = min 2998 (length msg)"
  have k: "k \<le> 2998" "(if 3000 - 2 < min (length msg) 3000 then 3000 - 2 else min (length msg) 3000) = k"
    by (auto simp: k_def)
  define c where "c = config_value (cfg\<lparr>logging_level := of_nat level\<rparr>)"
  define buf where "buf = [AGENT_CONFIGURATION_CMD, c] @ take k msg @ replicate (2998 - k) 0"
  have start: "(replicate MAX_DATA_SIZE 0)[0 := AGENT_CONFIGURATION_CMD, 1 := c] =
      [AGENT_CONFIGURATION_CMD, c] @ replicate 2998 0"
    by (simp add: numeral_eq_Suc)
  have copy: "memcpy_at ([AGENT_CONFIGURATION_CMD, c] @ replicate 2998 0) 2 MAX_DATA_SIZE
       (Some (take k msg)) k = (True, buf)"
    using k by (subst memcpy_at_ok) (simp_all add: buf_def k_def numeral_2_eq_2)
  define hdr where "hdr = set_size (of_nat (k + 2)) \<lparr>origin_id = 0, reserved = 0, enc_bit = 0,
     mtype = HARDWARE_LOG_EVENT, size_lsb = 0, size_msb = 0, tag = 0, cmd_stat = ASD_SUCCESS\<rparr>"
  have n: "get_message_size \<lparr>header = hdr, buffer = buf\<rparr> = int (k + 2)"
    using k get_message_size_set [of "k + 2" "\<lparr>header = hdr, buffer = buf\<rparr>"]
    by (simp del: of_nat_add add: hdr_def)
  have hd: "encode_header hdr = [0xA0, of_nat ((k + 2) mod 256), of_nat ((k + 2) div 256), ASD_SUCCESS]"
  proof -
    have k': "k + 2 < 8192" using k by simp
    have "lsb_from_msg_size (of_nat (k + 2)) = of_nat ((k + 2) mod 256)"
      by (rule unsigned_word_eqI [where 'a = nat]) (use size_fields(1) [OF k'] in \<open>simp add: unat_of_nat del: of_nat_add\<close>)
    moreover have "(ucast (ucast (msb_from_msg_size (of_nat (k + 2))) :: 5 word) :: u8) = of_nat ((k + 2) div 256)"
      by (rule unsigned_word_eqI [where 'a = nat])
        (use size_fields(2) [OF k'] k in \<open>simp add: unat_of_nat unsigned_ucast_eq take_bit_nat_eq_self unsigned_take_bit_eq
            del: of_nat_add\<close>)
    ultimately show ?thesis
      by (simp add: hdr_def set_size_def encode_header_def del: of_nat_add)
  qed
  have "length buf = MAX_DATA_SIZE"
    using k by (simp add: buf_def k_def)
  moreover have "take (k + 2) buf = [AGENT_CONFIGURATION_CMD, c] @ take k msg"
    using k by (simp add: buf_def k_def)
  moreover have "take k msg = take 2998 msg"
    by (simp add: k_def min_def)
  ultimately have "send_response junk \<lparr>header = hdr, buffer = buf\<rparr> tx =
      transmit ([0xA0, of_nat ((k + 2) mod 256), of_nat ((k + 2) div 256), ASD_SUCCESS,
        AGENT_CONFIGURATION_CMD, c] @ take 2998 msg) tx"
    using assms by (subst send_response_bytes) (simp_all only: n hd asd_message.simps nat_int, simp_all)
  moreover have "send_remote_log_message junk cfg level msg tx =
      snd (send_response junk \<lparr>header = hdr, buffer = buf\<rparr> tx)"
    using True assms unfolding send_remote_log_message_def Let_def
    by (simp only: if_True init_logging_map_id k c_def [symmetric] start copy hdr_def [symmetric] prod.case)
  ultimately show ?thesis
    using True assms by (auto simp: should_remote_log_def init_logging_map_id transmit_def c_def k_def)
qed

text \<open>A forwarded message is seen when the level 1 of a message meets the configured level 1.\<close>

theorem remote_log_cut_witness:
  "sent (send_remote_log_message (replicate 3004 7) \<lparr>logging_level = 1, logging_stream = 2\<rparr> 1 [72, 105]
      ok_transport) = [[0xA0, 4, 0, 0, 8, 0x11, 72, 105]]"
  using remote_log_cut [of "replicate 3004 7" 1 "\<lparr>logging_level = 1, logging_stream = 2\<rparr>" "[72, 105]"
      ok_transport]
  by (simp add: ok_transport_def config_value_def)

end
