(* ===== verification/Config.thy ===== *)
theory Config
  imports Asd_Message
begin

text \<open>
  The configuration of the server, \<^verbatim>\<open>config.h\<close>, \<^verbatim>\<open>config.c\<close> and the bus options of \<^verbatim>\<open>asd_common.h\<close>.
\<close>

datatype JTAG_DRIVER_MODE = JTAG_DRIVER_MODE_SOFTWARE | JTAG_DRIVER_MODE_HARDWARE

datatype JTAG_CHAIN_SELECT_MODE = JTAG_CHAIN_SELECT_MODE_SINGLE | JTAG_CHAIN_SELECT_MODE_MULTI

datatype bus_config_type = BUS_CONFIG_NOT_ALLOWED | BUS_CONFIG_I2C | BUS_CONFIG_I3C

abbreviation (input) "MAX_IxC_BUSES \<equiv> 4 :: nat"

record jtag_config =
  jtag_mode_cfg :: JTAG_DRIVER_MODE
  chain_mode :: JTAG_CHAIN_SELECT_MODE

record bus_config =
  enable_i2c :: bool
  enable_i3c :: bool
  default_bus :: u8
  bus_config_types :: "bus_config_type list"
  bus_config_map :: "u8 list"

record config =
  jtag_cfg :: jtag_config
  remote_logging :: remote_logging_config
  buscfg :: bus_config

record bus_options =
  opt_enable_i2c :: bool
  opt_enable_i3c :: bool
  opt_bus_config_map :: "u8 list"
  opt_bus_config_type :: "bus_config_type list"
  opt_bus :: u8

text \<open>A null pointer is \<^const>\<open>None\<close>.\<close>

definition set_config_defaults :: "config option \<Rightarrow> bus_options option \<Rightarrow> status \<times> config option" where
  "set_config_defaults cfg opt =
     (case (cfg, opt) of
        (Some c, Some op) \<Rightarrow>
          (let enabled = opt_enable_i2c op \<or> opt_enable_i3c op
           in (ST_OK, Some (c\<lparr>jtag_cfg := \<lparr>jtag_mode_cfg = JTAG_DRIVER_MODE_SOFTWARE,
                    chain_mode = JTAG_CHAIN_SELECT_MODE_SINGLE\<rparr>,
                  remote_logging := \<lparr>logging_level = of_nat IPC_LogType_Off, logging_stream = 0\<rparr>,
                  buscfg := \<lparr>enable_i2c = opt_enable_i2c op, enable_i3c = opt_enable_i3c op,
                    default_bus = opt_bus op,
                    bus_config_types = map (\<lambda>i. if enabled then opt_bus_config_type op ! i
                        else BUS_CONFIG_NOT_ALLOWED) [0 ..< MAX_IxC_BUSES],
                    bus_config_map = map (\<lambda>i. if enabled then opt_bus_config_map op ! i else 0)
                        [0 ..< MAX_IxC_BUSES]\<rparr>\<rparr>)))
      | _ \<Rightarrow> (ST_ERR, cfg))"

text \<open>The tables of a configuration have one entry for each of the four buses.\<close>

definition bus_config_ok :: "bus_config \<Rightarrow> bool" where
  "bus_config_ok b \<longleftrightarrow> length (bus_config_types b) = MAX_IxC_BUSES \<and> length (bus_config_map b) = MAX_IxC_BUSES"

lemma set_config_defaults_ok:
  "\<exists>c'. set_config_defaults (Some c) (Some op) = (ST_OK, Some c') \<and> bus_config_ok (buscfg c') \<and>
     default_bus (buscfg c') = opt_bus op"
  by (simp add: set_config_defaults_def bus_config_ok_def Let_def)

end
