(* ===== verification/Vprobe.thy ===== *)
theory Vprobe
  imports Asd_Message
begin

text \<open>
  The remote probe handler \<^verbatim>\<open>vprobe_handler.c\<close>, which builds an XML description of the probes, and
  the string functions of \<^verbatim>\<open>safec\<close> it uses.
\<close>

section \<open>Strings\<close>

text \<open>A C string as its bytes without the terminating zero.\<close>

definition bytes_of :: "string \<Rightarrow> u8 list" where
  "bytes_of s = map of_char s"

fun decimal :: "nat \<Rightarrow> string" where
  "decimal n = (if n < 10 then [char_of (48 + n)] else decimal (n div 10) @ [char_of (48 + n mod 10)])"

declare decimal.simps [simp del]

abbreviation (input) "RSIZE_MAX_STR \<equiv> 4096 :: nat"

text \<open>
  \<^verbatim>\<open>strcpy_s\<close> clears what follows the string in the first \<open>dmax\<close> bytes; it succeeds when there is
  room for the terminating zero.
\<close>

definition strcpy_s :: "u8 list \<Rightarrow> nat \<Rightarrow> u8 list \<Rightarrow> bool \<times> u8 list" where
  "strcpy_s dest dmax src =
     (if dmax = 0 \<or> dmax > RSIZE_MAX_STR then (False, dest)
      else if length src < dmax then (True, src @ replicate (dmax - length src) 0 @ drop dmax dest)
      else (False, replicate dmax 0 @ drop dmax dest))"

text \<open>\<^verbatim>\<open>sprintf_s\<close> returns the number of characters written, and a negative number for an error.\<close>

definition sprintf_s :: "nat \<Rightarrow> u8 list \<Rightarrow> int \<times> u8 list" where
  "sprintf_s dmax text = (if length text < dmax then (int (length text), text) else (-406, []))"

section \<open>The handler\<close>

abbreviation (input) "BUFFER_LINE_SIZE \<equiv> 150 :: nat"
abbreviation (input) "MAX_SCAN_CHAINS \<equiv> 2 :: nat"

record vProbe_Handler =
  remoteProbes :: u8
  remoteConfigs :: u8
  probesConfig :: "u8 list"
  vp_initialized :: bool

text \<open>\<open>garbage\<close> is what the allocation left in the configuration.\<close>

definition vProbeHandler :: "u8 list \<Rightarrow> vProbe_Handler" where
  "vProbeHandler garbage = \<lparr>remoteProbes = 0, remoteConfigs = 0, probesConfig = garbage, vp_initialized = False\<rparr>"

text \<open>The position in the configuration stands for the pointer; what is left of the buffer is counted.\<close>

type_synonym vprobe_buffer = "u8 list \<times> nat \<times> nat"

definition vProbeConfigAppend :: "u8 list \<Rightarrow> vprobe_buffer \<Rightarrow> status \<times> vprobe_buffer" where
  "vProbeConfigAppend str = (\<lambda>(buf, pos, destsize).
     let count = min (length str) MAX_DATA_SIZE; (ok, bs) = strcpy_s (drop pos buf) destsize str
     in if ok then (ST_OK, take pos buf @ bs, pos + count, destsize - count)
        else (ST_ERR, take pos buf @ bs, pos, destsize))"

definition append_line :: "u8 list \<Rightarrow> status \<times> vprobe_buffer \<Rightarrow> status \<times> vprobe_buffer" where
  "append_line str r = (case r of (st, b) \<Rightarrow> if st = ST_OK then vProbeConfigAppend str b else (st, b))"

text \<open>A formatted line, whose number of characters is taken for an error.\<close>

definition format_line :: "string \<Rightarrow> status \<times> vprobe_buffer \<Rightarrow> status \<times> vprobe_buffer" where
  "format_line text r = (case r of (st, b) \<Rightarrow>
     if st = ST_OK
     then let (n, line) = sprintf_s BUFFER_LINE_SIZE (bytes_of text)
          in if n \<noteq> 0 then (ST_ERR, b) else vProbeConfigAppend line b
     else (st, b))"

definition CRLF :: string where
  "CRLF = [char_of (13 :: nat), char_of (10 :: nat)]"

definition DQ :: string where
  "DQ = [char_of (34 :: nat)]"

definition probe_lines :: "nat \<Rightarrow> status \<times> vprobe_buffer \<Rightarrow> status \<times> vprobe_buffer" where
  "probe_lines i r =
     (let ia = decimal (MAX_SCAN_CHAINS + i)
      in append_line (bytes_of (''</Probe>'' @ CRLF))
           (format_line (''<Interface.Jtag Protocol_Value='' @ DQ @ ia @ DQ @ '' JTAG_Speed='' @ DQ @ ''1000000'' @ DQ @
               '' Divisor='' @ DQ @ ''1'' @ DQ @ ''/>'' @ CRLF)
             (format_line (''<Probe UniqueId='' @ DQ @ ia @ DQ @ ''>'' @ CRLF) r)))"

definition vProbe_initialize :: "vProbe_Handler \<Rightarrow> status \<times> vProbe_Handler" where
  "vProbe_initialize v =
     (let r = append_line (bytes_of (''<ASD_JTAG Enable='' @ DQ @ ''true'' @ DQ @ ''>'' @ CRLF))
            (ST_OK, probesConfig v, 0, MAX_DATA_SIZE);
          r = fold probe_lines [0 ..< unat (remoteConfigs v)] r;
          (st, buf, pos, left) = append_line (bytes_of (''</ASD_JTAG>'' @ CRLF)) r
      in if st \<noteq> ST_OK then (st, v\<lparr>probesConfig := buf\<rparr>)
         else (ST_OK, v\<lparr>probesConfig := buf[pos := 0], vp_initialized := True\<rparr>))"

definition vProbe_deinitialize :: "vProbe_Handler \<Rightarrow> status" where
  "vProbe_deinitialize v = (if vp_initialized v then ST_OK else ST_ERR)"

section \<open>Lemmas\<close>

lemma length_strcpy_s:
  assumes "dmax \<le> length dest"
  shows "length (snd (strcpy_s dest dmax src)) = length dest"
  using assms by (simp add: strcpy_s_def)

lemma append_line_length:
  assumes "append_line str (st, buf, pos, left) = (st', buf', pos', left')" "pos + left = length buf"
    and "length str \<le> MAX_DATA_SIZE"
  shows "pos' + left' = length buf' \<and> length buf' = length buf"
proof (cases "st = ST_OK")
  case True
  obtain ok bs where c: "strcpy_s (drop pos buf) left str = (ok, bs)" by fastforce
  have "length bs = left" using length_strcpy_s [of left "drop pos buf" str] c assms(2) by simp
  moreover have "ok \<Longrightarrow> length str < left" using c by (auto simp: strcpy_s_def split: if_splits)
  moreover have "buf' = take pos buf @ bs \<and> (pos', left') = (if ok then (pos + length str, left - length str) else (pos, left))"
    using assms True c by (auto simp: append_line_def vProbeConfigAppend_def Let_def min_def split: if_splits)
  ultimately show ?thesis using assms(2) by (auto split: if_splits)
qed (use assms in \<open>simp add: append_line_def\<close>)

text \<open>A line of a probe ends the construction: the count of characters written is not zero.\<close>

lemma format_line_fails: "text \<noteq> [] \<Longrightarrow> fst (format_line text r) \<noteq> ST_OK"
  by (auto simp: format_line_def sprintf_s_def bytes_of_def split: prod.split)

lemma append_line_fails: "fst r \<noteq> ST_OK \<Longrightarrow> append_line str r = r"
  by (cases r) (simp add: append_line_def)

lemma probe_lines_fail: "fst (probe_lines i r) \<noteq> ST_OK"
  by (simp add: probe_lines_def Let_def append_line_fails format_line_fails)

lemma probe_fold_fails:
  assumes "is \<noteq> []"
  shows "fst (fold probe_lines is r) \<noteq> ST_OK"
  using assms probe_lines_fail by (induction "is" arbitrary: r rule: rev_induct) simp_all

lemma vProbe_initialize_fails:
  assumes "remoteConfigs v \<noteq> 0"
  shows "fst (vProbe_initialize v) \<noteq> ST_OK \<and> vp_initialized (snd (vProbe_initialize v)) = vp_initialized v"
proof -
  have "unat (remoteConfigs v) \<noteq> 0" using assms by (simp add: unat_eq_0)
  then have "fst (fold probe_lines [0 ..< unat (remoteConfigs v)] r) \<noteq> ST_OK" for r
    by (intro probe_fold_fails) simp
  then show ?thesis
    by (simp add: vProbe_initialize_def Let_def append_line_fails split: prod.split) (metis fst_conv)
qed

lemma append_line_ok:
  assumes "length str < left" "left \<le> 3000" "length buf = pos + left"
  shows "append_line str (ST_OK, buf, pos, left) =
    (ST_OK, take pos buf @ str @ replicate (left - length str) 0, pos + length str, left - length str)"
  using assms by (simp add: append_line_def vProbeConfigAppend_def strcpy_s_def Let_def)

lemma vProbe_initialize_ok:
  assumes "remoteConfigs v = 0" "length (probesConfig v) = MAX_DATA_SIZE"
  shows "\<exists>buf. vProbe_initialize v = (ST_OK, v\<lparr>probesConfig := buf, vp_initialized := True\<rparr>) \<and> length buf = MAX_DATA_SIZE"
  using assms
  by (simp add: vProbe_initialize_def append_line_ok bytes_of_def CRLF_def DQ_def) (intro exI conjI, rule refl, simp)

end
