(* ===== verification/Tap.thy ===== *)
theory Tap
  imports Prelude
begin

text \<open>
  The JTAG Test Access Port: the state names of \<^verbatim>\<open>enum jtag_tapstate\<close>, the table
  \<^verbatim>\<open>_tms_cycle_lookup\<close> the driver walks to move the port from one state to another, and,
  as the specification both are measured against, the state diagram of IEEE 1149.1.
  The lemmas establish that every entry of the table drives the port to the state it is
  meant for, that no shorter TMS sequence does, and that the reset sequence works from
  any state.
\<close>

section \<open>The states and the table of the driver\<close>

datatype jtag_tapstate =
    JTAG_STATE_TLRESET | JTAG_STATE_IDLE
  | JTAG_STATE_SELECTDR | JTAG_STATE_CAPTUREDR | JTAG_STATE_SHIFTDR | JTAG_STATE_EXIT1DR
  | JTAG_STATE_PAUSEDR | JTAG_STATE_EXIT2DR | JTAG_STATE_UPDATEDR
  | JTAG_STATE_SELECTIR | JTAG_STATE_CAPTUREIR | JTAG_STATE_SHIFTIR | JTAG_STATE_EXIT1IR
  | JTAG_STATE_PAUSEIR | JTAG_STATE_EXIT2IR | JTAG_STATE_UPDATEIR
  | JTAG_STATE_CURRENT

definition tapstates :: "jtag_tapstate list" where
  "tapstates = [JTAG_STATE_TLRESET, JTAG_STATE_IDLE,
     JTAG_STATE_SELECTDR, JTAG_STATE_CAPTUREDR, JTAG_STATE_SHIFTDR, JTAG_STATE_EXIT1DR,
     JTAG_STATE_PAUSEDR, JTAG_STATE_EXIT2DR, JTAG_STATE_UPDATEDR,
     JTAG_STATE_SELECTIR, JTAG_STATE_CAPTUREIR, JTAG_STATE_SHIFTIR, JTAG_STATE_EXIT1IR,
     JTAG_STATE_PAUSEIR, JTAG_STATE_EXIT2IR, JTAG_STATE_UPDATEIR]"

text \<open>The number the C compiler gives each enumerator, which is how it indexes the table.\<close>

primrec tapstate_num :: "jtag_tapstate \<Rightarrow> nat" where
  "tapstate_num JTAG_STATE_TLRESET = 0"
| "tapstate_num JTAG_STATE_IDLE = 1"
| "tapstate_num JTAG_STATE_SELECTDR = 2"
| "tapstate_num JTAG_STATE_CAPTUREDR = 3"
| "tapstate_num JTAG_STATE_SHIFTDR = 4"
| "tapstate_num JTAG_STATE_EXIT1DR = 5"
| "tapstate_num JTAG_STATE_PAUSEDR = 6"
| "tapstate_num JTAG_STATE_EXIT2DR = 7"
| "tapstate_num JTAG_STATE_UPDATEDR = 8"
| "tapstate_num JTAG_STATE_SELECTIR = 9"
| "tapstate_num JTAG_STATE_CAPTUREIR = 10"
| "tapstate_num JTAG_STATE_SHIFTIR = 11"
| "tapstate_num JTAG_STATE_EXIT1IR = 12"
| "tapstate_num JTAG_STATE_PAUSEIR = 13"
| "tapstate_num JTAG_STATE_EXIT2IR = 14"
| "tapstate_num JTAG_STATE_UPDATEIR = 15"
| "tapstate_num JTAG_STATE_CURRENT = 16"

record tms_cycle =
  tmsbits :: "8 word"
  tms_count :: "8 word"

abbreviation tms_entry :: "8 word \<Rightarrow> 8 word \<Rightarrow> tms_cycle" where
  "tms_entry b c \<equiv> \<lparr>tmsbits = b, tms_count = c\<rparr>"

definition tms_cycle_lookup :: "tms_cycle list list" where
  "tms_cycle_lookup = [
   \<comment> \<open>TLR\<close>
   [tms_entry 0x00 0, tms_entry 0x00 1, tms_entry 0x02 2, tms_entry 0x02 3,
    tms_entry 0x02 4, tms_entry 0x0a 4, tms_entry 0x0a 5, tms_entry 0x2a 6,
    tms_entry 0x1a 5, tms_entry 0x06 3, tms_entry 0x06 4, tms_entry 0x06 5,
    tms_entry 0x16 5, tms_entry 0x16 6, tms_entry 0x56 7, tms_entry 0x36 6],
   \<comment> \<open>RTI\<close>
   [tms_entry 0x07 3, tms_entry 0x00 0, tms_entry 0x01 1, tms_entry 0x01 2,
    tms_entry 0x01 3, tms_entry 0x05 3, tms_entry 0x05 4, tms_entry 0x15 5,
    tms_entry 0x0d 4, tms_entry 0x03 2, tms_entry 0x03 3, tms_entry 0x03 4,
    tms_entry 0x0b 4, tms_entry 0x0b 5, tms_entry 0x2b 6, tms_entry 0x1b 5],
   \<comment> \<open>SelDR\<close>
   [tms_entry 0x03 2, tms_entry 0x03 3, tms_entry 0x00 0, tms_entry 0x00 1,
    tms_entry 0x00 2, tms_entry 0x02 2, tms_entry 0x02 3, tms_entry 0x0a 4,
    tms_entry 0x06 3, tms_entry 0x01 1, tms_entry 0x01 2, tms_entry 0x01 3,
    tms_entry 0x05 3, tms_entry 0x05 4, tms_entry 0x15 5, tms_entry 0x0d 4],
   \<comment> \<open>CapDR\<close>
   [tms_entry 0x1f 5, tms_entry 0x03 3, tms_entry 0x07 3, tms_entry 0x00 0,
    tms_entry 0x00 1, tms_entry 0x01 1, tms_entry 0x01 2, tms_entry 0x05 3,
    tms_entry 0x03 2, tms_entry 0x0f 4, tms_entry 0x0f 5, tms_entry 0x0f 6,
    tms_entry 0x2f 6, tms_entry 0x2f 7, tms_entry 0xaf 8, tms_entry 0x6f 7],
   \<comment> \<open>SDR\<close>
   [tms_entry 0x1f 5, tms_entry 0x03 3, tms_entry 0x07 3, tms_entry 0x07 4,
    tms_entry 0x00 0, tms_entry 0x01 1, tms_entry 0x01 2, tms_entry 0x05 3,
    tms_entry 0x03 2, tms_entry 0x0f 4, tms_entry 0x0f 5, tms_entry 0x0f 6,
    tms_entry 0x2f 6, tms_entry 0x2f 7, tms_entry 0xaf 8, tms_entry 0x6f 7],
   \<comment> \<open>Ex1DR\<close>
   [tms_entry 0x0f 4, tms_entry 0x01 2, tms_entry 0x03 2, tms_entry 0x03 3,
    tms_entry 0x02 3, tms_entry 0x00 0, tms_entry 0x00 1, tms_entry 0x02 2,
    tms_entry 0x01 1, tms_entry 0x07 3, tms_entry 0x07 4, tms_entry 0x07 5,
    tms_entry 0x17 5, tms_entry 0x17 6, tms_entry 0x57 7, tms_entry 0x37 6],
   \<comment> \<open>PDR\<close>
   [tms_entry 0x1f 5, tms_entry 0x03 3, tms_entry 0x07 3, tms_entry 0x07 4,
    tms_entry 0x01 2, tms_entry 0x05 3, tms_entry 0x00 0, tms_entry 0x01 1,
    tms_entry 0x03 2, tms_entry 0x0f 4, tms_entry 0x0f 5, tms_entry 0x0f 6,
    tms_entry 0x2f 6, tms_entry 0x2f 7, tms_entry 0xaf 8, tms_entry 0x6f 7],
   \<comment> \<open>Ex2DR\<close>
   [tms_entry 0x0f 4, tms_entry 0x01 2, tms_entry 0x03 2, tms_entry 0x03 3,
    tms_entry 0x00 1, tms_entry 0x02 2, tms_entry 0x02 3, tms_entry 0x00 0,
    tms_entry 0x01 1, tms_entry 0x07 3, tms_entry 0x07 4, tms_entry 0x07 5,
    tms_entry 0x17 5, tms_entry 0x17 6, tms_entry 0x57 7, tms_entry 0x37 6],
   \<comment> \<open>UpdDR\<close>
   [tms_entry 0x07 3, tms_entry 0x00 1, tms_entry 0x01 1, tms_entry 0x01 2,
    tms_entry 0x01 3, tms_entry 0x05 3, tms_entry 0x05 4, tms_entry 0x15 5,
    tms_entry 0x00 0, tms_entry 0x03 2, tms_entry 0x03 3, tms_entry 0x03 4,
    tms_entry 0x0b 4, tms_entry 0x0b 5, tms_entry 0x2b 6, tms_entry 0x1b 5],
   \<comment> \<open>SelIR\<close>
   [tms_entry 0x01 1, tms_entry 0x01 2, tms_entry 0x05 3, tms_entry 0x05 4,
    tms_entry 0x05 5, tms_entry 0x15 5, tms_entry 0x15 6, tms_entry 0x55 7,
    tms_entry 0x35 6, tms_entry 0x00 0, tms_entry 0x00 1, tms_entry 0x00 2,
    tms_entry 0x02 2, tms_entry 0x02 3, tms_entry 0x0a 4, tms_entry 0x06 3],
   \<comment> \<open>CapIR\<close>
   [tms_entry 0x1f 5, tms_entry 0x03 3, tms_entry 0x07 3, tms_entry 0x07 4,
    tms_entry 0x07 5, tms_entry 0x17 5, tms_entry 0x17 6, tms_entry 0x57 7,
    tms_entry 0x37 6, tms_entry 0x0f 4, tms_entry 0x00 0, tms_entry 0x00 1,
    tms_entry 0x01 1, tms_entry 0x01 2, tms_entry 0x05 3, tms_entry 0x03 2],
   \<comment> \<open>SIR\<close>
   [tms_entry 0x1f 5, tms_entry 0x03 3, tms_entry 0x07 3, tms_entry 0x07 4,
    tms_entry 0x07 5, tms_entry 0x17 5, tms_entry 0x17 6, tms_entry 0x57 7,
    tms_entry 0x37 6, tms_entry 0x0f 4, tms_entry 0x0f 5, tms_entry 0x00 0,
    tms_entry 0x01 1, tms_entry 0x01 2, tms_entry 0x05 3, tms_entry 0x03 2],
   \<comment> \<open>Ex1IR\<close>
   [tms_entry 0x0f 4, tms_entry 0x01 2, tms_entry 0x03 2, tms_entry 0x03 3,
    tms_entry 0x03 4, tms_entry 0x0b 4, tms_entry 0x0b 5, tms_entry 0x2b 6,
    tms_entry 0x1b 5, tms_entry 0x07 3, tms_entry 0x07 4, tms_entry 0x02 3,
    tms_entry 0x00 0, tms_entry 0x00 1, tms_entry 0x02 2, tms_entry 0x01 1],
   \<comment> \<open>PIR\<close>
   [tms_entry 0x1f 5, tms_entry 0x03 3, tms_entry 0x07 3, tms_entry 0x07 4,
    tms_entry 0x07 5, tms_entry 0x17 5, tms_entry 0x17 6, tms_entry 0x57 7,
    tms_entry 0x37 6, tms_entry 0x0f 4, tms_entry 0x0f 5, tms_entry 0x01 2,
    tms_entry 0x05 3, tms_entry 0x00 0, tms_entry 0x01 1, tms_entry 0x03 2],
   \<comment> \<open>Ex2IR\<close>
   [tms_entry 0x0f 4, tms_entry 0x01 2, tms_entry 0x03 2, tms_entry 0x03 3,
    tms_entry 0x03 4, tms_entry 0x0b 4, tms_entry 0x0b 5, tms_entry 0x2b 6,
    tms_entry 0x1b 5, tms_entry 0x07 3, tms_entry 0x07 4, tms_entry 0x00 1,
    tms_entry 0x02 2, tms_entry 0x02 3, tms_entry 0x00 0, tms_entry 0x01 1],
   \<comment> \<open>UpdIR\<close>
   [tms_entry 0x07 3, tms_entry 0x00 1, tms_entry 0x01 1, tms_entry 0x01 2,
    tms_entry 0x01 3, tms_entry 0x05 3, tms_entry 0x05 4, tms_entry 0x15 5,
    tms_entry 0x0d 4, tms_entry 0x03 2, tms_entry 0x03 3, tms_entry 0x03 4,
    tms_entry 0x0b 4, tms_entry 0x0b 5, tms_entry 0x2b 6, tms_entry 0x00 0]]"

text \<open>
  One access to the table. The index \<^const>\<open>JTAG_STATE_CURRENT\<close> lies outside of the
  16 by 16 table, where C reads whatever follows it: no value is given there.
\<close>

definition tms_lookup :: "jtag_tapstate \<Rightarrow> jtag_tapstate \<Rightarrow> tms_cycle option" where
  "tms_lookup src dst =
     (if tapstate_num src < 16 \<and> tapstate_num dst < 16
      then Some (tms_cycle_lookup ! tapstate_num src ! tapstate_num dst) else None)"

text \<open>The TMS levels an entry stands for, first cycle first: \<^verbatim>\<open>(tmsbits >> i) & 0x1\<close>.\<close>

definition tms_levels :: "tms_cycle \<Rightarrow> bool list" where
  "tms_levels c = map (\<lambda>i. bit (tmsbits c) i) [0 ..< unat (tms_count c)]"

section \<open>The state diagram of IEEE 1149.1\<close>

primrec tap_step :: "jtag_tapstate \<Rightarrow> bool \<Rightarrow> jtag_tapstate" where
  "tap_step JTAG_STATE_TLRESET = (\<lambda>tms. if tms then JTAG_STATE_TLRESET else JTAG_STATE_IDLE)"
| "tap_step JTAG_STATE_IDLE = (\<lambda>tms. if tms then JTAG_STATE_SELECTDR else JTAG_STATE_IDLE)"
| "tap_step JTAG_STATE_SELECTDR = (\<lambda>tms. if tms then JTAG_STATE_SELECTIR else JTAG_STATE_CAPTUREDR)"
| "tap_step JTAG_STATE_CAPTUREDR = (\<lambda>tms. if tms then JTAG_STATE_EXIT1DR else JTAG_STATE_SHIFTDR)"
| "tap_step JTAG_STATE_SHIFTDR = (\<lambda>tms. if tms then JTAG_STATE_EXIT1DR else JTAG_STATE_SHIFTDR)"
| "tap_step JTAG_STATE_EXIT1DR = (\<lambda>tms. if tms then JTAG_STATE_UPDATEDR else JTAG_STATE_PAUSEDR)"
| "tap_step JTAG_STATE_PAUSEDR = (\<lambda>tms. if tms then JTAG_STATE_EXIT2DR else JTAG_STATE_PAUSEDR)"
| "tap_step JTAG_STATE_EXIT2DR = (\<lambda>tms. if tms then JTAG_STATE_UPDATEDR else JTAG_STATE_SHIFTDR)"
| "tap_step JTAG_STATE_UPDATEDR = (\<lambda>tms. if tms then JTAG_STATE_SELECTDR else JTAG_STATE_IDLE)"
| "tap_step JTAG_STATE_SELECTIR = (\<lambda>tms. if tms then JTAG_STATE_TLRESET else JTAG_STATE_CAPTUREIR)"
| "tap_step JTAG_STATE_CAPTUREIR = (\<lambda>tms. if tms then JTAG_STATE_EXIT1IR else JTAG_STATE_SHIFTIR)"
| "tap_step JTAG_STATE_SHIFTIR = (\<lambda>tms. if tms then JTAG_STATE_EXIT1IR else JTAG_STATE_SHIFTIR)"
| "tap_step JTAG_STATE_EXIT1IR = (\<lambda>tms. if tms then JTAG_STATE_UPDATEIR else JTAG_STATE_PAUSEIR)"
| "tap_step JTAG_STATE_PAUSEIR = (\<lambda>tms. if tms then JTAG_STATE_EXIT2IR else JTAG_STATE_PAUSEIR)"
| "tap_step JTAG_STATE_EXIT2IR = (\<lambda>tms. if tms then JTAG_STATE_UPDATEIR else JTAG_STATE_SHIFTIR)"
| "tap_step JTAG_STATE_UPDATEIR = (\<lambda>tms. if tms then JTAG_STATE_SELECTDR else JTAG_STATE_IDLE)"
| "tap_step JTAG_STATE_CURRENT = (\<lambda>tms. JTAG_STATE_CURRENT)"

definition tap_run :: "jtag_tapstate \<Rightarrow> bool list \<Rightarrow> jtag_tapstate" where
  "tap_run = foldl tap_step"

lemma tap_run_Nil [simp]: "tap_run s [] = s"
  by (simp add: tap_run_def)

lemma tap_run_Cons [simp]: "tap_run s (t # ts) = tap_run (tap_step s t) ts"
  by (simp add: tap_run_def)

lemma tap_run_append [simp]: "tap_run s (ts @ us) = tap_run (tap_run s ts) us"
  by (simp add: tap_run_def)

lemma tapstates_complete: "s \<in> set tapstates \<longleftrightarrow> s \<noteq> JTAG_STATE_CURRENT"
  by (cases s) (simp_all add: tapstates_def)

lemma tapstate_num_less_iff [simp]: "tapstate_num s < 16 \<longleftrightarrow> s \<noteq> JTAG_STATE_CURRENT"
  by (cases s) simp_all

lemma tap_step_real [simp]: "tap_step s t = JTAG_STATE_CURRENT \<longleftrightarrow> s = JTAG_STATE_CURRENT"
  by (cases s) simp_all

lemma tap_run_real [simp]: "tap_run s ts = JTAG_STATE_CURRENT \<longleftrightarrow> s = JTAG_STATE_CURRENT"
  by (induction ts arbitrary: s) simp_all

section \<open>The table against the diagram\<close>

definition tms_entry_ok :: "jtag_tapstate \<Rightarrow> jtag_tapstate \<Rightarrow> bool" where
  "tms_entry_ok src dst =
     (case tms_lookup src dst of None \<Rightarrow> False
      | Some c \<Rightarrow> tap_run src (tms_levels c) = dst)"

definition tms_dist :: "jtag_tapstate \<Rightarrow> jtag_tapstate \<Rightarrow> nat" where
  "tms_dist src dst = (case tms_lookup src dst of None \<Rightarrow> 0 | Some c \<Rightarrow> unat (tms_count c))"

lemma table_drives:
  "list_all (\<lambda>src. list_all (tms_entry_ok src) tapstates) tapstates"
  by code_simp

lemma table_triangle:
  "list_all (\<lambda>src. list_all (\<lambda>dst. list_all (\<lambda>t.
      tms_dist src dst \<le> Suc (tms_dist (tap_step src t) dst)) [False, True]) tapstates) tapstates"
  by code_simp

lemma tms_lookup_Some:
  assumes "src \<noteq> JTAG_STATE_CURRENT" "dst \<noteq> JTAG_STATE_CURRENT"
  obtains c where "tms_lookup src dst = Some c" "tap_run src (tms_levels c) = dst"
    "length (tms_levels c) = tms_dist src dst"
proof -
  have "tms_entry_ok src dst"
    using table_drives assms by (simp add: list_all_iff tapstates_complete)
  then show thesis
    using that by (auto simp: tms_entry_ok_def tms_dist_def tms_levels_def split: option.splits)
qed

lemma tms_lookup_None [simp]:
  "tms_lookup src dst = None \<longleftrightarrow> src = JTAG_STATE_CURRENT \<or> dst = JTAG_STATE_CURRENT"
  by (auto simp: tms_lookup_def)

lemma tms_dist_step:
  assumes "src \<noteq> JTAG_STATE_CURRENT" "dst \<noteq> JTAG_STATE_CURRENT"
  shows "tms_dist src dst \<le> Suc (tms_dist (tap_step src t) dst)"
  using table_triangle assms by (cases t) (simp_all add: list_all_iff tapstates_complete)

lemma tms_dist_same [simp]: "tms_dist s s = 0"
proof -
  have "list_all (\<lambda>s. tms_dist s s = 0) tapstates" by code_simp
  then show ?thesis
    by (cases "s = JTAG_STATE_CURRENT")
      (simp_all add: list_all_iff tapstates_complete tms_dist_def tms_lookup_def)
qed

lemma tms_dist_le:
  assumes "src \<noteq> JTAG_STATE_CURRENT"
  shows "tms_dist src (tap_run src ts) \<le> length ts"
  using assms
proof (induction ts arbitrary: src)
  case Nil
  then show ?case by simp
next
  case (Cons t ts)
  then have "tms_dist (tap_step src t) (tap_run src (t # ts)) \<le> length ts" by simp
  with Cons.prems tms_dist_step [of src "tap_run src (t # ts)" t] show ?case by simp
qed

text \<open>
  C27. The comment over \<^verbatim>\<open>_tms_cycle_lookup\<close> calls it the complete set of TMS cycles for
  going from any state to any other by a shortest path. It is: for every pair of real
  states there is an entry, the TMS levels it stands for take the diagram of IEEE 1149.1
  from the one to the other, and every TMS sequence doing so is at least as long.
\<close>

theorem tms_table_shortest:
  assumes "src \<noteq> JTAG_STATE_CURRENT" "dst \<noteq> JTAG_STATE_CURRENT"
  shows "\<exists>c. tms_lookup src dst = Some c \<and> tap_run src (tms_levels c) = dst \<and>
    (\<forall>ts. tap_run src ts = dst \<longrightarrow> length (tms_levels c) \<le> length ts)"
  using assms tms_lookup_Some [of src dst] tms_dist_le [of src] by metis

lemma tms_table_shortest_witness:
  "\<exists>c. tms_lookup JTAG_STATE_SHIFTDR JTAG_STATE_SHIFTIR = Some c \<and>
    tap_run JTAG_STATE_SHIFTDR (tms_levels c) = JTAG_STATE_SHIFTIR \<and>
    (\<forall>ts. tap_run JTAG_STATE_SHIFTDR ts = JTAG_STATE_SHIFTIR \<longrightarrow>
      length (tms_levels c) \<le> length ts)"
  by (rule tms_table_shortest) simp_all

lemma tms_levels_to_reset:
  assumes "tms_lookup src JTAG_STATE_TLRESET = Some c"
  shows "tap_run JTAG_STATE_TLRESET (tms_levels c) = JTAG_STATE_TLRESET"
proof -
  have "list_all (\<lambda>src. list_all (\<lambda>c. tap_run JTAG_STATE_TLRESET (tms_levels c) = JTAG_STATE_TLRESET)
      (case tms_lookup src JTAG_STATE_TLRESET of None \<Rightarrow> [] | Some c \<Rightarrow> [c])) tapstates"
    by code_simp
  moreover have "src \<in> set tapstates"
    using assms by (cases "src = JTAG_STATE_CURRENT") (simp_all add: tapstates_complete tms_lookup_def)
  ultimately show ?thesis
    using assms by (auto simp: list_all_iff)
qed

text \<open>Five cycles with TMS high are enough to reset the port, whatever its state.\<close>

lemma tap_reset_5:
  assumes "s \<noteq> JTAG_STATE_CURRENT" "5 \<le> n"
  shows "tap_run s (replicate n True) = JTAG_STATE_TLRESET"
proof -
  have stay: "tap_run JTAG_STATE_TLRESET (replicate k True) = JTAG_STATE_TLRESET" for k
    by (induction k) simp_all
  have "tap_run s (replicate 5 True) = JTAG_STATE_TLRESET"
    using assms(1) by (cases s) (simp_all add: eval_nat_numeral)
  moreover have "replicate n True = replicate 5 True @ replicate (n - 5) True"
    using assms(2) by (simp flip: replicate_add)
  ultimately show ?thesis by (simp add: stay)
qed

end
