(* ===== verification/Jtag_Driver.thy ===== *)
theory Jtag_Driver
  imports Tap
begin

text \<open>
  The ASPEED JTAG master of \<^verbatim>\<open>jtag-aspeed.c\<close> with the character device of \<^verbatim>\<open>jtag.c\<close>
  in front of it. The controller is memory mapped: a read is answered by the hardware, which
  is a parameter (a function from the accesses made so far to the value read), and every
  access is kept in a log. What happens on the pins is read off that log: each rising edge
  of TCK carries a TMS and a TDI level, and a read of the software-mode register while TCK
  is high samples TDO.
\<close>

section \<open>Registers and the driver state\<close>

datatype io = Rd nat u32 | Wr nat u32

abbreviation (input) "ASPEED_JTAG_DATA \<equiv> 0x00 :: nat"
abbreviation (input) "ASPEED_JTAG_INST \<equiv> 0x04 :: nat"
abbreviation (input) "ASPEED_JTAG_CTRL \<equiv> 0x08 :: nat"
abbreviation (input) "ASPEED_JTAG_ISR \<equiv> 0x0C :: nat"
abbreviation (input) "ASPEED_JTAG_SW \<equiv> 0x10 :: nat"
abbreviation (input) "ASPEED_JTAG_TCK \<equiv> 0x14 :: nat"
abbreviation (input) "ASPEED_JTAG_SHDATA \<equiv> 0x20 :: nat"
abbreviation (input) "ASPEED_JTAG_PADCTRL0 \<equiv> 0x28 :: nat"
abbreviation (input) "ASPEED_JTAG_PADCTRL1 \<equiv> 0x2C :: nat"
abbreviation (input) "ASPEED_JTAG_SHCTRL \<equiv> 0x30 :: nat"
abbreviation (input) "ASPEED_JTAG_GBLCTRL \<equiv> 0x34 :: nat"
abbreviation (input) "ASPEED_JTAG_INTCTRL \<equiv> 0x38 :: nat"

abbreviation (input) "CTL_ENG_EN \<equiv> 0x80000000 :: u32"
abbreviation (input) "CTL_ENG_OUT_EN \<equiv> 0x40000000 :: u32"
abbreviation (input) "CTL_FORCE_TMS \<equiv> 0x20000000 :: u32"
abbreviation (input) "CTL_INST_LEN x \<equiv> push_bit 20 (x :: u32)"
abbreviation (input) "CTL_LASPEED_INST \<equiv> 0x20000 :: u32"
abbreviation (input) "CTL_INST_EN \<equiv> 0x10000 :: u32"
abbreviation (input) "CTL_DATA_LEN x \<equiv> push_bit 4 (x :: u32)"
abbreviation (input) "CTL_LASPEED_DATA \<equiv> 0x2 :: u32"
abbreviation (input) "CTL_DATA_EN \<equiv> 0x1 :: u32"
abbreviation (input) "CTL_26XX_TRANS_LEN x \<equiv> push_bit 8 (x :: u32)"
abbreviation (input) "CTL_26XX_LASPEED_TRANS \<equiv> 0x10 :: u32"
abbreviation (input) "CTL_26XX_INST_EN \<equiv> 0x2 :: u32"
abbreviation (input) "ISR_INST_PAUSE \<equiv> 0x80000 :: u32"
abbreviation (input) "ISR_INST_COMPLETE \<equiv> 0x40000 :: u32"
abbreviation (input) "ISR_DATA_PAUSE \<equiv> 0x20000 :: u32"
abbreviation (input) "ISR_DATA_COMPLETE \<equiv> 0x10000 :: u32"
abbreviation (input) "ISR_ALL \<equiv> 0xF000F :: u32"
abbreviation (input) "ISR_INT_EN_MASK \<equiv> 0xF :: u32"
abbreviation (input) "ISR_INT_MASK \<equiv> 0xF0000 :: u32"
abbreviation (input) "SW_MODE_EN \<equiv> 0x80000 :: u32"
abbreviation (input) "SW_MODE_TCK \<equiv> 0x40000 :: u32"
abbreviation (input) "SW_MODE_TMS \<equiv> 0x20000 :: u32"
abbreviation (input) "SW_MODE_TDIO \<equiv> 0x10000 :: u32"
abbreviation (input) "TCK_DIVISOR_MASK \<equiv> 0x7FF :: u32"
abbreviation (input) "CLK_DIVISOR_MASK \<equiv> 0xFFF :: u32"
abbreviation (input) "GBLCTRL_ENG_MODE_EN \<equiv> 0x80000000 :: u32"
abbreviation (input) "GBLCTRL_ENG_OUT_EN \<equiv> 0x40000000 :: u32"
abbreviation (input) "GBLCTRL_FORCE_TMS \<equiv> 0x20000000 :: u32"
abbreviation (input) "GBLCTRL_RESET_FIFO \<equiv> 0x2000000 :: u32"
abbreviation (input) "GBLCTRL_FIFO_CTRL_MODE \<equiv> 0x1000000 :: u32"
abbreviation (input) "INTCTRL_SHCPL_IRQ_EN \<equiv> 0x10000 :: u32"
abbreviation (input) "INTCTRL_SHCPL_IRQ_STAT \<equiv> 0x1 :: u32"
abbreviation (input) "SHCTRL_START_SHIFT \<equiv> 0x80 :: u32"
abbreviation (input) "SHCTRL_END_SHIFT \<equiv> 0x100 :: u32"

text \<open>The two tables of low level functions, \<^verbatim>\<open>ast25xx_llops\<close> and \<^verbatim>\<open>ast26xx_llops\<close>.\<close>

datatype generation = Ast25xx | Ast26xx

record aspeed_jtag =
  aj_reg_base :: "io list \<Rightarrow> nat \<Rightarrow> u32"
  aj_log :: "io list"
  aj_llops :: generation
  aj_mode :: u32
  aj_status :: jtag_tapstate
  aj_current_state :: jtag_tapstate
  aj_flag :: u32
  aj_pclk :: nat

definition aspeed_jtag_read :: "aspeed_jtag \<Rightarrow> nat \<Rightarrow> u32 \<times> aspeed_jtag" where
  "aspeed_jtag_read aj reg =
     (let v = aj_reg_base aj (aj_log aj) reg in (v, aj\<lparr>aj_log := aj_log aj @ [Rd reg v]\<rparr>))"

definition aspeed_jtag_write :: "u32 \<Rightarrow> nat \<Rightarrow> aspeed_jtag \<Rightarrow> aspeed_jtag" where
  "aspeed_jtag_write v reg aj = aj\<lparr>aj_log := aj_log aj @ [Wr reg v]\<rparr>"

text \<open>\<^verbatim>\<open>JTAG_XFER_HW_MODE\<close> is bit 0 of the mode.\<close>

definition hw_mode :: "aspeed_jtag \<Rightarrow> bool" where
  "hw_mode aj \<longleftrightarrow> aj_mode aj AND 1 \<noteq> 0"

section \<open>Clock rate, master enable and mode\<close>

definition aspeed_jtag_freq_set :: "aspeed_jtag \<Rightarrow> u32 \<Rightarrow> errno option \<times> aspeed_jtag" where
  "aspeed_jtag_freq_set aj freq =
     (if freq = 0 then (Some EINVAL, aj)
      else if aj_pclk aj = 0 then (Some EOPNOTSUPP, aj)
      else let divisor = (word_of_nat ((aj_pclk aj - 1) div unat freq) :: u16);
               (tck_val, aj) = aspeed_jtag_read aj ASPEED_JTAG_TCK
           in (None, aspeed_jtag_write ((tck_val AND NOT TCK_DIVISOR_MASK) OR ucast divisor)
                       ASPEED_JTAG_TCK aj))"

definition aspeed_jtag_freq_set_26xx :: "aspeed_jtag \<Rightarrow> u32 \<Rightarrow> errno option \<times> aspeed_jtag" where
  "aspeed_jtag_freq_set_26xx aj freq =
     (if freq = 0 then (Some EINVAL, aj)
      else if aj_pclk aj = 0 then (Some EOPNOTSUPP, aj)
      else let divisor = (word_of_nat ((aj_pclk aj - 1) div unat freq) :: u16);
               (tck_val, aj) = aspeed_jtag_read aj ASPEED_JTAG_GBLCTRL
           in (None, aspeed_jtag_write ((tck_val AND NOT CLK_DIVISOR_MASK) OR ucast divisor)
                       ASPEED_JTAG_GBLCTRL aj))"

definition aspeed_jtag_freq_get :: "aspeed_jtag \<Rightarrow> u32 \<times> aspeed_jtag" where
  "aspeed_jtag_freq_get aj =
     (let pclk = (word_of_nat (aj_pclk aj) :: u32);
          (tck, aj) = aspeed_jtag_read aj ASPEED_JTAG_TCK
      in (pclk div ((tck AND TCK_DIVISOR_MASK) + 1), aj))"

definition aspeed_jtag_freq_get_26xx :: "aspeed_jtag \<Rightarrow> u32 \<times> aspeed_jtag" where
  "aspeed_jtag_freq_get_26xx aj =
     (let pclk = (word_of_nat (aj_pclk aj) :: u32);
          (tck, aj) = aspeed_jtag_read aj ASPEED_JTAG_GBLCTRL
      in (pclk div ((tck AND CLK_DIVISOR_MASK) + 1), aj))"

definition aspeed_jtag_output_disable :: "aspeed_jtag \<Rightarrow> aspeed_jtag" where
  "aspeed_jtag_output_disable aj = aspeed_jtag_write 0 ASPEED_JTAG_CTRL aj"

definition aspeed_jtag_output_disable_26xx :: "aspeed_jtag \<Rightarrow> aspeed_jtag" where
  "aspeed_jtag_output_disable_26xx aj =
     aspeed_jtag_write 0 ASPEED_JTAG_GBLCTRL (aspeed_jtag_write 0 ASPEED_JTAG_CTRL aj)"

definition aspeed_jtag_master :: "aspeed_jtag \<Rightarrow> aspeed_jtag" where
  "aspeed_jtag_master aj =
     (let aj = aspeed_jtag_write (CTL_ENG_EN OR CTL_ENG_OUT_EN) ASPEED_JTAG_CTRL aj;
          aj = aspeed_jtag_write (SW_MODE_EN OR SW_MODE_TDIO) ASPEED_JTAG_SW aj
      in aspeed_jtag_write ISR_ALL ASPEED_JTAG_ISR aj)"

definition aspeed_jtag_master_26xx :: "aspeed_jtag \<Rightarrow> aspeed_jtag" where
  "aspeed_jtag_master_26xx aj =
     (let aj = (if hw_mode aj
          then let aj = aspeed_jtag_write 0 ASPEED_JTAG_CTRL aj;
                   aj = aspeed_jtag_write 0 ASPEED_JTAG_SW aj
               in aspeed_jtag_write (GBLCTRL_ENG_MODE_EN OR GBLCTRL_ENG_OUT_EN)
                    ASPEED_JTAG_GBLCTRL aj
          else let aj = aspeed_jtag_write 0 ASPEED_JTAG_GBLCTRL aj;
                   aj = aspeed_jtag_write (CTL_ENG_EN OR CTL_ENG_OUT_EN) ASPEED_JTAG_CTRL aj
               in aspeed_jtag_write (SW_MODE_EN OR SW_MODE_TDIO) ASPEED_JTAG_SW aj);
          aj = aspeed_jtag_write (INTCTRL_SHCPL_IRQ_EN OR INTCTRL_SHCPL_IRQ_STAT)
                 ASPEED_JTAG_INTCTRL aj
      in aspeed_jtag_write ISR_ALL ASPEED_JTAG_ISR aj)"

definition llops_master_enable :: "aspeed_jtag \<Rightarrow> aspeed_jtag" where
  "llops_master_enable aj =
     (case aj_llops aj of Ast25xx \<Rightarrow> aspeed_jtag_master aj
      | Ast26xx \<Rightarrow> aspeed_jtag_master_26xx aj)"

definition llops_output_disable :: "aspeed_jtag \<Rightarrow> aspeed_jtag" where
  "llops_output_disable aj =
     (case aj_llops aj of Ast25xx \<Rightarrow> aspeed_jtag_output_disable aj
      | Ast26xx \<Rightarrow> aspeed_jtag_output_disable_26xx aj)"

record jtag_mode =
  jm_feature :: u32
  jm_mode :: u32

definition aspeed_jtag_mode_set :: "aspeed_jtag \<Rightarrow> jtag_mode \<Rightarrow> errno option \<times> aspeed_jtag" where
  "aspeed_jtag_mode_set aj m =
     (if jm_feature m = 0 then (None, llops_master_enable (aj\<lparr>aj_mode := jm_mode m\<rparr>))
      else if jm_feature m = 1
      then (None, if jm_mode m = 0 then llops_output_disable aj
                  else if jm_mode m = 1 then llops_master_enable aj else aj)
      else (Some EINVAL, aj))"

section \<open>One TCK cycle in software mode\<close>

definition aspeed_jtag_sw_delay_26xx :: "aspeed_jtag \<Rightarrow> aspeed_jtag" where
  "aspeed_jtag_sw_delay_26xx aj =
     (let (read_reg, aj) = aspeed_jtag_read aj ASPEED_JTAG_PADCTRL1
      in aspeed_jtag_write read_reg ASPEED_JTAG_PADCTRL1 aj)"

definition sw_word :: "u32 \<Rightarrow> u8 \<Rightarrow> u8 \<Rightarrow> u32" where
  "sw_word base tms tdi =
     base OR (ucast tms * SW_MODE_TMS) OR (ucast tdi * SW_MODE_TDIO)"

definition aspeed_jtag_tck_cycle :: "aspeed_jtag \<Rightarrow> u8 \<Rightarrow> u8 \<Rightarrow> u8 \<times> aspeed_jtag" where
  "aspeed_jtag_tck_cycle aj tms tdi =
     (let aj = aspeed_jtag_write (sw_word SW_MODE_EN tms tdi) ASPEED_JTAG_SW aj;
          aj = (case aj_llops aj of
                  Ast26xx \<Rightarrow> aspeed_jtag_sw_delay_26xx aj
                | Ast25xx \<Rightarrow> snd (aspeed_jtag_read aj ASPEED_JTAG_SW));
          aj = aspeed_jtag_write (sw_word (SW_MODE_EN OR SW_MODE_TCK) tms tdi) ASPEED_JTAG_SW aj;
          aj = (case aj_llops aj of
                  Ast26xx \<Rightarrow> aspeed_jtag_sw_delay_26xx aj
                | Ast25xx \<Rightarrow> aj);
          (v, aj) = aspeed_jtag_read aj ASPEED_JTAG_SW
      in (if v AND SW_MODE_TDIO \<noteq> 0 then 1 else 0, aj))"

record tck_bitbang =
  bb_tms :: u8
  bb_tdi :: u8
  bb_tdo :: u8

primrec aspeed_jtag_bitbang :: "aspeed_jtag \<Rightarrow> tck_bitbang list \<Rightarrow> tck_bitbang list \<times> aspeed_jtag" where
  "aspeed_jtag_bitbang aj [] = ([], aj)"
| "aspeed_jtag_bitbang aj (b # bs) =
     (let (tdo, aj) = aspeed_jtag_tck_cycle aj (bb_tms b) (bb_tdi b);
          (bs, aj) = aspeed_jtag_bitbang aj bs
      in (b\<lparr>bb_tdo := tdo\<rparr> # bs, aj))"

section \<open>Polling for completion\<close>

text \<open>
  \<^verbatim>\<open>WAIT_ITERATIONS\<close> bounds both polling loops; the interrupts are compiled out
  (\<^verbatim>\<open>USE_INTERRUPTS\<close> is not defined) and the delays between two reads have no effect on
  the state.
\<close>

abbreviation (input) "WAIT_ITERATIONS \<equiv> 300 :: nat"

function poll :: "nat \<Rightarrow> u32 \<Rightarrow> nat \<Rightarrow> u32 \<Rightarrow> aspeed_jtag \<Rightarrow> errno option \<times> u32 \<times> aspeed_jtag" where
  "poll reg wait iterations status aj =
     (if status AND wait \<noteq> 0 then (None, status, aj)
      else let (status, aj) = aspeed_jtag_read aj reg
           in if Suc iterations > WAIT_ITERATIONS then (Some EFAULT, status, aj)
              else poll reg wait (Suc iterations) status aj)"
  by pat_completeness auto
termination by (relation "measure (\<lambda>(_, _, i, _, _). Suc WAIT_ITERATIONS - i)") auto

declare poll.simps [simp del]

definition aspeed_jtag_isr_wait :: "aspeed_jtag \<Rightarrow> u32 \<Rightarrow> errno option \<times> aspeed_jtag" where
  "aspeed_jtag_isr_wait aj b =
     (let (res, status, aj) = poll ASPEED_JTAG_ISR b 0 0 aj
      in (res, aspeed_jtag_write (b OR (status AND 0xf)) ASPEED_JTAG_ISR aj))"

definition aspeed_jtag_wait_shift_complete :: "aspeed_jtag \<Rightarrow> errno option \<times> aspeed_jtag" where
  "aspeed_jtag_wait_shift_complete aj =
     (let (res, status, aj) = poll ASPEED_JTAG_INTCTRL INTCTRL_SHCPL_IRQ_STAT 0 0 aj
      in (res, aspeed_jtag_write (INTCTRL_SHCPL_IRQ_STAT OR INTCTRL_SHCPL_IRQ_EN)
                 ASPEED_JTAG_INTCTRL aj))"

section \<open>Moving the TAP in software mode\<close>

text \<open>A result \<^const>\<open>None\<close> of these operations is an access outside of a C array.\<close>

definition clock_levels :: "bool list \<Rightarrow> aspeed_jtag \<Rightarrow> aspeed_jtag" where
  "clock_levels ts aj = fold (\<lambda>t aj. snd (aspeed_jtag_tck_cycle aj (of_bool t) 0)) ts aj"

definition aspeed_jtag_set_tap_state ::
  "aspeed_jtag \<Rightarrow> jtag_tapstate \<Rightarrow> jtag_tapstate \<Rightarrow> aspeed_jtag option" where
  "aspeed_jtag_set_tap_state aj from_state end_state =
     (let src = (if from_state = JTAG_STATE_CURRENT then aj_status aj else from_state)
      in case tms_lookup src end_state of
           None \<Rightarrow> None
         | Some c \<Rightarrow> Some ((clock_levels (tms_levels c) aj)\<lparr>aj_current_state := end_state\<rparr>))"

record jtag_tap_state =
  ts_reset :: u8
  ts_from :: jtag_tapstate
  ts_endstate :: jtag_tapstate

abbreviation (input) "ASPEED_JTAG_RESET_CNTR \<equiv> 10 :: nat"

definition aspeed_jtag_set_tap_state_sw ::
  "aspeed_jtag \<Rightarrow> jtag_tap_state \<Rightarrow> aspeed_jtag option" where
  "aspeed_jtag_set_tap_state_sw aj ts =
     (let aj = (if ts_reset ts \<noteq> 0
                then (clock_levels (replicate ASPEED_JTAG_RESET_CNTR True) aj)
                       \<lparr>aj_current_state := JTAG_STATE_TLRESET\<rparr>
                else aj)
      in aspeed_jtag_set_tap_state aj (ts_from ts) (ts_endstate ts))"

definition aspeed_jtag_status_set ::
  "aspeed_jtag \<Rightarrow> jtag_tap_state \<Rightarrow> aspeed_jtag option" where
  "aspeed_jtag_status_set aj ts =
     (if \<not> hw_mode aj then aspeed_jtag_set_tap_state_sw aj ts
      else if ts_reset ts \<noteq> 0
      then (let aj = aspeed_jtag_write 0 ASPEED_JTAG_SW aj;
                aj = aspeed_jtag_write (CTL_ENG_EN OR CTL_ENG_OUT_EN OR CTL_FORCE_TMS)
                       ASPEED_JTAG_CTRL aj;
                aj = aspeed_jtag_write (SW_MODE_EN OR SW_MODE_TDIO) ASPEED_JTAG_SW aj
            in Some (aj\<lparr>aj_current_state := JTAG_STATE_TLRESET\<rparr>))
      else Some aj)"

definition aspeed_jtag_set_tap_state_hw2 :: "aspeed_jtag \<Rightarrow> jtag_tap_state \<Rightarrow> aspeed_jtag" where
  "aspeed_jtag_set_tap_state_hw2 aj ts =
     (if ts_reset ts \<noteq> 0
      then (let aj = aspeed_jtag_write 0 ASPEED_JTAG_SW aj;
                (reg_val, aj) = aspeed_jtag_read aj ASPEED_JTAG_GBLCTRL;
                aj = aspeed_jtag_write (reg_val OR GBLCTRL_ENG_MODE_EN OR GBLCTRL_ENG_OUT_EN
                       OR GBLCTRL_RESET_FIFO OR GBLCTRL_FORCE_TMS) ASPEED_JTAG_GBLCTRL aj
            in aj\<lparr>aj_current_state := JTAG_STATE_TLRESET\<rparr>)
      else aj)"

definition aspeed_jtag_status_set_26xx ::
  "aspeed_jtag \<Rightarrow> jtag_tap_state \<Rightarrow> aspeed_jtag option" where
  "aspeed_jtag_status_set_26xx aj ts =
     (if \<not> hw_mode aj then aspeed_jtag_set_tap_state_sw aj ts
      else Some (aspeed_jtag_set_tap_state_hw2 aj ts))"

section \<open>A scan in software mode\<close>

datatype jtag_xfer_type = JTAG_SIR_XFER | JTAG_SDR_XFER

record jtag_xfer =
  x_type :: jtag_xfer_type
  x_direction :: u8
  x_from :: jtag_tapstate
  x_endstate :: jtag_tapstate
  x_padding :: u32
  x_length :: nat

abbreviation (input) "JTAG_READ_XFER \<equiv> 1 :: u8"
abbreviation (input) "JTAG_WRITE_XFER \<equiv> 2 :: u8"

abbreviation (input) "writes x \<equiv> x_direction x AND JTAG_WRITE_XFER \<noteq> 0"
abbreviation (input) "reads x \<equiv> x_direction x AND JTAG_READ_XFER \<noteq> 0"

definition shift_state :: "jtag_xfer_type \<Rightarrow> jtag_tapstate" where
  "shift_state ty = (case ty of JTAG_SIR_XFER \<Rightarrow> JTAG_STATE_SHIFTIR
     | JTAG_SDR_XFER \<Rightarrow> JTAG_STATE_SHIFTDR)"

definition exit1_state :: "jtag_xfer_type \<Rightarrow> jtag_tapstate" where
  "exit1_state ty = (case ty of JTAG_SIR_XFER \<Rightarrow> JTAG_STATE_EXIT1IR
     | JTAG_SDR_XFER \<Rightarrow> JTAG_STATE_EXIT1DR)"

definition pause_state :: "jtag_xfer_type \<Rightarrow> jtag_tapstate" where
  "pause_state ty = (case ty of JTAG_SIR_XFER \<Rightarrow> JTAG_STATE_PAUSEIR
     | JTAG_SDR_XFER \<Rightarrow> JTAG_STATE_PAUSEDR)"

text \<open>\<^verbatim>\<open>ASPEED_JTAG_GET_TDI\<close>; the chunk is one 32 bit word of the data.\<close>

abbreviation (input) "DATA_CHUNK_SIZE \<equiv> 32 :: nat"

definition get_tdi :: "jtag_xfer \<Rightarrow> u32 \<Rightarrow> u32" where
  "get_tdi x w = (if writes x then w else - 1)"

definition or_tdo :: "u32 list \<Rightarrow> nat \<Rightarrow> u8 \<Rightarrow> nat \<Rightarrow> u32 list" where
  "or_tdo data index tdo shift_bits =
     data[index := (data ! index) OR push_bit (shift_bits mod DATA_CHUNK_SIZE) (ucast tdo)]"

function xfer_sw_loop :: "jtag_xfer \<Rightarrow> nat \<Rightarrow> nat \<Rightarrow> nat \<Rightarrow> u32 \<Rightarrow> u32 list \<Rightarrow> aspeed_jtag
    \<Rightarrow> (nat \<times> nat \<times> u32 \<times> u32 list \<times> aspeed_jtag) option" where
  "xfer_sw_loop x remain_xfer shift_bits index tdi data aj =
     (if remain_xfer \<le> 1 then Some (shift_bits, index, tdi, data, aj)
      else let (tdo, aj) = aspeed_jtag_tck_cycle aj 0 (ucast (tdi AND 1));
               data = or_tdo data index tdo shift_bits;
               tdi = drop_bit 1 tdi;
               shift_bits = Suc shift_bits;
               remain_xfer = remain_xfer - 1
           in if shift_bits mod DATA_CHUNK_SIZE = 0
              then (if Suc index < length data
                    then xfer_sw_loop x remain_xfer shift_bits (Suc index)
                           (get_tdi x (data ! Suc index)) (data[Suc index := 0]) aj
                    else None)
              else xfer_sw_loop x remain_xfer shift_bits index tdi data aj)"
  by pat_completeness auto
termination by (relation "measure (\<lambda>(_, r, _). r)") auto

declare xfer_sw_loop.simps [simp del]

definition aspeed_jtag_xfer_sw ::
  "aspeed_jtag \<Rightarrow> jtag_xfer \<Rightarrow> u32 list \<Rightarrow> (u32 list \<times> aspeed_jtag) option" where
  "aspeed_jtag_xfer_sw aj x data =
     (case aspeed_jtag_set_tap_state aj (x_from x) (shift_state (x_type x)) of
        None \<Rightarrow> None
      | Some aj \<Rightarrow>
          if data = [] then None
          else (case xfer_sw_loop x (x_length x) 0 0 (get_tdi x (data ! 0)) (data[0 := 0]) aj of
             None \<Rightarrow> None
           | Some (shift_bits, index, tdi, data, aj) \<Rightarrow>
               if x_endstate x = shift_state (x_type x)
               then (let (tdo, aj) = aspeed_jtag_tck_cycle aj 0 (ucast (tdi AND 1))
                     in Some (or_tdo data index tdo shift_bits, aj))
               else (let (tdo, aj) = aspeed_jtag_tck_cycle aj 1 (ucast (tdi AND 1));
                         data = or_tdo data index tdo shift_bits;
                         aj = aj\<lparr>aj_status := exit1_state (x_type x)\<rparr>
                     in case aspeed_jtag_set_tap_state aj (aj_status aj) (x_endstate x) of
                          None \<Rightarrow> None
                        | Some aj \<Rightarrow> Some (data, aj))))"

section \<open>The pins, read off the log\<close>

text \<open>
  \<^verbatim>\<open>wire\<close> collects the levels of TMS and TDI at each rising edge of TCK, and the TDO
  samples taken while TCK is high.
\<close>

record wire =
  w_tck :: bool
  w_clocks :: "(bool \<times> bool) list"
  w_tdo :: "bool list"

fun wire_step :: "wire \<Rightarrow> io \<Rightarrow> wire" where
  "wire_step w (Wr reg v) =
     (if reg = ASPEED_JTAG_SW
      then (if bit v 18 \<and> \<not> w_tck w then w\<lparr>w_tck := True, w_clocks := w_clocks w @ [(bit v 17, bit v 16)]\<rparr>
            else w\<lparr>w_tck := bit v 18\<rparr>)
      else w)"
| "wire_step w (Rd reg v) =
     (if reg = ASPEED_JTAG_SW \<and> w_tck w then w\<lparr>w_tdo := w_tdo w @ [bit v 16]\<rparr> else w)"

definition wires :: "aspeed_jtag \<Rightarrow> wire" where
  "wires aj = foldl wire_step \<lparr>w_tck = False, w_clocks = [], w_tdo = []\<rparr> (aj_log aj)"

abbreviation clocks :: "aspeed_jtag \<Rightarrow> (bool \<times> bool) list" where
  "clocks aj \<equiv> w_clocks (wires aj)"

abbreviation tdos :: "aspeed_jtag \<Rightarrow> bool list" where
  "tdos aj \<equiv> w_tdo (wires aj)"

text \<open>The state a device on the chain is in, when it started from \<^term>\<open>s\<close>.\<close>

definition tap_of :: "jtag_tapstate \<Rightarrow> aspeed_jtag \<Rightarrow> jtag_tapstate" where
  "tap_of s aj = tap_run s (map fst (clocks aj))"

lemma wires_write [simp]: "wires (aspeed_jtag_write v reg aj) = wire_step (wires aj) (Wr reg v)"
  by (simp add: wires_def aspeed_jtag_write_def)

lemma wires_read [simp]:
  "wires (snd (aspeed_jtag_read aj reg)) = wire_step (wires aj) (Rd reg (fst (aspeed_jtag_read aj reg)))"
  by (simp add: wires_def aspeed_jtag_read_def Let_def)

lemma wires_fields [simp]:
  "wires (aj\<lparr>aj_status := s\<rparr>) = wires aj" "wires (aj\<lparr>aj_current_state := s\<rparr>) = wires aj"
  "wires (aj\<lparr>aj_mode := m\<rparr>) = wires aj" "wires (aj\<lparr>aj_flag := m\<rparr>) = wires aj"
  by (simp_all add: wires_def)

lemma sw_word_bits:
  "\<not> bit (sw_word SW_MODE_EN (of_bool t) (of_bool d)) 18"
  "bit (sw_word (SW_MODE_EN OR SW_MODE_TCK) (of_bool t) (of_bool d)) 18"
  "bit (sw_word (SW_MODE_EN OR SW_MODE_TCK) (of_bool t) (of_bool d)) 17 = t"
  "bit (sw_word (SW_MODE_EN OR SW_MODE_TCK) (of_bool t) (of_bool d)) 16 = d"
  by (cases t; cases d; simp add: sw_word_def)+

lemma and_bit16: "(v :: u32) AND SW_MODE_TDIO \<noteq> 0 \<longleftrightarrow> bit v 16"
  using and_exp_eq_0_iff_not_bit [of v 16] by simp

text \<open>The accesses of a cycle leave everything of the driver but the log alone.\<close>

definition only_log :: "aspeed_jtag \<Rightarrow> aspeed_jtag \<Rightarrow> bool" where
  "only_log aj aj' \<longleftrightarrow> aj' = aj\<lparr>aj_log := aj_log aj'\<rparr>"

lemma only_log_refl [simp]: "only_log aj aj"
  by (simp add: only_log_def)

lemma only_log_trans: "only_log a b \<Longrightarrow> only_log b c \<Longrightarrow> only_log a c"
  unfolding only_log_def by (metis aspeed_jtag.surjective aspeed_jtag.update_convs(2))

lemma only_log_fields:
  assumes "only_log aj aj'"
  shows "aj_llops aj' = aj_llops aj" "aj_mode aj' = aj_mode aj" "aj_status aj' = aj_status aj"
    "aj_current_state aj' = aj_current_state aj" "aj_pclk aj' = aj_pclk aj"
    "aj_reg_base aj' = aj_reg_base aj" "aj_flag aj' = aj_flag aj"
  using assms unfolding only_log_def
  by (metis aspeed_jtag.select_convs aspeed_jtag.surjective aspeed_jtag.update_convs(2))+

lemma only_log_io [simp]:
  "only_log aj (aspeed_jtag_write v reg aj)" "only_log aj (snd (aspeed_jtag_read aj reg))"
  by (simp_all add: only_log_def aspeed_jtag_write_def aspeed_jtag_read_def Let_def)

text \<open>
  The contract of one TCK cycle, which every software-mode operation is a client of: a
  cycle with levels \<open>t\<close> and \<open>d\<close> adds exactly that clock and the TDO sample it returns.
\<close>

primrec cycles :: "('s \<Rightarrow> bool \<Rightarrow> bool \<Rightarrow> bool \<times> 's) \<Rightarrow> 's \<Rightarrow> (bool \<times> bool) list \<Rightarrow> bool list \<times> 's" where
  "cycles cyc s [] = ([], s)"
| "cycles cyc s (x # xs) =
     (let (b, s) = cyc s (fst x) (snd x); (bs, s) = cycles cyc s xs in (b # bs, s))"

locale clock_port =
  fixes cyc :: "'s \<Rightarrow> bool \<Rightarrow> bool \<Rightarrow> bool \<times> 's"
    and clks :: "'s \<Rightarrow> (bool \<times> bool) list"
    and smps :: "'s \<Rightarrow> bool list"
    and frame :: "'s \<Rightarrow> 's \<Rightarrow> bool"
  assumes clks_cyc: "clks (snd (cyc s t d)) = clks s @ [(t, d)]"
    and smps_cyc: "smps (snd (cyc s t d)) = smps s @ [fst (cyc s t d)]"
    and frame_cyc: "frame s (snd (cyc s t d))"
    and frame_refl: "frame s s"
    and frame_trans: "frame s s' \<Longrightarrow> frame s' s'' \<Longrightarrow> frame s s''"
begin

lemma clks_cycles: "clks (snd (cycles cyc s xs)) = clks s @ xs"
  by (induction xs arbitrary: s) (simp_all add: clks_cyc split_beta)

lemma smps_cycles: "smps (snd (cycles cyc s xs)) = smps s @ fst (cycles cyc s xs)"
  by (induction xs arbitrary: s) (simp_all add: smps_cyc split_beta)

lemma frame_cycles: "frame s (snd (cycles cyc s xs))"
  by (induction xs arbitrary: s)
    (auto simp: frame_refl split_beta intro: frame_trans frame_cyc)

lemma length_cycles: "length (fst (cycles cyc s xs)) = length xs"
  by (induction xs arbitrary: s) (simp_all add: split_beta)

end

definition port_cycle :: "aspeed_jtag \<Rightarrow> bool \<Rightarrow> bool \<Rightarrow> bool \<times> aspeed_jtag" where
  "port_cycle aj t d =
     (let (b, aj) = aspeed_jtag_tck_cycle aj (of_bool t) (of_bool d) in (b \<noteq> 0, aj))"

lemma tck_cycle_wires:
  "wires (snd (aspeed_jtag_tck_cycle aj (of_bool t) (of_bool d))) =
     (wires aj)\<lparr>w_tck := True, w_clocks := clocks aj @ [(t, d)],
       w_tdo := tdos aj @ [fst (aspeed_jtag_tck_cycle aj (of_bool t) (of_bool d)) \<noteq> 0]\<rparr>"
  by (cases "aj_llops aj")
    (simp_all add: aspeed_jtag_tck_cycle_def aspeed_jtag_sw_delay_26xx_def Let_def split_beta
      sw_word_bits sw_word_bits [simplified] and_bit16
      only_log_fields [OF only_log_io(1)] only_log_fields [OF only_log_io(2)]
      split del: split_of_bool split_of_bool_asm)

lemma tck_cycle_only_log: "only_log aj (snd (aspeed_jtag_tck_cycle aj t d))"
  by (cases "aj_llops aj")
    (simp_all add: aspeed_jtag_tck_cycle_def aspeed_jtag_sw_delay_26xx_def Let_def split_beta
      only_log_def aspeed_jtag_write_def aspeed_jtag_read_def)

lemma tck_cycle_value: "fst (aspeed_jtag_tck_cycle aj t d) = of_bool (fst (aspeed_jtag_tck_cycle aj t d) \<noteq> 0)"
  by (simp add: aspeed_jtag_tck_cycle_def Let_def split_beta)

interpretation port: clock_port port_cycle clocks tdos only_log
  by unfold_locales
    (auto simp: port_cycle_def split_beta Let_def tck_cycle_wires tck_cycle_only_log
      intro: only_log_trans)

lemma clock_levels_cycles:
  "clock_levels ts aj = snd (cycles port_cycle aj (map (\<lambda>t. (t, False)) ts))"
  unfolding clock_levels_def
  by (induction ts arbitrary: aj) (simp_all add: port_cycle_def split_beta Let_def)

lemma clock_levels_clocks [simp]:
  "clocks (clock_levels ts aj) = clocks aj @ map (\<lambda>t. (t, False)) ts"
  by (simp add: clock_levels_cycles port.clks_cycles)

lemma clock_levels_only_log: "only_log aj (clock_levels ts aj)"
  by (simp add: clock_levels_cycles port.frame_cycles)

lemma tap_of_clock_levels [simp]: "tap_of s (clock_levels ts aj) = tap_run (tap_of s aj) ts"
  by (simp add: tap_of_def comp_def)

section \<open>What the software-mode operations do on the pins\<close>

definition real_from :: "aspeed_jtag \<Rightarrow> jtag_tapstate \<Rightarrow> jtag_tapstate" where
  "real_from aj s = (if s = JTAG_STATE_CURRENT then aj_status aj else s)"

lemma set_tap_state_spec:
  assumes "real_from aj src \<noteq> JTAG_STATE_CURRENT" "dst \<noteq> JTAG_STATE_CURRENT"
  obtains c where "tms_lookup (real_from aj src) dst = Some c"
    "aspeed_jtag_set_tap_state aj src dst =
       Some ((clock_levels (tms_levels c) aj)\<lparr>aj_current_state := dst\<rparr>)"
    "tap_run (real_from aj src) (tms_levels c) = dst"
proof -
  obtain c where c: "tms_lookup (real_from aj src) dst = Some c"
    and run: "tap_run (real_from aj src) (tms_levels c) = dst"
    using assms tms_lookup_Some by blast
  have "aspeed_jtag_set_tap_state aj src dst =
      Some ((clock_levels (tms_levels c) aj)\<lparr>aj_current_state := dst\<rparr>)"
    using c by (simp add: aspeed_jtag_set_tap_state_def real_from_def Let_def)
  with c show thesis using run by (rule that)
qed

lemma tap_of_fields [simp]:
  "tap_of s (aj\<lparr>aj_status := st\<rparr>) = tap_of s aj"
  "tap_of s (aj\<lparr>aj_current_state := st\<rparr>) = tap_of s aj"
  by (simp_all add: tap_of_def)

text \<open>
  \<^verbatim>\<open>aspeed_jtag_set_tap_state\<close> moves the port: when the state it starts from is the
  one the device is in (for \<^verbatim>\<open>JTAG_STATE_CURRENT\<close>: when the saved status is), the TMS levels
  it clocks out leave the device in the end state, which is also what the driver records,
  and TDI stays low throughout.
\<close>

theorem set_tap_state_reaches:
  assumes "real_from aj src \<noteq> JTAG_STATE_CURRENT" "dst \<noteq> JTAG_STATE_CURRENT"
    and "tap_of s aj = real_from aj src"
  shows "\<exists>aj' ts. aspeed_jtag_set_tap_state aj src dst = Some aj' \<and> tap_of s aj' = dst \<and>
    aj_current_state aj' = dst \<and> aj_status aj' = aj_status aj \<and>
    clocks aj' = clocks aj @ map (\<lambda>t. (t, False)) ts"
proof -
  obtain c where "aspeed_jtag_set_tap_state aj src dst =
      Some ((clock_levels (tms_levels c) aj)\<lparr>aj_current_state := dst\<rparr>)"
    and "tap_run (real_from aj src) (tms_levels c) = dst"
    using set_tap_state_spec [OF assms(1,2)] by blast
  with assms(3) show ?thesis
    by (auto simp: only_log_fields [OF clock_levels_only_log])
qed

definition reset_device :: aspeed_jtag where
  "reset_device = \<lparr>aj_reg_base = (\<lambda>_ _. 0), aj_log = [], aj_llops = Ast26xx, aj_mode = 0,
     aj_status = JTAG_STATE_TLRESET, aj_current_state = JTAG_STATE_TLRESET, aj_flag = 0,
     aj_pclk = 24740000\<rparr>"

lemma reset_device_simps [simp]:
  "clocks reset_device = []" "tdos reset_device = []" "tap_of s reset_device = s"
  "aj_status reset_device = JTAG_STATE_TLRESET" "aj_mode reset_device = 0"
  by (simp_all add: reset_device_def wires_def tap_of_def)

lemma set_tap_state_reaches_witness:
  "\<exists>aj' ts. aspeed_jtag_set_tap_state reset_device JTAG_STATE_CURRENT JTAG_STATE_SHIFTIR = Some aj' \<and>
    tap_of JTAG_STATE_TLRESET aj' = JTAG_STATE_SHIFTIR \<and>
    aj_current_state aj' = JTAG_STATE_SHIFTIR \<and> aj_status aj' = aj_status reset_device \<and>
    clocks aj' = clocks reset_device @ map (\<lambda>t. (t, False)) ts"
  by (rule set_tap_state_reaches) (simp_all add: real_from_def)

text \<open>
  What a state request does in software mode: it clocks TMS with TDI low, and ends in the
  requested state when it starts from the state the device is in, or is a forced reset from or
  to Test-Logic-Reset.
\<close>

lemma status_set_run:
  assumes "\<not> hw_mode aj" "s \<noteq> JTAG_STATE_CURRENT" "ts_endstate ts \<noteq> JTAG_STATE_CURRENT"
    and "real_from aj (ts_from ts) \<noteq> JTAG_STATE_CURRENT"
    and "ts_reset ts = 0 \<and> tap_of s aj = real_from aj (ts_from ts) \<or>
      ts_reset ts \<noteq> 0 \<and> (ts_from ts = JTAG_STATE_TLRESET \<or> ts_endstate ts = JTAG_STATE_TLRESET)"
  shows "\<exists>aj' tms. aspeed_jtag_status_set aj ts = Some aj' \<and>
    aspeed_jtag_status_set_26xx aj ts = Some aj' \<and>
    tap_of s aj' = ts_endstate ts \<and> aj_current_state aj' = ts_endstate ts \<and>
    clocks aj' = clocks aj @ map (\<lambda>t. (t, False)) tms \<and>
    aj_mode aj' = aj_mode aj \<and> aj_llops aj' = aj_llops aj"
proof -
  define r where "r = (if ts_reset ts \<noteq> 0 then replicate 10 True else [])"
  define aj1 where "aj1 = (if ts_reset ts \<noteq> 0
    then (clock_levels (replicate 10 True) aj)\<lparr>aj_current_state := JTAG_STATE_TLRESET\<rparr> else aj)"
  have keep: "aj_mode aj1 = aj_mode aj" "aj_llops aj1 = aj_llops aj"
      "real_from aj1 (ts_from ts) = real_from aj (ts_from ts)"
    by (simp_all add: aj1_def real_from_def only_log_fields [OF clock_levels_only_log])
  have clk: "clocks aj1 = clocks aj @ map (\<lambda>t. (t, False)) r"
    by (simp add: aj1_def r_def)
  have "tap_of s aj \<noteq> JTAG_STATE_CURRENT"
    using assms(2) by (simp add: tap_of_def)
  then have tap1: "tap_of s aj1 = (if ts_reset ts \<noteq> 0 then JTAG_STATE_TLRESET else tap_of s aj)"
    by (simp add: aj1_def tap_reset_5)
  obtain c where c: "tms_lookup (real_from aj1 (ts_from ts)) (ts_endstate ts) = Some c"
    and us: "aspeed_jtag_set_tap_state aj1 (ts_from ts) (ts_endstate ts) =
      Some ((clock_levels (tms_levels c) aj1)\<lparr>aj_current_state := ts_endstate ts\<rparr>)"
    and run: "tap_run (real_from aj1 (ts_from ts)) (tms_levels c) = ts_endstate ts"
    using assms(3,4) keep(3) by (metis set_tap_state_spec)
  define aj2 where "aj2 = (clock_levels (tms_levels c) aj1)\<lparr>aj_current_state := ts_endstate ts\<rparr>"
  have "tap_run (tap_of s aj1) (tms_levels c) = ts_endstate ts"
    using assms(5) run c tms_levels_to_reset keep(3) by (auto simp: tap1 real_from_def)
  then have "tap_of s aj2 = ts_endstate ts" by (simp add: aj2_def)
  moreover have "clocks aj2 = clocks aj @ map (\<lambda>t. (t, False)) (r @ tms_levels c)"
    by (simp add: aj2_def clk)
  moreover have "aj_mode aj2 = aj_mode aj" "aj_llops aj2 = aj_llops aj"
    by (simp_all add: aj2_def keep only_log_fields [OF clock_levels_only_log])
  moreover have "aj_current_state aj2 = ts_endstate ts" by (simp add: aj2_def)
  moreover have "aspeed_jtag_set_tap_state_sw aj ts = Some aj2"
    using us unfolding aspeed_jtag_set_tap_state_sw_def Let_def aj1_def aj2_def by simp
  then have "aspeed_jtag_status_set aj ts = Some aj2" "aspeed_jtag_status_set_26xx aj ts = Some aj2"
    using assms(1) by (simp_all add: aspeed_jtag_status_set_def aspeed_jtag_status_set_26xx_def)
  ultimately show ?thesis by blast
qed

text \<open>
  A forced reset in software mode works from any state, known or not: after the ten
  cycles with TMS high the device is in Test-Logic-Reset, and the requested end state is
  reached when the request names Test-Logic-Reset as its start or as its end.
\<close>

theorem forced_reset_reaches:
  assumes "\<not> hw_mode aj" "ts_reset ts \<noteq> 0" "s \<noteq> JTAG_STATE_CURRENT"
    and "ts_endstate ts \<noteq> JTAG_STATE_CURRENT" "real_from aj (ts_from ts) \<noteq> JTAG_STATE_CURRENT"
    and "ts_from ts = JTAG_STATE_TLRESET \<or> ts_endstate ts = JTAG_STATE_TLRESET"
  shows "\<exists>aj'. aspeed_jtag_status_set aj ts = Some aj' \<and>
    aspeed_jtag_status_set_26xx aj ts = Some aj' \<and>
    tap_of s aj' = ts_endstate ts \<and> aj_current_state aj' = ts_endstate ts"
  using status_set_run [OF assms(1,3,4,5)] assms(2,6) by blast

lemma forced_reset_reaches_witness:
  "\<exists>aj'. aspeed_jtag_status_set reset_device \<lparr>ts_reset = 1, ts_from = JTAG_STATE_TLRESET,
      ts_endstate = JTAG_STATE_PAUSEDR\<rparr> = Some aj' \<and>
    aspeed_jtag_status_set_26xx reset_device \<lparr>ts_reset = 1, ts_from = JTAG_STATE_TLRESET,
      ts_endstate = JTAG_STATE_PAUSEDR\<rparr> = Some aj' \<and>
    tap_of JTAG_STATE_EXIT2IR aj' = ts_endstate \<lparr>ts_reset = 1, ts_from = JTAG_STATE_TLRESET,
      ts_endstate = JTAG_STATE_PAUSEDR\<rparr> \<and>
    aj_current_state aj' = ts_endstate \<lparr>ts_reset = 1, ts_from = JTAG_STATE_TLRESET,
      ts_endstate = JTAG_STATE_PAUSEDR\<rparr>"
  by (rule forced_reset_reaches) (simp_all add: hw_mode_def real_from_def)

section \<open>A software-mode scan is a scan\<close>

definition dbit :: "u32 list \<Rightarrow> nat \<Rightarrow> bool" where
  "dbit data i = bit (data ! (i div 32)) (i mod 32)"

definition scan_bit :: "jtag_xfer \<Rightarrow> u32 list \<Rightarrow> nat \<Rightarrow> bool" where
  "scan_bit x data i = (writes x \<longrightarrow> dbit data i)"

text \<open>
  What holds between two bits of the loop, with \<open>data0\<close> the buffer it was given: the rest
  of the current word is in \<open>tdi\<close>, its bits in the buffer are cleared up to the samples
  already stored, and the words not reached yet are untouched.
\<close>

definition sw_inv :: "jtag_xfer \<Rightarrow> u32 list \<Rightarrow> nat \<Rightarrow> nat \<Rightarrow> u32 \<Rightarrow> u32 list \<Rightarrow> bool" where
  "sw_inv x data0 sb index tdi data \<longleftrightarrow>
     index = sb div 32 \<and> index < length data \<and> length data = length data0 \<and>
     (\<forall>k. sb mod 32 + k < 32 \<longrightarrow> bit tdi k = scan_bit x data0 (sb + k)) \<and>
     (\<forall>i. sb \<le> i \<and> i div 32 = index \<longrightarrow> \<not> dbit data i) \<and>
     (\<forall>i. index < i div 32 \<longrightarrow> dbit data i = dbit data0 i)"

lemma dbit_or_tdo:
  assumes "sb div 32 < length data"
  shows "dbit (or_tdo data (sb div 32) (of_bool b) sb) i = (dbit data i \<or> b \<and> i = sb)"
proof -
  have same: "i = sb \<longleftrightarrow> i div 32 = sb div 32 \<and> i mod 32 = sb mod 32"
    by (metis mult_div_mod_eq)
  have "bit (push_bit (sb mod 32) (ucast (of_bool b :: u8) :: u32)) (i mod 32)
      \<longleftrightarrow> b \<and> i mod 32 = sb mod 32"
    by (auto simp: bit_simps)
  with assms same show ?thesis
    by (auto simp: dbit_def or_tdo_def nth_list_update bit_or_iff)
qed

lemma tdi_and_1: "(ucast ((tdi :: u32) AND 1) :: u8) = of_bool (bit tdi 0)"
  by (simp add: and_one_eq mod2_eq_if bit_0 del: One_nat_def)

lemma dbit_zero_word:
  assumes "j < length data"
  shows "dbit (data[j := 0]) i = (dbit data i \<and> i div 32 \<noteq> j)"
  using assms by (auto simp: dbit_def nth_list_update)

lemma sw_inv_first:
  assumes "data \<noteq> []"
  shows "sw_inv x data 0 0 (get_tdi x (data ! 0)) (data[0 := 0])"
  using assms
  by (auto simp: sw_inv_def dbit_zero_word scan_bit_def get_tdi_def dbit_def)

lemma length_or_tdo [simp]: "length (or_tdo data index b sb) = length data"
  by (simp add: or_tdo_def)

lemma sw_inv_next_bit:
  assumes inv: "sw_inv x data0 sb index tdi data" and "Suc sb mod 32 \<noteq> 0"
  shows "sw_inv x data0 (Suc sb) index (drop_bit 1 tdi) (or_tdo data index (of_bool b) sb)"
proof -
  have idx: "index = sb div 32" "index < length data"
    using inv by (simp_all add: sw_inv_def)
  have "Suc sb div 32 = sb div 32" "Suc sb mod 32 = Suc (sb mod 32)"
    using assms(2) by (simp_all add: div_Suc mod_Suc split: if_splits)
  moreover have "bit (drop_bit 1 tdi) k = scan_bit x data0 (Suc sb + k)"
    if "Suc (sb mod 32) + k < 32" for k
  proof -
    have "bit tdi (Suc k) = scan_bit x data0 (sb + Suc k)"
      using inv that by (simp add: sw_inv_def)
    then show ?thesis by (simp add: bit_drop_bit_eq)
  qed
  moreover have "dbit (or_tdo data index (of_bool b) sb) i = (dbit data i \<or> b \<and> i = sb)" for i
    using dbit_or_tdo [of sb data b i] idx by simp
  ultimately show ?thesis
    using inv by (auto simp: sw_inv_def)
qed

lemma sw_inv_next_word:
  assumes inv: "sw_inv x data0 sb index tdi data" and "Suc sb mod 32 = 0" "Suc sb < 32 * length data0"
  shows "Suc index < length data"
    and "sw_inv x data0 (Suc sb) (Suc index)
      (get_tdi x (or_tdo data index (of_bool b) sb ! Suc index))
      ((or_tdo data index (of_bool b) sb)[Suc index := 0])"
proof -
  let ?data = "or_tdo data index (of_bool b) sb"
  have idx: "index = sb div 32" "index < length data" "length data = length data0"
    using inv by (simp_all add: sw_inv_def)
  have d: "Suc sb div 32 = Suc index"
    using assms(2) idx by (simp add: div_Suc)
  show len: "Suc index < length data"
    using d idx assms(3) by (metis div_less_iff_less_mult mult.commute zero_less_numeral)
  have "dbit ?data i = dbit data0 i" if "Suc index \<le> i div 32" for i
    using inv that idx dbit_or_tdo [of sb data b i] by (auto simp: sw_inv_def)
  moreover from this have "bit (get_tdi x (?data ! Suc index)) k = scan_bit x data0 (Suc sb + k)"
    if "k < 32" for k
  proof -
    have "Suc sb + k = 32 * Suc index + k"
      using d assms(2) by (metis add_cancel_right_right mult_div_mod_eq)
    then have *: "(Suc sb + k) div 32 = Suc index" "(Suc sb + k) mod 32 = k"
      using that by (simp_all only: mult_add_div mult_add_mod)
    have "dbit ?data (Suc sb + k) = dbit data0 (Suc sb + k)"
      using * calculation by simp
    then show ?thesis
      using * that by (auto simp: scan_bit_def get_tdi_def dbit_def)
  qed
  ultimately show "sw_inv x data0 (Suc sb) (Suc index) (get_tdi x (?data ! Suc index))
      (?data[Suc index := 0])"
    using len idx d assms(2) by (auto simp: sw_inv_def dbit_zero_word)
qed

lemma xfer_sw_loop_spec:
  assumes "sw_inv x data0 sb index tdi data" "1 \<le> r" "sb + r \<le> 32 * length data0"
  shows "\<exists>bs tdi' data' aj'.
    xfer_sw_loop x r sb index tdi data aj = Some (sb + r - 1, (sb + r - 1) div 32, tdi', data', aj') \<and>
    cycles port_cycle aj (map (\<lambda>i. (False, scan_bit x data0 i)) [sb ..< sb + r - 1]) = (bs, aj') \<and>
    sw_inv x data0 (sb + r - 1) ((sb + r - 1) div 32) tdi' data' \<and>
    (\<forall>i < sb + r - 1. dbit data' i = (if i < sb then dbit data i else bs ! (i - sb)))"
  using assms
proof (induction r arbitrary: sb index tdi data aj)
  case 0
  then show ?case by simp
next
  case (Suc r)
  show ?case
  proof (cases "r = 0")
    case True
    then show ?thesis
      using Suc.prems by (auto simp: xfer_sw_loop.simps sw_inv_def)
  next
    case False
    have inv: "sw_inv x data0 sb index tdi data" and idx: "index = sb div 32" "index < length data"
      using Suc.prems(1) by (simp_all add: sw_inv_def)
    obtain b aj1 where cyc: "port_cycle aj False (scan_bit x data0 sb) = (b, aj1)"
      by fastforce
    have "sb mod 32 + 0 < 32 \<longrightarrow> bit tdi 0 = scan_bit x data0 (sb + 0)"
      using inv unfolding sw_inv_def by blast
    then have "bit tdi 0 = scan_bit x data0 sb"
      by simp
    then have tck: "aspeed_jtag_tck_cycle aj 0 (ucast (tdi AND 1)) = (of_bool b, aj1)"
      using cyc tck_cycle_value [of aj 0 "of_bool (scan_bit x data0 sb)"]
      by (simp add: tdi_and_1 port_cycle_def split_beta Let_def prod_eq_iff)
    define data1 where "data1 = or_tdo data index (of_bool b) sb"
    have step: "\<exists>index' tdi' data'.
        xfer_sw_loop x (Suc r) sb index tdi data aj = xfer_sw_loop x r (Suc sb) index' tdi' data' aj1 \<and>
        sw_inv x data0 (Suc sb) index' tdi' data' \<and>
        (\<forall>i \<le> sb. dbit data' i = (if i < sb then dbit data i else b))"
    proof (cases "Suc sb mod 32 = 0")
      case True
      have "Suc sb < 32 * length data0"
        using Suc.prems(3) False by simp
      note nx = sw_inv_next_word(1) [OF inv True this] sw_inv_next_word(2) [OF inv True this, of b]
      have "dbit (data1[Suc index := 0]) i = (if i < sb then dbit data i else b)" if "i \<le> sb" for i
      proof -
        have "i div 32 \<noteq> Suc index"
          using that idx(1) div_le_mono [of i sb 32] by simp
        moreover have "\<not> dbit data sb"
          using inv by (simp add: sw_inv_def)
        ultimately show ?thesis
          using that nx(1) idx dbit_or_tdo [of sb data b i]
          by (auto simp: data1_def dbit_zero_word)
      qed
      moreover have "xfer_sw_loop x (Suc r) sb index tdi data aj = xfer_sw_loop x r (Suc sb)
          (Suc index) (get_tdi x (data1 ! Suc index)) (data1[Suc index := 0]) aj1"
        using nx(1) False True tck
        by (subst xfer_sw_loop.simps) (simp add: Let_def data1_def)
      ultimately show ?thesis
        using nx(2) unfolding data1_def by blast
    next
      case nz: False
      note nx = sw_inv_next_bit [OF inv nz, of b]
      have "\<not> dbit data sb"
        using inv by (simp add: sw_inv_def)
      then have "dbit data1 i = (if i < sb then dbit data i else b)" if "i \<le> sb" for i
        using that idx dbit_or_tdo [of sb data b i] by (auto simp: data1_def)
      moreover have "xfer_sw_loop x (Suc r) sb index tdi data aj =
          xfer_sw_loop x r (Suc sb) index (drop_bit 1 tdi) data1 aj1"
        using False nz tck
        by (subst xfer_sw_loop.simps) (simp add: Let_def data1_def)
      ultimately show ?thesis
        using nx unfolding data1_def by blast
    qed
    then obtain index' tdi' data1' where loop:
        "xfer_sw_loop x (Suc r) sb index tdi data aj = xfer_sw_loop x r (Suc sb) index' tdi' data1' aj1"
      and inv': "sw_inv x data0 (Suc sb) index' tdi' data1'"
      and bits: "\<And>i. i \<le> sb \<Longrightarrow> dbit data1' i = (if i < sb then dbit data i else b)"
      by blast
    obtain bs tdi'' data'' aj'' where IH:
        "xfer_sw_loop x r (Suc sb) index' tdi' data1' aj1 =
           Some (sb + r, (sb + r) div 32, tdi'', data'', aj'')"
        "cycles port_cycle aj1 (map (\<lambda>i. (False, scan_bit x data0 i)) [Suc sb ..< sb + r]) = (bs, aj'')"
        "sw_inv x data0 (sb + r) ((sb + r) div 32) tdi'' data''"
        "\<forall>i < sb + r. dbit data'' i = (if i < Suc sb then dbit data1' i else bs ! (i - Suc sb))"
      using Suc.IH [OF inv', of aj1] Suc.prems(3) False by auto
    have "[sb ..< sb + r] = sb # [Suc sb ..< sb + r]"
      using False by (simp add: upt_conv_Cons)
    then have "cycles port_cycle aj (map (\<lambda>i. (False, scan_bit x data0 i)) [sb ..< sb + r]) = (b # bs, aj'')"
      using cyc IH(2) by simp
    moreover have "dbit data'' i = (if i < sb then dbit data i else (b # bs) ! (i - sb))" if "i < sb + r" for i
      using IH(4) bits [of i] that by (auto simp: nth_Cons' Suc_diff_Suc)
    ultimately show ?thesis
      using loop IH(1,3) by auto
  qed
qed

lemma clock_levels_tdos:
  obtains ps where "tdos (clock_levels ts aj) = tdos aj @ ps" "length ps = length ts"
  using port.smps_cycles port.length_cycles by (metis clock_levels_cycles length_map)

lemma sw_inv_here:
  assumes "sw_inv x data0 sb index tdi data"
  shows "bit tdi 0 = scan_bit x data0 sb" "\<not> dbit data sb" "index = sb div 32"
    "index < length data"
proof -
  have "sb mod 32 + 0 < 32 \<longrightarrow> bit tdi 0 = scan_bit x data0 (sb + 0)"
    using assms unfolding sw_inv_def by blast
  then show "bit tdi 0 = scan_bit x data0 sb" by simp
qed (use assms in \<open>simp_all add: sw_inv_def\<close>)

text \<open>The bits of a scan as clocks: TMS is high on the last one unless the port stays in Shift.\<close>

definition scan_clocks :: "jtag_xfer \<Rightarrow> u32 list \<Rightarrow> (bool \<times> bool) list" where
  "scan_clocks x data =
     map (\<lambda>i. (Suc i = x_length x \<and> x_endstate x \<noteq> shift_state (x_type x), scan_bit x data i))
       [0 ..< x_length x]"

lemma scan_clocks_split:
  assumes "0 < x_length x"
  shows "scan_clocks x data =
    map (\<lambda>i. (False, scan_bit x data i)) [0 ..< x_length x - 1] @
    [(x_endstate x \<noteq> shift_state (x_type x), scan_bit x data (x_length x - 1))]"
proof -
  obtain m where m: "x_length x = Suc m"
    using assms by (cases "x_length x") simp_all
  show ?thesis by (simp add: scan_clocks_def m)
qed

lemma xfer_sw_shift:
  assumes n: "0 < x_length x" "x_length x \<le> 32 * length data"
  obtains sb index tdi data1 aj1 tdo aj2 data2 bs where
    "xfer_sw_loop x (x_length x) 0 0 (get_tdi x (data ! 0)) (data[0 := 0]) aj =
       Some (sb, index, tdi, data1, aj1)"
    "aspeed_jtag_tck_cycle aj1 (of_bool (x_endstate x \<noteq> shift_state (x_type x)))
       (ucast (tdi AND 1)) = (tdo, aj2)"
    "or_tdo data1 index tdo sb = data2"
    "clocks aj2 = clocks aj @ scan_clocks x data" "tdos aj2 = tdos aj @ bs"
    "length bs = x_length x" "\<forall>i < x_length x. dbit data2 i = bs ! i"
    "only_log aj aj2" "length data2 = length data"
proof -
  define k where "k = x_length x - 1"
  have k: "x_length x = Suc k"
    using n(1) by (simp add: k_def)
  have "data \<noteq> []"
    using n by auto
  from xfer_sw_loop_spec [OF sw_inv_first [OF this], of "x_length x" x aj]
  obtain bs tdi data1 aj1 where
      loop: "xfer_sw_loop x (x_length x) 0 0 (get_tdi x (data ! 0)) (data[0 := 0]) aj =
        Some (k, k div 32, tdi, data1, aj1)"
    and cyc: "cycles port_cycle aj (map (\<lambda>i. (False, scan_bit x data i)) [0 ..< k]) = (bs, aj1)"
    and inv: "sw_inv x data k (k div 32) tdi data1"
    and bits: "\<forall>i < k. dbit data1 i = bs ! i"
    using n k by auto
  let ?t = "x_endstate x \<noteq> shift_state (x_type x)"
  let ?cyc = "aspeed_jtag_tck_cycle aj1 (of_bool ?t) (of_bool (scan_bit x data k))"
  let ?b = "fst ?cyc \<noteq> 0"
  have here: "ucast (tdi AND 1) = (of_bool (scan_bit x data k) :: u8)" "\<not> dbit data1 k"
      "k div 32 < length data1"
    using sw_inv_here [OF inv] by (simp_all add: tdi_and_1)
  have len: "length bs = k"
    using port.length_cycles cyc by (metis fst_conv length_map length_upt minus_nat.diff_0)
  have fin: "clocks (snd ?cyc) = clocks aj @ scan_clocks x data" "tdos (snd ?cyc) = tdos aj @ bs @ [?b]"
      "only_log aj (snd ?cyc)"
    using port.clks_cycles [of aj "map (\<lambda>i. (False, scan_bit x data i)) [0 ..< k]"]
      port.smps_cycles [of aj "map (\<lambda>i. (False, scan_bit x data i)) [0 ..< k]"]
      port.frame_cycles [of aj "map (\<lambda>i. (False, scan_bit x data i)) [0 ..< k]"]
      scan_clocks_split [OF n(1), of data] cyc
      tck_cycle_only_log [of aj1 "of_bool ?t" "of_bool (scan_bit x data k)"]
    by (auto simp: tck_cycle_wires k intro: only_log_trans)
  have "fst ?cyc = of_bool ?b"
    by (rule tck_cycle_value)
  then have "dbit (or_tdo data1 (k div 32) (fst ?cyc) k) i = (bs @ [?b]) ! i" if "i < Suc k" for i
    using that bits here dbit_or_tdo [of k data1 ?b i] len
    by (auto simp: nth_append less_Suc_eq)
  moreover have "length data1 = length data"
    using inv by (simp add: sw_inv_def)
  ultimately show thesis
    using loop here fin len that [of k "k div 32" tdi data1 aj1 "fst ?cyc" "snd ?cyc"
        "or_tdo data1 (k div 32) (fst ?cyc) k" "bs @ [?b]"]
    by (simp add: k)
qed

lemma shift_stays: "tap_run (shift_state ty) (replicate m False) = shift_state ty"
proof -
  have "tap_step (shift_state ty) False = shift_state ty"
    by (cases ty) (simp_all add: shift_state_def)
  then show ?thesis by (induction m) simp_all
qed

lemma tms_lookup_shift:
  "tms_lookup (shift_state ty) (shift_state ty) = Some c \<Longrightarrow> tms_levels c = []"
  by (cases ty) (auto simp: shift_state_def tms_lookup_def tms_cycle_lookup_def tms_levels_def)

lemma xfer_sw_run:
  assumes "real_from aj (x_from x) \<noteq> JTAG_STATE_CURRENT" "x_endstate x \<noteq> JTAG_STATE_CURRENT"
    and "tap_of s aj = real_from aj (x_from x)"
    and "0 < x_length x" "x_length x \<le> 32 * length data"
  shows "\<exists>data' aj' pre post pres posts bs.
    aspeed_jtag_xfer_sw aj x data = Some (data', aj') \<and>
    clocks aj' = clocks aj @ map (\<lambda>t. (t, False)) pre @ scan_clocks x data @ map (\<lambda>t. (t, False)) post \<and>
    tap_run (tap_of s aj) pre = shift_state (x_type x) \<and>
    tap_of s aj' = x_endstate x \<and> aj_current_state aj' = x_endstate x \<and>
    tdos aj' = tdos aj @ pres @ bs @ posts \<and> length pres = length pre \<and>
    length posts = length post \<and> length bs = x_length x \<and>
    (\<forall>i < x_length x. dbit data' i = bs ! i) \<and> length data' = length data \<and>
    (real_from aj (x_from x) = shift_state (x_type x) \<longrightarrow> pre = []) \<and>
    (x_endstate x = shift_state (x_type x) \<longrightarrow> post = []) \<and>
    aj_mode aj' = aj_mode aj \<and> aj_llops aj' = aj_llops aj"
proof -
  let ?shift = "shift_state (x_type x)" and ?exit = "exit1_state (x_type x)"
  have real: "?shift \<noteq> JTAG_STATE_CURRENT" "?exit \<noteq> JTAG_STATE_CURRENT"
    by (simp_all add: shift_state_def exit1_state_def split: jtag_xfer_type.split)
  obtain c where c: "aspeed_jtag_set_tap_state aj (x_from x) ?shift =
      Some ((clock_levels (tms_levels c) aj)\<lparr>aj_current_state := ?shift\<rparr>)"
    and c_run: "tap_run (real_from aj (x_from x)) (tms_levels c) = ?shift"
    and c_nil: "real_from aj (x_from x) = ?shift \<longrightarrow> tms_levels c = []"
    using set_tap_state_spec [OF assms(1) real(1)] tms_lookup_shift by metis
  define aj1 where "aj1 = (clock_levels (tms_levels c) aj)\<lparr>aj_current_state := ?shift\<rparr>"
  obtain pres where pres: "tdos aj1 = tdos aj @ pres" "length pres = length (tms_levels c)"
    using clock_levels_tdos [of "tms_levels c" aj] unfolding aj1_def by auto
  obtain sb index tdi data1 aj2 tdo aj3 data2 bs where shift:
    "xfer_sw_loop x (x_length x) 0 0 (get_tdi x (data ! 0)) (data[0 := 0]) aj1 =
       Some (sb, index, tdi, data1, aj2)"
    "aspeed_jtag_tck_cycle aj2 (of_bool (x_endstate x \<noteq> ?shift)) (ucast (tdi AND 1)) = (tdo, aj3)"
    "or_tdo data1 index tdo sb = data2"
    "clocks aj3 = clocks aj1 @ scan_clocks x data" "tdos aj3 = tdos aj1 @ bs"
    "length bs = x_length x" "\<forall>i < x_length x. dbit data2 i = bs ! i" "only_log aj1 aj3"
    "length data2 = length data"
    by (rule xfer_sw_shift [OF assms(4,5), of aj1])
  have keep: "aj_mode aj3 = aj_mode aj" "aj_llops aj3 = aj_llops aj"
    using shift(8) by (simp_all add: only_log_fields aj1_def only_log_fields [OF clock_levels_only_log])
  have "data \<noteq> []"
    using assms(4,5) by auto
  have tap3: "tap_of s aj3 = tap_run ?shift (map fst (scan_clocks x data))"
    using c_run assms(3) by (simp add: tap_of_def shift(4) aj1_def comp_def)
  have leave: "tap_run ?shift (map fst (scan_clocks x data)) =
      (if x_endstate x = ?shift then ?shift else ?exit)"
    using assms(4)
    by (simp add: scan_clocks_split comp_def map_replicate_const shift_stays)
      (simp add: shift_state_def exit1_state_def split: jtag_xfer_type.split)
  show ?thesis
  proof (cases "x_endstate x = ?shift")
    case True
    have "aspeed_jtag_xfer_sw aj x data = Some (data2, aj3)"
      using c shift(1-3) \<open>data \<noteq> []\<close> True by (simp add: aspeed_jtag_xfer_sw_def aj1_def)
    moreover have "aj_current_state aj3 = x_endstate x"
      using shift(8) True by (simp add: only_log_fields aj1_def)
    ultimately show ?thesis
      using True pres shift(4-7,9) tap3 leave c_run c_nil keep assms(3)
      by (intro exI [of _ data2] exI [of _ aj3] exI [of _ "tms_levels c"] exI [of _ "[]"]
          exI [of _ pres] exI [of _ "[]"] exI [of _ bs]) (simp add: aj1_def)
  next
    case False
    define aj4 where "aj4 = aj3\<lparr>aj_status := ?exit\<rparr>"
    have "real_from aj4 (aj_status aj4) \<noteq> JTAG_STATE_CURRENT"
      using real by (simp add: aj4_def real_from_def)
    from set_tap_state_spec [OF this assms(2)] obtain d where
        d: "aspeed_jtag_set_tap_state aj4 (aj_status aj4) (x_endstate x) =
          Some ((clock_levels (tms_levels d) aj4)\<lparr>aj_current_state := x_endstate x\<rparr>)"
      and d_run: "tap_run ?exit (tms_levels d) = x_endstate x"
      using real by (auto simp: aj4_def real_from_def)
    define aj5 where "aj5 = (clock_levels (tms_levels d) aj4)\<lparr>aj_current_state := x_endstate x\<rparr>"
    obtain posts where posts: "tdos aj5 = tdos aj4 @ posts" "length posts = length (tms_levels d)"
      using clock_levels_tdos [of "tms_levels d" aj4] unfolding aj5_def by auto
    have "aspeed_jtag_xfer_sw aj x data = Some (data2, aj5)"
      using c shift(1-3) \<open>data \<noteq> []\<close> False d
      by (simp add: aspeed_jtag_xfer_sw_def aj1_def aj4_def aj5_def)
    then show ?thesis
      using False pres posts shift(4-7,9) tap3 leave c_run d_run c_nil keep assms(3)
      by (intro exI [of _ data2] exI [of _ aj5] exI [of _ "tms_levels c"] exI [of _ "tms_levels d"]
          exI [of _ pres] exI [of _ posts] exI [of _ bs]) (simp add: aj1_def aj4_def aj5_def
          only_log_fields [OF clock_levels_only_log])
  qed
qed

text \<open>
  C9. A software-mode transfer of \<open>n\<close> bits is a scan of \<open>n\<close> bits. From the state the device
  is in, the port is moved to Shift; the bits of the buffer (ones for a read-only transfer)
  appear on TDI in order, least significant bit of the first word first, with TMS high on the
  last of them exactly when the port has to leave Shift; the port ends in the requested end
  state; and bit \<open>i\<close> of the returned buffer is the TDO sample of clock \<open>i\<close>.
\<close>

theorem xfer_sw_scans:
  assumes "real_from aj (x_from x) \<noteq> JTAG_STATE_CURRENT" "x_endstate x \<noteq> JTAG_STATE_CURRENT"
    and "tap_of s aj = real_from aj (x_from x)"
    and "0 < x_length x" "x_length x \<le> 32 * length data"
  shows "\<exists>data' aj' pre post pres posts bs.
    aspeed_jtag_xfer_sw aj x data = Some (data', aj') \<and>
    clocks aj' = clocks aj @ map (\<lambda>t. (t, False)) pre @ scan_clocks x data @ map (\<lambda>t. (t, False)) post \<and>
    tap_run (tap_of s aj) pre = shift_state (x_type x) \<and>
    tap_of s aj' = x_endstate x \<and> aj_current_state aj' = x_endstate x \<and>
    tdos aj' = tdos aj @ pres @ bs @ posts \<and> length pres = length pre \<and>
    length posts = length post \<and> length bs = x_length x \<and>
    (\<forall>i < x_length x. dbit data' i = bs ! i)"
  using xfer_sw_run [OF assms] by blast

lemma xfer_sw_scans_witness:
  defines "x \<equiv> \<lparr>x_type = JTAG_SDR_XFER, x_direction = 3, x_from = JTAG_STATE_TLRESET,
      x_endstate = JTAG_STATE_IDLE, x_padding = 0, x_length = 40\<rparr>"
  shows "\<exists>data' aj' pre post pres posts bs.
    aspeed_jtag_xfer_sw reset_device x [0x12345678, 0xAB] = Some (data', aj') \<and>
    clocks aj' = clocks reset_device @ map (\<lambda>t. (t, False)) pre @
      scan_clocks x [0x12345678, 0xAB] @ map (\<lambda>t. (t, False)) post \<and>
    tap_run (tap_of JTAG_STATE_TLRESET reset_device) pre = shift_state (x_type x) \<and>
    tap_of JTAG_STATE_TLRESET aj' = x_endstate x \<and> aj_current_state aj' = x_endstate x \<and>
    tdos aj' = tdos reset_device @ pres @ bs @ posts \<and> length pres = length pre \<and>
    length posts = length post \<and> length bs = x_length x \<and>
    (\<forall>i < x_length x. dbit data' i = bs ! i)"
  by (rule xfer_sw_scans) (simp_all add: x_def real_from_def)

text \<open>
  C30. The two polling loops end: whatever the hardware answers, one call makes at most 301 reads
  of its register and nothing else; it succeeds exactly when the last value read has the bit
  it waits for within 300 reads, and otherwise returns \<^verbatim>\<open>EFAULT\<close> after the 301st read.
\<close>

theorem poll_bounded:
  assumes "wait \<noteq> 0"
  shows "\<exists>vs res aj'. poll reg wait 0 0 aj = (res, last vs, aj') \<and>
    aj_log aj' = aj_log aj @ map (Rd reg) vs \<and> vs \<noteq> [] \<and> length vs \<le> 301 \<and>
    (\<forall>v \<in> set (butlast vs). v AND wait = 0) \<and>
    (if length vs \<le> 300 then last vs AND wait \<noteq> 0 \<and> res = None else res = Some EFAULT)"
proof -
  have gen: "\<exists>vs res aj'. poll reg wait i st aj = (res, last vs, aj') \<and>
      aj_log aj' = aj_log aj @ map (Rd reg) vs \<and> vs \<noteq> [] \<and> i + length vs \<le> 301 \<and>
      (\<forall>v \<in> set (butlast vs). v AND wait = 0) \<and>
      (if i + length vs \<le> 300 then last vs AND wait \<noteq> 0 \<and> res = None else res = Some EFAULT)"
    if "i \<le> 300" "st AND wait = 0" for i st aj
    using that
  proof (induction "300 - i" arbitrary: i st aj)
    case 0
    then show ?case
      by (intro exI [of _ "[fst (aspeed_jtag_read aj reg)]"] exI [of _ "Some EFAULT"]
          exI [of _ "snd (aspeed_jtag_read aj reg)"])
        (simp add: poll.simps aspeed_jtag_read_def Let_def)
  next
    case (Suc n)
    define v where "v = aj_reg_base aj (aj_log aj) reg"
    define aj1 where "aj1 = aj\<lparr>aj_log := aj_log aj @ [Rd reg v]\<rparr>"
    have "i < 300"
      using Suc.hyps(2) by simp
    then have poll: "poll reg wait i st aj = poll reg wait (Suc i) v aj1"
      using Suc.prems
      by (subst poll.simps) (simp add: aspeed_jtag_read_def v_def aj1_def Let_def)
    show ?case
    proof (cases "v AND wait = 0")
      case True
      have "n = 300 - Suc i" "Suc i \<le> 300"
        using Suc.hyps(2) by simp_all
      from Suc.hyps(1) [OF this True, of aj1] obtain vs res aj' where
        "poll reg wait (Suc i) v aj1 = (res, last vs, aj')"
        "aj_log aj' = aj_log aj1 @ map (Rd reg) vs" "vs \<noteq> []" "Suc i + length vs \<le> 301"
        "\<forall>v \<in> set (butlast vs). v AND wait = 0"
        "if Suc i + length vs \<le> 300 then last vs AND wait \<noteq> 0 \<and> res = None else res = Some EFAULT"
        by blast
      with poll True show ?thesis
        by (intro exI [of _ "v # vs"] exI [of _ res] exI [of _ aj']) (simp add: aj1_def)
    next
      case False
      with poll Suc.hyps(2) show ?thesis
        by (intro exI [of _ "[v]"] exI [of _ None] exI [of _ aj1]) (simp add: poll.simps aj1_def)
    qed
  qed
  from gen [of 0 0] show ?thesis by simp
qed

lemma poll_bounded_witness:
  "\<exists>vs res aj'. poll ASPEED_JTAG_ISR ISR_DATA_PAUSE 0 0 reset_device = (res, last vs, aj') \<and>
    aj_log aj' = aj_log reset_device @ map (Rd ASPEED_JTAG_ISR) vs \<and> vs \<noteq> [] \<and> length vs \<le> 301 \<and>
    (\<forall>v \<in> set (butlast vs). v AND ISR_DATA_PAUSE = 0) \<and>
    (if length vs \<le> 300 then last vs AND ISR_DATA_PAUSE \<noteq> 0 \<and> res = None else res = Some EFAULT)"
  by (rule poll_bounded) simp

end
