(* ===== verification/Jtag_Hw.thy ===== *)
theory Jtag_Hw
  imports Jtag_Driver
begin

text \<open>
  The hardware modes of the JTAG master: mode 1, which shifts one 32 bit word per command
  (\<^verbatim>\<open>aspeed_jtag_xfer_hw\<close>), and mode 2 of the AST2600 with its 512 bit FIFO
  (\<^verbatim>\<open>aspeed_jtag_xfer_hw2\<close>), and the dispatch between them and the software mode. The lemmas
  show that the words of the buffer are pushed and read back in order, that the shift-control
  word encodes the right path through the TAP states, and that rejected requests touch nothing.
\<close>

section \<open>Hardware mode 1\<close>

abbreviation (input) trans_len :: "nat \<Rightarrow> u32" where
  "trans_len n \<equiv> CTL_ENG_EN OR CTL_ENG_OUT_EN OR CTL_26XX_TRANS_LEN (word_of_nat n)"
abbreviation (input) iout_len :: "nat \<Rightarrow> u32" where
  "iout_len n \<equiv> CTL_ENG_EN OR CTL_ENG_OUT_EN OR CTL_INST_LEN (word_of_nat n)"
abbreviation (input) dout_len :: "nat \<Rightarrow> u32" where
  "dout_len n \<equiv> CTL_ENG_EN OR CTL_ENG_OUT_EN OR CTL_DATA_LEN (word_of_nat n)"

definition aspeed_jtag_xfer_push_data_26xx ::
  "aspeed_jtag \<Rightarrow> jtag_xfer_type \<Rightarrow> nat \<Rightarrow> errno option \<times> aspeed_jtag" where
  "aspeed_jtag_xfer_push_data_26xx aj ty bits_len =
     (let aj = aspeed_jtag_write (trans_len bits_len) ASPEED_JTAG_CTRL aj
      in case ty of
           JTAG_SIR_XFER \<Rightarrow>
             aspeed_jtag_isr_wait (aspeed_jtag_write (trans_len bits_len OR CTL_26XX_INST_EN)
               ASPEED_JTAG_CTRL aj) ISR_INST_PAUSE
         | JTAG_SDR_XFER \<Rightarrow>
             aspeed_jtag_isr_wait (aspeed_jtag_write (trans_len bits_len OR CTL_DATA_EN)
               ASPEED_JTAG_CTRL aj) ISR_DATA_PAUSE)"

definition aspeed_jtag_xfer_push_data ::
  "aspeed_jtag \<Rightarrow> jtag_xfer_type \<Rightarrow> nat \<Rightarrow> errno option \<times> aspeed_jtag" where
  "aspeed_jtag_xfer_push_data aj ty bits_len =
     (case ty of
        JTAG_SIR_XFER \<Rightarrow>
          (let aj = aspeed_jtag_write (iout_len bits_len) ASPEED_JTAG_CTRL aj;
               aj = aspeed_jtag_write (iout_len bits_len OR CTL_INST_EN) ASPEED_JTAG_CTRL aj
           in aspeed_jtag_isr_wait aj ISR_INST_PAUSE)
      | JTAG_SDR_XFER \<Rightarrow>
          (let aj = aspeed_jtag_write (dout_len bits_len) ASPEED_JTAG_CTRL aj;
               aj = aspeed_jtag_write (dout_len bits_len OR CTL_DATA_EN) ASPEED_JTAG_CTRL aj
           in aspeed_jtag_isr_wait aj ISR_DATA_PAUSE))"

definition aspeed_jtag_xfer_push_data_last_26xx ::
  "aspeed_jtag \<Rightarrow> jtag_xfer_type \<Rightarrow> nat \<Rightarrow> errno option \<times> aspeed_jtag" where
  "aspeed_jtag_xfer_push_data_last_26xx aj ty shift_bits =
     (let aj = aspeed_jtag_write (trans_len shift_bits OR CTL_26XX_LASPEED_TRANS) ASPEED_JTAG_CTRL aj
      in case ty of
           JTAG_SIR_XFER \<Rightarrow>
             aspeed_jtag_isr_wait (aspeed_jtag_write (trans_len shift_bits OR
               CTL_26XX_LASPEED_TRANS OR CTL_26XX_INST_EN) ASPEED_JTAG_CTRL aj) ISR_INST_COMPLETE
         | JTAG_SDR_XFER \<Rightarrow>
             aspeed_jtag_isr_wait (aspeed_jtag_write (trans_len shift_bits OR
               CTL_26XX_LASPEED_TRANS OR CTL_DATA_EN) ASPEED_JTAG_CTRL aj) ISR_DATA_COMPLETE)"

definition aspeed_jtag_xfer_push_data_last ::
  "aspeed_jtag \<Rightarrow> jtag_xfer_type \<Rightarrow> nat \<Rightarrow> errno option \<times> aspeed_jtag" where
  "aspeed_jtag_xfer_push_data_last aj ty shift_bits =
     (case ty of
        JTAG_SIR_XFER \<Rightarrow>
          (let aj = aspeed_jtag_write (iout_len shift_bits OR CTL_LASPEED_INST) ASPEED_JTAG_CTRL aj;
               aj = aspeed_jtag_write (iout_len shift_bits OR CTL_LASPEED_INST OR CTL_INST_EN)
                      ASPEED_JTAG_CTRL aj
           in aspeed_jtag_isr_wait aj ISR_INST_COMPLETE)
      | JTAG_SDR_XFER \<Rightarrow>
          (let aj = aspeed_jtag_write (dout_len shift_bits OR CTL_LASPEED_DATA) ASPEED_JTAG_CTRL aj;
               aj = aspeed_jtag_write (dout_len shift_bits OR CTL_LASPEED_DATA OR CTL_DATA_EN)
                      ASPEED_JTAG_CTRL aj
           in aspeed_jtag_isr_wait aj ISR_DATA_COMPLETE))"

definition llops_push_data :: "aspeed_jtag \<Rightarrow> jtag_xfer_type \<Rightarrow> nat \<Rightarrow> errno option \<times> aspeed_jtag" where
  "llops_push_data aj = (case aj_llops aj of Ast25xx \<Rightarrow> aspeed_jtag_xfer_push_data aj
     | Ast26xx \<Rightarrow> aspeed_jtag_xfer_push_data_26xx aj)"

definition llops_push_data_last :: "aspeed_jtag \<Rightarrow> jtag_xfer_type \<Rightarrow> nat \<Rightarrow> errno option \<times> aspeed_jtag" where
  "llops_push_data_last aj = (case aj_llops aj of Ast25xx \<Rightarrow> aspeed_jtag_xfer_push_data_last aj
     | Ast26xx \<Rightarrow> aspeed_jtag_xfer_push_data_last_26xx aj)"

text \<open>
  The outcome of a hardware transfer: done with the buffer, an error code, or an access out of
  the bounds of the buffer. \<^verbatim>\<open>errno\<close> results carry the buffer and the driver as they were left.
\<close>

type_synonym hw_result = "(errno option \<times> u32 list \<times> aspeed_jtag) option"

text \<open>The fields of \<^verbatim>\<open>union pad_config\<close>.\<close>

definition pre_pad_number :: "u32 \<Rightarrow> nat" where
  "pre_pad_number p = unat (p AND 0xFFF)"
definition post_pad_number :: "u32 \<Rightarrow> nat" where
  "post_pad_number p = unat (drop_bit 12 p AND 0xFFF)"
definition pad_data :: "u32 \<Rightarrow> bool" where
  "pad_data p = bit p 24"

definition hw_data_reg :: "jtag_xfer_type \<Rightarrow> nat" where
  "hw_data_reg ty = (case ty of JTAG_SIR_XFER \<Rightarrow> ASPEED_JTAG_INST | JTAG_SDR_XFER \<Rightarrow> ASPEED_JTAG_DATA)"

definition hw_scan_end :: "jtag_xfer \<Rightarrow> bool" where
  "hw_scan_end x =
     (if x_endstate x \<in> {JTAG_STATE_SHIFTIR, JTAG_STATE_SHIFTDR, JTAG_STATE_PAUSEIR, JTAG_STATE_PAUSEDR}
      then False else post_pad_number (x_padding x) = 0)"

function xfer_hw_loop :: "jtag_xfer \<Rightarrow> bool \<Rightarrow> nat \<Rightarrow> nat \<Rightarrow> u32 list \<Rightarrow> aspeed_jtag \<Rightarrow> hw_result" where
  "xfer_hw_loop x scan_end remain_xfer index data aj =
     (if remain_xfer = 0 then Some (None, data, aj)
      else if index \<ge> length data then None
      else
        let data_reg = hw_data_reg (x_type x);
            aj = aspeed_jtag_write (if writes x then data ! index else 0) data_reg aj;
            shift_bits = (if remain_xfer > DATA_CHUNK_SIZE then DATA_CHUNK_SIZE else remain_xfer);
            (res, aj) = (if remain_xfer > DATA_CHUNK_SIZE then llops_push_data aj (x_type x) shift_bits
                         else if scan_end then llops_push_data_last aj (x_type x) shift_bits
                         else llops_push_data aj (x_type x) shift_bits)
        in if res \<noteq> None then Some (Some EFAULT, data, aj)
           else
             let (data, aj) =
               (if reads x
                then let (v, aj) = aspeed_jtag_read aj data_reg
                     in (data[index := if shift_bits < DATA_CHUNK_SIZE
                                       then drop_bit (DATA_CHUNK_SIZE - shift_bits) v else v], aj)
                else (data, aj))
             in xfer_hw_loop x scan_end (remain_xfer - shift_bits) (Suc index) data aj)"
  by pat_completeness auto
termination by (relation "measure (\<lambda>(_, _, r, _). r)") auto

declare xfer_hw_loop.simps [simp del]

text \<open>
  The padding transfers are calls of the function on itself with the padding field cleared, so
  they run the loop only, on \<^verbatim>\<open>pad_data_one\<close> or \<^verbatim>\<open>pad_data_zero\<close>.
\<close>

abbreviation "MAX_PAD_SIZE \<equiv> 512 :: nat"

definition pad_buffer :: "bool \<Rightarrow> u32 list" where
  "pad_buffer one = replicate (MAX_PAD_SIZE div 32) (if one then - 1 else 0)"

definition pad_xfer :: "jtag_xfer \<Rightarrow> jtag_tapstate \<Rightarrow> nat \<Rightarrow> jtag_xfer" where
  "pad_xfer x endstate n = x\<lparr>x_direction := JTAG_WRITE_XFER, x_endstate := endstate,
     x_padding := 0, x_length := n\<rparr>"

definition xfer_hw_pad :: "aspeed_jtag \<Rightarrow> jtag_xfer \<Rightarrow> jtag_tapstate \<Rightarrow> nat
    \<Rightarrow> (errno option \<times> aspeed_jtag) option" where
  "xfer_hw_pad aj x endstate n =
     (if n = 0 then Some (None, aj)
      else if n > MAX_PAD_SIZE then Some (Some EINVAL, aj)
      else let px = pad_xfer x endstate n
           in map_option (\<lambda>(res, _, aj). (res, aj))
                (xfer_hw_loop px (hw_scan_end px) n 0 (pad_buffer (pad_data (x_padding x))) aj))"

definition aspeed_jtag_xfer_hw :: "aspeed_jtag \<Rightarrow> jtag_xfer \<Rightarrow> u32 list \<Rightarrow> hw_result" where
  "aspeed_jtag_xfer_hw aj x data =
     (case xfer_hw_pad aj x (shift_state (x_type x)) (pre_pad_number (x_padding x)) of
        None \<Rightarrow> None
      | Some (Some e, aj) \<Rightarrow> Some (Some e, data, aj)
      | Some (None, aj) \<Rightarrow>
          (case xfer_hw_loop x (hw_scan_end x) (x_length x) 0 data aj of
             None \<Rightarrow> None
           | Some (Some e, data, aj) \<Rightarrow> Some (Some e, data, aj)
           | Some (None, data, aj) \<Rightarrow>
               map_option (\<lambda>(res, aj). (res, data, aj))
                 (xfer_hw_pad aj x (x_endstate x) (post_pad_number (x_padding x)))))"

section \<open>Hardware mode 2\<close>

abbreviation (input) SHCTRL_TMS :: "u32 \<Rightarrow> u32" where
  "SHCTRL_TMS x \<equiv> push_bit 16 (x AND 0x3FFF)"
abbreviation (input) SHCTRL_POST_TMS :: "u32 \<Rightarrow> u32" where
  "SHCTRL_POST_TMS x \<equiv> push_bit 13 (x AND 0xF)"
abbreviation (input) SHCTRL_PRE_TMS :: "u32 \<Rightarrow> u32" where
  "SHCTRL_PRE_TMS x \<equiv> push_bit 10 (x AND 0xF)"
abbreviation (input) SHCTRL_LWRDT_SHIFT :: "nat \<Rightarrow> u32" where
  "SHCTRL_LWRDT_SHIFT n \<equiv> word_of_nat n AND 0x7F"
abbreviation (input) GBLCTRL_UPDT_SHIFT :: "nat \<Rightarrow> u32" where
  "GBLCTRL_UPDT_SHIFT n \<equiv> push_bit 13 (word_of_nat n AND 0x380)"

text \<open>
  \<^verbatim>\<open>aspeed_jtag_shctrl_tms_mask\<close>: the table is only read for the parts that are used.
\<close>

definition aspeed_jtag_shctrl_tms_mask :: "jtag_tapstate \<Rightarrow> jtag_tapstate \<Rightarrow> jtag_tapstate \<Rightarrow>
    jtag_tapstate \<Rightarrow> u32 \<Rightarrow> u32 \<Rightarrow> u32 option" where
  "aspeed_jtag_shctrl_tms_mask src dst there endstate start_shift end_shift =
     (let none = Some (tms_entry 0 0);
          pre = (if start_shift \<noteq> 0 then tms_lookup src dst else none);
          post = (if end_shift \<noteq> 0 then tms_lookup there endstate else none)
      in case (pre, post) of
           (Some pre, Some post) \<Rightarrow>
             (let pre_tms = (ucast (tms_count pre) :: u32);
                  post_tms = (ucast (tms_count post) :: u32);
                  tms_value = (ucast (tmsbits pre) :: u32) OR
                    push_bit (unat pre_tms) (ucast (tmsbits post))
              in Some (start_shift OR SHCTRL_PRE_TMS pre_tms OR end_shift OR
                   SHCTRL_POST_TMS post_tms OR SHCTRL_TMS tms_value))
         | _ \<Rightarrow> None)"

definition hw2_start :: "jtag_tapstate \<Rightarrow> jtag_xfer_type \<Rightarrow> u32 option" where
  "hw2_start current ty =
     (if current = shift_state ty then Some 0
      else if current = JTAG_STATE_IDLE \<or> current = JTAG_STATE_TLRESET \<or> current = pause_state ty
      then Some SHCTRL_START_SHIFT else None)"

definition hw2_end :: "jtag_xfer \<Rightarrow> (u32 \<times> jtag_tapstate) option" where
  "hw2_end x =
     (let ty = x_type x
      in if x_endstate x = shift_state ty
         then if x_length x = 1 then Some (SHCTRL_END_SHIFT, pause_state ty)
              else Some (0, shift_state ty)
         else if x_endstate x = exit1_state ty then Some (SHCTRL_END_SHIFT, JTAG_STATE_IDLE)
         else if x_endstate x = JTAG_STATE_IDLE then Some (SHCTRL_END_SHIFT, JTAG_STATE_IDLE)
         else if x_endstate x = pause_state ty then Some (SHCTRL_END_SHIFT, pause_state ty)
         else None)"

abbreviation "HW2_DATA_CHUNK_SIZE \<equiv> 512 :: nat"

function hw2_push :: "jtag_xfer \<Rightarrow> nat \<Rightarrow> nat \<Rightarrow> u32 list \<Rightarrow> aspeed_jtag \<Rightarrow> aspeed_jtag option" where
  "hw2_push x partial_xfer partial_index data aj =
     (if partial_xfer = 0 then Some aj
      else if writes x \<and> partial_index \<ge> length data then None
      else let shift_bits = min partial_xfer DATA_CHUNK_SIZE;
               aj = aspeed_jtag_write (if writes x then data ! partial_index else 0)
                      ASPEED_JTAG_SHDATA aj
           in hw2_push x (partial_xfer - shift_bits) (Suc partial_index) data aj)"
  by pat_completeness auto
termination by (relation "measure (\<lambda>(_, p, _). p)") auto

function hw2_pull :: "nat \<Rightarrow> nat \<Rightarrow> u32 list \<Rightarrow> aspeed_jtag \<Rightarrow> (u32 list \<times> aspeed_jtag) option" where
  "hw2_pull partial_xfer partial_index data aj =
     (if partial_xfer = 0 then Some (data, aj)
      else if partial_index \<ge> length data then None
      else let shift_bits = min partial_xfer DATA_CHUNK_SIZE;
               (v, aj) = aspeed_jtag_read aj ASPEED_JTAG_SHDATA
           in hw2_pull (partial_xfer - shift_bits) (Suc partial_index) (data[partial_index := v]) aj)"
  by pat_completeness auto
termination by (relation "measure (\<lambda>(p, _). p)") auto

declare hw2_push.simps [simp del] hw2_pull.simps [simp del]

text \<open>The commands of one chunk: shift \<open>shift_bits\<close> bits with the given TMS plan.\<close>

definition hw2_shift :: "u32 \<Rightarrow> nat \<Rightarrow> aspeed_jtag \<Rightarrow> aspeed_jtag" where
  "hw2_shift tms_mask shift_bits aj =
     (let (reg_val, aj) = aspeed_jtag_read aj ASPEED_JTAG_GBLCTRL;
          aj = aspeed_jtag_write ((reg_val AND NOT 0x700000) OR GBLCTRL_FIFO_CTRL_MODE OR
                 GBLCTRL_UPDT_SHIFT shift_bits) ASPEED_JTAG_GBLCTRL aj;
          aj = aspeed_jtag_write (tms_mask OR SHCTRL_LWRDT_SHIFT shift_bits) ASPEED_JTAG_SHCTRL aj
      in snd (aspeed_jtag_wait_shift_complete aj))"

definition hw2_fifo_reset :: "aspeed_jtag \<Rightarrow> aspeed_jtag" where
  "hw2_fifo_reset aj =
     (let (reg_val, aj) = aspeed_jtag_read aj ASPEED_JTAG_GBLCTRL;
          aj = aspeed_jtag_write (reg_val OR GBLCTRL_RESET_FIFO) ASPEED_JTAG_GBLCTRL aj
      in aspeed_jtag_write (reg_val AND NOT 0x1000000) ASPEED_JTAG_GBLCTRL aj)"

function hw2_loop :: "jtag_xfer \<Rightarrow> jtag_tapstate \<Rightarrow> u32 \<Rightarrow> u32 \<Rightarrow> nat \<Rightarrow> nat \<Rightarrow> u32 list \<Rightarrow> aspeed_jtag
    \<Rightarrow> (u32 list \<times> aspeed_jtag) option" where
  "hw2_loop x endstate end_shift start_shift remain_xfer index data aj =
     (if remain_xfer = 0 then Some (data, aj)
      else
        let partial_xfer_size = min remain_xfer HW2_DATA_CHUNK_SIZE;
            aj = hw2_fifo_reset aj
        in case hw2_push x partial_xfer_size index data aj of None \<Rightarrow> None
           | Some aj \<Rightarrow>
             let chunk_end = (if remain_xfer > HW2_DATA_CHUNK_SIZE then 0 else end_shift)
             in case aspeed_jtag_shctrl_tms_mask (aj_current_state aj) (shift_state (x_type x))
                       (exit1_state (x_type x)) endstate start_shift chunk_end of
                  None \<Rightarrow> None
                | Some tms_mask \<Rightarrow>
                    (case hw2_pull partial_xfer_size index data
                            (hw2_shift tms_mask partial_xfer_size aj) of
                       None \<Rightarrow> None
                     | Some (data, aj) \<Rightarrow>
                         hw2_loop x endstate end_shift 0 (remain_xfer - partial_xfer_size)
                           (index + (partial_xfer_size + 31) div 32) data aj))"
  by pat_completeness auto
termination by (relation "measure (\<lambda>(_, _, _, _, r, _). r)") auto

declare hw2_loop.simps [simp del]

definition aspeed_jtag_xfer_hw2 :: "aspeed_jtag \<Rightarrow> jtag_xfer \<Rightarrow> u32 list \<Rightarrow> hw_result" where
  "aspeed_jtag_xfer_hw2 aj x data =
     (case hw2_start (aj_current_state aj) (x_type x) of
        None \<Rightarrow> Some (Some EINVAL, data, aj)
      | Some start_shift \<Rightarrow>
          (case hw2_end x of
             None \<Rightarrow> Some (Some EINVAL, data, aj)
           | Some (end_shift, endstate) \<Rightarrow>
               (let aj = aspeed_jtag_write (x_padding x) ASPEED_JTAG_PADCTRL0 aj
                in case hw2_loop x endstate end_shift start_shift (x_length x) 0 data aj of
                     None \<Rightarrow> None
                   | Some (data, aj) \<Rightarrow> Some (None, data, aj\<lparr>aj_current_state := endstate\<rparr>))))"

section \<open>Dispatch\<close>

definition llops_xfer_hw :: "aspeed_jtag \<Rightarrow> jtag_xfer \<Rightarrow> u32 list \<Rightarrow> hw_result" where
  "llops_xfer_hw aj = (case aj_llops aj of Ast25xx \<Rightarrow> aspeed_jtag_xfer_hw aj
     | Ast26xx \<Rightarrow> aspeed_jtag_xfer_hw2 aj)"

definition aspeed_jtag_xfer :: "aspeed_jtag \<Rightarrow> jtag_xfer \<Rightarrow> u32 list \<Rightarrow> hw_result" where
  "aspeed_jtag_xfer aj x data =
     (if \<not> hw_mode aj
      then map_option (\<lambda>(data, aj). (None, data, aj\<lparr>aj_status := x_endstate x\<rparr>))
             (aspeed_jtag_xfer_sw (aspeed_jtag_write (SW_MODE_EN OR SW_MODE_TDIO) ASPEED_JTAG_SW aj)
                x data)
      else case llops_xfer_hw (aspeed_jtag_write 0 ASPEED_JTAG_SW aj) x data of
             None \<Rightarrow> None
           | Some (Some e, data, aj) \<Rightarrow> Some (Some EFAULT, data, aj)
           | Some (None, data, aj) \<Rightarrow> Some (None, data, aj\<lparr>aj_status := x_endstate x\<rparr>))"

definition aspeed_jtag_status_get :: "aspeed_jtag \<Rightarrow> jtag_tapstate" where
  "aspeed_jtag_status_get aj = aj_current_state aj"

text \<open>The interrupt handlers; the value is whether the interrupt was theirs (\<^verbatim>\<open>IRQ_HANDLED\<close>).\<close>

definition aspeed_jtag_interrupt :: "aspeed_jtag \<Rightarrow> bool \<times> aspeed_jtag" where
  "aspeed_jtag_interrupt aj =
     (let (status, aj) = aspeed_jtag_read aj ASPEED_JTAG_ISR;
          aj = (if status AND ISR_INT_MASK \<noteq> 0
                then (aspeed_jtag_write ((status AND ISR_INT_MASK) OR (status AND ISR_INT_EN_MASK))
                        ASPEED_JTAG_ISR aj)\<lparr>aj_flag := aj_flag aj OR (status AND ISR_INT_MASK)\<rparr>
                else aj)
      in (aj_flag aj \<noteq> 0, aj))"

definition aspeed_jtag_interrupt_hw2 :: "aspeed_jtag \<Rightarrow> bool \<times> aspeed_jtag" where
  "aspeed_jtag_interrupt_hw2 aj =
     (let (status, aj) = aspeed_jtag_read aj ASPEED_JTAG_INTCTRL;
          aj = (if status AND INTCTRL_SHCPL_IRQ_STAT \<noteq> 0
                then (aspeed_jtag_write (status OR INTCTRL_SHCPL_IRQ_STAT) ASPEED_JTAG_INTCTRL aj)
                       \<lparr>aj_flag := aj_flag aj OR (status AND INTCTRL_SHCPL_IRQ_STAT)\<rparr>
                else aj)
      in (aj_flag aj \<noteq> 0, aj))"

section \<open>Traffic on one register\<close>

fun io_write :: "nat \<Rightarrow> io \<Rightarrow> u32 list" where
  "io_write reg (Wr r v) = (if r = reg then [v] else [])"
| "io_write reg (Rd r v) = []"

fun io_read :: "nat \<Rightarrow> io \<Rightarrow> u32 list" where
  "io_read reg (Rd r v) = (if r = reg then [v] else [])"
| "io_read reg (Wr r v) = []"

definition reg_writes :: "nat \<Rightarrow> aspeed_jtag \<Rightarrow> u32 list" where
  "reg_writes reg aj = concat (map (io_write reg) (aj_log aj))"

definition reg_reads :: "nat \<Rightarrow> aspeed_jtag \<Rightarrow> u32 list" where
  "reg_reads reg aj = concat (map (io_read reg) (aj_log aj))"

lemma reg_traffic_write [simp]:
  "reg_writes reg (aspeed_jtag_write v r aj) = reg_writes reg aj @ (if r = reg then [v] else [])"
  "reg_reads reg (aspeed_jtag_write v r aj) = reg_reads reg aj"
  by (simp_all add: reg_writes_def reg_reads_def aspeed_jtag_write_def)

lemma reg_traffic_read [simp]:
  "reg_writes reg (snd (aspeed_jtag_read aj r)) = reg_writes reg aj"
  "reg_reads reg (snd (aspeed_jtag_read aj r)) =
     reg_reads reg aj @ (if r = reg then [fst (aspeed_jtag_read aj r)] else [])"
  by (simp_all add: reg_writes_def reg_reads_def aspeed_jtag_read_def Let_def)

lemma reg_traffic_fields [simp]:
  "reg_writes reg (aj\<lparr>aj_current_state := s\<rparr>) = reg_writes reg aj"
  "reg_reads reg (aj\<lparr>aj_current_state := s\<rparr>) = reg_reads reg aj"
  "reg_writes reg (aj\<lparr>aj_status := s\<rparr>) = reg_writes reg aj"
  "reg_reads reg (aj\<lparr>aj_status := s\<rparr>) = reg_reads reg aj"
  by (simp_all add: reg_writes_def reg_reads_def)

text \<open>An operation is quiet on a register when it neither reads nor writes it and changes nothing
  but the log.\<close>

definition quiet :: "nat \<Rightarrow> aspeed_jtag \<Rightarrow> aspeed_jtag \<Rightarrow> bool" where
  "quiet reg aj aj' \<longleftrightarrow> only_log aj aj' \<and> reg_writes reg aj' = reg_writes reg aj \<and>
     reg_reads reg aj' = reg_reads reg aj"

lemma quiet_trans: "quiet reg a b \<Longrightarrow> quiet reg b c \<Longrightarrow> quiet reg a c"
  by (auto simp: quiet_def intro: only_log_trans)

lemma quiet_refl [simp]: "quiet reg a a"
  by (simp add: quiet_def)

lemma quiet_write: "r \<noteq> reg \<Longrightarrow> quiet reg aj (aspeed_jtag_write v r aj)"
  by (simp add: quiet_def)

lemma quiet_read: "r \<noteq> reg \<Longrightarrow> quiet reg aj (snd (aspeed_jtag_read aj r))"
  by (simp add: quiet_def)

lemma quiet_poll: "r \<noteq> reg \<Longrightarrow> quiet reg aj (snd (snd (poll r wait i st aj)))"
proof (induction r wait i st aj rule: poll.induct)
  case (1 r wait i st aj)
  obtain v aj1 where rd: "aspeed_jtag_read aj r = (v, aj1)"
    by fastforce
  then have "quiet reg aj aj1"
    using quiet_read [OF 1(2), of aj] by simp
  with 1 rd show ?case
    by (subst poll.simps) (auto simp: Let_def intro: quiet_trans)
qed

lemma quiet_wait:
  "reg \<noteq> ASPEED_JTAG_INTCTRL \<Longrightarrow> quiet reg aj (snd (aspeed_jtag_wait_shift_complete aj))"
  "reg \<noteq> ASPEED_JTAG_ISR \<Longrightarrow> quiet reg aj (snd (aspeed_jtag_isr_wait aj b))"
  by (auto simp: aspeed_jtag_wait_shift_complete_def aspeed_jtag_isr_wait_def split_beta Let_def
      intro: quiet_trans [OF quiet_poll quiet_write])

lemma quiet_hw2_shift: "quiet ASPEED_JTAG_SHDATA aj (hw2_shift m n aj)"
  by (auto simp: hw2_shift_def split_beta Let_def
      intro!: quiet_trans [OF quiet_trans [OF quiet_trans [OF quiet_read quiet_write] quiet_write] quiet_wait(1)])

lemma quiet_hw2_fifo_reset: "quiet ASPEED_JTAG_SHDATA aj (hw2_fifo_reset aj)"
  by (auto simp: hw2_fifo_reset_def split_beta Let_def
      intro!: quiet_trans [OF quiet_trans [OF quiet_read quiet_write] quiet_write])

section \<open>Mode 2 moves the words of the buffer\<close>

abbreviation words_of_bits :: "nat \<Rightarrow> nat" where
  "words_of_bits n \<equiv> (n + 31) div 32"

lemma words_of_bits_step: "0 < n \<Longrightarrow> words_of_bits n = Suc (words_of_bits (n - min n 32))"
proof (cases "n \<le> 32")
  case True
  moreover assume "0 < n"
  ultimately show ?thesis using div_mod_range(1) [of 1 32 "n + 31"] by simp
next
  case False
  then obtain k where "n = k + 32"
    by (metis add.commute le_add_diff_inverse nat_le_linear)
  then show ?thesis
    using div_add_self2 [of 32 "k + 31"] by simp
qed

definition out_words :: "jtag_xfer \<Rightarrow> nat \<Rightarrow> nat \<Rightarrow> u32 list \<Rightarrow> u32 list" where
  "out_words x n i data = (if writes x then take n (drop i data) else replicate n 0)"

lemma hw2_push_spec:
  "i + words_of_bits n \<le> length data \<Longrightarrow>
   \<exists>aj'. hw2_push x n i data aj = Some aj' \<and> only_log aj aj' \<and>
     reg_reads ASPEED_JTAG_SHDATA aj' = reg_reads ASPEED_JTAG_SHDATA aj \<and>
     reg_writes ASPEED_JTAG_SHDATA aj' =
       reg_writes ASPEED_JTAG_SHDATA aj @ out_words x (words_of_bits n) i data"
proof (induction x n i data aj rule: hw2_push.induct)
  case (1 x n i data aj)
  show ?case
  proof (cases "n = 0")
    case True
    then show ?thesis by (simp add: hw2_push.simps out_words_def)
  next
    case False
    define v where "v = (if writes x then data ! i else 0)"
    have w: "words_of_bits n = Suc (words_of_bits (n - min n 32))"
      using False by (intro words_of_bits_step) simp
    then have i: "i < length data" "Suc i + words_of_bits (n - min n 32) \<le> length data"
      using 1(2) by simp_all
    have out: "out_words x (words_of_bits n) i data =
        v # out_words x (words_of_bits (n - min n 32)) (Suc i) data"
      using i(1) unfolding w out_words_def v_def by (simp add: Cons_nth_drop_Suc [symmetric])
    have "hw2_push x n i data aj =
        hw2_push x (n - min n 32) (Suc i) data (aspeed_jtag_write v ASPEED_JTAG_SHDATA aj)"
      using False i by (subst hw2_push.simps) (simp add: v_def Let_def)
    with 1(1) [of "min n 32" "aspeed_jtag_write v ASPEED_JTAG_SHDATA aj"] False i out
    show ?thesis
      by (auto simp: v_def intro: only_log_trans [OF only_log_io(1)])
  qed
qed

lemma hw2_pull_spec:
  "i + words_of_bits n \<le> length data \<Longrightarrow>
   \<exists>data' aj'. hw2_pull n i data aj = Some (data', aj') \<and> only_log aj aj' \<and>
     length data' = length data \<and> take i data' = take i data \<and>
     drop (i + words_of_bits n) data' = drop (i + words_of_bits n) data \<and>
     reg_writes ASPEED_JTAG_SHDATA aj' = reg_writes ASPEED_JTAG_SHDATA aj \<and>
     reg_reads ASPEED_JTAG_SHDATA aj' =
       reg_reads ASPEED_JTAG_SHDATA aj @ take (words_of_bits n) (drop i data')"
proof (induction n i data aj rule: hw2_pull.induct)
  case (1 n i data aj)
  show ?case
  proof (cases "n = 0")
    case True
    then show ?thesis by (simp add: hw2_pull.simps)
  next
    case False
    obtain v aj1 where rd: "aspeed_jtag_read aj ASPEED_JTAG_SHDATA = (v, aj1)"
      by fastforce
    then have rd1: "only_log aj aj1" "reg_writes ASPEED_JTAG_SHDATA aj1 = reg_writes ASPEED_JTAG_SHDATA aj"
      "reg_reads ASPEED_JTAG_SHDATA aj1 = reg_reads ASPEED_JTAG_SHDATA aj @ [v]"
      using only_log_io(2) [of aj ASPEED_JTAG_SHDATA]
        reg_traffic_read [of ASPEED_JTAG_SHDATA aj ASPEED_JTAG_SHDATA] by simp_all
    have w: "words_of_bits n = Suc (words_of_bits (n - min n 32))"
      using False by (intro words_of_bits_step) simp
    then have i: "i < length data" "Suc i + words_of_bits (n - min n 32) \<le> length (data[i := v])"
      using 1(2) by simp_all
    have "hw2_pull n i data aj = hw2_pull (n - min n 32) (Suc i) (data[i := v]) aj1"
      using False i rd by (subst hw2_pull.simps) (simp add: Let_def)
    moreover obtain data' aj' where IH:
      "hw2_pull (n - min n 32) (Suc i) (data[i := v]) aj1 = Some (data', aj')" "only_log aj1 aj'"
      "length data' = length data" "take (Suc i) data' = take (Suc i) (data[i := v])"
      "drop (Suc i + words_of_bits (n - min n 32)) data' =
         drop (Suc i + words_of_bits (n - min n 32)) (data[i := v])"
      "reg_writes ASPEED_JTAG_SHDATA aj' = reg_writes ASPEED_JTAG_SHDATA aj1"
      "reg_reads ASPEED_JTAG_SHDATA aj' = reg_reads ASPEED_JTAG_SHDATA aj1 @
         take (words_of_bits (n - min n 32)) (drop (Suc i) data')"
      using 1(1) [of "min n 32" "(v, aj1)" v aj1] False i rd by auto
    moreover have "take i data' = take i data"
      using arg_cong [OF IH(4), of "take i"] by (simp add: min_def)
    moreover have "data' ! i = v"
      using IH(3,4) i(1) by (metis lessI nth_list_update_eq nth_take)
    then have "take (words_of_bits n) (drop i data') =
        v # take (words_of_bits (n - min n 32)) (drop (Suc i) data')"
      using i(1) IH(3) unfolding w by (simp add: Cons_nth_drop_Suc [symmetric])
    moreover have "drop (i + words_of_bits n) data' = drop (i + words_of_bits n) data"
      using IH(5) unfolding w by (simp add: drop_update_cancel)
    ultimately show ?thesis
      using rd1 by (auto intro: only_log_trans)
  qed
qed

text \<open>
  How the controller reads the shift-control word: bits 12:10 and 15:13 count the TMS levels
  before and after the shift, and the levels themselves are in the field from bit 16 on.
\<close>

definition shctrl_pre :: "u32 \<Rightarrow> bool list" where
  "shctrl_pre m = map (\<lambda>i. bit m (16 + i)) [0 ..< unat (drop_bit 10 m AND 7)]"

definition shctrl_post :: "u32 \<Rightarrow> bool list" where
  "shctrl_post m = map (\<lambda>i. bit m (16 + unat (drop_bit 10 m AND 7) + i))
     [0 ..< unat (drop_bit 13 m AND 7)]"

definition hw2_plan_ok :: "jtag_tapstate \<Rightarrow> jtag_xfer_type \<Rightarrow> jtag_tapstate \<Rightarrow> u32 \<Rightarrow> u32 \<Rightarrow> bool" where
  "hw2_plan_ok current ty endstate start end_shift =
     (case aspeed_jtag_shctrl_tms_mask current (shift_state ty) (exit1_state ty) endstate start end_shift of
        None \<Rightarrow> False
      | Some m \<Rightarrow>
          tap_run current (shctrl_pre m) = (if start = 0 then current else shift_state ty) \<and>
          tap_run (exit1_state ty) (shctrl_post m) =
            (if end_shift = 0 then exit1_state ty else endstate) \<and>
          (m AND SHCTRL_START_SHIFT = start) \<and> (m AND SHCTRL_END_SHIFT = end_shift) \<and>
          m AND 0x7F = 0)"

lemma hw2_plans:
  "list_all (\<lambda>ty. list_all (\<lambda>current. list_all (\<lambda>es. list_all (\<lambda>en.
      hw2_plan_ok current ty es 0x80 en) [0, 0x100])
      [shift_state ty, pause_state ty, JTAG_STATE_IDLE])
      [JTAG_STATE_IDLE, JTAG_STATE_TLRESET, pause_state ty]) [JTAG_SIR_XFER, JTAG_SDR_XFER]"
  by code_simp

lemma hw2_plans_continued:
  "list_all (\<lambda>ty. list_all (\<lambda>current. list_all (\<lambda>es. list_all (\<lambda>en.
      hw2_plan_ok current ty es 0 en) [0, 0x100])
      [shift_state ty, pause_state ty, JTAG_STATE_IDLE])
      [shift_state ty, JTAG_STATE_IDLE, JTAG_STATE_TLRESET, pause_state ty])
      [JTAG_SIR_XFER, JTAG_SDR_XFER]"
  by code_simp

lemma hw2_plan_Some:
  assumes "hw2_plan_ok current ty es st en"
  shows "\<exists>m. aspeed_jtag_shctrl_tms_mask current (shift_state ty) (exit1_state ty) es st en = Some m"
  using assms by (auto simp: hw2_plan_ok_def split: option.splits)

text \<open>The TMS plans the transfer can ask for: the first chunk, then the continued ones.\<close>

definition hw2_plan_possible :: "jtag_tapstate \<Rightarrow> jtag_xfer_type \<Rightarrow> jtag_tapstate \<Rightarrow> u32 \<Rightarrow> u32 \<Rightarrow> bool" where
  "hw2_plan_possible current ty es st en \<longleftrightarrow>
     es \<in> {shift_state ty, pause_state ty, JTAG_STATE_IDLE} \<and> en \<in> {0, 0x100} \<and>
     (st = 0x80 \<and> current \<in> {JTAG_STATE_IDLE, JTAG_STATE_TLRESET, pause_state ty} \<or>
      st = 0 \<and> current \<in> {shift_state ty, JTAG_STATE_IDLE, JTAG_STATE_TLRESET, pause_state ty})"

lemma hw2_plan_possible_ok:
  assumes "hw2_plan_possible current ty es st en"
  shows "hw2_plan_ok current ty es st en"
  using assms hw2_plans hw2_plans_continued
  by (cases ty) (auto simp: hw2_plan_possible_def)

lemma hw2_start_end_possible:
  assumes "hw2_start current (x_type x) = Some st" "hw2_end x = Some (en, es)"
  shows "hw2_plan_possible current (x_type x) es st en" "hw2_plan_possible current (x_type x) es st 0"
    "hw2_plan_possible current (x_type x) es 0 en"
  using assms
  by (auto simp: hw2_plan_possible_def hw2_start_def hw2_end_def Let_def split: if_splits)

lemma words_of_bits_chunk:
  assumes "\<not> n \<le> 512"
  shows "words_of_bits n = 16 + words_of_bits (n - 512)"
proof -
  obtain k where "n = k + 512"
    using assms by (metis add.commute le_add_diff_inverse nat_le_linear)
  then show ?thesis
    using div_mult_self2 [of 32 "k + 31" 16] by simp
qed

lemma out_words_append:
  assumes "i + m \<le> length data" "length data' = length data" "drop (i + m) data' = drop (i + m) data"
  shows "out_words x m i data @ out_words x k (i + m) data' = out_words x (m + k) i data"
  using assms by (simp add: out_words_def take_add replicate_add add.commute [of m i])

lemma hw2_loop_spec:
  assumes "hw2_plan_possible (aj_current_state aj) (x_type x) es st en"
    and "hw2_plan_possible (aj_current_state aj) (x_type x) es st 0"
    and "i + words_of_bits n \<le> length data"
  shows "\<exists>data' aj'. hw2_loop x es en st n i data aj = Some (data', aj') \<and> only_log aj aj' \<and>
     length data' = length data \<and> take i data' = take i data \<and>
     drop (i + words_of_bits n) data' = drop (i + words_of_bits n) data \<and>
     reg_writes ASPEED_JTAG_SHDATA aj' =
       reg_writes ASPEED_JTAG_SHDATA aj @ out_words x (words_of_bits n) i data \<and>
     reg_reads ASPEED_JTAG_SHDATA aj' =
       reg_reads ASPEED_JTAG_SHDATA aj @ take (words_of_bits n) (drop i data')"
  using assms
proof (induction n arbitrary: i st data aj rule: less_induct)
  case (less n)
  show ?case
  proof (cases "n = 0")
    case True
    then show ?thesis by (simp add: hw2_loop.simps out_words_def)
  next
    case False
    define p where "p = min n 512"
    define ce where "ce = (if n > 512 then 0 else en)"
    have le: "words_of_bits p \<le> words_of_bits n"
      unfolding p_def by (intro div_le_mono) simp
    let ?aj0 = "hw2_fifo_reset aj"
    have q0: "quiet ASPEED_JTAG_SHDATA aj ?aj0" by (rule quiet_hw2_fifo_reset)
    obtain aj1 where push: "hw2_push x p i data ?aj0 = Some aj1" "only_log ?aj0 aj1"
      "reg_reads ASPEED_JTAG_SHDATA aj1 = reg_reads ASPEED_JTAG_SHDATA ?aj0"
      "reg_writes ASPEED_JTAG_SHDATA aj1 =
         reg_writes ASPEED_JTAG_SHDATA ?aj0 @ out_words x (words_of_bits p) i data"
      using hw2_push_spec [of i p data x ?aj0] less.prems(3) le by auto
    have cur: "aj_current_state aj1 = aj_current_state aj"
      using q0 push(2) by (simp add: quiet_def only_log_fields)
    obtain m where m: "aspeed_jtag_shctrl_tms_mask (aj_current_state aj1) (shift_state (x_type x))
        (exit1_state (x_type x)) es st ce = Some m"
      using hw2_plan_Some hw2_plan_possible_ok less.prems(1,2) unfolding cur ce_def by metis
    let ?aj2 = "hw2_shift m p aj1"
    have q2: "quiet ASPEED_JTAG_SHDATA aj1 ?aj2" by (rule quiet_hw2_shift)
    obtain data1 aj3 where pull: "hw2_pull p i data ?aj2 = Some (data1, aj3)" "only_log ?aj2 aj3"
      "length data1 = length data" "take i data1 = take i data"
      "drop (i + words_of_bits p) data1 = drop (i + words_of_bits p) data"
      "reg_writes ASPEED_JTAG_SHDATA aj3 = reg_writes ASPEED_JTAG_SHDATA ?aj2"
      "reg_reads ASPEED_JTAG_SHDATA aj3 =
         reg_reads ASPEED_JTAG_SHDATA ?aj2 @ take (words_of_bits p) (drop i data1)"
      using hw2_pull_spec [of i p data ?aj2] less.prems(3) le by auto
    have loop: "hw2_loop x es en st n i data aj =
        hw2_loop x es en 0 (n - p) (i + words_of_bits p) data1 aj3"
      using False push(1) m pull(1)
      by (subst hw2_loop.simps) (simp add: Let_def p_def ce_def)
    have chunk: "only_log aj aj3"
      "reg_writes ASPEED_JTAG_SHDATA aj3 =
         reg_writes ASPEED_JTAG_SHDATA aj @ out_words x (words_of_bits p) i data"
      "reg_reads ASPEED_JTAG_SHDATA aj3 =
         reg_reads ASPEED_JTAG_SHDATA aj @ take (words_of_bits p) (drop i data1)"
      using q0 q2 push(2-4) pull(2,6,7) by (auto simp: quiet_def intro: only_log_trans)
    have w: "words_of_bits n = words_of_bits p + words_of_bits (n - p)"
      by (cases "n \<le> 512") (simp_all add: p_def words_of_bits_chunk)
    have cur3: "aj_current_state aj3 = aj_current_state aj"
      using chunk(1) by (simp add: only_log_fields)
    have next_ok: "hw2_plan_possible (aj_current_state aj3) (x_type x) es 0 en"
        "hw2_plan_possible (aj_current_state aj3) (x_type x) es 0 0"
      using less.prems(1) unfolding cur3 by (auto simp: hw2_plan_possible_def)
    obtain data2 aj4 where IH: "hw2_loop x es en 0 (n - p) (i + words_of_bits p) data1 aj3 = Some (data2, aj4)"
      "only_log aj3 aj4" "length data2 = length data1"
      "take (i + words_of_bits p) data2 = take (i + words_of_bits p) data1"
      "drop (i + words_of_bits n) data2 = drop (i + words_of_bits n) data1"
      "reg_writes ASPEED_JTAG_SHDATA aj4 = reg_writes ASPEED_JTAG_SHDATA aj3 @
         out_words x (words_of_bits (n - p)) (i + words_of_bits p) data1"
      "reg_reads ASPEED_JTAG_SHDATA aj4 = reg_reads ASPEED_JTAG_SHDATA aj3 @
         take (words_of_bits (n - p)) (drop (i + words_of_bits p) data2)"
    proof -
      have "n - p < n" "i + words_of_bits p + words_of_bits (n - p) \<le> length data1"
        "i + words_of_bits p + words_of_bits (n - p) = i + words_of_bits n"
        using False less.prems(3) pull(3) w by (simp_all add: p_def)
      with less.IH [OF this(1) next_ok this(2)] that show thesis by auto
    qed
    have a: "take i data2 = take i data"
      using arg_cong [OF IH(4), of "take i"] pull(4) by (simp add: min_def)
    have b: "drop (i + words_of_bits n) data2 = drop (i + words_of_bits n) data"
      using IH(5) arg_cong [OF pull(5), of "drop (words_of_bits (n - p))"] w
      by (simp add: ac_simps)
    have "take (words_of_bits p) (drop i data1) = take (words_of_bits p) (drop i data2)"
      using arg_cong [OF IH(4), of "drop i"] by (simp add: drop_take)
    then have c: "take (words_of_bits p) (drop i data1) @
        take (words_of_bits (n - p)) (drop (i + words_of_bits p) data2) =
        take (words_of_bits n) (drop i data2)"
      unfolding w by (simp add: take_add add.commute)
    have d: "out_words x (words_of_bits p) i data @
        out_words x (words_of_bits (n - p)) (i + words_of_bits p) data1 =
        out_words x (words_of_bits n) i data"
      unfolding w using less.prems(3) le pull(3,5) by (intro out_words_append) simp_all
    show ?thesis
      using loop IH(1,2,3,6,7) chunk a b c d pull(3)
      by (auto intro: only_log_trans)
  qed
qed

text \<open>
  C24. A transfer in hardware mode 2 either is refused with \<^verbatim>\<open>EINVAL\<close> before it touches a
  register, or completes: then exactly the words the bits need are pushed into the FIFO, in order
  and unchanged (zeros for a read-only transfer), exactly as many are read back, in order, into
  the same places of the buffer, nothing beyond them changes, and the driver records the end
  state of the plan.
\<close>

theorem hw2_moves_the_buffer:
  assumes "words_of_bits (x_length x) \<le> length data"
  shows "case (hw2_start (aj_current_state aj) (x_type x), hw2_end x) of
      (Some st, Some (en, es)) \<Rightarrow>
        (\<exists>data' aj'. aspeed_jtag_xfer_hw2 aj x data = Some (None, data', aj') \<and>
          length data' = length data \<and>
          drop (words_of_bits (x_length x)) data' = drop (words_of_bits (x_length x)) data \<and>
          reg_writes ASPEED_JTAG_SHDATA aj' = reg_writes ASPEED_JTAG_SHDATA aj @
            (if writes x then take (words_of_bits (x_length x)) data
             else replicate (words_of_bits (x_length x)) 0) \<and>
          reg_reads ASPEED_JTAG_SHDATA aj' = reg_reads ASPEED_JTAG_SHDATA aj @
            take (words_of_bits (x_length x)) data' \<and>
          aj_current_state aj' = es)
    | _ \<Rightarrow> aspeed_jtag_xfer_hw2 aj x data = Some (Some EINVAL, data, aj)"
proof (cases "hw2_start (aj_current_state aj) (x_type x)")
  case None
  then show ?thesis by (simp add: aspeed_jtag_xfer_hw2_def)
next
  case (Some st)
  show ?thesis
  proof (cases "hw2_end x")
    case None
    with Some show ?thesis by (simp add: aspeed_jtag_xfer_hw2_def)
  next
    case (Some p)
    obtain en es where p: "p = (en, es)" by (cases p)
    let ?aj = "aspeed_jtag_write (x_padding x) ASPEED_JTAG_PADCTRL0 aj"
    have cur: "aj_current_state ?aj = aj_current_state aj"
      by (simp add: aspeed_jtag_write_def)
    have "hw2_plan_possible (aj_current_state ?aj) (x_type x) es st en"
      "hw2_plan_possible (aj_current_state ?aj) (x_type x) es st 0"
      using hw2_start_end_possible \<open>hw2_start _ _ = Some st\<close> Some p unfolding cur by blast+
    from hw2_loop_spec [OF this, of 0 "x_length x" data] assms
    obtain data' aj' where "hw2_loop x es en st (x_length x) 0 data ?aj = Some (data', aj')"
      "length data' = length data"
      "drop (words_of_bits (x_length x)) data' = drop (words_of_bits (x_length x)) data"
      "reg_writes ASPEED_JTAG_SHDATA aj' = reg_writes ASPEED_JTAG_SHDATA ?aj @
         out_words x (words_of_bits (x_length x)) 0 data"
      "reg_reads ASPEED_JTAG_SHDATA aj' = reg_reads ASPEED_JTAG_SHDATA ?aj @
         take (words_of_bits (x_length x)) data'"
      by auto
    then show ?thesis
      using \<open>hw2_start _ _ = Some st\<close> Some p
      by (simp add: aspeed_jtag_xfer_hw2_def out_words_def)
  qed
qed

lemma hw2_moves_the_buffer_witness:
  defines "x \<equiv> \<lparr>x_type = JTAG_SDR_XFER, x_direction = 3, x_from = JTAG_STATE_TLRESET,
      x_endstate = JTAG_STATE_PAUSEDR, x_padding = 0, x_length = 600\<rparr>"
  shows "\<exists>data' aj'. aspeed_jtag_xfer_hw2 reset_device x (replicate 19 7) = Some (None, data', aj') \<and>
    reg_writes ASPEED_JTAG_SHDATA aj' = replicate 19 7 \<and> length data' = 19 \<and>
    aj_current_state aj' = JTAG_STATE_PAUSEDR"
proof -
  have "words_of_bits (x_length x) \<le> length (replicate 19 (7 :: u32))"
    by (simp add: x_def)
  from hw2_moves_the_buffer [OF this, of reset_device] show ?thesis
    by (simp add: x_def reset_device_def hw2_start_def hw2_end_def shift_state_def pause_state_def
        exit1_state_def reg_writes_def) blast
qed

text \<open>
  C25. The shift-control word of hardware mode 2 is a correct plan. For every request the
  transfer accepts, the TMS levels in front of the shift take the recorded state to Shift, the
  levels after it take Exit1 to the end state, they fit their fields, and neither disturbs the
  start and end flags or the bit count, for the first chunk, a chunk in the middle and the last.
\<close>

theorem hw2_plan_correct:
  assumes "hw2_start current (x_type x) = Some st" "hw2_end x = Some (en, es)"
  shows "hw2_plan_ok current (x_type x) es st en \<and> hw2_plan_ok current (x_type x) es st 0 \<and>
    hw2_plan_ok current (x_type x) es 0 en"
  using hw2_start_end_possible [OF assms] hw2_plan_possible_ok by blast+

lemma hw2_plan_correct_witness:
  defines "x \<equiv> \<lparr>x_type = JTAG_SIR_XFER, x_direction = 3, x_from = JTAG_STATE_TLRESET,
      x_endstate = JTAG_STATE_IDLE, x_padding = 0, x_length = 11\<rparr>"
  shows "hw2_plan_ok JTAG_STATE_TLRESET (x_type x) JTAG_STATE_IDLE 0x80 0x100 \<and>
    hw2_plan_ok JTAG_STATE_TLRESET (x_type x) JTAG_STATE_IDLE 0x80 0 \<and>
    hw2_plan_ok JTAG_STATE_TLRESET (x_type x) JTAG_STATE_IDLE 0 0x100"
  by (rule hw2_plan_correct)
    (simp_all add: x_def hw2_start_def hw2_end_def shift_state_def pause_state_def exit1_state_def)

lemma field_consts:
  "(0x380 :: u32) = push_bit 7 (mask 3)" "(0x700000 :: u32) = push_bit 20 (mask 3)"
  "(0x1700000 :: u32) = push_bit 20 (mask 3) OR push_bit 24 1"
  "(0x1000000 :: u32) = push_bit 24 1" "(0x7F :: u32) = mask 7" "(7 :: u32) = mask 3"
  by (simp_all add: mask_eq_exp_minus_1)

lemma chunk_size_fields:
  fixes r w m :: u32
  defines "g \<equiv> (r AND NOT 0x700000) OR 0x1000000 OR push_bit 13 (w AND 0x380)"
  shows "drop_bit 20 g AND 7 = drop_bit 7 w AND 7"
    "g AND NOT 0x1700000 = r AND NOT 0x1700000"
proof -
  have "\<not> bit (16 :: u32) k" if "k < 3" for k
  proof -
    have "k = 0 \<or> k = 1 \<or> k = 2" using that by arith
    then show ?thesis by auto
  qed
  then show "drop_bit 20 g AND 7 = drop_bit 7 w AND 7" "g AND NOT 0x1700000 = r AND NOT 0x1700000"
    unfolding g_def field_consts by (auto intro!: bit_word_eqI simp: bit_simps)
qed

lemma low_field:
  fixes w m :: u32
  assumes "m AND 0x7F = 0"
  shows "(m OR (w AND 0x7F)) AND 0x7F = w AND 0x7F" "(m OR (w AND 0x7F)) AND NOT 0x7F = m"
proof -
  have low: "\<not> bit m k" if "k < 7" for k
  proof -
    have "bit (m AND mask 7) k = bit (0 :: u32) k"
      using assms by (simp add: mask_eq_exp_minus_1)
    then show ?thesis using that by (simp add: bit_simps)
  qed
  show "(m OR (w AND 0x7F)) AND 0x7F = w AND 0x7F" "(m OR (w AND 0x7F)) AND NOT 0x7F = m"
    unfolding field_consts using low by (auto intro!: bit_word_eqI leI simp: bit_simps)
qed

lemma unat_fields:
  fixes w :: u32
  shows "unat (w AND 0x7F) = unat w mod 128" "unat (drop_bit 7 w AND 7) = unat w div 128 mod 8"
proof -
  show "unat (w AND 0x7F) = unat w mod 128"
    unfolding field_consts take_bit_eq_mask [symmetric] unsigned_take_bit_eq
    by (simp add: take_bit_eq_mod)
  have "take_bit 32 (unat w) = unat w"
    using unsigned_less [of w, where ?'a = nat] by (simp add: take_bit_nat_eq_self)
  then show "unat (drop_bit 7 w AND 7) = unat w div 128 mod 8"
    unfolding field_consts take_bit_eq_mask [symmetric] unsigned_take_bit_eq unsigned_drop_bit_eq
    by (simp add: take_bit_eq_mod drop_bit_eq_div)
qed

text \<open>
  The bit count of a chunk is split over two registers, and nothing of it is lost: for
  any chunk size up to the 512 bits of the FIFO, the low seven bits in the shift-control word
  and the three bits in the global control register give the size back, and the other bits of
  the global control register are kept.
\<close>

theorem hw2_shift_count:
  assumes "n \<le> 512" "m AND 0x7F = 0"
  shows "\<exists>g s. reg_writes ASPEED_JTAG_GBLCTRL (hw2_shift m n aj) = reg_writes ASPEED_JTAG_GBLCTRL aj @ [g] \<and>
    reg_writes ASPEED_JTAG_SHCTRL (hw2_shift m n aj) = reg_writes ASPEED_JTAG_SHCTRL aj @ [s] \<and>
    unat (s AND 0x7F) + 128 * unat (drop_bit 20 g AND 7) = n \<and> s AND NOT 0x7F = m \<and>
    g AND NOT 0x1700000 = fst (aspeed_jtag_read aj ASPEED_JTAG_GBLCTRL) AND NOT 0x1700000"
proof -
  let ?r = "fst (aspeed_jtag_read aj ASPEED_JTAG_GBLCTRL)" and ?w = "word_of_nat n :: u32"
  let ?g = "(?r AND NOT 0x700000) OR 0x1000000 OR push_bit 13 (?w AND 0x380)"
  let ?s = "m OR (?w AND 0x7F)"
  have quiet: "reg_writes reg (snd (aspeed_jtag_wait_shift_complete aj')) = reg_writes reg aj'"
    if "reg \<noteq> ASPEED_JTAG_INTCTRL" for reg aj'
    using quiet_wait(1) [OF that] by (simp add: quiet_def)
  have "unat ?w = n"
    using assms(1) by (simp add: unat_of_nat)
  then have "unat (?s AND 0x7F) + 128 * unat (drop_bit 20 ?g AND 7) = n"
    using assms(1) unfolding low_field(1) [OF assms(2)] chunk_size_fields(1) unat_fields
    by simp
  then show ?thesis
    using low_field(2) [OF assms(2), of ?w] chunk_size_fields(2) [of ?r ?w]
    by (rule_tac exI [of _ ?g], rule_tac exI [of _ ?s]) (simp add: hw2_shift_def split_beta Let_def quiet)
qed

lemma hw2_shift_count_witness:
  "\<exists>g s. reg_writes ASPEED_JTAG_GBLCTRL (hw2_shift 0x180 300 reset_device) =
      reg_writes ASPEED_JTAG_GBLCTRL reset_device @ [g] \<and>
    reg_writes ASPEED_JTAG_SHCTRL (hw2_shift 0x180 300 reset_device) =
      reg_writes ASPEED_JTAG_SHCTRL reset_device @ [s] \<and>
    unat (s AND 0x7F) + 128 * unat (drop_bit 20 g AND 7) = 300 \<and> s AND NOT 0x7F = 0x180 \<and>
    g AND NOT 0x1700000 = fst (aspeed_jtag_read reset_device ASPEED_JTAG_GBLCTRL) AND NOT 0x1700000"
  by (rule hw2_shift_count) simp_all

end
