(* ===== verification/Jtag_Ioctl.thy ===== *)
theory Jtag_Ioctl
  imports Jtag_Hw
begin

text \<open>
  The character device in front of the driver, \<^verbatim>\<open>jtag.c\<close>: the checks of \<^verbatim>\<open>jtag_ioctl\<close>, the
  copies to and from user memory (which can fail: that is a parameter) and the dispatch to the
  operations of the two generations. A result \<^const>\<open>None\<close> is a wild memory access of the
  kernel. The lemmas show that a refused request never touches the hardware and what a
  transfer does to the bytes of the user.
\<close>

section \<open>Bytes and words\<close>

text \<open>The driver reads the bytes of the user as little-endian 32 bit words.\<close>

definition le32 :: "u8 \<Rightarrow> u8 \<Rightarrow> u8 \<Rightarrow> u8 \<Rightarrow> u32" where
  "le32 a b c d = ucast a OR push_bit 8 (ucast b) OR push_bit 16 (ucast c) OR push_bit 24 (ucast d)"

fun words_of_bytes :: "u8 list \<Rightarrow> u32 list" where
  "words_of_bytes (a # b # c # d # bs) = le32 a b c d # words_of_bytes bs"
| "words_of_bytes _ = []"

definition bytes_of_words :: "u32 list \<Rightarrow> u8 list" where
  "bytes_of_words ws = concat (map (\<lambda>w. [ucast w, ucast (drop_bit 8 w), ucast (drop_bit 16 w),
     ucast (drop_bit 24 w)]) ws)"

definition bbit :: "u8 list \<Rightarrow> nat \<Rightarrow> bool" where
  "bbit bs i = bit (bs ! (i div 8)) (i mod 8)"

section \<open>Requests\<close>

record tap_state_req =
  q_reset :: u8
  q_from :: u8
  q_endstate :: u8

record xfer_req =
  q_type :: u8
  q_direction :: u8
  q_xfrom :: u8
  q_xendstate :: u8
  q_padding :: u32
  q_length :: u32

text \<open>
  The command with what the kernel finds in user memory; \<^const>\<open>None\<close> is a failing copy.
\<close>

datatype ioctl_cmd =
    JTAG_GIOCFREQ
  | JTAG_SIOCFREQ "u32 option"
  | JTAG_SIOCSTATE "tap_state_req option"
  | JTAG_IOCXFER "xfer_req option" "u8 list option"
  | JTAG_GIOCSTATUS
  | JTAG_IOCBITBANG "u32 option" "tck_bitbang list option"
  | JTAG_SIOCMODE "jtag_mode option"
  | JTAG_OTHER

datatype reply = NoReply | Value u32 | Bytes "u8 list" | Bits "tck_bitbang list"

type_synonym ioctl_result = "(errno option \<times> reply \<times> aspeed_jtag) option"

definition tapstate_of_num :: "u8 \<Rightarrow> jtag_tapstate" where
  "tapstate_of_num n = (tapstates @ [JTAG_STATE_CURRENT]) ! unat n"

definition xfer_of_req :: "xfer_req \<Rightarrow> jtag_xfer" where
  "xfer_of_req q = \<lparr>x_type = (if q_type q = 0 then JTAG_SIR_XFER else JTAG_SDR_XFER),
     x_direction = q_direction q, x_from = tapstate_of_num (q_xfrom q),
     x_endstate = tapstate_of_num (q_xendstate q), x_padding = q_padding q,
     x_length = unat (q_length q)\<rparr>"

abbreviation "JTAG_MAX_XFER_DATA_LEN \<equiv> 65535 :: nat"

definition ops_freq_get :: "aspeed_jtag \<Rightarrow> u32 \<times> aspeed_jtag" where
  "ops_freq_get aj = (case aj_llops aj of Ast25xx \<Rightarrow> aspeed_jtag_freq_get aj
     | Ast26xx \<Rightarrow> aspeed_jtag_freq_get_26xx aj)"

definition ops_freq_set :: "aspeed_jtag \<Rightarrow> u32 \<Rightarrow> errno option \<times> aspeed_jtag" where
  "ops_freq_set aj = (case aj_llops aj of Ast25xx \<Rightarrow> aspeed_jtag_freq_set aj
     | Ast26xx \<Rightarrow> aspeed_jtag_freq_set_26xx aj)"

definition ops_status_set :: "aspeed_jtag \<Rightarrow> jtag_tap_state \<Rightarrow> aspeed_jtag option" where
  "ops_status_set aj = (case aj_llops aj of Ast25xx \<Rightarrow> aspeed_jtag_status_set aj
     | Ast26xx \<Rightarrow> aspeed_jtag_status_set_26xx aj)"

section \<open>The transfer request\<close>

text \<open>
  The copy of the user's data is as long as the bits need; the words the driver reads reach up
  to three bytes beyond it, into the rest of the allocation (\<open>slack\<close>). The bits of the last byte
  beyond the transfer are saved before and restored after it. This is done before the copy is
  checked, and for a transfer of no bits at all the last byte is in front of the buffer.
\<close>

definition data_size :: "u32 \<Rightarrow> nat" where
  "data_size len = (unat len + 7) div 8"

definition ubit_mask :: "u32 \<Rightarrow> u8" where
  "ubit_mask len = (if unat len mod 8 = 0 then - 1 else mask (unat len mod 8))"

definition restore_unused :: "u32 \<Rightarrow> u8 list \<Rightarrow> u8 list \<Rightarrow> u8 list" where
  "restore_unused len old new =
     (let i = data_size len - 1;
          remaining_bits = (if unat len mod 8 = 0 then 0 else (old ! i) AND NOT (ubit_mask len))
      in new[i := ((new ! i) AND ubit_mask len) OR remaining_bits])"

definition jtag_ioctl_xfer :: "u8 list \<Rightarrow> bool \<Rightarrow> aspeed_jtag \<Rightarrow> xfer_req option \<Rightarrow> u8 list option
    \<Rightarrow> ioctl_result" where
  "jtag_ioctl_xfer slack put_ok aj req user_data =
     (case req of None \<Rightarrow> Some (Some EFAULT, NoReply, aj)
      | Some q \<Rightarrow>
        if unat (q_length q) \<ge> JTAG_MAX_XFER_DATA_LEN then Some (Some EINVAL, NoReply, aj)
        else if q_type q > 1 then Some (Some EINVAL, NoReply, aj)
        else if q_direction q > 3 then Some (Some EINVAL, NoReply, aj)
        else if q_xfrom q > 16 then Some (Some EINVAL, NoReply, aj)
        else if q_xendstate q > 16 then Some (Some EINVAL, NoReply, aj)
        else
          let n = data_size (q_length q)
          in case user_data of
               None \<Rightarrow> if unat (q_length q) mod 8 \<noteq> 0 then None
                       else Some (Some EFAULT, NoReply, aj)
             | Some bytes \<Rightarrow>
                 (case aspeed_jtag_xfer aj (xfer_of_req q)
                         (words_of_bytes (take n bytes @ take ((4 - n mod 4) mod 4) slack)) of
                    None \<Rightarrow> None
                  | Some (Some e, _, aj) \<Rightarrow> Some (Some e, NoReply, aj)
                  | Some (None, data, aj) \<Rightarrow>
                      if n = 0 then None
                      else if \<not> put_ok then Some (Some EFAULT, NoReply, aj)
                      else Some (None, Bytes (restore_unused (q_length q) bytes
                                               (take n (bytes_of_words data))), aj)))"

section \<open>The other requests\<close>

definition jtag_ioctl_state :: "aspeed_jtag \<Rightarrow> tap_state_req option \<Rightarrow> ioctl_result" where
  "jtag_ioctl_state aj req =
     (case req of None \<Rightarrow> Some (Some EFAULT, NoReply, aj)
      | Some q \<Rightarrow>
        if q_from q > 16 \<or> q_endstate q > 16 \<or> q_reset q > 1 then Some (Some EINVAL, NoReply, aj)
        else map_option (\<lambda>aj. (None, NoReply, aj))
               (ops_status_set aj \<lparr>ts_reset = q_reset q, ts_from = tapstate_of_num (q_from q),
                  ts_endstate = tapstate_of_num (q_endstate q)\<rparr>))"

definition jtag_ioctl_bitbang :: "bool \<Rightarrow> aspeed_jtag \<Rightarrow> u32 option \<Rightarrow> tck_bitbang list option
    \<Rightarrow> ioctl_result" where
  "jtag_ioctl_bitbang put_ok aj len user_data =
     (case len of None \<Rightarrow> Some (Some EFAULT, NoReply, aj)
      | Some n \<Rightarrow>
        if unat n \<ge> JTAG_MAX_XFER_DATA_LEN then Some (Some EINVAL, NoReply, aj)
        else (case user_data of
            None \<Rightarrow> Some (Some EFAULT, NoReply, aj)
          | Some bs \<Rightarrow>
              (let (bs, aj) = aspeed_jtag_bitbang aj (take (unat n) bs)
               in if put_ok then Some (None, Bits bs, aj) else Some (Some EFAULT, NoReply, aj))))"

definition jtag_ioctl :: "u8 list \<Rightarrow> bool \<Rightarrow> aspeed_jtag \<Rightarrow> ioctl_cmd \<Rightarrow> bool \<Rightarrow> ioctl_result" where
  "jtag_ioctl slack put_ok aj cmd arg =
     (if \<not> arg then Some (Some EINVAL, NoReply, aj)
      else case cmd of
        JTAG_GIOCFREQ \<Rightarrow>
          (let (v, aj) = ops_freq_get aj
           in Some (if put_ok then (None, Value v, aj) else (Some EFAULT, NoReply, aj)))
      | JTAG_SIOCFREQ None \<Rightarrow> Some (Some EFAULT, NoReply, aj)
      | JTAG_SIOCFREQ (Some v) \<Rightarrow>
          if v = 0 then Some (Some EINVAL, NoReply, aj)
          else (let (res, aj) = ops_freq_set aj v in Some (res, NoReply, aj))
      | JTAG_SIOCSTATE req \<Rightarrow> jtag_ioctl_state aj req
      | JTAG_IOCXFER req user_data \<Rightarrow> jtag_ioctl_xfer slack put_ok aj req user_data
      | JTAG_GIOCSTATUS \<Rightarrow>
          Some (if put_ok
                then (None, Value (word_of_nat (tapstate_num (aspeed_jtag_status_get aj))), aj)
                else (Some EFAULT, NoReply, aj))
      | JTAG_IOCBITBANG len user_data \<Rightarrow> jtag_ioctl_bitbang put_ok aj len user_data
      | JTAG_SIOCMODE None \<Rightarrow> Some (Some EFAULT, NoReply, aj)
      | JTAG_SIOCMODE (Some m) \<Rightarrow>
          (let (res, aj) = aspeed_jtag_mode_set aj m in Some (res, NoReply, aj))
      | JTAG_OTHER \<Rightarrow> Some (Some EINVAL, NoReply, aj))"

definition jtag_open :: "aspeed_jtag \<Rightarrow> errno option \<times> aspeed_jtag" where
  "jtag_open aj = (None, llops_master_enable aj)"

definition jtag_release :: "aspeed_jtag \<Rightarrow> errno option \<times> aspeed_jtag" where
  "jtag_release aj = (None, llops_output_disable aj)"

section \<open>Refused requests\<close>

lemma xfer_errors:
  assumes "aspeed_jtag_xfer aj x data = Some (Some e, data', aj')"
  shows "e = EFAULT"
  using assms by (auto simp: aspeed_jtag_xfer_def split: if_splits option.splits prod.splits)

text \<open>
  A request refused as invalid leaves no trace: whatever the command and its arguments,
  when \<^verbatim>\<open>jtag_ioctl\<close> returns \<^verbatim>\<open>EINVAL\<close> no register has been read or written, the state of the
  driver is the one before the call, and nothing is copied to the user.
\<close>

theorem ioctl_refused_is_silent:
  assumes "jtag_ioctl slack put_ok aj cmd arg = Some (Some EINVAL, r, aj')"
  shows "aj' = aj \<and> r = NoReply"
proof (cases "arg")
  case False
  with assms show ?thesis by (simp add: jtag_ioctl_def)
next
  case True
  show ?thesis
  proof (cases cmd)
    case (JTAG_SIOCFREQ v)
    then show ?thesis
      using assms True
      by (cases v; cases "aj_llops aj")
        (auto simp: jtag_ioctl_def ops_freq_set_def aspeed_jtag_freq_set_def
          aspeed_jtag_freq_set_26xx_def Let_def split: if_splits prod.splits)
  next
    case (JTAG_IOCXFER req data)
    then show ?thesis
      using assms True xfer_errors
      by (cases req) (fastforce simp: jtag_ioctl_def jtag_ioctl_xfer_def Let_def
          split: if_splits option.splits prod.splits)+
  qed (use assms True in \<open>auto simp: jtag_ioctl_def jtag_ioctl_state_def jtag_ioctl_bitbang_def
      aspeed_jtag_mode_set_def Let_def split: if_splits option.splits prod.splits\<close>)
qed

lemma ioctl_refused_is_silent_witness:
  "jtag_ioctl [] True reset_device (JTAG_SIOCSTATE (Some \<lparr>q_reset = 2, q_from = 0, q_endstate = 1\<rparr>)) True =
     Some (Some EINVAL, NoReply, reset_device) \<and> reset_device = reset_device \<and> NoReply = NoReply"
proof -
  have "jtag_ioctl [] True reset_device (JTAG_SIOCSTATE (Some \<lparr>q_reset = 2, q_from = 0, q_endstate = 1\<rparr>)) True =
     Some (Some EINVAL, NoReply, reset_device)"
    by (simp add: jtag_ioctl_def jtag_ioctl_state_def)
  with ioctl_refused_is_silent [OF this] show ?thesis by blast
qed

section \<open>A transfer, from the bytes of the user to the pins and back\<close>

lemma bit_le32:
  assumes "k < 32"
  shows "bit (le32 a b c d) k = bit ([a, b, c, d] ! (k div 8)) (k mod 8)"
proof -
  have no: "\<not> bit (x :: u8) i" if "8 \<le> i" for x i
    using bit_imp_le_length [of x i] that by auto
  consider "k < 8" | "8 \<le> k" "k < 16" | "16 \<le> k" "k < 24" | "24 \<le> k" by linarith
  then show ?thesis
  proof cases
    case 1
    then show ?thesis by (auto simp: le32_def bit_simps)
  next
    case 2
    then have "k div 8 = 1" "k mod 8 = k - 8" using div_mod_range [of 1 8 k] by simp_all
    with 2 assms no show ?thesis by (auto simp: le32_def bit_simps)
  next
    case 3
    then have "k div 8 = 2" "k mod 8 = k - 16" using div_mod_range [of 2 8 k] by simp_all
    with 3 assms no show ?thesis by (auto simp: le32_def bit_simps)
  next
    case 4
    then have "k div 8 = 3" "k mod 8 = k - 24" using assms div_mod_range [of 3 8 k] by simp_all
    with 4 assms no show ?thesis by (auto simp: le32_def bit_simps)
  qed
qed

lemma length_words_of_bytes: "length (words_of_bytes bs) = length bs div 4"
  by (induction bs rule: words_of_bytes.induct) simp_all

lemma dbit_words_of_bytes:
  "i < 32 * length (words_of_bytes bs) \<Longrightarrow> dbit (words_of_bytes bs) i = bbit bs i"
proof (induction bs arbitrary: i rule: words_of_bytes.induct)
  case (1 a b c d bs)
  show ?case
  proof (cases "i < 32")
    case True
    then have "i div 8 < 4" by (simp add: div_less_iff_less_mult)
    then have "(a # b # c # d # bs) ! (i div 8) = [a, b, c, d] ! (i div 8)"
      by (simp add: nth_Cons split: nat.splits)
    with True show ?thesis by (simp add: dbit_def bbit_def bit_le32)
  next
    case False
    then obtain j where j: "i = j + 32" by (metis add.commute le_add_diff_inverse not_less)
    note add_32 [of j]
    then show ?thesis
      using 1 j by (simp add: dbit_def bbit_def)
  qed
qed simp_all

lemma bit_byte_of_word: "k < 8 \<Longrightarrow> bit (ucast (drop_bit n (w :: u32)) :: u8) k = bit w (n + k)"
  by (auto simp: bit_simps dest: bit_imp_le_length)

lemma nth_bytes_of_word:
  assumes "q < 4"
  shows "bytes_of_words (w # ws) ! q = ucast (drop_bit (8 * q) w)"
proof -
  have "q = 0 \<or> q = 1 \<or> q = 2 \<or> q = 3" using assms by linarith
  then show ?thesis by (auto simp: bytes_of_words_def)
qed

lemma bbit_bytes_of_words:
  "i < 32 * length ws \<Longrightarrow> bbit (bytes_of_words ws) i = dbit ws i"
proof (induction ws arbitrary: i)
  case Nil
  then show ?case by simp
next
  case (Cons w ws)
  show ?case
  proof (cases "i < 32")
    case True
    define k where "k = i mod 8"
    have k: "k < 8" "i mod 8 = k" by (simp_all add: k_def)
    have i: "i div 32 = 0" "i mod 32 = i" using True by simp_all
    have q: "i div 8 < 4" using True by (simp add: div_less_iff_less_mult)
    then have "bytes_of_words (w # ws) ! (i div 8) = ucast (drop_bit (8 * (i div 8)) w)"
      by (rule nth_bytes_of_word)
    moreover have "bit (ucast (drop_bit (8 * (i div 8)) w) :: u8) k = bit w (8 * (i div 8) + k)"
      by (rule bit_byte_of_word [OF k(1)])
    ultimately show ?thesis
      by (simp add: bbit_def dbit_def i k(2)) (simp add: k_def)
  next
    case False
    then obtain j where j: "i = j + 32" by (metis add.commute le_add_diff_inverse not_less)
    note add_32 [of j]
    then show ?thesis
      using Cons j by (simp add: dbit_def bbit_def bytes_of_words_def)
  qed
qed

lemma restore_unused_bits:
  assumes "0 < unat len" "i < 8 * data_size len" "data_size len \<le> length new"
  shows "bbit (restore_unused len old new) i = (if i < unat len then bbit new i else bbit old i)"
proof -
  define L where "L = unat len"
  define d where "d = data_size len - 1"
  have L: "0 < L" using assms(1) by (simp add: L_def)
  have ds: "data_size len = (L + 7) div 8" by (simp add: data_size_def L_def)
  have "0 < (L + 7) div 8" using L by (simp add: div_greater_zero_iff)
  then have d: "data_size len = Suc d" "d < length new"
    using assms(3) unfolding d_def by (simp_all add: ds)
  have up: "8 * Suc d \<le> L + 7"
    using times_div_less_eq_dividend [of 8 "L + 7"] d(1) ds by simp
  have id: "i div 8 < Suc d"
    using assms(2) d(1) by (simp add: div_less_iff_less_mult mult.commute)
  show ?thesis
  proof (cases "i div 8 = d")
    case False
    then have "i div 8 < d" using id by simp
    then have "i < 8 * d" by (simp add: div_less_iff_less_mult mult.commute)
    then have "i < L" using up by simp
    with False d show ?thesis
      by (simp add: restore_unused_def bbit_def Let_def flip: L_def)
  next
    case True
    have k: "i mod 8 < 8" by simp
    show ?thesis
    proof (cases "L mod 8 = 0")
      case True
      then have "L = 8 * (L div 8)" using mult_div_mod_eq [of 8 L] by simp
      then have "(L + 7) div 8 = L div 8" "L = 8 * (L div 8)"
        using mult_add_div [of 7 8 "L div 8"] by simp_all
      then have "i < L" using assms(2) ds by simp
      with True \<open>i div 8 = d\<close> d k show ?thesis
        by (simp add: restore_unused_def bbit_def Let_def ubit_mask_def flip: L_def)
    next
      case False
      have "i < L \<longleftrightarrow> i mod 8 < L mod 8"
        using False True d(1) ds ceil8 [of L] by (intro less_same_byte) simp
      moreover have "bit (mask (L mod 8) :: u8) (i mod 8) \<longleftrightarrow> i mod 8 < L mod 8"
        by (simp add: bit_mask_iff)
      ultimately show ?thesis
        using False True d k
        by (auto simp: restore_unused_def bbit_def Let_def ubit_mask_def bit_simps simp flip: L_def)
    qed
  qed
qed

lemma length_restore_unused [simp]: "length (restore_unused len old new) = length new"
  by (simp add: restore_unused_def Let_def)

lemma tapstate_of_num_real: "n < 16 \<Longrightarrow> tapstate_of_num n \<noteq> JTAG_STATE_CURRENT"
proof -
  assume "n < 16"
  then have "unat n < 16" by (simp add: word_less_nat_alt)
  moreover have "length tapstates = 16" by (simp add: tapstates_def)
  ultimately have "tapstate_of_num n = tapstates ! unat n"
    by (simp add: tapstate_of_num_def nth_append)
  moreover have "tapstates ! unat n \<in> set tapstates"
    using \<open>unat n < 16\<close> \<open>length tapstates = 16\<close> by simp
  ultimately show ?thesis by (simp add: tapstates_complete)
qed

lemma length_bytes_of_words [simp]: "length (bytes_of_words ws) = 4 * length ws"
  by (induction ws) (simp_all add: bytes_of_words_def)

lemma pad_to_4:
  "n \<le> 4 * ((n + (4 - n mod 4) mod 4) div 4)"
  "4 * ((n + (4 - n mod 4) mod 4) div 4) = n + (4 - n mod 4) mod (4 :: nat)"
proof -
  define m r where "m = n div 4" and "r = n mod 4"
  have n: "n = 4 * m + r" "r < 4" by (simp_all add: m_def r_def)
  have "(n + (4 - n mod 4) mod 4) div 4 = (if r = 0 then m else Suc m)"
    using n by (auto intro!: div_nat_eqI)
  moreover have "(4 - n mod 4) mod 4 = (if r = 0 then 0 else 4 - r)"
    using n by auto
  ultimately show "n \<le> 4 * ((n + (4 - n mod 4) mod 4) div 4)"
    "4 * ((n + (4 - n mod 4) mod 4) div 4) = n + (4 - n mod 4) mod (4 :: nat)"
    using n by auto
qed

definition valid_scan :: "aspeed_jtag \<Rightarrow> jtag_tapstate \<Rightarrow> xfer_req \<Rightarrow> bool" where
  "valid_scan aj s q \<longleftrightarrow> \<not> hw_mode aj \<and> q_length q \<noteq> 0 \<and> unat (q_length q) < 65535 \<and>
     q_type q \<le> 1 \<and> q_direction q \<le> 3 \<and> q_xfrom q < 16 \<and> q_xendstate q < 16 \<and>
     tap_of s aj = tapstate_of_num (q_xfrom q)"

lemma ioctl_xfer_run:
  fixes q :: xfer_req
  defines "n \<equiv> unat (q_length q)" and "x \<equiv> xfer_of_req q"
  assumes "valid_scan aj s q" "data_size (q_length q) \<le> length bytes" "3 \<le> length slack"
  shows "\<exists>out aj' pre post pres posts bs.
    jtag_ioctl slack True aj (JTAG_IOCXFER (Some q) (Some bytes)) True = Some (None, Bytes out, aj') \<and>
    clocks aj' = clocks aj @ map (\<lambda>t. (t, False)) pre @
      map (\<lambda>i. (Suc i = n \<and> x_endstate x \<noteq> shift_state (x_type x), writes x \<longrightarrow> bbit bytes i)) [0 ..< n] @
      map (\<lambda>t. (t, False)) post \<and>
    tap_run (tap_of s aj) pre = shift_state (x_type x) \<and> tap_of s aj' = tapstate_of_num (q_xendstate q) \<and>
    tdos aj' = tdos aj @ pres @ bs @ posts \<and> length pres = length pre \<and> length posts = length post \<and>
    length bs = n \<and> (\<forall>i < n. bbit out i = bs ! i) \<and>
    (\<forall>i. n \<le> i \<and> i < 8 * data_size (q_length q) \<longrightarrow> bbit out i = bbit bytes i) \<and>
    length out = data_size (q_length q) \<and> (tapstate_of_num (q_xfrom q) = shift_state (x_type x) \<longrightarrow> pre = []) \<and>
    (x_endstate x = shift_state (x_type x) \<longrightarrow> post = []) \<and>
    aj_mode aj' = aj_mode aj \<and> aj_llops aj' = aj_llops aj"
proof -
  let ?ds = "data_size (q_length q)"
  let ?buf = "take ?ds bytes @ take ((4 - ?ds mod 4) mod 4) slack"
  let ?words = "words_of_bytes ?buf"
  let ?aj = "aspeed_jtag_write (SW_MODE_EN OR SW_MODE_TDIO) ASPEED_JTAG_SW aj"
  have n: "0 < n" "n < 65535"
    using assms(3) by (auto simp: valid_scan_def n_def unat_gt_0)
  have ds: "n \<le> 8 * ?ds" "0 < ?ds"
    using n(1) ceil8 [of n] mult_div_mod_eq [of 8 n] mod_less_divisor [of 8 n]
    by (cases "n mod 8 = 0"; simp add: data_size_def flip: n_def)+
  have pad: "(4 - ?ds mod 4) mod 4 \<le> length slack"
    using assms(5) mod_less_divisor [of 4 "4 - ?ds mod 4"] by linarith
  have buf: "length ?buf = ?ds + (4 - ?ds mod 4) mod 4"
    using assms(4) pad by simp
  have len: "?ds \<le> 4 * length ?words" "4 * length ?words = length ?buf"
    unfolding length_words_of_bytes buf by (rule pad_to_4)+
  have x: "x_length x = n" "x_from x = tapstate_of_num (q_xfrom q)"
      "x_endstate x = tapstate_of_num (q_xendstate q)"
    by (simp_all add: x_def xfer_of_req_def n_def)
  have real: "real_from ?aj (x_from x) = x_from x" "x_from x \<noteq> JTAG_STATE_CURRENT"
      "x_endstate x \<noteq> JTAG_STATE_CURRENT"
    using assms(3) tapstate_of_num_real by (auto simp: valid_scan_def x real_from_def)
  have w: "clocks ?aj = clocks aj" "tdos ?aj = tdos aj"
    by simp_all
  then have tap: "tap_of s ?aj = tap_of s aj" by (simp add: tap_of_def)
  have le: "x_length x \<le> 32 * length ?words" "0 < x_length x"
    using len ds n x by linarith+
  have here: "tap_of s ?aj = real_from ?aj (x_from x)"
    using assms(3) tap real x by (simp add: valid_scan_def)
  have known: "real_from ?aj (x_from x) \<noteq> JTAG_STATE_CURRENT"
    using real by simp
  obtain data' aj' pre post pres posts bs where run:
    "aspeed_jtag_xfer_sw ?aj x ?words = Some (data', aj')"
    "clocks aj' = clocks ?aj @ map (\<lambda>t. (t, False)) pre @ scan_clocks x ?words @ map (\<lambda>t. (t, False)) post"
    "tap_run (tap_of s ?aj) pre = shift_state (x_type x)" "tap_of s aj' = x_endstate x"
    "tdos aj' = tdos ?aj @ pres @ bs @ posts" "length pres = length pre" "length posts = length post"
    "length bs = x_length x" "\<forall>i < x_length x. dbit data' i = bs ! i" "length data' = length ?words"
    "real_from ?aj (x_from x) = shift_state (x_type x) \<longrightarrow> pre = []"
    "x_endstate x = shift_state (x_type x) \<longrightarrow> post = []"
    "aj_mode aj' = aj_mode ?aj" "aj_llops aj' = aj_llops ?aj"
    by (insert xfer_sw_run [OF known real(3) here le(2) le(1)], elim exE conjE) (rule that; assumption)
  have scan: "scan_clocks x ?words =
      map (\<lambda>i. (Suc i = n \<and> x_endstate x \<noteq> shift_state (x_type x), writes x \<longrightarrow> bbit bytes i)) [0 ..< n]"
  proof -
    have "dbit ?words i = bbit bytes i" if "i < n" for i
    proof -
      have "i div 8 < ?ds" using that ds(1) by (simp add: div_less_iff_less_mult mult.commute)
      then show ?thesis
        using that le(1) x assms(4) by (simp add: dbit_words_of_bytes bbit_def nth_append)
    qed
    then show ?thesis by (simp add: scan_clocks_def scan_bit_def x)
  qed
  let ?new = "take ?ds (bytes_of_words data')"
  let ?out = "restore_unused (q_length q) bytes ?new"
  have new_len: "?ds \<le> length ?new"
    using len(1) run(10) by (simp add: length_bytes_of_words)
  have out: "bbit ?out i = (if i < n then bbit ?new i else bbit bytes i)" if "i < 8 * ?ds" for i
    using restore_unused_bits [of "q_length q" i ?new bytes] that n(1) new_len by (simp add: n_def)
  have new: "bbit ?new i = bs ! i" if "i < n" for i
  proof -
    have "i div 8 < ?ds" using that ds(1) by (simp add: div_less_iff_less_mult mult.commute)
    then have "bbit ?new i = bbit (bytes_of_words data') i" by (simp add: bbit_def)
    also have "\<dots> = dbit data' i"
      using that le x run(10) by (intro bbit_bytes_of_words) simp
    finally show ?thesis using run(9) that x by simp
  qed
  have call: "jtag_ioctl slack True aj (JTAG_IOCXFER (Some q) (Some bytes)) True =
      Some (None, Bytes ?out, aj'\<lparr>aj_status := x_endstate x\<rparr>)"
    using assms(3) run(1) ds(2) n
    by (simp add: jtag_ioctl_def jtag_ioctl_xfer_def valid_scan_def aspeed_jtag_xfer_def Let_def
        n_def x_def word_le_nat_alt word_less_nat_alt)
  define out where "out = ?out"
  have "\<forall>i < n. bbit out i = bs ! i"
    using out new ds(1) by (simp add: out_def)
  moreover have "\<forall>i. n \<le> i \<and> i < 8 * ?ds \<longrightarrow> bbit out i = bbit bytes i"
    using out by (simp add: out_def)
  moreover have "jtag_ioctl slack True aj (JTAG_IOCXFER (Some q) (Some bytes)) True =
      Some (None, Bytes out, aj'\<lparr>aj_status := x_endstate x\<rparr>)"
    unfolding out_def by (rule call)
  moreover have "clocks (aj'\<lparr>aj_status := x_endstate x\<rparr>) = clocks aj @ map (\<lambda>t. (t, False)) pre @
      map (\<lambda>i. (Suc i = n \<and> x_endstate x \<noteq> shift_state (x_type x), writes x \<longrightarrow> bbit bytes i)) [0 ..< n] @
      map (\<lambda>t. (t, False)) post"
    using run(2) unfolding w scan by simp
  moreover have "tap_run (tap_of s aj) pre = shift_state (x_type x)"
    "tap_of s (aj'\<lparr>aj_status := x_endstate x\<rparr>) = tapstate_of_num (q_xendstate q)"
    "tdos (aj'\<lparr>aj_status := x_endstate x\<rparr>) = tdos aj @ pres @ bs @ posts" "length bs = n"
    using run(3-5,8) tap w x by simp_all
  moreover have "length out = ?ds"
    using len(1) run(10) by (simp add: out_def)
  moreover have "tapstate_of_num (q_xfrom q) = shift_state (x_type x) \<longrightarrow> pre = []"
    using run(11) real x by simp
  moreover have "aj_mode (aj'\<lparr>aj_status := x_endstate x\<rparr>) = aj_mode aj"
      "aj_llops (aj'\<lparr>aj_status := x_endstate x\<rparr>) = aj_llops aj"
    using run(13,14) only_log_fields [OF only_log_io(1)] by simp_all
  ultimately show ?thesis
    using run(6,7,12) by blast
qed

text \<open>
  C19. What a transfer in software mode does, from the bytes the user hands to the kernel to the
  pins and back. For every valid request, with the device in the state the request starts from,
  the call succeeds; the bits of the user's bytes (ones, for a read) are the TDI levels of the
  clocks of the scan, in order; the device ends in the requested state; bit \<open>i\<close> of the answer is
  the TDO sample of clock \<open>i\<close>; and the bits of the last byte beyond the transfer are the user's
  own, whatever the memory behind the buffer holds.
\<close>

theorem ioctl_xfer_scans:
  fixes q :: xfer_req
  defines "n \<equiv> unat (q_length q)" and "x \<equiv> xfer_of_req q"
  assumes "valid_scan aj s q" "data_size (q_length q) \<le> length bytes" "3 \<le> length slack"
  shows "\<exists>out aj' pre post pres posts bs.
    jtag_ioctl slack True aj (JTAG_IOCXFER (Some q) (Some bytes)) True = Some (None, Bytes out, aj') \<and>
    clocks aj' = clocks aj @ map (\<lambda>t. (t, False)) pre @
      map (\<lambda>i. (Suc i = n \<and> x_endstate x \<noteq> shift_state (x_type x), writes x \<longrightarrow> bbit bytes i)) [0 ..< n] @
      map (\<lambda>t. (t, False)) post \<and>
    tap_run (tap_of s aj) pre = shift_state (x_type x) \<and> tap_of s aj' = tapstate_of_num (q_xendstate q) \<and>
    tdos aj' = tdos aj @ pres @ bs @ posts \<and> length pres = length pre \<and> length posts = length post \<and>
    length bs = n \<and> (\<forall>i < n. bbit out i = bs ! i) \<and>
    (\<forall>i. n \<le> i \<and> i < 8 * data_size (q_length q) \<longrightarrow> bbit out i = bbit bytes i)"
  using ioctl_xfer_run [OF assms(3-5)] unfolding n_def x_def by blast

lemma ioctl_xfer_scans_witness:
  defines "q \<equiv> \<lparr>q_type = 1, q_direction = 3, q_xfrom = 0, q_xendstate = 6, q_padding = 0, q_length = 13\<rparr>"
  shows "\<exists>out aj' pre post pres posts bs.
    jtag_ioctl [1, 2, 3] True reset_device (JTAG_IOCXFER (Some q) (Some [0xA5, 0xFF])) True =
      Some (None, Bytes out, aj') \<and>
    clocks aj' = clocks reset_device @ map (\<lambda>t. (t, False)) pre @
      map (\<lambda>i. (Suc i = unat (q_length q) \<and> x_endstate (xfer_of_req q) \<noteq> shift_state (x_type (xfer_of_req q)),
        writes (xfer_of_req q) \<longrightarrow> bbit [0xA5, 0xFF] i)) [0 ..< unat (q_length q)] @
      map (\<lambda>t. (t, False)) post \<and>
    tap_run (tap_of JTAG_STATE_TLRESET reset_device) pre = shift_state (x_type (xfer_of_req q)) \<and>
    tap_of JTAG_STATE_TLRESET aj' = tapstate_of_num (q_xendstate q) \<and>
    tdos aj' = tdos reset_device @ pres @ bs @ posts \<and> length pres = length pre \<and>
    length posts = length post \<and>
    length bs = unat (q_length q) \<and> (\<forall>i < unat (q_length q). bbit out i = bs ! i) \<and>
    (\<forall>i. unat (q_length q) \<le> i \<and> i < 8 * data_size (q_length q) \<longrightarrow> bbit out i = bbit [0xA5, 0xFF] i)"
  by (rule ioctl_xfer_scans)
    (simp_all add: q_def valid_scan_def data_size_def hw_mode_def tapstate_of_num_def tapstates_def)

section \<open>A request the checks let through\<close>

text \<open>
  The checks accept \<^verbatim>\<open>JTAG_STATE_CURRENT\<close> as the end state of a transfer, but in software
  mode the driver then indexes its 16 by 16 table with 16: such a request is never refused,
  it reads outside of the table, whatever else it asks for and whatever state the port is in.
\<close>

theorem xfer_to_current_is_wild:
  assumes "\<not> hw_mode aj" "unat (q_length q) < 65535" "q_type q \<le> 1" "q_direction q \<le> 3"
    and "q_xfrom q \<le> 16" "q_xendstate q = 16"
  shows "jtag_ioctl slack put_ok aj (JTAG_IOCXFER (Some q) (Some bytes)) True = None"
proof -
  have "tapstate_of_num 16 = JTAG_STATE_CURRENT"
    by (simp add: tapstate_of_num_def tapstates_def)
  then have x: "x_endstate (xfer_of_req q) = JTAG_STATE_CURRENT"
    using assms(6) by (simp add: xfer_of_req_def)
  have "aspeed_jtag_set_tap_state aj' src JTAG_STATE_CURRENT = None" for aj' src
    by (cases "tms_lookup (if src = JTAG_STATE_CURRENT then aj_status aj' else src) JTAG_STATE_CURRENT")
      (simp_all add: aspeed_jtag_set_tap_state_def tms_lookup_def)
  moreover have "shift_state ty \<noteq> JTAG_STATE_CURRENT" for ty
    by (cases ty) (simp_all add: shift_state_def)
  ultimately have wild: "aspeed_jtag_xfer_sw aj' (xfer_of_req q) data = None" for aj' data
    unfolding aspeed_jtag_xfer_sw_def x Let_def
    by (auto split: option.split prod.split dest: sym)
  have "aspeed_jtag_xfer aj (xfer_of_req q) data = None" for data
    using assms(1) by (simp add: aspeed_jtag_xfer_def wild)
  then show ?thesis
    using assms(2-6)
    by (simp add: jtag_ioctl_def jtag_ioctl_xfer_def Let_def not_less)
qed

lemma xfer_to_current_is_wild_witness:
  "jtag_ioctl [0, 0, 0] True reset_device (JTAG_IOCXFER (Some \<lparr>q_type = 1, q_direction = 3, q_xfrom = 0,
     q_xendstate = 16, q_padding = 0, q_length = 8\<rparr>) (Some [0])) True = None"
  by (rule xfer_to_current_is_wild) (simp_all add: hw_mode_def data_size_def)

end
