(* ===== verification/Jtag_Handler.thy ===== *)
theory Jtag_Handler
  imports Jtag_Ioctl Asd_Message
begin

text \<open>
  The JTAG handler of the server, \<^verbatim>\<open>jtag_handler.c\<close> (built for the character device of
  \<^verbatim>\<open>Jtag_Ioctl\<close>, that is without \<^verbatim>\<open>JTAG_LEGACY_DRIVER\<close>): the scan chains with their padding, moving the
  TAP, shifting and waiting. The handler is a client of the device: what it relies on is the
  locale \<open>jtag_device\<close>, and the driver model is an interpretation of it. The lemmas show that the
  state the handler records is the one of the device, and which bits a shift with its
  padding puts on the pins.
\<close>

section \<open>The handler\<close>

datatype JTAGPaddingTypes =
  JTAGPaddingTypes_IRPre | JTAGPaddingTypes_IRPost | JTAGPaddingTypes_DRPre | JTAGPaddingTypes_DRPost

datatype JTAGScanState = JTAGScanState_Done | JTAGScanState_Run

record JTAGShiftPadding =
  drPre :: nat
  drPost :: nat
  irPre :: nat
  irPost :: nat

record JTAG_Chain_State =
  tap_state :: jtag_tapstate
  shift_padding :: JTAGShiftPadding
  scan_state :: JTAGScanState

text \<open>\<open>active_chain\<close> is the index of the chain the pointer of the source points to.\<close>

record JTAG_Handler =
  chains :: "JTAG_Chain_State list"
  active_chain :: nat
  padDataOne :: "u8 list"
  padDataZero :: "u8 list"
  bitbang_data :: "tck_bitbang list"
  JTAG_driver_handle :: int
  sw_mode :: bool

abbreviation (input) "MAX_SCAN_CHAINS \<equiv> 2 :: nat"
abbreviation (input) "DRMAXPADSIZE \<equiv> 250 :: nat"
abbreviation (input) "IRMAXPADSIZE \<equiv> 2000 :: nat"
abbreviation (input) "MAX_WAIT_CYCLES \<equiv> 256 :: nat"
abbreviation (input) "APB_FREQ \<equiv> 24740000 :: nat"

text \<open>
  The system calls on the device: \<^verbatim>\<open>open\<close> with its descriptor or -1, \<^verbatim>\<open>close\<close> and \<^verbatim>\<open>ioctl\<close>; a fault of
  the kernel is \<^const>\<open>None\<close>.
\<close>

record 'd jtag_port =
  port_open :: "'d \<Rightarrow> int \<times> 'd"
  port_close :: "int \<Rightarrow> 'd \<Rightarrow> 'd"
  port_ioctl :: "int \<Rightarrow> ioctl_cmd \<Rightarrow> 'd \<Rightarrow> (errno option \<times> reply \<times> 'd) option"

definition no_padding :: JTAGShiftPadding where
  "no_padding = \<lparr>drPre = 0, drPost = 0, irPre = 0, irPost = 0\<rparr>"

definition initialize_jtag_chains :: "JTAG_Handler \<Rightarrow> JTAG_Handler" where
  "initialize_jtag_chains h = h\<lparr>chains := map (\<lambda>_. \<lparr>tap_state = JTAG_STATE_TLRESET,
     shift_padding = no_padding, scan_state = JTAGScanState_Done\<rparr>) [0 ..< MAX_SCAN_CHAINS]\<rparr>"

text \<open>\<open>garbage\<close> is what \<^verbatim>\<open>malloc\<close> left behind; of it only the unused \<^verbatim>\<open>tdo\<close> fields survive.\<close>

definition JTAGHandler :: "JTAG_Handler \<Rightarrow> JTAG_Handler" where
  "JTAGHandler garbage =
     (initialize_jtag_chains (garbage\<lparr>active_chain := 0\<rparr>))\<lparr>sw_mode := True,
        padDataOne := replicate (IRMAXPADSIZE div 8) 0xFF,
        padDataZero := replicate (IRMAXPADSIZE div 8) 0,
        JTAG_driver_handle := -1,
        bitbang_data := map (\<lambda>b. b\<lparr>bb_tms := 0, bb_tdi := 0\<rparr>) (bitbang_data garbage)\<rparr>"

definition active :: "JTAG_Handler \<Rightarrow> JTAG_Chain_State" where
  "active h = chains h ! active_chain h"

definition upd_active :: "(JTAG_Chain_State \<Rightarrow> JTAG_Chain_State) \<Rightarrow> JTAG_Handler \<Rightarrow> JTAG_Handler" where
  "upd_active f h = h\<lparr>chains := (chains h)[active_chain h := f (active h)]\<rparr>"

definition JTAG_wait_cycles :: "'d jtag_port \<Rightarrow> nat \<Rightarrow> JTAG_Handler \<Rightarrow> 'd \<Rightarrow> (JTAG_Handler \<times> 'd) outcome" where
  "JTAG_wait_cycles port number_of_cycles h d =
     (if number_of_cycles > MAX_WAIT_CYCLES then Some (ST_ERR, h, d)
      else case port_ioctl port (JTAG_driver_handle h)
                  (JTAG_IOCBITBANG (Some (of_nat number_of_cycles)) (Some (bitbang_data h))) d of
             None \<Rightarrow> None
           | Some (Some e, _, d) \<Rightarrow> Some (ST_ERR, h, d)
           | Some (None, r, d) \<Rightarrow>
               Some (ST_OK, h\<lparr>bitbang_data := (case r of Bits bs \<Rightarrow> bs @ drop (length bs) (bitbang_data h)
                                                       | _ \<Rightarrow> bitbang_data h)\<rparr>, d))"

definition JTAG_set_tap_state :: "'d jtag_port \<Rightarrow> jtag_tapstate \<Rightarrow> JTAG_Handler \<Rightarrow> 'd
    \<Rightarrow> (JTAG_Handler \<times> 'd) outcome" where
  "JTAG_set_tap_state port tap h d =
     (case port_ioctl port (JTAG_driver_handle h)
             (JTAG_SIOCSTATE (Some \<lparr>q_reset = (if tap = JTAG_STATE_TLRESET then 1 else 0),
                q_from = of_nat (tapstate_num (tap_state (active h))),
                q_endstate = of_nat (tapstate_num tap)\<rparr>)) d of
        None \<Rightarrow> None
      | Some (Some e, _, d) \<Rightarrow> Some (ST_ERR, h, d)
      | Some (None, _, d) \<Rightarrow>
          let h = upd_active (\<lambda>c. c\<lparr>tap_state := tap\<rparr>) h
          in if tap = JTAG_STATE_IDLE \<or> tap = JTAG_STATE_PAUSEDR
             then and_then (JTAG_wait_cycles port 5 h d) (\<lambda>(h, d). Some (ST_OK, h, d))
             else Some (ST_OK, h, d))"

definition JTAG_tap_reset :: "'d jtag_port \<Rightarrow> JTAG_Handler \<Rightarrow> 'd \<Rightarrow> (JTAG_Handler \<times> 'd) outcome" where
  "JTAG_tap_reset port h d = JTAG_set_tap_state port JTAG_STATE_TLRESET h d"

definition JTAG_get_tap_state :: "JTAG_Handler \<Rightarrow> jtag_tapstate" where
  "JTAG_get_tap_state h = tap_state (active h)"

text \<open>A failing step of the initialisation closes the device again.\<close>

definition JTAG_give_up :: "'d jtag_port \<Rightarrow> JTAG_Handler \<Rightarrow> 'd \<Rightarrow> (JTAG_Handler \<times> 'd) outcome" where
  "JTAG_give_up port h d =
     Some (ST_ERR, h\<lparr>JTAG_driver_handle := -1\<rparr>, port_close port (JTAG_driver_handle h) d)"

definition JTAG_initialize :: "'d jtag_port \<Rightarrow> bool \<Rightarrow> JTAG_Handler \<Rightarrow> 'd \<Rightarrow> (JTAG_Handler \<times> 'd) outcome" where
  "JTAG_initialize port sw h d =
     (let h = h\<lparr>sw_mode := sw\<rparr>; (fd, d) = port_open port d; h = h\<lparr>JTAG_driver_handle := fd\<rparr>
      in if fd = -1 then Some (ST_ERR, h, d)
         else case port_ioctl port fd
                     (JTAG_SIOCMODE (Some \<lparr>jm_feature = 0, jm_mode = (if sw then 0 else 1)\<rparr>)) d of
                None \<Rightarrow> None
              | Some (Some e, _, d) \<Rightarrow> JTAG_give_up port h d
              | Some (None, _, d) \<Rightarrow>
                  (case JTAG_set_tap_state port JTAG_STATE_TLRESET h d of
                     None \<Rightarrow> None
                   | Some (st, h, d) \<Rightarrow>
                       if st \<noteq> ST_OK then JTAG_give_up port h d
                       else Some (ST_OK, initialize_jtag_chains h, d)))"

definition JTAG_deinitialize :: "'d jtag_port \<Rightarrow> JTAG_Handler \<Rightarrow> 'd \<Rightarrow> status \<times> JTAG_Handler \<times> 'd" where
  "JTAG_deinitialize port h d =
     (ST_OK, h\<lparr>JTAG_driver_handle := -1\<rparr>, port_close port (JTAG_driver_handle h) d)"

definition JTAG_set_padding :: "JTAGPaddingTypes \<Rightarrow> nat \<Rightarrow> JTAG_Handler \<Rightarrow> status \<times> JTAG_Handler" where
  "JTAG_set_padding padding value h =
     (if padding \<in> {JTAGPaddingTypes_DRPre, JTAGPaddingTypes_DRPost} \<and> value > DRMAXPADSIZE
      then (ST_ERR, h)
      else if padding \<in> {JTAGPaddingTypes_IRPre, JTAGPaddingTypes_IRPost} \<and> value > IRMAXPADSIZE
      then (ST_ERR, h)
      else (ST_OK, upd_active (\<lambda>c. c\<lparr>shift_padding := (case padding of
              JTAGPaddingTypes_DRPre \<Rightarrow> (shift_padding c)\<lparr>drPre := value\<rparr>
            | JTAGPaddingTypes_DRPost \<Rightarrow> (shift_padding c)\<lparr>drPost := value\<rparr>
            | JTAGPaddingTypes_IRPre \<Rightarrow> (shift_padding c)\<lparr>irPre := value\<rparr>
            | JTAGPaddingTypes_IRPost \<Rightarrow> (shift_padding c)\<lparr>irPost := value\<rparr>)\<rparr>) h))"

definition JTAG_set_active_chain :: "int \<Rightarrow> JTAG_Handler \<Rightarrow> status \<times> JTAG_Handler" where
  "JTAG_set_active_chain chain h =
     (if chain < 0 \<or> chain \<ge> int MAX_SCAN_CHAINS then (ST_ERR, h)
      else (ST_OK, h\<lparr>active_chain := nat chain\<rparr>))"

text \<open>A divisor of zero traps.\<close>

definition JTAG_set_jtag_tck :: "'d jtag_port \<Rightarrow> nat \<Rightarrow> JTAG_Handler \<Rightarrow> 'd \<Rightarrow> (JTAG_Handler \<times> 'd) outcome" where
  "JTAG_set_jtag_tck port tck h d =
     (if tck = 0 then None
      else case port_ioctl port (JTAG_driver_handle h) (JTAG_SIOCFREQ (Some (of_nat (APB_FREQ div tck)))) d of
             None \<Rightarrow> None
           | Some (Some e, _, d) \<Rightarrow> Some (ST_ERR, h, d)
           | Some (None, _, d) \<Rightarrow> Some (ST_OK, h, d))"

section \<open>Shifting\<close>

text \<open>
  \<open>junk\<close> is what the stack holds when a shift runs: the contents of \<^verbatim>\<open>tdio\<close> and the padding field that
  \<^verbatim>\<open>perform_shift\<close> does not set. A null \<open>input\<close> or \<open>output\<close> pointer is \<^const>\<open>None\<close>, and an \<open>output\<close> is the
  memory from its pointer on. The number of input bytes only matters for the debug log.
\<close>

type_synonym 'd junk = "'d \<Rightarrow> u8 list \<times> u32"

type_synonym 'd shift_state = "u8 list option \<times> JTAG_Handler \<times> 'd"

definition div_round_up8 :: "nat \<Rightarrow> nat" where
  "div_round_up8 n = (n + 7) div 8"

definition xfer_buffer :: "u8 list \<Rightarrow> nat \<Rightarrow> u8 list option \<Rightarrow> nat \<Rightarrow> u8 list option \<Rightarrow> u8 list" where
  "xfer_buffer tdio number_of_bits input output_bytes output =
     (let n = div_round_up8 number_of_bits
      in case output of
           Some bs \<Rightarrow> snd (memcpy_s bs output_bytes (map_option (take n) input) n)
         | None \<Rightarrow> snd (memcpy_s tdio n (map_option (take n) input) n))"

definition xfer_ioctl :: "'d jtag_port \<Rightarrow> xfer_req \<Rightarrow> u8 list \<Rightarrow> u8 list option \<Rightarrow> jtag_tapstate
    \<Rightarrow> JTAG_Handler \<Rightarrow> 'd \<Rightarrow> 'd shift_state outcome" where
  "xfer_ioctl port req buf output end_tap_state h d =
     (case port_ioctl port (JTAG_driver_handle h) (JTAG_IOCXFER (Some req) (Some buf)) d of
        None \<Rightarrow> None
      | Some (Some e, _, d) \<Rightarrow> Some (ST_ERR, map_option (\<lambda>_. buf) output, h, d)
      | Some (None, r, d) \<Rightarrow>
          (let buf = (case r of Bytes bs \<Rightarrow> bs @ drop (length bs) buf | _ \<Rightarrow> buf)
           in Some (ST_OK, map_option (\<lambda>_. buf) output,
                upd_active (\<lambda>c. c\<lparr>tap_state := end_tap_state\<rparr>) h, d)))"

definition perform_shift :: "'d junk \<Rightarrow> 'd jtag_port \<Rightarrow> nat \<Rightarrow> u8 list option \<Rightarrow> nat \<Rightarrow> u8 list option
    \<Rightarrow> jtag_tapstate \<Rightarrow> jtag_tapstate \<Rightarrow> JTAG_Handler \<Rightarrow> 'd \<Rightarrow> 'd shift_state outcome" where
  "perform_shift junk port number_of_bits input output_bytes output current_tap_state end_tap_state h d =
     (let (tdio, padding) = junk d
      in xfer_ioctl port
           \<lparr>q_type = (if current_tap_state = JTAG_STATE_SHIFTIR then 0 else 1), q_direction = 3,
            q_xfrom = of_nat (tapstate_num current_tap_state),
            q_xendstate = of_nat (tapstate_num end_tap_state),
            q_padding = padding, q_length = of_nat number_of_bits\<rparr>
           (xfer_buffer tdio number_of_bits input output_bytes output) output end_tap_state h d)"

text \<open>The assignments to the bit fields of \<^verbatim>\<open>union pad_config\<close>, which starts as zero.\<close>

definition pad_word :: "nat \<Rightarrow> nat \<Rightarrow> bool \<Rightarrow> u32" where
  "pad_word pre post ones =
     of_nat (pre mod 4096) OR push_bit 12 (of_nat (post mod 4096)) OR push_bit 24 (of_bool ones)"

definition JTAG_shift_hw :: "'d junk \<Rightarrow> 'd jtag_port \<Rightarrow> nat \<Rightarrow> u8 list option \<Rightarrow> nat \<Rightarrow> u8 list option
    \<Rightarrow> jtag_tapstate \<Rightarrow> JTAG_Handler \<Rightarrow> 'd \<Rightarrow> 'd shift_state outcome" where
  "JTAG_shift_hw junk port number_of_bits input output_bytes output end_tap_state h d =
     (let current_state = JTAG_get_tap_state h; pads = shift_padding (active h)
      in if current_state \<notin> {JTAG_STATE_SHIFTIR, JTAG_STATE_SHIFTDR} then Some (ST_ERR, output, h, d)
         else
           let ir = (current_state = JTAG_STATE_SHIFTIR);
               first = (scan_state (active h) = JTAGScanState_Done);
               pre = (if first then if ir then irPre pads else drPre pads else 0);
               post = (if current_state = end_tap_state then 0 else if ir then irPost pads else drPost pads);
               h = (if first then upd_active (\<lambda>c. c\<lparr>scan_state := JTAGScanState_Run\<rparr>) h else h);
               h = (if current_state = end_tap_state then h
                    else upd_active (\<lambda>c. c\<lparr>scan_state := JTAGScanState_Done\<rparr>) h)
           in xfer_ioctl port
                \<lparr>q_type = (if ir then 0 else 1), q_direction = 3,
                 q_xfrom = of_nat (tapstate_num current_state),
                 q_xendstate = of_nat (tapstate_num end_tap_state),
                 q_padding = pad_word pre post ir, q_length = of_nat number_of_bits\<rparr>
                (xfer_buffer (fst (junk d)) number_of_bits input output_bytes output) output
                end_tap_state h d)"

text \<open>The prefix, the bits and the postfix; the padding is shifted from its own buffer.\<close>

definition pad_shift :: "'d junk \<Rightarrow> 'd jtag_port \<Rightarrow> nat \<Rightarrow> u8 list \<Rightarrow> jtag_tapstate \<Rightarrow> jtag_tapstate
    \<Rightarrow> 'd shift_state \<Rightarrow> 'd shift_state outcome" where
  "pad_shift junk port n padData current_state end_tap_state = (\<lambda>(output, h, d).
     map_option (\<lambda>(st, _, h, d). (st, output, h, d))
       (perform_shift junk port n (Some padData) 0 None current_state end_tap_state h d))"

definition shift_prefix :: "'d junk \<Rightarrow> 'd jtag_port \<Rightarrow> nat \<Rightarrow> u8 list \<Rightarrow> jtag_tapstate \<Rightarrow> u8 list option
    \<Rightarrow> JTAG_Handler \<Rightarrow> 'd \<Rightarrow> 'd shift_state outcome" where
  "shift_prefix junk port preFix padData current_state output h d =
     (if scan_state (active h) = JTAGScanState_Done
      then let h = upd_active (\<lambda>c. c\<lparr>scan_state := JTAGScanState_Run\<rparr>) h
           in if preFix \<noteq> 0
              then and_then (pad_shift junk port preFix padData current_state current_state (output, h, d))
                     (\<lambda>x. Some (ST_OK, x))
              else Some (ST_OK, output, h, d)
      else Some (ST_OK, output, h, d))"

definition shift_rest :: "'d junk \<Rightarrow> 'd jtag_port \<Rightarrow> nat \<Rightarrow> u8 list \<Rightarrow> nat \<Rightarrow> u8 list option \<Rightarrow> nat
    \<Rightarrow> jtag_tapstate \<Rightarrow> jtag_tapstate \<Rightarrow> 'd shift_state \<Rightarrow> 'd shift_state outcome" where
  "shift_rest junk port postFix padData number_of_bits input output_bytes current_state end_tap_state =
     (\<lambda>(output, h, d).
        if postFix \<noteq> 0 \<and> current_state \<noteq> end_tap_state
        then let h = upd_active (\<lambda>c. c\<lparr>scan_state := JTAGScanState_Done\<rparr>) h
             in and_then (perform_shift junk port number_of_bits input output_bytes output
                            current_state current_state h d)
                  (\<lambda>x. and_then (pad_shift junk port postFix padData current_state end_tap_state x)
                           (\<lambda>x. Some (ST_OK, x)))
        else and_then (perform_shift junk port number_of_bits input output_bytes output
                         current_state end_tap_state h d)
               (\<lambda>(output, h, d).
                  Some (ST_OK, output,
                    if current_state \<noteq> end_tap_state
                    then upd_active (\<lambda>c. c\<lparr>scan_state := JTAGScanState_Done\<rparr>) h else h, d)))"

definition JTAG_shift :: "'d junk \<Rightarrow> 'd jtag_port \<Rightarrow> nat \<Rightarrow> u8 list option \<Rightarrow> nat \<Rightarrow> u8 list option
    \<Rightarrow> jtag_tapstate \<Rightarrow> JTAG_Handler \<Rightarrow> 'd \<Rightarrow> 'd shift_state outcome" where
  "JTAG_shift junk port number_of_bits input output_bytes output end_tap_state h d =
     (if \<not> sw_mode h then JTAG_shift_hw junk port number_of_bits input output_bytes output end_tap_state h d
      else
        let current_state = JTAG_get_tap_state h; pads = shift_padding (active h)
        in if current_state \<notin> {JTAG_STATE_SHIFTIR, JTAG_STATE_SHIFTDR} then Some (ST_ERR, output, h, d)
           else
             let ir = (current_state = JTAG_STATE_SHIFTIR);
                 preFix = (if ir then irPre pads else drPre pads);
                 postFix = (if ir then irPost pads else drPost pads);
                 padData = (if ir then padDataOne h else padDataZero h)
             in and_then (shift_prefix junk port preFix padData current_state output h d)
                  (shift_rest junk port postFix padData number_of_bits input output_bytes
                     current_state end_tap_state))"

section \<open>What the handler relies on\<close>

text \<open>
  The contract of an open device in software mode, over the state \<open>tap\<close> of the scan chain's port, its
  clocks and the samples taken from it.
\<close>

definition scan_trace :: "bool \<Rightarrow> (nat \<Rightarrow> bool) \<Rightarrow> nat \<Rightarrow> (bool \<times> bool) list" where
  "scan_trace leave f n = map (\<lambda>i. (Suc i = n \<and> leave, f i)) [0 ..< n]"

definition moves :: "bool list \<Rightarrow> (bool \<times> bool) list" where
  "moves tms = map (\<lambda>t. (t, False)) tms"

lemma scan_trace_const: "scan_trace False (\<lambda>_. b) n = replicate n (False, b)"
  by (rule nth_equalityI) (simp_all add: scan_trace_def)

definition quiet_bits :: "tck_bitbang list \<Rightarrow> bool" where
  "quiet_bits bs \<longleftrightarrow> (\<forall>b \<in> set bs. bb_tms b = 0 \<and> bb_tdi b = 0)"

locale jtag_device =
  fixes port :: "'d jtag_port"
    and ready :: "int \<Rightarrow> 'd \<Rightarrow> bool"
    and tap :: "'d \<Rightarrow> jtag_tapstate"
    and clks :: "'d \<Rightarrow> (bool \<times> bool) list"
    and smps :: "'d \<Rightarrow> bool list"
  assumes ioctl_goto: "\<lbrakk>ready fd d; src \<noteq> JTAG_STATE_CURRENT; s \<noteq> JTAG_STATE_CURRENT;
      r = 0 \<and> src = tap d \<or> r = 1 \<and> s = JTAG_STATE_TLRESET\<rbrakk> \<Longrightarrow>
      \<exists>d' tms. port_ioctl port fd (JTAG_SIOCSTATE (Some \<lparr>q_reset = r,
          q_from = of_nat (tapstate_num src), q_endstate = of_nat (tapstate_num s)\<rparr>)) d =
          Some (None, NoReply, d') \<and>
        ready fd d' \<and> tap d' = s \<and> clks d' = clks d @ moves tms"
    and ioctl_scan: "\<lbrakk>ready fd d; tap d = shift_state ty; s \<noteq> JTAG_STATE_CURRENT; 0 < n; n < 65535;
      div_round_up8 n \<le> length bytes\<rbrakk> \<Longrightarrow>
      \<exists>out d' post bs posts. port_ioctl port fd (JTAG_IOCXFER (Some
          \<lparr>q_type = (if ty = JTAG_SIR_XFER then 0 else 1), q_direction = 3,
           q_xfrom = of_nat (tapstate_num (shift_state ty)), q_xendstate = of_nat (tapstate_num s),
           q_padding = p, q_length = of_nat n\<rparr>) (Some bytes)) d = Some (None, Bytes out, d') \<and>
        ready fd d' \<and> tap d' = s \<and> length out = div_round_up8 n \<and>
        clks d' = clks d @ scan_trace (s \<noteq> shift_state ty) (bbit bytes) n @ moves post \<and>
        smps d' = smps d @ bs @ posts \<and> length bs = n \<and> length posts = length post \<and>
        (s = shift_state ty \<longrightarrow> post = []) \<and> (\<forall>i < n. bbit out i = bs ! i)"
    and ioctl_clock: "\<lbrakk>ready fd d; n \<le> length bs; n < 65535; quiet_bits bs\<rbrakk> \<Longrightarrow>
      \<exists>rs d'. port_ioctl port fd (JTAG_IOCBITBANG (Some (of_nat n)) (Some bs)) d = Some (None, Bits rs, d') \<and>
        ready fd d' \<and> length rs = n \<and> quiet_bits rs \<and>
        clks d' = clks d @ replicate n (False, False) \<and> tap d' = tap_run (tap d) (replicate n False)"

text \<open>The structure of a handler that its operations keep.\<close>

definition chain_ok :: "JTAG_Chain_State \<Rightarrow> bool" where
  "chain_ok c \<longleftrightarrow> tap_state c \<noteq> JTAG_STATE_CURRENT \<and>
     drPre (shift_padding c) \<le> DRMAXPADSIZE \<and> drPost (shift_padding c) \<le> DRMAXPADSIZE \<and>
     irPre (shift_padding c) \<le> IRMAXPADSIZE \<and> irPost (shift_padding c) \<le> IRMAXPADSIZE"

definition handler_ok :: "JTAG_Handler \<Rightarrow> bool" where
  "handler_ok h \<longleftrightarrow> length (chains h) = MAX_SCAN_CHAINS \<and> active_chain h < MAX_SCAN_CHAINS \<and>
     list_all chain_ok (chains h) \<and>
     padDataOne h = replicate 250 0xFF \<and> padDataZero h = replicate 250 0 \<and>
     length (bitbang_data h) = MAX_WAIT_CYCLES \<and> quiet_bits (bitbang_data h)"

lemma handler_okD:
  assumes "handler_ok h"
  shows "length (chains h) = 2" "active_chain h < 2" "chain_ok (active h)"
    "padDataOne h = replicate 250 0xFF" "padDataZero h = replicate 250 0"
    "length (bitbang_data h) = 256" "quiet_bits (bitbang_data h)"
  using assms by (auto simp: handler_ok_def active_def list_all_iff)

lemma active_upd [simp]: "handler_ok h \<Longrightarrow> active (upd_active f h) = f (active h)"
  by (simp add: active_def upd_active_def handler_ok_def)

lemma upd_active_fields [simp]:
  "active_chain (upd_active f h) = active_chain h" "padDataOne (upd_active f h) = padDataOne h"
  "padDataZero (upd_active f h) = padDataZero h" "bitbang_data (upd_active f h) = bitbang_data h"
  "JTAG_driver_handle (upd_active f h) = JTAG_driver_handle h" "sw_mode (upd_active f h) = sw_mode h"
  "length (chains (upd_active f h)) = length (chains h)"
  by (simp_all add: upd_active_def)

lemma upd_active_ok:
  assumes "handler_ok h" "chain_ok (f (active h))"
  shows "handler_ok (upd_active f h)"
  using assms by (auto simp: handler_ok_def upd_active_def list_all_iff dest: set_update_subset_insert [THEN subsetD])

lemma upd_active_upd [simp]:
  "handler_ok h \<Longrightarrow> upd_active f (upd_active g h) = upd_active (\<lambda>c. f (g c)) h"
  by (simp add: upd_active_def active_def handler_ok_def)

section \<open>The handler on such a device\<close>

lemma bitbang_ok:
  assumes "handler_ok h" "length rs \<le> MAX_WAIT_CYCLES" "quiet_bits rs"
  shows "handler_ok (h\<lparr>bitbang_data := rs @ drop (length rs) (bitbang_data h)\<rparr>)"
  using assms by (auto simp: handler_ok_def quiet_bits_def dest: in_set_dropD)

lemma bitbang_active [simp]:
  "active (h\<lparr>bitbang_data := bs\<rparr>) = active h"
  by (simp add: active_def)

context jtag_device begin

lemma wait_cycles_ok:
  assumes "handler_ok h" "ready (JTAG_driver_handle h) d" "n \<le> MAX_WAIT_CYCLES"
  shows "\<exists>bs d'. JTAG_wait_cycles port n h d = Some (ST_OK, h\<lparr>bitbang_data := bs\<rparr>, d') \<and>
    handler_ok (h\<lparr>bitbang_data := bs\<rparr>) \<and> ready (JTAG_driver_handle h) d' \<and>
    clks d' = clks d @ replicate n (False, False) \<and> tap d' = tap_run (tap d) (replicate n False)"
proof -
  from ioctl_clock [OF assms(2), of n "bitbang_data h"] handler_okD [OF assms(1)] assms(3)
  obtain rs d' where r: "port_ioctl port (JTAG_driver_handle h)
      (JTAG_IOCBITBANG (Some (of_nat n)) (Some (bitbang_data h))) d = Some (None, Bits rs, d')"
    "ready (JTAG_driver_handle h) d'" "length rs = n" "quiet_bits rs"
    "clks d' = clks d @ replicate n (False, False)" "tap d' = tap_run (tap d) (replicate n False)"
    by auto
  have "handler_ok (h\<lparr>bitbang_data := rs @ drop (length rs) (bitbang_data h)\<rparr>)"
    by (rule bitbang_ok [OF assms(1)]) (use r assms(3) in simp_all)
  with r assms(3) show ?thesis
    by (intro exI [of _ "rs @ drop (length rs) (bitbang_data h)"] exI [of _ d'])
      (simp add: JTAG_wait_cycles_def)
qed

lemma set_tap_state_ok:
  assumes "handler_ok h" "ready (JTAG_driver_handle h) d" "s \<noteq> JTAG_STATE_CURRENT"
    and "tap d = JTAG_get_tap_state h \<or> s = JTAG_STATE_TLRESET"
  shows "\<exists>h' d' tms. JTAG_set_tap_state port s h d = Some (ST_OK, h', d') \<and> handler_ok h' \<and>
    (\<exists>bs. h' = (upd_active (\<lambda>c. c\<lparr>tap_state := s\<rparr>) h)\<lparr>bitbang_data := bs\<rparr>) \<and>
    ready (JTAG_driver_handle h') d' \<and> tap d' = s \<and>
    clks d' = clks d @ moves tms @
      replicate (if s = JTAG_STATE_IDLE \<or> s = JTAG_STATE_PAUSEDR then 5 else 0) (False, False)"
proof -
  let ?h = "upd_active (\<lambda>c. c\<lparr>tap_state := s\<rparr>) h"
  let ?q = "\<lparr>q_reset = (if s = JTAG_STATE_TLRESET then 1 else 0),
    q_from = of_nat (tapstate_num (tap_state (active h))), q_endstate = of_nat (tapstate_num s)\<rparr>"
  have "chain_ok (active h)" using handler_okD [OF assms(1)] by simp
  then have real: "tap_state (active h) \<noteq> JTAG_STATE_CURRENT" and ok: "handler_ok ?h"
    using assms(1,3) by (auto simp: chain_ok_def intro: upd_active_ok)
  have how: "q_reset ?q = 0 \<and> tap_state (active h) = tap d \<or> q_reset ?q = 1 \<and> s = JTAG_STATE_TLRESET"
    using assms(4) by (cases "s = JTAG_STATE_TLRESET") (simp_all add: JTAG_get_tap_state_def)
  obtain d' tms where go: "port_ioctl port (JTAG_driver_handle h) (JTAG_SIOCSTATE (Some ?q)) d =
      Some (None, NoReply, d')" "ready (JTAG_driver_handle h) d'" "tap d' = s" "clks d' = clks d @ moves tms"
    using ioctl_goto [OF assms(2) real assms(3) how] by auto
  show ?thesis
  proof (cases "s = JTAG_STATE_IDLE \<or> s = JTAG_STATE_PAUSEDR")
    case False
    then have "JTAG_set_tap_state port s h d = Some (ST_OK, ?h, d')"
      using go(1) by (simp add: JTAG_set_tap_state_def)
    moreover have "?h = ?h\<lparr>bitbang_data := bitbang_data ?h\<rparr>" by simp
    ultimately show ?thesis
      using False go ok
      by (intro exI [of _ ?h] exI [of _ d'] exI [of _ tms] conjI exI [of _ "bitbang_data ?h"]) simp_all
  next
    case True
    have rd: "ready (JTAG_driver_handle ?h) d'" using go(2) by simp
    obtain bs d'' where w: "JTAG_wait_cycles port 5 ?h d' = Some (ST_OK, ?h\<lparr>bitbang_data := bs\<rparr>, d'')"
      "handler_ok (?h\<lparr>bitbang_data := bs\<rparr>)" "ready (JTAG_driver_handle ?h) d''"
      "clks d'' = clks d' @ replicate 5 (False, False)" "tap d'' = tap_run (tap d') (replicate 5 False)"
      using wait_cycles_ok [OF ok rd, of 5] by auto
    have "tap_run s (replicate 5 False) = s"
      using True by (auto simp: numeral_eq_Suc tap_run_def)
    moreover have "JTAG_set_tap_state port s h d = Some (ST_OK, ?h\<lparr>bitbang_data := bs\<rparr>, d'')"
      using go(1) w(1) True by (auto simp: JTAG_set_tap_state_def)
    ultimately show ?thesis
      using True go w by (intro exI [of _ "?h\<lparr>bitbang_data := bs\<rparr>"] exI [of _ d''] exI [of _ tms]) auto
  qed
qed

end

section \<open>One transfer\<close>

definition in_bits :: "u8 list option \<Rightarrow> nat \<Rightarrow> bool" where
  "in_bits input i = (case input of None \<Rightarrow> False | Some bs \<Rightarrow> bbit bs i)"

text \<open>The buffers are as large as the caller says, and the input holds the bits.\<close>

definition io_ok :: "nat \<Rightarrow> u8 list option \<Rightarrow> nat \<Rightarrow> u8 list option \<Rightarrow> u8 list \<Rightarrow> bool" where
  "io_ok n input output_bytes output tdio \<longleftrightarrow>
     (\<forall>bs. input = Some bs \<longrightarrow> div_round_up8 n \<le> length bs) \<and>
     (case output of
        Some bs \<Rightarrow> div_round_up8 n \<le> output_bytes \<and> output_bytes \<le> length bs \<and> output_bytes \<le> RSIZE_MAX_MEM
      | None \<Rightarrow> div_round_up8 n \<le> length tdio \<and> div_round_up8 n \<le> RSIZE_MAX_MEM)"

lemma byte_of_bit: "i < n \<Longrightarrow> i div 8 < div_round_up8 n"
proof -
  assume "i < n"
  then have "i < 8 * div_round_up8 n"
    using ceil8 [of n] mult_div_mod_eq [of 8 n] mod_less_divisor [of 8 n]
    by (cases "n mod 8 = 0"; simp add: div_round_up8_def)
  then show ?thesis by (simp add: div_less_iff_less_mult mult.commute)
qed

lemma memcpy_s_bits:
  assumes "n8 \<le> dmax" "dmax \<le> length dest" "dmax \<le> RSIZE_MAX_MEM" "0 < n8"
    and "\<forall>bs. src = Some bs \<longrightarrow> n8 \<le> length bs"
  shows "length (snd (memcpy_s dest dmax (map_option (take n8) src) n8)) = length dest"
    "i div 8 < n8 \<Longrightarrow> bbit (snd (memcpy_s dest dmax (map_option (take n8) src) n8)) i = in_bits src i"
    "drop dmax (snd (memcpy_s dest dmax (map_option (take n8) src) n8)) = drop dmax dest"
  using assms by (auto simp: memcpy_s_def in_bits_def bbit_def nth_append split: option.splits)

lemma xfer_buffer_ok:
  assumes "io_ok n input obytes output tdio" "0 < n"
  shows "div_round_up8 n \<le> length (xfer_buffer tdio n input obytes output)"
    "i < n \<Longrightarrow> bbit (xfer_buffer tdio n input obytes output) i = in_bits input i"
    "output = Some bs \<Longrightarrow> length (xfer_buffer tdio n input obytes output) = length bs"
    "output = Some bs \<Longrightarrow> drop obytes (xfer_buffer tdio n input obytes output) = drop obytes bs"
proof -
  have n: "0 < div_round_up8 n" using assms(2) byte_of_bit [of 0 n] by simp
  have src: "\<forall>bs. input = Some bs \<longrightarrow> div_round_up8 n \<le> length bs"
    using assms(1) by (simp add: io_ok_def)
  show "div_round_up8 n \<le> length (xfer_buffer tdio n input obytes output)"
  proof (cases "output")
    case None
    then have "div_round_up8 n \<le> length tdio" "div_round_up8 n \<le> RSIZE_MAX_MEM"
      using assms(1) by (simp_all add: io_ok_def)
    with memcpy_s_bits(1) [OF le_refl this n src] None show ?thesis by (simp add: xfer_buffer_def Let_def)
  next
    case (Some o')
    then have "div_round_up8 n \<le> obytes" "obytes \<le> length o'" "obytes \<le> RSIZE_MAX_MEM"
      using assms(1) by (simp_all add: io_ok_def)
    with memcpy_s_bits(1) [OF this n src] Some show ?thesis by (simp add: xfer_buffer_def Let_def)
  qed
  show "bbit (xfer_buffer tdio n input obytes output) i = in_bits input i" if "i < n"
  proof (cases "output")
    case None
    then have "div_round_up8 n \<le> length tdio" "div_round_up8 n \<le> RSIZE_MAX_MEM"
      using assms(1) by (simp_all add: io_ok_def)
    with memcpy_s_bits(2) [OF le_refl this n src byte_of_bit [OF that]] None show ?thesis
      by (simp add: xfer_buffer_def Let_def)
  next
    case (Some o')
    then have "div_round_up8 n \<le> obytes" "obytes \<le> length o'" "obytes \<le> RSIZE_MAX_MEM"
      using assms(1) by (simp_all add: io_ok_def)
    with memcpy_s_bits(2) [OF this n src byte_of_bit [OF that]] Some show ?thesis
      by (simp add: xfer_buffer_def Let_def)
  qed
  show "length (xfer_buffer tdio n input obytes output) = length bs"
    "drop obytes (xfer_buffer tdio n input obytes output) = drop obytes bs" if o: "output = Some bs"
  proof -
    have "div_round_up8 n \<le> obytes" "obytes \<le> length bs" "obytes \<le> RSIZE_MAX_MEM"
      using assms(1) o by (simp_all add: io_ok_def)
    note m = memcpy_s_bits [OF this n src]
    show "length (xfer_buffer tdio n input obytes output) = length bs"
      "drop obytes (xfer_buffer tdio n input obytes output) = drop obytes bs"
      using m(1,3) o by (simp_all add: xfer_buffer_def Let_def)
  qed
qed

lemma scan_trace_cong: "(\<And>i. i < n \<Longrightarrow> f i = g i) \<Longrightarrow> scan_trace l f n = scan_trace l g n"
  by (simp add: scan_trace_def)

text \<open>What a transfer stores: the samples in the bits of the output, and no more of it than announced.\<close>

definition stored :: "nat \<Rightarrow> nat \<Rightarrow> u8 list option \<Rightarrow> u8 list option \<Rightarrow> bool list \<Rightarrow> bool" where
  "stored n obytes output output' bs \<longleftrightarrow>
     (case (output, output') of
        (None, None) \<Rightarrow> True
      | (Some mem, Some mem') \<Rightarrow> length mem' = length mem \<and> (\<forall>i < n. bbit mem' i = bs ! i) \<and>
          drop obytes mem' = drop obytes mem
      | _ \<Rightarrow> False)"

context jtag_device begin

lemma perform_shift_ok:
  assumes h: "handler_ok h" and d: "ready (JTAG_driver_handle h) d" "tap d = shift_state ty"
    and s: "s \<noteq> JTAG_STATE_CURRENT" and n: "0 < n" "n < 65535"
    and io: "io_ok n input obytes output (fst (junk d))"
  shows "\<exists>output' d' post bs posts.
    perform_shift junk port n input obytes output (shift_state ty) s h d =
      Some (ST_OK, output', upd_active (\<lambda>c. c\<lparr>tap_state := s\<rparr>) h, d') \<and>
    ready (JTAG_driver_handle h) d' \<and> tap d' = s \<and>
    clks d' = clks d @ scan_trace (s \<noteq> shift_state ty) (in_bits input) n @ moves post \<and>
    smps d' = smps d @ bs @ posts \<and> length bs = n \<and> length posts = length post \<and>
    (s = shift_state ty \<longrightarrow> post = []) \<and>
    stored n obytes output output' bs"
proof -
  let ?cur = "shift_state ty"
  let ?buf = "xfer_buffer (fst (junk d)) n input obytes output"
  let ?q = "\<lparr>q_type = (if ty = JTAG_SIR_XFER then 0 else 1), q_direction = 3,
           q_xfrom = of_nat (tapstate_num ?cur), q_xendstate = of_nat (tapstate_num s),
           q_padding = snd (junk d), q_length = of_nat n\<rparr>"
  note buf = xfer_buffer_ok [OF io n(1)]
  obtain out d' post bs posts where x:
    "port_ioctl port (JTAG_driver_handle h) (JTAG_IOCXFER (Some ?q) (Some ?buf)) d = Some (None, Bytes out, d')"
    "ready (JTAG_driver_handle h) d'" "tap d' = s" "length out = div_round_up8 n"
    "clks d' = clks d @ scan_trace (s \<noteq> ?cur) (bbit ?buf) n @ moves post"
    "smps d' = smps d @ bs @ posts" "length bs = n" "length posts = length post"
    "s = ?cur \<longrightarrow> post = []" "\<forall>i < n. bbit out i = bs ! i"
    by (insert ioctl_scan [OF d s n buf(1), of "snd (junk d)"], elim exE conjE) (rule that; assumption)
  have ty: "?cur = JTAG_STATE_SHIFTIR \<longleftrightarrow> ty = JTAG_SIR_XFER"
    by (cases ty) (simp_all add: shift_state_def)
  let ?mem = "out @ drop (length out) ?buf"
  have run: "perform_shift junk port n input obytes output ?cur s h d =
      Some (ST_OK, map_option (\<lambda>_. ?mem) output, upd_active (\<lambda>c. c\<lparr>tap_state := s\<rparr>) h, d')"
    using x(1) by (simp add: perform_shift_def xfer_ioctl_def ty split_beta)
  have bits: "\<forall>i < n. bbit ?mem i = bs ! i"
    using x(4,10) byte_of_bit by (simp add: bbit_def nth_append)
  have "stored n obytes output (map_option (\<lambda>_. ?mem) output) bs"
  proof (cases "output")
    case (Some mem)
    have "div_round_up8 n \<le> obytes" using io Some by (simp add: io_ok_def)
    then have "drop obytes ?mem = drop obytes mem" "length ?mem = length mem"
      using buf(1) buf(3,4) [OF Some] x(4) by simp_all
    with Some bits show ?thesis by (simp add: stored_def)
  qed (simp add: stored_def)
  moreover have "scan_trace (s \<noteq> ?cur) (bbit ?buf) n = scan_trace (s \<noteq> ?cur) (in_bits input) n"
    by (rule scan_trace_cong) (rule buf(2))
  ultimately show ?thesis
    using run x by auto
qed

end

section \<open>A shift with its padding\<close>

definition chain_at :: "jtag_tapstate \<Rightarrow> JTAGScanState \<Rightarrow> JTAG_Handler \<Rightarrow> JTAG_Handler" where
  "chain_at tap sc = upd_active (\<lambda>c. c\<lparr>tap_state := tap, scan_state := sc\<rparr>)"

lemma chain_at_simps [simp]:
  assumes "handler_ok h"
  shows "chain_at t sc (chain_at t' sc' h) = chain_at t sc h"
    "tap_state (active (chain_at t sc h)) = t" "scan_state (active (chain_at t sc h)) = sc"
    "shift_padding (active (chain_at t sc h)) = shift_padding (active h)"
    "JTAG_driver_handle (chain_at t sc h) = JTAG_driver_handle h"
    "t \<noteq> JTAG_STATE_CURRENT \<Longrightarrow> handler_ok (chain_at t sc h)"
  using assms handler_okD(3) [OF assms]
  by (auto simp: chain_at_def chain_ok_def intro!: upd_active_ok)

lemma chain_at_fields [simp]:
  "sw_mode (chain_at t sc h) = sw_mode h" "JTAG_driver_handle (chain_at t sc h) = JTAG_driver_handle h"
  by (simp_all add: chain_at_def)

lemma chain_at_id:
  assumes "tap_state (active h) = t" "scan_state (active h) = sc"
  shows "chain_at t sc h = h"
  using assms by (simp add: chain_at_def upd_active_def active_def flip: assms)

lemma upd_tap: "upd_active (\<lambda>c. c\<lparr>tap_state := t\<rparr>) h = chain_at t (scan_state (active h)) h"
  by (simp add: chain_at_def upd_active_def)

lemma upd_scan: "upd_active (\<lambda>c. c\<lparr>scan_state := sc\<rparr>) h = chain_at (tap_state (active h)) sc h"
  by (simp add: chain_at_def upd_active_def)

lemma bbit_pad:
  assumes "i < 2000"
  shows "bbit (replicate 250 (if b then 0xFF else 0)) i = b"
proof -
  have "i div 8 < 250" using assms by (simp add: div_less_iff_less_mult)
  moreover have "bit (0xFF :: u8) (i mod 8)"
  proof -
    have "i mod 8 < 8" by simp
    moreover have "(0xFF :: u8) = mask 8" by (simp add: mask_eq_exp_minus_1)
    ultimately show ?thesis by (simp only: bit_mask_iff) simp
  qed
  ultimately show ?thesis by (simp add: bbit_def)
qed

lemma pad_trace:
  assumes "n \<le> 2000"
  shows "scan_trace l (in_bits (Some (replicate 250 (if b then 0xFF else 0)))) n = scan_trace l (\<lambda>_. b) n"
  using assms by (intro scan_trace_cong) (simp only: in_bits_def option.case, rule bbit_pad, simp)

lemma pad_io:
  assumes "n \<le> 2000" "length tdio = 3000"
  shows "io_ok n (Some (replicate 250 v)) 0 None tdio"
proof -
  have "div_round_up8 n \<le> 250"
    using div_le_mono [of "n + 7" "2007" 8] assms(1) by (simp add: div_round_up8_def)
  then show ?thesis using assms(2) by (simp add: io_ok_def)
qed

text \<open>The padding of a chain for the kind of scan, and what a shift puts on the pins with it.\<close>

definition pre_pad :: "jtag_xfer_type \<Rightarrow> JTAG_Handler \<Rightarrow> nat" where
  "pre_pad ty h = (if scan_state (active h) = JTAGScanState_Run then 0
     else case ty of JTAG_SIR_XFER \<Rightarrow> irPre (shift_padding (active h))
                   | JTAG_SDR_XFER \<Rightarrow> drPre (shift_padding (active h)))"

definition post_pad :: "jtag_xfer_type \<Rightarrow> JTAG_Handler \<Rightarrow> nat" where
  "post_pad ty h = (case ty of JTAG_SIR_XFER \<Rightarrow> irPost (shift_padding (active h))
                             | JTAG_SDR_XFER \<Rightarrow> drPost (shift_padding (active h)))"

definition shift_trace :: "jtag_xfer_type \<Rightarrow> JTAG_Handler \<Rightarrow> bool \<Rightarrow> (nat \<Rightarrow> bool) \<Rightarrow> nat \<Rightarrow> (bool \<times> bool) list" where
  "shift_trace ty h leave f n =
     (let pad = (ty = JTAG_SIR_XFER)
      in replicate (pre_pad ty h) (False, pad) @ scan_trace (leave \<and> post_pad ty h = 0) f n @
         (if leave then scan_trace True (\<lambda>_. pad) (post_pad ty h) else []))"

lemma pads_bounded:
  assumes "handler_ok h"
  shows "pre_pad ty h \<le> 2000" "post_pad ty h \<le> 2000"
  using handler_okD(3) [OF assms]
  by (cases ty; simp add: pre_pad_def post_pad_def chain_ok_def)+

context jtag_device begin

text \<open>One transfer of padding: \<open>m\<close> copies of \<open>b\<close>, none of it stored.\<close>

lemma pad_shift_ok:
  assumes h: "handler_ok h" and d: "ready (JTAG_driver_handle h) d" "tap d = shift_state ty"
    and s: "s \<noteq> JTAG_STATE_CURRENT" and m: "0 < m" "m \<le> 2000" and junk: "length (fst (junk d)) = 3000"
  shows "\<exists>d' post bs posts.
    perform_shift junk port m (Some (replicate 250 (if b then 0xFF else 0))) 0 None (shift_state ty) s h d =
      Some (ST_OK, None, chain_at s (scan_state (active h)) h, d') \<and>
    ready (JTAG_driver_handle h) d' \<and> tap d' = s \<and>
    clks d' = clks d @ scan_trace (s \<noteq> shift_state ty) (\<lambda>_. b) m @ moves post \<and>
    smps d' = smps d @ bs @ posts \<and> length bs = m \<and> length posts = length post \<and>
    (s = shift_state ty \<longrightarrow> post = [])"
proof -
  have "m < 65535" using m(2) by simp
  from perform_shift_ok [where junk = junk, OF h d s m(1) this
      pad_io [where v = "if b then 0xFF else 0", OF m(2) junk]]
  have "\<exists>output' d' post bs posts.
    perform_shift junk port m (Some (replicate 250 (if b then 0xFF else 0))) 0 None (shift_state ty) s h d =
      Some (ST_OK, output', chain_at s (scan_state (active h)) h, d') \<and>
    ready (JTAG_driver_handle h) d' \<and> tap d' = s \<and>
    clks d' = clks d @ scan_trace (s \<noteq> shift_state ty) (\<lambda>_. b) m @ moves post \<and>
    smps d' = smps d @ bs @ posts \<and> length bs = m \<and> length posts = length post \<and>
    (s = shift_state ty \<longrightarrow> post = []) \<and> stored m 0 None output' bs"
    unfolding pad_trace [OF m(2)] upd_tap by blast
  moreover have st: "stored m 0 None output' bs \<longleftrightarrow> output' = None" for output' bs
    by (simp add: stored_def split: option.split)
  ultimately show ?thesis unfolding st by blast
qed

lemma shift_prefix_ok:
  assumes h: "handler_ok h" "tap_state (active h) = shift_state ty"
    and d: "ready (JTAG_driver_handle h) d" "tap d = shift_state ty"
    and m: "m \<le> 2000" and junk: "\<And>d. length (fst (junk d)) = 3000"
  shows "\<exists>d' bs. shift_prefix junk port m (replicate 250 (if b then 0xFF else 0)) (shift_state ty) mem h d =
      Some (ST_OK, mem, chain_at (shift_state ty) JTAGScanState_Run h, d') \<and>
    ready (JTAG_driver_handle h) d' \<and> tap d' = shift_state ty \<and> smps d' = smps d @ bs \<and>
    clks d' = clks d @ replicate (length bs) (False, b) \<and>
    length bs = (if scan_state (active h) = JTAGScanState_Done then m else 0)"
proof (cases "scan_state (active h)")
  case JTAGScanState_Run
  then show ?thesis
    using assms chain_at_id [OF h(2) JTAGScanState_Run] by (simp add: shift_prefix_def)
next
  case JTAGScanState_Done
  let ?h = "chain_at (shift_state ty) JTAGScanState_Run h"
  have real: "shift_state ty \<noteq> JTAG_STATE_CURRENT" by (cases ty) (simp_all add: shift_state_def)
  then have ok: "handler_ok ?h" "ready (JTAG_driver_handle ?h) d" using h d by simp_all
  show ?thesis
  proof (cases "m = 0")
    case True
    then show ?thesis
      using d JTAGScanState_Done h by (simp add: shift_prefix_def upd_scan Let_def)
  next
    case False
    obtain d' bs where p: "perform_shift junk port m (Some (replicate 250 (if b then 0xFF else 0))) 0 None
        (shift_state ty) (shift_state ty) ?h d = Some (ST_OK, None, ?h, d')"
      "ready (JTAG_driver_handle h) d'" "tap d' = shift_state ty" "length bs = m"
      "clks d' = clks d @ replicate m (False, b)" "smps d' = smps d @ bs"
      using pad_shift_ok [where junk = junk and b = b, OF ok(1,2) d(2) real _ m junk] False h by (auto simp: scan_trace_const moves_def)
    then show ?thesis
      using JTAGScanState_Done h False by (auto simp: shift_prefix_def pad_shift_def upd_scan Let_def)
  qed
qed

lemma shift_rest_ok:
  assumes h: "handler_ok h" "tap_state (active h) = shift_state ty" "scan_state (active h) = JTAGScanState_Run"
    and d: "ready (JTAG_driver_handle h) d" "tap d = shift_state ty"
    and s: "s \<noteq> JTAG_STATE_CURRENT" and m: "m \<le> 2000" and n: "0 < n" "n < 65535"
    and junk: "\<And>d. length (fst (junk d)) = 3000" and io: "\<And>d. io_ok n input obytes mem (fst (junk d))"
  shows "\<exists>mem' d' bs posts tms.
    shift_rest junk port m (replicate 250 (if b then 0xFF else 0)) n input obytes (shift_state ty) s (mem, h, d) =
      Some (ST_OK, mem', chain_at s (if s = shift_state ty then JTAGScanState_Run else JTAGScanState_Done) h, d') \<and>
    ready (JTAG_driver_handle h) d' \<and> tap d' = s \<and>
    clks d' = clks d @ scan_trace (s \<noteq> shift_state ty \<and> m = 0) (in_bits input) n @
      (if s \<noteq> shift_state ty then scan_trace True (\<lambda>_. b) m else []) @ moves tms \<and>
    smps d' = smps d @ bs @ posts \<and> length bs = n \<and> stored n obytes mem mem' bs"
proof (cases "m \<noteq> 0 \<and> shift_state ty \<noteq> s")
  case False
  obtain mem' d' post bs posts where p: "perform_shift junk port n input obytes mem (shift_state ty) s h d =
      Some (ST_OK, mem', chain_at s JTAGScanState_Run h, d')"
    "ready (JTAG_driver_handle h) d'" "tap d' = s"
    "clks d' = clks d @ scan_trace (s \<noteq> shift_state ty) (in_bits input) n @ moves post"
    "smps d' = smps d @ bs @ posts" "length bs = n" "stored n obytes mem mem' bs"
    using perform_shift_ok [where junk = junk, OF h(1) d s n io] h(3) unfolding upd_tap by auto
  have "shift_rest junk port m (replicate 250 (if b then 0xFF else 0)) n input obytes
      (shift_state ty) s (mem, h, d) = Some (ST_OK, mem', chain_at s
        (if s = shift_state ty then JTAGScanState_Run else JTAGScanState_Done) h, d')"
    using p(1) False h s by (auto simp: shift_rest_def upd_scan)
  moreover have "scan_trace (s \<noteq> shift_state ty) (in_bits input) n @ moves post =
      scan_trace (s \<noteq> shift_state ty \<and> m = 0) (in_bits input) n @
      (if s \<noteq> shift_state ty then scan_trace True (\<lambda>_. b) m else []) @ moves post"
    using False by (auto simp: scan_trace_def)
  ultimately show ?thesis
    using p(2-7) by metis
next
  case True
  let ?cur = "shift_state ty"
  let ?h = "chain_at ?cur JTAGScanState_Done h"
  have real: "?cur \<noteq> JTAG_STATE_CURRENT" by (cases ty) (simp_all add: shift_state_def)
  then have ok: "handler_ok ?h" "ready (JTAG_driver_handle ?h) d" using h d by simp_all
  obtain mem' d1 bs where p: "perform_shift junk port n input obytes mem ?cur ?cur ?h d =
      Some (ST_OK, mem', ?h, d1)" "ready (JTAG_driver_handle ?h) d1" "tap d1 = ?cur"
    "clks d1 = clks d @ scan_trace False (in_bits input) n"
    "smps d1 = smps d @ bs" "length bs = n" "stored n obytes mem mem' bs"
    using perform_shift_ok [where junk = junk, OF ok d(2) real n io] h unfolding upd_tap
    by (auto simp: moves_def)
  obtain d2 post bs' posts where q: "perform_shift junk port m (Some (replicate 250 (if b then 0xFF else 0))) 0 None
      ?cur s ?h d1 = Some (ST_OK, None, chain_at s JTAGScanState_Done ?h, d2)"
    "ready (JTAG_driver_handle ?h) d2" "tap d2 = s"
    "clks d2 = clks d1 @ scan_trace (s \<noteq> ?cur) (\<lambda>_. b) m @ moves post" "smps d2 = smps d1 @ bs' @ posts"
    using pad_shift_ok [where junk = junk and b = b, OF ok(1) p(2,3) s _ m junk] True h by auto
  have "shift_rest junk port m (replicate 250 (if b then 0xFF else 0)) n input obytes ?cur s (mem, h, d) =
      Some (ST_OK, mem', chain_at s JTAGScanState_Done h, d2)"
    using True p(1) q(1) h by (simp add: shift_rest_def pad_shift_def upd_scan)
  then show ?thesis
    using True p q h by (intro exI [of _ mem'] exI [of _ d2] exI [of _ bs] exI [of _ "bs' @ posts"] exI [of _ post]) auto
qed

lemma shift_ok:
  assumes h: "handler_ok h" "sw_mode h" "JTAG_get_tap_state h = shift_state ty"
    and d: "ready (JTAG_driver_handle h) d" "tap d = shift_state ty"
    and s: "s \<noteq> JTAG_STATE_CURRENT" and n: "0 < n" "n < 65535"
    and junk: "\<And>d. length (fst (junk d)) = 3000" and io: "\<And>d. io_ok n input obytes mem (fst (junk d))"
  shows "\<exists>mem' d' pre bs posts tms.
    JTAG_shift junk port n input obytes mem s h d =
      Some (ST_OK, mem', chain_at s (if s = shift_state ty then JTAGScanState_Run else JTAGScanState_Done) h, d') \<and>
    ready (JTAG_driver_handle h) d' \<and> tap d' = s \<and>
    clks d' = clks d @ shift_trace ty h (s \<noteq> shift_state ty) (in_bits input) n @ moves tms \<and>
    smps d' = smps d @ pre @ bs @ posts \<and> length pre = pre_pad ty h \<and> length bs = n \<and>
    stored n obytes mem mem' bs"
proof -
  let ?cur = "shift_state ty" and ?pad = "ty = JTAG_SIR_XFER"
  let ?pads = "shift_padding (active h)"
  let ?pre = "case ty of JTAG_SIR_XFER \<Rightarrow> irPre ?pads | JTAG_SDR_XFER \<Rightarrow> drPre ?pads"
  let ?data = "replicate 250 (if ?pad then 0xFF else 0) :: u8 list"
  let ?h = "chain_at ?cur JTAGScanState_Run h"
  have cur: "tap_state (active h) = ?cur" using h(3) by (simp add: JTAG_get_tap_state_def)
  have real: "?cur \<noteq> JTAG_STATE_CURRENT" "?cur = JTAG_STATE_SHIFTIR \<longleftrightarrow> ?pad"
    "?cur = JTAG_STATE_SHIFTIR \<or> ?cur = JTAG_STATE_SHIFTDR"
    by (cases ty; simp add: shift_state_def)+
  then have ok: "handler_ok ?h" using h by simp
  have pre: "?pre \<le> 2000"
    using handler_okD(3) [OF h(1)] by (cases ty) (simp_all add: chain_ok_def)
  obtain d1 pres where p: "shift_prefix junk port ?pre ?data ?cur mem h d = Some (ST_OK, mem, ?h, d1)"
    "ready (JTAG_driver_handle h) d1" "tap d1 = ?cur" "smps d1 = smps d @ pres"
    "clks d1 = clks d @ replicate (length pres) (False, ?pad)"
    "length pres = (if scan_state (active h) = JTAGScanState_Done then ?pre else 0)"
    by (insert shift_prefix_ok [where junk = junk and b = ?pad and mem = mem, OF h(1) cur d pre junk], elim exE conjE)
      (rule that; assumption)
  have rd: "ready (JTAG_driver_handle ?h) d1" using p(2) h by simp
  have cur': "tap_state (active ?h) = ?cur" "scan_state (active ?h) = JTAGScanState_Run"
    using h(1) by simp_all
  obtain mem' d2 bs posts tms where r:
    "shift_rest junk port (post_pad ty h) ?data n input obytes ?cur s (mem, ?h, d1) =
       Some (ST_OK, mem', chain_at s (if s = ?cur then JTAGScanState_Run else JTAGScanState_Done) ?h, d2)"
    "ready (JTAG_driver_handle ?h) d2" "tap d2 = s"
    "clks d2 = clks d1 @ scan_trace (s \<noteq> ?cur \<and> post_pad ty h = 0) (in_bits input) n @
      (if s \<noteq> ?cur then scan_trace True (\<lambda>_. ?pad) (post_pad ty h) else []) @ moves tms"
    "smps d2 = smps d1 @ bs @ posts" "length bs = n" "stored n obytes mem mem' bs"
    by (insert shift_rest_ok [where junk = junk and b = ?pad,
          OF ok cur' rd p(3) s pads_bounded(2) [OF h(1), of ty] n junk io], elim exE conjE)
      (rule that; assumption)
  have "length pres = pre_pad ty h"
    using p(6) by (cases "scan_state (active h)") (simp_all add: pre_pad_def)
  moreover have "JTAG_shift junk port n input obytes mem s h d =
      and_then (shift_prefix junk port ?pre ?data ?cur mem h d)
        (shift_rest junk port (post_pad ty h) ?data n input obytes ?cur s)"
    using h(2) cur real(2,3) handler_okD(4,5) [OF h(1)]
    by (cases ty) (simp_all add: JTAG_shift_def JTAG_get_tap_state_def post_pad_def Let_def)
  ultimately show ?thesis
    using p r h(1) by (auto simp: shift_trace_def Let_def)
qed

end

section \<open>Runs of the handler\<close>

text \<open>
  The calls a user of the handler may make, each from where the last one left off, whatever it
  returned. Waiting is only allowed where TMS low keeps the port, as the comment of the source asks.
\<close>

definition buffers_ok :: "'d junk \<Rightarrow> nat \<Rightarrow> u8 list option \<Rightarrow> nat \<Rightarrow> u8 list option \<Rightarrow> bool" where
  "buffers_ok junk n input obytes mem \<longleftrightarrow> 0 < n \<and> n < 65535 \<and> (\<forall>d. io_ok n input obytes mem (fst (junk d)))"

inductive jtag_run :: "'d junk \<Rightarrow> 'd jtag_port \<Rightarrow> JTAG_Handler \<times> 'd \<Rightarrow> JTAG_Handler \<Rightarrow> 'd \<Rightarrow> bool"
  for junk port start where
  run_start: "start = (h, d) \<Longrightarrow> jtag_run junk port start h d"
| run_goto: "\<lbrakk>jtag_run junk port start h d; s \<noteq> JTAG_STATE_CURRENT;
    JTAG_set_tap_state port s h d = Some (st, h', d')\<rbrakk> \<Longrightarrow> jtag_run junk port start h' d'"
| run_wait: "\<lbrakk>jtag_run junk port start h d;
    tap_step (JTAG_get_tap_state h) False = JTAG_get_tap_state h;
    JTAG_wait_cycles port n h d = Some (st, h', d')\<rbrakk> \<Longrightarrow> jtag_run junk port start h' d'"
| run_padding: "\<lbrakk>jtag_run junk port start h d; JTAG_set_padding ty v h = (st, h')\<rbrakk> \<Longrightarrow>
    jtag_run junk port start h' d"
| run_shift: "\<lbrakk>jtag_run junk port start h d; s \<noteq> JTAG_STATE_CURRENT; buffers_ok junk n input obytes mem;
    JTAG_shift junk port n input obytes mem s h d = Some (st, mem', h', d')\<rbrakk> \<Longrightarrow>
    jtag_run junk port start h' d'"

lemma chain_ok_padding:
  assumes "handler_ok h" "JTAG_set_padding ty v h = (st, h')"
  shows "handler_ok h'" "tap_state (active h') = tap_state (active h)"
    "JTAG_driver_handle h' = JTAG_driver_handle h" "sw_mode h' = sw_mode h"
  using assms handler_okD(3) [OF assms(1)]
  by (cases ty; auto simp: JTAG_set_padding_def chain_ok_def intro!: upd_active_ok split: if_splits)+

context jtag_device begin

definition agree :: "JTAG_Handler \<Rightarrow> 'd \<Rightarrow> bool" where
  "agree h d \<longleftrightarrow> handler_ok h \<and> sw_mode h \<and> ready (JTAG_driver_handle h) d \<and> tap d = JTAG_get_tap_state h"

lemma agree_goto:
  assumes "agree h d" "s \<noteq> JTAG_STATE_CURRENT" "JTAG_set_tap_state port s h d = Some (st, h', d')"
  shows "agree h' d'"
proof -
  have h: "handler_ok h" "ready (JTAG_driver_handle h) d" "tap d = JTAG_get_tap_state h \<or> s = JTAG_STATE_TLRESET"
    using assms(1) by (simp_all add: agree_def)
  obtain h'' d'' bs where "JTAG_set_tap_state port s h d = Some (ST_OK, h'', d'')" "handler_ok h''"
    "h'' = (upd_active (\<lambda>c. c\<lparr>tap_state := s\<rparr>) h)\<lparr>bitbang_data := bs\<rparr>"
    "ready (JTAG_driver_handle h'') d''" "tap d'' = s"
    using set_tap_state_ok [OF h(1,2) assms(2) h(3)] by blast
  with assms show ?thesis by (auto simp: agree_def JTAG_get_tap_state_def)
qed

lemma agree_wait:
  assumes "agree h d" "tap_step (JTAG_get_tap_state h) False = JTAG_get_tap_state h"
    "JTAG_wait_cycles port n h d = Some (st, h', d')"
  shows "agree h' d'"
proof (cases "n \<le> MAX_WAIT_CYCLES")
  case True
  have stay: "tap_run (JTAG_get_tap_state h) (replicate n False) = JTAG_get_tap_state h"
    using assms(2) by (induction n) simp_all
  have "handler_ok h" "ready (JTAG_driver_handle h) d" using assms(1) by (simp_all add: agree_def)
  with wait_cycles_ok [OF this True] assms stay show ?thesis
    by (auto simp: agree_def JTAG_get_tap_state_def)
qed (use assms in \<open>simp add: JTAG_wait_cycles_def\<close>)

lemma agree_shift:
  assumes "agree h d" "s \<noteq> JTAG_STATE_CURRENT" "buffers_ok junk n input obytes mem"
    and "\<And>d. length (fst (junk d)) = 3000"
    and "JTAG_shift junk port n input obytes mem s h d = Some (st, mem', h', d')"
  shows "agree h' d'"
proof (cases "JTAG_get_tap_state h \<in> {JTAG_STATE_SHIFTIR, JTAG_STATE_SHIFTDR}")
  case False
  with assms(1,5) show ?thesis by (auto simp: JTAG_shift_def agree_def)
next
  case True
  then obtain ty where ty: "JTAG_get_tap_state h = shift_state ty"
    by (metis insert_iff jtag_xfer_type.simps(3,4) shift_state_def singletonD)
  have h: "handler_ok h" "sw_mode h" "ready (JTAG_driver_handle h) d" "tap d = shift_state ty"
    using assms(1) ty by (simp_all add: agree_def)
  have b: "0 < n" "n < 65535" "\<And>d. io_ok n input obytes mem (fst (junk d))"
    using assms(3) by (simp_all add: buffers_ok_def)
  obtain d'' sc mem'' where "JTAG_shift junk port n input obytes mem s h d = Some (ST_OK, mem'', chain_at s sc h, d'')"
    "ready (JTAG_driver_handle h) d''" "tap d'' = s"
    using shift_ok [where junk = junk, OF h(1,2) ty h(3,4) assms(2) b(1,2) assms(4) b(3)] by blast
  with assms(2,5) h show ?thesis by (auto simp: agree_def JTAG_get_tap_state_def)
qed

lemma run_agrees:
  assumes "jtag_run junk port start h d" "case start of (h0, d0) \<Rightarrow> agree h0 d0" "\<And>d. length (fst (junk d)) = 3000"
  shows "agree h d"
  using assms
proof (induction rule: jtag_run.induct)
  case (run_padding h d ty v st h')
  then show ?case by (auto simp: agree_def JTAG_get_tap_state_def chain_ok_padding)
qed (auto intro: agree_goto agree_wait agree_shift)

end

section \<open>The driver is such a device\<close>

text \<open>\<open>slack\<close> is the kernel memory behind the copy of the user's data, and may differ from call to call.\<close>

definition aspeed_port :: "int \<Rightarrow> (aspeed_jtag \<Rightarrow> u8 \<times> u8 \<times> u8) \<Rightarrow> aspeed_jtag jtag_port" where
  "aspeed_port dev slack = \<lparr>port_open = (\<lambda>aj. (dev, snd (jtag_open aj))),
     port_close = (\<lambda>fd aj. if fd = dev then snd (jtag_release aj) else aj),
     port_ioctl = (\<lambda>fd cmd aj. if fd = dev
        then (let (a, b, c) = slack aj in jtag_ioctl [a, b, c] True aj cmd True)
        else Some (Some EBADF, NoReply, aj))\<rparr>"

lemma tapstate_num_of_num:
  "s \<noteq> JTAG_STATE_CURRENT \<Longrightarrow> tapstate_of_num (of_nat (tapstate_num s)) = s \<and> (of_nat (tapstate_num s) :: u8) < 16"
  by (cases s) (simp_all add: tapstate_of_num_def tapstates_def)

lemma quiet_bitbang:
  assumes "quiet_bits bs"
  shows "\<exists>rs aj'. aspeed_jtag_bitbang aj bs = (rs, aj') \<and> length rs = length bs \<and> quiet_bits rs \<and>
    only_log aj aj' \<and> clocks aj' = clocks aj @ replicate (length bs) (False, False)"
  using assms
proof (induction bs arbitrary: aj)
  case (Cons b bs)
  obtain tdo aj1 where c: "aspeed_jtag_tck_cycle aj 0 0 = (tdo, aj1)" by fastforce
  have w: "clocks aj1 = clocks aj @ [(False, False)]" "only_log aj aj1"
    using tck_cycle_wires [of aj False False] tck_cycle_only_log [of aj 0 0] c by simp_all
  have q: "quiet_bits bs" "bb_tms b = 0" "bb_tdi b = 0"
    using Cons.prems by (simp_all add: quiet_bits_def)
  obtain rs aj2 where r: "aspeed_jtag_bitbang aj1 bs = (rs, aj2)" "length rs = length bs" "quiet_bits rs"
    "only_log aj1 aj2" "clocks aj2 = clocks aj1 @ replicate (length bs) (False, False)"
    using Cons.IH [OF q(1), of aj1] by blast
  have "aspeed_jtag_bitbang aj (b # bs) = (b\<lparr>bb_tdo := tdo\<rparr> # rs, aj2)"
    using c r(1) q by simp
  moreover have "quiet_bits (b\<lparr>bb_tdo := tdo\<rparr> # rs)"
    using q r(3) by (simp add: quiet_bits_def)
  ultimately show ?case
    using r(2,5) w(1) only_log_trans [OF w(2) r(4)] by simp
qed (simp add: quiet_bits_def)

lemma aspeed_goto:
  assumes "\<not> hw_mode aj" "s0 \<noteq> JTAG_STATE_CURRENT" "src \<noteq> JTAG_STATE_CURRENT" "s \<noteq> JTAG_STATE_CURRENT"
    and "r = 0 \<and> src = tap_of s0 aj \<or> r = 1 \<and> s = JTAG_STATE_TLRESET"
  shows "\<exists>aj' tms. jtag_ioctl slack True aj (JTAG_SIOCSTATE (Some \<lparr>q_reset = r,
      q_from = of_nat (tapstate_num src), q_endstate = of_nat (tapstate_num s)\<rparr>)) True =
      Some (None, NoReply, aj') \<and> \<not> hw_mode aj' \<and> tap_of s0 aj' = s \<and> clocks aj' = clocks aj @ moves tms"
proof -
  let ?ts = "\<lparr>ts_reset = r, ts_from = src, ts_endstate = s\<rparr>"
  have "real_from aj src = src" using assms(3) by (simp add: real_from_def)
  then obtain aj' tms where "aspeed_jtag_status_set aj ?ts = Some aj'" "aspeed_jtag_status_set_26xx aj ?ts = Some aj'"
    "tap_of s0 aj' = s" "clocks aj' = clocks aj @ moves tms" "aj_mode aj' = aj_mode aj"
    using status_set_run [of aj s0 ?ts] assms by (auto simp: moves_def)
  moreover have "\<not> (of_nat (tapstate_num s) :: u8) > 16" "\<not> (of_nat (tapstate_num src) :: u8) > 16" "\<not> r > 1"
    using tapstate_num_of_num assms(3-5) by (auto dest: less_imp_le simp: not_less)
  ultimately show ?thesis
    using tapstate_num_of_num assms(1,3,4)
    by (cases "aj_llops aj") (auto simp: jtag_ioctl_def jtag_ioctl_state_def ops_status_set_def hw_mode_def)
qed

lemma aspeed_clock:
  assumes "\<not> hw_mode aj" "n \<le> length bs" "n < 65535" "quiet_bits bs"
  shows "\<exists>rs aj'. jtag_ioctl slack True aj (JTAG_IOCBITBANG (Some (of_nat n)) (Some bs)) True =
      Some (None, Bits rs, aj') \<and> \<not> hw_mode aj' \<and> length rs = n \<and> quiet_bits rs \<and>
    clocks aj' = clocks aj @ replicate n (False, False) \<and>
    tap_of s0 aj' = tap_run (tap_of s0 aj) (replicate n False)"
proof -
  have q: "quiet_bits (take n bs)"
    using assms(4) by (auto simp: quiet_bits_def dest: in_set_takeD)
  obtain rs aj' where r: "aspeed_jtag_bitbang aj (take n bs) = (rs, aj')" "length rs = n" "quiet_bits rs"
    "only_log aj aj'" "clocks aj' = clocks aj @ replicate n (False, False)"
    using quiet_bitbang [OF q, of aj] assms(2) by auto
  have n: "unat (of_nat n :: u32) = n" using assms(3) by (simp add: unat_of_nat)
  have "tap_of s0 aj' = tap_run (tap_of s0 aj) (replicate n False)"
    using r(5) by (simp add: tap_of_def)
  with r n assms show ?thesis
    by (auto simp: jtag_ioctl_def jtag_ioctl_bitbang_def hw_mode_def only_log_fields)
qed

lemma aspeed_scan:
  assumes "\<not> hw_mode aj" "tap_of s0 aj = shift_state ty" "s \<noteq> JTAG_STATE_CURRENT" "0 < n" "n < 65535"
    and "div_round_up8 n \<le> length bytes" "length slack = 3"
  shows "\<exists>out aj' post bs posts. jtag_ioctl slack True aj (JTAG_IOCXFER (Some
          \<lparr>q_type = (if ty = JTAG_SIR_XFER then 0 else 1), q_direction = 3,
           q_xfrom = of_nat (tapstate_num (shift_state ty)), q_xendstate = of_nat (tapstate_num s),
           q_padding = p, q_length = of_nat n\<rparr>) (Some bytes)) True = Some (None, Bytes out, aj') \<and>
        \<not> hw_mode aj' \<and> tap_of s0 aj' = s \<and> length out = div_round_up8 n \<and>
        clocks aj' = clocks aj @ scan_trace (s \<noteq> shift_state ty) (bbit bytes) n @ moves post \<and>
        tdos aj' = tdos aj @ bs @ posts \<and> length bs = n \<and> length posts = length post \<and>
        (s = shift_state ty \<longrightarrow> post = []) \<and> (\<forall>i < n. bbit out i = bs ! i)"
proof -
  define q where "q = \<lparr>q_type = (if ty = JTAG_SIR_XFER then 0 else 1), q_direction = 3,
           q_xfrom = of_nat (tapstate_num (shift_state ty)), q_xendstate = of_nat (tapstate_num s),
           q_padding = p, q_length = of_nat n\<rparr>"
  have real: "shift_state ty \<noteq> JTAG_STATE_CURRENT" by (cases ty) (simp_all add: shift_state_def)
  have n: "unat (of_nat n :: u32) = n" using assms(5) by (simp add: unat_of_nat)
  then have pos: "(of_nat n :: u32) \<noteq> 0" using assms(4) by (metis less_irrefl unat_0)
  have x: "unat (q_length q) = n" "x_type (xfer_of_req q) = ty" "x_endstate (xfer_of_req q) = s"
    "tapstate_of_num (q_xfrom q) = shift_state ty" "x_direction (xfer_of_req q) = 3"
    "tapstate_of_num (q_xendstate q) = s"
    using n real assms(3) tapstate_num_of_num
    by (auto simp: q_def xfer_of_req_def) (cases ty; simp)
  have ds: "data_size (q_length q) = div_round_up8 n"
    by (simp add: data_size_def x(1) div_round_up8_def)
  have valid: "valid_scan aj s0 q"
    using assms(1-3,5) real tapstate_num_of_num x pos n by (auto simp: valid_scan_def q_def)
  have len: "data_size (q_length q) \<le> length bytes" "3 \<le> length slack"
    using assms(6,7) by (simp_all add: ds)
  obtain out aj' pre post pres posts bs where r:
    "jtag_ioctl slack True aj (JTAG_IOCXFER (Some q) (Some bytes)) True = Some (None, Bytes out, aj')"
    "clocks aj' = clocks aj @ map (\<lambda>t. (t, False)) pre @
      map (\<lambda>i. (Suc i = unat (q_length q) \<and> x_endstate (xfer_of_req q) \<noteq> shift_state (x_type (xfer_of_req q)),
        writes (xfer_of_req q) \<longrightarrow> bbit bytes i)) [0 ..< unat (q_length q)] @
      map (\<lambda>t. (t, False)) post"
    "tap_of s0 aj' = tapstate_of_num (q_xendstate q)"
    "tdos aj' = tdos aj @ pres @ bs @ posts" "length pres = length pre" "length posts = length post"
    "length bs = unat (q_length q)" "\<forall>i < unat (q_length q). bbit out i = bs ! i"
    "length out = data_size (q_length q)"
    "tapstate_of_num (q_xfrom q) = shift_state (x_type (xfer_of_req q)) \<longrightarrow> pre = []"
    "x_endstate (xfer_of_req q) = shift_state (x_type (xfer_of_req q)) \<longrightarrow> post = []"
    "aj_mode aj' = aj_mode aj"
    by (insert ioctl_xfer_run [OF valid len], elim exE conjE) (rule that; assumption)
  have "pre = []" "pres = []" using r(5,10) x by simp_all
  then have "clocks aj' = clocks aj @ scan_trace (s \<noteq> shift_state ty) (bbit bytes) n @ moves post"
    using r(2) by (simp add: x scan_trace_def moves_def)
  moreover have "\<not> hw_mode aj'" using assms(1) r(12) by (simp add: hw_mode_def)
  ultimately show ?thesis
    using r \<open>pres = []\<close> unfolding q_def [symmetric] x ds by auto
qed

interpretation asp: jtag_device "aspeed_port dev slack"
  "\<lambda>fd aj. fd = dev \<and> \<not> hw_mode aj \<and> s0 \<noteq> JTAG_STATE_CURRENT" "tap_of s0" clocks tdos
  for dev slack s0
proof unfold_locales
  fix fd d src s and r :: u8
  assume "fd = dev \<and> \<not> hw_mode d \<and> s0 \<noteq> JTAG_STATE_CURRENT" "src \<noteq> JTAG_STATE_CURRENT"
    "s \<noteq> JTAG_STATE_CURRENT" "r = 0 \<and> src = tap_of s0 d \<or> r = 1 \<and> s = JTAG_STATE_TLRESET"
  then show "\<exists>d' tms. port_ioctl (aspeed_port dev slack) fd (JTAG_SIOCSTATE (Some \<lparr>q_reset = r,
      q_from = of_nat (tapstate_num src), q_endstate = of_nat (tapstate_num s)\<rparr>)) d =
      Some (None, NoReply, d') \<and> (fd = dev \<and> \<not> hw_mode d' \<and> s0 \<noteq> JTAG_STATE_CURRENT) \<and>
      tap_of s0 d' = s \<and> clocks d' = clocks d @ moves tms"
    using aspeed_goto [of d s0 src s r] by (simp add: aspeed_port_def split_beta)
next
  fix fd d ty s n and bytes :: "u8 list" and p :: u32
  assume "fd = dev \<and> \<not> hw_mode d \<and> s0 \<noteq> JTAG_STATE_CURRENT" "tap_of s0 d = shift_state ty"
    "s \<noteq> JTAG_STATE_CURRENT" "0 < n" "n < 65535" "div_round_up8 n \<le> length bytes"
  then show "\<exists>out d' post bs posts. port_ioctl (aspeed_port dev slack) fd (JTAG_IOCXFER (Some
          \<lparr>q_type = (if ty = JTAG_SIR_XFER then 0 else 1), q_direction = 3,
           q_xfrom = of_nat (tapstate_num (shift_state ty)), q_xendstate = of_nat (tapstate_num s),
           q_padding = p, q_length = of_nat n\<rparr>) (Some bytes)) d = Some (None, Bytes out, d') \<and>
        (fd = dev \<and> \<not> hw_mode d' \<and> s0 \<noteq> JTAG_STATE_CURRENT) \<and> tap_of s0 d' = s \<and>
        length out = div_round_up8 n \<and>
        clocks d' = clocks d @ scan_trace (s \<noteq> shift_state ty) (bbit bytes) n @ moves post \<and>
        tdos d' = tdos d @ bs @ posts \<and> length bs = n \<and> length posts = length post \<and>
        (s = shift_state ty \<longrightarrow> post = []) \<and> (\<forall>i < n. bbit out i = bs ! i)"
    using aspeed_scan [of d s0 ty s n bytes "case slack d of (a, b, c) \<Rightarrow> [a, b, c]" p]
    by (simp add: aspeed_port_def split_beta)
next
  fix fd d n bs
  assume "fd = dev \<and> \<not> hw_mode d \<and> s0 \<noteq> JTAG_STATE_CURRENT" "n \<le> length bs" "n < 65535" "quiet_bits bs"
  then show "\<exists>rs d'. port_ioctl (aspeed_port dev slack) fd (JTAG_IOCBITBANG (Some (of_nat n)) (Some bs)) d =
      Some (None, Bits rs, d') \<and> (fd = dev \<and> \<not> hw_mode d' \<and> s0 \<noteq> JTAG_STATE_CURRENT) \<and> length rs = n \<and>
      quiet_bits rs \<and> clocks d' = clocks d @ replicate n (False, False) \<and>
      tap_of s0 d' = tap_run (tap_of s0 d) (replicate n False)"
    using aspeed_clock [of d n bs _ s0] by (simp add: aspeed_port_def split_beta)
qed

section \<open>Properties\<close>

lemma pad_word_fields:
  "pre_pad_number (pad_word pre post b) = pre mod 4096"
  "post_pad_number (pad_word pre post b) = post mod 4096"
  "pad_data (pad_word pre post b) = b"
proof -
  define p q where "p = take_bit 12 pre" and "q = take_bit 12 post"
  have small: "p < 2 ^ 12" "q < 2 ^ 12" unfolding p_def q_def by (rule take_bit_nat_less_exp)+
  have w: "pad_word pre post b = of_nat p OR push_bit 12 (of_nat q) OR push_bit 24 (of_bool b)"
    by (simp add: pad_word_def p_def q_def take_bit_eq_mod)
  have no: "bit p n \<Longrightarrow> n < 12" "bit q n \<Longrightarrow> n < 12" for n
    by (simp_all add: p_def q_def bit_take_bit_iff)
  have m: "(0xFFF :: u32) = mask 12" by (simp add: mask_eq_exp_minus_1)
  have "pad_word pre post b AND 0xFFF = of_nat p"
    unfolding w m by (rule bit_word_eqI) (auto simp: bit_simps simp del: of_nat_simps dest: no)
  then show "pre_pad_number (pad_word pre post b) = pre mod 4096"
    using small by (simp add: pre_pad_number_def unat_of_nat p_def take_bit_eq_mod)
  have "drop_bit 12 (pad_word pre post b) AND 0xFFF = of_nat q"
    unfolding w m by (rule bit_word_eqI) (auto simp: bit_simps simp del: of_nat_simps dest: no)
  then show "post_pad_number (pad_word pre post b) = post mod 4096"
    using small by (simp add: post_pad_number_def unat_of_nat q_def take_bit_eq_mod)
  show "pad_data (pad_word pre post b) = b"
    unfolding pad_data_def w by (auto simp: bit_simps dest: no)
qed

text \<open>
  C8. A shift of the server, all the way to the pins. With the device in software mode and in the Shift
  state the handler has recorded, \<^verbatim>\<open>JTAG_shift\<close> succeeds and clocks out exactly: the prefix padding of
  the active chain (ones for IR, zeros for DR; only at the start of a scan), the bits of the input, and,
  when the port leaves Shift, the postfix padding, with TMS high on the last of these bits only. The
  port ends in the requested state, which is what the handler records; the samples of the data bits are
  stored in the output and nothing behind the announced size is touched.
\<close>

theorem shift_on_the_pins:
  assumes "handler_ok h" "sw_mode h" "JTAG_driver_handle h = dev" "JTAG_get_tap_state h = shift_state ty"
    and "\<not> hw_mode aj" "s0 \<noteq> JTAG_STATE_CURRENT" "tap_of s0 aj = shift_state ty"
    and "s \<noteq> JTAG_STATE_CURRENT" "0 < n" "n < 65535"
    and "\<And>aj. length (fst (junk aj)) = MAX_DATA_SIZE" "\<And>aj. io_ok n input obytes mem (fst (junk aj))"
  shows "\<exists>mem' aj' pre bs posts tms.
    JTAG_shift junk (aspeed_port dev slack) n input obytes mem s h aj = Some (ST_OK, mem',
      chain_at s (if s = shift_state ty then JTAGScanState_Run else JTAGScanState_Done) h, aj') \<and>
    tap_of s0 aj' = s \<and>
    clocks aj' = clocks aj @ shift_trace ty h (s \<noteq> shift_state ty) (in_bits input) n @ moves tms \<and>
    tdos aj' = tdos aj @ pre @ bs @ posts \<and> length pre = pre_pad ty h \<and> length bs = n \<and>
    stored n obytes mem mem' bs"
  using asp.shift_ok [of h ty dev aj s0 s n junk input obytes mem slack] assms by blast

definition fresh_handler :: JTAG_Handler where
  "fresh_handler = (JTAGHandler \<lparr>chains = [], active_chain = 5, padDataOne = [], padDataZero = [],
     bitbang_data = replicate 256 \<lparr>bb_tms = 3, bb_tdi = 3, bb_tdo = 3\<rparr>, JTAG_driver_handle = 0,
     sw_mode = False\<rparr>)"

lemma fresh_handler_ok [simp]: "handler_ok fresh_handler"
  by (simp add: handler_ok_def fresh_handler_def JTAGHandler_def initialize_jtag_chains_def chain_ok_def
      no_padding_def quiet_bits_def upt_conv_Cons)

text \<open>A driver whose device has been moved to Shift-DR by hand.\<close>

definition shiftdr_device :: aspeed_jtag where
  "shiftdr_device = clock_levels [False, True, False, False] reset_device"

lemma shiftdr_device_simps [simp]:
  "tap_of JTAG_STATE_TLRESET shiftdr_device = JTAG_STATE_SHIFTDR" "\<not> hw_mode shiftdr_device"
  by (simp_all add: shiftdr_device_def hw_mode_def only_log_fields [OF clock_levels_only_log])

lemma shift_on_the_pins_witness:
  defines "h \<equiv> chain_at JTAG_STATE_SHIFTDR JTAGScanState_Done fresh_handler"
  shows "\<exists>mem' aj' pre bs posts tms.
    JTAG_shift (\<lambda>_. (replicate 3000 7, 9)) (aspeed_port (-1) (\<lambda>_. (1, 2, 3))) 12 (Some [0xA5, 0x0F]) 2
      (Some [0, 0, 0]) JTAG_STATE_EXIT1DR h shiftdr_device = Some (ST_OK, mem',
      chain_at JTAG_STATE_EXIT1DR (if JTAG_STATE_EXIT1DR = shift_state JTAG_SDR_XFER then JTAGScanState_Run
        else JTAGScanState_Done) h, aj') \<and>
    tap_of JTAG_STATE_TLRESET aj' = JTAG_STATE_EXIT1DR \<and>
    clocks aj' = clocks shiftdr_device @ shift_trace JTAG_SDR_XFER h
      (JTAG_STATE_EXIT1DR \<noteq> shift_state JTAG_SDR_XFER) (in_bits (Some [0xA5, 0x0F])) 12 @ moves tms \<and>
    tdos aj' = tdos shiftdr_device @ pre @ bs @ posts \<and> length pre = pre_pad JTAG_SDR_XFER h \<and>
    length bs = 12 \<and> stored 12 2 (Some [0, 0, 0]) mem' bs"
  by (rule shift_on_the_pins)
    (simp_all add: h_def shift_state_def JTAG_get_tap_state_def io_ok_def div_round_up8_def,
     simp_all add: fresh_handler_def JTAGHandler_def initialize_jtag_chains_def)

lemma master_enable_mode [simp]: "aj_mode (llops_master_enable aj) = aj_mode aj"
  by (cases "aj_llops aj")
    (auto simp: llops_master_enable_def aspeed_jtag_master_def aspeed_jtag_master_26xx_def Let_def split_beta
      only_log_fields [OF only_log_io(1)] only_log_fields [OF only_log_io(2)])

lemma JTAGHandler_ok:
  assumes "length (bitbang_data garbage) = MAX_WAIT_CYCLES"
  shows "handler_ok (JTAGHandler garbage)"
  using assms by (simp add: handler_ok_def JTAGHandler_def initialize_jtag_chains_def chain_ok_def
      no_padding_def quiet_bits_def upt_conv_Cons)

lemma initialize_chains_ok:
  assumes "handler_ok h"
  shows "handler_ok (initialize_jtag_chains h)"
    "JTAG_get_tap_state (initialize_jtag_chains h) = JTAG_STATE_TLRESET"
  using assms by (auto simp: handler_ok_def initialize_jtag_chains_def chain_ok_def no_padding_def
      JTAG_get_tap_state_def active_def list_all_iff)

lemma aspeed_initialize:
  assumes "handler_ok h" "dev \<noteq> -1" "s0 \<noteq> JTAG_STATE_CURRENT"
  shows "\<exists>h' aj'. JTAG_initialize (aspeed_port dev slack) True h aj = Some (ST_OK, h', aj') \<and>
    asp.agree dev s0 h' aj'"
proof -
  let ?port = "aspeed_port dev slack"
  let ?h = "h\<lparr>sw_mode := True, JTAG_driver_handle := dev\<rparr>"
  define aj1 where "aj1 = llops_master_enable ((snd (jtag_open aj))\<lparr>aj_mode := 0\<rparr>)"
  have mode: "port_ioctl ?port dev (JTAG_SIOCMODE (Some \<lparr>jm_feature = 0, jm_mode = 0\<rparr>)) (snd (jtag_open aj)) =
      Some (None, NoReply, aj1)"
    by (simp add: aspeed_port_def jtag_ioctl_def aspeed_jtag_mode_set_def aj1_def split_beta)
  have h: "handler_ok ?h" using assms(1) by (simp add: handler_ok_def active_def)
  have rd: "JTAG_driver_handle ?h = dev \<and> \<not> hw_mode aj1 \<and> s0 \<noteq> JTAG_STATE_CURRENT"
    using assms(3) by (simp add: hw_mode_def aj1_def)
  obtain h' aj' where t: "JTAG_set_tap_state ?port JTAG_STATE_TLRESET ?h aj1 = Some (ST_OK, h', aj')"
    "handler_ok h'" "\<exists>bs. h' = (upd_active (\<lambda>c. c\<lparr>tap_state := JTAG_STATE_TLRESET\<rparr>) ?h)\<lparr>bitbang_data := bs\<rparr>"
    "JTAG_driver_handle h' = dev \<and> \<not> hw_mode aj' \<and> s0 \<noteq> JTAG_STATE_CURRENT" "tap_of s0 aj' = JTAG_STATE_TLRESET"
    using asp.set_tap_state_ok [OF h rd, of JTAG_STATE_TLRESET slack] by blast
  have "JTAG_initialize ?port True h aj = Some (ST_OK, initialize_jtag_chains h', aj')"
    using mode t(1) assms(2) by (simp add: JTAG_initialize_def aspeed_port_def Let_def)
  moreover have "sw_mode (initialize_jtag_chains h')" "JTAG_driver_handle (initialize_jtag_chains h') = dev"
    using t(3,4) by (auto simp: initialize_jtag_chains_def)
  moreover from this have "asp.agree dev s0 (initialize_jtag_chains h') aj'"
    unfolding asp.agree_def using t(4,5) initialize_chains_ok [OF t(2)] by (intro conjI) simp_all
  ultimately show ?thesis by blast
qed



text \<open>
  The bounds on padding. \<^verbatim>\<open>JTAG_set_padding\<close> accepts up to 250 bits for DR and 2000 for IR and changes
  nothing otherwise; every accepted value survives the twelve-bit fields of the padding word of a
  hardware-mode request, as the driver reads them. But the driver of the older generation refuses a
  prefix above 512 bits: after such a value every hardware-mode shift that starts a scan fails, before
  it has clocked out anything.
\<close>

theorem padding_bounds:
  assumes "handler_ok h" "\<not> sw_mode h" "JTAG_driver_handle h = dev" "JTAG_get_tap_state h = JTAG_STATE_SHIFTIR"
    and "scan_state (active h) = JTAGScanState_Done" "0 < n" "n < 65535" "hw_mode aj" "aj_llops aj = Ast25xx"
  shows "(let (st, h') = JTAG_set_padding JTAGPaddingTypes_IRPre v h
     in (v > IRMAXPADSIZE \<longrightarrow> st = ST_ERR \<and> h' = h) \<and>
        (v \<le> IRMAXPADSIZE \<longrightarrow> st = ST_OK \<and> pre_pad_number (pad_word (irPre (shift_padding (active h'))) post b) = v) \<and>
        (512 < v \<and> v \<le> IRMAXPADSIZE \<longrightarrow>
          (\<exists>mem' h'' aj'. JTAG_shift junk (aspeed_port dev slack) n input obytes mem s h' aj =
             Some (ST_ERR, mem', h'', aj') \<and> clocks aj' = clocks aj)))"
proof -
  let ?port = "aspeed_port dev slack"
  obtain st h' where p: "JTAG_set_padding JTAGPaddingTypes_IRPre v h = (st, h')" by fastforce
  have "\<exists>mem' h'' aj'. JTAG_shift junk ?port n input obytes mem s h' aj = Some (ST_ERR, mem', h'', aj') \<and>
      clocks aj' = clocks aj" if v: "512 < v" "v \<le> IRMAXPADSIZE"
  proof -
    have h': "h' = upd_active (\<lambda>c. c\<lparr>shift_padding := (shift_padding c)\<lparr>irPre := v\<rparr>\<rparr>) h"
      using p v by (simp add: JTAG_set_padding_def)
    define k where "k = (if JTAG_STATE_SHIFTIR = s then 0 else irPost (shift_padding (active h')))"
    define q where "q = \<lparr>q_type = 0, q_direction = 3, q_xfrom = of_nat (tapstate_num JTAG_STATE_SHIFTIR),
       q_xendstate = of_nat (tapstate_num s), q_padding = pad_word v k True, q_length = of_nat n\<rparr>"
    have num: "\<not> (of_nat (tapstate_num s) :: u8) > 16" by (cases s) simp_all
    have pad: "pre_pad_number (q_padding q) = v"
      using v by (simp add: q_def pad_word_fields)
    have len: "unat (of_nat n :: u32) = n" using assms(7) by (simp add: unat_of_nat)
    have hw: "aspeed_jtag_xfer aj (xfer_of_req q) data =
        Some (Some EFAULT, data, aspeed_jtag_write 0 ASPEED_JTAG_SW aj)" for data
      using assms(8,9) v pad by (simp add: aspeed_jtag_xfer_def llops_xfer_hw_def aspeed_jtag_xfer_hw_def
          xfer_hw_pad_def xfer_of_req_def only_log_fields [OF only_log_io(1)])
    then have io: "port_ioctl ?port dev (JTAG_IOCXFER (Some q) (Some buf)) aj =
        Some (Some EFAULT, NoReply, aspeed_jtag_write 0 ASPEED_JTAG_SW aj)" for buf
      using assms(7) num len by (simp add: aspeed_port_def split_beta jtag_ioctl_def jtag_ioctl_xfer_def Let_def q_def)
    have h: "\<not> sw_mode h'" "JTAG_driver_handle h' = dev" "JTAG_get_tap_state h' = JTAG_STATE_SHIFTIR"
      "scan_state (active h') = JTAGScanState_Done" "irPre (shift_padding (active h')) = v"
      using assms(1-5) by (simp_all add: h' JTAG_get_tap_state_def)
    have "\<exists>mem' h''. JTAG_shift junk ?port n input obytes mem s h' aj =
        Some (ST_ERR, mem', h'', aspeed_jtag_write 0 ASPEED_JTAG_SW aj)"
      using io h by (auto simp: JTAG_shift_def JTAG_shift_hw_def xfer_ioctl_def q_def k_def Let_def)
    then show ?thesis by auto
  qed
  moreover have "v \<le> IRMAXPADSIZE \<longrightarrow>
      pre_pad_number (pad_word (irPre (shift_padding (active h'))) post b) = v"
    using p assms(1) by (auto simp: JTAG_set_padding_def pad_word_fields)
  moreover have "v > IRMAXPADSIZE \<longrightarrow> st = ST_ERR \<and> h' = h" "v \<le> IRMAXPADSIZE \<longrightarrow> st = ST_OK"
    using p by (auto simp: JTAG_set_padding_def)
  ultimately show ?thesis by (simp add: p)
qed

lemma padding_bounds_witness:
  "\<exists>h' mem' h'' aj'. JTAG_set_padding JTAGPaddingTypes_IRPre 600 (chain_at JTAG_STATE_SHIFTIR JTAGScanState_Done
       (fresh_handler\<lparr>sw_mode := False\<rparr>)) = (ST_OK, h') \<and>
     JTAG_shift (\<lambda>_. ([], 0)) (aspeed_port (-1) (\<lambda>_. (1, 2, 3))) 8 (Some [1]) 1 (Some [0]) JTAG_STATE_IDLE h'
       (reset_device\<lparr>aj_mode := 1, aj_llops := Ast25xx\<rparr>) = Some (ST_ERR, mem', h'', aj') \<and>
     clocks aj' = clocks (reset_device\<lparr>aj_mode := 1, aj_llops := Ast25xx\<rparr>)"
proof -
  let ?h = "chain_at JTAG_STATE_SHIFTIR JTAGScanState_Done (fresh_handler\<lparr>sw_mode := False\<rparr>)"
  have ok: "handler_ok (fresh_handler\<lparr>sw_mode := False\<rparr>)"
    using fresh_handler_ok by (simp add: handler_ok_def)
  have "JTAG_driver_handle fresh_handler = -1" by (simp add: fresh_handler_def JTAGHandler_def)
  with ok padding_bounds [of ?h "-1" 8 "reset_device\<lparr>aj_mode := 1, aj_llops := Ast25xx\<rparr>" 600 0 True
      "\<lambda>_. ([], 0)" "\<lambda>_. (1, 2, 3)" "Some [1]" 1 "Some [0]" JTAG_STATE_IDLE]
  show ?thesis
    by (cases "JTAG_set_padding JTAGPaddingTypes_IRPre 600 ?h")
      (auto simp: hw_mode_def JTAG_get_tap_state_def)
qed

end
