(* ===== verification/Asd_State.thy ===== *)
theory Asd_State
  imports Config Vprobe Jtag_Handler
begin

text \<open>
  The state of the message engine, \<^verbatim>\<open>struct ASD_MSG\<close>, and what its functions call outside of
  \<^verbatim>\<open>asd_msg.c\<close>: the JTAG driver below \<^verbatim>\<open>jtag_handler.c\<close> and the operations of \<^verbatim>\<open>target_handler.c\<close>.
\<close>

text \<open>The pins of the protocol and the operations on the target, over the state \<open>'t\<close> of its handler.\<close>

abbreviation (input) "PIN_PWRGOOD \<equiv> 0 :: nat"
abbreviation (input) "PIN_PREQ \<equiv> 1 :: nat"
abbreviation (input) "PIN_RESET_BUTTON \<equiv> 2 :: nat"
abbreviation (input) "PIN_POWER_BUTTON \<equiv> 3 :: nat"
abbreviation (input) "PIN_EARLY_BOOT_STALL \<equiv> 4 :: nat"
abbreviation (input) "PIN_SYS_PWR_OK \<equiv> 5 :: nat"
abbreviation (input) "PIN_PRDY \<equiv> 6 :: nat"
abbreviation (input) "PIN_TCK_MUX_SELECT \<equiv> 7 :: nat"
abbreviation (input) "PIN_MAX \<equiv> 8 :: nat"
abbreviation (input) "WRITE_CONFIG_MAX \<equiv> 5 :: nat"

record 't target_ops =
  op_write :: "nat \<Rightarrow> bool \<Rightarrow> 't \<Rightarrow> status \<times> 't"
  op_read :: "nat \<Rightarrow> 't \<Rightarrow> status \<times> bool \<times> 't"
  op_write_event_config :: "nat \<Rightarrow> bool \<Rightarrow> 't \<Rightarrow> status \<times> 't"
  op_wait_PRDY :: "u8 \<Rightarrow> 't \<Rightarrow> status \<times> 't"
  op_wait_sync :: "u16 \<Rightarrow> u16 \<Rightarrow> 't \<Rightarrow> status \<times> 't"

datatype ReadState = READ_STATE_INITIAL | READ_STATE_HEADER | READ_STATE_BUFFER

record incoming_msg =
  read_index :: int
  in_data_size :: int
  read_state :: ReadState
  imsg :: asd_message

text \<open>
  \<open>'d\<close> is the JTAG device below the handler, \<open>'t\<close> the state of the target handler and \<open>'b\<close> that of the
  two bus handlers. The send function with its callback state is \<open>client\<close>.
\<close>

record ('d, 't, 'b) ASD_MSG =
  asd_cfg :: config
  in_msg :: incoming_msg
  out_msg :: asd_message
  jtag_handler :: JTAG_Handler
  jtag_dev :: 'd
  target_handler :: 't
  buses :: 'b
  vprobe_handler :: vProbe_Handler
  handlers_initialized :: bool
  prdy_timeout :: u8
  jtag_chain_mode :: JTAG_CHAIN_SELECT_MODE
  bmc_version :: "u8 list"
  bmc_version_size :: int
  xdp_fail_enable :: bool
  client :: transport

text \<open>
  What surrounds the engine: the contents of the stack in a shift and in a send, the JTAG driver
  and the target.
\<close>

record ('d, 't) asd_env =
  shift_junk :: "'d junk"
  send_junk :: "u8 list"
  jtag_driver :: "'d jtag_port"
  target :: "'t target_ops"

text \<open>A call that keeps the status of a failed one, in the pattern \<^verbatim>\<open>if (status != ST_OK) break;\<close>.\<close>

definition then_ok :: "'s outcome \<Rightarrow> ('s \<Rightarrow> 's outcome) \<Rightarrow> 's outcome" where
  "then_ok m f = (case m of None \<Rightarrow> None | Some (st, s) \<Rightarrow> if st = ST_OK then f s else Some (st, s))"

lemma then_ok_simps [simp]:
  "then_ok None f = None"
  "then_ok (Some (ST_OK, s)) f = f s"
  "st \<noteq> ST_OK \<Longrightarrow> then_ok (Some (st, s)) f = Some (st, s)"
  by (simp_all add: then_ok_def)

lemma then_ok_cong [fundef_cong]:
  assumes "m = m'" "\<And>s. m' = Some (ST_OK, s) \<Longrightarrow> f s = f' s"
  shows "then_ok m f = then_ok m' f'"
  using assms by (auto simp: then_ok_def split: option.split)

lemma then_ok_SomeE:
  assumes "then_ok m f = Some (st, s')"
  obtains (ok) s where "m = Some (ST_OK, s)" "f s = Some (st, s')"
  | (err) "m = Some (st, s')" "st \<noteq> ST_OK"
  using assms by (auto simp: then_ok_def split: option.splits if_splits)

text \<open>Calls on one part of the state.\<close>

definition on_jtag :: "(JTAG_Handler \<Rightarrow> 'd \<Rightarrow> (JTAG_Handler \<times> 'd) outcome) \<Rightarrow> ('d, 't, 'b) ASD_MSG
    \<Rightarrow> ('d, 't, 'b) ASD_MSG outcome" where
  "on_jtag f s = (case f (jtag_handler s) (jtag_dev s) of
       None \<Rightarrow> None | Some (st, h, d) \<Rightarrow> Some (st, s\<lparr>jtag_handler := h, jtag_dev := d\<rparr>))"

definition on_target :: "('t \<Rightarrow> status \<times> 't) \<Rightarrow> ('d, 't, 'b) ASD_MSG \<Rightarrow> status \<times> ('d, 't, 'b) ASD_MSG" where
  "on_target f s = (let (st, t) = f (target_handler s) in (st, s\<lparr>target_handler := t\<rparr>))"

text \<open>What a packet of commands never touches.\<close>

definition fixed_part :: "('d, 't, 'b) ASD_MSG \<Rightarrow> bool \<times> vProbe_Handler \<times> u8 list \<times> int \<times> bool" where
  "fixed_part s = (handlers_initialized s, vprobe_handler s, bmc_version s, bmc_version_size s, xdp_fail_enable s)"

lemma fixed_part_update [simp]:
  "fixed_part (s\<lparr>asd_cfg := a\<rparr>) = fixed_part s" "fixed_part (s\<lparr>in_msg := b\<rparr>) = fixed_part s"
  "fixed_part (s\<lparr>out_msg := c\<rparr>) = fixed_part s" "fixed_part (s\<lparr>jtag_handler := h\<rparr>) = fixed_part s"
  "fixed_part (s\<lparr>jtag_dev := d\<rparr>) = fixed_part s" "fixed_part (s\<lparr>target_handler := t\<rparr>) = fixed_part s"
  "fixed_part (s\<lparr>buses := e\<rparr>) = fixed_part s" "fixed_part (s\<lparr>prdy_timeout := i\<rparr>) = fixed_part s"
  "fixed_part (s\<lparr>jtag_chain_mode := j\<rparr>) = fixed_part s" "fixed_part (s\<lparr>client := k\<rparr>) = fixed_part s"
  by (simp_all add: fixed_part_def)

lemma on_jtag_frame:
  assumes "on_jtag f s = Some (st, s')"
  shows "out_msg s' = out_msg s" "in_msg s' = in_msg s" "client s' = client s" "asd_cfg s' = asd_cfg s"
    "fixed_part s' = fixed_part s" "buses s' = buses s"
  using assms by (auto simp: on_jtag_def split: option.splits)

lemma on_target_frame:
  assumes "on_target f s = (st, s')"
  shows "out_msg s' = out_msg s" "in_msg s' = in_msg s" "client s' = client s" "asd_cfg s' = asd_cfg s"
    "fixed_part s' = fixed_part s" "buses s' = buses s"
  using assms by (auto simp: on_target_def split: prod.splits)

end
