(* ===== verification/Asd_Jtag.thy ===== *)
theory Asd_Jtag
  imports Asd_State
begin

text \<open>
  \<^verbatim>\<open>process_jtag_message\<close> of \<^verbatim>\<open>asd_msg.c\<close>: the commands of a JTAG packet, one definition for each branch
  of its loop, the peek that finds the end state of a scan, the loop and the response. A command
  works on the engine, the reader of the payload and the number of response bytes.
\<close>

section \<open>Reading commands\<close>

type_synonym ('d, 't, 'b) jstate = "('d, 't, 'b) ASD_MSG \<times> packet_data \<times> nat"

abbreviation (input) "WRITE_EVENT_CONFIG \<equiv> 0 :: u8"
abbreviation (input) "JTAG_FREQ \<equiv> 1 :: u8"
abbreviation (input) "DR_PREFIX \<equiv> 2 :: u8"
abbreviation (input) "DR_POSTFIX \<equiv> 3 :: u8"
abbreviation (input) "IR_PREFIX \<equiv> 4 :: u8"
abbreviation (input) "IR_POSTFIX \<equiv> 5 :: u8"
abbreviation (input) "PRDY_TIMEOUT \<equiv> 6 :: u8"
abbreviation (input) "WRITE_PINS \<equiv> 7 :: u8"
abbreviation (input) "READ_STATUS_MIN \<equiv> 8 :: u8"
abbreviation (input) "READ_STATUS_MAX \<equiv> 0xf :: u8"
abbreviation (input) "WAIT_CYCLES_TCK_DISABLE \<equiv> 0x10 :: u8"
abbreviation (input) "WAIT_CYCLES_TCK_ENABLE \<equiv> 0x11 :: u8"
abbreviation (input) "WAIT_PRDY \<equiv> 0x12 :: u8"
abbreviation (input) "CLEAR_TIMEOUT \<equiv> 0x13 :: u8"
abbreviation (input) "TAP_RESET \<equiv> 0x14 :: u8"
abbreviation (input) "WAIT_SYNC \<equiv> 0x19 :: u8"
abbreviation (input) "TAP_STATE_MIN \<equiv> 0x20 :: u8"
abbreviation (input) "TAP_STATE_MAX \<equiv> 0x2f :: u8"
abbreviation (input) "WRITE_SCAN_MIN \<equiv> 0x40 :: u8"
abbreviation (input) "WRITE_SCAN_MAX \<equiv> 0x7f :: u8"
abbreviation (input) "READ_SCAN_MIN \<equiv> 0x80 :: u8"
abbreviation (input) "READ_SCAN_MAX \<equiv> 0xbf :: u8"
abbreviation (input) "READ_WRITE_SCAN_MIN \<equiv> 0xc0 :: u8"
abbreviation (input) "SCAN_CHAIN_SELECT \<equiv> 0x40 :: u8"

text \<open>The branches that give up on a short packet.\<close>

definition need :: "nat \<Rightarrow> ('d, 't, 'b) jstate \<Rightarrow> (u8 list \<Rightarrow> ('d, 't, 'b) jstate \<Rightarrow> ('d, 't, 'b) jstate outcome)
    \<Rightarrow> ('d, 't, 'b) jstate outcome" where
  "need n x f = (case x of (s, p, rc) \<Rightarrow>
     case get_packet_data p n of
       None \<Rightarrow> Some (ST_ERR, x)
     | Some (bs, p) \<Rightarrow> f bs (s, p, rc))"

definition engine :: "(('d, 't, 'b) ASD_MSG \<Rightarrow> ('d, 't, 'b) ASD_MSG outcome) \<Rightarrow> ('d, 't, 'b) jstate
    \<Rightarrow> ('d, 't, 'b) jstate outcome" where
  "engine f x = (case x of (s, p, rc) \<Rightarrow>
     case f s of None \<Rightarrow> None | Some (st, s) \<Rightarrow> Some (st, s, p, rc))"

section \<open>The target\<close>

definition write_event_config :: "('d, 't) asd_env \<Rightarrow> u8 \<Rightarrow> ('d, 't, 'b) ASD_MSG \<Rightarrow> status \<times> ('d, 't, 'b) ASD_MSG" where
  "write_event_config env data_byte s =
     (let enable = (drop_bit 7 data_byte = 1); event_cfg_raw = data_byte AND 0x7f
      in if unat event_cfg_raw < WRITE_CONFIG_MAX
         then on_target (op_write_event_config (target env) (unat event_cfg_raw) enable) s
         else (ST_OK, s))"

definition cmd_write_event_config :: "('d, 't) asd_env \<Rightarrow> ('d, 't, 'b) jstate \<Rightarrow> ('d, 't, 'b) jstate outcome" where
  "cmd_write_event_config env x = need 1 x (\<lambda>data. engine (\<lambda>s. Some (write_event_config env (data ! 0) s)))"

text \<open>The answer to a read of a pin: the command and the pin, whose bit 7 tells that it is asserted.\<close>

definition read_status :: "('d, 't) asd_env \<Rightarrow> u8 \<Rightarrow> u8 \<Rightarrow> ('d, 't, 'b) ASD_MSG
    \<Rightarrow> status \<times> u8 list \<times> ('d, 't, 'b) ASD_MSG" where
  "read_status env index pin s =
     (let (st, asserted, t) = op_read (target env) (unat pin) (target_handler s);
          s = s\<lparr>target_handler := t\<rparr>
      in if st = ST_OK then (st, [READ_STATUS_MIN + index, if asserted then pin OR push_bit 7 1 else pin], s)
         else (st, [], s))"

definition respond :: "u8 list \<Rightarrow> ('d, 't, 'b) jstate \<Rightarrow> ('d, 't, 'b) jstate" where
  "respond bs x = (case x of (s, p, rc) \<Rightarrow>
     (s\<lparr>out_msg := (out_msg s)\<lparr>buffer := take rc (buffer (out_msg s)) @ bs @
          drop (rc + length bs) (buffer (out_msg s))\<rparr>\<rparr>, p, rc + length bs))"

definition cmd_read_status :: "('d, 't) asd_env \<Rightarrow> u8 \<Rightarrow> ('d, 't, 'b) jstate \<Rightarrow> ('d, 't, 'b) jstate outcome" where
  "cmd_read_status env cmd x = need 1 x (\<lambda>data (s, p, rc).
     if rc + 2 > MAX_DATA_SIZE then Some (ST_ERR, s, p, rc)
     else let (st, bs, s) = read_status env (cmd AND 7) ((data ! 0) AND 0x7f) s
          in Some (st, respond bs (s, p, rc)))"

definition cmd_wait_prdy :: "('d, 't) asd_env \<Rightarrow> ('d, 't, 'b) jstate \<Rightarrow> ('d, 't, 'b) jstate outcome" where
  "cmd_wait_prdy env x =
     engine (\<lambda>s. Some (on_target (op_wait_PRDY (target env) (prdy_timeout s)) s)) x"

text \<open>A sync signal that does not come in time is no error.\<close>

definition cmd_wait_sync :: "('d, 't) asd_env \<Rightarrow> ('d, 't, 'b) jstate \<Rightarrow> ('d, 't, 'b) jstate outcome" where
  "cmd_wait_sync env x = need 4 x (\<lambda>d (s, p, rc).
     let timeout = ucast (d ! 0) + push_bit 8 (ucast (d ! 1)); delay = ucast (d ! 2) + push_bit 8 (ucast (d ! 3));
         (st, s) = on_target (op_wait_sync (target env) timeout delay) s
     in Some (if st = ST_TIMEOUT then ST_OK else st, s, p, rc))"

section \<open>Configuration commands\<close>

definition prescale_value :: "u8 \<Rightarrow> u8" where
  "prescale_value n = (if n = 0 then 1 else if n = 1 then 2 else if n = 2 then 4 else if n = 3 then 8 else 1)"

text \<open>The divisor of the clock as the byte \<^verbatim>\<open>tCLK\<close>.\<close>

definition tck_divisor :: "u8 \<Rightarrow> u8" where
  "tck_divisor data =
     (let prescaleVal = prescale_value (drop_bit 5 data); divisorVal = data AND 0x1f;
          divisorVal = (if divisorVal = 0 then 64 else divisorVal)
      in prescaleVal * divisorVal)"

definition set_padding :: "JTAGPaddingTypes \<Rightarrow> nat \<Rightarrow> ('d, 't, 'b) ASD_MSG \<Rightarrow> ('d, 't, 'b) ASD_MSG outcome" where
  "set_padding ty v s = on_jtag (\<lambda>h d. let (st, h) = JTAG_set_padding ty v h in Some (st, h, d)) s"

definition write_cfg :: "('d, 't) asd_env \<Rightarrow> u8 \<Rightarrow> ('d, 't, 'b) jstate \<Rightarrow> ('d, 't, 'b) jstate outcome" where
  "write_cfg env cmd x =
     (if cmd = JTAG_FREQ then need 1 x (\<lambda>d.
        engine (on_jtag (JTAG_set_jtag_tck (jtag_driver env) (unat (tck_divisor (d ! 0))))))
      else if cmd = DR_PREFIX then need 1 x (\<lambda>d. engine (set_padding JTAGPaddingTypes_DRPost (unat (d ! 0))))
      else if cmd = DR_POSTFIX then need 1 x (\<lambda>d. engine (set_padding JTAGPaddingTypes_DRPre (unat (d ! 0))))
      else if cmd = IR_PREFIX then need 2 x (\<lambda>d.
        engine (set_padding JTAGPaddingTypes_IRPost (256 * unat (d ! 1) + unat (d ! 0))))
      else if cmd = IR_POSTFIX then need 2 x (\<lambda>d.
        engine (set_padding JTAGPaddingTypes_IRPre (256 * unat (d ! 1) + unat (d ! 0))))
      else if cmd = PRDY_TIMEOUT then need 1 x (\<lambda>d. engine (\<lambda>s. Some (ST_OK, s\<lparr>prdy_timeout := d ! 0\<rparr>)))
      else Some (ST_ERR, x))"

section \<open>Pins\<close>

definition asd_write_set_active_chain_event :: "('d, 't) asd_env \<Rightarrow> u8 \<Rightarrow> ('d, 't, 'b) ASD_MSG
    \<Rightarrow> ('d, 't, 'b) ASD_MSG outcome" where
  "asd_write_set_active_chain_event env scan_chain s =
     (let (st, s) = on_target (op_write (target env) PIN_TCK_MUX_SELECT (scan_chain = 1)) s
      in if st \<noteq> ST_OK then Some (st, s)
         else on_jtag (\<lambda>h d. let (st, h) = JTAG_set_active_chain (uint scan_chain) h in Some (st, h, d)) s)"

text \<open>
  After the reset button has been asserted, the wait commands that follow (a command and its count)
  are dropped.
\<close>

function skip_wait_cycles :: "packet_data \<Rightarrow> status \<times> packet_data" where
  "skip_wait_cycles p =
     (if used p < total p
      then case get_packet_data p 2 of
             None \<Rightarrow> (ST_ERR, p)
           | Some (d, p') \<Rightarrow> if d ! 0 \<noteq> WAIT_CYCLES_TCK_DISABLE then (ST_OK, unget 2 p')
                             else skip_wait_cycles p'
      else (ST_OK, p))"
  by auto
termination
  by (relation "measure (\<lambda>p. total p - used p)") (auto simp: get_packet_data_def split: if_splits)

declare skip_wait_cycles.simps [simp del]

text \<open>
  The bytes of a selection of several chains are only read; the loop over them stops at a short
  packet, where the loop over the commands ends as well.
\<close>

fun read_chain_bytes :: "nat \<Rightarrow> packet_data \<Rightarrow> status \<times> packet_data" where
  "read_chain_bytes 0 p = (ST_OK, p)"
| "read_chain_bytes (Suc n) p = (case get_packet_data p 1 of
       None \<Rightarrow> (ST_ERR, p)
     | Some (_, p) \<Rightarrow> read_chain_bytes n p)"

definition cmd_write_pins :: "('d, 't) asd_env \<Rightarrow> ('d, 't, 'b) jstate \<Rightarrow> ('d, 't, 'b) jstate outcome" where
  "cmd_write_pins env x = need 1 x (\<lambda>data (s, p, rc).
     let asrt = (drop_bit 7 (data ! 0) = 1); index = data ! 0 AND 0x7f
     in if unat index < PIN_MAX then
          let (st, s) = on_target (op_write (target env) (unat index) asrt) s
          in if st \<noteq> ST_OK then Some (st, s, p, rc)
             else if unat index = PIN_RESET_BUTTON \<and> asrt
                  then let (st, p) = skip_wait_cycles p in Some (st, s, p, rc)
             else Some (ST_OK, s, p, rc)
        else if index AND SCAN_CHAIN_SELECT = SCAN_CHAIN_SELECT then
          (if jtag_chain_mode s = JTAG_CHAIN_SELECT_MODE_SINGLE then
             let scan_chain = index AND 0xf
             in if unat scan_chain \<ge> MAX_SCAN_CHAINS then Some (ST_ERR, s, p, rc)
                else engine (asd_write_set_active_chain_event env scan_chain) (s, p, rc)
           else let (st, p) = read_chain_bytes (unat (index AND 0xf) + 1) p in Some (st, s, p, rc))
        else Some (ST_ERR, s, p, rc))"
section \<open>Clocking and scanning\<close>

text \<open>A count of zero means 256 cycles.\<close>

definition cmd_wait_cycles :: "('d, 't) asd_env \<Rightarrow> ('d, 't, 'b) jstate \<Rightarrow> ('d, 't, 'b) jstate outcome" where
  "cmd_wait_cycles env x = need 1 x (\<lambda>d.
     let number_of_cycles = unat (d ! 0);
         number_of_cycles = (if number_of_cycles = 0 then 256 else number_of_cycles)
     in engine (on_jtag (JTAG_wait_cycles (jtag_driver env) number_of_cycles)))"

definition cmd_tap_reset :: "('d, 't) asd_env \<Rightarrow> ('d, 't, 'b) jstate \<Rightarrow> ('d, 't, 'b) jstate outcome" where
  "cmd_tap_reset env = engine (on_jtag (JTAG_tap_reset (jtag_driver env)))"

definition cmd_tap_state :: "('d, 't) asd_env \<Rightarrow> u8 \<Rightarrow> ('d, 't, 'b) jstate \<Rightarrow> ('d, 't, 'b) jstate outcome" where
  "cmd_tap_state env cmd = engine (on_jtag (JTAG_set_tap_state (jtag_driver env) (tapstate_of_num (cmd AND 0xf))))"

definition get_scan_length :: "u8 \<Rightarrow> nat \<times> nat" where
  "get_scan_length cmd =
     (let num_of_bits = unat (cmd AND 0x3f); num_of_bytes = (num_of_bits + 7) div 8
      in if num_of_bits = 0 then (64, 8) else (num_of_bits, num_of_bytes))"

datatype ScanType = ScanType_Read | ScanType_Write | ScanType_ReadWrite

definition is_tap_cmd :: "u8 \<Rightarrow> bool" where
  "is_tap_cmd c \<longleftrightarrow> TAP_STATE_MIN \<le> c \<and> c \<le> TAP_STATE_MAX"

text \<open>A peek: the first of the bytes, or a null pointer.\<close>

definition peek :: "nat \<Rightarrow> packet_data \<Rightarrow> u8 option \<times> packet_data" where
  "peek n p = (case get_packet_data p n of None \<Rightarrow> (None, p) | Some (bs, p') \<Rightarrow> (Some (bs ! 0), p'))"

text \<open>
  In hardware mode the scan is followed past its TAP state command to the next one, over the
  commands that do not move the TAP. The result is the command found, the number of bytes peeked
  at and the reader.
\<close>

definition peek_over :: "u8 \<Rightarrow> nat" where
  "peek_over c =
     (if c \<in> {WRITE_EVENT_CONFIG, DR_PREFIX, DR_POSTFIX, WAIT_CYCLES_TCK_DISABLE, WAIT_CYCLES_TCK_ENABLE, JTAG_FREQ}
      then 1 else if c \<in> {IR_PREFIX, IR_POSTFIX} then 2 else 0)"

function peek_next2 :: "u8 option \<Rightarrow> nat \<Rightarrow> packet_data \<Rightarrow> u8 option \<times> nat \<times> packet_data" where
  "peek_next2 ptr n p =
     (if used p < total p
      then case ptr of
             None \<Rightarrow> (ptr, n, p)
           | Some c \<Rightarrow>
               if is_tap_cmd c \<or> peek_over c = 0 then (ptr, n, p)
               else (let (ptr, p) = peek (peek_over c) p in peek_next2 ptr (n + peek_over c) p)
      else (ptr, n, p))"
  by auto
termination
  by (relation "measure (\<lambda>(ptr, n, p). (if ptr = None then 0 else 1) + 2 * (total p - used p))")
    (auto simp: peek_def get_packet_data_def split: if_splits)

declare peek_next2.simps [simp del]

definition scan_follows :: "ScanType \<Rightarrow> u8 \<Rightarrow> bool" where
  "scan_follows ty c = (case ty of
       ScanType_Read \<Rightarrow> READ_SCAN_MIN \<le> c \<and> c \<le> READ_SCAN_MAX
     | ScanType_Write \<Rightarrow> WRITE_SCAN_MIN \<le> c \<and> c \<le> WRITE_SCAN_MAX
     | ScanType_ReadWrite \<Rightarrow> READ_WRITE_SCAN_MIN \<le> c)"

text \<open>The effect of the second TAP state command: only the pause states and idle count.\<close>

definition second_tap :: "u8 option \<Rightarrow> jtag_tapstate \<Rightarrow> jtag_tapstate" where
  "second_tap ptr end_state = (case ptr of
       None \<Rightarrow> end_state
     | Some c \<Rightarrow>
         if is_tap_cmd c \<and> tapstate_of_num (c AND 0xf) \<in> {JTAG_STATE_PAUSEDR, JTAG_STATE_PAUSEIR, JTAG_STATE_IDLE}
         then tapstate_of_num (c AND 0xf) else end_state)"

definition determine_shift_end_state :: "JTAG_DRIVER_MODE \<Rightarrow> ScanType \<Rightarrow> JTAG_Handler \<Rightarrow> packet_data
    \<Rightarrow> status \<times> jtag_tapstate \<times> packet_data" where
  "determine_shift_end_state mode scan_type h p =
     (let end_state = JTAG_get_tap_state h
      in case peek 1 p of
           (None, p) \<Rightarrow> (ST_OK, end_state, p)
         | (Some c, p) \<Rightarrow>
             let (status, end_state, ptr2, counter, p) =
                   (if is_tap_cmd c then
                      let end_state = tapstate_of_num (c AND 0xf);
                          (ptr2, counter, p) =
                            (if mode = JTAG_DRIVER_MODE_HARDWARE
                             then let (ptr2, p) = peek 1 p in peek_next2 ptr2 1 p
                             else (None, 0, p))
                      in (ST_OK, second_tap ptr2 end_state, ptr2, counter, p)
                    else (if scan_follows scan_type c then ST_OK else ST_ERR, end_state, None, 0, p));
                 p = unget 1 p
             in (status, end_state, if ptr2 = None then p else unget counter p))"

text \<open>A shift whose samples, when they are wanted, go into the response at the offset \<open>out\<close>.\<close>

definition shift_env :: "('d, 't) asd_env \<Rightarrow> nat \<Rightarrow> u8 list option \<Rightarrow> nat \<Rightarrow> nat option \<Rightarrow> jtag_tapstate
    \<Rightarrow> ('d, 't, 'b) ASD_MSG \<Rightarrow> ('d, 't, 'b) ASD_MSG outcome" where
  "shift_env env number_of_bits input output_bytes out end_state s =
     (let buf = buffer (out_msg s)
      in case JTAG_shift (shift_junk env) (jtag_driver env) number_of_bits input output_bytes
                (map_option (\<lambda>off. drop off buf) out) end_state (jtag_handler s) (jtag_dev s) of
           None \<Rightarrow> None
         | Some (st, mem, h, d) \<Rightarrow>
             Some (st, s\<lparr>jtag_handler := h, jtag_dev := d, out_msg := (out_msg s)\<lparr>buffer :=
               (case (out, mem) of (Some off, Some bs) \<Rightarrow> take off buf @ bs | _ \<Rightarrow> buf)\<rparr>\<rparr>))"

definition end_state_of :: "ScanType \<Rightarrow> ('d, 't, 'b) jstate \<Rightarrow> (jtag_tapstate \<Rightarrow> ('d, 't, 'b) jstate
    \<Rightarrow> ('d, 't, 'b) jstate outcome) \<Rightarrow> ('d, 't, 'b) jstate outcome" where
  "end_state_of scan_type x f = (case x of (s, p, rc) \<Rightarrow>
     let (status, end_state, p) =
           determine_shift_end_state (jtag_mode_cfg (jtag_cfg (asd_cfg s))) scan_type (jtag_handler s) p
     in if status \<noteq> ST_OK then Some (status, s, p, rc) else f end_state (s, p, rc))"

definition cmd_write_scan :: "('d, 't) asd_env \<Rightarrow> u8 \<Rightarrow> ('d, 't, 'b) jstate \<Rightarrow> ('d, 't, 'b) jstate outcome" where
  "cmd_write_scan env cmd x =
     (let (num_of_bits, num_of_bytes) = get_scan_length cmd
      in need num_of_bytes x (\<lambda>data x.
           end_state_of ScanType_Write x (\<lambda>end_state.
             engine (shift_env env num_of_bits (Some data) 0 None end_state))))"

text \<open>The samples are counted once the shift has succeeded.\<close>

definition shift_response :: "('d, 't) asd_env \<Rightarrow> nat \<Rightarrow> u8 list option \<Rightarrow> nat \<Rightarrow> jtag_tapstate
    \<Rightarrow> ('d, 't, 'b) jstate \<Rightarrow> ('d, 't, 'b) jstate outcome" where
  "shift_response env num_of_bits input num_of_bytes end_state = (\<lambda>(s, p, rc).
     then_ok (engine (shift_env env num_of_bits input num_of_bytes (Some rc) end_state) (s, p, rc))
       (\<lambda>(s, p, rc). Some (ST_OK, s, p, rc + num_of_bytes)))"

definition cmd_read_scan :: "('d, 't) asd_env \<Rightarrow> u8 \<Rightarrow> ('d, 't, 'b) jstate \<Rightarrow> ('d, 't, 'b) jstate outcome" where
  "cmd_read_scan env cmd = (\<lambda>(s, p, rc).
     let (num_of_bits, num_of_bytes) = get_scan_length cmd
     in if rc + 1 + num_of_bytes > MAX_DATA_SIZE then Some (ST_ERR, s, p, rc)
        else end_state_of ScanType_Read (respond [cmd] (s, p, rc))
               (shift_response env num_of_bits None num_of_bytes))"

definition cmd_read_write_scan :: "('d, 't) asd_env \<Rightarrow> u8 \<Rightarrow> ('d, 't, 'b) jstate \<Rightarrow> ('d, 't, 'b) jstate outcome" where
  "cmd_read_write_scan env cmd = (\<lambda>(s, p, rc).
     let (num_of_bits, num_of_bytes) = get_scan_length cmd
     in if rc + 1 + num_of_bytes > MAX_DATA_SIZE then Some (ST_ERR, s, p, rc)
        else need num_of_bytes (respond [cmd] (s, p, rc)) (\<lambda>data x.
               end_state_of ScanType_ReadWrite x (shift_response env num_of_bits (Some data) num_of_bytes)))"

section \<open>The loop and the response\<close>

definition jtag_command :: "('d, 't) asd_env \<Rightarrow> u8 \<Rightarrow> ('d, 't, 'b) jstate \<Rightarrow> ('d, 't, 'b) jstate outcome" where
  "jtag_command env cmd x =
     (if cmd = WRITE_EVENT_CONFIG then cmd_write_event_config env x
      else if 1 \<le> cmd \<and> cmd \<le> 6 then write_cfg env cmd x
      else if cmd = WRITE_PINS then cmd_write_pins env x
      else if READ_STATUS_MIN \<le> cmd \<and> cmd \<le> READ_STATUS_MAX then cmd_read_status env cmd x
      else if cmd = WAIT_CYCLES_TCK_DISABLE \<or> cmd = WAIT_CYCLES_TCK_ENABLE then cmd_wait_cycles env x
      else if cmd = WAIT_PRDY then cmd_wait_prdy env x
      else if cmd = CLEAR_TIMEOUT then Some (ST_OK, x)
      else if cmd = TAP_RESET then cmd_tap_reset env x
      else if cmd = WAIT_SYNC then cmd_wait_sync env x
      else if TAP_STATE_MIN \<le> cmd \<and> cmd \<le> TAP_STATE_MAX then cmd_tap_state env cmd x
      else if WRITE_SCAN_MIN \<le> cmd \<and> cmd \<le> WRITE_SCAN_MAX then cmd_write_scan env cmd x
      else if READ_SCAN_MIN \<le> cmd \<and> cmd \<le> READ_SCAN_MAX then cmd_read_scan env cmd x
      else if READ_WRITE_SCAN_MIN \<le> cmd then cmd_read_write_scan env cmd x
      else Some (ST_ERR, x))"

definition jtag_step :: "('d, 't) asd_env \<Rightarrow> ('d, 't, 'b) jstate \<Rightarrow> ('d, 't, 'b) jstate outcome" where
  "jtag_step env x = need 1 x (\<lambda>c. jtag_command env (c ! 0))"
section \<open>What a command may touch\<close>

text \<open>
  A reader only moves forward, within its total. A command leaves the packet received, the client
  and the configuration alone, moves the reader ahead and only adds to the response.
\<close>

definition ahead :: "packet_data \<Rightarrow> packet_data \<Rightarrow> bool" where
  "ahead p p' \<longleftrightarrow> (\<exists>k. p' = p\<lparr>used := used p + k\<rparr> \<and> (k = 0 \<or> used p + k \<le> total p))"

lemma ahead_refl [simp]: "ahead p p"
  by (auto simp: ahead_def intro: exI [of _ 0])

lemma ahead_add: "k = 0 \<or> used p + k \<le> total p \<Longrightarrow> ahead p (p\<lparr>used := used p + k\<rparr>)"
  by (auto simp: ahead_def)

lemma ahead_trans [trans]:
  assumes "ahead p q" "ahead q r"
  shows "ahead p r"
proof -
  obtain k l where "q = p\<lparr>used := used p + k\<rparr>" "k = 0 \<or> used p + k \<le> total p"
    "r = q\<lparr>used := used q + l\<rparr>" "l = 0 \<or> used q + l \<le> total q"
    using assms unfolding ahead_def by blast
  then show ?thesis using ahead_add [of "k + l" p] by (auto simp: add.assoc)
qed

lemma aheadD:
  assumes "ahead p p'"
  shows "used p \<le> used p'" "total p' = total p" "packet_bytes p' = packet_bytes p" "packet_ok p \<Longrightarrow> packet_ok p'"
    "used p \<le> total p \<Longrightarrow> used p' \<le> total p'"
  using assms by (auto simp: ahead_def packet_ok_def)

lemma get_ahead: "get_packet_data p n = Some (bs, p') \<Longrightarrow> ahead p p'"
  by (auto simp: get_packet_data_def ahead_def split: if_splits)

lemma skip_ahead: "skip_wait_cycles p = (st, p') \<Longrightarrow> ahead p p'"
proof (induction p rule: skip_wait_cycles.induct)
  case (1 p)
  show ?case
  proof (cases "used p < total p")
    case True
    show ?thesis
    proof (cases "get_packet_data p 2")
      case None
      with 1(2) True show ?thesis by (simp add: skip_wait_cycles.simps [of p])
    next
      case (Some r)
      obtain d q where r: "r = (d, q)" by (cases r)
      show ?thesis
      proof (cases "d ! 0 = WAIT_CYCLES_TCK_DISABLE")
        case True
        then have "ahead q p'"
          using 1 \<open>used p < total p\<close> Some r by (simp add: skip_wait_cycles.simps [of p])
        then show ?thesis using get_ahead [of p 2 d q] Some r ahead_trans by blast
      next
        case False
        then show ?thesis
          using 1(2) \<open>used p < total p\<close> Some r unget_get [of p 2 d q] by (simp add: skip_wait_cycles.simps [of p])
      qed
    qed
  next
    case False
    with 1(2) show ?thesis by (simp add: skip_wait_cycles.simps [of p])
  qed
qed

lemma chain_bytes_ahead: "read_chain_bytes n p = (st, p') \<Longrightarrow> ahead p p'"
  by (induction n arbitrary: p) (auto split: option.splits dest: get_ahead intro: ahead_trans)

text \<open>
  The peek reads \<open>counter\<close> bytes when it ends at a command; at the end of the packet the count is off,
  but the pointer is null then.
\<close>

lemma peek_ahead: "peek n p = (ptr, p') \<Longrightarrow> ahead p p'"
  by (auto simp: peek_def split: option.splits dest: get_ahead)

lemma peek_used: "peek n p = (Some c, p') \<Longrightarrow> p' = p\<lparr>used := used p + n\<rparr>"
  by (auto simp: peek_def get_packet_data_def split: option.splits if_splits)

lemma peek_next2_stop:
  assumes "used p < total p \<Longrightarrow> ptr \<noteq> None \<Longrightarrow> is_tap_cmd (the ptr) \<or> peek_over (the ptr) = 0"
  shows "peek_next2 ptr n p = (ptr, n, p)"
  using assms by (subst peek_next2.simps) (auto split: option.split)

lemma peek_next2_over:
  assumes "used p < total p" "\<not> is_tap_cmd c" "peek_over c \<noteq> 0" "peek (peek_over c) p = (ptr1, p1)"
  shows "peek_next2 (Some c) n p = peek_next2 ptr1 (n + peek_over c) p1"
  using assms by (subst peek_next2.simps) simp

lemma peek_next2_ahead: "peek_next2 ptr n p = (ptr', n', p') \<Longrightarrow> ahead p p'"
proof (induction ptr n p rule: peek_next2.induct)
  case (1 ptr n p)
  show ?case
  proof (cases "\<exists>c. ptr = Some c \<and> used p < total p \<and> \<not> (is_tap_cmd c \<or> peek_over c = 0)")
    case True
    then obtain c where c: "ptr = Some c" "used p < total p" "\<not> (is_tap_cmd c \<or> peek_over c = 0)"
      by (elim exE conjE) (rule that)
    obtain ptr1 p1 where k: "peek (peek_over c) p = (ptr1, p1)" by fastforce
    have "peek_next2 ptr1 (n + peek_over c) p1 = (ptr', n', p')"
      using 1(2) c k by (simp add: peek_next2_over [OF _ _ _ k])
    then have "ahead p1 p'" using 1(1) [of c "(ptr1, p1)" ptr1 p1] c k by simp
    then show ?thesis using peek_ahead [OF k] ahead_trans by blast
  next
    case False
    then have "peek_next2 ptr n p = (ptr, n, p)"
      by (intro peek_next2_stop) auto
    then show ?thesis using 1(2) by auto
  qed
qed

lemma peek_next2_used:
  "\<lbrakk>peek_next2 ptr n p = (Some c, n', p'); ptr \<noteq> None \<Longrightarrow> p = q\<lparr>used := used q + n\<rparr>\<rbrakk>
    \<Longrightarrow> p' = q\<lparr>used := used q + n'\<rparr>"
proof (induction ptr n p rule: peek_next2.induct)
  case (1 ptr n p)
  show ?case
  proof (cases ptr)
    case None
    with 1(2) show ?thesis by (simp add: peek_next2.simps split: if_splits)
  next
    case (Some d)
    with 1(3) have p: "p = q\<lparr>used := used q + n\<rparr>" by simp
    show ?thesis
    proof (cases "used p < total p \<and> \<not> (is_tap_cmd d \<or> peek_over d = 0)")
      case True
      obtain ptr1 p1 where k: "peek (peek_over d) p = (ptr1, p1)" by fastforce
      have "peek_next2 ptr1 (n + peek_over d) p1 = (Some c, n', p')"
        using 1(2) True Some by (simp add: peek_next2_over [OF _ _ _ k])
      moreover have "ptr1 \<noteq> None \<Longrightarrow> p1 = q\<lparr>used := used q + (n + peek_over d)\<rparr>"
        using k p by (auto dest: peek_used)
      ultimately show ?thesis using 1(1) [of d "(ptr1, p1)" ptr1 p1] True Some k by simp
    next
      case False
      then have "peek_next2 ptr n p = (ptr, n, p)"
        using Some by (intro peek_next2_stop) auto
      then show ?thesis using 1(2) p by auto
    qed
  qed
qed
lemma peek_one:
  "peek 1 p = (if used p < total p then (Some (take 1 (drop (used p) (packet_bytes p)) ! 0), p\<lparr>used := used p + 1\<rparr>)
     else (None, p))"
  by (auto simp: peek_def get_packet_data_def)

lemma determine_ahead:
  assumes "determine_shift_end_state mode ty h p = (st, e, p')"
  shows "ahead p p'" "mode = JTAG_DRIVER_MODE_SOFTWARE \<Longrightarrow> p' = p"
proof -
  have "p' = p \<or> mode = JTAG_DRIVER_MODE_HARDWARE \<and> ahead p p'"
  proof (cases "used p < total p")
    case False
    then have k: "peek 1 p = (None, p)" by (simp only: peek_one if_False)
    show ?thesis using assms unfolding determine_shift_end_state_def k by simp
  next
    case True
    define c where "c = take 1 (drop (used p) (packet_bytes p)) ! 0"
    define p1 where "p1 = p\<lparr>used := used p + 1\<rparr>"
    have k: "peek 1 p = (Some c, p1)" using True by (simp only: peek_one c_def p1_def if_True)
    show ?thesis
    proof (cases "is_tap_cmd c \<and> mode = JTAG_DRIVER_MODE_HARDWARE")
      case False
      then show ?thesis
        using assms unfolding determine_shift_end_state_def k
        by (auto simp: unget_def p1_def Let_def split: if_splits)
    next
      case tap: True
      obtain ptr2 p2 where k2: "peek 1 p1 = (ptr2, p2)" by fastforce
      obtain q n p3 where k3: "peek_next2 ptr2 1 p2 = (q, n, p3)" by (metis prod_cases3)
      have p': "p' = (if q = None then unget 1 p3 else unget n (unget 1 p3))"
        using assms tap unfolding determine_shift_end_state_def k Let_def
        by (simp add: k2 [unfolded One_nat_def] k3 [unfolded One_nat_def])
      have a: "ahead p1 p3" using peek_ahead [OF k2] peek_next2_ahead [OF k3] by (rule ahead_trans)
      show ?thesis
      proof (cases q)
        case None
        obtain i where "p3 = p1\<lparr>used := used p1 + i\<rparr>" "i = 0 \<or> used p1 + i \<le> total p1"
          using a unfolding ahead_def by (elim exE conjE) (rule that)
        then have "p' = p\<lparr>used := used p + i\<rparr>" "i = 0 \<or> used p + i \<le> total p"
          using None p' by (auto simp: unget_def p1_def)
        then show ?thesis using ahead_add [of i p] tap by simp
      next
        case (Some d)
        have "p3 = p1\<lparr>used := used p1 + n\<rparr>"
          by (rule peek_next2_used [OF k3 [unfolded Some]]) (use k2 in \<open>auto dest: peek_used\<close>)
        then show ?thesis using p' Some by (simp add: unget_def p1_def)
      qed
    qed
  qed
  then show "ahead p p'" "mode = JTAG_DRIVER_MODE_SOFTWARE \<Longrightarrow> p' = p" by auto
qed

definition frame :: "('d, 't, 'b) ASD_MSG \<Rightarrow> ('d, 't, 'b) ASD_MSG \<Rightarrow> bool" where
  "frame s s' \<longleftrightarrow> in_msg s' = in_msg s \<and> client s' = client s \<and> asd_cfg s' = asd_cfg s \<and>
     header (out_msg s') = header (out_msg s) \<and> fixed_part s' = fixed_part s \<and> buses s' = buses s"

definition moved :: "('d, 't, 'b) jstate \<Rightarrow> ('d, 't, 'b) jstate \<Rightarrow> bool" where
  "moved x x' = (case (x, x') of ((s, p, rc), (s', p', rc')) \<Rightarrow> frame s s' \<and> ahead p p' \<and> rc \<le> rc')"

definition moves_on :: "('d, 't, 'b) jstate \<Rightarrow> ('d, 't, 'b) jstate outcome \<Rightarrow> bool" where
  "moves_on x m \<longleftrightarrow> (\<forall>st x'. m = Some (st, x') \<longrightarrow> moved x x')"

lemma frame_refl [simp]: "frame s s"
  by (simp add: frame_def)

lemma frame_trans: "\<lbrakk>frame s t; frame t u\<rbrakk> \<Longrightarrow> frame s u"
  by (simp add: frame_def)

lemma moved_simps [simp]:
  "moved (s, p, rc) (s', p', rc') \<longleftrightarrow> frame s s' \<and> ahead p p' \<and> rc \<le> rc'"
  by (simp add: moved_def)

lemma moved_refl: "moved x x"
  by (cases x) simp

lemma moved_trans: "\<lbrakk>moved x y; moved y z\<rbrakk> \<Longrightarrow> moved x z"
  by (cases x; cases y; cases z) (auto intro: frame_trans ahead_trans)

lemma frame_on_jtag: "on_jtag f s = Some (st, s') \<Longrightarrow> frame s s'"
  by (simp add: frame_def on_jtag_frame)

lemma frame_on_target: "on_target f s = (st, s') \<Longrightarrow> frame s s'"
  by (simp add: frame_def on_target_frame)

named_theorems moving

lemma moves_on_simps [moving]:
  "moves_on x None" "moves_on x (Some (st, x))"
  "moves_on x (Some (st, x')) \<longleftrightarrow> moved x x'"
  by (cases x'; auto simp: moves_on_def intro: moved_refl)+

lemma moves_on_need [moving]:
  assumes "\<And>bs x'. moved x x' \<Longrightarrow> moves_on x' (f bs x')"
  shows "moves_on x (need n x f)"
proof (cases x)
  case (fields s p rc)
  show ?thesis
  proof (cases "get_packet_data p n")
    case None
    then show ?thesis by (simp add: need_def fields moving)
  next
    case (Some r)
    obtain bs q where r: "r = (bs, q)" by (cases r)
    have "moved x (s, q, rc)" using get_ahead [OF Some [unfolded r]] by (simp add: fields)
    moreover from this have "moves_on (s, q, rc) (f bs (s, q, rc))" by (rule assms)
    moreover have "need n x f = f bs (s, q, rc)" by (simp add: need_def fields Some r)
    ultimately show ?thesis unfolding moves_on_def by (auto intro: moved_trans)
  qed
qed

lemma moves_on_engine:
  assumes "\<And>st s'. f (fst x) = Some (st, s') \<Longrightarrow> frame (fst x) s'"
  shows "moves_on x (engine f x)"
  using assms by (cases x) (auto simp: engine_def moves_on_def split: option.splits)

lemma moves_on_jtag [moving]: "moves_on x (engine (on_jtag f) x)"
  by (rule moves_on_engine) (rule frame_on_jtag)

lemma moves_on_target [moving]: "moves_on x (engine (\<lambda>s. Some (on_target (f s) s)) x)"
  by (rule moves_on_engine) (auto intro: frame_on_target)
lemma moves_on_then_ok [moving]:
  assumes "moves_on x m" "\<And>x'. \<lbrakk>m = Some (ST_OK, x'); moved x x'\<rbrakk> \<Longrightarrow> moves_on x' (f x')"
  shows "moves_on x (then_ok m f)"
  unfolding moves_on_def
proof (intro allI impI)
  fix st x' assume "then_ok m f = Some (st, x')"
  then show "moved x x'"
  proof (cases rule: then_ok_SomeE)
    case (ok y)
    have xy: "moved x y" using assms(1) ok(1) unfolding moves_on_def by blast
    moreover have "moved y x'" using assms(2) [OF ok(1) xy] ok(2) unfolding moves_on_def by blast
    ultimately show ?thesis by (rule moved_trans)
  next
    case err
    then show ?thesis using assms(1) unfolding moves_on_def by blast
  qed
qed

lemma moves_on_end_state_of [moving]:
  assumes "\<And>e x'. moved x x' \<Longrightarrow> moves_on x' (f e x')"
  shows "moves_on x (end_state_of ty x f)"
proof (cases x)
  case (fields s p rc)
  obtain st e q where d: "determine_shift_end_state (jtag_mode_cfg (jtag_cfg (asd_cfg s))) ty (jtag_handler s) p =
      (st, e, q)" by (metis prod_cases3)
  have "moved x (s, q, rc)" using determine_ahead(1) [OF d] by (simp add: fields)
  moreover from this have "moves_on (s, q, rc) (f e (s, q, rc))" by (rule assms)
  moreover have "end_state_of ty x f = (if st \<noteq> ST_OK then Some (st, s, q, rc) else f e (s, q, rc))"
    by (simp add: end_state_of_def fields d)
  ultimately show ?thesis unfolding moves_on_def by (auto intro: moved_trans)
qed

lemma frame_shift_env: "shift_env env n input ob out e s = Some (st, s') \<Longrightarrow> frame s s'"
  by (auto simp: shift_env_def frame_def Let_def split: option.splits)

lemma moves_on_shift_env [moving]: "moves_on x (engine (shift_env env n input ob out e) x)"
  by (rule moves_on_engine) (rule frame_shift_env)

lemma moves_on_shift_response [moving]: "moves_on x (shift_response env n input ob e x)"
  by (cases x) (auto simp: shift_response_def moves_on_simps intro!: moving)

lemma moved_respond: "moved x (respond bs x)"
  by (cases x) (simp add: respond_def frame_def)

lemma moves_on_after:
  assumes "moved x y" "moves_on y m"
  shows "moves_on x m"
  using assms by (auto simp: moves_on_def intro: moved_trans)

lemma moves_on_target_call:
  assumes "on_target f s = (st, s')"
  shows "moves_on (s, p, rc) (Some (st', s', p, rc))"
  using frame_on_target [OF assms] by (simp add: moves_on_simps)

lemma moves_on_write_pins: "moves_on x (cmd_write_pins env x)"
  unfolding cmd_write_pins_def
proof (rule moves_on_need)
  fix data :: "u8 list" and x' :: "('a, 'b, 'c) jstate"
  obtain s p rc where x': "x' = (s, p, rc)" by (cases x')
  define index where "index = data ! 0 AND 0x7f"
  obtain st1 s1 where t: "on_target (op_write (target env) (unat index) (drop_bit 7 (data ! 0) = 1)) s = (st1, s1)"
    by fastforce
  obtain st2 p2 where k: "skip_wait_cycles p = (st2, p2)" by fastforce
  obtain st3 p3 where c: "read_chain_bytes (unat (index AND 0xf) + 1) p = (st3, p3)" by fastforce
  have f: "frame s s1" "ahead p p2" "ahead p p3"
    using frame_on_target [OF t] skip_ahead [OF k] chain_bytes_ahead [OF c] by simp_all
  have "moves_on (s, p, rc) (engine (asd_write_set_active_chain_event env (index AND 0xf)) (s, p, rc))"
    by (rule moves_on_engine)
      (auto simp: asd_write_set_active_chain_event_def split: prod.splits if_splits
        intro: frame_trans dest!: frame_on_target frame_on_jtag)
  then show "moves_on x' ((\<lambda>(s, p, rc). let asrt = (drop_bit 7 (data ! 0) = 1); index = data ! 0 AND 0x7f
     in if unat index < PIN_MAX then
          let (st, s) = on_target (op_write (target env) (unat index) asrt) s
          in if st \<noteq> ST_OK then Some (st, s, p, rc)
             else if unat index = PIN_RESET_BUTTON \<and> asrt
                  then let (st, p) = skip_wait_cycles p in Some (st, s, p, rc)
             else Some (ST_OK, s, p, rc)
        else if index AND SCAN_CHAIN_SELECT = SCAN_CHAIN_SELECT then
          (if jtag_chain_mode s = JTAG_CHAIN_SELECT_MODE_SINGLE then
             let scan_chain = index AND 0xf
             in if unat scan_chain \<ge> MAX_SCAN_CHAINS then Some (ST_ERR, s, p, rc)
                else engine (asd_write_set_active_chain_event env scan_chain) (s, p, rc)
           else let (st, p) = read_chain_bytes (unat (index AND 0xf) + 1) p in Some (st, s, p, rc))
        else Some (ST_ERR, s, p, rc)) x')"
    unfolding x' prod.case Let_def index_def [symmetric] t k c
    using f by (simp add: moves_on_simps)
qed

lemma moves_on_command: "moves_on x (jtag_command env cmd x)"
proof -
  have pad: "moves_on y (engine (set_padding ty v) y)" for ty v and y :: "('a, 'b, 'c) jstate"
    by (rule moves_on_engine) (auto simp: set_padding_def intro: frame_on_jtag)
  have prdy: "moves_on y (engine (\<lambda>s. Some (ST_OK, s\<lparr>prdy_timeout := v\<rparr>)) y)" for v and y :: "('a, 'b, 'c) jstate"
    by (rule moves_on_engine) (simp add: frame_def)
  have cfg: "moves_on x (write_cfg env cmd x)"
    unfolding write_cfg_def by (auto intro!: moving pad prdy)
  have event: "moves_on x (cmd_write_event_config env x)"
    unfolding cmd_write_event_config_def
    by (intro moves_on_need moves_on_engine)
      (auto simp: write_event_config_def Let_def intro: frame_on_target split: if_splits)
  have stat: "moves_on x (cmd_read_status env cmd x)"
    unfolding cmd_read_status_def
  proof (rule moves_on_need, clarify)
    fix data and s :: "('a, 'b, 'c) ASD_MSG" and p rc
    obtain st bs s' where r: "read_status env (cmd AND 7) (data ! 0 AND 127) s = (st, bs, s')" by (metis prod_cases3)
    then have "frame s s'" by (auto simp: read_status_def frame_def Let_def split: prod.splits if_splits)
    then have "moved (s, p, rc) (respond bs (s', p, rc))"
      using moved_respond [of "(s', p, rc)" bs] moved_trans [of "(s, p, rc)" "(s', p, rc)"] by simp
    then show "moves_on (s, p, rc) (if MAX_DATA_SIZE < rc + 2 then Some (ST_ERR, s, p, rc)
        else let (st, bs, s) = read_status env (cmd AND 7) (data ! 0 AND 127) s in Some (st, respond bs (s, p, rc)))"
      by (simp add: r moves_on_simps)
  qed
  have sync: "moves_on x (cmd_wait_sync env x)"
    unfolding cmd_wait_sync_def
    by (rule moves_on_need) (auto simp: moves_on_simps Let_def split: prod.splits intro: frame_on_target)
  have cycles: "moves_on x (cmd_wait_cycles env x)"
    unfolding cmd_wait_cycles_def Let_def by (intro moving)
  have w: "moves_on x (cmd_write_scan env cmd x)"
    unfolding cmd_write_scan_def by (auto split: prod.split intro!: moving)
  have r: "moves_on x (cmd_read_scan env cmd x)" and rw: "moves_on x (cmd_read_write_scan env cmd x)"
    unfolding cmd_read_scan_def cmd_read_write_scan_def
    by (auto split: prod.split intro!: moving intro: moves_on_after [OF moved_respond])
  show ?thesis
    unfolding jtag_command_def cmd_tap_state_def cmd_tap_reset_def cmd_wait_prdy_def
    by (simp add: cfg event stat sync cycles w r rw moves_on_write_pins moving)
qed

lemma jtag_step_progress:
  assumes "jtag_step env (s, p, rc) = Some (ST_OK, s', p', rc')"
  shows "used p < used p'" "used p' \<le> total p" "total p' = total p"
proof -
  obtain bs q where g: "get_packet_data p 1 = Some (bs, q)"
    and c: "jtag_command env (bs ! 0) (s, q, rc) = Some (ST_OK, s', p', rc')"
    using assms by (auto simp: jtag_step_def need_def split: option.splits)
  have "moved (s, q, rc) (s', p', rc')"
    using moves_on_command [of "(s, q, rc)" env "bs ! 0"] c by (simp add: moves_on_def)
  then have "ahead q p'" by simp
  from aheadD [OF this] get_packet_data_used [OF g]
  show "used p < used p'" "used p' \<le> total p" "total p' = total p" by auto
qed
section \<open>The loop\<close>

function jtag_loop :: "('d, 't) asd_env \<Rightarrow> ('d, 't, 'b) jstate \<Rightarrow> ('d, 't, 'b) jstate outcome" where
  "jtag_loop env x = (case x of (s, p, rc) \<Rightarrow>
     if used p < total p then then_ok (jtag_step env x) (jtag_loop env) else Some (ST_OK, x))"
  by auto
termination
  by (relation "measure (\<lambda>(env, s, p, rc). total p - used p)")
    (simp_all, use jtag_step_progress in fastforce)

declare jtag_loop.simps [simp del]

text \<open>
  The answer repeats the header of the request with the size of the response; a failed command
  sends nothing from here.
\<close>

definition jtag_response :: "('d, 't) asd_env \<Rightarrow> message_header \<Rightarrow> nat \<Rightarrow> ('d, 't, 'b) ASD_MSG
    \<Rightarrow> status \<times> ('d, 't, 'b) ASD_MSG" where
  "jtag_response env hdr rc s =
     (let s = s\<lparr>out_msg := (out_msg s)\<lparr>header := (set_size (of_nat rc) hdr)\<lparr>cmd_stat := ASD_SUCCESS\<rparr>\<rparr>\<rparr>;
          (st, tx) = send_response (send_junk env) (out_msg s) (client s)
      in (st, s\<lparr>client := tx\<rparr>))"

definition process_jtag_message :: "('d, 't) asd_env \<Rightarrow> asd_message \<Rightarrow> ('d, 't, 'b) ASD_MSG
    \<Rightarrow> ('d, 't, 'b) ASD_MSG outcome" where
  "process_jtag_message env m s =
     (let size = get_message_size m
      in if size = -1 then Some (ST_ERR, s)
         else
           let s = s\<lparr>out_msg := \<lparr>header = decode_header (replicate HEADER_SIZE 0),
                                 buffer = replicate MAX_DATA_SIZE 0\<rparr>\<rparr>
           in case jtag_loop env (s, packet_of (buffer m) (nat size), 0) of
                None \<Rightarrow> None
              | Some (st, s, p, rc) \<Rightarrow>
                  Some (if st = ST_OK then jtag_response env (header m) rc s else (st, s)))"

lemma jtag_loop_moves: "moves_on x (jtag_loop env x)"
proof (induction env x rule: jtag_loop.induct)
  case (1 env x)
  obtain s p rc where x: "x = (s, p, rc)" by (cases x)
  show ?case
  proof (cases "used p < total p")
    case True
    have "moves_on x (jtag_step env x)"
      unfolding jtag_step_def by (intro moves_on_need moves_on_command)
    then have "moves_on x (then_ok (jtag_step env x) (jtag_loop env))"
      by (rule moves_on_then_ok) (rule 1 [OF x [symmetric] refl True])
    then show ?thesis using True by (simp add: x jtag_loop.simps)
  qed (simp add: x jtag_loop.simps moves_on_simps)
qed

section \<open>The response buffer\<close>

text \<open>
  What a driver may write into the buffer of a scan: no more than the bytes of its bits.
\<close>

definition polite :: "'d jtag_port \<Rightarrow> bool" where
  "polite port \<longleftrightarrow> (\<forall>fd req buf d bs d'. port_ioctl port fd (JTAG_IOCXFER (Some req) (Some buf)) d =
      Some (None, Bytes bs, d') \<longrightarrow> length bs \<le> div_round_up8 (unat (q_length req)))"

lemma polite_aspeed: "polite (aspeed_port dev slack)"
  unfolding polite_def
proof (intro allI impI)
  fix fd req buf d bs d'
  assume a: "port_ioctl (aspeed_port dev slack) fd (JTAG_IOCXFER (Some req) (Some buf)) d = Some (None, Bytes bs, d')"
  obtain x y z where k: "slack d = (x, y, z)" by (metis prod_cases3)
  have "jtag_ioctl [x, y, z] True d (JTAG_IOCXFER (Some req) (Some buf)) True = Some (None, Bytes bs, d')"
    using a by (auto simp: aspeed_port_def k split: if_splits)
  then show "length bs \<le> div_round_up8 (unat (q_length req))"
    by (auto simp: jtag_ioctl_def jtag_ioctl_xfer_def Let_def div_round_up8_def data_size_def
        split: if_splits option.splits prod.splits)
qed

text \<open>A shift on such a driver keeps the length of the memory it stores to and what is past its bytes.\<close>

lemma xfer_buffer_length:
  assumes "div_round_up8 n \<le> ob" "ob \<le> length mem" "\<forall>bs. input = Some bs \<longrightarrow> div_round_up8 n \<le> length bs"
  shows "length (xfer_buffer tdio n input ob (Some mem)) = length mem"
    "drop ob (xfer_buffer tdio n input ob (Some mem)) = drop ob mem"
proof -
  have *: "div_round_up8 n \<le> ob \<longrightarrow> (\<forall>bs. map_option (take (div_round_up8 n)) input = Some bs \<longrightarrow>
      length bs = div_round_up8 n)"
    using assms(3) by auto
  show "length (xfer_buffer tdio n input ob (Some mem)) = length mem"
    using length_memcpy_s [OF *, of mem] assms(2) by (simp add: xfer_buffer_def Let_def)
  show "drop ob (xfer_buffer tdio n input ob (Some mem)) = drop ob mem"
    using assms by (auto simp: xfer_buffer_def memcpy_s_def Let_def split: option.splits)
qed

definition keeps :: "nat \<Rightarrow> u8 list \<Rightarrow> 'd shift_state outcome \<Rightarrow> bool" where
  "keeps ob mem m \<longleftrightarrow> (\<forall>st out h d. m = Some (st, out, h, d) \<longrightarrow>
     (\<exists>mem'. out = Some mem' \<and> length mem' = length mem \<and> drop ob mem' = drop ob mem))"

lemma keeps_xfer_ioctl:
  assumes "polite port" "unat (q_length req) \<le> n" "div_round_up8 n \<le> ob"
    and buf: "length buf = length mem" "drop ob buf = drop ob mem" "ob \<le> length mem"
  shows "keeps ob mem (xfer_ioctl port req buf (Some out) e h d)"
proof -
  have le: "length bs \<le> ob" if "port_ioctl port fd (JTAG_IOCXFER (Some req) (Some buf)) d = Some (None, Bytes bs, d')"
    for fd bs d'
  proof -
    have "length bs \<le> div_round_up8 (unat (q_length req))" using assms(1) that unfolding polite_def by blast
    also have "\<dots> \<le> div_round_up8 n" using assms(2) by (simp add: div_round_up8_def div_le_mono)
    finally show ?thesis using assms(3) by simp
  qed
  show ?thesis
    unfolding keeps_def
  proof (intro allI impI)
    fix st out' h' d'
    assume *: "xfer_ioctl port req buf (Some out) e h d = Some (st, out', h', d')"
    obtain er r d1 where p: "port_ioctl port (JTAG_driver_handle h) (JTAG_IOCXFER (Some req) (Some buf)) d =
        Some (er, r, d1)" using * by (auto simp: xfer_ioctl_def split: option.splits)
    have "out' = Some (if er = None then case r of Bytes bs \<Rightarrow> bs @ drop (length bs) buf | _ \<Rightarrow> buf else buf)"
      using * p by (auto simp: xfer_ioctl_def Let_def split: option.splits)
    moreover have "length bs \<le> ob" if "er = None" "r = Bytes bs" for bs using le p that by blast
    ultimately show "\<exists>mem'. out' = Some mem' \<and> length mem' = length mem \<and> drop ob mem' = drop ob mem"
      using buf by (cases r) (auto intro: le_trans)
  qed
qed

lemma keeps_perform_shift:
  assumes "polite port" "div_round_up8 n \<le> ob" "ob \<le> length mem" "n < 65536"
    and "\<forall>bs. input = Some bs \<longrightarrow> div_round_up8 n \<le> length bs"
  shows "keeps ob mem (perform_shift junk port n input ob (Some mem) c e h d)"
  using xfer_buffer_length [OF assms(2,3,5)] assms
  by (auto simp: perform_shift_def split_beta unat_of_nat take_bit_eq_mod
      intro!: keeps_xfer_ioctl [where n = n])

lemma keeps_cong:
  assumes "length mem' = length mem" "drop ob mem' = drop ob mem"
  shows "keeps ob mem' m = keeps ob mem m"
  using assms by (simp add: keeps_def)

lemma keeps_then:
  assumes "keeps ob mem m"
    and "\<And>mem' h d. \<lbrakk>length mem' = length mem; drop ob mem' = drop ob mem\<rbrakk> \<Longrightarrow> keeps ob mem (f (Some mem', h, d))"
  shows "keeps ob mem (and_then m f)"
proof (cases m)
  case None
  then show ?thesis by (simp add: keeps_def)
next
  case (Some r)
  obtain st out h d where r: "r = (st, out, h, d)" by (metis prod_cases4)
  obtain mem' where "out = Some mem'" "length mem' = length mem" "drop ob mem' = drop ob mem"
    using assms(1) Some r by (auto simp: keeps_def)
  with assms(2) [of mem' h d] Some r show ?thesis by (auto simp: and_then_def keeps_def)
qed

lemma keeps_some:
  "\<lbrakk>length mem' = length mem; drop ob mem' = drop ob mem\<rbrakk> \<Longrightarrow> keeps ob mem (Some (st, Some mem', h, d))"
  by (simp add: keeps_def)

lemma keeps_pad:
  "\<lbrakk>length mem' = length mem; drop ob mem' = drop ob mem\<rbrakk>
    \<Longrightarrow> keeps ob mem (pad_shift junk port n pd c e (Some mem', h, d))"
  by (auto simp: pad_shift_def keeps_def)

lemma keeps_padded:
  assumes "length mem' = length mem" "drop ob mem' = drop ob mem"
  shows "keeps ob mem (and_then (pad_shift junk port n pd c e (Some mem', h, d)) (\<lambda>x. Some (ST_OK, x)))"
  by (rule keeps_then [OF keeps_pad [OF assms]]) (rule keeps_some)

lemma keeps_prefix: "keeps ob mem (shift_prefix junk port n pd c (Some mem) h d)"
  unfolding shift_prefix_def Let_def
  by (simp add: keeps_padded keeps_some)

lemma keeps_JTAG_shift:
  assumes "polite port" "div_round_up8 n \<le> ob" "ob \<le> length mem" "n < 65536"
    and "\<forall>bs. input = Some bs \<longrightarrow> div_round_up8 n \<le> length bs"
  shows "keeps ob mem (JTAG_shift junk port n input ob (Some mem) e h d)"
proof -
  have perf: "keeps ob mem (perform_shift junk port n input ob (Some mem') c e h d)"
    if "length mem' = length mem" "drop ob mem' = drop ob mem" for mem' c e h d
    unfolding keeps_cong [OF that, symmetric]
    by (rule keeps_perform_shift) (use assms that in simp_all)
  have rest: "keeps ob mem (shift_rest junk port m pd n input ob c e (Some mem', h, d))"
    if "length mem' = length mem" "drop ob mem' = drop ob mem" for mem' m pd c h d
  proof (cases "m \<noteq> 0 \<and> c \<noteq> e")
    case True
    then show ?thesis
      unfolding shift_rest_def prod.case Let_def if_P [OF True]
      by (intro keeps_then [OF perf [OF that]] keeps_padded)
  next
    case False
    show ?thesis
      unfolding shift_rest_def prod.case Let_def if_not_P [OF False]
      by (rule keeps_then [OF perf [OF that]]) (simp add: keeps_some)
  qed
  show ?thesis
  proof (cases "sw_mode h")
    case True
    show ?thesis
      using True unfolding JTAG_shift_def Let_def
      by (simp add: keeps_some) (intro conjI impI keeps_then [OF keeps_prefix] rest)
  next
    case False
    then show ?thesis
      using xfer_buffer_length [OF assms(2,3,5)] assms
      unfolding JTAG_shift_def JTAG_shift_hw_def Let_def
      by (auto intro!: keeps_xfer_ioctl [where n = n] keeps_some simp: unat_of_nat take_bit_eq_mod)
  qed
qed
text \<open>The reader, the response and its count stay within their bounds.\<close>

definition within :: "('d, 't, 'b) jstate \<Rightarrow> bool" where
  "within x = (case x of (s, p, rc) \<Rightarrow>
     packet_ok p \<and> length (buffer (out_msg s)) = MAX_DATA_SIZE \<and> rc \<le> MAX_DATA_SIZE)"

definition safe :: "('d, 't, 'b) jstate \<Rightarrow> ('d, 't, 'b) jstate outcome \<Rightarrow> bool" where
  "safe x m \<longleftrightarrow> (within x \<longrightarrow> (\<forall>st x'. m = Some (st, x') \<longrightarrow> within x'))"

lemma safe_None [simp]: "safe x None" and safe_refl [simp]: "safe x (Some (st, x))"
  by (auto simp: safe_def)

lemma safe_Some:
  assumes "within x \<Longrightarrow> within x'"
  shows "safe x (Some (st, x'))"
  using assms by (auto simp: safe_def)

lemma safe_trans:
  assumes "within x \<Longrightarrow> within y" "safe y m"
  shows "safe x m"
  using assms by (auto simp: safe_def)

lemma safe_then_ok:
  assumes "safe x m" "\<And>y. m = Some (ST_OK, y) \<Longrightarrow> safe y (f y)"
  shows "safe x (then_ok m f)"
  unfolding safe_def
proof (intro impI allI)
  fix st x' assume *: "within x" "then_ok m f = Some (st, x')"
  from *(2) show "within x'"
  proof (cases rule: then_ok_SomeE)
    case (ok y)
    with assms(1) * have "within y" unfolding safe_def by blast
    with assms(2) [OF ok(1)] ok(2) show ?thesis unfolding safe_def by blast
  next
    case err
    with assms(1) * show ?thesis unfolding safe_def by blast
  qed
qed

lemma safe_need:
  assumes "\<And>bs q. length bs = n \<Longrightarrow> safe (s, q, rc) (f bs (s, q, rc))"
  shows "safe (s, p, rc) (need n (s, p, rc) f)"
proof (cases "get_packet_data p n")
  case None
  then show ?thesis by (simp add: need_def)
next
  case (Some r)
  obtain bs q where r: "r = (bs, q)" by (cases r)
  show ?thesis
    unfolding safe_def
  proof (intro impI allI)
    fix st x' assume *: "within (s, p, rc)" "need n (s, p, rc) f = Some (st, x')"
    then have q: "length bs = n" "within (s, q, rc)"
      using get_packet_data_ok [OF Some [unfolded r]] by (auto simp: within_def)
    moreover have "f bs (s, q, rc) = Some (st, x')" using * by (simp add: need_def Some r)
    ultimately show "within x'" using assms [OF q(1), of q] unfolding safe_def by blast
  qed
qed

lemma safe_engine:
  assumes "\<And>st s'. f s = Some (st, s') \<Longrightarrow> out_msg s' = out_msg s"
  shows "safe (s, p, rc) (engine f (s, p, rc))"
proof (cases "f s")
  case None
  then show ?thesis by (simp add: engine_def)
next
  case (Some r)
  obtain st s' where r: "r = (st, s')" by (cases r)
  have "out_msg s' = out_msg s" using assms Some r by simp
  then show ?thesis using Some r by (simp add: engine_def) (rule safe_Some, simp add: within_def)
qed

lemma safe_jtag: "safe (s, p, rc) (engine (on_jtag f) (s, p, rc))"
  by (rule safe_engine) (rule on_jtag_frame)

lemma safe_end_state_of:
  assumes "\<And>e q. safe (s, q, rc) (f e (s, q, rc))"
  shows "safe (s, p, rc) (end_state_of ty (s, p, rc) f)"
proof -
  obtain st e q where d: "determine_shift_end_state (jtag_mode_cfg (jtag_cfg (asd_cfg s))) ty (jtag_handler s) p =
      (st, e, q)" by (metis prod_cases3)
  have "within (s, q, rc)" if "within (s, p, rc)"
    using that aheadD(4) [OF determine_ahead(1) [OF d]] by (simp add: within_def)
  moreover have "end_state_of ty (s, p, rc) f = (if st \<noteq> ST_OK then Some (st, s, q, rc) else f e (s, q, rc))"
    by (simp add: end_state_of_def d)
  ultimately show ?thesis
    using assms [of q e] by (auto intro: safe_Some safe_trans)
qed

lemma safe_shift_write: "safe (s, p, rc) (engine (shift_env env n input 0 None e) (s, p, rc))"
  by (rule safe_engine) (auto simp: shift_env_def Let_def split: option.splits)

lemma safe_shift_response:
  assumes "polite (jtag_driver env)" "rc + nb \<le> MAX_DATA_SIZE" "div_round_up8 n \<le> nb" "n < 65536"
    and "\<forall>bs. input = Some bs \<longrightarrow> length bs = nb"
  shows "safe (s, p, rc) (shift_response env n input nb e (s, p, rc))"
  unfolding safe_def
proof (intro impI allI)
  fix st x' assume *: "within (s, p, rc)" "shift_response env n input nb e (s, p, rc) = Some (st, x')"
  define mem where "mem = drop rc (buffer (out_msg s))"
  have len: "length (buffer (out_msg s)) = 3000" "nb \<le> length mem" "length mem = 3000 - rc"
    using * assms(2) by (simp_all add: within_def mem_def)
  have k: "keeps nb mem (JTAG_shift (shift_junk env) (jtag_driver env) n input nb (Some mem) e
      (jtag_handler s) (jtag_dev s))"
    by (rule keeps_JTAG_shift) (use assms len in auto)
  obtain st1 out h d where sh: "JTAG_shift (shift_junk env) (jtag_driver env) n input nb (Some mem) e
      (jtag_handler s) (jtag_dev s) = Some (st1, out, h, d)"
    using * by (auto simp: shift_response_def then_ok_def engine_def shift_env_def Let_def mem_def split: option.splits)
  then obtain mem' where m: "out = Some mem'" "length mem' = length mem"
    using k unfolding keeps_def by blast
  then show "within x'"
    using * sh assms(2) len
    by (auto simp: shift_response_def then_ok_def engine_def shift_env_def Let_def mem_def [symmetric] within_def
        split: if_splits)
qed

lemma within_respond:
  assumes "within (s, p, rc)" "rc + length bs \<le> MAX_DATA_SIZE"
  shows "within (respond bs (s, p, rc))"
  using assms by (simp add: respond_def within_def)

lemma scan_length:
  assumes "get_scan_length cmd = (n, nb)"
  shows "div_round_up8 n = nb" "0 < n" "n \<le> 64" "nb \<le> 8"
proof -
  define k where "k = unat (cmd AND 0x3f)"
  have "k \<le> 63"
  proof -
    have "cmd AND 0x3f = take_bit 6 cmd" by (simp add: take_bit_eq_mask mask_eq_exp_minus_1)
    then have "k = take_bit 6 (unat cmd)" by (simp add: k_def unsigned_take_bit_eq)
    moreover have "take_bit 6 (unat cmd) < 2 ^ 6" by (rule take_bit_nat_less_exp)
    ultimately show ?thesis by simp
  qed
  moreover have "(n, nb) = (if k = 0 then (64, 8) else (k, (k + 7) div 8))"
    using assms by (auto simp: get_scan_length_def k_def Let_def split: if_splits)
  ultimately show "div_round_up8 n = nb" "0 < n" "n \<le> 64" "nb \<le> 8"
    using div_le_mono [of "k + 7" 70 8] by (auto simp: div_round_up8_def split: if_splits)
qed
lemma safe_write_pins: "safe (s, p, rc) (cmd_write_pins env (s, p, rc))"
  unfolding cmd_write_pins_def
proof (rule safe_need)
  fix data :: "u8 list" and p :: packet_data
  define index where "index = data ! 0 AND 0x7f"
  obtain st1 s1 where t: "on_target (op_write (target env) (unat index) (drop_bit 7 (data ! 0) = 1)) s = (st1, s1)"
    by fastforce
  obtain st2 p2 where k: "skip_wait_cycles p = (st2, p2)" by fastforce
  obtain st3 p3 where c: "read_chain_bytes (unat (index AND 0xf) + 1) p = (st3, p3)" by fastforce
  have f: "out_msg s1 = out_msg s" "packet_ok p \<Longrightarrow> packet_ok p2" "packet_ok p \<Longrightarrow> packet_ok p3"
    using on_target_frame(1) [OF t] aheadD(4) [OF skip_ahead [OF k]] aheadD(4) [OF chain_bytes_ahead [OF c]]
    by simp_all
  have ev: "safe (s, p, rc) (engine (asd_write_set_active_chain_event env (index AND 0xf)) (s, p, rc))"
    by (rule safe_engine)
      (auto simp: asd_write_set_active_chain_event_def split: prod.splits if_splits
        dest!: on_target_frame(1) on_jtag_frame(1))
  have part: "safe (s, p, rc) (Some (st, s1, p, rc))" "safe (s, p, rc) (Some (st, s1, p2, rc))"
    "safe (s, p, rc) (Some (st, s, p3, rc))" for st
    using f by (auto intro!: safe_Some simp: within_def)
  show "safe (s, p, rc) ((\<lambda>(s, p, rc). let asrt = (drop_bit 7 (data ! 0) = 1); index = data ! 0 AND 0x7f
     in if unat index < PIN_MAX then
          let (st, s) = on_target (op_write (target env) (unat index) asrt) s
          in if st \<noteq> ST_OK then Some (st, s, p, rc)
             else if unat index = PIN_RESET_BUTTON \<and> asrt
                  then let (st, p) = skip_wait_cycles p in Some (st, s, p, rc)
             else Some (ST_OK, s, p, rc)
        else if index AND SCAN_CHAIN_SELECT = SCAN_CHAIN_SELECT then
          (if jtag_chain_mode s = JTAG_CHAIN_SELECT_MODE_SINGLE then
             let scan_chain = index AND 0xf
             in if unat scan_chain \<ge> MAX_SCAN_CHAINS then Some (ST_ERR, s, p, rc)
                else engine (asd_write_set_active_chain_event env scan_chain) (s, p, rc)
           else let (st, p) = read_chain_bytes (unat (index AND 0xf) + 1) p in Some (st, s, p, rc))
        else Some (ST_ERR, s, p, rc)) (s, p, rc))"
    unfolding prod.case Let_def index_def [symmetric] t k c
    by (simp add: part ev)
qed

lemma safe_write_cfg: "safe (s, p, rc) (write_cfg env cmd (s, p, rc))"
proof -
  have pad: "safe (s, q, rc) (engine (set_padding ty v) (s, q, rc))" for q ty v
    by (rule safe_engine) (auto simp: set_padding_def dest: on_jtag_frame(1))
  have prdy: "safe (s, q, rc) (engine (\<lambda>s. Some (ST_OK, s\<lparr>prdy_timeout := v\<rparr>)) (s, q, rc))" for q v
    by (rule safe_engine) auto
  show ?thesis
    unfolding write_cfg_def by (auto intro!: safe_need safe_jtag pad prdy)
qed

lemma safe_read_status: "safe (s, p, rc) (cmd_read_status env cmd (s, p, rc))"
  unfolding cmd_read_status_def
proof (rule safe_need, clarify)
  fix data :: "u8 list" and q
  obtain st bs s' where r: "read_status env (cmd AND 7) (data ! 0 AND 127) s = (st, bs, s')" by (metis prod_cases3)
  then have "out_msg s' = out_msg s" "length bs \<le> 2"
    by (auto simp: read_status_def Let_def split: prod.splits if_splits)
  then have "safe (s, q, rc) (Some (st, respond bs (s', q, rc)))" if "rc + 2 \<le> 3000"
    using that by (intro safe_Some within_respond) (auto simp: within_def)
  then show "safe (s, q, rc) (if MAX_DATA_SIZE < rc + 2 then Some (ST_ERR, s, q, rc)
      else let (st, bs, s) = read_status env (cmd AND 7) (data ! 0 AND 127) s in Some (st, respond bs (s, q, rc)))"
    by (simp add: r)
qed

lemma safe_scans:
  assumes "polite (jtag_driver env)"
  shows "safe (s, p, rc) (cmd_write_scan env cmd (s, p, rc))"
    "safe (s, p, rc) (cmd_read_scan env cmd (s, p, rc))"
    "safe (s, p, rc) (cmd_read_write_scan env cmd (s, p, rc))"
proof -
  obtain n nb where l: "get_scan_length cmd = (n, nb)" by fastforce
  note len = scan_length [OF l]
  show "safe (s, p, rc) (cmd_write_scan env cmd (s, p, rc))"
    unfolding cmd_write_scan_def l Let_def prod.case
    by (intro safe_need safe_end_state_of safe_shift_write)
  define y where "y = (s\<lparr>out_msg := (out_msg s)\<lparr>buffer := take rc (buffer (out_msg s)) @ [cmd] @
          drop (rc + 1) (buffer (out_msg s))\<rparr>\<rparr>)"
  have y: "respond [cmd] (s, p, rc) = (y, p, rc + 1)" by (simp add: respond_def y_def)
  have step: "safe (s, p, rc) m" if "safe (y, p, rc + 1) m" "\<not> 3000 < rc + 1 + nb" for m
    by (rule safe_trans [OF _ that(1)]) (use that(2) within_respond [of s p rc "[cmd]"] y in simp)
  have fits: "rc + 1 + nb \<le> 3000" if "\<not> 3000 < rc + 1 + nb" using that by simp
  show "safe (s, p, rc) (cmd_read_scan env cmd (s, p, rc))"
    unfolding cmd_read_scan_def l Let_def prod.case y
    by (simp only: split: if_split, intro conjI impI safe_refl)
      (intro step safe_end_state_of safe_shift_response [OF assms fits]; use len in simp)
  show "safe (s, p, rc) (cmd_read_write_scan env cmd (s, p, rc))"
    unfolding cmd_read_write_scan_def l Let_def prod.case y
    by (simp only: split: if_split, intro conjI impI safe_refl)
      (intro step safe_need safe_end_state_of safe_shift_response [OF assms fits]; use len in simp)
qed

lemma safe_command:
  assumes "polite (jtag_driver env)"
  shows "safe (s, p, rc) (jtag_command env cmd (s, p, rc))"
proof -
  have event: "safe (s, p, rc) (cmd_write_event_config env (s, p, rc))"
    unfolding cmd_write_event_config_def
    by (intro safe_need safe_engine)
      (auto simp: write_event_config_def Let_def dest: on_target_frame(1) split: if_splits)
  have sync: "safe (s, p, rc) (cmd_wait_sync env (s, p, rc))"
    unfolding cmd_wait_sync_def
    by (rule safe_need)
      (auto simp: Let_def within_def split: prod.splits intro!: safe_Some dest!: on_target_frame(1))
  have cycles: "safe (s, p, rc) (cmd_wait_cycles env (s, p, rc))"
    unfolding cmd_wait_cycles_def Let_def by (intro safe_need safe_jtag)
  have prdy: "safe (s, p, rc) (cmd_wait_prdy env (s, p, rc))"
    unfolding cmd_wait_prdy_def by (rule safe_engine) (auto dest: on_target_frame(1))
  have tap: "safe (s, p, rc) (cmd_tap_state env cmd (s, p, rc))" "safe (s, p, rc) (cmd_tap_reset env (s, p, rc))"
    unfolding cmd_tap_state_def cmd_tap_reset_def by (rule safe_jtag)+
  show ?thesis
    unfolding jtag_command_def
    by (simp add: event sync cycles prdy tap safe_write_cfg safe_write_pins safe_read_status safe_scans [OF assms])
qed

lemma safe_loop:
  assumes "polite (jtag_driver env)"
  shows "safe x (jtag_loop env x)"
  using assms
proof (induction env x rule: jtag_loop.induct)
  case (1 env x)
  obtain s p rc where x: "x = (s, p, rc)" by (cases x)
  show ?case
  proof (cases "used p < total p")
    case True
    have "safe x (jtag_step env x)"
      unfolding jtag_step_def x by (intro safe_need safe_command 1(2))
    then have "safe x (then_ok (jtag_step env x) (jtag_loop env))"
      by (rule safe_then_ok) (rule 1(1) [OF x [symmetric] refl True _ 1(2)])
    then show ?thesis using True by (simp add: x jtag_loop.simps)
  qed (simp add: x jtag_loop.simps)
qed
section \<open>Properties\<close>

lemma get_message_size_cmd_stat [simp]:
  "get_message_size \<lparr>header = h\<lparr>cmd_stat := e\<rparr>, buffer = b\<rparr> = get_message_size \<lparr>header = h, buffer = b\<rparr>"
  by (simp add: get_message_size_def')

lemma jtag_response_sends:
  fixes h :: message_header
  assumes "length (send_junk env) = MAX_PACKET_SIZE" "length (buffer (out_msg s)) = MAX_DATA_SIZE"
    and "rc \<le> MAX_DATA_SIZE"
  defines "packet \<equiv> encode_header ((set_size (of_nat rc) h)\<lparr>cmd_stat := ASD_SUCCESS\<rparr>) @ take rc (buffer (out_msg s))"
  shows "jtag_response env h rc s = (send_function (client s) (sent (client s)) packet,
     s\<lparr>out_msg := (out_msg s)\<lparr>header := (set_size (of_nat rc) h)\<lparr>cmd_stat := ASD_SUCCESS\<rparr>\<rparr>,
       client := (client s)\<lparr>sent := sent (client s) @ [packet]\<rparr>\<rparr>)"
proof -
  let ?h = "(set_size (of_nat rc) h)\<lparr>cmd_stat := ASD_SUCCESS\<rparr>"
  let ?m = "(out_msg s)\<lparr>header := ?h\<rparr>"
  have "get_message_size (\<lparr>header = set_size (of_nat rc) h, buffer = buffer (out_msg s)\<rparr>) = int rc"
    using assms(3) by (subst get_message_size_set [where n = rc and h = h]) simp_all
  then have "get_message_size ?m = int rc"
    using get_message_size_cmd_stat [where h = "set_size (of_nat rc) h" and e = ASD_SUCCESS and b = "buffer (out_msg s)"]
    by (cases "out_msg s") simp
  then show ?thesis
    using assms(1,2) by (simp add: jtag_response_def send_response_bytes transmit_def packet_def)
qed

lemma jtag_sends:
  assumes "polite (jtag_driver env)" "length (send_junk env) = MAX_PACKET_SIZE"
    and "length (buffer m) = MAX_DATA_SIZE" "length (buffer (out_msg s)) = MAX_DATA_SIZE"
    and "process_jtag_message env m s = Some (st, s')"
  shows "fixed_part s' = fixed_part s \<and> buses s' = buses s \<and> in_msg s' = in_msg s \<and> asd_cfg s' = asd_cfg s \<and> length (buffer (out_msg s')) = MAX_DATA_SIZE \<and>
    (client s' = client s \<and> st \<noteq> ST_OK \<or>
     (\<exists>payload. length payload \<le> MAX_DATA_SIZE \<and>
        (let packet = encode_header ((set_size (of_nat (length payload)) (header m))\<lparr>cmd_stat := ASD_SUCCESS\<rparr>) @ payload
         in client s' = (client s)\<lparr>sent := sent (client s) @ [packet]\<rparr> \<and>
            st = send_function (client s) (sent (client s)) packet)))"
proof (cases "get_message_size m = -1")
  case True
  then show ?thesis using assms(4,5) by (simp add: process_jtag_message_def)
next
  case False
  define n where "n = nat (get_message_size m)"
  have n: "n \<le> length (buffer m)" using get_message_size_range [of m] False assms(3) by (auto simp: n_def)
  define s0 where "s0 = s\<lparr>out_msg := \<lparr>header = decode_header (replicate HEADER_SIZE 0),
     buffer = replicate MAX_DATA_SIZE 0\<rparr>\<rparr>"
  obtain st1 s1 p1 rc where l: "jtag_loop env (s0, packet_of (buffer m) n, 0) = Some (st1, s1, p1, rc)"
    and r: "Some (st, s') = Some (if st1 = ST_OK then jtag_response env (header m) rc s1 else (st1, s1))"
    using assms(5) False by (auto simp: process_jtag_message_def Let_def s0_def n_def split: option.splits)
  have "within (s0, packet_of (buffer m) n, 0)"
    using packet_of_ok [OF n] by (simp add: within_def s0_def)
  then have w: "within (s1, p1, rc)"
    using safe_loop [OF assms(1)] l unfolding safe_def by blast
  have "moved (s0, packet_of (buffer m) n, 0) (s1, p1, rc)"
    using jtag_loop_moves l unfolding moves_on_def by blast
  then have f: "in_msg s1 = in_msg s" "client s1 = client s" "asd_cfg s1 = asd_cfg s" "fixed_part s1 = fixed_part s"
    "buses s1 = buses s"
    by (simp_all add: frame_def s0_def)
  show ?thesis
  proof (cases "st1 = ST_OK")
    case False
    then show ?thesis using r f w by (simp add: within_def)
  next
    case True
    have rc: "rc \<le> 3000" "length (buffer (out_msg s1)) = 3000" using w by (simp_all add: within_def)
    then show ?thesis
      using r f True jtag_response_sends [OF assms(2) rc(2,1), of "header m"]
      by (simp add: Let_def) (intro disjI2 exI [of _ "take rc (buffer (out_msg s1))"], simp)
  qed
qed


text \<open>A server with a quiet target on the ASPEED driver, for the concrete cases.\<close>

definition quiet_target :: "unit target_ops" where
  "quiet_target = \<lparr>op_write = (\<lambda>_ _ t. (ST_OK, t)), op_read = (\<lambda>_ t. (ST_OK, True, t)),
     op_write_event_config = (\<lambda>_ _ t. (ST_OK, t)), op_wait_PRDY = (\<lambda>_ t. (ST_OK, t)),
     op_wait_sync = (\<lambda>_ _ t. (ST_TIMEOUT, t))\<rparr>"

definition demo_env :: "(aspeed_jtag, unit) asd_env" where
  "demo_env = \<lparr>shift_junk = (\<lambda>_. (replicate 3000 7, 9)), send_junk = replicate 3004 7,
     jtag_driver = aspeed_port (-1) (\<lambda>_. (1, 2, 3)), target = quiet_target\<rparr>"

definition zero_message :: asd_message where
  "zero_message = \<lparr>header = decode_header [0, 0, 0, 0], buffer = replicate 3000 0\<rparr>"

definition demo_config :: config where
  "demo_config = \<lparr>jtag_cfg = \<lparr>jtag_mode_cfg = JTAG_DRIVER_MODE_SOFTWARE, chain_mode = JTAG_CHAIN_SELECT_MODE_SINGLE\<rparr>,
     remote_logging = \<lparr>logging_level = 5, logging_stream = 0\<rparr>,
     buscfg = \<lparr>enable_i2c = True, enable_i3c = False, default_bus = 4,
       bus_config_types = [BUS_CONFIG_I2C, BUS_CONFIG_I2C, BUS_CONFIG_NOT_ALLOWED, BUS_CONFIG_NOT_ALLOWED],
       bus_config_map = [4, 9, 0, 0]\<rparr>\<rparr>"

definition demo_state :: "(aspeed_jtag, unit, unit) ASD_MSG" where
  "demo_state = \<lparr>asd_cfg = demo_config,
     in_msg = \<lparr>read_index = 0, in_data_size = 0, read_state = READ_STATE_INITIAL, imsg = zero_message\<rparr>,
     out_msg = zero_message, jtag_handler = fresh_handler, jtag_dev = reset_device,
     target_handler = (), buses = (), vprobe_handler = vProbeHandler (replicate 3000 7), handlers_initialized = True, prdy_timeout = 1,
     jtag_chain_mode = JTAG_CHAIN_SELECT_MODE_SINGLE, bmc_version = [], bmc_version_size = 0,
     xdp_fail_enable = True, client = ok_transport\<rparr>"

text \<open>A packet with the given payload.\<close>

definition packet_with :: "u8 list \<Rightarrow> asd_message" where
  "packet_with bs = \<lparr>header = set_size (of_nat (length bs)) (decode_header [0x20, 0, 0x60, 0]),
     buffer = bs @ replicate (3000 - length bs) 0\<rparr>"

lemma packet_with_simps [simp]:
  assumes "length bs \<le> 3000"
  shows "get_message_size (packet_with bs) = int (length bs)" "length (buffer (packet_with bs)) = 3000"
    "take (length bs) (buffer (packet_with bs)) = bs"
  using assms get_message_size_set [of "length bs" "packet_with bs"] by (simp_all add: packet_with_def)

lemma demo_simps [simp]:
  "jtag_driver demo_env = aspeed_port (-1) (\<lambda>_. (1, 2, 3))" "send_junk demo_env = replicate 3004 7"
  "target demo_env = quiet_target" "buffer (out_msg demo_state) = replicate 3000 0"
  "client demo_state = ok_transport" "jtag_handler demo_state = fresh_handler"
  "jtag_dev demo_state = reset_device"
  by (simp_all add: demo_env_def demo_state_def zero_message_def)

lemma step_at:
  assumes "used p < total p" "packet_ok p"
  shows "jtag_step env (s, p, rc) = jtag_command env (packet_bytes p ! used p) (s, p\<lparr>used := Suc (used p)\<rparr>, rc)"
  using assms by (simp add: jtag_step_def need_def get_packet_data_byte [unfolded One_nat_def])

lemma loop_at:
  assumes "used p < total p" "packet_ok p"
  shows "jtag_loop env (s, p, rc) = then_ok (jtag_command env (packet_bytes p ! used p)
      (s, p\<lparr>used := Suc (used p)\<rparr>, rc)) (jtag_loop env)"
  using assms by (simp add: jtag_loop.simps [of env "(s, p, rc)"] step_at)

lemma loop_end: "total p \<le> used p \<Longrightarrow> jtag_loop env (s, p, rc) = Some (ST_OK, s, p, rc)"
  by (simp add: jtag_loop.simps)

text \<open>
  In software mode the end state of a scan is found without moving the reader: a TAP state
  command that follows is the end state, at the end of the packet or before a further scan of the same kind
  the scan stays in its state, and any other command is refused.
\<close>

theorem software_end_state:
  assumes "packet_ok p"
  shows "determine_shift_end_state JTAG_DRIVER_MODE_SOFTWARE ty h p =
    (if used p = total p then (ST_OK, JTAG_get_tap_state h, p)
     else let c = packet_bytes p ! used p
          in if is_tap_cmd c then (ST_OK, tapstate_of_num (c AND 0xf), p)
             else (if scan_follows ty c then ST_OK else ST_ERR, JTAG_get_tap_state h, p))"
proof (cases "used p = total p")
  case True
  then have "peek 1 p = (None, p)" by (simp only: peek_one less_irrefl if_False)
  then show ?thesis using True by (simp add: determine_shift_end_state_def)
next
  case False
  then have u: "used p < total p" using assms by (simp add: packet_ok_def)
  have "peek 1 p = (Some (packet_bytes p ! used p), p\<lparr>used := used p + 1\<rparr>)"
    by (simp add: peek_def get_packet_data_byte [OF u assms, unfolded One_nat_def])
  then show ?thesis
    using False by (simp add: determine_shift_end_state_def unget_def second_tap_def Let_def)
qed

lemma software_end_state_witness:
  "determine_shift_end_state JTAG_DRIVER_MODE_SOFTWARE ScanType_Read fresh_handler (packet_of [0x26, 0x10] 2) =
     (ST_OK, JTAG_STATE_PAUSEDR, packet_of [0x26, 0x10] 2)"
  using software_end_state [of "packet_of [0x26, 0x10] 2" ScanType_Read fresh_handler]
  by (simp add: packet_ok_def packet_of_def is_tap_cmd_def tapstate_of_num_def tapstates_def)


lemma byte_eq_split: "(b :: u8) = of_nat (32 * unat (drop_bit 5 b) + unat (b AND 0x1f))"
proof -
  have "b AND 0x1f = take_bit 5 b" by (simp add: take_bit_eq_mask mask_eq_exp_minus_1)
  then have "32 * unat (drop_bit 5 b) + unat (b AND 0x1f) = unat b"
    by (simp add: drop_bit_eq_div take_bit_eq_mod unat_div_distrib unat_mod_distrib)
  then show ?thesis by simp
qed

lemma tck_divisor_zero: "tck_divisor b = 0 \<longleftrightarrow> b = 0x40 \<or> b = 0x60"
proof -
  define q r where "q = drop_bit 5 b" and "r = b AND 0x1f"
  have r: "r < 32"
  proof -
    have "r = take_bit 5 b" by (simp add: r_def take_bit_eq_mask mask_eq_exp_minus_1)
    then have "unat r < 32" using take_bit_nat_less_exp [of 5 "unat b"] by (simp add: unsigned_take_bit_eq)
    then show ?thesis by (simp add: word_less_nat_alt)
  qed
  have q: "unat q < 8"
    using unsigned_less [where 'a = nat, of b] by (simp add: q_def drop_bit_eq_div unat_div_distrib less_mult_imp_div_less)
  then have "q \<in> {0, 1, 2, 3, 4, 5, 6, 7}"
  proof -
    have "q = of_nat (unat q)" by simp
    moreover have "unat q \<in> {0, 1, 2, 3, 4, 5, 6, 7}" using q by auto
    ultimately show ?thesis by (auto dest: arg_cong [of "unat q" _ "of_nat :: nat \<Rightarrow> u8"])
  qed
  have b: "b = of_nat (32 * unat q + unat r)" using byte_eq_split [of b] by (simp only: q_def r_def)
  have ps: "prescale_value q \<in> {1, 2, 4, 8}" by (simp add: prescale_value_def)
  have small: "unat (prescale_value q * r) = unat (prescale_value q) * unat r" and "unat r < 32"
  proof -
    show r32: "unat r < 32" using r by (simp add: word_less_nat_alt)
    have "unat (prescale_value q) \<le> 8" using ps by auto
    then have "unat (prescale_value q) * unat r \<le> 8 * 31" using r32 by (intro mult_le_mono) simp_all
    then show "unat (prescale_value q * r) = unat (prescale_value q) * unat r"
      by (simp add: unat_word_ariths)
  qed
  show ?thesis
  proof (cases "r = 0")
    case True
    have "tck_divisor b = prescale_value q * 64"
      using True by (simp add: tck_divisor_def q_def r_def Let_def)
    moreover have "prescale_value q * 64 = 0 \<longleftrightarrow> q = 2 \<or> q = 3" by (simp add: prescale_value_def)
    moreover have "b = 0x40 \<longleftrightarrow> q = 2" "b = 0x60 \<longleftrightarrow> q = 3"
      using b True \<open>q \<in> _\<close> by auto
    ultimately show ?thesis by simp
  next
    case False
    have "tck_divisor b = prescale_value q * r"
      using False by (simp add: tck_divisor_def q_def r_def Let_def)
    moreover have "unat (prescale_value q) \<noteq> 0" using ps by auto
    moreover have "unat r \<noteq> 0" using False by (simp add: unat_eq_0)
    ultimately have "tck_divisor b \<noteq> 0" using small by (metis mult_is_0 unat_0)
    moreover have "(0x40 :: u8) AND 0x1f = 0" "(0x60 :: u8) AND 0x1f = 0" by simp_all
    ultimately show ?thesis using False by (auto simp: r_def)
  qed
qed

text \<open>
  A packet sets the clock to the APB rate over the product of a prescaler 1, 2, 4 or 8 and a
  divisor up to 64, kept in a byte: for the data bytes 0x40 and 0x60, and for no others, it wraps
  to zero and the server stops on a division by zero.
\<close>

theorem clock_command:
  assumes "packet_ok p" "used p + 2 \<le> total p" "packet_bytes p ! used p = JTAG_FREQ"
    and "packet_bytes p ! (used p + 1) = b"
  shows "jtag_step env (s, p, rc) =
    (if b = 0x40 \<or> b = 0x60 then None
     else case port_ioctl (jtag_driver env) (JTAG_driver_handle (jtag_handler s))
                 (JTAG_SIOCFREQ (Some (of_nat (APB_FREQ div unat (tck_divisor b))))) (jtag_dev s) of
            None \<Rightarrow> None
          | Some (e, _, d) \<Rightarrow> Some (if e = None then ST_OK else ST_ERR, s\<lparr>jtag_dev := d\<rparr>,
              p\<lparr>used := used p + 2\<rparr>, rc))"
proof -
  let ?q = "p\<lparr>used := Suc (used p)\<rparr>"
  have g: "get_packet_data ?q 1 = Some ([b], p\<lparr>used := used p + 2\<rparr>)"
    using get_packet_data_byte [of ?q] assms by (simp add: packet_ok_def)
  have "jtag_step env (s, p, rc) = write_cfg env JTAG_FREQ (s, ?q, rc)"
    using assms by (subst step_at) (simp_all add: jtag_command_def)
  also have "\<dots> = engine (on_jtag (JTAG_set_jtag_tck (jtag_driver env) (unat (tck_divisor b))))
      (s, p\<lparr>used := used p + 2\<rparr>, rc)"
    using g by (simp add: write_cfg_def need_def)
  also have "\<dots> = (if b = 0x40 \<or> b = 0x60 then None
     else case port_ioctl (jtag_driver env) (JTAG_driver_handle (jtag_handler s))
                 (JTAG_SIOCFREQ (Some (of_nat (APB_FREQ div unat (tck_divisor b))))) (jtag_dev s) of
            None \<Rightarrow> None
          | Some (e, _, d) \<Rightarrow> Some (if e = None then ST_OK else ST_ERR, s\<lparr>jtag_dev := d\<rparr>,
              p\<lparr>used := used p + 2\<rparr>, rc))"
    using tck_divisor_zero [of b]
    by (auto simp: engine_def on_jtag_def JTAG_set_jtag_tck_def unat_eq_0 split: option.split)
  finally show ?thesis .
qed

lemma clock_command_witness:
  "jtag_step demo_env (demo_state, packet_of [1, 0x60] 2, 0) = None"
  using clock_command [of "packet_of [1, 0x60] 2" "0x60" demo_env demo_state 0]
  by (simp add: packet_ok_def packet_of_def)

text \<open>What is left of a payload, and what is to be dropped from it after a reset.\<close>

definition rest_of :: "packet_data \<Rightarrow> u8 list" where
  "rest_of p = drop (used p) (take (total p) (packet_bytes p))"

fun drop_waits :: "u8 list \<Rightarrow> u8 list option" where
  "drop_waits [] = Some []"
| "drop_waits [c] = None"
| "drop_waits (c # n # bs) = (if c = WAIT_CYCLES_TCK_DISABLE then drop_waits bs else Some (c # n # bs))"

text \<open>
  When the reset button has been asserted, exactly the wait commands that follow at once are dropped
  and all that is behind them is kept; but a single byte that is left is an error, although it may be a
  command of its own.
\<close>

theorem waits_after_reset:
  assumes "packet_ok p" "skip_wait_cycles p = (st, p')"
  shows "case drop_waits (rest_of p) of
     None \<Rightarrow> st = ST_ERR
   | Some bs \<Rightarrow> st = ST_OK \<and> rest_of p' = bs"
  using assms
proof (induction p rule: skip_wait_cycles.induct)
  case (1 p)
  have len: "length (rest_of p) = total p - used p"
    using 1(2) by (simp add: rest_of_def packet_ok_def)
  show ?case
  proof (cases "used p + 2 \<le> total p")
    case True
    then obtain c n bs where r: "rest_of p = c # n # bs"
      using len by (cases "rest_of p"; cases "tl (rest_of p)") auto
    define q where "q = p\<lparr>used := used p + 2\<rparr>"
    have rq: "rest_of q = bs"
      using arg_cong [OF r, of "drop 2"] by (simp add: rest_of_def q_def add.commute)
    have "take 2 (rest_of p) = take 2 (drop (used p) (packet_bytes p))"
      using True 1(2) by (simp add: rest_of_def drop_take min_def packet_ok_def)
    then have g: "get_packet_data p 2 = Some ([c, n], q)"
      using True r by (simp add: get_packet_data_def q_def)
    have ok: "packet_ok q" using 1(2) True by (simp add: q_def packet_ok_def)
    show ?thesis
    proof (cases "c = WAIT_CYCLES_TCK_DISABLE")
      case True
      have "skip_wait_cycles q = (st, p')"
        using 1(3) True g \<open>used p + 2 \<le> total p\<close> by (simp add: skip_wait_cycles.simps [of p])
      from 1(1) [OF _ g refl _ ok this] True \<open>used p + 2 \<le> total p\<close> rq show ?thesis
        by (simp add: r)
    next
      case False
      have "skip_wait_cycles p = (ST_OK, p)"
        using False g unget_get [OF g] \<open>used p + 2 \<le> total p\<close> by (simp add: skip_wait_cycles.simps [of p])
      then show ?thesis using 1(3) r False by simp
    qed
  next
    case False
    show ?thesis
    proof (cases "used p < total p")
      case True
      then obtain c where "rest_of p = [c]"
        using len False by (cases "rest_of p"; cases "tl (rest_of p)") auto
      moreover have "get_packet_data p 2 = None" using False by (simp add: get_packet_data_def)
      ultimately show ?thesis using 1(3) True by (simp add: skip_wait_cycles.simps [of p])
    next
      case False
      then have "rest_of p = []" using len by simp
      then show ?thesis using 1(3) False by (simp add: skip_wait_cycles.simps [of p])
    qed
  qed
qed

lemma waits_after_reset_witness:
  "fst (skip_wait_cycles (packet_of [0x10, 3, 0x10, 0, 0x14] 5)) = ST_ERR \<and>
   rest_of (snd (skip_wait_cycles (packet_of [0x10, 3, 0x10, 0, 0x24, 0x20] 6))) = [0x24, 0x20]"
proof -
  have ok: "packet_ok (packet_of [0x10, 3, 0x10, 0, 0x14] 5)"
    "packet_ok (packet_of [0x10, 3, 0x10, 0, 0x24, 0x20] 6)"
    by (simp_all add: packet_ok_def packet_of_def)
  have rest: "rest_of (packet_of [0x10, 3, 0x10, 0, 0x14] 5) = [0x10, 3, 0x10, 0, 0x14]"
    "rest_of (packet_of [0x10, 3, 0x10, 0, 0x24, 0x20] 6) = [0x10, 3, 0x10, 0, 0x24, 0x20]"
    by (simp_all add: rest_of_def packet_of_def)
  show ?thesis
    using waits_after_reset [OF ok(1) prod.collapse [symmetric]] waits_after_reset [OF ok(2) prod.collapse [symmetric]]
    by (simp add: rest)
qed

end
