(* ===== verification/Asd_Scan.thy ===== *)
theory Asd_Scan
  imports Asd_Jtag
begin

text \<open>
  A JTAG packet from the wire to the pins and back: the packet that moves the TAP to a shift state,
  shifts bits through it and moves on, processed by \<^verbatim>\<open>process_jtag_message\<close>, \<^verbatim>\<open>jtag_handler.c\<close> and the
  driver together. The handler's contract with a device carries the proof.
\<close>

definition tap_cmd :: "jtag_tapstate \<Rightarrow> u8" where
  "tap_cmd s = 0x20 + of_nat (tapstate_num s)"

lemma tap_cmd_simps:
  assumes "s \<noteq> JTAG_STATE_CURRENT"
  shows "is_tap_cmd (tap_cmd s)" "tapstate_of_num (tap_cmd s AND 0xf) = s"
    "jtag_command env (tap_cmd s) x = cmd_tap_state env (tap_cmd s) x"
  using assms by (cases s; simp add: tap_cmd_def is_tap_cmd_def tapstate_of_num_def tapstates_def jtag_command_def)+

lemma rw_command:
  assumes "READ_WRITE_SCAN_MIN \<le> c"
  shows "jtag_command env c x = cmd_read_write_scan env c x"
  using assms by (auto simp: jtag_command_def word_le_nat_alt)

lemma next_tap_cmd:
  assumes "packet_ok p" "used p \<noteq> total p" "packet_bytes p ! used p = tap_cmd e" "e \<noteq> JTAG_STATE_CURRENT"
  shows "determine_shift_end_state JTAG_DRIVER_MODE_SOFTWARE ty h p = (ST_OK, e, p)"
proof -
  have u: "used p < total p" using assms by (simp add: packet_ok_def)
  have "peek 1 p = (Some (tap_cmd e), p\<lparr>used := used p + 1\<rparr>)"
    using assms(3) by (simp add: peek_def get_packet_data_byte [OF u assms(1), unfolded One_nat_def])
  then show ?thesis
    using tap_cmd_simps [OF assms(4)] by (simp add: determine_shift_end_state_def unget_def second_tap_def Let_def)
qed

text \<open>The handler and the device agree, with the device in a state the handler knows.\<close>

context jtag_device begin

lemma agreeD:
  assumes "agree h d"
  shows "handler_ok h" "sw_mode h" "ready (JTAG_driver_handle h) d" "tap d = JTAG_get_tap_state h"
  using assms by (auto simp: agree_def)

lemma goto_ok:
  assumes "agree h d" "s \<noteq> JTAG_STATE_CURRENT"
  shows "\<exists>h' d' tms. JTAG_set_tap_state port s h d = Some (ST_OK, h', d') \<and> agree h' d' \<and>
    JTAG_get_tap_state h' = s \<and> scan_state (active h') = scan_state (active h) \<and>
    shift_padding (active h') = shift_padding (active h) \<and>
    clks d' = clks d @ moves tms @ replicate (if s = JTAG_STATE_IDLE \<or> s = JTAG_STATE_PAUSEDR then 5 else 0) (False, False)"
proof -
  note a = agreeD [OF assms(1)]
  obtain h' d' tms bs where g: "JTAG_set_tap_state port s h d = Some (ST_OK, h', d')" "handler_ok h'"
    "h' = (upd_active (\<lambda>c. c\<lparr>tap_state := s\<rparr>) h)\<lparr>bitbang_data := bs\<rparr>"
    "ready (JTAG_driver_handle h') d'" "tap d' = s"
    "clks d' = clks d @ moves tms @ replicate (if s = JTAG_STATE_IDLE \<or> s = JTAG_STATE_PAUSEDR then 5 else 0) (False, False)"
    by (insert set_tap_state_ok [OF a(1,3) assms(2) disjI1 [OF a(4)]], elim exE conjE) (rule that; assumption)
  moreover have "agree h' d'" "JTAG_get_tap_state h' = s" "scan_state (active h') = scan_state (active h)"
    "shift_padding (active h') = shift_padding (active h)"
    using g a by (simp_all add: agree_def JTAG_get_tap_state_def)
  ultimately show ?thesis by blast
qed

lemma scan_ok:
  assumes "agree h d" "JTAG_get_tap_state h = shift_state ty" "e \<noteq> JTAG_STATE_CURRENT" "0 < n" "n < 65535"
    and "\<And>d. length (fst (junk d)) = 3000" "\<And>d. io_ok n input ob mem (fst (junk d))"
  shows "\<exists>mem' h' d' pre bs posts tms. JTAG_shift junk port n input ob mem e h d = Some (ST_OK, mem', h', d') \<and>
    agree h' d' \<and> JTAG_get_tap_state h' = e \<and>
    clks d' = clks d @ shift_trace ty h (e \<noteq> shift_state ty) (in_bits input) n @ moves tms \<and>
    smps d' = smps d @ pre @ bs @ posts \<and> length pre = pre_pad ty h \<and> length bs = n \<and>
    stored n ob mem mem' bs"
proof -
  note a = agreeD [OF assms(1)]
  have t: "tap d = shift_state ty" using a(4) assms(2) by simp
  let ?h = "chain_at e (if e = shift_state ty then JTAGScanState_Run else JTAGScanState_Done) h"
  obtain mem' d' pre bs posts tms where s: "JTAG_shift junk port n input ob mem e h d = Some (ST_OK, mem', ?h, d')"
    "ready (JTAG_driver_handle h) d'" "tap d' = e"
    "clks d' = clks d @ shift_trace ty h (e \<noteq> shift_state ty) (in_bits input) n @ moves tms"
    "smps d' = smps d @ pre @ bs @ posts" "length pre = pre_pad ty h" "length bs = n" "stored n ob mem mem' bs"
    by (insert shift_ok [where junk = junk and input = input and obytes = ob and mem = mem,
          OF a(1,2) assms(2) a(3) t assms(3-7)], elim exE conjE) (rule that; assumption)
  moreover have "agree ?h d'" "JTAG_get_tap_state ?h = e"
    using s a(1,2) assms(3) by (simp_all add: agree_def JTAG_get_tap_state_def)
  ultimately show ?thesis by blast
qed

end

text \<open>Pads depend on the padding and the scan state of the active chain only.\<close>

lemma shift_trace_cong:
  assumes "scan_state (active h) = scan_state (active h')" "shift_padding (active h) = shift_padding (active h')"
  shows "shift_trace ty h = shift_trace ty h'" "pre_pad ty h = pre_pad ty h'"
  using assms by (auto simp: shift_trace_def pre_pad_def post_pad_def fun_eq_iff split: jtag_xfer_type.split)
section \<open>The packet\<close>

context jtag_device begin

text \<open>
  One packet: a TAP state command into Shift, a read-write scan and the TAP state command behind it.
  The state after it has the three devices that are passed.
\<close>

lemma scan_loop:
  assumes e: "e \<noteq> JTAG_STATE_CURRENT" "e \<noteq> shift_state ty"
    and c: "READ_WRITE_SCAN_MIN \<le> c" "get_scan_length c = (n, nb)" and data: "length data = nb"
    and st: "agree (jtag_handler s) (jtag_dev s)" "length (buffer (out_msg s)) = 3000"
      "jtag_mode_cfg (jtag_cfg (asd_cfg s)) = JTAG_DRIVER_MODE_SOFTWARE"
    and env: "jtag_driver env = port" "\<And>d. length (fst (shift_junk env d)) = 3000"
    and p: "packet_ok p" "used p = 0" "take (total p) (packet_bytes p) = tap_cmd (shift_state ty) # c # data @ [tap_cmd e]"
  shows "\<exists>s' p' d1 d2 tms1 tms2 tms3 pre bs posts out.
    jtag_loop env (s, p, 0) = Some (ST_OK, s', p', 1 + nb) \<and>
    length (buffer (out_msg s')) = 3000 \<and> take (1 + nb) (buffer (out_msg s')) = c # out \<and>
    length out = nb \<and> length bs = n \<and> (\<forall>i < n. bbit out i = bs ! i) \<and>
    tap d1 = shift_state ty \<and> clks d1 = clks (jtag_dev s) @ moves tms1 \<and>
    clks d2 = clks d1 @ shift_trace ty (jtag_handler s) True (bbit data) n @ moves tms2 \<and>
    smps d2 = smps d1 @ pre @ bs @ posts \<and> length pre = pre_pad ty (jtag_handler s) \<and>
    agree (jtag_handler s') (jtag_dev s') \<and> JTAG_get_tap_state (jtag_handler s') = e \<and>
    clks (jtag_dev s') = clks d2 @ moves tms3 @
      replicate (if e = JTAG_STATE_IDLE \<or> e = JTAG_STATE_PAUSEDR then 5 else 0) (False, False)"
proof -
  let ?cur = "shift_state ty"
  have cur: "?cur \<noteq> JTAG_STATE_CURRENT" "?cur \<noteq> JTAG_STATE_IDLE" "?cur \<noteq> JTAG_STATE_PAUSEDR"
    by (cases ty; simp add: shift_state_def)+
  note len = scan_length [OF c(2)]
  have tot: "total p = nb + 3"
    using arg_cong [OF p(3), of length] p(1) data by (simp add: packet_ok_def)
  have byte: "packet_bytes p ! i = (tap_cmd ?cur # c # data @ [tap_cmd e]) ! i" if "i < nb + 3" for i
    using that tot unfolding p(3) [symmetric] by simp
  obtain h1 d1 tms1 where g1: "JTAG_set_tap_state port ?cur (jtag_handler s) (jtag_dev s) = Some (ST_OK, h1, d1)"
    "agree h1 d1" "JTAG_get_tap_state h1 = ?cur" "scan_state (active h1) = scan_state (active (jtag_handler s))"
    "shift_padding (active h1) = shift_padding (active (jtag_handler s))"
    "clks d1 = clks (jtag_dev s) @ moves tms1"
    using goto_ok [OF st(1) cur(1)] cur by auto
  define s1 where "s1 = s\<lparr>jtag_handler := h1, jtag_dev := d1\<rparr>"
  define p1 where "p1 = p\<lparr>used := 1\<rparr>"
  have l1: "jtag_loop env (s, p, 0) = jtag_loop env (s1, p1, 0)"
    using p tot byte [of 0] g1(1) env(1)
    by (subst loop_at) (simp_all add: tap_cmd_simps [OF cur(1)] cmd_tap_state_def engine_def on_jtag_def s1_def p1_def)
  define buf where "buf = [c] @ drop 1 (buffer (out_msg s))"
  define s2 where "s2 = s1\<lparr>out_msg := (out_msg s1)\<lparr>buffer := buf\<rparr>\<rparr>"
  define p2 p3 where "p2 = p\<lparr>used := 2\<rparr>" and "p3 = p\<lparr>used := nb + 2\<rparr>"
  have io: "io_ok n (Some data) nb (Some (drop 1 buf)) tdio" for tdio
    using len data st(2) by (simp add: io_ok_def buf_def)
  have n: "0 < n" "n < 65535" using len by simp_all
  obtain mem' h3 d3 pre bs posts tms2 where g3:
    "JTAG_shift (shift_junk env) port n (Some data) nb (Some (drop 1 buf)) e h1 d1 = Some (ST_OK, mem', h3, d3)"
    "agree h3 d3" "JTAG_get_tap_state h3 = e"
    "clks d3 = clks d1 @ shift_trace ty h1 (e \<noteq> ?cur) (in_bits (Some data)) n @ moves tms2"
    "smps d3 = smps d1 @ pre @ bs @ posts" "length pre = pre_pad ty h1" "length bs = n"
    "stored n nb (Some (drop 1 buf)) mem' bs"
    by (insert scan_ok [where junk = "shift_junk env" and input = "Some data" and ob = nb and
          mem = "Some (drop 1 buf)", OF g1(2,3) e(1) n env(2) io], elim exE conjE) (rule that; assumption)
  have rd: "get_packet_data p2 nb = Some (data, p3)"
  proof -
    have "take nb (drop 2 (packet_bytes p)) = take nb (drop 2 (take (total p) (packet_bytes p)))"
      using tot by (simp add: take_drop)
    also have "\<dots> = data" using data by (simp add: p(3))
    finally show ?thesis using tot by (simp add: get_packet_data_def p2_def p3_def)
  qed
  have p3: "packet_ok p3" "used p3 \<noteq> total p3" "packet_bytes p3 ! used p3 = tap_cmd e"
    using p(1) tot byte [of "nb + 2"] data by (simp_all add: p3_def packet_ok_def nth_append)
  have de: "determine_shift_end_state JTAG_DRIVER_MODE_SOFTWARE ScanType_ReadWrite h1 p3 = (ST_OK, e, p3)"
    by (rule next_tap_cmd [OF p3 e(1)])
  obtain mem where mem: "mem' = Some mem" "length mem = 2999" "\<forall>i < n. bbit mem i = bs ! i"
    using g3(8) st(2) by (auto simp: stored_def buf_def split: option.splits)
  define s3 where "s3 = s2\<lparr>jtag_handler := h3, jtag_dev := d3, out_msg := (out_msg s2)\<lparr>buffer := c # mem\<rparr>\<rparr>"
  have cmd: "cmd_read_write_scan env c (s1, p2, 0) = Some (ST_OK, s3, p3, 1 + nb)"
  proof -
    have "need nb (s2, p2, 1) f = f data (s2, p3, 1)" for f :: "u8 list \<Rightarrow> ('d, 'a, 'b) jstate \<Rightarrow> ('d, 'a, 'b) jstate outcome"
      by (simp add: need_def rd)
    moreover have "respond [c] (s1, p2, 0) = (s2, p2, 1)"
      by (simp add: respond_def s2_def s1_def buf_def)
    moreover have "end_state_of ScanType_ReadWrite (s2, p3, 1) f = f e (s2, p3, 1)"
      for f :: "jtag_tapstate \<Rightarrow> ('d, 'a, 'b) jstate \<Rightarrow> ('d, 'a, 'b) jstate outcome"
      using de st(3) by (simp add: end_state_of_def s2_def s1_def)
    moreover have "shift_env env n (Some data) nb (Some 1) e s2 = Some (ST_OK, s3)"
      using g3(1) env(1) mem by (simp add: shift_env_def s2_def s1_def s3_def buf_def)
    then have "shift_response env n (Some data) nb e (s2, p3, 1) = Some (ST_OK, s3, p3, 1 + nb)"
      by (simp add: shift_response_def engine_def)
    ultimately show ?thesis
      using len by (simp add: cmd_read_write_scan_def c(2))
  qed
  have l2: "jtag_loop env (s1, p1, 0) = jtag_loop env (s3, p3, 1 + nb)"
    using p tot byte [of 1] cmd
    by (subst loop_at) (simp_all add: rw_command [OF c(1)] p1_def p2_def packet_ok_def numeral_2_eq_2)
  have a3: "agree (jtag_handler s3) (jtag_dev s3)" using g3(2) by (simp add: s3_def)
  obtain h4 d4 tms3 where g4: "JTAG_set_tap_state port e h3 d3 = Some (ST_OK, h4, d4)"
    "agree h4 d4" "JTAG_get_tap_state h4 = e"
    "clks d4 = clks d3 @ moves tms3 @ replicate (if e = JTAG_STATE_IDLE \<or> e = JTAG_STATE_PAUSEDR then 5 else 0) (False, False)"
    using goto_ok [OF g3(2) e(1)] by auto
  define s4 p4 where "s4 = s3\<lparr>jtag_handler := h4, jtag_dev := d4\<rparr>" and "p4 = p\<lparr>used := nb + 3\<rparr>"
  have "jtag_loop env (s3, p3, 1 + nb) = Some (ST_OK, s4, p4, 1 + nb)"
    using p tot p3 g4(1) env(1)
    by (subst loop_at)
      (simp_all add: tap_cmd_simps [OF e(1)] cmd_tap_state_def engine_def on_jtag_def s3_def s4_def p3_def p4_def
        packet_ok_def loop_end)
  then have f1: "jtag_loop env (s, p, 0) = Some (ST_OK, s4, p4, 1 + nb)"
    using l1 l2 by simp
  have f2: "length (buffer (out_msg s4)) = 3000" "take (1 + nb) (buffer (out_msg s4)) = c # take nb mem"
    using mem(2) by (simp_all add: s4_def s3_def)
  have f3: "length (take nb mem) = nb" "\<forall>i < n. bbit (take nb mem) i = bs ! i"
  proof -
    show "length (take nb mem) = nb" using mem(2) len by simp
    have "i div 8 < nb" if "i < n" for i using byte_of_bit [OF that] len by simp
    then show "\<forall>i < n. bbit (take nb mem) i = bs ! i" using mem(3) by (simp add: bbit_def)
  qed
  have f4: "tap d1 = ?cur" using agreeD(4) [OF g1(2)] g1(3) by simp
  have f5: "clks d3 = clks d1 @ shift_trace ty (jtag_handler s) True (bbit data) n @ moves tms2"
    "length pre = pre_pad ty (jtag_handler s)"
    using g3(4,6) e(2) shift_trace_cong [OF g1(4,5), of ty] by (simp_all add: in_bits_def [abs_def])
  have f6: "agree (jtag_handler s4) (jtag_dev s4)" "JTAG_get_tap_state (jtag_handler s4) = e"
    "clks (jtag_dev s4) = clks d3 @ moves tms3 @
       replicate (if e = JTAG_STATE_IDLE \<or> e = JTAG_STATE_PAUSEDR then 5 else 0) (False, False)"
    using g4 by (simp_all add: s4_def)
  show ?thesis
    by (rule exI [of _ s4], rule exI [of _ p4], rule exI [of _ d1], rule exI [of _ d3], rule exI [of _ tms1],
        rule exI [of _ tms2], rule exI [of _ tms3], rule exI [of _ pre], rule exI [of _ bs], rule exI [of _ posts],
        rule exI [of _ "take nb mem"]) (intro conjI f1 f2 f3 f4 f5 f6 g1(6) g3(5,7))
qed

end

section \<open>Properties\<close>

text \<open>
  C1. A packet with a TAP state command into Shift-IR or Shift-DR, a read-write scan of up to 64 bits and
  a TAP state command out of it: the driver moves the device to Shift, clocks out the padding of the active
  chain around exactly the bits of the packet in order, and moves on to the state asked for, where the
  handler believes it to be. One answer is sent: the header of the request with success and the
  exact size, the scan command, and the TDO samples of these bits in order.
\<close>

theorem scan_packet_on_the_pins:
  assumes "e \<noteq> JTAG_STATE_CURRENT" "e \<noteq> shift_state ty"
    and "READ_WRITE_SCAN_MIN \<le> c" "get_scan_length c = (n, nb)" "length data = nb"
    and "handler_ok (jtag_handler s)" "sw_mode (jtag_handler s)" "JTAG_driver_handle (jtag_handler s) = dev"
    and "\<not> hw_mode (jtag_dev s)" "s0 \<noteq> JTAG_STATE_CURRENT"
    and "tap_of s0 (jtag_dev s) = JTAG_get_tap_state (jtag_handler s)"
    and "jtag_mode_cfg (jtag_cfg (asd_cfg s)) = JTAG_DRIVER_MODE_SOFTWARE"
    and "jtag_driver env = aspeed_port dev slack" "\<And>d. length (fst (shift_junk env d)) = 3000"
    and "length (send_junk env) = MAX_PACKET_SIZE" "length (buffer m) = MAX_DATA_SIZE"
    and "get_message_size m = int (nb + 3)"
    and "take (nb + 3) (buffer m) = tap_cmd (shift_state ty) # c # data @ [tap_cmd e]"
  shows "\<exists>s' d1 d2 tms1 tms2 tms3 pre bs posts out.
    (let packet = encode_header ((set_size (of_nat (1 + nb)) (header m))\<lparr>cmd_stat := ASD_SUCCESS\<rparr>) @ c # out
     in process_jtag_message env m s = Some (send_function (client s) (sent (client s)) packet, s') \<and>
        client s' = (client s)\<lparr>sent := sent (client s) @ [packet]\<rparr>) \<and>
    length out = nb \<and> length bs = n \<and> (\<forall>i < n. bbit out i = bs ! i) \<and>
    tap_of s0 d1 = shift_state ty \<and> clocks d1 = clocks (jtag_dev s) @ moves tms1 \<and>
    clocks d2 = clocks d1 @ shift_trace ty (jtag_handler s) True (bbit data) n @ moves tms2 \<and>
    tdos d2 = tdos d1 @ pre @ bs @ posts \<and> length pre = pre_pad ty (jtag_handler s) \<and>
    clocks (jtag_dev s') = clocks d2 @ moves tms3 @
      replicate (if e = JTAG_STATE_IDLE \<or> e = JTAG_STATE_PAUSEDR then 5 else 0) (False, False) \<and>
    JTAG_get_tap_state (jtag_handler s') = e \<and> tap_of s0 (jtag_dev s') = e"
proof -
  define t where "t = s\<lparr>out_msg := \<lparr>header = decode_header (replicate HEADER_SIZE 0),
     buffer = replicate MAX_DATA_SIZE 0\<rparr>\<rparr>"
  define p where "p = packet_of (buffer m) (nb + 3)"
  note len = scan_length [OF assms(4)]
  have t: "asp.agree dev s0 (jtag_handler t) (jtag_dev t)" "length (buffer (out_msg t)) = 3000"
    "jtag_mode_cfg (jtag_cfg (asd_cfg t)) = JTAG_DRIVER_MODE_SOFTWARE"
    using assms(6-12) unfolding asp.agree_def by (simp_all add: t_def)
  have p: "packet_ok p" "used p = 0" "take (total p) (packet_bytes p) = tap_cmd (shift_state ty) # c # data @ [tap_cmd e]"
    using assms(16,18) len by (simp_all add: p_def packet_of_def packet_ok_def)
  obtain s' p' d1 d2 tms1 tms2 tms3 pre bs posts out where l:
    "jtag_loop env (t, p, 0) = Some (ST_OK, s', p', 1 + nb)"
    "length (buffer (out_msg s')) = 3000" "take (1 + nb) (buffer (out_msg s')) = c # out"
    and r: "length out = nb" "length bs = n" "\<forall>i < n. bbit out i = bs ! i"
    "tap_of s0 d1 = shift_state ty" "clocks d1 = clocks (jtag_dev t) @ moves tms1"
    "clocks d2 = clocks d1 @ shift_trace ty (jtag_handler t) True (bbit data) n @ moves tms2"
    "tdos d2 = tdos d1 @ pre @ bs @ posts" "length pre = pre_pad ty (jtag_handler t)"
    and a: "asp.agree dev s0 (jtag_handler s') (jtag_dev s')" "JTAG_get_tap_state (jtag_handler s') = e"
    "clocks (jtag_dev s') = clocks d2 @ moves tms3 @
      replicate (if e = JTAG_STATE_IDLE \<or> e = JTAG_STATE_PAUSEDR then 5 else 0) (False, False)"
    by (insert asp.scan_loop [OF assms(1-5) t assms(13,14) p], elim exE conjE) (rule that; assumption)
  have "moved (t, p, 0) (s', p', 1 + nb)"
    using jtag_loop_moves l(1) unfolding moves_on_def by blast
  then have cl: "client s' = client s" by (simp add: frame_def t_def)
  define packet where "packet = encode_header ((set_size (of_nat (1 + nb)) (header m))\<lparr>cmd_stat := ASD_SUCCESS\<rparr>) @ c # out"
  define u where "u = s'\<lparr>out_msg := (out_msg s')\<lparr>header := (set_size (of_nat (1 + nb)) (header m))\<lparr>cmd_stat := ASD_SUCCESS\<rparr>\<rparr>,
       client := (client s)\<lparr>sent := sent (client s) @ [packet]\<rparr>\<rparr>"
  have rc: "1 + nb \<le> 3000" using len by simp
  have "jtag_response env (header m) (1 + nb) s' = (send_function (client s) (sent (client s)) packet, u)"
    unfolding jtag_response_sends [OF assms(15) l(2) rc] cl l(3) packet_def u_def by simp
  then have f: "process_jtag_message env m s = Some (send_function (client s) (sent (client s)) packet, u)"
    using l(1) assms(17) by (simp add: process_jtag_message_def t_def p_def Let_def nat_add_distrib)
  have tt: "jtag_dev t = jtag_dev s" "jtag_handler t = jtag_handler s" by (simp_all add: t_def)
  have uu: "client u = (client s)\<lparr>sent := sent (client s) @ [packet]\<rparr>" "jtag_dev u = jtag_dev s'"
    "jtag_handler u = jtag_handler s'" by (simp_all add: u_def)
  have tap: "tap_of s0 (jtag_dev u) = e" using a(1,2) uu(2) unfolding asp.agree_def by simp
  show ?thesis
    unfolding Let_def
    by (rule exI [of _ u], rule exI [of _ d1], rule exI [of _ d2], rule exI [of _ tms1], rule exI [of _ tms2],
        rule exI [of _ tms3], rule exI [of _ pre], rule exI [of _ bs], rule exI [of _ posts], rule exI [of _ out])
      (intro conjI f [unfolded packet_def] uu(1) [unfolded packet_def] r [unfolded tt] tap a(2) [folded uu]
        a(3) [folded uu])
qed
lemma fresh_fields [simp]:
  "sw_mode fresh_handler" "JTAG_driver_handle fresh_handler = -1"
  "JTAG_get_tap_state fresh_handler = JTAG_STATE_TLRESET"
  by (simp_all add: fresh_handler_def JTAGHandler_def initialize_jtag_chains_def JTAG_get_tap_state_def
      active_def upt_conv_Cons)

lemma reset_software [simp]: "\<not> hw_mode reset_device"
  by (simp add: hw_mode_def)

text \<open>Twelve bits into the data register, from the reset state to Pause-DR.\<close>

lemma scan_packet_on_the_pins_witness:
  defines "m \<equiv> packet_with (tap_cmd JTAG_STATE_SHIFTDR # 0xCC # [0xA5, 0x0F] @ [tap_cmd JTAG_STATE_PAUSEDR])"
  shows "\<exists>s' d1 d2 tms1 tms2 tms3 pre bs posts out.
    (let packet = encode_header ((set_size (of_nat (1 + 2)) (header m))\<lparr>cmd_stat := ASD_SUCCESS\<rparr>) @ 0xCC # out
     in process_jtag_message demo_env m demo_state =
          Some (send_function (client demo_state) (sent (client demo_state)) packet, s') \<and>
        client s' = (client demo_state)\<lparr>sent := sent (client demo_state) @ [packet]\<rparr>) \<and>
    length out = 2 \<and> length bs = 12 \<and> (\<forall>i < 12. bbit out i = bs ! i) \<and>
    tap_of JTAG_STATE_TLRESET d1 = shift_state JTAG_SDR_XFER \<and>
    clocks d1 = clocks (jtag_dev demo_state) @ moves tms1 \<and>
    clocks d2 = clocks d1 @ shift_trace JTAG_SDR_XFER (jtag_handler demo_state) True (bbit [0xA5, 0x0F]) 12 @ moves tms2 \<and>
    tdos d2 = tdos d1 @ pre @ bs @ posts \<and> length pre = pre_pad JTAG_SDR_XFER (jtag_handler demo_state) \<and>
    clocks (jtag_dev s') = clocks d2 @ moves tms3 @
      replicate (if JTAG_STATE_PAUSEDR = JTAG_STATE_IDLE \<or> JTAG_STATE_PAUSEDR = JTAG_STATE_PAUSEDR then 5 else 0)
        (False, False) \<and>
    JTAG_get_tap_state (jtag_handler s') = JTAG_STATE_PAUSEDR \<and> tap_of JTAG_STATE_TLRESET (jtag_dev s') = JTAG_STATE_PAUSEDR"
proof (rule scan_packet_on_the_pins [where dev = "-1" and slack = "\<lambda>_. (1, 2, 3)"])
  have "length (tap_cmd JTAG_STATE_SHIFTDR # 0xCC # [0xA5, 0x0F] @ [tap_cmd JTAG_STATE_PAUSEDR]) \<le> 3000" by simp
  note pk = packet_with_simps [OF this]
  show "length (buffer m) = MAX_DATA_SIZE" "get_message_size m = int (2 + 3)"
    "take (2 + 3) (buffer m) = tap_cmd (shift_state JTAG_SDR_XFER) # 0xCC # [0xA5, 0x0F] @ [tap_cmd JTAG_STATE_PAUSEDR]"
    using pk by (simp_all add: m_def shift_state_def eval_nat_numeral)
qed (simp_all add: shift_state_def get_scan_length_def demo_env_def, simp add: demo_state_def demo_config_def)

end
