(* ===== verification/Bus_Handlers.thy ===== *)
theory Bus_Handlers
  imports Config
begin

text \<open>
  The I2C and I3C buses: the message builder \<^verbatim>\<open>i2c_msg_builder.c\<close> and the two handlers \<^verbatim>\<open>i2c_handler.c\<close>
  and \<^verbatim>\<open>i3c_handler.c\<close>, over a kernel that opens, locks and drives their devices. Both handlers hold
  a pointer to the same bus configuration, which is passed and returned. Allocation succeeds.
\<close>

section \<open>The message builder\<close>

record asd_i2c_msg =
  i2c_read :: bool
  i2c_force_stop :: bool
  i2c_address :: u8
  i2c_length :: u8
  i2c_buffer :: "u8 list"

text \<open>The message of the kernel; the flags are the read flag.\<close>

record i2c_msg =
  im_addr :: u16
  im_rd :: bool
  im_len :: u16
  im_buf :: "u8 list"

text \<open>The builder holds the messages of \<^verbatim>\<open>msg_set\<close>, a null pointer before it is initialized.\<close>

type_synonym I2C_Msg_Builder = "i2c_msg list option"

definition I2CMsgBuilder :: I2C_Msg_Builder where
  "I2CMsgBuilder = None"

definition i2c_msg_initialize :: "I2C_Msg_Builder \<Rightarrow> status \<times> I2C_Msg_Builder" where
  "i2c_msg_initialize b = (ST_OK, Some [])"

definition copy_asd_to_i2c :: "asd_i2c_msg \<Rightarrow> i2c_msg" where
  "copy_asd_to_i2c a = \<lparr>im_addr = ucast (i2c_address a), im_rd = i2c_read a, im_len = ucast (i2c_length a),
     im_buf = take (unat (i2c_length a)) (i2c_buffer a)\<rparr>"

definition copy_i2c_to_asd :: "asd_i2c_msg \<Rightarrow> i2c_msg \<Rightarrow> asd_i2c_msg" where
  "copy_i2c_to_asd a m = a\<lparr>i2c_read := im_rd m, i2c_address := ucast (im_addr m), i2c_length := ucast (im_len m),
     i2c_buffer := im_buf m @ drop (unat (im_len m)) (i2c_buffer a)\<rparr>"

definition i2c_msg_add :: "asd_i2c_msg \<Rightarrow> I2C_Msg_Builder \<Rightarrow> (status \<times> I2C_Msg_Builder) option" where
  "i2c_msg_add a b = (case b of
       None \<Rightarrow> None
     | Some ms \<Rightarrow> Some (ST_OK, Some (ms @ [copy_asd_to_i2c a])))"

definition i2c_msg_get_count :: "I2C_Msg_Builder \<Rightarrow> status \<times> nat" where
  "i2c_msg_get_count b = (case b of None \<Rightarrow> (ST_ERR, 0) | Some ms \<Rightarrow> (ST_OK, length ms))"

definition i2c_msg_get_asd_i2c_msg :: "I2C_Msg_Builder \<Rightarrow> nat \<Rightarrow> asd_i2c_msg \<Rightarrow> status \<times> asd_i2c_msg" where
  "i2c_msg_get_asd_i2c_msg b index a = (case b of
       None \<Rightarrow> (ST_ERR, a)
     | Some ms \<Rightarrow> if length ms > index then (ST_OK, copy_i2c_to_asd a (ms ! index)) else (ST_ERR, a))"

definition i2c_msg_reset :: "I2C_Msg_Builder \<Rightarrow> (status \<times> I2C_Msg_Builder) option" where
  "i2c_msg_reset b = (case b of None \<Rightarrow> None | Some ms \<Rightarrow> Some (ST_OK, Some []))"

definition i2c_msg_deinitialize :: "I2C_Msg_Builder \<Rightarrow> status \<times> I2C_Msg_Builder" where
  "i2c_msg_deinitialize b = (ST_OK, None)"

section \<open>The kernel\<close>

datatype lock_op = LOCK_EX | LOCK_UN

text \<open>
  What the handlers call: the devices are opened by their numbers, -1 is a failure, and a transfer
  returns a number and what each byte of each message holds afterwards (the kernel cannot change
  the size of a buffer of the caller).
\<close>

record 'o bus_os =
  os_open_i2c :: "u8 \<Rightarrow> 'o \<Rightarrow> int \<times> 'o"
  os_open_i3c_master :: "u8 \<Rightarrow> nat \<Rightarrow> 'o \<Rightarrow> int \<times> 'o"
  os_open_i3c :: "nat \<Rightarrow> nat \<Rightarrow> 'o \<Rightarrow> int \<times> 'o"
  os_close :: "int \<Rightarrow> 'o \<Rightarrow> 'o"
  os_flock :: "int \<Rightarrow> lock_op \<Rightarrow> 'o \<Rightarrow> bool \<times> 'o"
  os_i2c_rdwr :: "int \<Rightarrow> i2c_msg list \<Rightarrow> 'o \<Rightarrow> int \<times> (nat \<Rightarrow> nat \<Rightarrow> u8) \<times> 'o"
  os_i3c_xfer :: "int \<Rightarrow> (u16 \<times> u8 list \<times> bool) list \<Rightarrow> 'o \<Rightarrow> int \<times> (nat \<Rightarrow> nat \<Rightarrow> u8) \<times> 'o"

text \<open>The buffers after a transfer: only those that are read into have changed.\<close>

definition fill_bufs :: "(nat \<Rightarrow> nat \<Rightarrow> u8) \<Rightarrow> i2c_msg list \<Rightarrow> i2c_msg list" where
  "fill_bufs f ms = map (\<lambda>i. let m = ms ! i in
     if im_rd m then m\<lparr>im_buf := map (f i) [0 ..< length (im_buf m)]\<rparr> else m) [0 ..< length ms]"

section \<open>The I2C handler\<close>

abbreviation (input) "NO_HANDLE \<equiv> -1 :: int"

record I2C_Handler =
  i2c_bus :: u8
  i2c_driver_handle :: int

type_synonym 'o i2c_state = "I2C_Handler \<times> bus_config \<times> 'o"

text \<open>\<open>garbage\<close> is what the allocation left in \<^verbatim>\<open>i2c_bus\<close>, which is not set.\<close>

definition I2CHandler :: "u8 \<Rightarrow> I2C_Handler" where
  "I2CHandler garbage = \<lparr>i2c_bus = garbage, i2c_driver_handle = NO_HANDLE\<rparr>"

definition i2c_enabled :: "bus_config \<Rightarrow> bool" where
  "i2c_enabled cfg = enable_i2c cfg"

definition i2c_bus_allowed :: "bus_config \<Rightarrow> u8 \<Rightarrow> bool" where
  "i2c_bus_allowed cfg bus =
     list_ex (\<lambda>i. bus_config_map cfg ! i = bus \<and> bus_config_types cfg ! i = BUS_CONFIG_I2C) [0 ..< MAX_IxC_BUSES]"

definition i2c_close_driver :: "'o bus_os \<Rightarrow> 'o i2c_state \<Rightarrow> 'o i2c_state" where
  "i2c_close_driver os = (\<lambda>(h, cfg, w).
     if i2c_driver_handle h \<noteq> NO_HANDLE
     then (h\<lparr>i2c_driver_handle := NO_HANDLE\<rparr>, cfg, os_close os (i2c_driver_handle h) w)
     else (h, cfg, w))"

definition i2c_open_driver :: "'o bus_os \<Rightarrow> u8 \<Rightarrow> 'o i2c_state \<Rightarrow> status \<times> 'o i2c_state" where
  "i2c_open_driver os bus = (\<lambda>(h, cfg, w).
     let (fd, w) = os_open_i2c os bus w; h = h\<lparr>i2c_driver_handle := fd\<rparr>
     in if fd = NO_HANDLE then (ST_ERR, h, cfg, w)
        else (ST_OK, h\<lparr>i2c_bus := bus\<rparr>, cfg\<lparr>default_bus := bus\<rparr>, w))"

definition i2c_bus_select :: "'o bus_os \<Rightarrow> u8 \<Rightarrow> 'o i2c_state \<Rightarrow> status \<times> 'o i2c_state" where
  "i2c_bus_select os bus = (\<lambda>(h, cfg, w).
     if \<not> i2c_enabled cfg then (ST_ERR, h, cfg, w)
     else if bus = i2c_bus h then (ST_OK, h, cfg, w)
     else if i2c_bus_allowed cfg bus then i2c_open_driver os bus (i2c_close_driver os (h, cfg, w))
     else (ST_ERR, h, cfg, w))"

definition i2c_initialize :: "'o bus_os \<Rightarrow> 'o i2c_state \<Rightarrow> status \<times> 'o i2c_state" where
  "i2c_initialize os = (\<lambda>(h, cfg, w).
     if i2c_enabled cfg then i2c_bus_select os (default_bus cfg) (h, cfg, w) else (ST_ERR, h, cfg, w))"

definition i2c_deinitialize :: "'o bus_os \<Rightarrow> 'o i2c_state \<Rightarrow> status \<times> 'o i2c_state" where
  "i2c_deinitialize os x = (ST_OK, i2c_close_driver os x)"

text \<open>The bus is only logged.\<close>

definition i2c_bus_flock :: "'o bus_os \<Rightarrow> u8 \<Rightarrow> lock_op \<Rightarrow> 'o i2c_state \<Rightarrow> status \<times> 'o i2c_state" where
  "i2c_bus_flock os bus lop = (\<lambda>(h, cfg, w).
     let (ok, w) = os_flock os (i2c_driver_handle h) lop w in (if ok then ST_OK else ST_ERR, h, cfg, w))"

definition i2c_set_sclk :: "bus_config \<Rightarrow> u16 \<Rightarrow> status" where
  "i2c_set_sclk cfg sclk = (if i2c_enabled cfg then ST_OK else ST_ERR)"

definition i2c_read_write :: "'o bus_os \<Rightarrow> i2c_msg list \<Rightarrow> 'o i2c_state \<Rightarrow> status \<times> i2c_msg list \<times> 'o i2c_state" where
  "i2c_read_write os ms = (\<lambda>(h, cfg, w).
     if \<not> i2c_enabled cfg then (ST_ERR, ms, h, cfg, w)
     else let (ret, f, w) = os_i2c_rdwr os (i2c_driver_handle h) ms w
          in (if ret \<noteq> int (length ms) then ST_ERR else ST_OK, fill_bufs f ms, h, cfg, w))"

section \<open>The I3C handler\<close>

abbreviation (input) "I3C_BUS_ADDRESS_RESERVED \<equiv> 127 :: u8"
abbreviation (input) "AST2600_I3C_BUSES \<equiv> 4 :: nat"
abbreviation (input) "i3C_MAX_DEV_HANDLERS \<equiv> 8 :: nat"

record I3C_Handler =
  i3c_bus :: u8
  i3c_driver_handlers :: "int list"

type_synonym 'o i3c_state = "I3C_Handler \<times> bus_config \<times> 'o"

definition I3CHandler :: "u8 \<Rightarrow> I3C_Handler" where
  "I3CHandler garbage = \<lparr>i3c_bus = garbage, i3c_driver_handlers = replicate i3C_MAX_DEV_HANDLERS NO_HANDLE\<rparr>"

definition i3c_enabled :: "bus_config \<Rightarrow> bool" where
  "i3c_enabled cfg = enable_i3c cfg"

definition i3c_initialize :: "'o i3c_state \<Rightarrow> status \<times> 'o i3c_state" where
  "i3c_initialize = (\<lambda>(h, cfg, w).
     if i3c_enabled cfg then (ST_OK, h\<lparr>i3c_bus := I3C_BUS_ADDRESS_RESERVED\<rparr>, cfg, w) else (ST_ERR, h, cfg, w))"

definition i3c_bus_allowed :: "bus_config \<Rightarrow> u8 \<Rightarrow> bool" where
  "i3c_bus_allowed cfg bus =
     list_ex (\<lambda>i. bus_config_map cfg ! i = bus \<and> bus_config_types cfg ! i = BUS_CONFIG_I3C) [0 ..< MAX_IxC_BUSES]"

fun i3c_close_loop :: "'o bus_os \<Rightarrow> int list \<Rightarrow> 'o \<Rightarrow> 'o" where
  "i3c_close_loop os [] w = w"
| "i3c_close_loop os (fd # fds) w = i3c_close_loop os fds (if fd \<noteq> NO_HANDLE then os_close os fd w else w)"

definition i3c_close_device_drivers :: "'o bus_os \<Rightarrow> 'o i3c_state \<Rightarrow> 'o i3c_state" where
  "i3c_close_device_drivers os = (\<lambda>(h, cfg, w).
     (h\<lparr>i3c_driver_handlers := map (\<lambda>_. NO_HANDLE) (i3c_driver_handlers h)\<rparr>, cfg,
      i3c_close_loop os (i3c_driver_handlers h) w))"

definition i3c_deinitialize :: "'o bus_os \<Rightarrow> 'o i3c_state \<Rightarrow> status \<times> 'o i3c_state" where
  "i3c_deinitialize os x = (ST_OK, i3c_close_device_drivers os x)"

text \<open>The name of a bus is the number of the first master device that can be opened.\<close>

fun i3c_find_dev :: "'o bus_os \<Rightarrow> u8 \<Rightarrow> nat list \<Rightarrow> 'o \<Rightarrow> nat option \<times> 'o" where
  "i3c_find_dev os bus [] w = (None, w)"
| "i3c_find_dev os bus (i # is) w =
     (let (fd, w) = os_open_i3c_master os bus i w
      in if fd = NO_HANDLE then i3c_find_dev os bus is w else (Some i, os_close os fd w))"

definition i3c_get_dev_name :: "'o bus_os \<Rightarrow> u8 \<Rightarrow> 'o \<Rightarrow> nat option \<times> 'o" where
  "i3c_get_dev_name os bus w =
     (if unat bus \<ge> AST2600_I3C_BUSES then (None, w) else i3c_find_dev os bus [0 ..< AST2600_I3C_BUSES] w)"

fun i3c_open_loop :: "'o bus_os \<Rightarrow> u8 \<Rightarrow> nat \<Rightarrow> nat list \<Rightarrow> 'o i3c_state \<Rightarrow> status \<times> 'o i3c_state" where
  "i3c_open_loop os bus k [] x = (ST_OK, x)"
| "i3c_open_loop os bus k (i # is) (h, cfg, w) =
     (let (fd, w) = os_open_i3c os k i w;
          h = h\<lparr>i3c_driver_handlers := (i3c_driver_handlers h)[i := fd]\<rparr>
      in if fd = NO_HANDLE then (ST_ERR, i3c_close_device_drivers os (h, cfg, w))
         else i3c_open_loop os bus k is (h\<lparr>i3c_bus := bus\<rparr>, cfg\<lparr>default_bus := bus\<rparr>, w))"

definition i3c_open_device_drivers :: "'o bus_os \<Rightarrow> u8 \<Rightarrow> 'o i3c_state \<Rightarrow> status \<times> 'o i3c_state" where
  "i3c_open_device_drivers os bus = (\<lambda>(h, cfg, w).
     case i3c_get_dev_name os bus w of
       (None, w) \<Rightarrow> (ST_ERR, h, cfg, w)
     | (Some k, w) \<Rightarrow> i3c_open_loop os bus k [0 ..< i3C_MAX_DEV_HANDLERS] (h, cfg, w))"

definition i3c_bus_select :: "'o bus_os \<Rightarrow> u8 \<Rightarrow> 'o i3c_state \<Rightarrow> status \<times> 'o i3c_state" where
  "i3c_bus_select os bus = (\<lambda>(h, cfg, w).
     if \<not> i3c_enabled cfg then (ST_ERR, h, cfg, w)
     else if bus = i3c_bus h then (ST_OK, h, cfg, w)
     else if i3c_bus_allowed cfg bus
       then i3c_open_device_drivers os bus (i3c_close_device_drivers os (h, cfg, w))
     else (ST_ERR, h, cfg, w))"

fun i3c_flock_loop :: "'o bus_os \<Rightarrow> lock_op \<Rightarrow> int list \<Rightarrow> 'o \<Rightarrow> status \<times> 'o" where
  "i3c_flock_loop os lop [] w = (ST_OK, w)"
| "i3c_flock_loop os lop (fd # fds) w =
     (let (ok, w) = os_flock os fd lop w in if ok then i3c_flock_loop os lop fds w else (ST_ERR, w))"

definition i3c_bus_flock :: "'o bus_os \<Rightarrow> u8 \<Rightarrow> lock_op \<Rightarrow> 'o i3c_state \<Rightarrow> status \<times> 'o i3c_state" where
  "i3c_bus_flock os bus lop = (\<lambda>(h, cfg, w).
     let (st, h, cfg, w) = (if i3c_bus h = I3C_BUS_ADDRESS_RESERVED then i3c_bus_select os bus (h, cfg, w)
                            else (ST_OK, h, cfg, w))
     in if st = ST_OK
        then let (st, w) = i3c_flock_loop os lop (i3c_driver_handlers h) w in (st, h, cfg, w)
        else (st, h, cfg, w))"

definition i3c_set_sclk :: "bus_config \<Rightarrow> u16 \<Rightarrow> status" where
  "i3c_set_sclk cfg sclk = (if i3c_enabled cfg then ST_OK else ST_ERR)"

definition i3c_read_write :: "'o bus_os \<Rightarrow> i2c_msg list \<Rightarrow> 'o i3c_state \<Rightarrow> status \<times> i2c_msg list \<times> 'o i3c_state" where
  "i3c_read_write os ms = (\<lambda>(h, cfg, w).
     if \<not> i3c_enabled cfg then (ST_ERR, ms, h, cfg, w)
     else let (ret, f, w) = os_i3c_xfer os (i3c_driver_handlers h ! 0) (map (\<lambda>m. (im_len m, im_buf m, im_rd m)) ms) w
          in (if ret < 0 then ST_ERR else ST_OK, fill_bufs f ms, h, cfg, w))"

section \<open>The contract of a bus handler\<close>

text \<open>
  Both handlers are selected in the same way: the bus in use is kept, another one is opened when it is
  allowed, and a disabled handler refuses. The client of the contract selects buses one after the other.
\<close>

locale bus_handler =
  fixes select :: "u8 \<Rightarrow> 'h \<times> bus_config \<times> 'o \<Rightarrow> status \<times> 'h \<times> bus_config \<times> 'o"
    and enabled :: "bus_config \<Rightarrow> bool" and allowed :: "bus_config \<Rightarrow> u8 \<Rightarrow> bool" and current :: "'h \<Rightarrow> u8"
  assumes select_disabled: "\<not> enabled cfg \<Longrightarrow> select bus (h, cfg, w) = (ST_ERR, h, cfg, w)"
    and select_current: "enabled cfg \<Longrightarrow> select (current h) (h, cfg, w) = (ST_OK, h, cfg, w)"
    and select_refused: "\<not> allowed cfg bus \<Longrightarrow> bus \<noteq> current h \<Longrightarrow> select bus (h, cfg, w) = (ST_ERR, h, cfg, w)"
    and select_ok: "select bus (h, cfg, w) = (ST_OK, h', cfg', w') \<Longrightarrow> current h' = bus"
    and select_config: "select bus (h, cfg, w) = (st, h', cfg', w') \<Longrightarrow>
      cfg' = cfg \<or> allowed cfg bus \<and> cfg' = cfg\<lparr>default_bus := bus\<rparr>"
    and enabled_default: "enabled (cfg\<lparr>default_bus := bus\<rparr>) = enabled cfg"
    and allowed_default: "allowed (cfg\<lparr>default_bus := bus\<rparr>) = allowed cfg"
begin

lemma config_kept:
  assumes "select bus (h, cfg, w) = (st, h', cfg', w')"
  shows "enabled cfg' = enabled cfg" "allowed cfg' = allowed cfg"
  using select_config [OF assms] enabled_default allowed_default by auto

lemma select_again:
  assumes "select bus (h, cfg, w) = (ST_OK, h', cfg', w')"
  shows "select bus (h', cfg', w') = (ST_OK, h', cfg', w')"
proof -
  have "enabled cfg" using assms select_disabled by (metis Pair_inject status.distinct(1))
  then show ?thesis
    using select_current [of cfg' h' w'] select_ok [OF assms] config_kept [OF assms] by simp
qed

lemma only_allowed:
  assumes "select bus (h, cfg, w) = (st, h', cfg', w')" "\<not> allowed cfg bus"
  shows "h' = h \<and> cfg' = cfg \<and> w' = w \<and> (st = ST_OK \<longrightarrow> bus = current h)"
proof (cases "enabled cfg \<and> bus = current h")
  case True
  then show ?thesis using assms(1) select_current [of cfg h w] by auto
next
  case False
  then show ?thesis using assms select_disabled [of cfg bus h w] select_refused [of cfg bus h w] by auto
qed

end

text \<open>Closing and opening change neither tables nor switches.\<close>

lemma i3c_open_loop_bus:
  assumes "i3c_open_loop os bus k is (h, cfg, w) = (st, h', cfg', w')"
  shows "st = ST_OK \<and> is \<noteq> [] \<Longrightarrow> i3c_bus h' = bus \<and> cfg' = cfg\<lparr>default_bus := bus\<rparr>"
    and "cfg' = cfg \<or> cfg' = cfg\<lparr>default_bus := bus\<rparr>"
proof -
  have "(st = ST_OK \<and> is \<noteq> [] \<longrightarrow> i3c_bus h' = bus \<and> cfg' = cfg\<lparr>default_bus := bus\<rparr>) \<and>
      (st = ST_OK \<and> is = [] \<longrightarrow> h' = h \<and> cfg' = cfg) \<and> (cfg' = cfg \<or> cfg' = cfg\<lparr>default_bus := bus\<rparr>)"
    using assms
  proof (induction "is" arbitrary: h cfg w)
    case (Cons i "is")
    then show ?case
      by (cases "is = []") (fastforce simp: Let_def i3c_close_device_drivers_def split: prod.splits if_splits)+
  qed simp
  then show "st = ST_OK \<and> is \<noteq> [] \<Longrightarrow> i3c_bus h' = bus \<and> cfg' = cfg\<lparr>default_bus := bus\<rparr>"
    and "cfg' = cfg \<or> cfg' = cfg\<lparr>default_bus := bus\<rparr>" by blast+
qed

interpretation i2c: bus_handler "i2c_bus_select os" i2c_enabled i2c_bus_allowed i2c_bus
  by unfold_locales
    (auto simp: i2c_bus_select_def i2c_open_driver_def i2c_close_driver_def i2c_enabled_def i2c_bus_allowed_def
      Let_def split: prod.splits if_splits)

lemma i3c_open_bus:
  assumes "i3c_open_device_drivers os bus (h, cfg, w) = (st, h', cfg', w')"
  shows "st = ST_OK \<Longrightarrow> i3c_bus h' = bus" "cfg' = cfg \<or> cfg' = cfg\<lparr>default_bus := bus\<rparr>"
  using assms i3c_open_loop_bus
  by (fastforce simp: i3c_open_device_drivers_def split: prod.splits option.splits)+

lemma i3c_open_loop_failed:
  assumes "i3c_open_loop os bus k is (h, cfg, w) = (ST_ERR, h', cfg', w')"
  shows "(i3c_bus h' = bus \<or> i3c_bus h' = i3c_bus h) \<and> list_all (\<lambda>fd. fd = NO_HANDLE) (i3c_driver_handlers h')"
  using assms
proof (induction "is" arbitrary: h cfg w)
  case (Cons i "is")
  obtain fd w1 where "os_open_i3c os k i w = (fd, w1)" by fastforce
  then show ?case
    using Cons.prems Cons.IH [of "h\<lparr>i3c_driver_handlers := (i3c_driver_handlers h)[i := fd], i3c_bus := bus\<rparr>"
        "cfg\<lparr>default_bus := bus\<rparr>" w1]
    by (auto simp: i3c_close_device_drivers_def Let_def list_all_iff split: if_splits)
qed simp

interpretation i3c: bus_handler "i3c_bus_select os" i3c_enabled i3c_bus_allowed i3c_bus
  by unfold_locales
    (auto simp: i3c_bus_select_def i3c_close_device_drivers_def i3c_enabled_def i3c_bus_allowed_def
      split: if_splits dest: i3c_open_bus)

section \<open>Descriptors\<close>

text \<open>The laws of such a kernel for the calls of the two handlers.\<close>

definition keeps_files :: "('o \<Rightarrow> int set) \<Rightarrow> 'o bus_os \<Rightarrow> bool" where
  "keeps_files opened os \<longleftrightarrow>
     (\<forall>bus w. opens opened (os_open_i2c os bus w) w) \<and>
     (\<forall>bus k w. opens opened (os_open_i3c_master os bus k w) w) \<and>
     (\<forall>k i w. opens opened (os_open_i3c os k i w) w) \<and>
     (\<forall>fd w. opened (os_close os fd w) = opened w - {fd}) \<and>
     (\<forall>fd lop w. opened (snd (os_flock os fd lop w)) = opened w) \<and>
     (\<forall>fd ms w. opened (snd (snd (os_i2c_rdwr os fd ms w))) = opened w) \<and>
     (\<forall>fd ms w. opened (snd (snd (os_i3c_xfer os fd ms w))) = opened w)"

lemma keeps_filesD:
  assumes "keeps_files opened os"
  shows "os_open_i2c os bus w = (fd, w') \<Longrightarrow> opens opened (fd, w') w"
    and "os_open_i3c_master os bus k w = (fd, w') \<Longrightarrow> opens opened (fd, w') w"
    and "os_open_i3c os k i w = (fd, w') \<Longrightarrow> opens opened (fd, w') w"
    and "opened (os_close os fd w) = opened w - {fd}"
    and "os_flock os fd lop w = (ok, w') \<Longrightarrow> opened w' = opened w"
    and "os_i2c_rdwr os fd ms w = (n, f, w') \<Longrightarrow> opened w' = opened w"
    and "os_i3c_xfer os fd xs w = (n, f, w') \<Longrightarrow> opened w' = opened w"
  using assms unfolding keeps_files_def by (metis, metis, metis, metis, metis snd_conv, metis snd_conv, metis snd_conv)

text \<open>What the two handlers own.\<close>

definition i2c_owned :: "I2C_Handler \<Rightarrow> int set" where
  "i2c_owned h = {i2c_driver_handle h} - {NO_HANDLE}"

definition i3c_owned :: "I3C_Handler \<Rightarrow> int set" where
  "i3c_owned h = set (i3c_driver_handlers h) - {NO_HANDLE}"

lemma owns_i2c_close:
  assumes "keeps_files opened os" "owns opened B (i2c_owned h) w"
    and "i2c_close_driver os (h, cfg, w) = (h', cfg', w')"
  shows "owns opened B {} w' \<and> i2c_owned h' = {} \<and> i2c_driver_handle h' = NO_HANDLE \<and> i2c_bus h' = i2c_bus h \<and> cfg' = cfg"
  using assms keeps_filesD(4) [OF assms(1)]
  by (auto simp: owns_def i2c_owned_def i2c_close_driver_def split: if_splits)

lemma owns_i2c_open:
  assumes "keeps_files opened os" "owns opened B {} w" "i2c_open_driver os bus (h, cfg, w) = (st, h', cfg', w')"
  shows "owns opened B (i2c_owned h') w'"
proof -
  obtain fd w1 where o: "os_open_i2c os bus w = (fd, w1)" by fastforce
  have w: "w' = w1" "i2c_driver_handle h' = fd"
    using assms(3) o by (auto simp: i2c_open_driver_def Let_def split: if_splits)
  have "owns opened B ({fd} - {NO_HANDLE}) w1"
    using assms(2) keeps_filesD(1) [OF assms(1) o] by (cases "fd = NO_HANDLE") (simp_all add: owns_def opens_def)
  then show ?thesis by (simp add: i2c_owned_def w)
qed

lemma owns_i2c_select:
  assumes "keeps_files opened os" "owns opened B (i2c_owned h) w" "i2c_bus_select os bus (h, cfg, w) = (st, h', cfg', w')"
  shows "owns opened B (i2c_owned h') w'"
proof -
  obtain h1 cfg1 w1 where c: "i2c_close_driver os (h, cfg, w) = (h1, cfg1, w1)" by (cases "i2c_close_driver os (h, cfg, w)")
  have "owns opened B {} w1" using owns_i2c_close [OF assms(1,2) c] by simp
  then show ?thesis
    using assms(2,3) c owns_i2c_open [OF assms(1), of B w1 bus h1 cfg1 st h' cfg' w']
    by (auto simp: i2c_bus_select_def split: if_splits)
qed

text \<open>The I3C handler holds up to eight.\<close>

lemma i3c_close_loop_opened:
  assumes "keeps_files opened os"
  shows "opened (i3c_close_loop os fds w) = opened w - (set fds - {NO_HANDLE})"
  by (induction fds arbitrary: w) (use keeps_filesD(4) [OF assms] in auto)

lemma owns_i3c_close:
  assumes "keeps_files opened os" "owns opened B (i3c_owned h) w"
    and "i3c_close_device_drivers os (h, cfg, w) = (h', cfg', w')"
  shows "owns opened B {} w' \<and> i3c_owned h' = {} \<and>
    i3c_driver_handlers h' = replicate (length (i3c_driver_handlers h)) NO_HANDLE"
  using assms i3c_close_loop_opened [OF assms(1), of "i3c_driver_handlers h" w]
  by (auto simp: owns_def i3c_owned_def i3c_close_device_drivers_def map_replicate_const)

lemma set_update_absent:
  assumes "i < length xs" "xs ! i = y"
  shows "set (xs[i := x]) - {y} = (set xs - {y}) \<union> ({x} - {y})"
proof -
  have "xs = take i xs @ y # drop (Suc i) xs" using id_take_nth_drop [OF assms(1)] assms(2) by simp
  moreover have "xs[i := x] = take i xs @ x # drop (Suc i) xs" using assms(1) by (simp add: upd_conv_take_nth_drop)
  ultimately have "set xs = insert y (set (take i xs) \<union> set (drop (Suc i) xs))"
    "set (xs[i := x]) = insert x (set (take i xs) \<union> set (drop (Suc i) xs))"
    by (metis list.simps(15) set_append Un_insert_right)+
  then show ?thesis by blast
qed

lemma owns_i3c_open_loop:
  assumes "keeps_files opened os" "i3c_open_loop os bus k is (h, cfg, w) = (st, h', cfg', w')"
    and "owns opened B (i3c_owned h) w" "distinct is" "\<forall>i \<in> set is. i < length (i3c_driver_handlers h) \<and> i3c_driver_handlers h ! i = NO_HANDLE"
  shows "owns opened B (i3c_owned h') w'"
  using assms(2-5)
proof (induction "is" arbitrary: h cfg w)
  case (Cons i "is")
  obtain fd w1 where o: "os_open_i3c os k i w = (fd, w1)" by fastforce
  let ?h = "h\<lparr>i3c_driver_handlers := (i3c_driver_handlers h)[i := fd]\<rparr>"
  have upd: "i3c_owned ?h = i3c_owned h \<union> ({fd} - {NO_HANDLE})"
    using Cons.prems(4) set_update_absent [of i "i3c_driver_handlers h" NO_HANDLE fd] by (auto simp: i3c_owned_def)
  have own: "owns opened B (i3c_owned ?h) w1"
    using Cons.prems(2) keeps_filesD(3) [OF assms(1) o] unfolding upd
    by (auto simp: owns_def opens_def split: if_splits)
  show ?case
  proof (cases "fd = NO_HANDLE")
    case True
    then have "i3c_close_device_drivers os (?h, cfg, w1) = (h', cfg', w')"
      using Cons.prems(1) o by simp
    from owns_i3c_close [OF assms(1) own this] show ?thesis by simp
  next
    case False
    let ?h2 = "?h\<lparr>i3c_bus := bus\<rparr>"
    have "i3c_open_loop os bus k is (?h2, cfg\<lparr>default_bus := bus\<rparr>, w1) = (st, h', cfg', w')"
      using Cons.prems(1) o False by simp
    moreover have "owns opened B (i3c_owned ?h2) w1" using own by (simp add: i3c_owned_def)
    ultimately show ?thesis
      using Cons.prems(3,4) by (intro Cons.IH) (auto simp: nth_list_update)
  qed
qed simp

lemma i3c_find_dev_opened:
  assumes "keeps_files opened os" "i3c_find_dev os bus is w = (r, w')"
  shows "opened w' = opened w"
  using assms(2)
proof (induction "is" arbitrary: w)
  case (Cons i "is")
  then show ?case
    using keeps_filesD(2) [OF assms(1), of bus i w] keeps_filesD(4) [OF assms(1)]
    by (auto simp: opens_def split: prod.splits if_splits)
qed simp

section \<open>Properties\<close>

text \<open>The calls a handler receives, one after the other.\<close>

datatype bus_call = Initialize | Select u8 | Lock u8 lock_op | Transfer "i2c_msg list" | Deinitialize

definition i2c_call :: "'o bus_os \<Rightarrow> bus_call \<Rightarrow> 'o i2c_state \<Rightarrow> 'o i2c_state" where
  "i2c_call os c x = (case c of
       Initialize \<Rightarrow> snd (i2c_initialize os x)
     | Select bus \<Rightarrow> snd (i2c_bus_select os bus x)
     | Lock bus lop \<Rightarrow> snd (i2c_bus_flock os bus lop x)
     | Transfer ms \<Rightarrow> snd (snd (i2c_read_write os ms x))
     | Deinitialize \<Rightarrow> snd (i2c_deinitialize os x))"

definition i3c_call :: "'o bus_os \<Rightarrow> bus_call \<Rightarrow> 'o i3c_state \<Rightarrow> 'o i3c_state" where
  "i3c_call os c x = (case c of
       Initialize \<Rightarrow> snd (i3c_initialize x)
     | Select bus \<Rightarrow> snd (i3c_bus_select os bus x)
     | Lock bus lop \<Rightarrow> snd (i3c_bus_flock os bus lop x)
     | Transfer ms \<Rightarrow> snd (snd (i3c_read_write os ms x))
     | Deinitialize \<Rightarrow> snd (i3c_deinitialize os x))"

lemma owns_i2c_call:
  assumes "keeps_files opened os" "owns opened B (i2c_owned h) w" "i2c_call os c (h, cfg, w) = (h', cfg', w')"
  shows "owns opened B (i2c_owned h') w'"
proof (cases c)
  case Initialize
  then show ?thesis
    using assms(2,3) owns_i2c_select [OF assms(1,2), of "default_bus cfg" cfg _ h' cfg' w']
    by (cases "i2c_bus_select os (default_bus cfg) (h, cfg, w)")
      (auto simp: i2c_call_def i2c_initialize_def split: if_splits)
next
  case (Select bus)
  then show ?thesis
    using assms(3) owns_i2c_select [OF assms(1,2), of bus cfg _ h' cfg' w']
    by (cases "i2c_bus_select os bus (h, cfg, w)") (auto simp: i2c_call_def)
next
  case (Lock bus lop)
  then show ?thesis
    using assms(2,3) keeps_filesD(5) [OF assms(1)]
    by (auto simp: i2c_call_def i2c_bus_flock_def owns_def split: prod.splits)
next
  case (Transfer ms)
  then show ?thesis
    using assms(2,3) keeps_filesD(6) [OF assms(1)]
    by (auto simp: i2c_call_def i2c_read_write_def owns_def split: prod.splits if_splits)
next
  case Deinitialize
  then show ?thesis
    using assms(3) owns_i2c_close [OF assms(1,2), of cfg h' cfg' w'] by (auto simp: i2c_call_def i2c_deinitialize_def)
qed

definition i3c_wf :: "('o \<Rightarrow> int set) \<Rightarrow> int set \<Rightarrow> 'o i3c_state \<Rightarrow> bool" where
  "i3c_wf opened B x \<longleftrightarrow> (case x of (h, cfg, w) \<Rightarrow>
     owns opened B (i3c_owned h) w \<and> length (i3c_driver_handlers h) = i3C_MAX_DEV_HANDLERS)"

lemma i3c_open_loop_length:
  assumes "i3c_open_loop os bus k is (h, cfg, w) = (st, h', cfg', w')"
  shows "length (i3c_driver_handlers h') = length (i3c_driver_handlers h)"
  using assms
proof (induction "is" arbitrary: h cfg w)
  case (Cons i "is")
  obtain fd w1 where "os_open_i3c os k i w = (fd, w1)" by fastforce
  then show ?case
    using Cons.prems Cons.IH [of "h\<lparr>i3c_driver_handlers := (i3c_driver_handlers h)[i := fd], i3c_bus := bus\<rparr>"
        "cfg\<lparr>default_bus := bus\<rparr>" w1]
    by (auto simp: i3c_close_device_drivers_def Let_def split: if_splits)
qed simp

lemma wf_i3c_open:
  assumes "keeps_files opened os" "owns opened B {} w" "i3c_driver_handlers h = replicate i3C_MAX_DEV_HANDLERS NO_HANDLE"
    and "i3c_open_device_drivers os bus (h, cfg, w) = (st, x)"
  shows "i3c_wf opened B x"
proof -
  obtain h' cfg' w' where x: "x = (h', cfg', w')" by (cases x)
  obtain n w1 where n: "i3c_get_dev_name os bus w = (n, w1)" by fastforce
  have w1: "owns opened B (i3c_owned h) w1"
    using assms(2,3) n i3c_find_dev_opened [OF assms(1), of bus "[0 ..< 4]" w n w1]
    by (auto simp: i3c_get_dev_name_def owns_def i3c_owned_def split: if_splits)
  show ?thesis
  proof (cases n)
    case None
    then show ?thesis using assms(3,4) n w1 by (auto simp: i3c_open_device_drivers_def i3c_wf_def)
  next
    case (Some k)
    then have l: "i3c_open_loop os bus k [0 ..< i3C_MAX_DEV_HANDLERS] (h, cfg, w1) = (st, h', cfg', w')"
      using assms(4) n x by (simp add: i3c_open_device_drivers_def)
    have "owns opened B (i3c_owned h') w'"
      by (rule owns_i3c_open_loop [OF assms(1) l w1]) (simp_all add: assms(3))
    then show ?thesis using i3c_open_loop_length [OF l] assms(3) by (simp add: i3c_wf_def x)
  qed
qed

lemma wf_i3c_close:
  assumes "keeps_files opened os" "i3c_wf opened B x"
  shows "i3c_wf opened B (i3c_close_device_drivers os x)"
    and "i3c_owned (fst (i3c_close_device_drivers os x)) = {}"
    and "owns opened B {} (snd (snd (i3c_close_device_drivers os x)))"
    and "i3c_driver_handlers (fst (i3c_close_device_drivers os x)) = replicate i3C_MAX_DEV_HANDLERS NO_HANDLE"
proof -
  obtain h cfg w where x: "x = (h, cfg, w)" by (cases x)
  obtain h' cfg' w' where c: "i3c_close_device_drivers os (h, cfg, w) = (h', cfg', w')"
    by (cases "i3c_close_device_drivers os (h, cfg, w)")
  have "owns opened B {} w' \<and> i3c_owned h' = {} \<and> i3c_driver_handlers h' = replicate 8 (-1)"
    using owns_i3c_close [OF assms(1) _ c, of B] assms(2) by (simp add: x i3c_wf_def)
  then show "i3c_wf opened B (i3c_close_device_drivers os x)"
    "i3c_owned (fst (i3c_close_device_drivers os x)) = {}"
    "owns opened B {} (snd (snd (i3c_close_device_drivers os x)))"
    "i3c_driver_handlers (fst (i3c_close_device_drivers os x)) = replicate 8 (-1)"
    by (simp_all add: x c i3c_wf_def)
qed

lemma wf_i3c_select:
  assumes "keeps_files opened os" "i3c_wf opened B x" "i3c_bus_select os bus x = (st, x')"
  shows "i3c_wf opened B x'"
proof -
  obtain h cfg w where x: "x = (h, cfg, w)" by (cases x)
  obtain h1 cfg1 w1 where c: "i3c_close_device_drivers os (h, cfg, w) = (h1, cfg1, w1)"
    by (cases "i3c_close_device_drivers os (h, cfg, w)")
  note cl = wf_i3c_close [OF assms(1,2), unfolded x c]
  show ?thesis
    using assms(2,3) c wf_i3c_open [OF assms(1), of B w1 h1 bus cfg1 st x'] cl(3,4)
    by (auto simp: i3c_bus_select_def x split: if_splits)
qed

lemma i3c_flock_loop_opened:
  assumes "keeps_files opened os"
  shows "opened (snd (i3c_flock_loop os lop fds w)) = opened w"
proof (induction fds arbitrary: w)
  case (Cons fd fds)
  obtain ok w1 where "os_flock os fd lop w = (ok, w1)" by fastforce
  then show ?case using Cons keeps_filesD(5) [OF assms, of fd lop w ok w1] by simp
qed simp

lemma wf_i3c_call:
  assumes "keeps_files opened os" "i3c_wf opened B x"
  shows "i3c_wf opened B (i3c_call os c x)"
proof -
  obtain h cfg w where x: "x = (h, cfg, w)" by (cases x)
  have sel: "i3c_wf opened B (snd (i3c_bus_select os bus x))" for bus
    using wf_i3c_select [OF assms, of bus] by (cases "i3c_bus_select os bus x") simp
  show ?thesis
  proof (cases c)
    case (Lock bus lop)
    obtain st h1 cfg1 w1 where s: "(if i3c_bus h = I3C_BUS_ADDRESS_RESERVED then i3c_bus_select os bus x
        else (ST_OK, x)) = (st, h1, cfg1, w1)" by (metis prod_cases4)
    then have "i3c_wf opened B (h1, cfg1, w1)" using sel [of bus] assms(2) by (auto split: if_splits)
    moreover obtain st2 w2 where f: "i3c_flock_loop os lop (i3c_driver_handlers h1) w1 = (st2, w2)" by fastforce
    moreover have "opened w2 = opened w1"
      using i3c_flock_loop_opened [OF assms(1), of lop "i3c_driver_handlers h1" w1] f by simp
    moreover have "i3c_call os c x = (if st = ST_OK then (h1, cfg1, w2) else (h1, cfg1, w1))"
      using s [unfolded x] f by (simp add: Lock i3c_call_def i3c_bus_flock_def x)
    ultimately show ?thesis by (simp add: i3c_wf_def owns_def)
  next
    case (Transfer ms)
    then show ?thesis
      using assms(2) keeps_filesD(7) [OF assms(1)]
      by (auto simp: i3c_call_def i3c_read_write_def i3c_wf_def owns_def x split: prod.splits)
  next
    case Initialize
    then show ?thesis using assms(2) by (simp add: i3c_call_def i3c_initialize_def x i3c_wf_def i3c_owned_def)
  qed (use sel wf_i3c_close(1) [OF assms] in \<open>simp_all add: i3c_call_def i3c_deinitialize_def\<close>)
qed

lemma descriptors_owned:
  assumes "keeps_files opened os"
  shows "foldl (\<lambda>x c. i2c_call os c x) (I2CHandler g, cfg, w) calls = (h, cfg', w') \<Longrightarrow>
      i2c_owned h \<inter> opened w = {} \<and> opened w' = opened w \<union> i2c_owned h \<and>
      i2c_owned (fst (snd (i2c_deinitialize os (h, cfg', w')))) = {} \<and>
      opened (snd (snd (snd (i2c_deinitialize os (h, cfg', w'))))) = opened w"
    and "foldl (\<lambda>x c. i3c_call os c x) (I3CHandler g, cfg, w) calls = (k, cfg', w') \<Longrightarrow>
      i3c_owned k \<inter> opened w = {} \<and> opened w' = opened w \<union> i3c_owned k \<and>
      length (i3c_driver_handlers k) = i3C_MAX_DEV_HANDLERS \<and>
      i3c_owned (fst (snd (i3c_deinitialize os (k, cfg', w')))) = {} \<and>
      opened (snd (snd (snd (i3c_deinitialize os (k, cfg', w'))))) = opened w"
proof -
  have i2c: "owns opened B (i2c_owned (fst y)) (snd (snd y))"
    if "owns opened B (i2c_owned (fst x)) (snd (snd x))" "foldl (\<lambda>x c. i2c_call os c x) x calls = y" for x y B
    using that
  proof (induction calls arbitrary: x)
    case (Cons c calls)
    obtain a b d a' b' d' where x: "x = (a, b, d)" and y: "i2c_call os c x = (a', b', d')"
      by (metis prod_cases3)
    show ?case
      using Cons.prems owns_i2c_call [OF assms, of B a d c b a' b' d'] x y by (intro Cons.IH [of "(a', b', d')"]) simp_all
  qed simp
  assume "foldl (\<lambda>x c. i2c_call os c x) (I2CHandler g, cfg, w) calls = (h, cfg', w')"
  then have o: "owns opened (opened w) (i2c_owned h) w'"
    using i2c [of "opened w" "(I2CHandler g, cfg, w)" "(h, cfg', w')"] by (simp add: owns_def i2c_owned_def I2CHandler_def)
  obtain h1 cfg1 w1 where c: "i2c_close_driver os (h, cfg', w') = (h1, cfg1, w1)"
    by (cases "i2c_close_driver os (h, cfg', w')")
  have "owns opened (opened w) {} w1" "i2c_owned h1 = {}" using owns_i2c_close [OF assms o c] by simp_all
  then show "i2c_owned h \<inter> opened w = {} \<and> opened w' = opened w \<union> i2c_owned h \<and>
      i2c_owned (fst (snd (i2c_deinitialize os (h, cfg', w')))) = {} \<and>
      opened (snd (snd (snd (i2c_deinitialize os (h, cfg', w'))))) = opened w"
    using o c by (simp add: owns_def i2c_deinitialize_def)
next
  have i3c: "i3c_wf opened B (foldl (\<lambda>x c. i3c_call os c x) x calls)" if "i3c_wf opened B x" for x B
    using that by (induction calls arbitrary: x) (simp_all add: wf_i3c_call [OF assms])
  assume k: "foldl (\<lambda>x c. i3c_call os c x) (I3CHandler g, cfg, w) calls = (k, cfg', w')"
  have "i3c_wf opened (opened w) (I3CHandler g, cfg, w)"
    by (simp add: i3c_wf_def I3CHandler_def owns_def i3c_owned_def)
  from i3c [OF this] k have o: "i3c_wf opened (opened w) (k, cfg', w')" by simp
  from wf_i3c_close [OF assms o] o
  show "i3c_owned k \<inter> opened w = {} \<and> opened w' = opened w \<union> i3c_owned k \<and>
      length (i3c_driver_handlers k) = i3C_MAX_DEV_HANDLERS \<and>
      i3c_owned (fst (snd (i3c_deinitialize os (k, cfg', w')))) = {} \<and>
      opened (snd (snd (snd (i3c_deinitialize os (k, cfg', w'))))) = opened w"
    by (simp add: i3c_wf_def owns_def i3c_deinitialize_def)
qed

text \<open>
  C32. Whatever calls an I2C and an I3C handler receive, initialization, bus selections, locks, transfers and
  shutdown in any order and with any failure of the kernel, the process has open what it had before plus
  exactly the descriptors stored in the handler: none is leaked, closed twice or taken from the rest of
  the process. A handler that is shut down holds none.
\<close>

theorem bus_descriptors_owned:
  assumes "keeps_files opened os"
  shows "(case foldl (\<lambda>x c. i2c_call os c x) (I2CHandler g, cfg, w) calls of (h, cfg', w') \<Rightarrow>
      i2c_owned h \<inter> opened w = {} \<and> opened w' = opened w \<union> i2c_owned h \<and>
      i2c_owned (fst (snd (i2c_deinitialize os (h, cfg', w')))) = {} \<and>
      opened (snd (snd (snd (i2c_deinitialize os (h, cfg', w'))))) = opened w) \<and>
    (case foldl (\<lambda>x c. i3c_call os c x) (I3CHandler g, cfg, w) calls of (h, cfg', w') \<Rightarrow>
      i3c_owned h \<inter> opened w = {} \<and> opened w' = opened w \<union> i3c_owned h \<and>
      length (i3c_driver_handlers h) = i3C_MAX_DEV_HANDLERS \<and>
      i3c_owned (fst (snd (i3c_deinitialize os (h, cfg', w')))) = {} \<and>
      opened (snd (snd (snd (i3c_deinitialize os (h, cfg', w'))))) = opened w)"
  by (rule conjI; intro case_prodI2, rule descriptors_owned [OF assms], simp)

text \<open>A kernel for which device 9 and the fifth I3C device do not open.\<close>

definition demo_os :: "int list bus_os" where
  "demo_os = \<lparr>os_open_i2c = (\<lambda>bus w. if bus = 9 then (NO_HANDLE, w) else new_file w),
     os_open_i3c_master = (\<lambda>bus k w. if k = 1 then new_file w else (NO_HANDLE, w)),
     os_open_i3c = (\<lambda>k i w. if i = 5 then (NO_HANDLE, w) else new_file w),
     os_close = (\<lambda>fd. filter (\<lambda>x. x \<noteq> fd)), os_flock = (\<lambda>fd lop w. (fd \<in> set w, w)),
     os_i2c_rdwr = (\<lambda>fd ms w. (if fd \<in> set w then int (length ms) else -1, \<lambda>i j. of_nat (i + j), w)),
     os_i3c_xfer = (\<lambda>fd ms w. (if fd \<in> set w then 0 else -1, \<lambda>i j. of_nat (i + j), w))\<rparr>"

lemma demo_os_keeps_files: "keeps_files set demo_os"
  by (simp add: keeps_files_def demo_os_def new_file_opens) (auto simp: opens_def)

definition demo_buses :: bus_config where
  "demo_buses = \<lparr>enable_i2c = True, enable_i3c = True, default_bus = 4,
     bus_config_types = [BUS_CONFIG_I2C, BUS_CONFIG_I2C, BUS_CONFIG_I3C, BUS_CONFIG_NOT_ALLOWED],
     bus_config_map = [4, 9, 2, 0]\<rparr>"

lemma map4: "[0 ..< 4] = [0, 1, 2, 3]" "[0 ..< 8] = [0, 1, 2, 3, 4, 5, 6, 7]"
  by (simp_all add: upt_rec)

theorem bus_descriptors_owned_witness:
  "(case foldl (\<lambda>x c. i2c_call demo_os c x) (I2CHandler 0, demo_buses, [1]) [Initialize, Lock 4 LOCK_EX, Select 9] of
      (h, cfg', w') \<Rightarrow> set w' = {1} \<union> i2c_owned h) \<and>
    (case foldl (\<lambda>x c. i3c_call demo_os c x) (I3CHandler 0, demo_buses, [1]) [Initialize, Select 2] of
      (h, cfg', w') \<Rightarrow> set w' = {1} \<union> i3c_owned h)"
  using bus_descriptors_owned [OF demo_os_keeps_files, where g = 0 and cfg = demo_buses and w = "[1]" and calls = "[Initialize, Lock 4 LOCK_EX, Select 9]"]
    bus_descriptors_owned [OF demo_os_keeps_files, where g = 0 and cfg = demo_buses and w = "[1]" and calls = "[Initialize, Select 2]"]
  by (auto split: prod.splits simp del: foldl_Cons)

text \<open>
  A bus that is selected stays selected: selecting it again, and every failure to select another bus
  that is not allowed, succeed or fail without touching the kernel, the handler or the configuration, on
  both kinds of bus.
\<close>

theorem selection_is_stable:
  assumes "i2c_bus_select os bus (h, cfg, w) = (ST_OK, h', cfg', w')"
    and "i3c_bus_select os bus3 (k, cfg3, w) = (ST_OK, k', cfg3', w3)"
  shows "i2c_bus_select os bus (h', cfg', w') = (ST_OK, h', cfg', w') \<and>
    i3c_bus_select os bus3 (k', cfg3', w3) = (ST_OK, k', cfg3', w3) \<and>
    (\<not> i2c_bus_allowed cfg b \<and> b \<noteq> bus \<longrightarrow> i2c_bus_select os b (h', cfg', w') = (ST_ERR, h', cfg', w')) \<and>
    (\<not> i3c_bus_allowed cfg3 b \<and> b \<noteq> bus3 \<longrightarrow> i3c_bus_select os b (k', cfg3', w3) = (ST_ERR, k', cfg3', w3))"
  using i2c.select_again [OF assms(1)] i3c.select_again [OF assms(2)]
    i2c.select_refused [of cfg' b h' os w'] i3c.select_refused [of cfg3' b k' os w3]
    i2c.select_ok [OF assms(1)] i3c.select_ok [OF assms(2)]
    i2c.config_kept [OF assms(1)] i3c.config_kept [OF assms(2)] by simp

theorem selection_is_stable_witness:
  "\<exists>h' cfg' w'. i2c_bus_select demo_os 4 (I2CHandler 0, demo_buses, [1]) = (ST_OK, h', cfg', w') \<and>
     i2c_bus_select demo_os 4 (h', cfg', w') = (ST_OK, h', cfg', w') \<and>
     i2c_bus_select demo_os 7 (h', cfg', w') = (ST_ERR, h', cfg', w')"
proof -
  let ?os = "demo_os\<lparr>os_open_i3c := \<lambda>k i. new_file\<rparr>"
  have a: "i2c_bus_select ?os 4 (I2CHandler 0, demo_buses, [1]) =
      (ST_OK, \<lparr>i2c_bus = 4, i2c_driver_handle = 4\<rparr>, demo_buses, [4, 1])"
    "i2c_bus_select demo_os b x = i2c_bus_select ?os b x" for b x
    by (simp_all add: i2c_bus_select_def i2c_open_driver_def i2c_close_driver_def i2c_bus_allowed_def i2c_enabled_def
        I2CHandler_def demo_buses_def demo_os_def new_file_def map4 fun_eq_iff split: prod.split)
  have "i3c_bus_select ?os 2 (I3CHandler 0, demo_buses, [1]) =
      (ST_OK, \<lparr>i3c_bus = 2, i3c_driver_handlers = [4, 7, 10, 13, 16, 19, 22, 25]\<rparr>, demo_buses\<lparr>default_bus := 2\<rparr>,
       [25, 22, 19, 16, 13, 10, 7, 4, 1])"
    by code_simp
  from selection_is_stable [OF a(1) this, of 7] a
  show ?thesis by (simp add: i2c_bus_allowed_def demo_buses_def map4)
qed

text \<open>
  After a failure the handlers believe in a bus they have not opened. When the device of an allowed bus
  does not open, an I2C handler has closed the old bus but still counts it as selected: selecting the old
  bus succeeds without opening anything, and transfers go to descriptor -1. When only some of the eight
  devices of an I3C bus open, all are closed again, but trying the bus a second time succeeds.
\<close>

theorem select_after_failure:
  assumes "i2c_enabled cfg" "i2c_bus_allowed cfg bus" "bus \<noteq> i2c_bus h"
    and "os_open_i2c os bus (snd (snd (i2c_close_driver os (h, cfg, w)))) = (NO_HANDLE, w')"
    and "i3c_bus_select os bus3 (k, cfg3, w3) = (ST_ERR, k', cfg3', w3')" "i3c_bus k' \<noteq> i3c_bus k"
  shows "i2c_bus_select os bus (h, cfg, w) = (ST_ERR, h\<lparr>i2c_driver_handle := NO_HANDLE\<rparr>, cfg, w') \<and>
    i2c_bus_select os (i2c_bus h) (h\<lparr>i2c_driver_handle := NO_HANDLE\<rparr>, cfg, w') =
      (ST_OK, h\<lparr>i2c_driver_handle := NO_HANDLE\<rparr>, cfg, w') \<and>
    i3c_bus_select os bus3 (k', cfg3', w3') = (ST_OK, k', cfg3', w3') \<and>
    list_all (\<lambda>fd. fd = NO_HANDLE) (i3c_driver_handlers k')"
proof -
  obtain h1 cfg1 w1 where c: "i2c_close_driver os (h, cfg, w) = (h1, cfg1, w1)"
    by (cases "i2c_close_driver os (h, cfg, w)")
  have h1: "h1\<lparr>i2c_driver_handle := NO_HANDLE\<rparr> = h\<lparr>i2c_driver_handle := NO_HANDLE\<rparr>" "cfg1 = cfg"
    using c by (auto simp: i2c_close_driver_def split: if_splits)
  obtain k1 w1 where kc: "i3c_close_device_drivers os (k, cfg3, w3) = (k1, cfg3, w1)" "i3c_bus k1 = i3c_bus k"
    by (simp add: i3c_close_device_drivers_def)
  have en: "i3c_enabled cfg3" "bus3 \<noteq> i3c_bus k" and op: "i3c_open_device_drivers os bus3 (k1, cfg3, w1) = (ST_ERR, k', cfg3', w3')"
    using assms(5,6) kc by (auto simp: i3c_bus_select_def split: if_splits)
  obtain j w2 where l: "i3c_open_loop os bus3 j [0 ..< i3C_MAX_DEV_HANDLERS] (k1, cfg3, w2) = (ST_ERR, k', cfg3', w3')"
    using op assms(6) kc(2) by (auto simp: i3c_open_device_drivers_def split: prod.splits option.splits)
  have "i3c_bus k' = bus3 \<and> list_all (\<lambda>fd. fd = NO_HANDLE) (i3c_driver_handlers k')"
    using i3c_open_loop_failed [OF l] assms(6) kc(2) by auto
  moreover have "i3c_enabled cfg3'" using i3c.config_kept [OF assms(5)] en by simp
  ultimately show ?thesis
    using assms(1-4) c h1 by (simp add: i2c_bus_select_def i2c_open_driver_def i3c_bus_select_def)
qed

theorem select_after_failure_witness:
  "\<exists>k' cfg3' w3'. i3c_bus_select demo_os 2 (I3CHandler 0, demo_buses, [1]) = (ST_ERR, k', cfg3', w3') \<and>
     i3c_bus_select demo_os 2 (k', cfg3', w3') = (ST_OK, k', cfg3', w3')"
proof -
  let ?h = "\<lparr>i2c_bus = 4, i2c_driver_handle = 4\<rparr>"
  have a: "i2c_enabled demo_buses" "i2c_bus_allowed demo_buses 9" "9 \<noteq> i2c_bus ?h"
    "os_open_i2c demo_os 9 (snd (snd (i2c_close_driver demo_os (?h, demo_buses, [4, 1])))) = (NO_HANDLE, [1])"
    by (simp_all add: i2c_enabled_def i2c_bus_allowed_def demo_buses_def demo_os_def i2c_close_driver_def map4)
  have "i3c_bus_select demo_os 2 (I3CHandler 0, demo_buses, [1]) =
      (ST_ERR, \<lparr>i3c_bus = 2, i3c_driver_handlers = replicate 8 (-1)\<rparr>, demo_buses\<lparr>default_bus := 2\<rparr>, [1])"
    by code_simp
  then obtain k cfg w where "i3c_bus_select demo_os 2 (I3CHandler 0, demo_buses, [1]) = (ST_ERR, k, cfg, w)" "i3c_bus k = 2"
    by simp
  then show ?thesis
    using select_after_failure [OF a, of 2 "I3CHandler 0" demo_buses "[1]" k cfg w] by (auto simp: I3CHandler_def)
qed

end
