(* ===== verification/Asd_I2c.thy ===== *)
theory Asd_I2c
  imports Asd_Jtag Bus_Handlers
begin

text \<open>
  \<^verbatim>\<open>process_i2c_messages\<close> of \<^verbatim>\<open>asd_msg.c\<close>: selecting and locking a bus, collecting reads and writes,
  running them on the handler of the bus and answering them.
\<close>

abbreviation (input) "I2C_WRITE_CFG_BUS_SELECT \<equiv> 1 :: u8"
abbreviation (input) "I2C_WRITE_CFG_SCLK \<equiv> 2 :: u8"
abbreviation (input) "I2C_READ_MIN \<equiv> 0x20 :: u8"
abbreviation (input) "I2C_READ_MAX \<equiv> 0x3f :: u8"
abbreviation (input) "I2C_WRITE_MIN \<equiv> 0x60 :: u8"
abbreviation (input) "I2C_WRITE_MAX \<equiv> 0x7f :: u8"
abbreviation (input) "I2C_ADDRESS_ACK \<equiv> 0x80 :: u8"
abbreviation (input) "ASD_PACKET_CONTINUATION \<equiv> 0x80 :: u8"

text \<open>The two handlers and the kernel below them; their configuration is the one of the engine.\<close>

record 'o bus_state =
  i2c_handler :: I2C_Handler
  i3c_handler :: I3C_Handler
  bus_dev :: 'o

type_synonym ('d, 't, 'o) i2c_engine = "('d, 't, 'o bus_state) ASD_MSG"

text \<open>
  Around it: the kernel, the contents of the stack in a send, an uninitialized message, and what the
  error answers of a bus selection take for the header of the request, which is the reader and not the
  packet.
\<close>

record 'o i2c_env =
  bus_kernel :: "'o bus_os"
  i2c_send_junk :: "u8 list"
  msg_junk :: asd_i2c_msg
  packet_as_header :: message_header

section \<open>Buses\<close>

definition bus_cfg :: "('d, 't, 'o) i2c_engine \<Rightarrow> bus_config" where
  "bus_cfg s = buscfg (asd_cfg s)"

definition bus_type :: "('d, 't, 'o) i2c_engine \<Rightarrow> u8 \<Rightarrow> bus_config_type" where
  "bus_type s bus = (case find (\<lambda>i. bus_config_map (bus_cfg s) ! i = bus) [0 ..< MAX_IxC_BUSES] of
       Some i \<Rightarrow> bus_config_types (bus_cfg s) ! i
     | None \<Rightarrow> BUS_CONFIG_NOT_ALLOWED)"

definition set_cfg :: "bus_config \<Rightarrow> ('d, 't, 'o) i2c_engine \<Rightarrow> ('d, 't, 'o) i2c_engine" where
  "set_cfg cfg s = s\<lparr>asd_cfg := (asd_cfg s)\<lparr>buscfg := cfg\<rparr>\<rparr>"

definition on_i2c :: "('o i2c_state \<Rightarrow> status \<times> 'o i2c_state) \<Rightarrow> ('d, 't, 'o) i2c_engine
    \<Rightarrow> status \<times> ('d, 't, 'o) i2c_engine" where
  "on_i2c f s = (let (st, h, cfg, w) = f (i2c_handler (buses s), bus_cfg s, bus_dev (buses s))
     in (st, set_cfg cfg (s\<lparr>buses := (buses s)\<lparr>i2c_handler := h, bus_dev := w\<rparr>\<rparr>)))"

definition on_i3c :: "('o i3c_state \<Rightarrow> status \<times> 'o i3c_state) \<Rightarrow> ('d, 't, 'o) i2c_engine
    \<Rightarrow> status \<times> ('d, 't, 'o) i2c_engine" where
  "on_i3c f s = (let (st, h, cfg, w) = f (i3c_handler (buses s), bus_cfg s, bus_dev (buses s))
     in (st, set_cfg cfg (s\<lparr>buses := (buses s)\<lparr>i3c_handler := h, bus_dev := w\<rparr>\<rparr>)))"

definition dev_flock :: "'o i2c_env \<Rightarrow> u8 \<Rightarrow> lock_op \<Rightarrow> ('d, 't, 'o) i2c_engine
    \<Rightarrow> status \<times> ('d, 't, 'o) i2c_engine" where
  "dev_flock env bus lop s = (case bus_type s bus of
       BUS_CONFIG_I2C \<Rightarrow> on_i2c (i2c_bus_flock (bus_kernel env) bus lop) s
     | BUS_CONFIG_I3C \<Rightarrow> on_i3c (i3c_bus_flock (bus_kernel env) bus lop) s
     | BUS_CONFIG_NOT_ALLOWED \<Rightarrow> (ST_ERR, s))"

definition bus_error :: "'o i2c_env \<Rightarrow> u8 \<Rightarrow> ('d, 't, 'o) i2c_engine \<Rightarrow> ('d, 't, 'o) i2c_engine" where
  "bus_error env e s = s\<lparr>client := send_error_message (i2c_send_junk env)
     \<lparr>header = packet_as_header env, buffer = []\<rparr> e (client s)\<rparr>"

text \<open>Moving the lock to the selected bus; the second component tells that the command goes on.\<close>

definition move_lock :: "'o i2c_env \<Rightarrow> u8 \<Rightarrow> ('d, 't, 'o) i2c_engine \<Rightarrow> ('d, 't, 'o) i2c_engine \<times> bool" where
  "move_lock env bus s =
     (if default_bus (bus_cfg s) \<noteq> bus then
        let (st, s) = dev_flock env (default_bus (bus_cfg s)) LOCK_UN s;
            s = (if st \<noteq> ST_OK then bus_error env ASD_FAILURE_REMOVE_I2C_LOCK s else s);
            (st, s) = dev_flock env bus LOCK_EX s
        in if st \<noteq> ST_OK then (bus_error env ASD_FAILURE_PROCESS_I2C_LOCK s, False) else (s, True)
      else (s, True))"

definition do_bus_select_command :: "'o i2c_env \<Rightarrow> ('d, 't, 'o) i2c_engine \<Rightarrow> packet_data
    \<Rightarrow> status \<times> ('d, 't, 'o) i2c_engine \<times> packet_data" where
  "do_bus_select_command env s p = (case get_packet_data p 1 of
       None \<Rightarrow> (ST_ERR, s, p)
     | Some (d, p) \<Rightarrow>
         let bus = d ! 0; (s, go) = move_lock env bus s
         in if \<not> go then (ST_ERR, s, p)
            else let (st, s) = (case bus_type s bus of
                     BUS_CONFIG_I2C \<Rightarrow> on_i2c (i2c_bus_select (bus_kernel env) bus) s
                   | BUS_CONFIG_I3C \<Rightarrow> on_i3c (i3c_bus_select (bus_kernel env) bus) s
                   | BUS_CONFIG_NOT_ALLOWED \<Rightarrow> (ST_ERR, s))
                 in (st, s, p))"

definition do_set_sclk_command :: "('d, 't, 'o) i2c_engine \<Rightarrow> packet_data \<Rightarrow> status \<times> packet_data" where
  "do_set_sclk_command s p = (case get_packet_data p 2 of
       None \<Rightarrow> (ST_ERR, p)
     | Some (d, p) \<Rightarrow>
         let sclk = push_bit 8 (ucast (d ! 1)) + ucast (d ! 0)
         in (case bus_type s (default_bus (bus_cfg s)) of
               BUS_CONFIG_I2C \<Rightarrow> i2c_set_sclk (bus_cfg s) sclk
             | BUS_CONFIG_I3C \<Rightarrow> i3c_set_sclk (bus_cfg s) sclk
             | BUS_CONFIG_NOT_ALLOWED \<Rightarrow> ST_ERR, p))"

section \<open>Collecting messages\<close>

text \<open>The status, whether the message forces a stop, the builder and the reader.\<close>

definition do_read_command :: "'o i2c_env \<Rightarrow> u8 \<Rightarrow> I2C_Msg_Builder \<Rightarrow> packet_data
    \<Rightarrow> (status \<times> bool \<times> I2C_Msg_Builder \<times> packet_data) option" where
  "do_read_command env cmd b p = (case get_packet_data p 1 of
       None \<Rightarrow> Some (ST_ERR, False, b, p)
     | Some (d, p) \<Rightarrow>
         let m = (msg_junk env)\<lparr>i2c_length := cmd AND 0xf, i2c_read := True,
               i2c_address := drop_bit 1 (d ! 0 AND 0xfe)\<rparr>
         in map_option (\<lambda>(st, b). (st, d ! 0 AND 1 = 1, b, p)) (i2c_msg_add m b))"

definition do_write_command :: "'o i2c_env \<Rightarrow> u8 \<Rightarrow> I2C_Msg_Builder \<Rightarrow> packet_data
    \<Rightarrow> (status \<times> bool \<times> I2C_Msg_Builder \<times> packet_data) option" where
  "do_write_command env cmd b p = (case get_packet_data p 1 of
       None \<Rightarrow> Some (ST_ERR, False, b, p)
     | Some (d, p) \<Rightarrow>
         let len = cmd AND 0xf; stop = (d ! 0 AND 1 = 1)
         in case get_packet_data p (unat len) of
              None \<Rightarrow> Some (ST_ERR, stop, b, p)
            | Some (bs, p) \<Rightarrow>
                let m = (msg_junk env)\<lparr>i2c_length := len, i2c_read := False,
                      i2c_address := drop_bit 1 (d ! 0 AND 0xfe),
                      i2c_buffer := bs @ drop (unat len) (i2c_buffer (msg_junk env))\<rparr>
                in map_option (\<lambda>(st, b). (st, stop, b, p)) (i2c_msg_add m b))"

section \<open>Running and answering them\<close>

definition do_read_write :: "'o i2c_env \<Rightarrow> i2c_msg list \<Rightarrow> ('d, 't, 'o) i2c_engine
    \<Rightarrow> status \<times> i2c_msg list \<times> ('d, 't, 'o) i2c_engine" where
  "do_read_write env ms s = (case bus_type s (default_bus (bus_cfg s)) of
       BUS_CONFIG_I2C \<Rightarrow>
         let (st, ms, h, cfg, w) = i2c_read_write (bus_kernel env) ms (i2c_handler (buses s), bus_cfg s, bus_dev (buses s))
         in (st, ms, set_cfg cfg (s\<lparr>buses := (buses s)\<lparr>i2c_handler := h, bus_dev := w\<rparr>\<rparr>))
     | BUS_CONFIG_I3C \<Rightarrow>
         let (st, ms, h, cfg, w) = i3c_read_write (bus_kernel env) ms (i3c_handler (buses s), bus_cfg s, bus_dev (buses s))
         in (st, ms, set_cfg cfg (s\<lparr>buses := (buses s)\<lparr>i3c_handler := h, bus_dev := w\<rparr>\<rparr>))
     | BUS_CONFIG_NOT_ALLOWED \<Rightarrow> (ST_ERR, ms, s))"

text \<open>Sending what has been collected, with the given code, and the answer to one message.\<close>

definition send_out :: "'o i2c_env \<Rightarrow> u8 \<Rightarrow> nat \<Rightarrow> ('d, 't, 'o) i2c_engine \<Rightarrow> status \<times> ('d, 't, 'o) i2c_engine" where
  "send_out env code rc s =
     (let s = s\<lparr>out_msg := (out_msg s)\<lparr>header := (set_size (of_nat rc) (header (out_msg s)))\<lparr>cmd_stat := code\<rparr>\<rparr>\<rparr>;
          (st, tx) = send_response (i2c_send_junk env) (out_msg s) (client s)
      in (st, s\<lparr>client := tx\<rparr>))"

definition i2c_answer :: "bool \<Rightarrow> asd_i2c_msg \<Rightarrow> u8 list" where
  "i2c_answer ack m =
     [(if i2c_read m then I2C_READ_MIN else I2C_WRITE_MIN) + i2c_length m,
      if ack then I2C_ADDRESS_ACK + i2c_length m else i2c_length m] @
     (if i2c_read m then take (unat (i2c_length m)) (i2c_buffer m) else [])"

definition put_bytes :: "u8 list \<Rightarrow> nat \<Rightarrow> ('d, 't, 'o) i2c_engine \<Rightarrow> ('d, 't, 'o) i2c_engine" where
  "put_bytes bs rc s = s\<lparr>out_msg := (out_msg s)\<lparr>buffer := take rc (buffer (out_msg s)) @ bs @
     drop (rc + length bs) (buffer (out_msg s))\<rparr>\<rparr>"

fun answer_loop :: "'o i2c_env \<Rightarrow> I2C_Msg_Builder \<Rightarrow> bool \<Rightarrow> nat list \<Rightarrow> asd_i2c_msg \<Rightarrow> nat
    \<Rightarrow> ('d, 't, 'o) i2c_engine \<Rightarrow> status \<times> nat \<times> ('d, 't, 'o) i2c_engine" where
  "answer_loop env b ack [] m rc s = (ST_OK, rc, s)"
| "answer_loop env b ack (i # is) m rc s =
     (let (st, m) = i2c_msg_get_asd_i2c_msg b i m
      in if st \<noteq> ST_OK then (st, rc, s)
         else if unat (i2c_length m) + rc + 2 > MAX_DATA_SIZE then
           let (st, s) = send_out env (ASD_SUCCESS OR ASD_PACKET_CONTINUATION) rc s
           in if st \<noteq> ST_OK then (st, rc, s)
              else let s = put_bytes (i2c_answer ack m) 0
                         (s\<lparr>out_msg := (out_msg s)\<lparr>buffer := replicate MAX_DATA_SIZE 0\<rparr>\<rparr>)
                   in answer_loop env b ack is m (length (i2c_answer ack m)) s
         else answer_loop env b ack is m (rc + length (i2c_answer ack m)) (put_bytes (i2c_answer ack m) rc s))"

definition build_responses :: "'o i2c_env \<Rightarrow> I2C_Msg_Builder \<Rightarrow> bool \<Rightarrow> nat \<Rightarrow> ('d, 't, 'o) i2c_engine
    \<Rightarrow> status \<times> nat \<times> ('d, 't, 'o) i2c_engine" where
  "build_responses env b ack rc s =
     (let (st, n) = i2c_msg_get_count b
      in if st = ST_OK then answer_loop env b ack [0 ..< n] (msg_junk env) rc s else (st, rc, s))"
section \<open>The loop\<close>

text \<open>
  The engine, the reader, the number of response bytes, the builder, and whether messages are pending and
  a stop is forced.
\<close>

type_synonym ('d, 't, 'o) i2c_loop_state =
  "('d, 't, 'o) i2c_engine \<times> packet_data \<times> nat \<times> I2C_Msg_Builder \<times> bool \<times> bool"

definition i2c_command :: "'o i2c_env \<Rightarrow> u8 \<Rightarrow> ('d, 't, 'o) i2c_loop_state \<Rightarrow> ('d, 't, 'o) i2c_loop_state outcome" where
  "i2c_command env cmd = (\<lambda>(s, p, rc, b, pending, stop).
     if cmd = I2C_WRITE_CFG_BUS_SELECT then
       let (_, s, p) = do_bus_select_command env s p in Some (ST_OK, s, p, rc, b, pending, stop)
     else if cmd = I2C_WRITE_CFG_SCLK then
       let (st, p) = do_set_sclk_command s p in Some (st, s, p, rc, b, pending, stop)
     else if I2C_READ_MIN \<le> cmd \<and> cmd \<le> I2C_READ_MAX then
       map_option (\<lambda>(st, stop, b, p). (st, s, p, rc, b, True, stop)) (do_read_command env cmd b p)
     else if I2C_WRITE_MIN \<le> cmd \<and> cmd \<le> I2C_WRITE_MAX then
       map_option (\<lambda>(st, stop, b, p). (st, s, p, rc, b, True, stop)) (do_write_command env cmd b p)
     else Some (ST_ERR, s, p, rc, b, pending, stop))"

text \<open>
  The pending messages are run at a forced stop and at the end of the packet; a failed transfer is
  answered as not acknowledged.
\<close>

definition i2c_flush :: "'o i2c_env \<Rightarrow> ('d, 't, 'o) i2c_loop_state \<Rightarrow> ('d, 't, 'o) i2c_loop_state outcome" where
  "i2c_flush env = (\<lambda>(s, p, rc, b, pending, stop).
     if pending \<and> (used p = total p \<or> stop) then
       (case b of
          None \<Rightarrow> Some (ST_ERR, s, p, rc, b, False, False)
        | Some ms \<Rightarrow>
            let (st, ms, s) = do_read_write env ms s;
                (st, rc, s) = build_responses env (Some ms) (st = ST_OK) rc s
            in if st \<noteq> ST_OK then Some (st, s, p, rc, Some ms, False, False)
               else map_option (\<lambda>(st, b). (st, s, p, rc, b, False, False)) (i2c_msg_reset (Some ms)))
     else Some (ST_OK, s, p, rc, b, pending, stop))"

definition i2c_step :: "'o i2c_env \<Rightarrow> ('d, 't, 'o) i2c_loop_state \<Rightarrow> ('d, 't, 'o) i2c_loop_state outcome" where
  "i2c_step env = (\<lambda>(s, p, x). case get_packet_data p 1 of
       None \<Rightarrow> None
     | Some (c, p) \<Rightarrow> then_ok (i2c_command env (c ! 0) (s, p, x)) (i2c_flush env))"

section \<open>Progress\<close>

lemma bus_select_ahead:
  assumes "do_bus_select_command env s p = (st, s', p')"
  shows "ahead p p'"
  using assms
  by (auto simp: do_bus_select_command_def Let_def split: option.splits prod.splits if_splits dest: get_ahead)

lemma sclk_ahead: "do_set_sclk_command s p = (st, p') \<Longrightarrow> ahead p p'"
  by (auto simp: do_set_sclk_command_def Let_def split: option.splits dest: get_ahead)

lemma read_ahead: "do_read_command env cmd b p = Some (st, stop, b', p') \<Longrightarrow> ahead p p'"
  by (auto simp: do_read_command_def Let_def split: option.splits dest: get_ahead)

lemma write_ahead: "do_write_command env cmd b p = Some (st, stop, b', p') \<Longrightarrow> ahead p p'"
  by (auto simp: do_write_command_def Let_def split: option.splits) (blast intro: get_ahead ahead_trans)+

lemma command_ahead:
  assumes "i2c_command env cmd (s, p, rc, b, pe, sp) = Some (st, s', p', y)"
  shows "ahead p p'"
  using assms
  by (auto simp: i2c_command_def split: if_splits prod.splits
      dest: bus_select_ahead sclk_ahead read_ahead write_ahead)

lemma flush_reader:
  assumes "i2c_flush env (s, p, rc, b, pe, sp) = Some (st, s', p', y)"
  shows "p' = p"
  using assms by (auto simp: i2c_flush_def Let_def split: if_splits option.splits prod.splits)

lemma i2c_step_ahead:
  assumes "i2c_step env (s, p, rc, b, pe, sp) = Some (st, s', p', y)"
  shows "\<exists>c q. get_packet_data p 1 = Some (c, q) \<and> ahead q p'"
proof -
  obtain c q where g: "get_packet_data p 1 = Some (c, q)"
    and t: "then_ok (i2c_command env (c ! 0) (s, q, rc, b, pe, sp)) (i2c_flush env) = Some (st, s', p', y)"
    using assms by (auto simp: i2c_step_def split: option.splits)
  from t have "ahead q p'"
  proof (cases rule: then_ok_SomeE)
    case (ok x)
    obtain s1 p1 rc1 b1 pe1 sp1 where x: "x = (s1, p1, rc1, b1, pe1, sp1)" by (cases x)
    show ?thesis
      using command_ahead [of env "c ! 0" s q rc b pe sp ST_OK s1 p1] flush_reader [of env s1 p1 rc1 b1 pe1 sp1] ok x
      by simp
  next
    case err
    then show ?thesis using command_ahead [of env "c ! 0" s q rc b pe sp st s' p' y] by simp
  qed
  with g show ?thesis by blast
qed

function i2c_loop :: "'o i2c_env \<Rightarrow> ('d, 't, 'o) i2c_loop_state \<Rightarrow> ('d, 't, 'o) i2c_loop_state outcome" where
  "i2c_loop env x = (case x of (s, p, rc, b, pe, sp) \<Rightarrow>
     if used p < total p then then_ok (i2c_step env x) (i2c_loop env) else Some (ST_OK, x))"
  by auto
termination
proof (relation "measure (\<lambda>(env, s, p, x). total p - used p)")
  fix env :: "'o i2c_env" and x y :: "('d, 't, 'o) i2c_loop_state" and s p z1 z2 z3 z4 rc b pe sp
  assume x: "(s, z1) = x" "(p, z2) = z1" "(rc, z3) = z2" "(b, z4) = z3" "(pe, sp) = z4" "used p < total p"
    and st: "i2c_step env x = Some (ST_OK, y)"
  obtain s' p' w where y: "y = (s', p', w)" by (cases y)
  have "\<exists>c q. get_packet_data p 1 = Some (c, q) \<and> ahead q p'"
    using st x y by (intro i2c_step_ahead [of env s p rc b pe sp ST_OK s' p' w]) auto
  then obtain c q where g: "get_packet_data p 1 = Some (c, q)" "ahead q p'" by blast
  have "used p < used p'" "total p' = total p"
    using get_packet_data_used [OF g(1)] aheadD [OF g(2)] by simp_all
  then show "((env, y), env, x) \<in> measure (\<lambda>(env, s, p, x). total p - used p)"
    using x y by auto
qed simp

declare i2c_loop.simps [simp del]

definition process_i2c_messages :: "'o i2c_env \<Rightarrow> asd_message \<Rightarrow> ('d, 't, 'o) i2c_engine
    \<Rightarrow> ('d, 't, 'o) i2c_engine outcome" where
  "process_i2c_messages env m s =
     (let size = get_message_size m
      in if size = -1 then Some (ST_ERR, s)
         else
           let s = s\<lparr>out_msg := \<lparr>header = header m, buffer = replicate MAX_DATA_SIZE 0\<rparr>\<rparr>;
               (_, b) = i2c_msg_initialize I2CMsgBuilder
           in case i2c_loop env (s, packet_of (buffer m) (nat size), 0, b, False, False) of
                None \<Rightarrow> None
              | Some (st, s, p, rc, _) \<Rightarrow> Some (if st = ST_OK then send_out env ASD_SUCCESS rc s else (st, s)))"
section \<open>The answer stream\<close>

text \<open>A packet that answers the request with the given header, and the headers that give the same ones.\<close>

definition reply :: "message_header \<Rightarrow> u8 \<Rightarrow> u8 list \<Rightarrow> u8 list" where
  "reply h code payload = encode_header ((set_size (of_nat (length payload)) h)\<lparr>cmd_stat := code\<rparr>) @ payload"

definition same_request :: "message_header \<Rightarrow> message_header \<Rightarrow> bool" where
  "same_request h h' \<longleftrightarrow> origin_id h' = origin_id h \<and> reserved h' = reserved h \<and> enc_bit h' = enc_bit h \<and>
     mtype h' = mtype h \<and> tag h' = tag h"

lemma same_request_refl [simp]: "same_request h h"
  by (simp add: same_request_def)

lemma same_request_set [simp]: "same_request h ((set_size n h')\<lparr>cmd_stat := c\<rparr>) = same_request h h'"
  by (simp add: same_request_def set_size_def)

lemma reply_cong: "same_request h h' \<Longrightarrow> reply h' = reply h"
  by (auto simp: same_request_def reply_def set_size_def encode_header_def fun_eq_iff)

definition out_ok :: "message_header \<Rightarrow> ('d, 't, 'o) i2c_engine \<Rightarrow> bool" where
  "out_ok h s \<longleftrightarrow> length (buffer (out_msg s)) = MAX_DATA_SIZE \<and> same_request h (header (out_msg s))"

definition rest_same :: "('d, 't, 'o) i2c_engine \<Rightarrow> ('d, 't, 'o) i2c_engine \<Rightarrow> bool" where
  "rest_same s s' \<longleftrightarrow> asd_cfg s' = asd_cfg s \<and> buses s' = buses s \<and> in_msg s' = in_msg s \<and>
     jtag_handler s' = jtag_handler s \<and> jtag_dev s' = jtag_dev s \<and> fixed_part s' = fixed_part s"

lemma send_out_bytes:
  assumes "length (i2c_send_junk env) = MAX_PACKET_SIZE" "out_ok h s" "rc \<le> MAX_DATA_SIZE"
  shows "\<exists>s'. send_out env code rc s = (send_function (client s) (sent (client s)) (reply h code (take rc (buffer (out_msg s)))), s') \<and>
    client s' = (client s)\<lparr>sent := sent (client s) @ [reply h code (take rc (buffer (out_msg s)))]\<rparr> \<and>
    out_ok h s' \<and> buffer (out_msg s') = buffer (out_msg s) \<and> rest_same s s'"
proof -
  let ?h = "(set_size (of_nat rc) (header (out_msg s)))\<lparr>cmd_stat := code\<rparr>"
  let ?m = "(out_msg s)\<lparr>header := ?h\<rparr>"
  have len: "length (buffer (out_msg s)) = 3000" using assms(2) by (simp add: out_ok_def)
  have "get_message_size (\<lparr>header = set_size (of_nat rc) (header (out_msg s)), buffer = buffer (out_msg s)\<rparr>) = int rc"
    using assms(3) by (subst get_message_size_set [where n = rc and h = "header (out_msg s)"]) simp_all
  then have n: "get_message_size ?m = int rc"
    using get_message_size_cmd_stat [where h = "set_size (of_nat rc) (header (out_msg s))" and e = code and b = "buffer (out_msg s)"]
    by (cases "out_msg s") simp
  have r: "encode_header ?h @ take rc (buffer (out_msg s)) = reply h code (take rc (buffer (out_msg s)))"
  proof -
    have "reply h = reply (header (out_msg s))"
      using assms(2) reply_cong [of h "header (out_msg s)"] by (simp add: out_ok_def)
    then show ?thesis using len assms(3) by (simp add: reply_def)
  qed
  have "send_response (i2c_send_junk env) ?m (client s) =
      transmit (reply h code (take rc (buffer (out_msg s)))) (client s)"
    using assms(1) len n r by (simp add: send_response_bytes)
  then show ?thesis
    using assms(2) by (simp add: send_out_def transmit_def out_ok_def rest_same_def)
qed

definition wf_msg :: "i2c_msg \<Rightarrow> bool" where
  "wf_msg m \<longleftrightarrow> unat (im_len m) \<le> 15 \<and> length (im_buf m) = unat (im_len m)"

text \<open>The answer to a message: its command and the acknowledge byte with its length, and what was read.\<close>

definition bus_answer :: "bool \<Rightarrow> i2c_msg \<Rightarrow> u8 list" where
  "bus_answer ack m =
     [(if im_rd m then 0x20 else 0x60) + ucast (im_len m), (if ack then 0x80 else 0) + ucast (im_len m)] @
     (if im_rd m then im_buf m else [])"

lemma unat_ucast_len: "unat (im_len m) \<le> 15 \<Longrightarrow> unat (ucast (im_len m) :: u8) = unat (im_len m)"
  by (simp add: unsigned_ucast_eq take_bit_nat_eq_self)

lemma answer_of_msg:
  assumes "wf_msg m"
  shows "i2c_answer ack (copy_i2c_to_asd a m) = bus_answer ack m"
    "unat (i2c_length (copy_i2c_to_asd a m)) = unat (im_len m)"
    "length (bus_answer ack m) \<le> unat (im_len m) + 2" "unat (im_len m) \<le> 15"
  using assms by (auto simp: wf_msg_def i2c_answer_def copy_i2c_to_asd_def bus_answer_def unat_ucast_len)

lemma put_bytes_ok:
  assumes "out_ok h s" "rc + length bs \<le> MAX_DATA_SIZE"
  shows "out_ok h (put_bytes bs rc s)" "take (rc + length bs) (buffer (out_msg (put_bytes bs rc s))) =
      take rc (buffer (out_msg s)) @ bs"
    "client (put_bytes bs rc s) = client s" "rest_same s (put_bytes bs rc s)"
  using assms by (cases bs; auto simp: put_bytes_def out_ok_def rest_same_def min_def)+

lemma answer_loop_ok:
  assumes "length (i2c_send_junk env) = MAX_PACKET_SIZE" "\<forall>i \<in> set is. i < length ms \<and> wf_msg (ms ! i)"
    and "out_ok h s" "rc \<le> MAX_DATA_SIZE" "answer_loop env (Some ms) ack is m rc s = (st, rc', s')"
  shows "\<exists>pls. client s' = (client s)\<lparr>sent := sent (client s) @ map (reply h ASD_PACKET_CONTINUATION) pls\<rparr> \<and>
    (\<forall>pl \<in> set pls. length pl \<le> MAX_DATA_SIZE) \<and> out_ok h s' \<and> rc' \<le> MAX_DATA_SIZE \<and> rest_same s s' \<and>
    (st = ST_OK \<longrightarrow> concat pls @ take rc' (buffer (out_msg s')) =
       take rc (buffer (out_msg s)) @ concat (map (\<lambda>i. bus_answer ack (ms ! i)) is))"
  using assms(2-5)
proof (induction "is" arbitrary: m rc s)
  case Nil
  then show ?case by (intro exI [of _ "[]"]) (simp add: rest_same_def)
next
  case (Cons i "is")
  define a where "a = copy_i2c_to_asd m (ms ! i)"
  have wf: "i < length ms" "wf_msg (ms ! i)" using Cons.prems(1) by simp_all
  note an = answer_of_msg [OF wf(2)]
  have ans: "i2c_answer ack a = bus_answer ack (ms ! i)" "unat (i2c_length a) = unat (im_len (ms ! i))"
    by (simp_all add: a_def an(1,2))
  show ?case
  proof (cases "unat (im_len (ms ! i)) + rc + 2 > 3000")
    case False
    define s1 where "s1 = put_bytes (bus_answer ack (ms ! i)) rc s"
    have fit: "rc + length (bus_answer ack (ms ! i)) \<le> 3000" using False an(3) [of ack] by simp
    note pb = put_bytes_ok [OF Cons.prems(2) fit, folded s1_def]
    have l: "answer_loop env (Some ms) ack is a (rc + length (bus_answer ack (ms ! i))) s1 = (st, rc', s')"
      using Cons.prems(4) False wf(1) by (simp add: i2c_msg_get_asd_i2c_msg_def ans s1_def flip: a_def)
    from Cons.IH [OF _ pb(1) fit l] Cons.prems(1) pb show ?thesis
      by (simp add: rest_same_def)
  next
    case True
    obtain s1 where so: "send_out env ASD_PACKET_CONTINUATION rc s =
        (send_function (client s) (sent (client s)) (reply h ASD_PACKET_CONTINUATION (take rc (buffer (out_msg s)))), s1)"
      "client s1 = (client s)\<lparr>sent := sent (client s) @ [reply h ASD_PACKET_CONTINUATION (take rc (buffer (out_msg s)))]\<rparr>"
      "out_ok h s1" "buffer (out_msg s1) = buffer (out_msg s)" "rest_same s s1"
      using send_out_bytes [OF assms(1) Cons.prems(2,3), of ASD_PACKET_CONTINUATION] by (auto simp: rest_same_def)
    have len: "length (take rc (buffer (out_msg s))) \<le> 3000" by (simp add: Cons.prems(3) min.coboundedI2)
    show ?thesis
    proof (cases "send_function (client s) (sent (client s)) (reply h ASD_PACKET_CONTINUATION (take rc (buffer (out_msg s)))) = ST_OK")
      case False
      then have "st \<noteq> ST_OK" "rc' = rc" "s' = s1"
        using Cons.prems(4) True wf(1) so(1)
        by (auto simp: i2c_msg_get_asd_i2c_msg_def ans simp flip: a_def)
      then show ?thesis
        using so len Cons.prems(3) by (intro exI [of _ "[take rc (buffer (out_msg s))]"]) simp
    next
      case ok: True
      define s2 where "s2 = put_bytes (bus_answer ack (ms ! i)) 0
          (s1\<lparr>out_msg := (out_msg s1)\<lparr>buffer := replicate MAX_DATA_SIZE 0\<rparr>\<rparr>)"
      have z: "out_ok h (s1\<lparr>out_msg := (out_msg s1)\<lparr>buffer := replicate MAX_DATA_SIZE 0\<rparr>\<rparr>)"
        using so(3) by (simp add: out_ok_def)
      have fit: "0 + length (bus_answer ack (ms ! i)) \<le> 3000" using an(3) [of ack] an(4) by simp
      note pb = put_bytes_ok [OF z fit, folded s2_def]
      have l: "answer_loop env (Some ms) ack is a (length (bus_answer ack (ms ! i))) s2 = (st, rc', s')"
        using Cons.prems(4) True wf(1) so(1) ok
        by (simp add: i2c_msg_get_asd_i2c_msg_def ans s2_def flip: a_def)
      obtain pls where p: "client s' = (client s2)\<lparr>sent := sent (client s2) @ map (reply h ASD_PACKET_CONTINUATION) pls\<rparr>"
        "\<forall>pl \<in> set pls. length pl \<le> 3000" "out_ok h s'" "rc' \<le> 3000" "rest_same s2 s'"
        "st = ST_OK \<longrightarrow> concat pls @ take rc' (buffer (out_msg s')) =
           take (length (bus_answer ack (ms ! i))) (buffer (out_msg s2)) @ concat (map (\<lambda>i. bus_answer ack (ms ! i)) is)"
        using Cons.IH [OF _ pb(1) _ l] Cons.prems(1) fit by auto
      show ?thesis
        using p so pb len
        by (intro exI [of _ "take rc (buffer (out_msg s)) # pls"]) (simp add: rest_same_def)
    qed
  qed
qed
section \<open>What an I2C packet sends\<close>

text \<open>
  The packets sent on behalf of a request: answers to it, and the two error answers of a bus selection,
  whose origin and tag are those of \<open>packet_as_header\<close>.
\<close>

definition good_packet :: "'o i2c_env \<Rightarrow> message_header \<Rightarrow> u8 list \<Rightarrow> bool" where
  "good_packet env h pk \<longleftrightarrow>
     (\<exists>payload. length payload \<le> MAX_DATA_SIZE \<and>
        (pk = reply h ASD_SUCCESS payload \<or> pk = reply h ASD_PACKET_CONTINUATION payload)) \<or>
     (\<exists>e. e \<in> {ASD_FAILURE_REMOVE_I2C_LOCK, ASD_FAILURE_PROCESS_I2C_LOCK} \<and>
        pk = encode_header ((packet_as_header env)\<lparr>mtype := 1, size_lsb := 0, size_msb := 0, cmd_stat := e\<rparr>))"

definition grows :: "'o i2c_env \<Rightarrow> message_header \<Rightarrow> ('d, 't, 'o) i2c_engine \<Rightarrow> ('d, 't, 'o) i2c_engine \<Rightarrow> bool" where
  "grows env h s s' \<longleftrightarrow> fixed_part s' = fixed_part s \<and> in_msg s' = in_msg s \<and> jtag_handler s' = jtag_handler s \<and> jtag_dev s' = jtag_dev s \<and>
     (\<exists>pks. client s' = (client s)\<lparr>sent := sent (client s) @ pks\<rparr> \<and> list_all (good_packet env h) pks)"

lemma grows_refl [simp]: "grows env h s s"
  by (auto simp: grows_def intro: exI [of _ "[]"])

lemma grows_trans: "\<lbrakk>grows env h s t; grows env h t u\<rbrakk> \<Longrightarrow> grows env h s u"
  by (fastforce simp: grows_def)

lemma growsI:
  assumes "fixed_part s' = fixed_part s" "in_msg s' = in_msg s" "jtag_handler s' = jtag_handler s" "jtag_dev s' = jtag_dev s"
    and "client s' = (client s)\<lparr>sent := sent (client s) @ pks\<rparr>" "list_all (good_packet env h) pks"
  shows "grows env h s s'"
  using assms by (auto simp: grows_def)

lemma grows_same:
  assumes "fixed_part s' = fixed_part s" "in_msg s' = in_msg s" "jtag_handler s' = jtag_handler s" "jtag_dev s' = jtag_dev s" "client s' = client s"
  shows "grows env h s s'"
  using assms by (intro growsI [where pks = "[]"]) simp_all

text \<open>The calls on a bus change nothing that is sent.\<close>

definition bus_only :: "('d, 't, 'o) i2c_engine \<Rightarrow> ('d, 't, 'o) i2c_engine \<Rightarrow> bool" where
  "bus_only s s' \<longleftrightarrow> in_msg s' = in_msg s \<and> jtag_handler s' = jtag_handler s \<and> jtag_dev s' = jtag_dev s \<and>
     client s' = client s \<and> out_msg s' = out_msg s \<and> fixed_part s' = fixed_part s"

lemma bus_only_refl [simp]: "bus_only s s"
  by (simp add: bus_only_def)

lemma bus_onlyD:
  assumes "bus_only s s'"
  shows "grows env h s s'" "out_ok h s \<Longrightarrow> out_ok h s'"
  using assms by (auto simp: bus_only_def out_ok_def intro: grows_same)

lemma bus_only_on:
  "on_i2c f s = (st, s') \<Longrightarrow> bus_only s s'" "on_i3c g s = (st, s') \<Longrightarrow> bus_only s s'"
  by (auto simp: on_i2c_def on_i3c_def set_cfg_def bus_only_def split: prod.splits)

lemma bus_only_flock: "dev_flock env bus lop s = (st, s') \<Longrightarrow> bus_only s s'"
  by (auto simp: dev_flock_def split: bus_config_type.splits dest: bus_only_on)

lemma bus_error_grows:
  assumes "length (i2c_send_junk env) = MAX_PACKET_SIZE"
    and "e \<in> {ASD_FAILURE_REMOVE_I2C_LOCK, ASD_FAILURE_PROCESS_I2C_LOCK}"
  shows "grows env h s (bus_error env e s)" "out_ok h s \<Longrightarrow> out_ok h (bus_error env e s)"
proof -
  let ?pk = "encode_header ((packet_as_header env)\<lparr>mtype := 1, size_lsb := 0, size_msb := 0, cmd_stat := e\<rparr>)"
  have n: "get_message_size \<lparr>header = (packet_as_header env)\<lparr>mtype := 1, size_lsb := 0, size_msb := 0, cmd_stat := e\<rparr>,
          buffer = replicate MAX_DATA_SIZE 0\<rparr> = 0"
    by (simp add: get_message_size_def')
  have c: "client (bus_error env e s) = (client s)\<lparr>sent := sent (client s) @ [?pk]\<rparr>"
    using assms(1) n by (simp add: bus_error_def send_error_message_def send_response_bytes transmit_def)
  have "good_packet env h ?pk" using assms(2) unfolding good_packet_def by blast
  then show "grows env h s (bus_error env e s)"
    by (intro growsI [where pks = "[?pk]"] c) (simp_all add: bus_error_def)
  show "out_ok h s \<Longrightarrow> out_ok h (bus_error env e s)" by (simp add: bus_error_def out_ok_def)
qed

lemma move_lock_grows:
  assumes "length (i2c_send_junk env) = MAX_PACKET_SIZE" "move_lock env bus s = (s', go)"
  shows "grows env h s s'" "out_ok h s \<Longrightarrow> out_ok h s'"
proof -
  have "grows env h s s' \<and> (out_ok h s \<longrightarrow> out_ok h s')"
  proof (cases "default_bus (bus_cfg s) = bus")
    case True
    then show ?thesis using assms(2) by (simp add: move_lock_def)
  next
    case False
    obtain st1 s1 where l1: "dev_flock env (default_bus (bus_cfg s)) LOCK_UN s = (st1, s1)" by fastforce
    define s2 where "s2 = (if st1 \<noteq> ST_OK then bus_error env ASD_FAILURE_REMOVE_I2C_LOCK s1 else s1)"
    obtain st3 s3 where l3: "dev_flock env bus LOCK_EX s2 = (st3, s3)" by fastforce
    have "s' = (if st3 \<noteq> ST_OK then bus_error env ASD_FAILURE_PROCESS_I2C_LOCK s3 else s3)"
      using assms(2) False by (auto simp: move_lock_def Let_def l1 l3 s2_def [symmetric] split: if_splits)
    moreover have "grows env h s s1" "out_ok h s \<longrightarrow> out_ok h s1" using bus_onlyD [OF bus_only_flock [OF l1]] by auto
    moreover have "grows env h s1 s2" "out_ok h s1 \<longrightarrow> out_ok h s2"
      using bus_error_grows [OF assms(1), of ASD_FAILURE_REMOVE_I2C_LOCK h s1] by (auto simp: s2_def)
    moreover have "grows env h s2 s3" "out_ok h s2 \<longrightarrow> out_ok h s3" using bus_onlyD [OF bus_only_flock [OF l3]] by auto
    ultimately show ?thesis
      using bus_error_grows [OF assms(1), of ASD_FAILURE_PROCESS_I2C_LOCK h s3] by (auto intro: grows_trans)
  qed
  then show "grows env h s s'" "out_ok h s \<Longrightarrow> out_ok h s'" by auto
qed

lemma bus_select_grows:
  assumes "length (i2c_send_junk env) = MAX_PACKET_SIZE" "do_bus_select_command env s p = (st, s', p')"
  shows "grows env h s s'" "out_ok h s \<Longrightarrow> out_ok h s'"
proof -
  have "grows env h s s' \<and> (out_ok h s \<longrightarrow> out_ok h s')"
  proof (cases "get_packet_data p 1")
    case None
    then show ?thesis using assms(2) by (simp add: do_bus_select_command_def)
  next
    case (Some r)
    obtain d q where r: "r = (d, q)" by (cases r)
    obtain s1 go where m: "move_lock env (d ! 0) s = (s1, go)" by fastforce
    note mg = move_lock_grows [OF assms(1) m]
    show ?thesis
    proof (cases go)
      case False
      then show ?thesis
        using assms(2) Some r mg by (auto simp: do_bus_select_command_def Let_def m)
    next
      case True
      define bs where "bs = (case bus_type s1 (d ! 0) of
                     BUS_CONFIG_I2C \<Rightarrow> on_i2c (i2c_bus_select (bus_kernel env) (d ! 0)) s1
                   | BUS_CONFIG_I3C \<Rightarrow> on_i3c (i3c_bus_select (bus_kernel env) (d ! 0)) s1
                   | BUS_CONFIG_NOT_ALLOWED \<Rightarrow> (ST_ERR, s1))"
      obtain st2 s2 where b: "bs = (st2, s2)" by fastforce
      have "bus_only s1 s2"
        using b unfolding bs_def by (auto split: bus_config_type.splits dest: bus_only_on)
      moreover have "s' = s2"
        using assms(2) Some r True b unfolding bs_def by (simp add: do_bus_select_command_def Let_def m)
      ultimately show ?thesis using bus_onlyD [of s1 s2] mg by (auto intro: grows_trans [of env h s s1])
    qed
  qed
  then show "grows env h s s'" "out_ok h s \<Longrightarrow> out_ok h s'" by auto
qed
definition linv :: "message_header \<Rightarrow> ('d, 't, 'o) i2c_loop_state \<Rightarrow> bool" where
  "linv h x = (case x of (s, p, rc, b, pe, sp) \<Rightarrow> out_ok h s \<and> packet_ok p \<and> rc \<le> MAX_DATA_SIZE \<and>
     (\<exists>ms. b = Some ms \<and> list_all wf_msg ms))"

text \<open>One round neither faults nor leaves these bounds.\<close>

definition good_round :: "'o i2c_env \<Rightarrow> message_header \<Rightarrow> ('d, 't, 'o) i2c_loop_state
    \<Rightarrow> ('d, 't, 'o) i2c_loop_state outcome \<Rightarrow> bool" where
  "good_round env h x m \<longleftrightarrow> (\<exists>st x'. m = Some (st, x') \<and> linv h x' \<and> grows env h (fst x) (fst x'))"

lemma nibble: "unat (cmd AND 0xf :: u8) \<le> 15"
proof -
  have "cmd AND 0xf = take_bit 4 cmd" by (simp add: take_bit_eq_mask mask_eq_exp_minus_1)
  then show ?thesis using take_bit_nat_less_exp [of 4 "unat cmd"] by (simp add: unsigned_take_bit_eq)
qed

lemma wf_copy:
  assumes "unat (i2c_length a) \<le> 15" "length (i2c_buffer a) = 15"
  shows "wf_msg (copy_asd_to_i2c a)"
  using assms by (simp add: wf_msg_def copy_asd_to_i2c_def unsigned_ucast_eq take_bit_nat_eq_self)

lemma wf_fill: "list_all wf_msg (fill_bufs f ms) = list_all wf_msg ms"
proof -
  have "wf_msg ((fill_bufs f ms) ! i) = wf_msg (ms ! i)" if "i < length ms" for i
    using that by (simp add: fill_bufs_def Let_def wf_msg_def)
  moreover have "length (fill_bufs f ms) = length ms" by (simp add: fill_bufs_def)
  ultimately show ?thesis by (simp add: list_all_length)
qed

lemma command_good:
  assumes "length (i2c_send_junk env) = MAX_PACKET_SIZE" "length (i2c_buffer (msg_junk env)) = 15" "linv h x"
  shows "good_round env h x (i2c_command env cmd x)"
proof -
  obtain s p rc ms pe sp where x: "x = (s, p, rc, Some ms, pe, sp)"
    and inv: "out_ok h s" "packet_ok p" "rc \<le> 3000" "list_all wf_msg ms"
    using assms(3) by (cases x) (auto simp: linv_def)
  obtain st1 s1 p1 where sel: "do_bus_select_command env s p = (st1, s1, p1)" by (metis prod_cases3)
  obtain st2 p2 where clk: "do_set_sclk_command s p = (st2, p2)" by fastforce
  have rd: "\<exists>st stop ms' p'. do_read_command env cmd (Some ms) p = Some (st, stop, Some ms', p') \<and> packet_ok p' \<and>
      list_all wf_msg ms'"
    using inv assms(2) nibble [of cmd]
    by (auto simp: do_read_command_def i2c_msg_add_def Let_def intro!: wf_copy split: option.split
        dest: get_packet_data_ok(2))
  have wr: "\<exists>st stop ms' p'. do_write_command env cmd (Some ms) p = Some (st, stop, Some ms', p') \<and> packet_ok p' \<and>
      list_all wf_msg ms'"
  proof (cases "get_packet_data p 1")
    case None
    then show ?thesis using inv by (auto simp: do_write_command_def intro: exI [of _ False])
  next
    case (Some r)
    obtain d q where r: "r = (d, q)" by (cases r)
    have q: "packet_ok q" using get_packet_data_ok(2) [OF Some [unfolded r] inv(2)] .
    show ?thesis
    proof (cases "get_packet_data q (unat (cmd AND 0xf))")
      case None
      then show ?thesis using Some r inv q by (simp add: do_write_command_def)
    next
      case g: (Some r')
      obtain bs q' where r': "r' = (bs, q')" by (cases r')
      note g' = get_packet_data_ok [OF g [unfolded r'] q]
      show ?thesis
        using Some r g r' inv g'(1,2) assms(2) nibble [of cmd]
        by (auto simp: do_write_command_def i2c_msg_add_def Let_def intro!: wf_copy)
    qed
  qed
  have pk: "packet_ok p1" "packet_ok p2"
    using aheadD(4) [OF bus_select_ahead [OF sel] inv(2)] aheadD(4) [OF sclk_ahead [OF clk] inv(2)] by simp_all
  show ?thesis
    unfolding good_round_def x i2c_command_def prod.case
    using rd wr pk inv bus_select_grows [OF assms(1) sel] sel clk
    by (auto simp: linv_def)
qed

lemma flush_good:
  assumes "length (i2c_send_junk env) = MAX_PACKET_SIZE" "linv h x"
  shows "good_round env h x (i2c_flush env x)"
proof -
  obtain s p rc ms pe sp where x: "x = (s, p, rc, Some ms, pe, sp)"
    and inv: "out_ok h s" "packet_ok p" "rc \<le> 3000" "list_all wf_msg ms"
    using assms(2) by (cases x) (auto simp: linv_def)
  show ?thesis
  proof (cases "pe \<and> (used p = total p \<or> sp)")
    case False
    then show ?thesis using assms(2) by (auto simp: good_round_def i2c_flush_def x)
  next
    case True
    obtain st1 ms1 s1 where rw: "do_read_write env ms s = (st1, ms1, s1)" by (metis prod_cases3)
    have s1: "bus_only s s1" "list_all wf_msg ms1"
      using rw inv(4)
      by (auto simp: do_read_write_def i2c_read_write_def i3c_read_write_def bus_only_def set_cfg_def wf_fill
          split: bus_config_type.splits prod.splits if_splits)
    obtain st2 rc2 s2 where b: "build_responses env (Some ms1) (st1 = ST_OK) rc s1 = (st2, rc2, s2)"
      by (metis prod_cases3)
    have al: "answer_loop env (Some ms1) (st1 = ST_OK) [0 ..< length ms1] (msg_junk env) rc s1 = (st2, rc2, s2)"
      using b by (simp add: build_responses_def i2c_msg_get_count_def)
    have "\<forall>i \<in> set [0 ..< length ms1]. i < length ms1 \<and> wf_msg (ms1 ! i)"
      using s1(2) by (simp add: list_all_length)
    from answer_loop_ok [OF assms(1) this bus_onlyD(2) [OF s1(1) inv(1)] inv(3) al]
    obtain pls where a: "client s2 = (client s1)\<lparr>sent := sent (client s1) @ map (reply h ASD_PACKET_CONTINUATION) pls\<rparr>"
      "\<forall>pl \<in> set pls. length pl \<le> 3000" "out_ok h s2" "rc2 \<le> 3000" "rest_same s1 s2" by auto
    have "list_all (good_packet env h) (map (reply h ASD_PACKET_CONTINUATION) pls)"
      using a(2) by (auto simp: list_all_iff good_packet_def)
    then have "grows env h s1 s2"
      using a(1,5) by (intro growsI) (simp_all add: rest_same_def)
    then have g: "grows env h s s2" using bus_onlyD(1) [OF s1(1)] grows_trans by blast
    have "i2c_flush env x = (if st2 \<noteq> ST_OK then Some (st2, s2, p, rc2, Some ms1, False, False)
        else Some (ST_OK, s2, p, rc2, Some [], False, False))"
      using True by (simp add: i2c_flush_def x rw b i2c_msg_reset_def)
    then show ?thesis
      using g a(3,4) inv(2) s1(2) by (auto simp: good_round_def x linv_def)
  qed
qed
lemma loop_good:
  assumes "length (i2c_send_junk env) = MAX_PACKET_SIZE" "length (i2c_buffer (msg_junk env)) = 15" "linv h x"
  shows "good_round env h x (i2c_loop env x)"
  using assms
proof (induction env x rule: i2c_loop.induct)
  case (1 env x)
  obtain s p rc b pe sp where x: "x = (s, p, rc, b, pe, sp)" by (cases x)
  show ?case
  proof (cases "used p < total p")
    case False
    then have "i2c_loop env x = Some (ST_OK, x)" by (simp add: x i2c_loop.simps)
    then show ?thesis using 1(4) by (auto simp: good_round_def)
  next
    case True
    have ok: "packet_ok p" using 1(4) by (simp add: x linv_def)
    obtain c q where g: "get_packet_data p 1 = Some (c, q)"
      using get_packet_data_byte [OF True ok] by auto
    let ?y = "(s, q, rc, b, pe, sp)"
    have y: "linv h ?y" using 1(4) get_packet_data_ok(2) [OF g ok] by (simp add: x linv_def)
    obtain st1 x1 where c1: "i2c_command env (c ! 0) ?y = Some (st1, x1)" "linv h x1" "grows env h s (fst x1)"
      using command_good [OF 1(2,3) y, of "c ! 0"] by (auto simp: good_round_def)
    have "\<exists>st2 x2. i2c_step env x = Some (st2, x2) \<and> linv h x2 \<and> grows env h s (fst x2)"
    proof (cases "st1 = ST_OK")
      case False
      then show ?thesis using g c1 by (auto simp: i2c_step_def x)
    next
      case True
      obtain st2 x2 where "i2c_flush env x1 = Some (st2, x2)" "linv h x2" "grows env h (fst x1) (fst x2)"
        using flush_good [OF 1(2) c1(2)] unfolding good_round_def by blast
      moreover from this True have "i2c_step env x = Some (st2, x2)" using g c1(1) by (simp add: i2c_step_def x)
      ultimately show ?thesis using c1(3) grows_trans by blast
    qed
    then obtain st2 x2 where s2: "i2c_step env x = Some (st2, x2)" "linv h x2" "grows env h s (fst x2)" by blast
    have l: "i2c_loop env x = then_ok (i2c_step env x) (i2c_loop env)"
      using True by (subst i2c_loop.simps) (simp add: x)
    show ?thesis
    proof (cases "st2 = ST_OK")
      case False
      then show ?thesis using l s2 by (auto simp: good_round_def x)
    next
      case ok2: True
      have "i2c_step env x = Some (ST_OK, x2)" using s2(1) ok2 by simp
      from 1(1) [OF x [symmetric] refl refl refl refl True this 1(2,3) s2(2)]
      obtain st3 x3 where "i2c_loop env x2 = Some (st3, x3)" "linv h x3" "grows env h (fst x2) (fst x3)"
        unfolding good_round_def by blast
      moreover have "grows env h (fst x) (fst x3)" if "grows env h (fst x2) (fst x3)"
        using that s2(3) grows_trans unfolding x fst_conv by blast
      ultimately show ?thesis using l s2(1) ok2 unfolding good_round_def by (intro exI [of _ st3] exI [of _ x3]) simp
    qed
  qed
qed

section \<open>Properties\<close>

lemma i2c_packet_sends:
  assumes "length (i2c_send_junk env) = MAX_PACKET_SIZE" "length (i2c_buffer (msg_junk env)) = 15"
    and "length (buffer m) = MAX_DATA_SIZE"
  shows "\<exists>st s' pks. process_i2c_messages env m s = Some (st, s') \<and> fixed_part s' = fixed_part s \<and>
    (get_message_size m \<noteq> -1 \<longrightarrow> length (buffer (out_msg s')) = MAX_DATA_SIZE) \<and> in_msg s' = in_msg s \<and>
    jtag_handler s' = jtag_handler s \<and> jtag_dev s' = jtag_dev s \<and>
    client s' = (client s)\<lparr>sent := sent (client s) @ pks\<rparr> \<and> list_all (good_packet env (header m)) pks \<and>
    (st = ST_OK \<longrightarrow> (\<exists>payload. length payload \<le> MAX_DATA_SIZE \<and> pks \<noteq> [] \<and>
       last pks = reply (header m) ASD_SUCCESS payload))"
proof (cases "get_message_size m = -1")
  case True
  then show ?thesis
    by (intro exI [of _ ST_ERR] exI [of _ s] exI [of _ "[]"]) (simp add: process_i2c_messages_def)
next
  case False
  let ?h = "header m"
  define n where "n = nat (get_message_size m)"
  have n: "n \<le> length (buffer m)" using get_message_size_range [of m] False assms(3) by (auto simp: n_def)
  define s0 where "s0 = s\<lparr>out_msg := \<lparr>header = ?h, buffer = replicate MAX_DATA_SIZE 0\<rparr>\<rparr>"
  let ?x = "(s0, packet_of (buffer m) n, 0, Some [], False, False)"
  have "linv ?h ?x" using packet_of_ok [OF n] by (simp add: linv_def out_ok_def s0_def)
  from loop_good [OF assms(1,2) this]
  obtain st1 x1 where "i2c_loop env ?x = Some (st1, x1)" "linv ?h x1" "grows env ?h s0 (fst x1)"
    unfolding good_round_def by auto
  moreover obtain s1 p1 rc y where "x1 = (s1, p1, rc, y)" by (cases x1)
  ultimately have l: "i2c_loop env ?x = Some (st1, s1, p1, rc, y)" "out_ok ?h s1" "rc \<le> 3000" "grows env ?h s0 s1"
    by (simp_all add: linv_def split: prod.splits)
  then obtain pks where g: "fixed_part s1 = fixed_part s" "in_msg s1 = in_msg s" "jtag_handler s1 = jtag_handler s" "jtag_dev s1 = jtag_dev s"
    "client s1 = (client s)\<lparr>sent := sent (client s) @ pks\<rparr>" "list_all (good_packet env ?h) pks"
    by (auto simp: grows_def s0_def)
  have pr: "process_i2c_messages env m s = Some (if st1 = ST_OK then send_out env ASD_SUCCESS rc s1 else (st1, s1))"
    using False l(1) by (simp add: process_i2c_messages_def i2c_msg_initialize_def Let_def n_def s0_def)
  show ?thesis
  proof (cases "st1 = ST_OK")
    case False
    then show ?thesis using pr g l(2) by (intro exI [of _ st1] exI [of _ s1] exI [of _ pks]) (simp add: out_ok_def)
  next
    case True
    let ?pl = "take rc (buffer (out_msg s1))"
    obtain s2 where so: "send_out env ASD_SUCCESS rc s1 = (send_function (client s1) (sent (client s1)) (reply ?h ASD_SUCCESS ?pl), s2)"
      "client s2 = (client s1)\<lparr>sent := sent (client s1) @ [reply ?h ASD_SUCCESS ?pl]\<rparr>" "rest_same s1 s2" "out_ok ?h s2"
      using send_out_bytes [OF assms(1) l(2,3), of ASD_SUCCESS] by auto
    have len: "length ?pl \<le> 3000" using l(3) by (simp add: min.coboundedI2)
    then have "good_packet env ?h (reply ?h ASD_SUCCESS ?pl)" unfolding good_packet_def by blast
    moreover have "\<exists>payload. length payload \<le> 3000 \<and> reply ?h ASD_SUCCESS ?pl = reply ?h ASD_SUCCESS payload"
      using len by blast
    ultimately show ?thesis
      using True pr so g len
      by (intro exI [of _ "send_function (client s1) (sent (client s1)) (reply ?h ASD_SUCCESS ?pl)"] exI [of _ s2]
          exI [of _ "pks @ [reply ?h ASD_SUCCESS ?pl]"]) (auto simp: rest_same_def out_ok_def)
  qed
qed

text \<open>
  An I2C packet is always processed to its end, whatever it holds: nothing faults, and the JTAG side
  and the received packet are left alone. Everything sent is an answer to the request with its exact size,
  at most 3000 bytes, or a bare error answer of a bus selection, which does not
  carry the origin and the tag of the request. A packet that succeeds is closed by an
  answer without the continuation flag.
\<close>

theorem i2c_packet_answers:
  assumes "length (i2c_send_junk env) = MAX_PACKET_SIZE" "length (i2c_buffer (msg_junk env)) = 15"
    and "length (buffer m) = MAX_DATA_SIZE"
  shows "\<exists>st s' pks. process_i2c_messages env m s = Some (st, s') \<and> in_msg s' = in_msg s \<and>
    jtag_handler s' = jtag_handler s \<and> jtag_dev s' = jtag_dev s \<and>
    client s' = (client s)\<lparr>sent := sent (client s) @ pks\<rparr> \<and> list_all (good_packet env (header m)) pks \<and>
    (st = ST_OK \<longrightarrow> (\<exists>payload. length payload \<le> MAX_DATA_SIZE \<and> pks \<noteq> [] \<and>
       last pks = reply (header m) ASD_SUCCESS payload))"
  using i2c_packet_sends [OF assms] by blast

text \<open>
  C21. The answers to the messages of one transfer leave in their order: the payloads sent with the continuation
  flag and what remains in the response are what was there before and then, for every message, its
  command, its length with the acknowledge flag, and the bytes read. No answer is split over two packets
  or lost, and no packet exceeds the maximum.
\<close>

theorem i2c_answers_in_order:
  assumes "length (i2c_send_junk env) = MAX_PACKET_SIZE" "list_all wf_msg ms"
    and "length (buffer (out_msg s)) = MAX_DATA_SIZE" "rc \<le> MAX_DATA_SIZE"
    and "build_responses env (Some ms) ack rc s = (st, rc', s')"
  shows "\<exists>pls. client s' = (client s)\<lparr>sent := sent (client s) @
      map (reply (header (out_msg s)) ASD_PACKET_CONTINUATION) pls\<rparr> \<and>
    (\<forall>pl \<in> set pls. length pl \<le> MAX_DATA_SIZE) \<and> rc' \<le> MAX_DATA_SIZE \<and>
    (st = ST_OK \<longrightarrow> concat pls @ take rc' (buffer (out_msg s')) =
       take rc (buffer (out_msg s)) @ concat (map (bus_answer ack) ms))"
proof -
  have l: "answer_loop env (Some ms) ack [0 ..< length ms] (msg_junk env) rc s = (st, rc', s')"
    using assms(5) by (simp add: build_responses_def i2c_msg_get_count_def)
  have wf: "\<forall>i \<in> set [0 ..< length ms]. i < length ms \<and> wf_msg (ms ! i)"
    using assms(2) by (simp add: list_all_length)
  have ok: "out_ok (header (out_msg s)) s" using assms(3) by (simp add: out_ok_def)
  have all: "map (\<lambda>i. bus_answer ack (ms ! i)) [0 ..< length ms] = map (bus_answer ack) ms"
    by (rule nth_equalityI) simp_all
  obtain pls where p: "client s' = (client s)\<lparr>sent := sent (client s) @
      map (reply (header (out_msg s)) ASD_PACKET_CONTINUATION) pls\<rparr>" "\<forall>pl \<in> set pls. length pl \<le> MAX_DATA_SIZE"
    "rc' \<le> MAX_DATA_SIZE" "st = ST_OK \<longrightarrow> concat pls @ take rc' (buffer (out_msg s')) =
       take rc (buffer (out_msg s)) @ concat (map (\<lambda>i. bus_answer ack (ms ! i)) [0 ..< length ms])"
    by (insert answer_loop_ok [OF assms(1) wf ok assms(4) l], elim exE conjE) (rule that; assumption)
  show ?thesis
    by (rule exI [of _ pls]) (intro conjI p(1-3) p(4) [unfolded all])
qed

text \<open>
  Moving from one I2C bus to another releases and takes the lock on the device of the old bus, which is
  then closed: whatever the locking calls answer, the new device is opened last and
  never locked, although the command is meant to lock the selected bus.
\<close>

theorem bus_select_locks_old_device:
  assumes "get_packet_data p 1 = Some ([bus], p')"
    and "bus_type s (default_bus (bus_cfg s)) = BUS_CONFIG_I2C" "bus_type s bus = BUS_CONFIG_I2C"
    and "bus \<noteq> default_bus (bus_cfg s)" "bus \<noteq> i2c_bus (i2c_handler (buses s))" "enable_i2c (bus_cfg s)"
    and "i2c_driver_handle (i2c_handler (buses s)) = fd" "fd \<noteq> NO_HANDLE"
    and "os_flock (bus_kernel env) fd LOCK_UN (bus_dev (buses s)) = (True, w1)"
    and "os_flock (bus_kernel env) fd LOCK_EX w1 = (True, w2)"
    and "os_open_i2c (bus_kernel env) bus (os_close (bus_kernel env) fd w2) = (fd', w4)" "fd' \<noteq> NO_HANDLE"
  shows "\<exists>s'. do_bus_select_command env s p = (ST_OK, s', p') \<and> bus_dev (buses s') = w4 \<and>
    i2c_handler (buses s') = \<lparr>i2c_bus = bus, i2c_driver_handle = fd'\<rparr> \<and> default_bus (bus_cfg s') = bus \<and>
    client s' = client s"
proof -
  have allowed: "i2c_bus_allowed (bus_cfg s) bus"
    using assms(3) by (auto simp: bus_type_def i2c_bus_allowed_def list_ex_iff find_Some_iff set_conv_nth split: option.splits)
  define s1 where "s1 w = s\<lparr>buses := (buses s)\<lparr>bus_dev := w\<rparr>\<rparr>" for w
  have s1: "bus_cfg (s1 w) = bus_cfg s" "bus_type (s1 w) = bus_type s" "buses (s1 w) = (buses s)\<lparr>bus_dev := w\<rparr>"
    "client (s1 w) = client s" "set_cfg (bus_cfg s) (s1 w) = s1 w" "(s1 w)\<lparr>buses := (buses s)\<lparr>bus_dev := w'\<rparr>\<rparr> = s1 w'" for w w'
    by (auto simp: s1_def bus_cfg_def bus_type_def set_cfg_def fun_eq_iff split: option.split)
  have set0: "set_cfg (bus_cfg s) s0 = s0" if "asd_cfg s0 = asd_cfg s" for s0 :: "('a, 'b, 'c) i2c_engine"
    using that by (simp add: set_cfg_def bus_cfg_def)
  have un: "dev_flock env (default_bus (bus_cfg s)) LOCK_UN s = (ST_OK, s1 w1)"
    using assms(2,7,9) set0 [of "s1 w1"]
    by (simp add: dev_flock_def on_i2c_def i2c_bus_flock_def s1_def)
  have ex: "dev_flock env bus LOCK_EX (s1 w1) = (ST_OK, s1 w2)"
    using assms(3,7,10) set0 [of "s1 w2"] by (simp add: dev_flock_def on_i2c_def i2c_bus_flock_def s1)
  have "move_lock env bus s = (s1 w2, True)"
    using assms(4) un ex by (simp add: move_lock_def)
  then show ?thesis
    using assms(1,3,5-8,11,12) allowed
    by (simp add: do_bus_select_command_def s1 on_i2c_def i2c_bus_select_def i2c_open_driver_def i2c_close_driver_def
        i2c_enabled_def) (simp add: set_cfg_def bus_cfg_def s1_def)
qed

section \<open>A concrete engine\<close>

text \<open>The engine with the kernel of \<^const>\<open>demo_os\<close>, on bus 4 with descriptor 4.\<close>

definition demo_i2c_env :: "int list i2c_env" where
  "demo_i2c_env = \<lparr>bus_kernel = demo_os\<lparr>os_open_i2c := (\<lambda>bus. new_file)\<rparr>, i2c_send_junk = replicate 3004 7,
     msg_junk = \<lparr>i2c_read = False, i2c_force_stop = False, i2c_address = 0, i2c_length = 0, i2c_buffer = replicate 15 7\<rparr>,
     packet_as_header = decode_header [0, 0, 0, 0]\<rparr>"

definition demo_i2c_state :: "(aspeed_jtag, unit, int list) i2c_engine" where
  "demo_i2c_state = \<lparr>asd_cfg = demo_config,
     in_msg = \<lparr>read_index = 0, in_data_size = 0, read_state = READ_STATE_INITIAL, imsg = zero_message\<rparr>,
     out_msg = zero_message, jtag_handler = fresh_handler, jtag_dev = reset_device,
     target_handler = (),
     buses = \<lparr>i2c_handler = \<lparr>i2c_bus = 4, i2c_driver_handle = 4\<rparr>, i3c_handler = I3CHandler 0, bus_dev = [4, 1]\<rparr>,
     vprobe_handler = vProbeHandler (replicate 3000 7), handlers_initialized = True, prdy_timeout = 1,
     jtag_chain_mode = JTAG_CHAIN_SELECT_MODE_SINGLE, bmc_version = [], bmc_version_size = 0,
     xdp_fail_enable = True, client = ok_transport\<rparr>"

lemma demo_i2c_simps [simp]:
  "i2c_send_junk demo_i2c_env = replicate 3004 7" "length (i2c_buffer (msg_junk demo_i2c_env)) = 15"
  "buffer (out_msg demo_i2c_state) = replicate 3000 0" "client demo_i2c_state = ok_transport"
  by (simp_all add: demo_i2c_env_def demo_i2c_state_def zero_message_def)

theorem bus_select_locks_old_device_witness:
  "\<exists>s'. do_bus_select_command demo_i2c_env demo_i2c_state (packet_of [9] 1) = (ST_OK, s', (packet_of [9] 1)\<lparr>used := 1\<rparr>) \<and>
     bus_dev (buses s') = [4, 1]"
proof -
  have g: "get_packet_data (packet_of [9] 1) 1 = Some ([9], (packet_of [9] 1)\<lparr>used := 1\<rparr>)"
    by (simp add: get_packet_data_def packet_of_def)
  have t: "bus_type demo_i2c_state (default_bus (bus_cfg demo_i2c_state)) = BUS_CONFIG_I2C"
    "bus_type demo_i2c_state 9 = BUS_CONFIG_I2C" "9 \<noteq> default_bus (bus_cfg demo_i2c_state)"
    "9 \<noteq> i2c_bus (i2c_handler (buses demo_i2c_state))" "enable_i2c (bus_cfg demo_i2c_state)"
    "i2c_driver_handle (i2c_handler (buses demo_i2c_state)) = 4" "(4 :: int) \<noteq> -1"
    "os_flock (bus_kernel demo_i2c_env) 4 LOCK_UN (bus_dev (buses demo_i2c_state)) = (True, [4, 1])"
    "os_flock (bus_kernel demo_i2c_env) 4 LOCK_EX [4, 1] = (True, [4, 1])"
    "os_open_i2c (bus_kernel demo_i2c_env) 9 (os_close (bus_kernel demo_i2c_env) 4 [4, 1]) = (4, [4, 1])"
    by (simp_all add: bus_type_def bus_cfg_def demo_i2c_state_def demo_config_def map4 demo_i2c_env_def demo_os_def
        new_file_def)
  show ?thesis using bus_select_locks_old_device [OF g t(1-6) t(7) t(8-10) t(7)] by blast
qed

theorem i2c_packet_answers_witness:
  "\<exists>st s' pks. process_i2c_messages demo_i2c_env (packet_with [0x22, 0x41]) demo_i2c_state = Some (st, s') \<and>
     sent (client s') = pks \<and> list_all (good_packet demo_i2c_env (header (packet_with [0x22, 0x41]))) pks"
  using i2c_packet_answers [of demo_i2c_env "packet_with [0x22, 0x41]" demo_i2c_state]
  by (auto simp: ok_transport_def)

theorem i2c_answers_in_order_witness:
  "\<exists>rc' s'. build_responses demo_i2c_env (Some [\<lparr>im_addr = 0x20, im_rd = True, im_len = 2, im_buf = [5, 6]\<rparr>])
       True 0 demo_i2c_state = (ST_OK, rc', s') \<and> take rc' (buffer (out_msg s')) = [0x22, 0x82, 5, 6]"
proof -
  let ?ms = "[\<lparr>im_addr = 0x20, im_rd = True, im_len = 2, im_buf = [5, 6]\<rparr>] :: i2c_msg list"
  have m: "list_all wf_msg ?ms" "length (buffer (out_msg demo_i2c_state)) = 3000" by (simp_all add: wf_msg_def)
  obtain st rc' s' where b: "build_responses demo_i2c_env (Some ?ms) True 0 demo_i2c_state = (st, rc', s')"
    by (metis prod_cases3)
  have l: "st = ST_OK" "sent (client s') = []"
    using b by (auto simp: build_responses_def i2c_msg_get_count_def i2c_msg_get_asd_i2c_msg_def copy_i2c_to_asd_def
        put_bytes_def ok_transport_def split: if_splits)
  from i2c_answers_in_order [OF _ m _ b] l b show ?thesis by (auto simp: bus_answer_def ok_transport_def)
qed

end
