(* ===== verification/Asd_Msg.thy ===== *)
theory Asd_Msg
  imports Asd_I2c
begin

text \<open>
  The message engine of \<^verbatim>\<open>asd_msg.c\<close>: creating and freeing it, the version string, the agent control commands,
  the first initialization of the handlers, the dispatch of a packet, and the state machine that
  reads packets off a connection. The operations of the target are a parameter.
\<close>

abbreviation (input) "NUM_IN_FLIGHT_MESSAGES_SUPPORTED_CMD \<equiv> 3 :: u8"
abbreviation (input) "OBTAIN_DOWNSTREAM_VERSION_CMD \<equiv> 5 :: u8"
abbreviation (input) "MAX_DATA_SIZE_CMD \<equiv> 13 :: u8"
abbreviation (input) "SUPPORTED_JTAG_CHAINS_CMD \<equiv> 14 :: u8"
abbreviation (input) "SUPPORTED_I2C_BUSES_CMD \<equiv> 15 :: u8"
abbreviation (input) "SUPPORTED_REMOTE_PROBES_CMD \<equiv> 16 :: u8"
abbreviation (input) "REMOTE_PROBES_CONFIG_CMD \<equiv> 17 :: u8"
abbreviation (input) "LOOPBACK_CMD \<equiv> 18 :: u8"
abbreviation (input) "NUM_IN_FLIGHT_BUFFERS_TO_USE \<equiv> 20 :: u8"
abbreviation (input) "SUPPORTED_JTAG_CHAINS \<equiv> 2 :: u8"
abbreviation (input) "AGENT_CONFIG_TYPE_LOGGING \<equiv> 1 :: u8"
abbreviation (input) "AGENT_CONFIG_TYPE_JTAG_SETTINGS \<equiv> 3 :: u8"
abbreviation (input) "BMC_VERSION_MAX \<equiv> 120 :: nat"

abbreviation (input) "BROADCAST_MESSAGE_ORIGIN_ID \<equiv> 7 :: 3 word"

datatype ASD_EVENT = ASD_EVENT_PLRSTASSERT | ASD_EVENT_PLRSTDEASSRT | ASD_EVENT_PRDY_EVENT |
  ASD_EVENT_PWRRESTORE | ASD_EVENT_PWRFAIL | ASD_EVENT_XDP_PRESENT | ASD_EVENT_NONE

definition event_number :: "ASD_EVENT \<Rightarrow> u8" where
  "event_number e = (case e of ASD_EVENT_PLRSTASSERT \<Rightarrow> 1 | ASD_EVENT_PLRSTDEASSRT \<Rightarrow> 2 | ASD_EVENT_PRDY_EVENT \<Rightarrow> 3
     | ASD_EVENT_PWRRESTORE \<Rightarrow> 4 | ASD_EVENT_PWRFAIL \<Rightarrow> 5 | ASD_EVENT_XDP_PRESENT \<Rightarrow> 6 | ASD_EVENT_NONE \<Rightarrow> 7)"

text \<open>A polled descriptor with the events that were reported for it.\<close>

type_synonym pollfd = "int \<times> u16"

text \<open>The operations of the target handler that the packets do not reach; \<open>op_new\<close> is its allocation.\<close>

record 't target_admin =
  op_new :: "'t option"
  op_initialize :: "bool \<Rightarrow> 't \<Rightarrow> status \<times> 't"
  op_deinitialize :: "'t \<Rightarrow> status \<times> 't"
  op_xdp_present :: "'t \<Rightarrow> bool"
  op_get_fds :: "'t \<Rightarrow> status \<times> pollfd list"
  op_event :: "pollfd \<Rightarrow> 't \<Rightarrow> (status \<times> ASD_EVENT \<times> 't) option"

record ('d, 't, 'o) engine_env =
  jtag_env :: "('d, 't) asd_env"
  i2c_env_of :: "'o i2c_env"
  admin :: "'t target_admin"

section \<open>Writing to the response\<close>

definition set_out_size :: "8 word \<Rightarrow> 5 word \<Rightarrow> ('d, 't, 'o) i2c_engine \<Rightarrow> ('d, 't, 'o) i2c_engine" where
  "set_out_size lsb msb s = s\<lparr>out_msg := (out_msg s)\<lparr>header := (header (out_msg s))\<lparr>size_lsb := lsb, size_msb := msb\<rparr>\<rparr>\<rparr>"

definition add_out_size :: "8 word \<Rightarrow> ('d, 't, 'o) i2c_engine \<Rightarrow> ('d, 't, 'o) i2c_engine" where
  "add_out_size n s = set_out_size (size_lsb (header (out_msg s)) + n) (size_msb (header (out_msg s))) s"

definition send_error :: "('d, 't, 'o) engine_env \<Rightarrow> u8 \<Rightarrow> ('d, 't, 'o) i2c_engine \<Rightarrow> ('d, 't, 'o) i2c_engine" where
  "send_error env e s = s\<lparr>client := send_error_message (send_junk (jtag_env env)) (imsg (in_msg s)) e (client s)\<rparr>"

text \<open>A size that becomes a \<^verbatim>\<open>size_t\<close>.\<close>

definition size_t :: "int \<Rightarrow> nat" where
  "size_t n = nat (n mod 2 ^ 32)"

section \<open>The version string\<close>

definition asd_version :: "u8 list" where
  "asd_version = bytes_of ''ASD_BMC_v1.4.7'' @ [0]"

definition OPENBMC_V :: "u8 list" where
  "OPENBMC_V = bytes_of ''FW_VERSION''"

definition c_string :: "u8 list \<Rightarrow> u8 list" where
  "c_string = takeWhile (\<lambda>b. b \<noteq> 0)"

definition strstr :: "u8 list \<Rightarrow> u8 list \<Rightarrow> bool" where
  "strstr line pat = list_ex (\<lambda>i. take (length pat) (drop i (c_string line)) = pat) [0 ..< Suc (length (c_string line))]"

text \<open>The first double quote becomes the opening, every other a closing bracket.\<close>

fun mark_quotes :: "bool \<Rightarrow> u8 list \<Rightarrow> u8 list" where
  "mark_quotes first [] = []"
| "mark_quotes first (b # bs) =
     (if b = 34 \<and> first then 60 # mark_quotes False bs
      else if b = 34 then 62 # mark_quotes first bs
      else b # mark_quotes first bs)"

text \<open>
  The lines of the version file, with their line ends; \<^const>\<open>None\<close> is a file that does not open, and as
  the result an access beyond the version. A failing copy is not noticed, since \<^verbatim>\<open>memcpy_s\<close> never
  returns 1.
\<close>

fun version_lines :: "u8 list list \<Rightarrow> ('d, 't, 'o) i2c_engine \<Rightarrow> ('d, 't, 'o) i2c_engine outcome" where
  "version_lines [] s = Some (ST_ERR, s)"
| "version_lines (line # ls) s =
     (if strstr line OPENBMC_V then
        let skip = length OPENBMC_V + 1;
            n = int (length line) - int skip - 1;
            (_, v) = memcpy_s (bmc_version s) BMC_VERSION_MAX (Some (drop skip line)) (size_t n);
            s = s\<lparr>bmc_version_size := n\<rparr>
        in if n > int BMC_VERSION_MAX then None
           else Some (ST_OK, s\<lparr>bmc_version := mark_quotes True (take (nat n) v) @ drop (nat n) v\<rparr>)
      else version_lines ls s)"

definition read_openbmc_version :: "u8 list list option \<Rightarrow> ('d, 't, 'o) i2c_engine \<Rightarrow> ('d, 't, 'o) i2c_engine outcome" where
  "read_openbmc_version vfile s =
     (let s = s\<lparr>bmc_version := replicate BMC_VERSION_MAX 0, bmc_version_size := 0\<rparr>
      in case vfile of None \<Rightarrow> Some (ST_ERR, s) | Some ls \<Rightarrow> version_lines ls s)"

section \<open>Creating and freeing the engine\<close>

text \<open>
  \<open>garbage\<close> is the engine as allocated. A handler that cannot be created frees the others again, and
  the null pointer is returned; the result has a state for the calls made to the devices. What the
  allocations leave in the two bus handlers and the configuration text stays.
\<close>

definition asd_msg_free :: "('d, 't, 'o) engine_env \<Rightarrow> ('d, 't, 'o) i2c_engine \<Rightarrow> status \<times> ('d, 't, 'o) i2c_engine" where
  "asd_msg_free env s =
     (let (jtag_result, h, d) = JTAG_deinitialize (jtag_driver (jtag_env env)) (jtag_handler s) (jtag_dev s);
          s = s\<lparr>jtag_handler := h, jtag_dev := d\<rparr>;
          (i2c_result, s) = on_i2c (i2c_deinitialize (bus_kernel (i2c_env_of env))) s;
          (i3c_result, s) = on_i3c (i3c_deinitialize (bus_kernel (i2c_env_of env))) s;
          (target_result, s) = on_target (op_deinitialize (admin env)) s;
          vprobe_result = vProbe_deinitialize (vprobe_handler s)
      in (if jtag_result \<noteq> ST_OK \<or> i2c_result \<noteq> ST_OK \<or> target_result \<noteq> ST_OK \<or> vprobe_result \<noteq> ST_OK
          then ST_ERR else ST_OK, s))"

definition fresh_handlers :: "('d, 't, 'o) i2c_engine \<Rightarrow> ('d, 't, 'o) i2c_engine" where
  "fresh_handlers g = g\<lparr>jtag_handler := JTAGHandler (jtag_handler g),
     buses := (buses g)\<lparr>i2c_handler := I2CHandler (i2c_bus (i2c_handler (buses g))),
       i3c_handler := I3CHandler (i3c_bus (i3c_handler (buses g)))\<rparr>,
     vprobe_handler := vProbeHandler (probesConfig (vprobe_handler g))\<rparr>"

definition asd_msg_init :: "('d, 't, 'o) engine_env \<Rightarrow> bool \<Rightarrow> bool \<Rightarrow> u8 list list option \<Rightarrow> config
    \<Rightarrow> ('d, 't, 'o) i2c_engine \<Rightarrow> (bool \<times> ('d, 't, 'o) i2c_engine) option" where
  "asd_msg_init env args_valid exists vfile cfg garbage =
     (if \<not> args_valid \<or> exists then Some (False, garbage)
      else let s = fresh_handlers garbage
           in case op_new (admin env) of
                None \<Rightarrow>
                  let (_, h, d) = JTAG_deinitialize (jtag_driver (jtag_env env)) (jtag_handler s) (jtag_dev s)
                  in Some (False, s\<lparr>jtag_handler := h, jtag_dev := d\<rparr>)
              | Some t \<Rightarrow>
                  let s = s\<lparr>target_handler := t, asd_cfg := cfg, handlers_initialized := False,
                        in_msg := (in_msg s)\<lparr>read_state := READ_STATE_INITIAL, read_index := 0\<rparr>,
                        prdy_timeout := 0, jtag_chain_mode := JTAG_CHAIN_SELECT_MODE_SINGLE\<rparr>
                  in map_option (\<lambda>(_, s). (True, s)) (read_openbmc_version vfile s))"

section \<open>Agent control\<close>

text \<open>The answer to each command, after the first byte of the answer holds the command.\<close>

definition agent_i2c_buses :: "('d, 't, 'o) i2c_engine \<Rightarrow> ('d, 't, 'o) i2c_engine" where
  "agent_i2c_buses s =
     (if enable_i2c (bus_cfg s) \<or> enable_i3c (bus_cfg s) then
        let bs = map (\<lambda>i. bus_config_map (bus_cfg s) ! i)
              (filter (\<lambda>i. bus_config_types (bus_cfg s) ! i \<noteq> BUS_CONFIG_NOT_ALLOWED) [0 ..< MAX_IxC_BUSES])
        in set_out_size (of_nat (length bs) + 2) 0 (put_bytes [of_nat (length bs)] 1 (put_bytes bs 2 s))
      else set_out_size 2 0 (put_bytes [0] 1 s))"

definition agent_version :: "('d, 't, 'o) i2c_engine \<Rightarrow> ('d, 't, 'o) i2c_engine outcome" where
  "agent_version s =
     (let n = length asd_version;
          s = add_out_size (of_nat n) (put_bytes asd_version 1 s);
          s = put_bytes (bytes_of ''_'') n s;
          m = bmc_version_size s
      in if int BMC_VERSION_MAX < m then None
         else
           let (ok, buf) = memcpy_at (buffer (out_msg s)) (n + 1) (size_t m) (Some (take (nat m) (bmc_version s))) (size_t m);
               s = add_out_size (word_of_int m) (s\<lparr>out_msg := (out_msg s)\<lparr>buffer := buf\<rparr>\<rparr>)
           in Some (if ok then ST_OK else ST_ERR, put_bytes [0] (nat (int n + m + 1)) s))"

definition agent_configuration :: "('d, 't, 'o) i2c_engine \<Rightarrow> ('d, 't, 'o) i2c_engine" where
  "agent_configuration s =
     (let m = imsg (in_msg s); p = packet_of (buffer m) (size_t (get_message_size m))
      in case get_packet_data p 1 of
           None \<Rightarrow> s
         | Some (config_type, p) \<Rightarrow>
             (case get_packet_data p 1 of
                None \<Rightarrow> s
              | Some (v, p) \<Rightarrow>
                  if config_type ! 0 = AGENT_CONFIG_TYPE_LOGGING then
                    s\<lparr>asd_cfg := (asd_cfg s)\<lparr>remote_logging := config_of_value (v ! 0)\<rparr>\<rparr>
                  else if config_type ! 0 = AGENT_CONFIG_TYPE_JTAG_SETTINGS then
                    s\<lparr>asd_cfg := (asd_cfg s)\<lparr>jtag_cfg := (jtag_cfg (asd_cfg s))\<lparr>jtag_mode_cfg :=
                          if v ! 0 AND 1 = 1 then JTAG_DRIVER_MODE_HARDWARE else JTAG_DRIVER_MODE_SOFTWARE\<rparr>\<rparr>,
                      jtag_chain_mode := if v ! 0 AND 2 = 2 then JTAG_CHAIN_SELECT_MODE_MULTI
                        else JTAG_CHAIN_SELECT_MODE_SINGLE\<rparr>
                  else s))"

definition agent_loopback :: "('d, 't, 'o) i2c_engine \<Rightarrow> ('d, 't, 'o) i2c_engine" where
  "agent_loopback s =
     (let m = imsg (in_msg s);
          n = min MAX_DATA_SIZE (unat (size_lsb (header m)) + 256 * unat (size_msb (header m)))
      in put_bytes (take n (buffer m)) 0 (s\<lparr>out_msg := (out_msg s)\<lparr>header := header m\<rparr>\<rparr>))"

definition agent_probes_config :: "('d, 't, 'o) i2c_engine \<Rightarrow> ('d, 't, 'o) i2c_engine outcome" where
  "agent_probes_config s =
     (let v = vprobe_handler s
      in if remoteConfigs v > 0 then
           let text = c_string (probesConfig v);
               (ok, bs) = strcpy_s (drop 1 (buffer (out_msg s))) (MAX_DATA_SIZE - 1) text;
               n = length text + 1;
               s = s\<lparr>out_msg := (out_msg s)\<lparr>buffer := take 1 (buffer (out_msg s)) @ bs\<rparr>\<rparr>
           in Some (if ok then ST_OK else ST_ERR, set_out_size (of_nat n) (of_nat (n div 256 mod 256)) s)
         else Some (ST_OK, s))"

text \<open>The two results are the status of the function and whether the probes could be initialized.\<close>

definition agent_probes :: "('d, 't, 'o) i2c_engine \<Rightarrow> status \<times> ('d, 't, 'o) i2c_engine" where
  "agent_probes s =
     (let (st, v) = (if vp_initialized (vprobe_handler s) then (ST_OK, vprobe_handler s)
                     else vProbe_initialize (vprobe_handler s));
          s = s\<lparr>vprobe_handler := v\<rparr>
      in if st \<noteq> ST_OK then (ST_ERR, s)
         else (ST_OK, set_out_size 2 0 (put_bytes [remoteProbes v] 1 s)))"

definition agent_start :: "('d, 't, 'o) i2c_engine \<Rightarrow> ('d, 't, 'o) i2c_engine" where
  "agent_start s =
     (let h = header (imsg (in_msg s))
      in put_bytes [cmd_stat h] 0
           (s\<lparr>out_msg := (out_msg s)\<lparr>header := h\<lparr>size_lsb := 1, size_msb := 0, cmd_stat := ASD_SUCCESS\<rparr>\<rparr>\<rparr>))"

definition agent_command :: "('d, 't, 'o) i2c_engine \<Rightarrow> ('d, 't, 'o) i2c_engine outcome" where
  "agent_command s =
     (let cmd = cmd_stat (header (imsg (in_msg s)))
      in if cmd = NUM_IN_FLIGHT_MESSAGES_SUPPORTED_CMD then
           Some (ST_OK, add_out_size 1 (put_bytes [NUM_IN_FLIGHT_BUFFERS_TO_USE] 1 s))
         else if cmd = MAX_DATA_SIZE_CMD then
           Some (ST_OK, set_out_size 3 0 (put_bytes [of_nat MAX_DATA_SIZE, of_nat (MAX_DATA_SIZE div 256)] 1 s))
         else if cmd = SUPPORTED_JTAG_CHAINS_CMD then
           Some (ST_OK, set_out_size 2 0 (put_bytes [SUPPORTED_JTAG_CHAINS] 1 s))
         else if cmd = SUPPORTED_I2C_BUSES_CMD then Some (ST_OK, agent_i2c_buses s)
         else if cmd = REMOTE_PROBES_CONFIG_CMD then agent_probes_config s
         else if cmd = OBTAIN_DOWNSTREAM_VERSION_CMD then agent_version s
         else if cmd = AGENT_CONFIGURATION_CMD then Some (ST_OK, agent_configuration s)
         else if cmd = LOOPBACK_CMD then Some (ST_OK, agent_loopback s)
         else Some (ST_OK, s))"

definition agent_control :: "('d, 't, 'o) engine_env \<Rightarrow> ('d, 't, 'o) i2c_engine \<Rightarrow> ('d, 't, 'o) i2c_engine outcome" where
  "agent_control env s =
     (let s = agent_start s;
          answer = (\<lambda>s. s\<lparr>client := snd (send_response (send_junk (jtag_env env)) (out_msg s) (client s))\<rparr>)
      in if cmd_stat (header (imsg (in_msg s))) = SUPPORTED_REMOTE_PROBES_CMD then
           let (st, s) = agent_probes s
           in if st \<noteq> ST_OK then Some (ST_ERR, send_error env ASD_FAILURE_INIT_VPROBE_HANDLER s)
              else Some (ST_OK, answer s)
         else map_option (\<lambda>(st, s). (st, answer s)) (agent_command s))"

section \<open>The handlers\<close>

text \<open>
  A step of the first initialization that returns from the function when it fails, with its error
  answer. What was initialized before the failing handler stays so, except that a failing target
  takes the JTAG handler down again.
\<close>

definition init_or_fail :: "('d, 't, 'o) engine_env \<Rightarrow> u8 \<Rightarrow> status \<times> ('d, 't, 'o) i2c_engine \<Rightarrow> ('d, 't, 'o) i2c_engine outcome" where
  "init_or_fail env e r = (case r of (st, s) \<Rightarrow>
     if st \<noteq> ST_OK then Some (ST_ERR, send_error env e s) else Some (ST_OK, s))"

definition init_jtag :: "('d, 't, 'o) engine_env \<Rightarrow> ('d, 't, 'o) i2c_engine \<Rightarrow> ('d, 't, 'o) i2c_engine outcome" where
  "init_jtag env s =
     (case on_jtag (JTAG_initialize (jtag_driver (jtag_env env))
             (jtag_mode_cfg (jtag_cfg (asd_cfg s)) = JTAG_DRIVER_MODE_SOFTWARE)) s of
        None \<Rightarrow> None
      | Some r \<Rightarrow> init_or_fail env ASD_FAILURE_INIT_JTAG_HANDLER r)"

definition init_i2c :: "('d, 't, 'o) engine_env \<Rightarrow> ('d, 't, 'o) i2c_engine \<Rightarrow> ('d, 't, 'o) i2c_engine outcome" where
  "init_i2c env s =
     (if enable_i2c (bus_cfg s)
      then init_or_fail env ASD_FAILURE_INIT_I2C_HANDLER (on_i2c (i2c_initialize (bus_kernel (i2c_env_of env))) s)
      else Some (ST_OK, s))"

definition init_i3c :: "('d, 't, 'o) engine_env \<Rightarrow> ('d, 't, 'o) i2c_engine \<Rightarrow> ('d, 't, 'o) i2c_engine outcome" where
  "init_i3c env s =
     (if enable_i3c (bus_cfg s)
      then init_or_fail env ASD_FAILURE_INIT_I2C_HANDLER (on_i3c i3c_initialize s)
      else Some (ST_OK, s))"

definition init_target :: "('d, 't, 'o) engine_env \<Rightarrow> ('d, 't, 'o) i2c_engine \<Rightarrow> ('d, 't, 'o) i2c_engine outcome" where
  "init_target env s =
     (let (st, s) = on_target (op_initialize (admin env) (xdp_fail_enable s)) s
      in if st = ST_OK then
           let s = s\<lparr>handlers_initialized := True\<rparr>
           in Some (ST_OK, if op_xdp_present (admin env) (target_handler s)
                           then send_error env ASD_FAILURE_XDP_PRESENT s else s)
         else
           let (_, h, d) = JTAG_deinitialize (jtag_driver (jtag_env env)) (jtag_handler s) (jtag_dev s)
           in Some (ST_ERR, send_error env ASD_FAILURE_XDP_PRESENT (s\<lparr>jtag_handler := h, jtag_dev := d\<rparr>)))"

definition init_handlers :: "('d, 't, 'o) engine_env \<Rightarrow> ('d, 't, 'o) i2c_engine \<Rightarrow> ('d, 't, 'o) i2c_engine outcome" where
  "init_handlers env s =
     (if handlers_initialized s then Some (ST_OK, s)
      else then_ok (then_ok (then_ok (init_jtag env s) (init_i2c env)) (init_i3c env)) (init_target env))"

section \<open>Dispatch\<close>

definition process_i2c_packet :: "('d, 't, 'o) engine_env \<Rightarrow> ('d, 't, 'o) i2c_engine \<Rightarrow> ('d, 't, 'o) i2c_engine option" where
  "process_i2c_packet env s =
     (if enable_i2c (bus_cfg s) \<or> enable_i3c (bus_cfg s) then
        let (st, s) = dev_flock (i2c_env_of env) (default_bus (bus_cfg s)) LOCK_EX s
        in if st \<noteq> ST_OK then Some (send_error env ASD_FAILURE_PROCESS_I2C_LOCK s)
           else case process_i2c_messages (i2c_env_of env) (imsg (in_msg s)) s of
                  None \<Rightarrow> None
                | Some (st, s) \<Rightarrow>
                    let s = (if st \<noteq> ST_OK then send_error env ASD_FAILURE_PROCESS_I2C_MSG s else s);
                        (st, s) = dev_flock (i2c_env_of env) (default_bus (bus_cfg s)) LOCK_UN s
                    in Some (if st \<noteq> ST_OK then send_error env ASD_FAILURE_REMOVE_I2C_LOCK s else s)
      else Some (send_error env ASD_I2C_MSG_NOT_SUPPORTED s))"

definition process_message :: "('d, 't, 'o) engine_env \<Rightarrow> ('d, 't, 'o) i2c_engine \<Rightarrow> ('d, 't, 'o) i2c_engine option" where
  "process_message env s =
     (let h = header (imsg (in_msg s))
      in if (mtype h \<noteq> JTAG_TYPE \<and> mtype h \<noteq> I2C_TYPE) \<or> (cmd_stat h \<noteq> 0 \<and> cmd_stat h \<noteq> 0x80 \<and> cmd_stat h \<noteq> 1)
         then Some (send_error env ASD_MSG_NOT_SUPPORTED s)
         else if mtype h = JTAG_TYPE then
           (case process_jtag_message (jtag_env env) (imsg (in_msg s)) s of
              None \<Rightarrow> None
            | Some (st, s) \<Rightarrow> Some (if st \<noteq> ST_OK then send_error env ASD_FAILURE_PROCESS_JTAG_MSG s else s))
         else process_i2c_packet env s)"

definition asd_msg_on_msg_recv :: "('d, 't, 'o) engine_env \<Rightarrow> ('d, 't, 'o) i2c_engine \<Rightarrow> ('d, 't, 'o) i2c_engine outcome" where
  "asd_msg_on_msg_recv env s =
     (let h = header (imsg (in_msg s))
      in if enc_bit h \<noteq> 0 then Some (ST_ERR, send_error env ASD_MSG_CRYPY_NOT_SUPPORTED s)
         else if mtype h = AGENT_CONTROL_TYPE then agent_control env s
         else then_ok (init_handlers env s) (\<lambda>s. map_option (\<lambda>s. (ST_OK, s)) (process_message env s)))"

section \<open>Reading packets\<close>

text \<open>
  The read function is asked for a number of bytes and whether data is pending; it returns its status, the
  bytes it has put at the start of the buffer, whether more is pending, and the connection. The number it
  leaves is what it did not read.
\<close>

type_synonym 'n read_function = "nat \<Rightarrow> bool \<Rightarrow> 'n \<Rightarrow> status \<times> u8 list \<times> bool \<times> 'n"

text \<open>
  Bytes stored at an offset of the message structure. The pointer to the rest of the header is computed in
  units of the header, so that its byte offset is four times the index.
\<close>

definition store_at :: "nat \<Rightarrow> u8 list \<Rightarrow> asd_message \<Rightarrow> asd_message" where
  "store_at off bs m =
     (let mem = encode_header (header m) @ buffer m; mem = take off mem @ bs @ drop (off + length bs) mem
      in \<lparr>header = decode_header (take HEADER_SIZE mem), buffer = drop HEADER_SIZE mem\<rparr>)"

definition start_reading :: "('d, 't, 'o) i2c_engine \<Rightarrow> ('d, 't, 'o) i2c_engine" where
  "start_reading s =
     (if read_state (in_msg s) = READ_STATE_INITIAL
      then s\<lparr>in_msg := \<lparr>read_index = 0, in_data_size = 0, read_state = READ_STATE_HEADER,
               imsg = \<lparr>header = decode_header (replicate HEADER_SIZE 0), buffer = replicate MAX_DATA_SIZE 0\<rparr>\<rparr>\<rparr>
      else s)"

definition header_done :: "('d, 't, 'o) engine_env \<Rightarrow> ('d, 't, 'o) i2c_engine \<Rightarrow> ('d, 't, 'o) i2c_engine outcome" where
  "header_done env s =
     (let data_size = get_message_size (imsg (in_msg s))
      in if data_size = -1 then
           Some (ST_ERR, (send_error env ASD_FAILURE_HEADER_SIZE s)
              \<lparr>in_msg := (in_msg s)\<lparr>read_state := READ_STATE_INITIAL, read_index := 0\<rparr>\<rparr>)
         else if data_size > 0 then
           Some (ST_OK, s\<lparr>in_msg := (in_msg s)\<lparr>read_state := READ_STATE_BUFFER, read_index := 0, in_data_size := data_size\<rparr>\<rparr>)
         else asd_msg_on_msg_recv env (s\<lparr>in_msg := (in_msg s)\<lparr>read_state := READ_STATE_INITIAL\<rparr>\<rparr>))"

text \<open>The state of a reading call: the engine, the connection and whether data is pending.\<close>

type_synonym ('d, 't, 'o, 'n) reading = "('d, 't, 'o) i2c_engine \<times> 'n \<times> bool"

definition read_header :: "('d, 't, 'o) engine_env \<Rightarrow> 'n read_function \<Rightarrow> ('d, 't, 'o, 'n) reading
    \<Rightarrow> ('d, 't, 'o, 'n) reading outcome" where
  "read_header env rd = (\<lambda>(s, n, pending).
     let i = nat (read_index (in_msg s)); want = HEADER_SIZE - i; (st, bs, pending, n) = rd want pending n;
         s = s\<lparr>in_msg := (in_msg s)\<lparr>imsg := store_at (HEADER_SIZE * i) bs (imsg (in_msg s))\<rparr>\<rparr>
     in if st \<noteq> ST_OK then Some (st, s, n, pending)
        else if want - length bs = 0 then map_option (\<lambda>(st, s). (st, s, n, pending)) (header_done env s)
        else Some (ST_OK, s\<lparr>in_msg := (in_msg s)\<lparr>read_index := int HEADER_SIZE - int (want - length bs)\<rparr>\<rparr>, n, pending))"

definition read_buffer :: "('d, 't, 'o) engine_env \<Rightarrow> 'n read_function \<Rightarrow> ('d, 't, 'o, 'n) reading
    \<Rightarrow> ('d, 't, 'o, 'n) reading outcome" where
  "read_buffer env rd = (\<lambda>(s, n, pending).
     let i = read_index (in_msg s); want = nat (in_data_size (in_msg s) - i); (st, bs, pending, n) = rd want pending n;
         s = s\<lparr>in_msg := (in_msg s)\<lparr>imsg := store_at (HEADER_SIZE + nat i) bs (imsg (in_msg s))\<rparr>\<rparr>
     in if st \<noteq> ST_OK then Some (st, s, n, pending)
        else if want - length bs = 0 then
          map_option (\<lambda>(st, s). (st, s, n, pending))
            (asd_msg_on_msg_recv env (s\<lparr>in_msg := (in_msg s)\<lparr>read_state := READ_STATE_INITIAL\<rparr>\<rparr>))
        else Some (ST_OK, s\<lparr>in_msg := (in_msg s)\<lparr>read_index := in_data_size (in_msg s) - int (want - length bs)\<rparr>\<rparr>, n, pending))"

text \<open>The header is read until the payload is ready and data is pending; a payload is then read at once.\<close>

definition asd_msg_read :: "('d, 't, 'o) engine_env \<Rightarrow> 'n read_function \<Rightarrow> ('d, 't, 'o, 'n) reading
    \<Rightarrow> ('d, 't, 'o, 'n) reading outcome" where
  "asd_msg_read env rd = (\<lambda>(s, n, pending).
     let s = start_reading s
     in if read_state (in_msg s) = READ_STATE_BUFFER then read_buffer env rd (s, n, pending)
        else case read_header env rd (s, n, pending) of
               None \<Rightarrow> None
             | Some (st, s, n, pending) \<Rightarrow>
                 if read_state (in_msg s) \<noteq> READ_STATE_BUFFER \<or> \<not> pending then Some (st, s, n, pending)
                 else read_buffer env rd (s, n, pending))"

section \<open>Events\<close>

definition asd_msg_get_fds :: "('d, 't, 'o) engine_env \<Rightarrow> ('d, 't, 'o) i2c_engine \<Rightarrow> status \<times> pollfd list" where
  "asd_msg_get_fds env s =
     (if mtype (header (imsg (in_msg s))) \<noteq> AGENT_CONTROL_TYPE then op_get_fds (admin env) (target_handler s) else (ST_ERR, []))"

definition send_pin_event :: "('d, 't, 'o) engine_env \<Rightarrow> ASD_EVENT \<Rightarrow> ('d, 't, 'o) i2c_engine \<Rightarrow> status \<times> ('d, 't, 'o) i2c_engine" where
  "send_pin_event env e s =
     (let h = (decode_header (replicate HEADER_SIZE 0))\<lparr>size_lsb := 1, size_msb := 0, mtype := JTAG_TYPE,
            tag := BROADCAST_MESSAGE_ORIGIN_ID, origin_id := BROADCAST_MESSAGE_ORIGIN_ID\<rparr>;
          (st, tx) = send_response (send_junk (jtag_env env))
            \<lparr>header = h, buffer = event_number e # replicate (MAX_DATA_SIZE - 1) 0\<rparr> (client s)
      in (st, s\<lparr>client := tx\<rparr>))"

text \<open>The target handler calls a function stored with the pin, which may be a null pointer.\<close>

definition asd_msg_event :: "('d, 't, 'o) engine_env \<Rightarrow> pollfd \<Rightarrow> ('d, 't, 'o) i2c_engine \<Rightarrow> ('d, 't, 'o) i2c_engine outcome" where
  "asd_msg_event env p s = (case op_event (admin env) p (target_handler s) of
       None \<Rightarrow> None
     | Some (st, e, t) \<Rightarrow> let s = s\<lparr>target_handler := t\<rparr>
         in if st \<noteq> ST_OK then Some (st, s)
            else if e = ASD_EVENT_XDP_PRESENT then
              Some (if xdp_fail_enable s then ST_ERR else ST_OK, send_error env ASD_FAILURE_XDP_PRESENT s)
            else if e \<noteq> ASD_EVENT_NONE then Some (send_pin_event env e s)
            else Some (ST_OK, s))"

section \<open>Answers\<close>

text \<open>
  A packet that answers a request: its size field is the length of its payload, and it carries the tag and
  the origin of the request; only the errors of a bus selection are built from the wrong header.
\<close>

definition answer_packet :: "('d, 't, 'o) engine_env \<Rightarrow> message_header \<Rightarrow> u8 list \<Rightarrow> bool" where
  "answer_packet env h pk \<longleftrightarrow>
     (\<exists>h' payload. pk = encode_header h' @ payload \<and> length payload \<le> MAX_DATA_SIZE \<and>
        length payload = unat (size_lsb h') + 256 * unat (size_msb h') \<and> origin_id h' = origin_id h \<and> tag h' = tag h) \<or>
     (\<exists>e. pk = encode_header ((packet_as_header (i2c_env_of env))\<lparr>mtype := 1, size_lsb := 0, size_msb := 0, cmd_stat := e\<rparr>))"

text \<open>What every engine that was created has, and keeps.\<close>

definition engine_ok :: "('d, 't, 'o) i2c_engine \<Rightarrow> bool" where
  "engine_ok s \<longleftrightarrow> length (buffer (out_msg s)) = MAX_DATA_SIZE \<and> length (buffer (imsg (in_msg s))) = MAX_DATA_SIZE \<and>
     length (bmc_version s) = BMC_VERSION_MAX \<and> - 2 \<le> bmc_version_size s \<and> remoteConfigs (vprobe_handler s) = 0 \<and>
     length (probesConfig (vprobe_handler s)) = MAX_DATA_SIZE"

lemma engine_ok_fixed:
  assumes "fixed_part s' = fixed_part s" "in_msg s' = in_msg s" "length (buffer (out_msg s')) = MAX_DATA_SIZE" "engine_ok s"
  shows "engine_ok s'"
  using assms by (simp add: engine_ok_def fixed_part_def)

text \<open>A part of the processing of a message: it sends answers only; and one that sends at least one.\<close>

definition talks :: "('d, 't, 'o) engine_env \<Rightarrow> ('d, 't, 'o) i2c_engine \<Rightarrow> ('d, 't, 'o) i2c_engine \<Rightarrow> bool" where
  "talks env s s' \<longleftrightarrow> in_msg s' = in_msg s \<and> (engine_ok s \<longrightarrow> engine_ok s') \<and>
     (\<exists>pks. client s' = (client s)\<lparr>sent := sent (client s) @ pks\<rparr> \<and>
        list_all (answer_packet env (header (imsg (in_msg s)))) pks)"

definition answers :: "('d, 't, 'o) engine_env \<Rightarrow> ('d, 't, 'o) i2c_engine \<Rightarrow> ('d, 't, 'o) i2c_engine \<Rightarrow> bool" where
  "answers env s s' \<longleftrightarrow> in_msg s' = in_msg s \<and> (engine_ok s \<longrightarrow> engine_ok s') \<and>
     (\<exists>pks. client s' = (client s)\<lparr>sent := sent (client s) @ pks\<rparr> \<and> pks \<noteq> [] \<and>
        list_all (answer_packet env (header (imsg (in_msg s)))) pks)"

lemma talks_refl [simp]: "talks env s s"
  by (auto simp: talks_def intro: exI [of _ "[]"])

lemma answers_talks: "answers env s s' \<Longrightarrow> talks env s s'"
  by (auto simp: talks_def answers_def)

lemma talks_trans: "talks env s t \<Longrightarrow> talks env t u \<Longrightarrow> talks env s u"
  by (fastforce simp: talks_def)

lemma talks_answers: "talks env s t \<Longrightarrow> answers env t u \<Longrightarrow> answers env s u"
  by (fastforce simp: talks_def answers_def)

lemma answers_then: "answers env s t \<Longrightarrow> talks env t u \<Longrightarrow> answers env s u"
  by (fastforce simp: talks_def answers_def)

lemma talks_quiet:
  assumes "in_msg s' = in_msg s" "client s' = client s" "engine_ok s \<Longrightarrow> engine_ok s'"
  shows "talks env s s'"
  using assms by (auto simp: talks_def intro: exI [of _ "[]"])

lemma talks_bus: "bus_only s s' \<Longrightarrow> talks env s s'"
  by (rule talks_quiet) (auto simp: bus_only_def engine_ok_def fixed_part_def)

definition junk_ok :: "('d, 't, 'o) engine_env \<Rightarrow> bool" where
  "junk_ok env \<longleftrightarrow> length (send_junk (jtag_env env)) = MAX_PACKET_SIZE \<and>
     length (i2c_send_junk (i2c_env_of env)) = MAX_PACKET_SIZE \<and> length (i2c_buffer (msg_junk (i2c_env_of env))) = 15"

lemma reply_answers:
  assumes "length payload \<le> MAX_DATA_SIZE"
  shows "answer_packet env h (reply h e payload)"
  unfolding answer_packet_def reply_def
  using assms size_fields [of "length payload"]
  by (intro disjI1 exI [of _ "(set_size (of_nat (length payload)) h)\<lparr>cmd_stat := e\<rparr>"] exI [of _ payload])
    (simp add: set_size_def)

lemma send_error_answers:
  assumes "junk_ok env"
  shows "answers env s (send_error env e s)"
proof -
  let ?h = "(header (imsg (in_msg s)))\<lparr>mtype := 1, size_lsb := 0, size_msb := 0, cmd_stat := e\<rparr>"
  have "get_message_size \<lparr>header = ?h, buffer = replicate MAX_DATA_SIZE 0\<rparr> = 0" by (simp add: get_message_size_def')
  then have c: "client (send_error env e s) = (client s)\<lparr>sent := sent (client s) @ [encode_header ?h]\<rparr>"
    using assms by (simp add: junk_ok_def send_error_def send_error_message_def send_response_bytes transmit_def)
  have "answer_packet env (header (imsg (in_msg s))) (encode_header ?h)"
    unfolding answer_packet_def by (intro disjI1 exI [of _ ?h] exI [of _ "[]"]) simp
  then show ?thesis
    unfolding answers_def c by (auto simp: send_error_def engine_ok_def intro!: exI [of _ "[encode_header ?h]"])
qed

text \<open>Processing a packet for one of the devices.\<close>

lemma jtag_packet_answers:
  assumes "junk_ok env" "polite (jtag_driver (jtag_env env))" "engine_ok s"
    and "process_jtag_message (jtag_env env) (imsg (in_msg s)) s = Some (st, s')"
  shows "talks env s s' \<and> (st = ST_OK \<longrightarrow> answers env s s')"
proof -
  let ?h = "header (imsg (in_msg s))"
  have j: "fixed_part s' = fixed_part s" "in_msg s' = in_msg s" "length (buffer (out_msg s')) = MAX_DATA_SIZE"
    and c: "client s' = client s \<and> st \<noteq> ST_OK \<or> (\<exists>payload. length payload \<le> MAX_DATA_SIZE \<and>
       client s' = (client s)\<lparr>sent := sent (client s) @ [reply ?h ASD_SUCCESS payload]\<rparr>)"
    using jtag_sends [OF assms(2) _ _ _ assms(4)] assms(1,3) unfolding junk_ok_def engine_ok_def reply_def Let_def
    by blast+
  have ok: "engine_ok s'" using engine_ok_fixed [OF j assms(3)] .
  show ?thesis
    using c
  proof (elim disjE exE conjE)
    assume "client s' = client s" "st \<noteq> ST_OK"
    then show ?thesis using talks_quiet [of s' s] j ok by simp
  next
    fix payload
    assume "length payload \<le> MAX_DATA_SIZE"
      "client s' = (client s)\<lparr>sent := sent (client s) @ [reply ?h ASD_SUCCESS payload]\<rparr>"
    then have "answers env s s'"
      using j(2) ok reply_answers [of payload env ?h] unfolding answers_def
      by (intro conjI impI exI [of _ "[reply ?h ASD_SUCCESS payload]"]) simp_all
    then show ?thesis using answers_talks by blast
  qed
qed

lemma good_packet_answer:
  assumes "good_packet (i2c_env_of env) h pk"
  shows "answer_packet env h pk"
  using assms unfolding good_packet_def
proof (elim disjE exE conjE)
  fix e
  assume "pk = encode_header ((packet_as_header (i2c_env_of env))\<lparr>mtype := 1, size_lsb := 0, size_msb := 0, cmd_stat := e\<rparr>)"
  then show ?thesis unfolding answer_packet_def by blast
qed (simp_all add: reply_answers)

lemma i2c_packet_answers':
  assumes "junk_ok env" "engine_ok s" "get_message_size (imsg (in_msg s)) \<noteq> -1"
  shows "\<exists>st s'. process_i2c_messages (i2c_env_of env) (imsg (in_msg s)) s = Some (st, s') \<and> talks env s s' \<and>
    (st = ST_OK \<longrightarrow> answers env s s')"
proof -
  let ?m = "imsg (in_msg s)"
  have "length (i2c_send_junk (i2c_env_of env)) = MAX_PACKET_SIZE" "length (i2c_buffer (msg_junk (i2c_env_of env))) = 15"
    "length (buffer ?m) = MAX_DATA_SIZE"
    using assms(1,2) by (simp_all add: junk_ok_def engine_ok_def)
  from i2c_packet_sends [OF this, of s]
  obtain st s' pks where r: "process_i2c_messages (i2c_env_of env) ?m s = Some (st, s')"
    and j: "fixed_part s' = fixed_part s" "in_msg s' = in_msg s" "length (buffer (out_msg s')) = MAX_DATA_SIZE"
    and p: "client s' = (client s)\<lparr>sent := sent (client s) @ pks\<rparr>" "list_all (good_packet (i2c_env_of env) (header ?m)) pks"
      "st = ST_OK \<longrightarrow> pks \<noteq> []"
    using assms(3) by blast
  have ok: "engine_ok s'" using engine_ok_fixed [OF j assms(2)] .
  have "list_all (answer_packet env (header ?m)) pks"
    using p(2) good_packet_answer by (auto simp: list_all_iff)
  then show ?thesis using r j(2) ok p(1,3) unfolding talks_def answers_def by blast
qed

text \<open>Sending the response when it is addressed to the sender of the request.\<close>

definition addressed :: "('d, 't, 'o) i2c_engine \<Rightarrow> bool" where
  "addressed s \<longleftrightarrow> engine_ok s \<and> get_message_size (out_msg s) \<noteq> -1 \<and>
     origin_id (header (out_msg s)) = origin_id (header (imsg (in_msg s))) \<and>
     tag (header (out_msg s)) = tag (header (imsg (in_msg s)))"

lemma send_out_answers:
  assumes "junk_ok env" "addressed s"
  shows "answers env s (s\<lparr>client := snd (send_response (send_junk (jtag_env env)) (out_msg s) (client s))\<rparr>)"
proof -
  let ?h = "header (out_msg s)" and ?n = "nat (get_message_size (out_msg s))"
  let ?pk = "encode_header ?h @ take ?n (buffer (out_msg s))"
  define k where "k = unat (size_lsb ?h) + 256 * unat (size_msb ?h)"
  have "get_message_size (out_msg s) = (if k > MAX_DATA_SIZE then -1 else int k)"
    by (simp only: get_message_size_def' Let_def k_def)
  then have n: "?n \<le> MAX_DATA_SIZE" "?n = unat (size_lsb ?h) + 256 * unat (size_msb ?h)"
    using assms(2) unfolding k_def [symmetric] addressed_def by (auto split: if_splits)
  have b: "length (buffer (out_msg s)) = MAX_DATA_SIZE" using assms(2) by (simp add: addressed_def engine_ok_def)
  have "length (take ?n (buffer (out_msg s))) = ?n" using b n(1) by simp
  then have "answer_packet env (header (imsg (in_msg s))) ?pk"
    using assms(2) n unfolding answer_packet_def addressed_def
    by (intro disjI1 exI [of _ ?h] exI [of _ "take ?n (buffer (out_msg s))"]) simp
  then show ?thesis
    using assms b unfolding answers_def addressed_def junk_ok_def
    by (auto simp: send_response_bytes transmit_def engine_ok_def intro!: exI [of _ "[?pk]"])
qed

lemma length_put_bytes:
  assumes "rc + length bs \<le> length (buffer (out_msg s))"
  shows "length (buffer (out_msg (put_bytes bs rc s))) = length (buffer (out_msg s))"
  using assms by (simp add: put_bytes_def)

lemma put_bytes_frame [simp]:
  "in_msg (put_bytes bs rc s) = in_msg s" "client (put_bytes bs rc s) = client s" "bus_cfg (put_bytes bs rc s) = bus_cfg s"
  "fixed_part (put_bytes bs rc s) = fixed_part s" "header (out_msg (put_bytes bs rc s)) = header (out_msg s)"
  "vprobe_handler (put_bytes bs rc s) = vprobe_handler s" "bmc_version (put_bytes bs rc s) = bmc_version s"
  "bmc_version_size (put_bytes bs rc s) = bmc_version_size s"
  by (simp_all add: put_bytes_def bus_cfg_def)

lemma addressed_put:
  assumes "addressed s" "rc + length bs \<le> MAX_DATA_SIZE"
  shows "addressed (put_bytes bs rc s)"
  using assms length_put_bytes [of rc bs s]
  by (simp add: addressed_def engine_ok_def get_message_size_def')

lemma addressed_size:
  assumes "addressed s"
  shows "addressed (set_out_size lsb 0 s)"
proof -
  have "0 \<le> uint lsb" by simp
  then have "uint lsb \<noteq> -1" by linarith
  moreover have "unat lsb \<le> 255" using unsigned_less [of lsb, where ?'a = nat] by simp
  ultimately show ?thesis
    using assms by (auto simp: addressed_def engine_ok_def set_out_size_def get_message_size_def')
qed

lemma addressed_add:
  assumes "addressed s" "size_msb (header (out_msg s)) = 0"
  shows "addressed (add_out_size n s)"
  using addressed_size [OF assms(1)] assms(2) by (simp add: add_out_size_def)

lemma set_out_size_frame [simp]:
  "in_msg (set_out_size l h s) = in_msg s" "client (set_out_size l h s) = client s"
  "in_msg (add_out_size l s) = in_msg s" "client (add_out_size l s) = client s"
  "size_msb (header (out_msg (add_out_size l s))) = size_msb (header (out_msg s))"
  by (simp_all add: set_out_size_def add_out_size_def)

text \<open>The agent commands leave such a response, whatever the command.\<close>

lemma agent_start_addressed:
  assumes "engine_ok s"
  shows "addressed (agent_start s)" "in_msg (agent_start s) = in_msg s" "client (agent_start s) = client s"
    "size_msb (header (out_msg (agent_start s))) = 0" "vprobe_handler (agent_start s) = vprobe_handler s"
proof -
  let ?h = "header (imsg (in_msg s))"
  let ?s = "s\<lparr>out_msg := (out_msg s)\<lparr>header := ?h\<lparr>size_lsb := 1, size_msb := 0, cmd_stat := ASD_SUCCESS\<rparr>\<rparr>\<rparr>"
  have "addressed ?s" using assms by (simp add: addressed_def engine_ok_def get_message_size_def')
  then show "addressed (agent_start s)" unfolding agent_start_def Let_def by (rule addressed_put) simp
qed (simp_all add: agent_start_def Let_def)

lemma agent_version_addressed:
  assumes "addressed s" "size_msb (header (out_msg s)) = 0" "agent_version s = Some (st, s')"
  shows "addressed s' \<and> in_msg s' = in_msg s \<and> client s' = client s"
proof -
  define s1 where "s1 = add_out_size 15 (put_bytes asd_version 1 s)"
  define s2 where "s2 = put_bytes (bytes_of ''_'') 15 s1"
  have len: "length asd_version = 15" "length (bytes_of ''_'') = 1" by (simp_all add: asd_version_def bytes_of_def)
  have s1: "addressed s1" "size_msb (header (out_msg s1)) = 0"
    unfolding s1_def using assms(1,2) len by (auto intro!: addressed_add addressed_put)
  have s2: "addressed s2" "size_msb (header (out_msg s2)) = 0" "in_msg s2 = in_msg s" "client s2 = client s"
    unfolding s2_def using s1 len by (auto intro!: addressed_put simp: s1_def)
  let ?m = "bmc_version_size s2"
  obtain ok buf where c: "memcpy_at (buffer (out_msg s2)) 16 (size_t ?m) (Some (take (nat ?m) (bmc_version s2))) (size_t ?m) = (ok, buf)"
    by fastforce
  let ?s3 = "s2\<lparr>out_msg := (out_msg s2)\<lparr>buffer := buf\<rparr>\<rparr>"
  have v: "bmc_version_size s1 = ?m" by (simp add: s2_def)
  have m: "?m \<le> 120" and s': "s' = put_bytes [0] (nat (16 + ?m)) (add_out_size (word_of_int ?m) ?s3)"
    using assms(3) c v by (auto simp: agent_version_def Let_def len s1_def [unfolded One_nat_def, symmetric]
        s2_def [symmetric] split: if_splits)
  have ok: "engine_ok s2" using s2(1) by (simp add: addressed_def)
  have l: "length buf = 3000"
  proof (cases "0 \<le> ?m")
    case True
    then have "size_t ?m = nat ?m" using m by (simp add: size_t_def)
    then show ?thesis
      using c m ok True memcpy_at_ok [of "nat ?m" "nat ?m" "take (nat ?m) (bmc_version s2)" "buffer (out_msg s2)" 16]
      by (auto simp: engine_ok_def)
  next
    case False
    then have "?m = -1 \<or> ?m = -2" using ok by (auto simp: engine_ok_def)
    then have "size_t ?m = 4294967295 \<or> size_t ?m = 4294967294" by (auto simp: size_t_def)
    then show ?thesis using c ok by (auto simp: memcpy_at_def memcpy_s_def engine_ok_def)
  qed
  have "addressed ?s3" using s2(1) l by (simp add: addressed_def engine_ok_def get_message_size_def')
  then have "addressed (add_out_size (word_of_int ?m) ?s3)" using s2(2) by (intro addressed_add) simp_all
  then have "addressed s'" unfolding s' using m by (intro addressed_put) auto
  then show ?thesis using s2(3,4) by (simp add: s')
qed

lemma agent_command_addressed:
  assumes "addressed s" "size_msb (header (out_msg s)) = 0" "get_message_size (imsg (in_msg s)) \<noteq> -1"
    and "agent_command s = Some (st, s')"
  shows "addressed s' \<and> in_msg s' = in_msg s \<and> client s' = client s"
proof -
  let ?cmd = "cmd_stat (header (imsg (in_msg s)))"
  have ok: "engine_ok s" using assms(1) by (simp add: addressed_def)
  have buses: "addressed (agent_i2c_buses s) \<and> in_msg (agent_i2c_buses s) = in_msg s \<and> client (agent_i2c_buses s) = client s"
    unfolding agent_i2c_buses_def Let_def
    using assms(1) length_filter_le [of "\<lambda>i. bus_config_types (bus_cfg s) ! i \<noteq> BUS_CONFIG_NOT_ALLOWED" "[0 ..< 4]"]
    by (auto intro!: addressed_size addressed_put)
  have loop: "addressed (agent_loopback s) \<and> in_msg (agent_loopback s) = in_msg s \<and> client (agent_loopback s) = client s"
  proof -
    have "addressed (s\<lparr>out_msg := (out_msg s)\<lparr>header := header (imsg (in_msg s))\<rparr>\<rparr>)"
      using ok assms(3) by (simp add: addressed_def engine_ok_def get_message_size_def')
    then show ?thesis unfolding agent_loopback_def Let_def by (auto intro!: addressed_put)
  qed
  have conf: "addressed (agent_configuration s) \<and> in_msg (agent_configuration s) = in_msg s \<and>
      client (agent_configuration s) = client s"
    using assms(1) unfolding agent_configuration_def Let_def
    by (auto simp: addressed_def engine_ok_def get_message_size_def' split: option.split)
  have vers: "agent_version s = Some (st, s') \<Longrightarrow> ?thesis" using agent_version_addressed [OF assms(1,2)] .
  have prob: "agent_probes_config s = Some (ST_OK, s)"
    using ok by (simp add: agent_probes_config_def engine_ok_def)
  show ?thesis
    using assms(4) buses loop conf vers prob assms(1,2) unfolding agent_command_def Let_def
    by (auto split: if_splits intro!: addressed_add addressed_size addressed_put)
qed

lemma agent_control_answers:
  assumes "junk_ok env" "engine_ok s" "get_message_size (imsg (in_msg s)) \<noteq> -1"
    and "agent_control env s = Some (st, s')"
  shows "answers env s s'"
proof -
  note a = agent_start_addressed [OF assms(2)]
  let ?s = "agent_start s"
  have "engine_ok ?s" using a(1) by (simp add: addressed_def)
  then have start: "talks env s ?s" using a(2,3) by (intro talks_quiet) simp_all
  have out: "answers env ?s (x\<lparr>client := snd (send_response (send_junk (jtag_env env)) (out_msg x) (client x))\<rparr>)"
    if "addressed x" "in_msg x = in_msg ?s" "client x = client ?s" for x
  proof -
    have "talks env ?s x" using that by (intro talks_quiet) (simp_all add: addressed_def)
    then show ?thesis using send_out_answers [OF assms(1) that(1)] talks_answers by blast
  qed
  have "answers env ?s s'"
  proof (cases "cmd_stat (header (imsg (in_msg s))) = SUPPORTED_REMOTE_PROBES_CMD")
    case True
    obtain v where v: "(if vp_initialized (vprobe_handler ?s) then (ST_OK, vprobe_handler ?s)
        else vProbe_initialize (vprobe_handler ?s)) = (ST_OK, v)" "remoteConfigs v = 0" "length (probesConfig v) = 3000"
    proof (cases "vp_initialized (vprobe_handler ?s)")
      case True
      then show ?thesis using that [of "vprobe_handler ?s"] assms(2) a(5) by (simp add: engine_ok_def)
    next
      case False
      obtain buf where "vProbe_initialize (vprobe_handler ?s) =
          (ST_OK, (vprobe_handler ?s)\<lparr>probesConfig := buf, vp_initialized := True\<rparr>)" "length buf = 3000"
        using vProbe_initialize_ok [of "vprobe_handler ?s"] assms(2) a(5) by (auto simp: engine_ok_def)
      then show ?thesis
        using that [of "(vprobe_handler ?s)\<lparr>probesConfig := buf, vp_initialized := True\<rparr>"] False assms(2) a(5)
        by (simp add: engine_ok_def)
    qed
    let ?x = "set_out_size 2 0 (put_bytes [remoteProbes v] 1 (?s\<lparr>vprobe_handler := v\<rparr>))"
    have "addressed (?s\<lparr>vprobe_handler := v\<rparr>)"
      using a(1) v(2,3) by (simp add: addressed_def engine_ok_def)
    then have "addressed ?x" by (intro addressed_size addressed_put) simp_all
    moreover have "s' = ?x\<lparr>client := snd (send_response (send_junk (jtag_env env)) (out_msg ?x) (client ?x))\<rparr>"
      using assms(4) True v(1) a(2) by (simp add: agent_control_def agent_probes_def Let_def)
    ultimately show ?thesis using out [of ?x] by simp
  next
    case False
    then obtain x where x: "agent_command ?s = Some (st, x)"
      "s' = x\<lparr>client := snd (send_response (send_junk (jtag_env env)) (out_msg x) (client x))\<rparr>"
      using assms(4) a(2) by (auto simp: agent_control_def Let_def)
    then show ?thesis
      using out [of x] agent_command_addressed [OF a(1,4) _ x(1)] assms(3) a(2) by simp
  qed
  then show ?thesis using start talks_answers by blast
qed

text \<open>The first initialization either goes on or has sent an error.\<close>

definition goes_or_answers :: "('d, 't, 'o) engine_env \<Rightarrow> ('d, 't, 'o) i2c_engine \<Rightarrow> ('d, 't, 'o) i2c_engine outcome \<Rightarrow> bool" where
  "goes_or_answers env s m \<longleftrightarrow> (\<forall>st s'. m = Some (st, s') \<longrightarrow> talks env s s' \<and> (st \<noteq> ST_OK \<longrightarrow> answers env s s'))"

lemma goes_then:
  assumes "goes_or_answers env s m" "\<And>s'. goes_or_answers env s' (f s')"
  shows "goes_or_answers env s (then_ok m f)"
  unfolding goes_or_answers_def
proof (intro allI impI)
  fix st s'
  assume "then_ok m f = Some (st, s')"
  then show "talks env s s' \<and> (st \<noteq> ST_OK \<longrightarrow> answers env s s')"
  proof (cases rule: then_ok_SomeE)
    case (ok s1)
    then have "talks env s s1" "talks env s1 s' \<and> (st \<noteq> ST_OK \<longrightarrow> answers env s1 s')"
      using assms unfolding goes_or_answers_def by blast+
    then show ?thesis using talks_trans talks_answers by blast
  next
    case err
    then show ?thesis using assms(1) unfolding goes_or_answers_def by blast
  qed
qed

lemma goes_init:
  assumes "junk_ok env" "talks env s s1" "r = (st1, s1)"
  shows "goes_or_answers env s (init_or_fail env e r)"
proof -
  have "answers env s (send_error env e s1)" using talks_answers [OF assms(2) send_error_answers [OF assms(1)]] .
  then show ?thesis
    using assms(2) answers_talks by (auto simp: goes_or_answers_def init_or_fail_def assms(3) split: if_splits)
qed

lemma bus_only_call: "on_i2c f s = (st, s') \<Longrightarrow> bus_only s s'" "on_i3c g s = (st, s') \<Longrightarrow> bus_only s s'"
  using bus_only_on by blast+

lemma goes_handlers:
  assumes "junk_ok env"
  shows "goes_or_answers env s (init_jtag env s)" "goes_or_answers env s (init_i2c env s)"
    "goes_or_answers env s (init_i3c env s)" "goes_or_answers env s (init_target env s)"
proof -
  show "goes_or_answers env s (init_jtag env s)"
  proof (cases "on_jtag (JTAG_initialize (jtag_driver (jtag_env env))
             (jtag_mode_cfg (jtag_cfg (asd_cfg s)) = JTAG_DRIVER_MODE_SOFTWARE)) s")
    case None
    then show ?thesis by (simp add: init_jtag_def goes_or_answers_def)
  next
    case (Some r)
    obtain st1 s1 where r: "r = (st1, s1)" by (cases r)
    note f = on_jtag_frame [OF Some [unfolded r]]
    have "talks env s s1" using f by (intro talks_quiet) (auto simp: engine_ok_def fixed_part_def)
    then show ?thesis using goes_init [OF assms _ r] Some by (simp add: init_jtag_def)
  qed
  show "goes_or_answers env s (init_i2c env s)"
  proof (cases "enable_i2c (bus_cfg s)")
    case True
    obtain st1 s1 where r: "on_i2c (i2c_initialize (bus_kernel (i2c_env_of env))) s = (st1, s1)" by fastforce
    then show ?thesis
      using goes_init [OF assms talks_bus [OF bus_only_call(1) [OF r]] r] True by (simp add: init_i2c_def)
  qed (simp add: init_i2c_def goes_or_answers_def)
  show "goes_or_answers env s (init_i3c env s)"
  proof (cases "enable_i3c (bus_cfg s)")
    case True
    obtain st1 s1 where r: "on_i3c i3c_initialize s = (st1, s1)" by fastforce
    then show ?thesis
      using goes_init [OF assms talks_bus [OF bus_only_call(2) [OF r]] r] True by (simp add: init_i3c_def)
  qed (simp add: init_i3c_def goes_or_answers_def)
  show "goes_or_answers env s (init_target env s)"
  proof -
    obtain st1 s1 where r: "on_target (op_initialize (admin env) (xdp_fail_enable s)) s = (st1, s1)" by fastforce
    note f = on_target_frame [OF r]
    obtain st2 h d where j: "JTAG_deinitialize (jtag_driver (jtag_env env)) (jtag_handler s1) (jtag_dev s1) = (st2, h, d)"
      by (metis prod_cases3)
    have a: "talks env s (s1\<lparr>handlers_initialized := True\<rparr>)" "talks env s (s1\<lparr>jtag_handler := h, jtag_dev := d\<rparr>)"
      using f by (auto intro!: talks_quiet simp: engine_ok_def fixed_part_def)
    have e: "answers env x (send_error env ASD_FAILURE_XDP_PRESENT x)" for x using send_error_answers [OF assms] .
    show ?thesis
      using r j a talks_answers [OF a(1) e] talks_answers [OF a(2) e] answers_talks
      by (auto simp: init_target_def goes_or_answers_def Let_def split: if_splits)
  qed
qed

lemma init_handlers_goes: "junk_ok env \<Longrightarrow> goes_or_answers env s (init_handlers env s)"
  unfolding init_handlers_def
  by (auto intro!: goes_then goes_handlers) (simp add: goes_or_answers_def)

lemma process_i2c_answers:
  assumes "junk_ok env" "engine_ok s" "get_message_size (imsg (in_msg s)) \<noteq> -1" "process_i2c_packet env s = Some s'"
  shows "answers env s s'"
proof (cases "enable_i2c (bus_cfg s) \<or> enable_i3c (bus_cfg s)")
  case False
  then show ?thesis using assms(4) send_error_answers [OF assms(1)] by (auto simp: process_i2c_packet_def)
next
  case True
  obtain st1 s1 where f: "dev_flock (i2c_env_of env) (default_bus (bus_cfg s)) LOCK_EX s = (st1, s1)" by fastforce
  note b1 = bus_only_flock [OF f]
  have t1: "talks env s s1" using talks_bus [OF b1] .
  show ?thesis
  proof (cases "st1 = ST_OK")
    case False
    then show ?thesis
      using assms(4) True f talks_answers [OF t1 send_error_answers [OF assms(1)]]
      by (auto simp: process_i2c_packet_def)
  next
    case ok1: True
    have "engine_ok s1" using t1 assms(2) by (simp add: talks_def)
    moreover have m1: "in_msg s1 = in_msg s" using t1 by (simp add: talks_def)
    ultimately obtain st2 s2 where r: "process_i2c_messages (i2c_env_of env) (imsg (in_msg s)) s1 = Some (st2, s2)"
      and t2: "talks env s1 s2" "st2 = ST_OK \<longrightarrow> answers env s1 s2"
      using i2c_packet_answers' [OF assms(1), of s1] assms(3) by auto
    define s3 where "s3 = (if st2 \<noteq> ST_OK then send_error env ASD_FAILURE_PROCESS_I2C_MSG s2 else s2)"
    have a3: "answers env s1 s3"
      using t2 talks_answers [OF t2(1) send_error_answers [OF assms(1)]] by (simp add: s3_def)
    obtain st4 s4 where u: "dev_flock (i2c_env_of env) (default_bus (bus_cfg s3)) LOCK_UN s3 = (st4, s4)" by fastforce
    have t4: "talks env s3 s4" using talks_bus [OF bus_only_flock [OF u]] .
    have "s' = (if st4 \<noteq> ST_OK then send_error env ASD_FAILURE_REMOVE_I2C_LOCK s4 else s4)"
      using assms(4) True f ok1 r m1 u by (simp add: process_i2c_packet_def s3_def [symmetric] split: if_splits)
    then have "talks env s3 s'"
      using t4 talks_trans [OF t4 answers_talks [OF send_error_answers [OF assms(1)]]] by auto
    then show ?thesis using answers_then [OF talks_answers [OF t1 a3]] by blast
  qed
qed

lemma process_message_answers:
  assumes "junk_ok env" "polite (jtag_driver (jtag_env env))" "engine_ok s" "get_message_size (imsg (in_msg s)) \<noteq> -1"
    and "process_message env s = Some s'"
  shows "answers env s s'"
proof -
  have jtag: "answers env s x"
    if "process_jtag_message (jtag_env env) (imsg (in_msg s)) s = Some (st1, s1)"
      "x = (if st1 \<noteq> ST_OK then send_error env ASD_FAILURE_PROCESS_JTAG_MSG s1 else s1)" for st1 s1 x
    using jtag_packet_answers [OF assms(1-3) that(1)] that(2) talks_answers [OF _ send_error_answers [OF assms(1)]]
    by auto
  show ?thesis
    using assms(5) jtag process_i2c_answers [OF assms(1,3,4)] send_error_answers [OF assms(1)]
    by (auto simp: process_message_def Let_def split: if_splits option.splits)
qed

lemma on_msg_recv_answers:
  assumes "junk_ok env" "polite (jtag_driver (jtag_env env))" "engine_ok s" "get_message_size (imsg (in_msg s)) \<noteq> -1"
    and "asd_msg_on_msg_recv env s = Some (st, s')"
  shows "answers env s s'"
proof -
  have "answers env s s'" if "then_ok (init_handlers env s) (\<lambda>s. map_option (\<lambda>s. (ST_OK, s)) (process_message env s)) = Some (st, s')"
    using that
  proof (cases rule: then_ok_SomeE)
    case (ok s1)
    have t: "talks env s s1" using init_handlers_goes [OF assms(1), of s] ok(1) by (auto simp: goes_or_answers_def)
    then have "engine_ok s1" "get_message_size (imsg (in_msg s1)) \<noteq> -1" using assms(3,4) by (simp_all add: talks_def)
    from process_message_answers [OF assms(1,2) this] ok(2) have "answers env s1 s'" by auto
    then show ?thesis using talks_answers [OF t] by blast
  next
    case err
    then show ?thesis using init_handlers_goes [OF assms(1), of s] by (auto simp: goes_or_answers_def)
  qed
  then show ?thesis
    using assms send_error_answers [OF assms(1)] agent_control_answers [OF assms(1,3,4)]
    by (auto simp: asd_msg_on_msg_recv_def Let_def split: if_splits)
qed

section \<open>Reading\<close>

text \<open>A read function never returns more than it was asked for.\<close>

definition reads_at_most :: "'n read_function \<Rightarrow> bool" where
  "reads_at_most rd \<longleftrightarrow> (\<forall>want p n st bs p' n'. rd want p n = (st, bs, p', n') \<longrightarrow> length bs \<le> want)"

definition reading_ok :: "('d, 't, 'o) i2c_engine \<Rightarrow> bool" where
  "reading_ok s \<longleftrightarrow> engine_ok s \<and>
     (read_state (in_msg s) = READ_STATE_HEADER \<longrightarrow> 0 \<le> read_index (in_msg s) \<and> read_index (in_msg s) < int HEADER_SIZE) \<and>
     (read_state (in_msg s) = READ_STATE_BUFFER \<longrightarrow> 0 \<le> read_index (in_msg s) \<and>
        read_index (in_msg s) < in_data_size (in_msg s) \<and> in_data_size (in_msg s) \<le> int MAX_DATA_SIZE \<and>
        get_message_size (imsg (in_msg s)) = in_data_size (in_msg s))"

lemma length_store_at:
  assumes "off + length bs \<le> HEADER_SIZE + length (buffer m)"
  shows "length (buffer (store_at off bs m)) = length (buffer m)"
  using assms by (simp add: store_at_def)

lemma store_at_payload:
  assumes "off + length bs \<le> length (buffer m)"
  shows "store_at (HEADER_SIZE + off) bs m =
    \<lparr>header = header m, buffer = take off (buffer m) @ bs @ drop (off + length bs) (buffer m)\<rparr>"
  using assms by (simp add: store_at_def decode_encode_header)

lemma store_at_header:
  assumes "length bs \<le> HEADER_SIZE"
  shows "store_at 0 bs m = \<lparr>header = decode_header (bs @ drop (length bs) (encode_header (header m))), buffer = buffer m\<rparr>"
  using assms by (simp add: store_at_def)

lemma idle_ok: "engine_ok s \<Longrightarrow> read_state (in_msg s) = READ_STATE_INITIAL \<Longrightarrow> reading_ok s"
  by (simp add: reading_ok_def)

lemma on_msg_recv_ok:
  assumes "junk_ok env" "polite (jtag_driver (jtag_env env))" "engine_ok s" "get_message_size (imsg (in_msg s)) \<noteq> -1"
    and "read_state (in_msg s) = READ_STATE_INITIAL" "asd_msg_on_msg_recv env s = Some (st, s')"
  shows "reading_ok s'"
  using on_msg_recv_answers [OF assms(1-4,6)] assms(3,5) by (auto simp: answers_def intro: idle_ok)

lemma header_done_ok:
  assumes "junk_ok env" "polite (jtag_driver (jtag_env env))" "engine_ok s" "header_done env s = Some (st, s')"
  shows "reading_ok s'"
proof -
  let ?n = "get_message_size (imsg (in_msg s))"
  have "?n = -1 \<or> ?n = 0 \<or> 0 < ?n \<and> ?n \<le> 3000" using get_message_size_range [of "imsg (in_msg s)"] by auto
  then show ?thesis
  proof (elim disjE)
    assume n: "?n = -1"
    have "engine_ok (send_error env ASD_FAILURE_HEADER_SIZE s)" "in_msg (send_error env ASD_FAILURE_HEADER_SIZE s) = in_msg s"
      using send_error_answers [OF assms(1), of s] assms(3) by (auto simp: answers_def)
    then show ?thesis using assms(4) n by (auto simp: header_done_def reading_ok_def engine_ok_def)
  next
    assume n: "?n = 0"
    let ?s = "s\<lparr>in_msg := (in_msg s)\<lparr>read_state := READ_STATE_INITIAL\<rparr>\<rparr>"
    show ?thesis
      by (rule on_msg_recv_ok [OF assms(1,2), of ?s st]) (use assms(3,4) n in \<open>auto simp: engine_ok_def header_done_def\<close>)
  next
    assume "0 < ?n \<and> ?n \<le> 3000"
    then show ?thesis using assms(3,4) by (auto simp: header_done_def reading_ok_def engine_ok_def)
  qed
qed

lemma start_reading_ok:
  assumes "reading_ok s"
  shows "reading_ok (start_reading s)" "read_state (in_msg (start_reading s)) \<noteq> READ_STATE_INITIAL"
  using assms by (simp_all add: start_reading_def reading_ok_def engine_ok_def)

lemma read_header_ok:
  assumes "junk_ok env" "polite (jtag_driver (jtag_env env))" "reads_at_most rd"
    and "reading_ok s" "read_state (in_msg s) = READ_STATE_HEADER" "read_header env rd (s, n, p) = Some (st, s', n', p')"
  shows "reading_ok s'"
proof -
  define i where "i = nat (read_index (in_msg s))"
  have i: "read_index (in_msg s) = int i" "i < 4" and ok: "engine_ok s" using assms(4,5) by (auto simp: reading_ok_def i_def)
  obtain st1 bs p1 n1 where r: "rd (4 - i) p n = (st1, bs, p1, n1)" by (metis prod_cases4)
  have l: "length bs \<le> 4 - i" using assms(3) r unfolding reads_at_most_def by blast
  define s1 where "s1 = s\<lparr>in_msg := (in_msg s)\<lparr>imsg := store_at (HEADER_SIZE * i) bs (imsg (in_msg s))\<rparr>\<rparr>"
  have ok1: "engine_ok s1"
    using ok l i(2) length_store_at [of "4 * i" bs "imsg (in_msg s)"] by (simp add: s1_def engine_ok_def)
  have h: "read_header env rd (s, n, p) =
      (if st1 \<noteq> ST_OK then Some (st1, s1, n1, p1)
       else if 4 - i - length bs = 0 then map_option (\<lambda>(st, s). (st, s, n1, p1)) (header_done env s1)
       else Some (ST_OK, s1\<lparr>in_msg := (in_msg s1)\<lparr>read_index := 4 - int (4 - i - length bs)\<rparr>\<rparr>, n1, p1))"
    using r by (simp add: read_header_def i_def s1_def Let_def)
  consider "st1 \<noteq> ST_OK" | "st1 = ST_OK" "4 - i - length bs = 0" | "st1 = ST_OK" "4 - i - length bs \<noteq> 0" by blast
  then show ?thesis
  proof cases
    case 1
    then show ?thesis using h assms(4-6) ok1 by (simp add: s1_def reading_ok_def)
  next
    case 2
    then have "map_option (\<lambda>(st, s). (st, s, n1, p1)) (header_done env s1) = Some (st, s', n', p')" using h assms(6) by simp
    then show ?thesis using header_done_ok [OF assms(1,2) ok1] by auto
  next
    case 3
    then have "s' = s1\<lparr>in_msg := (in_msg s1)\<lparr>read_index := 4 - int (4 - i - length bs)\<rparr>\<rparr>" using h assms(6) by simp
    moreover have "0 \<le> 4 - int (4 - i - length bs)" "4 - int (4 - i - length bs) < 4" using 3(2) by auto
    ultimately show ?thesis using ok1 assms(5) by (simp add: reading_ok_def engine_ok_def s1_def)
  qed
qed

lemma read_buffer_ok:
  assumes "junk_ok env" "polite (jtag_driver (jtag_env env))" "reads_at_most rd"
    and "reading_ok s" "read_state (in_msg s) = READ_STATE_BUFFER" "read_buffer env rd (s, n, p) = Some (st, s', n', p')"
  shows "reading_ok s'"
proof -
  define i where "i = nat (read_index (in_msg s))"
  define w where "w = nat (in_data_size (in_msg s)) - i"
  have i: "read_index (in_msg s) = int i" "in_data_size (in_msg s) = int (i + w)" "0 < w" "i + w \<le> 3000"
    and ok: "engine_ok s" and size: "get_message_size (imsg (in_msg s)) = int (i + w)"
    using assms(4,5) by (auto simp: reading_ok_def i_def w_def)
  obtain st1 bs p1 n1 where r: "rd w p n = (st1, bs, p1, n1)" by (metis prod_cases4)
  have l: "length bs \<le> w" using assms(3) r unfolding reads_at_most_def by blast
  define s1 where "s1 = s\<lparr>in_msg := (in_msg s)\<lparr>imsg := store_at (HEADER_SIZE + i) bs (imsg (in_msg s))\<rparr>\<rparr>"
  have st: "store_at (HEADER_SIZE + i) bs (imsg (in_msg s)) = \<lparr>header = header (imsg (in_msg s)),
      buffer = take i (buffer (imsg (in_msg s))) @ bs @ drop (i + length bs) (buffer (imsg (in_msg s)))\<rparr>"
    by (rule store_at_payload) (use ok l i(4) in \<open>simp add: engine_ok_def\<close>)
  have ok1: "engine_ok s1" using ok l i(4) st by (simp add: s1_def engine_ok_def)
  have size1: "get_message_size (imsg (in_msg s1)) = int (i + w)"
    using size by (simp add: s1_def st get_message_size_def')
  have h: "read_buffer env rd (s, n, p) =
      (if st1 \<noteq> ST_OK then Some (st1, s1, n1, p1)
       else if w - length bs = 0 then map_option (\<lambda>(st, s). (st, s, n1, p1))
         (asd_msg_on_msg_recv env (s1\<lparr>in_msg := (in_msg s1)\<lparr>read_state := READ_STATE_INITIAL\<rparr>\<rparr>))
       else Some (ST_OK, s1\<lparr>in_msg := (in_msg s1)\<lparr>read_index := int (i + w) - int (w - length bs)\<rparr>\<rparr>, n1, p1))"
    using r i(1,2) by (simp add: read_buffer_def s1_def Let_def)
  consider "st1 \<noteq> ST_OK" | "st1 = ST_OK" "w - length bs = 0" | "st1 = ST_OK" "w - length bs \<noteq> 0" by blast
  then show ?thesis
  proof cases
    case 1
    then show ?thesis using h assms(4-6) ok1 size1 i by (simp add: s1_def reading_ok_def)
  next
    case 2
    let ?s = "s1\<lparr>in_msg := (in_msg s1)\<lparr>read_state := READ_STATE_INITIAL\<rparr>\<rparr>"
    have "map_option (\<lambda>(st, s). (st, s, n1, p1)) (asd_msg_on_msg_recv env ?s) = Some (st, s', n', p')"
      using h assms(6) 2 by simp
    then have "asd_msg_on_msg_recv env ?s = Some (st, s')" by auto
    then show ?thesis
      by (rule on_msg_recv_ok [OF assms(1,2), of ?s st, rotated 3]) (use ok1 size1 in \<open>auto simp: engine_ok_def\<close>)
  next
    case 3
    then have "s' = s1\<lparr>in_msg := (in_msg s1)\<lparr>read_index := int (i + w) - int (w - length bs)\<rparr>\<rparr>" using h assms(6) by simp
    moreover have "0 \<le> int (i + w) - int (w - length bs)" "int (i + w) - int (w - length bs) < int (i + w)" using 3(2) by auto
    ultimately show ?thesis
      using ok1 size1 assms(5) i by (simp add: reading_ok_def engine_ok_def s1_def)
  qed
qed

lemma read_ok:
  assumes "junk_ok env" "polite (jtag_driver (jtag_env env))" "reads_at_most rd"
    and "reading_ok s" "asd_msg_read env rd (s, n, p) = Some (st, s', n', p')"
  shows "reading_ok s'"
proof -
  let ?s = "start_reading s"
  note ok = start_reading_ok [OF assms(4)]
  show ?thesis
  proof (cases "read_state (in_msg ?s) = READ_STATE_BUFFER")
    case True
    then show ?thesis using assms(5) read_buffer_ok [OF assms(1-3) ok(1) True] by (simp add: asd_msg_read_def)
  next
    case False
    then have hd: "read_state (in_msg ?s) = READ_STATE_HEADER" using ok(2) ReadState.exhaust by blast
    obtain st1 s1 n1 p1 where r: "read_header env rd (?s, n, p) = Some (st1, s1, n1, p1)"
      using assms(5) False by (auto simp: asd_msg_read_def split: option.splits)
    have ok1: "reading_ok s1" using read_header_ok [OF assms(1-3) ok(1) hd r] .
    show ?thesis
      using assms(5) False r ok1 read_buffer_ok [OF assms(1-3) ok1, of n1 p1 st s' n' p']
      by (auto simp: asd_msg_read_def split: if_splits)
  qed
qed

section \<open>The life of an engine\<close>

lemma length_mark_quotes [simp]: "length (mark_quotes first bs) = length bs"
  by (induction first bs rule: mark_quotes.induct) simp_all

lemma strstr_length:
  assumes "strstr line pat"
  shows "length pat \<le> length line"
proof -
  obtain i where "take (length pat) (drop i (c_string line)) = pat" using assms by (auto simp: strstr_def list_ex_iff)
  then have "length pat \<le> length (c_string line)"
    by (metis diff_le_self length_drop length_take min.cobounded1 min.commute order_trans)
  then show ?thesis using length_takeWhile_le [of _ line] unfolding c_string_def by (rule order_trans)
qed

lemma version_lines_ok:
  assumes "version_lines ls s = Some (st, s')" "length (bmc_version s) = BMC_VERSION_MAX" "bmc_version_size s = 0"
  shows "length (bmc_version s') = BMC_VERSION_MAX \<and> - 2 \<le> bmc_version_size s' \<and>
    bmc_version_size s' \<le> int BMC_VERSION_MAX \<and> out_msg s' = out_msg s \<and> in_msg s' = in_msg s \<and>
    vprobe_handler s' = vprobe_handler s"
  using assms
proof (induction ls s rule: version_lines.induct)
  case (2 line ls s)
  show ?case
  proof (cases "strstr line OPENBMC_V")
    case True
    have len: "length OPENBMC_V = 10" by (simp add: OPENBMC_V_def bytes_of_def)
    let ?n = "int (length line) - 12"
    obtain ok v where c: "memcpy_s (bmc_version s) 120 (Some (drop 11 line)) (size_t ?n) = (ok, v)" by fastforce
    have n: "- 2 \<le> ?n" using strstr_length [OF True] len by simp
    have s': "?n \<le> 120" "s' = s\<lparr>bmc_version_size := ?n, bmc_version := mark_quotes True (take (nat ?n) v) @ drop (nat ?n) v\<rparr>"
      using 2(2) True c by (auto simp: len Let_def split: if_splits)
    have "length v = 120"
    proof (cases "0 \<le> ?n")
      case True
      then have "size_t ?n = nat ?n" using s'(1) by (simp add: size_t_def)
      then show ?thesis using c 2(3) s'(1) True by (auto simp: memcpy_s_def split: if_splits)
    next
      case False
      then have "?n = -1 \<or> ?n = -2" using n by auto
      then have "size_t ?n = 4294967295 \<or> size_t ?n = 4294967294" by (auto simp: size_t_def)
      then show ?thesis using c 2(3) by (auto simp: memcpy_s_def)
    qed
    then show ?thesis using n s' by simp
  next
    case False
    then show ?thesis using 2 by simp
  qed
qed simp

lemma init_ok:
  assumes "asd_msg_init env valid exists vfile cfg g = Some (True, s)" "length (buffer (out_msg g)) = MAX_DATA_SIZE"
    and "length (buffer (imsg (in_msg g))) = MAX_DATA_SIZE" "length (probesConfig (vprobe_handler g)) = MAX_DATA_SIZE"
  shows "reading_ok s"
proof -
  obtain t where t: "op_new (admin env) = Some t" using assms(1)
    by (auto simp: asd_msg_init_def Let_def split: if_splits option.splits prod.splits)
  let ?s0 = "(fresh_handlers g)\<lparr>target_handler := t, asd_cfg := cfg, handlers_initialized := False,
      in_msg := (in_msg (fresh_handlers g))\<lparr>read_state := READ_STATE_INITIAL, read_index := 0\<rparr>,
      prdy_timeout := 0, jtag_chain_mode := JTAG_CHAIN_SELECT_MODE_SINGLE,
      bmc_version := replicate BMC_VERSION_MAX 0, bmc_version_size := 0\<rparr>"
  have s0: "length (buffer (out_msg ?s0)) = 3000" "length (buffer (imsg (in_msg ?s0))) = 3000"
    "remoteConfigs (vprobe_handler ?s0) = 0" "length (probesConfig (vprobe_handler ?s0)) = 3000"
    "read_state (in_msg ?s0) = READ_STATE_INITIAL"
    using assms(2-4) by (simp_all add: fresh_handlers_def vProbeHandler_def)
  have "\<exists>st. (case vfile of None \<Rightarrow> Some (ST_ERR, ?s0) | Some ls \<Rightarrow> version_lines ls ?s0) = Some (st, s)"
    using assms(1) t by (auto simp: asd_msg_init_def Let_def read_openbmc_version_def split: if_splits option.splits)
  then have "length (bmc_version s) = 120 \<and> - 2 \<le> bmc_version_size s \<and> out_msg s = out_msg ?s0 \<and>
      in_msg s = in_msg ?s0 \<and> vprobe_handler s = vprobe_handler ?s0"
    by (cases vfile) (auto dest: version_lines_ok)
  then show ?thesis using s0 by (simp add: reading_ok_def engine_ok_def)
qed

text \<open>The engine is created, reads packets off its connection and handles the events of the target.\<close>

inductive engine_reach :: "('d, 't, 'o) engine_env \<Rightarrow> 'n read_function \<Rightarrow> ('d, 't, 'o) i2c_engine \<Rightarrow> bool"
  for env :: "('d, 't, 'o) engine_env" and rd :: "'n read_function" where
  created: "\<lbrakk>asd_msg_init env valid exists vfile cfg g = Some (True, s); length (buffer (out_msg g)) = MAX_DATA_SIZE;
      length (buffer (imsg (in_msg g))) = MAX_DATA_SIZE; length (probesConfig (vprobe_handler g)) = MAX_DATA_SIZE\<rbrakk>
    \<Longrightarrow> engine_reach env rd s"
| reads: "engine_reach env rd s \<Longrightarrow> asd_msg_read env rd (s, n, p) = Some (st, s', n', p') \<Longrightarrow> engine_reach env rd s'"
| event: "engine_reach env rd s \<Longrightarrow> asd_msg_event env pfd s = Some (st, s') \<Longrightarrow> engine_reach env rd s'"
| fail_enable: "engine_reach env rd s \<Longrightarrow> engine_reach env rd (s\<lparr>xdp_fail_enable := b\<rparr>)"

lemma event_same:
  assumes "asd_msg_event env pfd s = Some (st, s')"
  shows "in_msg s' = in_msg s \<and> out_msg s' = out_msg s \<and> fixed_part s' = fixed_part s"
  using assms
  by (auto simp: asd_msg_event_def send_pin_event_def send_error_def Let_def split: option.splits prod.splits if_splits)

lemma engine_reach_ok:
  assumes "engine_reach env rd s" "junk_ok env" "polite (jtag_driver (jtag_env env))" "reads_at_most rd"
  shows "reading_ok s"
  using assms(1)
proof (induction rule: engine_reach.induct)
  case (created valid exist vfile cfg g s)
  then show ?case by (intro init_ok)
next
  case (reads s n p st s' n' p')
  then show ?case using read_ok [OF assms(2-4)] by blast
next
  case (event s pfd st s')
  then show ?case using event_same [OF event.hyps(2)] by (simp add: reading_ok_def engine_ok_def fixed_part_def)
next
  case (fail_enable s b)
  then show ?case by (simp add: reading_ok_def engine_ok_def)
qed

section \<open>Packets in pieces\<close>

text \<open>A connection whose bytes arrive in pieces: a call gets at most one of them.\<close>

definition piecewise :: "u8 list list read_function" where
  "piecewise want p n = (case n of
       [] \<Rightarrow> (ST_OK, [], False, [])
     | c # cs \<Rightarrow> (ST_OK, take want c, drop want c \<noteq> [] \<or> cs \<noteq> [], if drop want c = [] then cs else drop want c # cs))"

fun read_calls :: "('d, 't, 'o) engine_env \<Rightarrow> 'n read_function \<Rightarrow> nat \<Rightarrow> ('d, 't, 'o, 'n) reading
    \<Rightarrow> ('d, 't, 'o, 'n) reading outcome" where
  "read_calls env rd 0 x = Some (ST_OK, x)"
| "read_calls env rd (Suc k) x = then_ok (asd_msg_read env rd x) (read_calls env rd k)"

definition only_in :: "('d, 't, 'o) i2c_engine \<Rightarrow> ('d, 't, 'o) i2c_engine \<Rightarrow> bool" where
  "only_in s s' \<longleftrightarrow> s' = s\<lparr>in_msg := in_msg s'\<rparr>"

lemma only_in_trans: "only_in s t \<Longrightarrow> only_in t u \<Longrightarrow> only_in s u"
  unfolding only_in_def by (cases s; cases t; cases u) simp

lemma only_in_update [simp]: "only_in s (s\<lparr>in_msg := x\<rparr>)"
  by (simp add: only_in_def)

text \<open>An engine that has received \<open>got\<close> of the payload and waits for \<open>w\<close> more bytes.\<close>

definition waiting :: "message_header \<Rightarrow> u8 list \<Rightarrow> nat \<Rightarrow> ('d, 't, 'o) i2c_engine \<Rightarrow> bool" where
  "waiting h got w s \<longleftrightarrow> length got + w \<le> MAX_DATA_SIZE \<and> 0 < w \<and>
     in_msg s = \<lparr>read_index = int (length got), in_data_size = int (length got + w), read_state = READ_STATE_BUFFER,
       imsg = \<lparr>header = h, buffer = got @ replicate (MAX_DATA_SIZE - length got) 0\<rparr>\<rparr>"

lemma read_piece:
  assumes "waiting h got w s" "length c \<le> w"
  shows "\<exists>s'. read_buffer env piecewise (s, c # cs, p) =
      (if length c = w then map_option (\<lambda>(st, t). (st, t, cs, cs \<noteq> [])) (asd_msg_on_msg_recv env s')
       else Some (ST_OK, s', cs, cs \<noteq> [])) \<and>
    only_in s s' \<and> imsg (in_msg s') = \<lparr>header = h, buffer = (got @ c) @ replicate (MAX_DATA_SIZE - length (got @ c)) 0\<rparr> \<and>
    (length c = w \<longrightarrow> read_state (in_msg s') = READ_STATE_INITIAL) \<and> (length c \<noteq> w \<longrightarrow> waiting h (got @ c) (w - length c) s')"
proof -
  let ?buf = "got @ replicate (MAX_DATA_SIZE - length got) 0"
  have w: "length got + w \<le> 3000" "0 < w"
    and i: "read_index (in_msg s) = int (length got)" "in_data_size (in_msg s) = int (length got + w)"
    "read_state (in_msg s) = READ_STATE_BUFFER" "imsg (in_msg s) = \<lparr>header = h, buffer = ?buf\<rparr>"
    using assms(1) by (simp_all add: waiting_def)
  have r: "piecewise w p (c # cs) = (ST_OK, c, cs \<noteq> [], cs)"
    using assms(2) by (simp add: piecewise_def)
  let ?m = "\<lparr>header = h, buffer = (got @ c) @ replicate (MAX_DATA_SIZE - length (got @ c)) 0\<rparr>"
  have m: "store_at (HEADER_SIZE + length got) c (imsg (in_msg s)) = ?m"
  proof -
    have "drop (length got + length c) ?buf = replicate (3000 - length (got @ c)) 0" by simp
    then show ?thesis using store_at_payload [of "length got" c "imsg (in_msg s)"] assms(2) w i by simp
  qed
  have want: "nat (in_data_size (in_msg s) - read_index (in_msg s)) = w" using i by simp
  define s1 where "s1 = s\<lparr>in_msg := (in_msg s)\<lparr>imsg := ?m\<rparr>\<rparr>"
  have e: "read_buffer env piecewise (s, c # cs, p) =
      (if w - length c = 0 then map_option (\<lambda>(st, t). (st, t, cs, cs \<noteq> []))
          (asd_msg_on_msg_recv env (s1\<lparr>in_msg := (in_msg s1)\<lparr>read_state := READ_STATE_INITIAL\<rparr>\<rparr>))
       else Some (ST_OK, s1\<lparr>in_msg := (in_msg s1)\<lparr>read_index := int (length got + w) - int (w - length c)\<rparr>\<rparr>, cs, cs \<noteq> []))"
    using m want r i by (simp add: read_buffer_def s1_def Let_def)
  show ?thesis
  proof (cases "length c = w")
    case True
    then show ?thesis
      by (intro exI [of _ "s1\<lparr>in_msg := (in_msg s1)\<lparr>read_state := READ_STATE_INITIAL\<rparr>\<rparr>"]) (simp add: e s1_def)
  next
    case False
    have i': "int (length got + w) - int (w - length c) = int (length (got @ c))" using assms(2) by simp
    show ?thesis
      using False assms(2) i w unfolding e i'
      by (intro exI [of _ "s1\<lparr>in_msg := (in_msg s1)\<lparr>read_index := int (length (got @ c))\<rparr>\<rparr>"]) (simp add: s1_def waiting_def)
  qed
qed

lemma read_waiting: "waiting h got w s \<Longrightarrow> asd_msg_read env rd (s, n, p) = read_buffer env rd (s, n, p)"
  by (simp add: asd_msg_read_def start_reading_def waiting_def)

lemma pieces_waiting:
  assumes "waiting h got (length (concat (c # cs))) s" "[] \<notin> set (c # cs)"
  shows "\<exists>x s'. read_calls env piecewise (length cs) (s, c # cs, p) = Some (ST_OK, x) \<and>
    asd_msg_read env piecewise x = map_option (\<lambda>(st, t). (st, t, [], False)) (asd_msg_on_msg_recv env s') \<and>
    only_in s s' \<and> read_state (in_msg s') = READ_STATE_INITIAL \<and>
    imsg (in_msg s') = \<lparr>header = h, buffer = (got @ concat (c # cs)) @ replicate (MAX_DATA_SIZE - length (got @ concat (c # cs))) 0\<rparr>"
  using assms
proof (induction cs arbitrary: c got s p)
  case Nil
  then have w: "waiting h got (length c) s" by simp
  show ?case
    using read_piece [OF w order_refl, of env "[]" p] read_waiting [OF w, of env piecewise] by auto
next
  case (Cons d ds)
  define w where "w = length (concat (c # d # ds))"
  have le: "length c \<le> w" and ne: "length c \<noteq> w" using Cons.prems(2) by (auto simp: w_def)
  have ww: "waiting h got w s" using Cons.prems(1) by (simp only: w_def)
  obtain s1 where s1: "read_buffer env piecewise (s, c # d # ds, p) = Some (ST_OK, s1, d # ds, True)"
    "only_in s s1" "waiting h (got @ c) (w - length c) s1"
    using read_piece [OF ww le, of env "d # ds" p] ne by auto
  have "waiting h (got @ c) (length (concat (d # ds))) s1" using s1(3) by (simp add: w_def)
  moreover have "[] \<notin> set (d # ds)" using Cons.prems(2) by simp
  ultimately obtain x s' where x: "read_calls env piecewise (length ds) (s1, d # ds, True) = Some (ST_OK, x)"
    "asd_msg_read env piecewise x = map_option (\<lambda>(st, t). (st, t, [], False)) (asd_msg_on_msg_recv env s')"
    "only_in s1 s'" "read_state (in_msg s') = READ_STATE_INITIAL"
    "imsg (in_msg s') = \<lparr>header = h, buffer = ((got @ c) @ concat (d # ds)) @
       replicate (MAX_DATA_SIZE - length ((got @ c) @ concat (d # ds))) 0\<rparr>"
    by (insert Cons.IH [of "got @ c" d s1 True], elim impE meta_impE exE conjE) (assumption | rule that)+
  have "only_in s s'" using only_in_trans [OF s1(2) x(3)] .
  moreover have "asd_msg_read env piecewise (s, c # d # ds, p) = Some (ST_OK, s1, d # ds, True)"
    by (simp add: read_waiting [OF Cons.prems(1)] s1(1))
  ultimately show ?case using x by (intro exI [of _ x] exI [of _ s']) simp
qed

text \<open>The header in one piece, with the payload behind it.\<close>

lemma header_piece:
  assumes "read_state (in_msg s) = READ_STATE_INITIAL" "get_message_size \<lparr>header = h, buffer = bs\<rparr> = int w" "0 < w"
  shows "\<exists>s1. read_header env piecewise (start_reading s, encode_header h # c # cs, p) = Some (ST_OK, s1, c # cs, True) \<and>
    waiting h [] w s1 \<and> only_in s s1"
proof -
  have w: "w \<le> 3000" using get_message_size_range [of "\<lparr>header = h, buffer = bs\<rparr>"] assms(2) by auto
  let ?m = "\<lparr>header = h, buffer = replicate 3000 0\<rparr>"
  let ?s = "s\<lparr>in_msg := \<lparr>read_index = 0, in_data_size = 0, read_state = READ_STATE_HEADER, imsg = ?m\<rparr>\<rparr>"
  have g: "get_message_size ?m = int w" using assms(2) by (simp add: get_message_size_def')
  have "store_at 0 (encode_header h) \<lparr>header = decode_header (replicate 4 0), buffer = replicate 3000 0\<rparr> = ?m"
    by (simp add: store_at_def decode_encode_header)
  then have "read_header env piecewise (start_reading s, encode_header h # c # cs, p) =
      map_option (\<lambda>(st, t). (st, t, c # cs, True)) (header_done env ?s)"
    using assms(1) by (simp add: read_header_def start_reading_def piecewise_def)
  moreover have "header_done env ?s = Some (ST_OK, ?s\<lparr>in_msg := (in_msg ?s)\<lparr>read_state := READ_STATE_BUFFER,
      read_index := 0, in_data_size := int w\<rparr>\<rparr>)"
    using assms(3) g by (simp add: header_done_def)
  ultimately show ?thesis
    using assms(3) w by (intro exI [of _ "?s\<lparr>in_msg := (in_msg ?s)\<lparr>read_state := READ_STATE_BUFFER,
      read_index := 0, in_data_size := int w\<rparr>\<rparr>"]) (simp add: waiting_def)
qed

section \<open>Properties\<close>


text \<open>
  C18. From its creation on, over every series of reads and events, the engine is well formed: its message
  buffers keep their 3000 bytes and the version its 120, the index of a partial header is below 4 and
  that of a partial payload below the announced size, which is at most 3000. So no read is asked for more than
  the buffer holds, whatever arrives.
\<close>

theorem engine_stays_well_formed:
  assumes "engine_reach env rd s" "junk_ok env" "polite (jtag_driver (jtag_env env))" "reads_at_most rd"
  shows "length (buffer (out_msg s)) = MAX_DATA_SIZE \<and> length (buffer (imsg (in_msg s))) = MAX_DATA_SIZE \<and>
    length (bmc_version s) = BMC_VERSION_MAX \<and>
    (read_state (in_msg s) = READ_STATE_HEADER \<longrightarrow>
       0 \<le> read_index (in_msg s) \<and> read_index (in_msg s) < int HEADER_SIZE) \<and>
    (read_state (in_msg s) = READ_STATE_BUFFER \<longrightarrow>
       0 \<le> read_index (in_msg s) \<and> read_index (in_msg s) < in_data_size (in_msg s) \<and>
       in_data_size (in_msg s) \<le> int MAX_DATA_SIZE)"
  using engine_reach_ok [OF assms] by (simp_all add: reading_ok_def engine_ok_def)

text \<open>
  C17. A packet whose header arrives in one piece is put together whatever the pieces of its payload: after one
  call less than there are pieces, the last call hands exactly the header and the payload, padded
  with zeros, to the dispatcher, with the engine idle again and nothing else of it changed.
\<close>

theorem packet_reassembled:
  assumes "read_state (in_msg s) = READ_STATE_INITIAL" "pieces \<noteq> []" "[] \<notin> set pieces"
    and "get_message_size \<lparr>header = h, buffer = []\<rparr> = int (length (concat pieces))"
  shows "\<exists>x s'. read_calls env piecewise (length pieces - 1) (s, encode_header h # pieces, p) = Some (ST_OK, x) \<and>
    asd_msg_read env piecewise x = map_option (\<lambda>(st, t). (st, t, [], False)) (asd_msg_on_msg_recv env s') \<and>
    s' = s\<lparr>in_msg := in_msg s'\<rparr> \<and> read_state (in_msg s') = READ_STATE_INITIAL \<and>
    imsg (in_msg s') = \<lparr>header = h, buffer = concat pieces @ replicate (MAX_DATA_SIZE - length (concat pieces)) 0\<rparr>"
proof -
  obtain c cs where cs: "pieces = c # cs" using assms(2) by (cases pieces) auto
  have len: "0 < length (concat pieces)" using assms(3) cs by auto
  obtain s1 where s1: "read_header env piecewise (start_reading s, encode_header h # c # cs, p) = Some (ST_OK, s1, c # cs, True)"
    "waiting h [] (length (concat pieces)) s1" "only_in s s1"
    using header_piece [OF assms(1,4) len, of env c cs p] unfolding only_in_def by blast
  have rd: "asd_msg_read env piecewise (s, encode_header h # c # cs, p) = read_buffer env piecewise (s1, c # cs, True)"
    using assms(1) s1(1,2) by (simp add: asd_msg_read_def waiting_def start_reading_def)
  have w: "waiting h [] (length (concat (c # cs))) s1" using s1(2) cs by simp
  have ne: "[] \<notin> set (c # cs)" using assms(3) cs by simp
  obtain x s' where x: "read_calls env piecewise (length cs) (s1, c # cs, True) = Some (ST_OK, x)"
    "asd_msg_read env piecewise x = map_option (\<lambda>(st, t). (st, t, [], False)) (asd_msg_on_msg_recv env s')"
    "only_in s1 s'" "read_state (in_msg s') = READ_STATE_INITIAL"
    "imsg (in_msg s') = \<lparr>header = h, buffer = ([] @ concat (c # cs)) @ replicate (MAX_DATA_SIZE - length ([] @ concat (c # cs))) 0\<rparr>"
    by (insert pieces_waiting [OF w ne, of env True], elim exE conjE) (rule that; assumption)
  have s': "s' = s\<lparr>in_msg := in_msg s'\<rparr>" using only_in_trans [OF s1(3) x(3)] by (simp add: only_in_def)
  show ?thesis
  proof (cases cs)
    case Nil
    then have "x = (s1, [c], True)" using x(1) by simp
    then have "asd_msg_read env piecewise (s, encode_header h # c # cs, p) =
        map_option (\<lambda>(st, t). (st, t, [], False)) (asd_msg_on_msg_recv env s')"
      using x(2) rd Nil by (simp add: read_waiting [OF w])
    then show ?thesis using s' x(4,5) cs Nil by (intro exI [of _ "(s, encode_header h # c # cs, p)"] exI [of _ s']) simp
  next
    case (Cons d ds)
    have "read_calls env piecewise (length cs) (s, encode_header h # c # cs, p) = Some (ST_OK, x)"
      using x(1) rd Cons by (simp add: read_waiting [OF w])
    then show ?thesis using s' x(2,4,5) cs by (intro exI [of _ x] exI [of _ s']) simp
  qed
qed

text \<open>
  C39. A header that arrives in two pieces is misread. The rest of it is stored four bytes further for
  each byte that was there, behind the header instead of within it: the packet is taken for one whose
  header ends in zeros, with a smaller size, another tag or another command. In one piece it is read as it is.
\<close>

theorem header_in_pieces:
  assumes "read_state (in_msg s) = READ_STATE_INITIAL" "length hs = HEADER_SIZE" "0 < k" "k < HEADER_SIZE"
    and "rd HEADER_SIZE p n = (ST_OK, take k hs, p1, n1)" "rd (HEADER_SIZE - k) p1 n1 = (ST_OK, drop k hs, p2, n2)"
    and "whole HEADER_SIZE p n = (ST_OK, hs, p1, n1)"
  shows "\<exists>s1 x y. asd_msg_read env rd (s, n, p) = Some (ST_OK, s1, n1, p1) \<and>
    start_reading s1 = s1 \<and> read_header env rd (s1, n1, p1) = map_option (\<lambda>(st, t). (st, t, n2, p2)) (header_done env x) \<and>
    header (imsg (in_msg x)) = decode_header (take k hs @ replicate (HEADER_SIZE - k) 0) \<and>
    read_header env whole (start_reading s, n, p) = map_option (\<lambda>(st, t). (st, t, n1, p1)) (header_done env y) \<and>
    header (imsg (in_msg y)) = decode_header hs"
proof -
  let ?z = "\<lparr>header = decode_header (replicate 4 0), buffer = replicate 3000 0\<rparr>"
  let ?h = "decode_header (take k hs @ replicate (4 - k) 0)"
  let ?m1 = "\<lparr>header = ?h, buffer = replicate 3000 0\<rparr>"
  define s1 where "s1 = s\<lparr>in_msg := \<lparr>read_index = int k, in_data_size = 0, read_state = READ_STATE_HEADER, imsg = ?m1\<rparr>\<rparr>"
  have z: "encode_header (decode_header (replicate 4 0)) = (replicate 4 0 :: u8 list)"
    by (rule encode_decode_header) simp
  have m1: "store_at 0 (take k hs) ?z = ?m1"
    using assms(2,4) z by (subst store_at_header) simp_all
  have i1: "int 4 - int (4 - k) = int k" "4 - length (take k hs) = 4 - k" using assms(2,4) by auto
  have r1: "read_header env rd (start_reading s, n, p) = Some (ST_OK, s1, n1, p1)"
    using assms(1,4,5) i1 m1 by (simp add: read_header_def start_reading_def s1_def)
  have a: "asd_msg_read env rd (s, n, p) = Some (ST_OK, s1, n1, p1)"
    using assms(1) r1 by (simp add: asd_msg_read_def start_reading_def s1_def)
  define x where "x = s1\<lparr>in_msg := (in_msg s1)\<lparr>imsg := store_at (4 * k) (drop k hs) ?m1\<rparr>\<rparr>"
  have "store_at (4 * k) (drop k hs) ?m1 = store_at (4 + (4 * k - 4)) (drop k hs) ?m1" using assms(3) by simp
  also have "header \<dots> = ?h" by (subst store_at_payload) (use assms(2,4) in simp_all)
  finally have hx: "header (imsg (in_msg x)) = ?h" by (simp add: x_def)
  have r2: "read_header env rd (s1, n1, p1) = map_option (\<lambda>(st, t). (st, t, n2, p2)) (header_done env x)"
    using assms(2,4,6) by (simp add: read_header_def s1_def x_def)
  define y where "y = (start_reading s)\<lparr>in_msg := (in_msg (start_reading s))\<lparr>imsg := store_at 0 hs ?z\<rparr>\<rparr>"
  have hy: "header (imsg (in_msg y)) = decode_header hs"
    using assms(2) by (simp add: y_def store_at_header)
  have r3: "read_header env whole (start_reading s, n, p) = map_option (\<lambda>(st, t). (st, t, n1, p1)) (header_done env y)"
    using assms(1,2,7) by (simp add: read_header_def start_reading_def y_def)
  show ?thesis
    using a r2 r3 hx hy by (intro exI [of _ s1] exI [of _ x] exI [of _ y]) (simp add: start_reading_def s1_def)
qed

section \<open>A concrete server\<close>

definition demo_admin :: "unit target_admin" where
  "demo_admin = \<lparr>op_new = Some (), op_initialize = (\<lambda>_ t. (ST_OK, t)), op_deinitialize = (\<lambda>t. (ST_OK, t)),
     op_xdp_present = (\<lambda>_. False), op_get_fds = (\<lambda>_. (ST_OK, [])), op_event = (\<lambda>_ t. Some (ST_OK, ASD_EVENT_NONE, t))\<rparr>"

definition demo_engine :: "(aspeed_jtag, unit, int list) engine_env" where
  "demo_engine = \<lparr>jtag_env = demo_env, i2c_env_of = demo_i2c_env, admin = demo_admin\<rparr>"

lemma demo_engine_ok: "junk_ok demo_engine" "polite (jtag_driver (jtag_env demo_engine))"
  by (simp_all add: demo_engine_def junk_ok_def polite_aspeed)

text \<open>A request for the number of buffers in flight, with tag 3.\<close>

definition in_flight_request :: asd_message where
  "in_flight_request = \<lparr>header = decode_header [0, 0, 0x60, 3], buffer = replicate 3000 0\<rparr>"

definition asked_state :: "(aspeed_jtag, unit, int list) i2c_engine" where
  "asked_state = demo_i2c_state\<lparr>bmc_version := replicate 120 0,
     in_msg := \<lparr>read_index = 0, in_data_size = 0, read_state = READ_STATE_INITIAL, imsg = in_flight_request\<rparr>\<rparr>"

lemma request_header: "decode_header [0, 0, 0x60, 3] = \<lparr>origin_id = 0, reserved = 0, enc_bit = 0, mtype = 0,
    size_lsb = 0, size_msb = 0, tag = 3, cmd_stat = 3\<rparr>"
  by code_simp

lemma asked_ok: "engine_ok asked_state" "get_message_size (imsg (in_msg asked_state)) = 0"
  "imsg (in_msg asked_state) = in_flight_request" "client asked_state = ok_transport"
  by (simp_all add: asked_state_def engine_ok_def in_flight_request_def demo_i2c_state_def zero_message_def
      vProbeHandler_def request_header get_message_size_def')


theorem engine_stays_well_formed_witness:
  "\<exists>s. engine_reach demo_engine (\<lambda>want p (n :: nat). (ST_OK, take (min want 2) [0x20, 1], True, n)) s \<and>
     read_state (in_msg s) = READ_STATE_HEADER \<and> read_index (in_msg s) = 2 \<and> length (bmc_version s) = 120"
proof -
  let ?rd = "\<lambda>want p (n :: nat). (ST_OK, take (min want 2) [0x20, 1] :: u8 list, True, n)"
  obtain s where s: "asd_msg_init demo_engine True False None demo_config demo_i2c_state = Some (True, s)"
    "read_state (in_msg s) = READ_STATE_INITIAL"
    by (simp add: asd_msg_init_def demo_engine_def demo_admin_def read_openbmc_version_def Let_def)
  have r0: "engine_reach demo_engine ?rd s"
    by (rule engine_reach.created [OF s(1)]) (simp_all add: demo_i2c_state_def zero_message_def vProbeHandler_def)
  obtain s1 where s1: "asd_msg_read demo_engine ?rd (s, 0, True) = Some (ST_OK, s1, 0, True)"
    "read_state (in_msg s1) = READ_STATE_HEADER" "read_index (in_msg s1) = 2"
    using s(2) by (simp add: asd_msg_read_def read_header_def start_reading_def)
  have r1: "engine_reach demo_engine ?rd s1" using engine_reach.reads [OF r0 s1(1)] .
  have at_most: "reads_at_most ?rd" by (simp add: reads_at_most_def)
  from engine_stays_well_formed [OF r1 demo_engine_ok at_most] r1 s1(2,3) show ?thesis by blast
qed

theorem packet_reassembled_witness:
  "\<exists>x s'. read_calls demo_engine piecewise 1 (demo_i2c_state, encode_header (header (packet_with [0x20, 7, 9])) # [[0x20], [7, 9]], True)
       = Some (ST_OK, x) \<and> take 3 (buffer (imsg (in_msg s'))) = [0x20, 7, 9] \<and>
     asd_msg_read demo_engine piecewise x = map_option (\<lambda>(st, t). (st, t, [], False)) (asd_msg_on_msg_recv demo_engine s')"
proof -
  have i: "read_state (in_msg demo_i2c_state) = READ_STATE_INITIAL" by (simp add: demo_i2c_state_def)
  have n: "get_message_size \<lparr>header = header (packet_with [0x20, 7, 9]), buffer = []\<rparr> = int (length (concat [[0x20], [7, 9 :: u8]]))"
    using packet_with_simps(1) [of "[0x20, 7, 9]"] by (simp add: get_message_size_def')
  obtain x s' where "read_calls demo_engine piecewise (length [[0x20], [7, 9 :: u8]] - 1)
      (demo_i2c_state, encode_header (header (packet_with [0x20, 7, 9])) # [[0x20], [7, 9]], True) = Some (ST_OK, x)"
    "asd_msg_read demo_engine piecewise x = map_option (\<lambda>(st, t). (st, t, [], False)) (asd_msg_on_msg_recv demo_engine s')"
    "imsg (in_msg s') = \<lparr>header = header (packet_with [0x20, 7, 9]),
       buffer = concat [[0x20], [7, 9]] @ replicate (3000 - length (concat [[0x20], [7, 9 :: u8]])) 0\<rparr>"
    by (insert packet_reassembled [OF i _ _ n, of demo_engine True], elim meta_impE exE conjE)
      (simp | rule that; assumption)+
  then show ?thesis by (intro exI [of _ x] exI [of _ s']) simp
qed

theorem header_in_pieces_witness:
  "\<exists>s1 x. asd_msg_read demo_engine piecewise (demo_i2c_state, [[0x20], [2, 0x60, 0]], True) =
       Some (ST_OK, s1, [[2, 0x60, 0]], True) \<and>
     read_header demo_engine piecewise (s1, [[2, 0x60, 0]], True) =
       map_option (\<lambda>(st, t). (st, t, [], False)) (header_done demo_engine x) \<and>
     header (imsg (in_msg x)) = decode_header [0x20, 0, 0, 0]"
proof -
  let ?hs = "[0x20, 2, 0x60, 0] :: u8 list"
  let ?whole = "\<lambda>want (p :: bool) (n :: u8 list list). (ST_OK, take want ?hs, True, [[2, 0x60, 0]] :: u8 list list)"
  have h: "read_state (in_msg demo_i2c_state) = READ_STATE_INITIAL" "length ?hs = 4" "(0 :: nat) < 1" "(1 :: nat) < 4"
    "piecewise 4 True [[0x20], [2, 0x60, 0]] = (ST_OK, take 1 ?hs, True, [[2, 0x60, 0]])"
    "piecewise (4 - 1) True [[2, 0x60, 0]] = (ST_OK, drop 1 ?hs, False, [])"
    "?whole 4 True [[0x20], [2, 0x60, 0]] = (ST_OK, ?hs, True, [[2, 0x60, 0]])"
    by (simp_all add: demo_i2c_state_def piecewise_def)
  from header_in_pieces [where rd = piecewise and whole = ?whole and hs = ?hs and k = 1, OF h, of demo_engine]
  obtain s1 x where "asd_msg_read demo_engine piecewise (demo_i2c_state, [[0x20], [2, 0x60, 0]], True) = Some (ST_OK, s1, [[2, 0x60, 0]], True)"
    "read_header demo_engine piecewise (s1, [[2, 0x60, 0]], True) = map_option (\<lambda>(st, t). (st, t, [], False)) (header_done demo_engine x)"
    "header (imsg (in_msg x)) = decode_header (take 1 ?hs @ replicate (4 - 1) 0)" by blast
  then show ?thesis by (intro exI [of _ s1] exI [of _ x]) (simp add: eval_nat_numeral)
qed

end
