(* ===== verification/Gpio.thy ===== *)
theory Gpio
  imports Vprobe
begin

text \<open>
  The pins of \<^verbatim>\<open>gpio.c\<close>. A pin of the management controller is a directory of the kernel file system, an
  extended one (from 30000 on) is reached through functions of a library that is loaded for every call.
\<close>

section \<open>The kernel and the library\<close>

datatype open_mode = O_WRONLY | O_RDWR

datatype GPIO_EDGE = GPIO_EDGE_NONE | GPIO_EDGE_RISING | GPIO_EDGE_FALLING | GPIO_EDGE_BOTH
datatype GPIO_DIRECTION = GPIO_DIRECTION_IN | GPIO_DIRECTION_OUT | GPIO_DIRECTION_HIGH | GPIO_DIRECTION_LOW

text \<open>
  Opening returns -1 for a failure, writing the number of characters or -1; \<open>g_read\<close> goes to the start of
  the file and reads a character. Of the library: whether it loads, and its functions, \<^const>\<open>None\<close> for a
  symbol that is not found. They return a number, negative for an error, and what they leave in the
  variable they are given. \<open>stack_char\<close> is what an uninitialized character holds.
\<close>

record 'o gpio_os =
  g_open :: "string \<Rightarrow> open_mode \<Rightarrow> 'o \<Rightarrow> int \<times> 'o"
  g_close :: "int \<Rightarrow> 'o \<Rightarrow> 'o"
  g_write :: "int \<Rightarrow> string \<Rightarrow> 'o \<Rightarrow> int \<times> 'o"
  g_read :: "int \<Rightarrow> 'o \<Rightarrow> u8 option \<times> 'o"
  stack_char :: u8
  dl_open :: "'o \<Rightarrow> bool \<times> 'o"
  dl_close :: "'o \<Rightarrow> 'o"
  PDK_GPIOExport :: "(int \<Rightarrow> int \<Rightarrow> 'o \<Rightarrow> int \<times> int \<times> 'o) option"
  PDK_GPIOUnexport :: "(int \<Rightarrow> 'o \<Rightarrow> int \<times> unit \<times> 'o) option"
  PDK_GetGPIOData :: "(int \<Rightarrow> int \<Rightarrow> int \<Rightarrow> 'o \<Rightarrow> int \<times> int \<times> 'o) option"
  PDK_SetGPIOData :: "(int \<Rightarrow> int \<Rightarrow> int \<Rightarrow> 'o \<Rightarrow> int \<times> unit \<times> 'o) option"
  PDK_GPIOSetEdge :: "(int \<Rightarrow> GPIO_EDGE \<Rightarrow> 'o \<Rightarrow> int \<times> unit \<times> 'o) option"
  PDK_GPIOSetDirection :: "(int \<Rightarrow> GPIO_DIRECTION \<Rightarrow> 'o \<Rightarrow> int \<times> unit \<times> 'o) option"
  PDK_GPIOSetActiveLow :: "(int \<Rightarrow> bool \<Rightarrow> 'o \<Rightarrow> int \<times> unit \<times> 'o) option"

abbreviation (input) "EXTENDED_GPIO_START_NUM \<equiv> 30000 :: int"

text \<open>A call of the library, which is loaded and unloaded around it; \<open>old\<close> is what the variable held.\<close>

definition with_pdk :: "'o gpio_os \<Rightarrow> ('o \<Rightarrow> int \<times> 'a \<times> 'o) option \<Rightarrow> 'a \<Rightarrow> 'o \<Rightarrow> status \<times> 'a \<times> 'o" where
  "with_pdk os entry old w =
     (let (loaded, w) = dl_open os w
      in if \<not> loaded then (ST_ERR, old, w)
         else case entry of
                None \<Rightarrow> (ST_ERR, old, dl_close os w)
              | Some f \<Rightarrow> let (r, x, w) = f w in (if r < 0 then ST_ERR else ST_OK, x, dl_close os w))"

definition call_pdk :: "'o gpio_os \<Rightarrow> ('o \<Rightarrow> int \<times> unit \<times> 'o) option \<Rightarrow> 'o \<Rightarrow> status \<times> 'o" where
  "call_pdk os entry w = (let (st, _, w) = with_pdk os entry () w in (st, w))"

section \<open>The files of a pin\<close>

definition decimal_int :: "int \<Rightarrow> string" where
  "decimal_int n = (if n < 0 then CHR 0x2D # decimal (nat (- n)) else decimal (nat n))"

definition sysfs_path :: "int \<Rightarrow> string \<Rightarrow> string" where
  "sysfs_path gpio attr = ''/sys/class/gpio/gpio'' @ decimal_int gpio @ ''/'' @ attr"

text \<open>The pattern of the control files: open for writing, write, close.\<close>

definition gpio_control :: "'o gpio_os \<Rightarrow> string \<Rightarrow> string \<Rightarrow> 'o \<Rightarrow> int option \<times> 'o" where
  "gpio_control os path text w =
     (let (fd, w) = g_open os path O_WRONLY w
      in if fd \<ge> 0 then let (n, w) = g_write os fd text w in (Some n, g_close os fd w) else (None, w))"

definition gpio_export :: "'o gpio_os \<Rightarrow> int \<Rightarrow> int \<Rightarrow> 'o \<Rightarrow> status \<times> int \<times> 'o" where
  "gpio_export os gpio old w =
     (if gpio < EXTENDED_GPIO_START_NUM then
        let (gpio_fd, w) = g_open os (sysfs_path gpio ''value'') O_WRONLY w
        in if gpio_fd \<noteq> -1 then (ST_OK, gpio_fd, w)
           else let (fd, w) = g_open os ''/sys/class/gpio/export'' O_WRONLY w
                in if fd < 0 then (ST_ERR, gpio_fd, w)
                   else let (n, w) = g_write os fd (decimal_int gpio) w
                        in if n < 0 then (ST_ERR, gpio_fd, g_close os fd w)
                           else let (gpio_fd, w) = g_open os (sysfs_path gpio ''value'') O_RDWR w
                                in (if gpio_fd = -1 then ST_ERR else ST_OK, gpio_fd, g_close os fd w)
      else with_pdk os (map_option (\<lambda>f. f gpio old) (PDK_GPIOExport os)) old w)"

definition gpio_unexport :: "'o gpio_os \<Rightarrow> int \<Rightarrow> 'o \<Rightarrow> status \<times> 'o" where
  "gpio_unexport os gpio w =
     (if gpio < EXTENDED_GPIO_START_NUM then
        let (fd, w) = g_open os (sysfs_path gpio ''value'') O_WRONLY w
        in if fd \<ge> 0 then
             let w = g_close os fd w;
                 (r, w) = gpio_control os ''/sys/class/gpio/unexport'' (decimal_int gpio) w
             in (case r of None \<Rightarrow> ST_ERR | Some n \<Rightarrow> if n < 0 then ST_ERR else ST_OK, w)
           else (ST_OK, w)
      else call_pdk os (map_option (\<lambda>f. f gpio) (PDK_GPIOUnexport os)) w)"

text \<open>The result of the read is not looked at.\<close>

definition gpio_get_value :: "'o gpio_os \<Rightarrow> int \<Rightarrow> int \<Rightarrow> int \<Rightarrow> 'o \<Rightarrow> status \<times> int \<times> 'o" where
  "gpio_get_value os fd gpio old w =
     (if gpio < EXTENDED_GPIO_START_NUM then
        if fd \<ge> 0 then
          let (r, w) = g_read os fd w; ch = (case r of Some c \<Rightarrow> c | None \<Rightarrow> stack_char os)
          in (ST_OK, if ch \<noteq> 0x30 then 1 else 0, w)
        else (ST_ERR, old, w)
      else with_pdk os (map_option (\<lambda>f. f fd gpio old) (PDK_GetGPIOData os)) old w)"

definition gpio_set_value :: "'o gpio_os \<Rightarrow> int \<Rightarrow> int \<Rightarrow> int \<Rightarrow> 'o \<Rightarrow> status \<times> 'o" where
  "gpio_set_value os fd gpio val w =
     (if gpio < EXTENDED_GPIO_START_NUM then
        if fd \<ge> 0 then
          let (n, w) = g_write os fd (if val = 1 then ''1'' else ''0'') w in (if n = 1 then ST_OK else ST_ERR, w)
        else (ST_ERR, w)
      else call_pdk os (map_option (\<lambda>f. f fd gpio val) (PDK_SetGPIOData os)) w)"

definition edge_string :: "GPIO_EDGE \<Rightarrow> string" where
  "edge_string e = (case e of GPIO_EDGE_NONE \<Rightarrow> ''none'' | GPIO_EDGE_RISING \<Rightarrow> ''rising''
     | GPIO_EDGE_FALLING \<Rightarrow> ''falling'' | GPIO_EDGE_BOTH \<Rightarrow> ''both'')"

definition direction_string :: "GPIO_DIRECTION \<Rightarrow> string" where
  "direction_string d = (case d of GPIO_DIRECTION_IN \<Rightarrow> ''in'' | GPIO_DIRECTION_OUT \<Rightarrow> ''out''
     | GPIO_DIRECTION_HIGH \<Rightarrow> ''high'' | GPIO_DIRECTION_LOW \<Rightarrow> ''low'')"

definition gpio_set_edge :: "'o gpio_os \<Rightarrow> int \<Rightarrow> GPIO_EDGE \<Rightarrow> 'o \<Rightarrow> status \<times> 'o" where
  "gpio_set_edge os gpio edge w =
     (if gpio < EXTENDED_GPIO_START_NUM then
        let (r, w) = gpio_control os (sysfs_path gpio ''edge'') (edge_string edge) w
        in (if r = None then ST_ERR else ST_OK, w)
      else call_pdk os (map_option (\<lambda>f. f gpio edge) (PDK_GPIOSetEdge os)) w)"

definition gpio_set_direction :: "'o gpio_os \<Rightarrow> int \<Rightarrow> GPIO_DIRECTION \<Rightarrow> 'o \<Rightarrow> status \<times> 'o" where
  "gpio_set_direction os gpio direction w =
     (if gpio < EXTENDED_GPIO_START_NUM then
        let (r, w) = gpio_control os (sysfs_path gpio ''direction'') (direction_string direction) w
        in (if r = None then ST_ERR else ST_OK, w)
      else call_pdk os (map_option (\<lambda>f. f gpio direction) (PDK_GPIOSetDirection os)) w)"

definition gpio_set_active_low :: "'o gpio_os \<Rightarrow> int \<Rightarrow> bool \<Rightarrow> 'o \<Rightarrow> status \<times> 'o" where
  "gpio_set_active_low os gpio active_low w =
     (if gpio < EXTENDED_GPIO_START_NUM then
        let (r, w) = gpio_control os (sysfs_path gpio ''active_low'') (if active_low then ''1'' else ''0'') w
        in (case r of None \<Rightarrow> ST_ERR | Some n \<Rightarrow> if n = 1 then ST_OK else ST_ERR, w)
      else call_pdk os (map_option (\<lambda>f. f gpio active_low) (PDK_GPIOSetActiveLow os)) w)"

section \<open>Descriptors\<close>

text \<open>The laws of a kernel that keeps the open descriptors, for the calls on the pins.\<close>

definition keeps_pins :: "('o \<Rightarrow> int set) \<Rightarrow> 'o gpio_os \<Rightarrow> bool" where
  "keeps_pins opened os \<longleftrightarrow>
     (\<forall>path mode w. opens opened (g_open os path mode w) w \<and> fst (g_open os path mode w) \<ge> -1) \<and>
     (\<forall>fd w. opened (g_close os fd w) = opened w - {fd}) \<and>
     (\<forall>fd text w. opened (snd (g_write os fd text w)) = opened w) \<and>
     (\<forall>fd w. opened (snd (g_read os fd w)) = opened w)"

lemma keeps_pinsD:
  assumes "keeps_pins opened os"
  shows "g_open os path mode w = (fd, w') \<Longrightarrow> opens opened (fd, w') w \<and> fd \<ge> -1"
    and "opened (g_close os fd w) = opened w - {fd}"
    and "g_write os fd text w = (n, w') \<Longrightarrow> opened w' = opened w"
    and "g_read os fd w = (r, w') \<Longrightarrow> opened w' = opened w"
  using assms unfolding keeps_pins_def by (metis fst_conv, metis, metis snd_conv, metis snd_conv)

lemma gpio_control_files:
  assumes "keeps_pins opened os" "gpio_control os path text w = (r, w')"
  shows "opened w' = opened w"
proof -
  obtain fd w1 where o: "g_open os path O_WRONLY w = (fd, w1)" by fastforce
  obtain n w2 where n: "g_write os fd text w1 = (n, w2)" by fastforce
  show ?thesis
    using assms(2) o n keeps_pinsD(1) [OF assms(1) o] keeps_pinsD(3) [OF assms(1) n] keeps_pinsD(2) [OF assms(1), of fd w2]
    by (auto simp: gpio_control_def opens_def split: if_splits)
qed

text \<open>Exporting leaves open at most the descriptor it returns, which is a new one.\<close>

lemma gpio_export_files:
  assumes "keeps_pins opened os" "gpio < EXTENDED_GPIO_START_NUM" "gpio_export os gpio old w = (st, fd, w')"
  shows "opens opened (fd, w') w \<and> (st = ST_OK \<longleftrightarrow> fd \<noteq> -1) \<and> fd \<ge> -1"
proof -
  let ?path = "sysfs_path gpio ''value''"
  obtain fd1 w1 where o1: "g_open os ?path O_WRONLY w = (fd1, w1)" by fastforce
  obtain fd2 w2 where o2: "g_open os ''/sys/class/gpio/export'' O_WRONLY w1 = (fd2, w2)" by fastforce
  obtain n w3 where o3: "g_write os fd2 (decimal_int gpio) w2 = (n, w3)" by fastforce
  obtain fd4 w4 where o4: "g_open os ?path O_RDWR w3 = (fd4, w4)" by fastforce
  note k = keeps_pinsD(1) [OF assms(1) o1] keeps_pinsD(1) [OF assms(1) o2] keeps_pinsD(3) [OF assms(1) o3]
    keeps_pinsD(1) [OF assms(1) o4] keeps_pinsD(2) [OF assms(1), of fd2]
  have "(st, fd, w') = (if fd1 \<noteq> -1 then (ST_OK, fd1, w1) else if fd2 < 0 then (ST_ERR, fd1, w2)
      else if n < 0 then (ST_ERR, fd1, g_close os fd2 w3) else (if fd4 = -1 then ST_ERR else ST_OK, fd4, g_close os fd2 w4))"
    using assms(2,3) o1 o2 o3 o4 by (auto simp: gpio_export_def Let_def split: if_splits)
  then show ?thesis using k by (auto simp: opens_def split: if_splits)
qed

lemma gpio_unexport_files:
  assumes "keeps_pins opened os" "gpio < EXTENDED_GPIO_START_NUM" "gpio_unexport os gpio w = (st, w')"
  shows "opened w' = opened w"
proof -
  obtain fd w1 where o: "g_open os (sysfs_path gpio ''value'') O_WRONLY w = (fd, w1)" by fastforce
  obtain r w2 where c: "gpio_control os ''/sys/class/gpio/unexport'' (decimal_int gpio) (g_close os fd w1) = (r, w2)" by fastforce
  show ?thesis
    using assms(2,3) o c keeps_pinsD(1) [OF assms(1) o] keeps_pinsD(2) [OF assms(1), of fd w1] gpio_control_files [OF assms(1) c]
    by (auto simp: gpio_unexport_def opens_def Let_def split: if_splits)
qed

lemma gpio_set_files:
  assumes "keeps_pins opened os" "gpio < EXTENDED_GPIO_START_NUM"
  shows "gpio_set_edge os gpio e w = (st, w') \<Longrightarrow> opened w' = opened w"
    and "gpio_set_direction os gpio d w = (st, w') \<Longrightarrow> opened w' = opened w"
    and "gpio_set_active_low os gpio b w = (st, w') \<Longrightarrow> opened w' = opened w"
    and "gpio_set_value os fd gpio v w = (st, w') \<Longrightarrow> opened w' = opened w"
    and "gpio_get_value os fd gpio old w = (st, x, w') \<Longrightarrow> opened w' = opened w"
  using assms(2) gpio_control_files [OF assms(1)] keeps_pinsD(3,4) [OF assms(1)]
  by (auto simp: gpio_set_edge_def gpio_set_direction_def gpio_set_active_low_def gpio_set_value_def gpio_get_value_def
      Let_def split: prod.splits if_splits)

end
