(* ===== verification/Target_Handler.thy ===== *)
theory Target_Handler
  imports Asd_Msg Gpio
begin

text \<open>
  The target handler \<^verbatim>\<open>target_handler.c\<close> and the chassis commands of \<^verbatim>\<open>ipmi.c\<close>: what the server does
  to the machine it debugs, through its pins and through the management service. They provide the operations
  that the message engine calls.
\<close>

section \<open>Chassis commands\<close>

text \<open>
  The session library: whether a session could be made, whether a command was sent, with its
  response, which fits in the number of bytes it is asked for, and the numbers its headers define.
\<close>

record 'o ipmi_lib =
  create_session :: "'o \<Rightarrow> bool \<times> 'o"
  send_raw :: "u8 \<Rightarrow> u8 \<Rightarrow> u8 list \<Rightarrow> nat \<Rightarrow> 'o \<Rightarrow> bool \<times> u8 list \<times> 'o"
  close_session :: "'o \<Rightarrow> 'o"
  NETFN_CHASSIS :: u8
  CMD_CHASSIS_CONTROL :: u8
  CMD_GET_CHASSIS_STATUS :: u8
  CMD_WARM_RESET :: u8
  CC_SUCCESS :: u8
  CC_UNSPECIFIED_ERR :: u8

text \<open>The completion code and the response buffer of the caller.\<close>

type_synonym ipmi_answer = "u8 \<times> u8 list"

definition IntraBmcCmd :: "'o ipmi_lib \<Rightarrow> u8 \<Rightarrow> u8 \<Rightarrow> u8 list \<Rightarrow> ipmi_answer \<Rightarrow> 'o \<Rightarrow> int \<times> ipmi_answer \<times> 'o" where
  "IntraBmcCmd lib netfn cmd req = (\<lambda>(cc, rsp) w.
     let (ok, w) = create_session lib w
     in if \<not> ok then (-1, (cc, rsp), w)
        else let (ok, bs, w) = send_raw lib netfn cmd req (length rsp) w; rsp = bs @ drop (length bs) rsp; w = close_session lib w
             in if \<not> ok then (-1, (CC_UNSPECIFIED_ERR lib, rsp), w)
                else (sint (of_nat (length bs) :: u32), (CC_SUCCESS lib, rsp), w))"

fun ipmi_command :: "'o ipmi_lib \<Rightarrow> nat \<Rightarrow> u8 \<Rightarrow> u8 \<Rightarrow> u8 list \<Rightarrow> ipmi_answer \<Rightarrow> 'o \<Rightarrow> status \<times> ipmi_answer \<times> 'o" where
  "ipmi_command lib 0 netfn cmd req a w = (ST_ERR, a, w)"
| "ipmi_command lib (Suc retries) netfn cmd req a w =
     (let (n, a, w) = IntraBmcCmd lib netfn cmd req a w
      in if n \<ge> 0 then (ST_OK, a, w) else ipmi_command lib retries netfn cmd req a w)"

text \<open>The response of a control command is not read; \<open>replicate 5 0\<close> stands for its buffer.\<close>

definition chassis_control :: "'o ipmi_lib \<Rightarrow> u8 \<Rightarrow> 'o \<Rightarrow> status \<times> 'o" where
  "chassis_control lib b w =
     (let (st, (cc, _), w) = ipmi_command lib 2 (NETFN_CHASSIS lib) (CMD_CHASSIS_CONTROL lib) [b] (0xFF, replicate 5 0) w
      in (if st \<noteq> ST_OK \<or> cc \<noteq> 0 then ST_ERR else ST_OK, w))"

definition ipmi_reset_target :: "'o ipmi_lib \<Rightarrow> 'o \<Rightarrow> status \<times> 'o" where
  "ipmi_reset_target lib w = chassis_control lib (CMD_WARM_RESET lib) w"

definition ipmi_get_power_state :: "'o ipmi_lib \<Rightarrow> int \<Rightarrow> 'o \<Rightarrow> status \<times> int \<times> 'o" where
  "ipmi_get_power_state lib old w =
     (let (st, (_, rsp), w) = ipmi_command lib 2 (NETFN_CHASSIS lib) (CMD_GET_CHASSIS_STATUS lib) [] (0xFF, replicate 5 0) w
      in if st \<noteq> ST_OK then (st, old, w) else (ST_OK, int (unat (rsp ! 1 AND 1)), w))"

definition ipmi_set_power_state :: "'o ipmi_lib \<Rightarrow> int \<Rightarrow> bool \<Rightarrow> 'o \<Rightarrow> status \<times> 'o" where
  "ipmi_set_power_state lib garbage asrt w =
     (if \<not> asrt then (ST_OK, w)
      else let (st, cur, w) = ipmi_get_power_state lib garbage w
           in if st \<noteq> ST_OK then (ST_ERR, w) else chassis_control lib (of_int ((cur + 1) mod 2)) w)"

section \<open>The handler\<close>

abbreviation (input) "BMC_TCK_MUX_SEL \<equiv> 0 :: nat"
abbreviation (input) "BMC_PREQ_N \<equiv> 1 :: nat"
abbreviation (input) "BMC_PRDY_N \<equiv> 2 :: nat"
abbreviation (input) "BMC_RSMRST_B \<equiv> 3 :: nat"
abbreviation (input) "BMC_CPU_PWRGD \<equiv> 4 :: nat"
abbreviation (input) "BMC_PLTRST_B \<equiv> 5 :: nat"
abbreviation (input) "BMC_SYSPWROK \<equiv> 6 :: nat"
abbreviation (input) "BMC_PWR_DEBUG_N \<equiv> 7 :: nat"
abbreviation (input) "BMC_DEBUG_EN_N \<equiv> 8 :: nat"
abbreviation (input) "BMC_XDP_PRST_IN \<equiv> 9 :: nat"
abbreviation (input) "BMC_JTAG_SEL \<equiv> 10 :: nat"
abbreviation (input) "POWER_BTN \<equiv> 11 :: nat"
abbreviation (input) "RESET_BTN \<equiv> 12 :: nat"
abbreviation (input) "NUM_GPIOS \<equiv> 11 :: nat"
abbreviation (input) "POLLIN \<equiv> 1 :: u16"
abbreviation (input) "POLLPRI \<equiv> 2 :: u16"
abbreviation (input) "POLL_GPIO \<equiv> 10 :: u16"

definition ASD_PIN_TO_GPIO :: "nat list" where
  "ASD_PIN_TO_GPIO = [BMC_CPU_PWRGD, BMC_PREQ_N, RESET_BTN, POWER_BTN, BMC_PWR_DEBUG_N, BMC_SYSPWROK, BMC_PRDY_N, BMC_TCK_MUX_SEL]"

definition pin_names :: "string list" where
  "pin_names = [''TCK_MUX_SEL'', ''PREQ_N'', ''PRDY_N'', ''RSMRST_N'', ''SIO_POWER_GOOD'', ''PLTRST_N'', ''SYSPWROK'',
     ''PWR_DEBUG_N'', ''DEBUG_EN_N'', ''XDP_PRST_N'', ''JTAG_SEL'']"

datatype Pin_Type = PIN_NONE | PIN_GPIO | PIN_DBUS | PIN_GPIOD

text \<open>The functions a pin can be given for its events.\<close>

datatype event_function = on_power | on_platform_reset | on_prdy | on_xdp_present

record Target_Control_GPIO =
  pin_name :: string
  number :: int
  handler :: "event_function option"
  pin_fd :: int
  direction :: GPIO_DIRECTION
  edge :: GPIO_EDGE
  active_low :: bool
  pin_type :: Pin_Type

record event_configuration =
  break_all :: bool
  reset_break :: bool
  report_PRDY :: bool
  report_PLTRST :: bool
  report_MBP :: bool

record Target_Control_Handle =
  event_cfg :: event_configuration
  tc_initialized :: bool
  gpios :: "Target_Control_GPIO list"
  use_ipmi_interface :: bool
  is_master_probe :: bool
  xdp_present :: bool

text \<open>The configuration library, with \<^const>\<open>None\<close> for a symbol that is not found.\<close>

record asd_library =
  library_loads :: bool
  GetGPIOPin :: "(nat \<Rightarrow> int) option"
  GetGPIOEdge :: "(nat \<Rightarrow> GPIO_EDGE) option"
  GetGPIOActiveLow :: "(nat \<Rightarrow> bool) option"
  GetGPIOPinType :: "(nat \<Rightarrow> Pin_Type) option"
  GetGPIOPinDir :: "(nat \<Rightarrow> GPIO_DIRECTION) option"
  UseIPMIInterface :: "bool option"

text \<open>
  What surrounds the handler. \<open>stack_value\<close> and \<open>stack_status\<close> are what uninitialized variables hold, \<open>shifted\<close>
  the value of a shift of 1 by 31 and more, which the language leaves undefined.
\<close>

record 'o target_os =
  pins :: "'o gpio_os"
  chassis :: "'o ipmi_lib"
  t_poll :: "int \<Rightarrow> u16 \<Rightarrow> int \<Rightarrow> 'o \<Rightarrow> int \<times> 'o"
  t_usleep :: "nat \<Rightarrow> 'o \<Rightarrow> 'o"
  stack_value :: int
  stack_status :: status
  shifted :: "u8 \<Rightarrow> int"

type_synonym 'o target = "Target_Control_Handle \<times> 'o"

definition read_pin_value :: "'o target_os \<Rightarrow> Target_Control_GPIO \<Rightarrow> int \<Rightarrow> status \<Rightarrow> 'o \<Rightarrow> status \<times> int \<times> 'o" where
  "read_pin_value os g val result w =
     (if pin_type g = PIN_GPIO then gpio_get_value (pins os) (pin_fd g) (number g) val w else (result, val, w))"

definition write_pin_value :: "'o target_os \<Rightarrow> Target_Control_GPIO \<Rightarrow> int \<Rightarrow> status \<Rightarrow> 'o \<Rightarrow> status \<times> 'o" where
  "write_pin_value os g val result w =
     (if pin_type g = PIN_GPIO then gpio_set_value (pins os) (pin_fd g) (number g) val w else (result, w))"

definition get_pin_events :: "Target_Control_GPIO \<Rightarrow> u16 \<Rightarrow> u16" where
  "get_pin_events g events =
     (if pin_type g = PIN_GPIO then POLL_GPIO else if pin_type g = PIN_GPIOD then POLLIN OR POLLPRI else events)"

text \<open>
  The pins as the library describes them. The result is \<^const>\<open>None\<close> when a function that was not found is
  called, since the check of the last symbol looks at another one, and holds \<^const>\<open>None\<close> for a null handle.
\<close>

definition initialize_powergood_pin_handler :: "Target_Control_Handle \<Rightarrow> Target_Control_Handle" where
  "initialize_powergood_pin_handler h =
     (let g = gpios h ! BMC_CPU_PWRGD
      in if pin_type g = PIN_GPIO \<or> pin_type g = PIN_GPIOD
         then h\<lparr>gpios := (gpios h)[BMC_CPU_PWRGD := g\<lparr>handler := Some on_power\<rparr>]\<rparr> else h)"

definition set_handler :: "nat \<Rightarrow> event_function \<Rightarrow> Target_Control_Handle \<Rightarrow> Target_Control_Handle" where
  "set_handler i f h = h\<lparr>gpios := (gpios h)[i := (gpios h ! i)\<lparr>handler := Some f\<rparr>]\<rparr>"

definition configured_pin :: "(nat \<Rightarrow> int) \<Rightarrow> (nat \<Rightarrow> GPIO_EDGE) \<Rightarrow> (nat \<Rightarrow> bool) \<Rightarrow> (nat \<Rightarrow> Pin_Type)
    \<Rightarrow> (nat \<Rightarrow> GPIO_DIRECTION) \<Rightarrow> nat \<Rightarrow> Target_Control_GPIO" where
  "configured_pin pin edg low typ dir i = \<lparr>pin_name = pin_names ! i, number = pin i, handler = None, pin_fd = -1,
     direction = dir i, edge = edg i, active_low = low i, pin_type = typ i\<rparr>"

definition TargetHandler :: "asd_library \<Rightarrow> Target_Control_Handle option option" where
  "TargetHandler lib =
     (if \<not> library_loads lib then Some None
      else case (GetGPIOPin lib, GetGPIOEdge lib, GetGPIOActiveLow lib, GetGPIOPinType lib) of
        (Some pin, Some edg, Some low, Some typ) \<Rightarrow>
          (case GetGPIOPinDir lib of
             None \<Rightarrow> None
           | Some dir \<Rightarrow>
               let h = \<lparr>event_cfg = \<lparr>break_all = False, reset_break = False, report_PRDY = False,
                          report_PLTRST = False, report_MBP = False\<rparr>,
                     tc_initialized = False, gpios = map (configured_pin pin edg low typ dir) [0 ..< NUM_GPIOS],
                     use_ipmi_interface = (case UseIPMIInterface lib of Some b \<Rightarrow> b | None \<Rightarrow> False),
                     is_master_probe = False, xdp_present = False\<rparr>
               in Some (Some (set_handler BMC_XDP_PRST_IN on_xdp_present (set_handler BMC_PRDY_N on_prdy
                    (set_handler BMC_PLTRST_B on_platform_reset (initialize_powergood_pin_handler h))))))
      | _ \<Rightarrow> Some None)"

section \<open>Initialization\<close>

definition initialize_gpio :: "'o target_os \<Rightarrow> Target_Control_GPIO \<Rightarrow> 'o \<Rightarrow> status \<times> Target_Control_GPIO \<times> 'o" where
  "initialize_gpio os g w =
     (let num = number g; (st, fd, w) = gpio_export (pins os) num (pin_fd g) w; g = g\<lparr>pin_fd := fd\<rparr>;
          (st, w) = (if st = ST_OK then gpio_set_active_low (pins os) num (active_low g) w else (st, w));
          (st, w) = (if st = ST_OK then gpio_set_direction (pins os) num (direction g) w else (st, w));
          (st, w) = (if st = ST_OK then gpio_set_edge (pins os) num (edge g) w else (st, w))
      in (st, if st = ST_OK then g\<lparr>number := num\<rparr> else g, w))"

text \<open>Every pin, and a read that clears its events.\<close>

fun initialize_pins :: "'o target_os \<Rightarrow> nat list \<Rightarrow> 'o target \<Rightarrow> status \<times> 'o target" where
  "initialize_pins os [] (h, w) = (ST_OK, h, w)"
| "initialize_pins os (i # is) (h, w) =
     (if pin_type (gpios h ! i) = PIN_GPIO then
        let (st, g, w) = initialize_gpio os (gpios h ! i) w; h = h\<lparr>gpios := (gpios h)[i := g]\<rparr>
        in if st \<noteq> ST_OK then (st, h, w)
           else let (st, _, w) = gpio_get_value (pins os) (pin_fd g) (number g) (stack_value os) w
                in if st \<noteq> ST_OK then (st, h, w) else initialize_pins os is (h, w)
      else initialize_pins os is (h, w))"

definition initialize_gpios :: "'o target_os \<Rightarrow> 'o target \<Rightarrow> status \<times> 'o target" where
  "initialize_gpios os x = initialize_pins os [0 ..< NUM_GPIOS] x"

fun deinitialize_pins :: "'o target_os \<Rightarrow> Target_Control_GPIO list \<Rightarrow> status \<Rightarrow> 'o \<Rightarrow> status \<times> 'o" where
  "deinitialize_pins os [] result w = (result, w)"
| "deinitialize_pins os (g # gs) result w =
     (if pin_type g = PIN_GPIO then
        let (st, w) = gpio_set_direction (pins os) (number g) GPIO_DIRECTION_IN w;
            result = (if st \<noteq> ST_OK then ST_ERR else result);
            (st, w) = gpio_unexport (pins os) (number g) w;
            result = (if st \<noteq> ST_OK then ST_ERR else result)
        in deinitialize_pins os gs result w
      else deinitialize_pins os gs result w)"

definition deinitialize_gpios :: "'o target_os \<Rightarrow> 'o target \<Rightarrow> status \<times> 'o target" where
  "deinitialize_gpios os = (\<lambda>(h, w). let (st, w) = deinitialize_pins os (gpios h) ST_OK w in (st, h, w))"

definition check_xdp :: "'o target_os \<Rightarrow> bool \<Rightarrow> 'o target \<Rightarrow> status \<times> 'o target" where
  "check_xdp os xdp_fail = (\<lambda>(h, w).
     let (st, val, w) = read_pin_value os (gpios h ! BMC_XDP_PRST_IN) 0 ST_OK w
     in if st \<noteq> ST_OK then (st, h, w)
        else if val = 1 then (if xdp_fail then ST_ERR else ST_OK, h\<lparr>xdp_present := True\<rparr>, w)
        else (ST_OK, h, w))"

definition target_initialize :: "'o target_os \<Rightarrow> bool \<Rightarrow> 'o target \<Rightarrow> status \<times> 'o target" where
  "target_initialize os xdp_fail x =
     (if tc_initialized (fst x) then (ST_ERR, x)
      else let (st, x) = initialize_gpios os x;
               (st, h, w) = (if st = ST_OK then check_xdp os xdp_fail x else (st, x));
               (st, w) = (if st = ST_OK then write_pin_value os (gpios h ! BMC_DEBUG_EN_N) 1 st w else (st, w))
           in if st = ST_OK then (ST_OK, h\<lparr>tc_initialized := True\<rparr>, w)
              else (st, snd (deinitialize_gpios os (h, w))))"

fun close_pins :: "'o target_os \<Rightarrow> Target_Control_GPIO list \<Rightarrow> 'o \<Rightarrow> Target_Control_GPIO list \<times> 'o" where
  "close_pins os [] w = ([], w)"
| "close_pins os (g # gs) w =
     (let (g, w) = (if pin_type g = PIN_GPIO \<and> pin_fd g \<noteq> -1
                    then (g\<lparr>pin_fd := -1\<rparr>, g_close (pins os) (pin_fd g) w) else (g, w));
          (gs, w) = close_pins os gs w
      in (g # gs, w))"

definition target_deinitialize :: "'o target_os \<Rightarrow> 'o target \<Rightarrow> status \<times> 'o target" where
  "target_deinitialize os = (\<lambda>(h, w).
     if \<not> tc_initialized h then (ST_ERR, h, w)
     else let (gs, w) = close_pins os (gpios h) w in deinitialize_gpios os (h\<lparr>gpios := gs\<rparr>, w))"

section \<open>Events\<close>

definition on_power_event :: "'o target_os \<Rightarrow> 'o target \<Rightarrow> status \<times> ASD_EVENT \<times> 'o target" where
  "on_power_event os = (\<lambda>(h, w).
     let (st, val, w) = read_pin_value os (gpios h ! BMC_CPU_PWRGD) (stack_value os) (stack_status os) w
     in (st, if st \<noteq> ST_OK then ASD_EVENT_NONE else if val = 1 then ASD_EVENT_PWRRESTORE else ASD_EVENT_PWRFAIL, h, w))"

definition on_platform_reset_event :: "'o target_os \<Rightarrow> 'o target \<Rightarrow> status \<times> ASD_EVENT \<times> 'o target" where
  "on_platform_reset_event os = (\<lambda>(h, w).
     let (st, val, w) = read_pin_value os (gpios h ! BMC_PLTRST_B) (stack_value os) (stack_status os) w
     in if st \<noteq> ST_OK then (st, ASD_EVENT_NONE, h, w)
        else if val = 0 then
          let (st, w) = (if reset_break (event_cfg h) then write_pin_value os (gpios h ! BMC_PREQ_N) 1 st w else (st, w))
          in (st, ASD_EVENT_PLRSTDEASSRT, h, w)
        else (ST_OK, ASD_EVENT_PLRSTASSERT, h, w))"

definition on_prdy_event :: "'o target_os \<Rightarrow> 'o target \<Rightarrow> status \<times> ASD_EVENT \<times> 'o target" where
  "on_prdy_event os = (\<lambda>(h, w).
     if break_all (event_cfg h) then
       let (st, w) = write_pin_value os (gpios h ! BMC_PREQ_N) 1 ST_OK w;
           (st, w) = (if st = ST_OK \<and> \<not> reset_break (event_cfg h)
                      then write_pin_value os (gpios h ! BMC_PREQ_N) 0 st (t_usleep os 10000 w) else (st, w))
       in (st, ASD_EVENT_PRDY_EVENT, h, w)
     else (ST_OK, ASD_EVENT_PRDY_EVENT, h, w))"

definition on_xdp_present_event :: "'o target \<Rightarrow> status \<times> ASD_EVENT \<times> 'o target" where
  "on_xdp_present_event x = (ST_OK, ASD_EVENT_XDP_PRESENT, x)"

definition call_handler :: "'o target_os \<Rightarrow> event_function \<Rightarrow> 'o target \<Rightarrow> status \<times> ASD_EVENT \<times> 'o target" where
  "call_handler os f x = (case f of on_power \<Rightarrow> on_power_event os x | on_platform_reset \<Rightarrow> on_platform_reset_event os x
     | on_prdy \<Rightarrow> on_prdy_event os x | on_xdp_present \<Rightarrow> on_xdp_present_event x)"

definition target_event :: "'o target_os \<Rightarrow> pollfd \<Rightarrow> 'o target \<Rightarrow> (status \<times> ASD_EVENT \<times> 'o target) option" where
  "target_event os = (\<lambda>(fd, revents) (h, w).
     if \<not> tc_initialized h then Some (ST_ERR, ASD_EVENT_NONE, h, w)
     else if revents AND POLL_GPIO = POLL_GPIO then
       (case find (\<lambda>i. pin_type (gpios h ! i) = PIN_GPIO \<and> pin_fd (gpios h ! i) = fd) [0 ..< NUM_GPIOS] of
          None \<Rightarrow> Some (ST_ERR, ASD_EVENT_NONE, h, w)
        | Some i \<Rightarrow>
            let (_, _, w) = gpio_get_value (pins os) fd (number (gpios h ! i)) (stack_value os) w
            in map_option (\<lambda>f. call_handler os f (h, w)) (handler (gpios h ! i)))
     else Some (ST_OK, ASD_EVENT_NONE, h, w))"

section \<open>Commands\<close>

definition target_write :: "'o target_os \<Rightarrow> nat \<Rightarrow> bool \<Rightarrow> 'o target \<Rightarrow> status \<times> 'o target" where
  "target_write os pin asrt = (\<lambda>(h, w).
     if \<not> tc_initialized h then (ST_ERR, h, w)
     else if pin = PIN_RESET_BUTTON then
       (if use_ipmi_interface h \<and> asrt then let (st, w) = ipmi_reset_target (chassis os) w in (st, h, w) else (ST_OK, h, w))
     else if pin = PIN_POWER_BUTTON then
       (if asrt then
          let (st, _, w) = read_pin_value os (gpios h ! BMC_CPU_PWRGD) (stack_value os) ST_OK w
          in if st \<noteq> ST_OK then (st, h, w)
             else if use_ipmi_interface h then
               let (st, w) = ipmi_set_power_state (chassis os) (stack_value os) asrt w
               in (if st \<noteq> ST_OK then ST_ERR else ST_OK, h, w)
             else (ST_OK, h, w)
        else (ST_OK, h, w))
     else if pin = PIN_PREQ \<or> pin = PIN_TCK_MUX_SELECT \<or> pin = PIN_SYS_PWR_OK \<or> pin = PIN_EARLY_BOOT_STALL then
       let (st, w) = write_pin_value os (gpios h ! (ASD_PIN_TO_GPIO ! pin)) (if asrt then 1 else 0) ST_OK w in (st, h, w)
     else (ST_ERR, h, w))"

definition target_read :: "'o target_os \<Rightarrow> nat \<Rightarrow> 'o target \<Rightarrow> status \<times> bool \<times> 'o target" where
  "target_read os pin = (\<lambda>(h, w).
     if \<not> tc_initialized h then (ST_ERR, False, h, w)
     else if pin = PIN_PWRGOOD then
       let (st, val, w) = (if use_ipmi_interface h then ipmi_get_power_state (chassis os) (stack_value os) w
                           else read_pin_value os (gpios h ! BMC_CPU_PWRGD) (stack_value os) ST_OK w)
       in (st, st = ST_OK \<and> val \<noteq> 0, h, w)
     else if pin = PIN_PRDY \<or> pin = PIN_PREQ \<or> pin = PIN_SYS_PWR_OK \<or> pin = PIN_EARLY_BOOT_STALL then
       let (st, val, w) = read_pin_value os (gpios h ! (ASD_PIN_TO_GPIO ! pin)) (stack_value os) ST_OK w
       in (st, st = ST_OK \<and> val \<noteq> 0, h, w)
     else (ST_ERR, False, h, w))"

definition target_write_event_config :: "'o target_os \<Rightarrow> nat \<Rightarrow> bool \<Rightarrow> 'o target \<Rightarrow> status \<times> 'o target" where
  "target_write_event_config os cfg enable = (\<lambda>(h, w).
     let c = event_cfg h
     in if \<not> tc_initialized h then (ST_ERR, h, w)
        else if cfg = 0 then (ST_OK, h\<lparr>event_cfg := c\<lparr>break_all := enable\<rparr>\<rparr>, w)
        else if cfg = 1 then (ST_OK, h\<lparr>event_cfg := c\<lparr>reset_break := enable\<rparr>\<rparr>, w)
        else if cfg = 2 then
          let (_, _, w) = read_pin_value os (gpios h ! BMC_PRDY_N) 0 ST_ERR w
          in (ST_OK, h\<lparr>event_cfg := c\<lparr>report_PRDY := enable\<rparr>\<rparr>, w)
        else if cfg = 3 then (ST_OK, h\<lparr>event_cfg := c\<lparr>report_PLTRST := enable\<rparr>\<rparr>, w)
        else if cfg = 4 then (ST_OK, h\<lparr>event_cfg := c\<lparr>report_MBP := enable\<rparr>\<rparr>, w)
        else (ST_ERR, h, w))"

definition prdy_timeout_ms :: "'o target_os \<Rightarrow> u8 \<Rightarrow> int" where
  "prdy_timeout_ms os log2time =
     (let cycles = (if unat log2time < 31 then 2 ^ unat log2time else shifted os log2time);
          ms = sgn cycles * (\<bar>cycles\<bar> div 1000)
      in if ms \<le> 0 then 1 else ms)"

definition target_wait_PRDY :: "'o target_os \<Rightarrow> u8 \<Rightarrow> 'o target \<Rightarrow> status \<times> 'o target" where
  "target_wait_PRDY os log2time = (\<lambda>(h, w).
     if \<not> tc_initialized h then (ST_ERR, h, w)
     else let g = gpios h ! BMC_PRDY_N; (n, w) = t_poll os (pin_fd g) (get_pin_events g 0) (prdy_timeout_ms os log2time) w
          in (if n < 0 then ST_ERR else ST_OK, h, w))"

text \<open>The events of a pin that is neither kind of GPIO are those of the pin before it.\<close>

definition target_get_fds :: "'o target \<Rightarrow> status \<times> pollfd list" where
  "target_get_fds = (\<lambda>(h, w).
     let prdy = gpios h ! BMC_PRDY_N; rst = gpios h ! BMC_PLTRST_B; pwr = gpios h ! BMC_CPU_PWRGD; xdp = gpios h ! BMC_XDP_PRST_IN;
         e1 = get_pin_events prdy 0; e2 = get_pin_events rst e1; e3 = get_pin_events pwr e2; e4 = get_pin_events xdp e3
     in if \<not> tc_initialized h then (ST_ERR, [])
        else (ST_OK, (if report_PRDY (event_cfg h) \<and> pin_fd prdy \<noteq> -1 then [(pin_fd prdy, e1)] else [])
           @ (if pin_fd rst \<noteq> -1 then [(pin_fd rst, e2)] else [])
           @ (if (pin_type pwr = PIN_GPIOD \<or> pin_type pwr = PIN_GPIO) \<and> pin_fd pwr \<noteq> -1 then [(pin_fd pwr, e3)] else [])
           @ (if pin_fd xdp \<noteq> -1 then [(pin_fd xdp, e4)] else [])))"

definition target_wait_sync :: "'o target_os \<Rightarrow> u16 \<Rightarrow> u16 \<Rightarrow> 'o target \<Rightarrow> status \<times> 'o target" where
  "target_wait_sync os timeout delay = (\<lambda>(h, w).
     if \<not> tc_initialized h then (ST_ERR, h, w)
     else if is_master_probe h then (ST_ERR, h, t_usleep os (unat delay * 1000) w)
     else (ST_TIMEOUT, h, t_usleep os (unat timeout * 1000) w))"

section \<open>The operations the engine calls\<close>

definition spx_target :: "'o target_os \<Rightarrow> 'o target target_ops" where
  "spx_target os = \<lparr>op_write = target_write os, op_read = target_read os, op_write_event_config = target_write_event_config os,
     op_wait_PRDY = target_wait_PRDY os, op_wait_sync = target_wait_sync os\<rparr>"

text \<open>\<open>w\<close> is the world in which the engine is created.\<close>

definition spx_admin :: "'o target_os \<Rightarrow> Target_Control_Handle option \<Rightarrow> 'o \<Rightarrow> 'o target target_admin" where
  "spx_admin os h w = \<lparr>op_new = map_option (\<lambda>h. (h, w)) h, op_initialize = target_initialize os,
     op_deinitialize = target_deinitialize os, op_xdp_present = (\<lambda>(h, w). xdp_present h), op_get_fds = target_get_fds,
     op_event = target_event os\<rparr>"

section \<open>What the operations keep\<close>

text \<open>
  The laws of the kernel and the management library for the open descriptors. The pins are those of the
  management controller itself; what the library does for an extended pin is not known.
\<close>

definition keeps_target :: "('o \<Rightarrow> int set) \<Rightarrow> 'o target_os \<Rightarrow> bool" where
  "keeps_target opened os \<longleftrightarrow> keeps_pins opened (pins os) \<and>
     (\<forall>w. opened (snd (create_session (chassis os) w)) = opened w) \<and>
     (\<forall>a b c n w. opened (snd (snd (send_raw (chassis os) a b c n w))) = opened w) \<and>
     (\<forall>w. opened (close_session (chassis os) w) = opened w) \<and>
     (\<forall>fd e t w. opened (snd (t_poll os fd e t w)) = opened w) \<and>
     (\<forall>n w. opened (t_usleep os n w) = opened w)"

lemma keeps_targetD:
  assumes "keeps_target opened os"
  shows "keeps_pins opened (pins os)"
    and "create_session (chassis os) w = (ok, w') \<Longrightarrow> opened w' = opened w"
    and "send_raw (chassis os) a b c n w = (ok, bs, w') \<Longrightarrow> opened w' = opened w"
    and "opened (close_session (chassis os) w) = opened w"
    and "t_poll os fd e t w = (r, w') \<Longrightarrow> opened w' = opened w"
    and "opened (t_usleep os m w) = opened w"
  using assms unfolding keeps_target_def by (blast, metis snd_conv, metis snd_conv, blast, metis snd_conv, blast)

definition owned :: "Target_Control_Handle \<Rightarrow> int set" where
  "owned h = set (map pin_fd (gpios h)) - {-1}"

text \<open>What an operation never changes of a pin.\<close>

definition wiring :: "Target_Control_Handle \<Rightarrow> (Pin_Type \<times> int \<times> event_function option) list" where
  "wiring h = map (\<lambda>g. (pin_type g, number g, handler g)) (gpios h)"

text \<open>The pins hold distinct open descriptors, and only those of the controller have one.\<close>

definition fds_ok :: "('o \<Rightarrow> int set) \<Rightarrow> 'o target \<Rightarrow> bool" where
  "fds_ok opened = (\<lambda>(h, w). length (gpios h) = NUM_GPIOS \<and>
     (\<forall>g \<in> set (gpios h). number g < EXTENDED_GPIO_START_NUM \<and> (pin_type g \<noteq> PIN_GPIO \<longrightarrow> pin_fd g = -1)) \<and>
     owned h \<subseteq> opened w \<and> distinct (filter (\<lambda>fd. fd \<noteq> -1) (map pin_fd (gpios h))))"

lemma distinct_filter_update:
  "distinct (filter P xs) \<Longrightarrow> (P x \<Longrightarrow> x \<notin> set xs) \<Longrightarrow> distinct (filter P (xs[i := x]))"
proof (induction xs arbitrary: i)
  case (Cons y ys)
  show ?case
  proof (cases i)
    case (Suc j)
    then show ?thesis using Cons set_update_subset_insert [of ys j x] by (auto split: if_splits)
  qed (use Cons.prems in \<open>auto split: if_splits\<close>)
qed simp

lemma initialize_gpio_step:
  assumes "keeps_pins opened (pins os)" "number g < EXTENDED_GPIO_START_NUM" "initialize_gpio os g w = (st, g', w')"
  obtains fd where "g' = g\<lparr>pin_fd := fd\<rparr>" "opens opened (fd, w') w" "st = ST_OK \<longrightarrow> fd \<ge> 0"
proof -
  obtain st1 fd w1 where e: "gpio_export (pins os) (number g) (pin_fd g) w = (st1, fd, w1)"
    by (metis prod_cases3)
  note x = gpio_export_files [OF assms(1,2) e]
  note s = gpio_set_files(1-3) [OF assms(1,2)]
  have "g' = g\<lparr>pin_fd := fd\<rparr> \<and> opened w' = opened w1 \<and> (st = ST_OK \<longrightarrow> st1 = ST_OK)"
    using assms(3) e s by (auto simp: initialize_gpio_def Let_def split: prod.splits if_splits)
  then show ?thesis using x that [of fd] by (auto simp: opens_def)
qed

lemma fds_ok_update:
  assumes "fds_ok opened (h, w)" "i < NUM_GPIOS" "pin_type (gpios h ! i) = PIN_GPIO" "opens opened (fd, w') w"
  shows "fds_ok opened (h\<lparr>gpios := (gpios h)[i := (gpios h ! i)\<lparr>pin_fd := fd\<rparr>]\<rparr>, w')"
proof -
  let ?g = "(gpios h ! i)\<lparr>pin_fd := fd\<rparr>"
  have m: "map pin_fd ((gpios h)[i := ?g]) = (map pin_fd (gpios h))[i := fd]" by (simp add: map_update)
  have "distinct (filter (\<lambda>fd. fd \<noteq> -1) ((map pin_fd (gpios h))[i := fd]))"
    using assms(1,4) by (intro distinct_filter_update) (auto simp: fds_ok_def opens_def owned_def)
  moreover have "set ((map pin_fd (gpios h))[i := fd]) - {-1} \<subseteq> opened w'"
    using assms(1,4) set_update_subset_insert [of "map pin_fd (gpios h)" i fd]
    by (auto simp: fds_ok_def opens_def owned_def split: if_splits)
  moreover have "\<forall>g \<in> set ((gpios h)[i := ?g]). number g < 30000 \<and> (pin_type g \<noteq> PIN_GPIO \<longrightarrow> pin_fd g = -1)"
    using assms(1-3) set_update_subset_insert [of "gpios h" i ?g] by (auto simp: fds_ok_def)
  ultimately show ?thesis using assms(1) by (simp add: fds_ok_def owned_def m del: set_map)
qed

lemma wiring_update:
  assumes "i < length (gpios h)"
  shows "wiring (h\<lparr>gpios := (gpios h)[i := (gpios h ! i)\<lparr>pin_fd := fd\<rparr>]\<rparr>) = wiring h"
  using assms by (simp add: wiring_def map_update list_update_same_conv)

lemma initialize_pins_ok:
  assumes "keeps_pins opened (pins os)" "initialize_pins os is (h, w) = (st, h', w')"
    and "fds_ok opened (h, w)" "\<forall>i \<in> set is. i < NUM_GPIOS"
  shows "fds_ok opened (h', w') \<and> wiring h' = wiring h \<and> h' = h\<lparr>gpios := gpios h'\<rparr>"
  using assms(2-)
proof (induction "is" arbitrary: h w)
  case (Cons i "is")
  show ?case
  proof (cases "pin_type (gpios h ! i) = PIN_GPIO")
    case True
    let ?p = "gpios h ! i"
    obtain st1 g w1 where g: "initialize_gpio os ?p w = (st1, g, w1)" by (metis prod_cases3)
    obtain st2 v w2 where v: "gpio_get_value (pins os) (pin_fd g) (number g) (stack_value os) w1 = (st2, v, w2)"
      by (metis prod_cases3)
    have i: "i < length (gpios h)" "i < 11" and n: "number ?p < 30000"
      using Cons.prems(2,3) by (auto simp: fds_ok_def)
    obtain fd where fd: "g = ?p\<lparr>pin_fd := fd\<rparr>" "opens opened (fd, w1) w"
      using initialize_gpio_step [OF assms(1) n g] by blast
    let ?h = "h\<lparr>gpios := (gpios h)[i := ?p\<lparr>pin_fd := fd\<rparr>]\<rparr>"
    have ok1: "fds_ok opened (?h, w1)" using fds_ok_update [OF Cons.prems(2) i(2) True fd(2)] .
    have "opened w2 = opened w1" using gpio_set_files(5) [OF assms(1) _ v] n by (simp add: fd(1))
    then have ok2: "fds_ok opened (?h, w2)" using ok1 by (simp add: fds_ok_def)
    have wi: "wiring ?h = wiring h" using wiring_update [OF i(1)] .
    show ?thesis
      using Cons.prems(1,3) Cons.IH [of ?h w2] True g v ok1 ok2 wi by (auto simp: fd(1) Let_def split: if_splits)
  next
    case False
    then show ?thesis using Cons by simp
  qed
qed simp

lemma deinitialize_pins_files:
  assumes "keeps_pins opened (pins os)" "\<forall>g \<in> set gs. number g < EXTENDED_GPIO_START_NUM"
    and "deinitialize_pins os gs result w = (st, w')"
  shows "opened w' = opened w"
  using assms(2,3)
proof (induction gs arbitrary: result w)
  case (Cons g gs)
  obtain s1 w1 where d: "gpio_set_direction (pins os) (number g) GPIO_DIRECTION_IN w = (s1, w1)" by fastforce
  obtain s2 w2 where u: "gpio_unexport (pins os) (number g) w1 = (s2, w2)" by fastforce
  have n: "number g < 30000" using Cons.prems(1) by simp
  have "opened w2 = opened w"
    using gpio_set_files(2) [OF assms(1) n d] gpio_unexport_files [OF assms(1) n u] by simp
  then show ?case using Cons.prems Cons.IH d u by (auto simp: Let_def split: if_splits)
qed simp

lemma pin_access_files:
  assumes "fds_ok opened (h, w0)" "keeps_pins opened (pins os)" "i < NUM_GPIOS"
  shows "read_pin_value os (gpios h ! i) val result w = (st, v, w') \<Longrightarrow> opened w' = opened w"
    and "write_pin_value os (gpios h ! i) val result w = (st, w') \<Longrightarrow> opened w' = opened w"
    and "gpio_get_value (pins os) fd (number (gpios h ! i)) val w = (st, v, w') \<Longrightarrow> opened w' = opened w"
  using gpio_set_files(4,5) [OF assms(2), of "number (gpios h ! i)"] assms(1,3)
  by (auto simp: fds_ok_def read_pin_value_def write_pin_value_def split: if_splits)

text \<open>The steps after the pins leave them and the descriptors as they are.\<close>

lemma target_initialize_rest:
  assumes "keeps_pins opened (pins os)" "fds_ok opened (h1, w1)" "initialize_gpios os (h, w) = (st1, h1, w1)"
    and "target_initialize os f (h, w) = (st, h', w')" "\<not> tc_initialized h"
  shows "gpios h' = gpios h1 \<and> opened w' = opened w1 \<and>
    tc_initialized h' = (if st = ST_OK then True else tc_initialized h1)"
proof -
  obtain st2 h2 w2 where x: "(if st1 = ST_OK then check_xdp os f (h1, w1) else (st1, h1, w1)) = (st2, h2, w2)"
    by (metis prod_cases3)
  have g2: "gpios h2 = gpios h1" "opened w2 = opened w1" "tc_initialized h2 = tc_initialized h1"
    using x pin_access_files(1) [OF assms(2,1), of 9]
    by (auto simp: check_xdp_def split: if_splits prod.splits)
  obtain st3 w3 where d: "(if st2 = ST_OK then write_pin_value os (gpios h2 ! 8) 1 st2 w2 else (st2, w2)) = (st3, w3)"
    by fastforce
  have w3: "opened w3 = opened w2"
    using d pin_access_files(2) [OF assms(2,1), of 8] g2 by (auto split: if_splits)
  obtain s4 w4 where p: "deinitialize_pins os (gpios h2) ST_OK w3 = (s4, w4)" by fastforce
  have "\<forall>g \<in> set (gpios h2). number g < 30000" using assms(2) g2 by (simp add: fds_ok_def)
  from deinitialize_pins_files [OF assms(1) this p] have "opened w4 = opened w3" .
  moreover have "(st, h', w') = (if st3 = ST_OK then (ST_OK, h2\<lparr>tc_initialized := True\<rparr>, w3) else (st3, h2, w4))"
    using assms(3-5) x d p by (auto simp: target_initialize_def deinitialize_gpios_def split: if_splits)
  ultimately show ?thesis using g2 w3 by (auto split: if_splits)
qed

lemma target_initialize_ok:
  assumes "keeps_pins opened (pins os)" "fds_ok opened (h, w)" "target_initialize os f (h, w) = (st, h', w')"
  shows "fds_ok opened (h', w') \<and> wiring h' = wiring h \<and>
    tc_initialized h' = (if st = ST_OK then True else tc_initialized h)"
proof (cases "tc_initialized h")
  case False
  obtain st1 h1 w1 where i: "initialize_gpios os (h, w) = (st1, h1, w1)" by (metis prod_cases3)
  have k: "fds_ok opened (h1, w1)" "wiring h1 = wiring h" "h1 = h\<lparr>gpios := gpios h1\<rparr>"
    using initialize_pins_ok [OF assms(1), of "[0 ..< 11]" h w st1 h1 w1] i assms(2) by (simp_all add: initialize_gpios_def)
  have "tc_initialized h1 = tc_initialized (h\<lparr>gpios := gpios h1\<rparr>)" using k(3) by (rule arg_cong)
  then show ?thesis
    using k(1,2) target_initialize_rest [OF assms(1) k(1) i assms(3) False] by (simp add: fds_ok_def wiring_def owned_def)
qed (use assms in \<open>simp add: target_initialize_def\<close>)

lemma close_pins_ok:
  assumes "keeps_pins opened (pins os)" "close_pins os gs w = (gs', w')"
    and "\<forall>g \<in> set gs. pin_type g \<noteq> PIN_GPIO \<longrightarrow> pin_fd g = -1"
  shows "gs' = map (\<lambda>g. g\<lparr>pin_fd := -1\<rparr>) gs \<and> opened w' = opened w - (set (map pin_fd gs) - {-1})"
  using assms(2,3)
proof (induction gs arbitrary: w gs')
  case (Cons g gs)
  show ?case
  proof (cases "pin_fd g = -1")
    case True
    have "g\<lparr>pin_fd := -1\<rparr> = g" using True by simp
    then show ?thesis using Cons True by (auto split: prod.splits)
  next
    case False
    then have "pin_type g = PIN_GPIO" using Cons.prems(2) by auto
    then show ?thesis
      using False Cons.prems Cons.IH [of "g_close (pins os) (pin_fd g) w"] keeps_pinsD(2) [OF assms(1), of "pin_fd g" w]
      by (auto split: prod.splits)
  qed
qed simp

lemma target_deinitialize_ok:
  assumes "keeps_pins opened (pins os)" "fds_ok opened (h, w)" "target_deinitialize os (h, w) = (st, h', w')"
    and "tc_initialized h"
  shows "fds_ok opened (h', w') \<and> wiring h' = wiring h \<and> opened w' = opened w - owned h \<and> owned h' = {}"
proof -
  obtain gs w1 where c: "close_pins os (gpios h) w = (gs, w1)" by fastforce
  obtain s2 w2 where p: "deinitialize_pins os gs ST_OK w1 = (s2, w2)" by fastforce
  have k: "gs = map (\<lambda>g. g\<lparr>pin_fd := -1\<rparr>) (gpios h)" "opened w1 = opened w - owned h"
    using close_pins_ok [OF assms(1) c] assms(2) by (auto simp: fds_ok_def owned_def)
  have "opened w2 = opened w1"
    using deinitialize_pins_files [OF assms(1) _ p] assms(2) k(1) by (auto simp: fds_ok_def)
  moreover have "h' = h\<lparr>gpios := gs\<rparr>" "w' = w2"
    using assms(3,4) c p by (simp_all add: target_deinitialize_def deinitialize_gpios_def)
  ultimately show ?thesis
    using assms(2) k by (auto simp: fds_ok_def wiring_def owned_def comp_def)
qed

text \<open>The commands and the events leave the pins and the descriptors as they are.\<close>

lemma ipmi_command_files:
  assumes "keeps_target opened os" "ipmi_command (chassis os) n netfn cmd req a w = (st, b, w')"
  shows "opened w' = opened w"
  using assms(2)
proof (induction n arbitrary: a w)
  case (Suc n)
  obtain r c w1 where i: "IntraBmcCmd (chassis os) netfn cmd req a w = (r, c, w1)" by (metis prod_cases3)
  have "opened w1 = opened w"
    using i keeps_targetD(2-4) [OF assms(1)]
    by (cases a) (auto simp: IntraBmcCmd_def Let_def split: prod.splits if_splits)
  then show ?case using Suc i by (auto split: if_splits)
qed simp

lemma chassis_files:
  assumes "keeps_target opened os"
  shows "chassis_control (chassis os) b w = (st, w') \<Longrightarrow> opened w' = opened w"
    and "ipmi_get_power_state (chassis os) old w = (st, v, w') \<Longrightarrow> opened w' = opened w"
  using ipmi_command_files [OF assms]
  by (auto simp: chassis_control_def ipmi_get_power_state_def split: prod.splits if_splits)

definition steady :: "('o \<Rightarrow> int set) \<Rightarrow> 'o target \<Rightarrow> 'o target \<Rightarrow> bool" where
  "steady opened x y \<longleftrightarrow> gpios (fst y) = gpios (fst x) \<and> opened (snd y) = opened (snd x) \<and>
     tc_initialized (fst y) = tc_initialized (fst x)"

lemma steady_ok: "steady opened x y \<Longrightarrow> fds_ok opened x \<Longrightarrow> fds_ok opened y"
  by (cases x; cases y) (simp add: steady_def fds_ok_def owned_def)

lemma commands_steady:
  assumes "keeps_target opened os" "fds_ok opened (h, w)"
  shows "target_write os pin asrt (h, w) = (st, x) \<Longrightarrow> steady opened (h, w) x"
    and "target_read os pin (h, w) = (st, b, x) \<Longrightarrow> steady opened (h, w) x"
    and "target_write_event_config os cfg en (h, w) = (st, x) \<Longrightarrow> steady opened (h, w) x"
    and "target_wait_PRDY os t (h, w) = (st, x) \<Longrightarrow> steady opened (h, w) x"
    and "target_wait_sync os timeout delay (h, w) = (st, x) \<Longrightarrow> steady opened (h, w) x"
proof -
  note pin = pin_access_files [OF assms(2) keeps_targetD(1) [OF assms(1)]]
  note ch = chassis_files [OF assms(1)]
  have power: "ipmi_set_power_state (chassis os) g a u = (st', u') \<Longrightarrow> opened u' = opened u" for g a u st' u'
    using ch by (auto simp: ipmi_set_power_state_def split: prod.splits if_splits)
  have at: "ASD_PIN_TO_GPIO ! 1 = 1" "ASD_PIN_TO_GPIO ! 4 = 7" "ASD_PIN_TO_GPIO ! 5 = 6" "ASD_PIN_TO_GPIO ! 6 = 2"
      "ASD_PIN_TO_GPIO ! 7 = 0"
    by (simp_all add: ASD_PIN_TO_GPIO_def)
  obtain s1 w1 where r: "ipmi_reset_target (chassis os) w = (s1, w1)" by fastforce
  obtain s2 v2 w2 where p: "read_pin_value os (gpios h ! 4) (stack_value os) ST_OK w = (s2, v2, w2)" by (metis prod_cases3)
  obtain s3 w3 where s: "ipmi_set_power_state (chassis os) (stack_value os) asrt w2 = (s3, w3)" by fastforce
  obtain s4 w4 where u: "write_pin_value os (gpios h ! (ASD_PIN_TO_GPIO ! pin)) (if asrt then 1 else 0) ST_OK w = (s4, w4)"
    by fastforce
  obtain s5 v5 w5 where g: "ipmi_get_power_state (chassis os) (stack_value os) w = (s5, v5, w5)" by (metis prod_cases3)
  obtain s6 v6 w6 where q: "read_pin_value os (gpios h ! (ASD_PIN_TO_GPIO ! pin)) (stack_value os) ST_OK w = (s6, v6, w6)"
    by (metis prod_cases3)
  have same: "opened w1 = opened w" "opened w2 = opened w" "opened w3 = opened w" "opened w5 = opened w"
    using ch(1) [OF r [unfolded ipmi_reset_target_def]] pin(1) [OF _ p] power [OF s] ch(2) [OF g] by simp_all
  have acc: "opened w4 = opened w" "opened w6 = opened w" if "pin \<in> {1, 4, 5, 6, 7}"
    using that pin(2) [OF _ u] pin(1) [OF _ q] at by auto
  show "target_write os pin asrt (h, w) = (st, x) \<Longrightarrow> steady opened (h, w) x"
    using r p s u same acc by (auto simp: target_write_def steady_def split: if_splits)
  show "target_read os pin (h, w) = (st, b, x) \<Longrightarrow> steady opened (h, w) x"
    using g p q same acc by (auto simp: target_read_def steady_def split: if_splits)
  show "target_write_event_config os cfg en (h, w) = (st, x) \<Longrightarrow> steady opened (h, w) x"
    using pin(1) [of 2] by (auto simp: target_write_event_config_def steady_def Let_def split: prod.splits if_splits)
  show "target_wait_PRDY os t (h, w) = (st, x) \<Longrightarrow> steady opened (h, w) x"
    using keeps_targetD(5) [OF assms(1)]
    by (auto simp: target_wait_PRDY_def steady_def Let_def split: prod.splits if_splits)
  show "target_wait_sync os timeout delay (h, w) = (st, x) \<Longrightarrow> steady opened (h, w) x"
    using keeps_targetD(6) [OF assms(1)] by (auto simp: target_wait_sync_def steady_def split: if_splits)
qed

lemma call_handler_steady:
  assumes "keeps_target opened os" "fds_ok opened (h, w0)" "call_handler os f (h, w) = (st, e, x)"
  shows "steady opened (h, w) x"
proof -
  note pin = pin_access_files [OF assms(2) keeps_targetD(1) [OF assms(1)]]
  show ?thesis
  proof (cases f)
    case on_power
    then show ?thesis
      using assms(3) pin(1) [of 4] by (auto simp: call_handler_def on_power_event_def steady_def split: prod.splits)
  next
    case on_platform_reset
    then show ?thesis
      using assms(3) pin(1) [of 5] pin(2) [of 1]
      by (auto simp: call_handler_def on_platform_reset_event_def steady_def split: prod.splits if_splits)
  next
    case on_prdy
    then show ?thesis
      using assms(3) pin(2) [of 1] keeps_targetD(6) [OF assms(1)]
      by (auto simp: call_handler_def on_prdy_event_def steady_def split: prod.splits if_splits)
  next
    case on_xdp_present
    then show ?thesis using assms(3) by (simp add: call_handler_def on_xdp_present_event_def steady_def)
  qed
qed

lemma target_event_steady:
  assumes "keeps_target opened os" "fds_ok opened (h, w)" "target_event os p (h, w) = Some (st, e, x)"
  shows "steady opened (h, w) x"
proof -
  obtain fd r where p: "p = (fd, r)" by (cases p)
  let ?P = "\<lambda>i. pin_type (gpios h ! i) = PIN_GPIO \<and> pin_fd (gpios h ! i) = fd"
  show ?thesis
  proof (cases "tc_initialized h \<and> r AND 10 = 10 \<and> find ?P [0 ..< 11] \<noteq> None")
    case True
    then obtain i where i: "find ?P [0 ..< 11] = Some i" by blast
    then have "i < 11" by (auto simp: find_Some_iff)
    obtain st1 v w1 where g: "gpio_get_value (pins os) fd (number (gpios h ! i)) (stack_value os) w = (st1, v, w1)"
      by (metis prod_cases3)
    have w1: "opened w1 = opened w"
      using pin_access_files(3) [OF assms(2) keeps_targetD(1) [OF assms(1)] \<open>i < 11\<close> g] .
    obtain f where "call_handler os f (h, w1) = (st, e, x)"
      using assms(3) True i g p by (auto simp: target_event_def)
    from call_handler_steady [OF assms(1,2) this] w1 show ?thesis by (simp add: steady_def)
  next
    case False
    then show ?thesis using assms(3) p by (auto simp: target_event_def steady_def split: if_splits option.splits)
  qed
qed

section \<open>Runs of the handler\<close>

text \<open>A handler is created, initialized as often as that fails, used and shut down.\<close>

inductive target_run :: "'o target_os \<Rightarrow> asd_library \<Rightarrow> 'o target \<Rightarrow> bool" for os lib where
  created: "TargetHandler lib = Some (Some h) \<Longrightarrow> target_run os lib (h, w)"
| initialized: "target_run os lib x \<Longrightarrow> target_initialize os f x = (st, y) \<Longrightarrow> target_run os lib y"
| deinitialized: "target_run os lib x \<Longrightarrow> target_deinitialize os x = (st, y) \<Longrightarrow> target_run os lib y"
| wrote: "target_run os lib x \<Longrightarrow> target_write os pin b x = (st, y) \<Longrightarrow> target_run os lib y"
| reads: "target_run os lib x \<Longrightarrow> target_read os pin x = (st, b, y) \<Longrightarrow> target_run os lib y"
| configured: "target_run os lib x \<Longrightarrow> target_write_event_config os cfg b x = (st, y) \<Longrightarrow> target_run os lib y"
| waited: "target_run os lib x \<Longrightarrow> target_wait_PRDY os t x = (st, y) \<Longrightarrow> target_run os lib y"
| synced: "target_run os lib x \<Longrightarrow> target_wait_sync os timeout delay x = (st, y) \<Longrightarrow> target_run os lib y"
| event: "target_run os lib x \<Longrightarrow> target_event os p x = Some (st, e, y) \<Longrightarrow> target_run os lib y"

definition handlers_ok :: "Target_Control_Handle \<Rightarrow> bool" where
  "handlers_ok h \<longleftrightarrow> (let ws = wiring h in length ws = NUM_GPIOS \<and>
     snd (snd (ws ! BMC_PRDY_N)) = Some on_prdy \<and> snd (snd (ws ! BMC_PLTRST_B)) = Some on_platform_reset \<and>
     snd (snd (ws ! BMC_XDP_PRST_IN)) = Some on_xdp_present \<and>
     (fst (ws ! BMC_CPU_PWRGD) \<in> {PIN_GPIO, PIN_GPIOD} \<longrightarrow> snd (snd (ws ! BMC_CPU_PWRGD)) = Some on_power))"

text \<open>The library describes pins of the controller.\<close>

definition own_pins :: "asd_library \<Rightarrow> bool" where
  "own_pins lib = (case GetGPIOPin lib of None \<Rightarrow> True | Some pin \<Rightarrow> list_all (\<lambda>i. pin i < EXTENDED_GPIO_START_NUM) [0 ..< NUM_GPIOS])"

lemma upt11: "[0 ..< 11] = [0, 1, 2, 3, 4, 5, 6, 7, 8, 9, 10 :: nat]"
  by (simp add: upt_rec)

lemma TargetHandler_ok:
  assumes "TargetHandler lib = Some (Some h)" "own_pins lib"
  shows "fds_ok opened (h, w) \<and> handlers_ok h \<and> \<not> tc_initialized h \<and> owned h = {}"
  using assms
  by (auto simp: TargetHandler_def own_pins_def fds_ok_def handlers_ok_def wiring_def owned_def set_handler_def
      initialize_powergood_pin_handler_def configured_pin_def upt11 Let_def split: if_splits option.splits)

lemma steady_run:
  assumes "steady opened x y" "fds_ok opened x" "handlers_ok (fst x)"
  shows "fds_ok opened y \<and> handlers_ok (fst y)"
  using steady_ok [OF assms(1,2)] assms(1,3) by (simp add: handlers_ok_def wiring_def steady_def)

lemma target_run_ok:
  assumes "target_run os lib x" "keeps_target opened os" "own_pins lib"
  shows "fds_ok opened x \<and> handlers_ok (fst x)"
  using assms(1)
proof (induction rule: target_run.induct)
  case (created h w)
  show ?case using TargetHandler_ok [OF created assms(3), of opened w] by simp
next
  case (initialized x f st y)
  then show ?case
    using target_initialize_ok [OF keeps_targetD(1) [OF assms(2)], of "fst x" "snd x" f st "fst y" "snd y"]
    by (simp add: handlers_ok_def)
next
  case (deinitialized x st y)
  then show ?case
    using target_deinitialize_ok [OF keeps_targetD(1) [OF assms(2)], of "fst x" "snd x" st "fst y" "snd y"]
    by (cases "tc_initialized (fst x)") (auto simp: handlers_ok_def target_deinitialize_def split: prod.splits)
next
  case (wrote x pin b st y)
  then show ?case using steady_run [OF commands_steady(1) [OF assms(2), of "fst x" "snd x"]] by simp
next
  case (reads x pin st b y)
  then show ?case using steady_run [OF commands_steady(2) [OF assms(2), of "fst x" "snd x"]] by simp
next
  case (configured x cfg b st y)
  then show ?case using steady_run [OF commands_steady(3) [OF assms(2), of "fst x" "snd x"]] by simp
next
  case (waited x t st y)
  then show ?case using steady_run [OF commands_steady(4) [OF assms(2), of "fst x" "snd x"]] by simp
next
  case (synced x timeout delay st y)
  then show ?case using steady_run [OF commands_steady(5) [OF assms(2), of "fst x" "snd x"]] by simp
next
  case (event x p st e y)
  then show ?case using steady_run [OF target_event_steady [OF assms(2), of "fst x" "snd x"]] by simp
qed

text \<open>Initialization opens one descriptor for each pin and closes none.\<close>

lemma initialize_pins_owns:
  assumes "keeps_pins opened (pins os)" "initialize_pins os is (h, w) = (st, h', w')" "fds_ok opened (h, w)"
    and "owns opened B (owned h) w" "distinct is" "\<forall>i \<in> set is. i < NUM_GPIOS \<and> pin_fd (gpios h ! i) = -1"
  shows "owns opened B (owned h') w'"
  using assms(2-)
proof (induction "is" arbitrary: h w)
  case (Cons i "is")
  show ?case
  proof (cases "pin_type (gpios h ! i) = PIN_GPIO")
    case True
    let ?p = "gpios h ! i"
    obtain st1 g w1 where g: "initialize_gpio os ?p w = (st1, g, w1)" by (metis prod_cases3)
    obtain st2 v w2 where v: "gpio_get_value (pins os) (pin_fd g) (number g) (stack_value os) w1 = (st2, v, w2)"
      by (metis prod_cases3)
    have i: "i < length (gpios h)" "i < 11" "pin_fd ?p = -1" and n: "number ?p < 30000"
      using Cons.prems(2,5) by (auto simp: fds_ok_def)
    obtain fd where fd: "g = ?p\<lparr>pin_fd := fd\<rparr>" "opens opened (fd, w1) w"
      using initialize_gpio_step [OF assms(1) n g] by blast
    let ?h = "h\<lparr>gpios := (gpios h)[i := ?p\<lparr>pin_fd := fd\<rparr>]\<rparr>"
    have w2: "opened w2 = opened w1" using gpio_set_files(5) [OF assms(1) _ v] n by (simp add: fd(1))
    have ok1: "fds_ok opened (?h, w1)" using fds_ok_update [OF Cons.prems(2) i(2) True fd(2)] .
    then have ok2: "fds_ok opened (?h, w2)" using w2 by (simp add: fds_ok_def)
    have "owned ?h = owned h \<union> ({fd} - {-1})"
      using i set_update_absent [of i "map pin_fd (gpios h)" "-1" fd] by (auto simp: owned_def map_update)
    then have own: "owns opened B (owned ?h) w1"
      using Cons.prems(3) fd(2) by (auto simp: owns_def opens_def split: if_splits)
    then have own2: "owns opened B (owned ?h) w2" using w2 by (simp add: owns_def)
    have rest: "\<forall>j \<in> set is. j < NUM_GPIOS \<and> pin_fd (gpios ?h ! j) = -1"
    proof (intro ballI)
      fix j assume j: "j \<in> set is"
      then have "i \<noteq> j" using Cons.prems(4) by auto
      then show "j < NUM_GPIOS \<and> pin_fd (gpios ?h ! j) = -1" using Cons.prems(5) j by simp
    qed
    show ?thesis
      using Cons.prems(1,4) Cons.IH [of ?h w2, OF _ ok2 own2 _ rest] True g v own own2
      by (auto simp: fd(1) Let_def split: if_splits)
  next
    case False
    then show ?thesis using Cons by simp
  qed
qed simp

lemma target_initialize_owns:
  assumes "keeps_pins opened (pins os)" "fds_ok opened (h, w)" "owned h = {}" "\<not> tc_initialized h"
    and "target_initialize os f (h, w) = (st, h', w')"
  shows "owns opened (opened w) (owned h') w'"
proof -
  obtain st1 h1 w1 where i: "initialize_gpios os (h, w) = (st1, h1, w1)" by (metis prod_cases3)
  have fds: "\<forall>i \<in> set [0 ..< 11]. i < 11 \<and> pin_fd (gpios h ! i) = -1"
    using assms(2,3) nth_mem [of _ "gpios h"] by (force simp: fds_ok_def owned_def)
  have k: "fds_ok opened (h1, w1)" "owns opened (opened w) (owned h1) w1"
    using initialize_pins_ok [OF assms(1), of "[0 ..< 11]" h w st1 h1 w1] i assms(2)
      initialize_pins_owns [OF assms(1), of "[0 ..< 11]" h w st1 h1 w1 "opened w"] fds assms(3)
    by (simp_all add: initialize_gpios_def owns_def)
  have "gpios h' = gpios h1 \<and> opened w' = opened w1"
    using target_initialize_rest [OF assms(1) k(1) i assms(5,4)] by simp
  then show ?thesis using k(2) by (simp add: owned_def owns_def)
qed

lemma distinct_filter_nth:
  "distinct (filter P xs) \<Longrightarrow> i < length xs \<Longrightarrow> j < length xs \<Longrightarrow> xs ! i = xs ! j \<Longrightarrow> P (xs ! i) \<Longrightarrow> i = j"
proof (induction xs arbitrary: i j)
  case (Cons x xs)
  then show ?case by (cases i; cases j) (auto split: if_splits)
qed simp

lemma find_upt:
  assumes "i < n" "\<And>j. j < n \<Longrightarrow> P j \<longleftrightarrow> j = i"
  shows "find P [0 ..< n] = Some i"
  unfolding find_Some_iff using assms by (intro exI [of _ i]) simp

text \<open>The pins that can be polled, with the functions of their events.\<close>

lemma polled_pin:
  assumes "fds_ok opened (h, w)" "handlers_ok h" "target_get_fds (h, w) = (ST_OK, fds)" "(fd, ev) \<in> set fds"
  shows "\<exists>i f. i < NUM_GPIOS \<and> pin_fd (gpios h ! i) = fd \<and> fd \<noteq> -1 \<and> pin_type (gpios h ! i) = PIN_GPIO \<and>
    handler (gpios h ! i) = Some f \<and> ev = POLL_GPIO \<and> tc_initialized h"
proof -
  have own: "pin_type (gpios h ! i) = PIN_GPIO" if "i < 11" "pin_fd (gpios h ! i) \<noteq> -1" for i
    using assms(1) that by (auto simp: fds_ok_def)
  have len: "length (gpios h) = 11" using assms(1) by (simp add: fds_ok_def)
  have hd: "handler (gpios h ! 2) = Some on_prdy" "handler (gpios h ! 5) = Some on_platform_reset"
    "handler (gpios h ! 9) = Some on_xdp_present"
    "pin_type (gpios h ! 4) = PIN_GPIO \<Longrightarrow> handler (gpios h ! 4) = Some on_power"
    using assms(2) len by (auto simp: handlers_ok_def wiring_def Let_def)
  have "\<exists>i \<in> {2, 5, 4, 9}. fd = pin_fd (gpios h ! i)" "fd \<noteq> -1" "tc_initialized h"
    using assms(3,4) by (auto simp: target_get_fds_def Let_def split: if_splits)
  then obtain i where i: "i \<in> {2, 5, 4, 9}" "pin_fd (gpios h ! i) = fd" by blast
  have "i < 11" using i(1) by auto
  moreover from own [OF this] have gpio: "pin_type (gpios h ! i) = PIN_GPIO" using i(2) \<open>fd \<noteq> -1\<close> by simp
  moreover have "\<exists>f. handler (gpios h ! i) = Some f" using i(1) hd gpio by auto
  moreover have "ev = POLL_GPIO"
    using assms(3,4) own [of 2] own [of 4] own [of 5] own [of 9]
    by (auto simp: target_get_fds_def get_pin_events_def Let_def split: if_splits)
  ultimately show ?thesis using i(2) \<open>fd \<noteq> -1\<close> \<open>tc_initialized h\<close> by blast
qed

section \<open>Properties\<close>

text \<open>
  C33. The handler never calls a null pointer for a pin it asked to be polled. In every run, with every
  configuration of the controller's own pins and every failure of the kernel, each descriptor that is
  reported for polling belongs to exactly one pin, which has a function for its events, and an event on the
  descriptor reads that pin and calls that function; no descriptor is opened or closed by it.
\<close>

theorem polled_pins_are_handled:
  assumes "target_run os lib (h, w)" "keeps_target opened os" "own_pins lib"
    and "target_get_fds (h, w) = (ST_OK, fds)" "(fd, ev) \<in> set fds"
  shows "\<exists>i f w'. i < NUM_GPIOS \<and> (\<forall>j < NUM_GPIOS. pin_fd (gpios h ! j) = fd \<longleftrightarrow> j = i) \<and>
    handler (gpios h ! i) = Some f \<and> ev = POLL_GPIO \<and> opened w' = opened w \<and>
    target_event os (fd, revents) (h, w) =
      Some (if revents AND POLL_GPIO = POLL_GPIO then call_handler os f (h, w') else (ST_OK, ASD_EVENT_NONE, h, w))"
proof -
  have inv: "fds_ok opened (h, w)" "handlers_ok h" using target_run_ok [OF assms(1-3)] by simp_all
  obtain i f where i: "i < 11" "pin_fd (gpios h ! i) = fd" "fd \<noteq> -1" "pin_type (gpios h ! i) = PIN_GPIO"
    "handler (gpios h ! i) = Some f" "ev = POLL_GPIO" "tc_initialized h"
    using polled_pin [OF inv assms(4,5)] by blast
  have d: "distinct (filter (\<lambda>fd. fd \<noteq> -1) (map pin_fd (gpios h)))" "length (gpios h) = 11"
    using inv(1) by (simp_all add: fds_ok_def)
  have only: "pin_fd (gpios h ! j) = fd \<longleftrightarrow> j = i" if "j < 11" for j
  proof
    assume "pin_fd (gpios h ! j) = fd"
    then show "j = i" using that i(1-3) d(2) by (intro distinct_filter_nth [OF d(1)]) simp_all
  qed (use i(2) in simp)
  obtain st v w' where g: "gpio_get_value (pins os) fd (number (gpios h ! i)) (stack_value os) w = (st, v, w')"
    by (metis prod_cases3)
  have w': "opened w' = opened w" using pin_access_files(3) [OF inv(1) keeps_targetD(1) [OF assms(2)] i(1) g] .
  have "find (\<lambda>j. pin_type (gpios h ! j) = PIN_GPIO \<and> pin_fd (gpios h ! j) = fd) [0 ..< 11] = Some i"
    by (rule find_upt [OF i(1)]) (use only i(4) in metis)
  then have "target_event os (fd, revents) (h, w) =
      Some (if revents AND 10 = 10 then call_handler os f (h, w') else (ST_OK, ASD_EVENT_NONE, h, w))"
    using i(5,7) g by (simp add: target_event_def)
  then show ?thesis using i only w' by (intro exI [of _ i] exI [of _ f] exI [of _ w']) simp
qed


text \<open>
  A pin that is already exported is opened only for writing, so that reading it fails, and the failure
  is not looked at: the pin is initialized with success, and from then on its value, in every state of the
  kernel, is what the stack holds. Whether a probe is found on the XDP connector is then not read
  from the machine.
\<close>

theorem exported_pin_reads_the_stack:
  assumes "number g < EXTENDED_GPIO_START_NUM" "pin_type g = PIN_GPIO"
    and "g_open (pins os) (sysfs_path (number g) ''value'') O_WRONLY w = (fd, w1)" "fd \<ge> 0"
    and "\<And>v. g_read (pins os) fd v = (None, v)"
    and "initialize_gpio os g w = (st, g', w')"
  shows "g' = g\<lparr>pin_fd := fd\<rparr> \<and>
    read_pin_value os g' old result v = (ST_OK, if stack_char (pins os) \<noteq> 0x30 then 1 else 0, v) \<and>
    (gpios h ! BMC_XDP_PRST_IN = g' \<longrightarrow> check_xdp os True (h, v) =
       (if stack_char (pins os) \<noteq> 0x30 then (ST_ERR, h\<lparr>xdp_present := True\<rparr>, v) else (ST_OK, h, v)))"
proof -
  have "gpio_export (pins os) (number g) (pin_fd g) w = (ST_OK, fd, w1)"
    using assms(1,3,4) by (simp add: gpio_export_def)
  then have g': "g' = g\<lparr>pin_fd := fd\<rparr>"
    using assms(6) by (auto simp: initialize_gpio_def Let_def split: prod.splits if_splits)
  then have r: "read_pin_value os g' old result v = (ST_OK, if stack_char (pins os) \<noteq> 0x30 then 1 else 0, v)"
    for old result v
    using assms(1,2,4,5) by (simp add: read_pin_value_def gpio_get_value_def)
  show ?thesis using g' r by (simp add: check_xdp_def)
qed

section \<open>A concrete controller\<close>

text \<open>
  A kernel whose state is its list of open descriptors, with every file there for both modes, and a service
  that answers with a chassis that is on. The pins are numbered from 100 on, and the value of each is \<open>v\<close>.
\<close>

definition demo_pins :: "u8 option \<Rightarrow> int list gpio_os" where
  "demo_pins v = \<lparr>g_open = (\<lambda>path mode. new_file), g_close = (\<lambda>fd. filter (\<lambda>x. x \<noteq> fd)),
     g_write = (\<lambda>fd text w. (int (length text), w)), g_read = (\<lambda>fd w. (v, w)), stack_char = 7,
     dl_open = (\<lambda>w. (False, w)), dl_close = (\<lambda>w. w), PDK_GPIOExport = None, PDK_GPIOUnexport = None,
     PDK_GetGPIOData = None, PDK_SetGPIOData = None, PDK_GPIOSetEdge = None, PDK_GPIOSetDirection = None,
     PDK_GPIOSetActiveLow = None\<rparr>"

definition demo_target :: "u8 option \<Rightarrow> int list target_os" where
  "demo_target v = \<lparr>pins = demo_pins v,
     chassis = \<lparr>create_session = (\<lambda>w. (True, w)), send_raw = (\<lambda>_ _ _ _ w. (True, [0, 1, 0, 0], w)), close_session = (\<lambda>w. w),
       NETFN_CHASSIS = 0, CMD_CHASSIS_CONTROL = 2, CMD_GET_CHASSIS_STATUS = 1, CMD_WARM_RESET = 3, CC_SUCCESS = 0,
       CC_UNSPECIFIED_ERR = 0xFF\<rparr>,
     t_poll = (\<lambda>_ _ _ w. (0, w)), t_usleep = (\<lambda>_ w. w), stack_value = 5, stack_status = ST_TIMEOUT, shifted = (\<lambda>_. 0)\<rparr>"

definition demo_library :: asd_library where
  "demo_library = \<lparr>library_loads = True, GetGPIOPin = Some (\<lambda>i. 100 + int i), GetGPIOEdge = Some (\<lambda>i. GPIO_EDGE_BOTH),
     GetGPIOActiveLow = Some (\<lambda>i. i = 1), GetGPIOPinType = Some (\<lambda>i. if i = 10 then PIN_NONE else PIN_GPIO),
     GetGPIOPinDir = Some (\<lambda>i. if i = 1 then GPIO_DIRECTION_HIGH else GPIO_DIRECTION_IN), UseIPMIInterface = Some True\<rparr>"

lemma demo_target_keeps: "keeps_target set (demo_target v)"
proof -
  have "fst (new_file w) \<ge> -1" for w :: "int list"
  proof -
    have "foldr max w 0 \<ge> 0" by (induction w) auto
    then show ?thesis by (simp add: new_file_def Let_def)
  qed
  then show ?thesis
    by (auto simp: keeps_target_def keeps_pins_def demo_target_def demo_pins_def new_file_opens)
qed

lemma demo_library_own: "own_pins demo_library"
  by (simp add: own_pins_def demo_library_def upt11)

definition demo_handle :: Target_Control_Handle where
  "demo_handle = the (the (TargetHandler demo_library))"

lemma demo_handle: "TargetHandler demo_library = Some (Some demo_handle)"
  by (simp add: demo_handle_def TargetHandler_def demo_library_def Let_def)

lemma demo_started:
  "fst (target_initialize (demo_target (Some 0x30)) False (demo_handle, [1])) = ST_OK"
  "snd (target_get_fds (snd (target_initialize (demo_target (Some 0x30)) False (demo_handle, [1])))) =
     [(19, 10), (16, 10), (31, 10)]"
  "fst (target_get_fds (snd (target_initialize (demo_target (Some 0x30)) False (demo_handle, [1])))) = ST_OK"
  by code_simp+

lemma demo_probe_present:
  "fst (target_initialize (demo_target (Some 0x31)) True (demo_handle, [1])) = ST_ERR"
  "map pin_fd (gpios (fst (snd (target_initialize (demo_target (Some 0x31)) True (demo_handle, [1]))))) =
     [4, 7, 10, 13, 16, 19, 22, 25, 28, 31, -1]"
  by code_simp+

theorem polled_pins_are_handled_witness:
  "\<exists>h w. target_run (demo_target (Some 0x30)) demo_library (h, w) \<and> target_get_fds (h, w) = (ST_OK, [(19, 10), (16, 10), (31, 10)]) \<and>
     (\<exists>f w'. target_event (demo_target (Some 0x30)) (19, 10) (h, w) = Some (call_handler (demo_target (Some 0x30)) f (h, w')))"
proof -
  obtain st h w where i: "target_initialize (demo_target (Some 0x30)) False (demo_handle, [1]) = (st, h, w)" by (metis prod_cases3)
  have r: "target_run (demo_target (Some 0x30)) demo_library (h, w)"
    using target_run.initialized [OF target_run.created [OF demo_handle] i] .
  have g: "target_get_fds (h, w) = (ST_OK, [(19, 10), (16, 10), (31, 10)])"
    using demo_started(2,3) i by (cases "target_get_fds (h, w)") simp
  show ?thesis
    using polled_pins_are_handled [OF r demo_target_keeps demo_library_own g, of 19 10 10] r g by auto
qed


theorem exported_pin_reads_the_stack_witness:
  "\<exists>st g. initialize_gpio (demo_target None) (gpios demo_handle ! 9) [1] = (st, g, [4, 1]) \<and> pin_fd g = 4 \<and>
     read_pin_value (demo_target None) g 0 ST_OK [4, 1] = (ST_OK, 1, [4, 1])"
proof -
  let ?g = "gpios demo_handle ! 9"
  have p: "number ?g < 30000" "pin_type ?g = PIN_GPIO" "snd (snd (initialize_gpio (demo_target None) ?g [1])) = [4, 1]"
    by code_simp+
  have o: "g_open (pins (demo_target None)) (sysfs_path (number ?g) ''value'') O_WRONLY [1] = (4, [4, 1])" "(0 :: int) \<le> 4"
    "\<And>v. g_read (pins (demo_target None)) 4 v = (None, v)" "stack_char (pins (demo_target None)) = 7"
    by (simp_all add: demo_target_def demo_pins_def new_file_def)
  obtain st g w where i: "initialize_gpio (demo_target None) ?g [1] = (st, g, w)" by (metis prod_cases3)
  from exported_pin_reads_the_stack [OF p(1,2) o(1-3) i, of 0 ST_OK "[4, 1]"] show ?thesis
    using i p(3) o(4) by auto
qed

end
