(* ===== verification/Auth_Pam.thy ===== *)
theory Auth_Pam
  imports Session Vprobe "HOL-Library.Multiset"
begin

text \<open>
  Who may connect: \<^verbatim>\<open>authenticate.c\<close> with its two handlers, \<^verbatim>\<open>auth_none.c\<close> and \<^verbatim>\<open>auth_pam.c\<close>. The password goes
  to the authentication modules of the system, which are a parameter; the count of failed attempts
  and the lockout are the server's own.
\<close>

section \<open>The network and the system\<close>

text \<open>
  Receiving and sending on a descriptor return what the system call and the TLS library answered; receiving
  also the bytes it has put into the buffer. The random bytes may fail, and every call of the clock may
  read a later time.
\<close>

record 'w net_os =
  sock_recv :: "int \<Rightarrow> nat \<Rightarrow> 'w \<Rightarrow> int \<times> ssl_answers \<times> u8 list \<times> 'w"
  sock_send :: "int \<Rightarrow> u8 list \<Rightarrow> 'w \<Rightarrow> int \<times> ssl_answers \<times> 'w"
  rand_bytes :: "nat \<Rightarrow> 'w \<Rightarrow> u8 list option \<times> 'w"
  clock :: "'w \<Rightarrow> int \<times> 'w"
  pam_start :: "'w \<Rightarrow> bool \<times> 'w"
  pam_authenticate :: "u8 list \<Rightarrow> 'w \<Rightarrow> bool \<times> 'w"
  pam_end :: "'w \<Rightarrow> 'w"

definition net_recv :: "'w net_os \<Rightarrow> extnet \<Rightarrow> extnet_conn \<Rightarrow> nat \<Rightarrow> bool \<Rightarrow> 'w \<Rightarrow> int \<times> u8 list \<times> bool \<times> 'w" where
  "net_recv os net c len pending w =
     (let (n, ssl, bs, w) = sock_recv os (sockfd c) len w; (cnt, pending) = extnet_recv (p_hdlrs net) n ssl c pending
      in (cnt, bs, pending, w))"

definition net_send :: "'w net_os \<Rightarrow> extnet \<Rightarrow> extnet_conn \<Rightarrow> u8 list \<Rightarrow> 'w \<Rightarrow> int \<times> 'w" where
  "net_send os net c bs w =
     (let (n, ssl, w) = sock_send os (sockfd c) bs w in (extnet_send (p_hdlrs net) n ssl c, w))"

section \<open>Counting the failures\<close>

datatype auth_ret = AUTHRET_OK | AUTHRET_SYSERR | AUTHRET_INVALIDDATA | AUTHRET_UNAUTHORIZED | AUTHRET_LOCKOUT

abbreviation (input) "AUTH_HDR_VERSION \<equiv> 0x30 :: u8"
abbreviation (input) "MAX_PW_LEN \<equiv> 128 :: nat"
abbreviation (input) "INVALID_AUTH_MAX_ATTEMPTS \<equiv> 3 :: nat"
abbreviation (input) "INVALID_AUTH_PERIOD_NSECS \<equiv> 60 :: int"
abbreviation (input) "INVALID_AUTH_LOCKOUT_NSECS \<equiv> 60 :: int"
abbreviation (input) "AUTH_HANDSHAKE_SUCCESS \<equiv> 0x30 :: u8"
abbreviation (input) "AUTH_HANDSHAKE_SYSERR \<equiv> 0x24 :: u8"
abbreviation (input) "AUTH_HANDSHAKE_BUSY \<equiv> 0x2B :: u8"
abbreviation (input) "AUTH_HANDSHAKE_FAILURE \<equiv> 0x3F :: u8"

text \<open>The static variables: the times of the last failures, and the end of the lockout.\<close>

record auth_static =
  ats_attempts :: "int list"
  t_lockout :: int

definition auth_reset :: auth_static where
  "auth_reset = \<lparr>ats_attempts = replicate INVALID_AUTH_MAX_ATTEMPTS 0, t_lockout = 0\<rparr>"

text \<open>The loop over the attempts: the oldest so far and the failures in the period.\<close>

definition scan_attempt :: "int \<Rightarrow> int list \<Rightarrow> nat \<Rightarrow> nat \<times> nat \<Rightarrow> nat \<times> nat" where
  "scan_attempt t_now ats i = (\<lambda>(oldest, n).
     (if ats ! i < ats ! oldest then i else oldest, if ats ! i > t_now - INVALID_AUTH_PERIOD_NSECS then n + 1 else n))"

definition auth_track_attempt :: "int \<Rightarrow> auth_ret \<Rightarrow> int list \<Rightarrow> auth_ret \<times> int list" where
  "auth_track_attempt t_now err_code ats =
     (if err_code = AUTHRET_OK then (err_code, replicate INVALID_AUTH_MAX_ATTEMPTS 0)
      else if err_code = AUTHRET_UNAUTHORIZED \<or> err_code = AUTHRET_INVALIDDATA then
        let (oldest, n) = fold (scan_attempt t_now ats) [0 ..< INVALID_AUTH_MAX_ATTEMPTS] (0, 1)
        in (if n > INVALID_AUTH_MAX_ATTEMPTS then AUTHRET_LOCKOUT else err_code, ats[oldest := t_now])
      else (err_code, ats))"

section \<open>The password\<close>

text \<open>
  The answer to the prompts of the modules, given by their styles (1 is hidden input). The response to prompt
  \<open>i\<close> is written through the \<open>i\<close>-th element of an array of pointers that has one, so that a hidden
  prompt that is not the first is a wild access; \<^const>\<open>None\<close> is that access, \<^const>\<open>False\<close> an error.
\<close>

fun answer_prompts :: "nat list \<Rightarrow> bool option" where
  "answer_prompts [] = Some False"
| "answer_prompts (style # styles) =
     (if list_ex (\<lambda>s. s = 1) styles then None else Some (style = 1))"

text \<open>A C string ends at the first zero.\<close>

definition password_of :: "u8 list \<Rightarrow> u8 list" where
  "password_of = takeWhile (\<lambda>b. b \<noteq> 0)"

definition credentials_are_valid :: "'w net_os \<Rightarrow> u8 list \<Rightarrow> 'w \<Rightarrow> auth_ret \<times> 'w" where
  "credentials_are_valid os pw w =
     (let (started, w) = pam_start os w
      in if \<not> started then (AUTHRET_SYSERR, w)
         else let (ok, w) = pam_authenticate os (password_of pw) w
              in (if ok then AUTHRET_OK else AUTHRET_UNAUTHORIZED, pam_end os w))"

text \<open>The first new line of what was read becomes the end of the password. \<open>buf\<close> is the whole buffer.\<close>

fun strip_newline :: "u8 list \<Rightarrow> u8 list" where
  "strip_newline [] = []"
| "strip_newline (b # bs) = (if b = 10 then 0 # bs else b # strip_newline bs)"

definition authenticate_client :: "'w net_os \<Rightarrow> u8 list \<Rightarrow> int \<Rightarrow> auth_static \<times> 'w \<Rightarrow> auth_ret \<times> auth_static \<times> 'w" where
  "authenticate_client os buf n_num_read = (\<lambda>(st, w).
     let (ret, w) =
           (if n_num_read > int (1 + MAX_PW_LEN) \<or> hd buf > AUTH_HDR_VERSION then (AUTHRET_INVALIDDATA, w)
            else let n = nat n_num_read; buf = strip_newline (take n buf) @ drop n buf
                 in credentials_are_valid os (take MAX_PW_LEN (tl buf)) w);
         (t_now, w) = clock os w; (ret, ats) = auth_track_attempt t_now ret (ats_attempts st)
     in (ret, st\<lparr>ats_attempts := ats\<rparr>, w))"

section \<open>The handshake\<close>

definition RANDOM_ASCII_CHARACTERS :: "u8 list" where
  "RANDOM_ASCII_CHARACTERS = bytes_of ''abcdefghijklmnopqrstuvwxyzABCDEFGHIJKLMNOPQRSTUVWXYZ0123456789,.-!#$%()+=*''"

definition get_random_string :: "'w net_os \<Rightarrow> nat \<Rightarrow> 'w \<Rightarrow> u8 list option \<times> 'w" where
  "get_random_string os sz w =
     (let (r, w) = rand_bytes os sz w
      in (map_option (\<lambda>bs. (map (\<lambda>b. RANDOM_ASCII_CHARACTERS ! (unat b mod length RANDOM_ASCII_CHARACTERS)) bs)[sz - 1 := 0]) r, w))"

definition auth_handshake_response :: "'w net_os \<Rightarrow> extnet \<Rightarrow> extnet_conn \<Rightarrow> u8 \<Rightarrow> 'w \<Rightarrow> status \<times> 'w" where
  "auth_handshake_response os net c c_resp w =
     (let (n, w) = net_send os net c [AUTH_HDR_VERSION, c_resp] w in (if n = 2 then ST_OK else ST_ERR, w))"

text \<open>
  The static buffer of 10240 bytes is zero at the start, and again at the end. During a lockout a
  random password is checked in place of the one received.
\<close>

definition read_credentials :: "'w net_os \<Rightarrow> extnet \<Rightarrow> extnet_conn \<Rightarrow> auth_static \<times> 'w \<Rightarrow> auth_ret \<times> auth_static \<times> 'w" where
  "read_credentials os net c = (\<lambda>(st, w).
     case get_random_string os MAX_PW_LEN w of
       (None, w) \<Rightarrow> (AUTHRET_INVALIDDATA, st, w)
     | (Some rnd, w) \<Rightarrow>
         let (n_read, bs, pending, w) = net_recv os net c 10240 False w; ca_buf = bs @ replicate (10240 - length bs) 0
         in if n_read \<le> 0 then (AUTHRET_INVALIDDATA, st, w)
            else let (t, w) = clock os w
                 in if t < t_lockout st then
                      let (_, st, w) = authenticate_client os (AUTH_HDR_VERSION # rnd) 20 (st, w) in (AUTHRET_LOCKOUT, st, w)
                    else if pending then (AUTHRET_INVALIDDATA, st, w)
                    else authenticate_client os ca_buf n_read (st, w))"

definition authpam_client_handshake :: "'w net_os \<Rightarrow> session \<Rightarrow> extnet \<Rightarrow> extnet_conn \<Rightarrow> auth_static \<times> 'w
    \<Rightarrow> status \<times> auth_static \<times> 'w" where
  "authpam_client_handshake os s net c x =
     (let (ret, st, w) = read_credentials os net c x
      in case ret of
           AUTHRET_OK \<Rightarrow>
             if session_get_authenticated_conn s = None then
               let (r, w) = auth_handshake_response os net c AUTH_HANDSHAKE_SUCCESS w
               in (if r \<noteq> ST_OK then ST_ERR else ST_OK, st, w)
             else (ST_ERR, st, snd (auth_handshake_response os net c AUTH_HANDSHAKE_BUSY w))
         | AUTHRET_SYSERR \<Rightarrow> (ST_ERR, st, snd (auth_handshake_response os net c AUTH_HANDSHAKE_SYSERR w))
         | AUTHRET_LOCKOUT \<Rightarrow>
             let (t, w) = clock os w; st = st\<lparr>t_lockout := t + INVALID_AUTH_LOCKOUT_NSECS\<rparr>
             in (ST_ERR, st, snd (auth_handshake_response os net c AUTH_HANDSHAKE_FAILURE w))
         | _ \<Rightarrow> (ST_ERR, st, snd (auth_handshake_response os net c AUTH_HANDSHAKE_FAILURE w)))"

definition auth_none :: status where
  "auth_none = ST_OK"

datatype auth_hdlr_type = AUTH_HDLR_NONE | AUTH_HDLR_PAM

text \<open>The handler chosen by \<^verbatim>\<open>auth_init\<close>; \<^const>\<open>None\<close> before that.\<close>

definition auth_init :: "auth_hdlr_type option \<Rightarrow> status \<times> auth_hdlr_type option" where
  "auth_init e_type = (case e_type of None \<Rightarrow> (ST_ERR, None) | Some t \<Rightarrow> (ST_OK, Some t))"

definition auth_client_handshake :: "'w net_os \<Rightarrow> auth_hdlr_type option \<Rightarrow> session \<Rightarrow> extnet \<Rightarrow> extnet_conn
    \<Rightarrow> auth_static \<times> 'w \<Rightarrow> status \<times> auth_static \<times> 'w" where
  "auth_client_handshake os chosen s net c x = (case chosen of
       None \<Rightarrow> (ST_ERR, x)
     | Some AUTH_HDLR_NONE \<Rightarrow> (auth_none, x)
     | Some AUTH_HDLR_PAM \<Rightarrow> authpam_client_handshake os s net c x)"

section \<open>The lockout\<close>

text \<open>The result of each attempt in a series of them, given by its time and what the check found.\<close>

fun track_all :: "(int \<times> auth_ret) list \<Rightarrow> int list \<Rightarrow> auth_ret list" where
  "track_all [] ats = []"
| "track_all ((t, err) # es) ats = (let (ret, ats) = auth_track_attempt t err ats in ret # track_all es ats)"

text \<open>The reference keeps all failures since the last success and looks at those in the period.\<close>

fun window_all :: "(int \<times> auth_ret) list \<Rightarrow> int list \<Rightarrow> auth_ret list" where
  "window_all [] hist = []"
| "window_all ((t, err) # es) hist =
     (if err = AUTHRET_OK then err # window_all es []
      else if err = AUTHRET_UNAUTHORIZED \<or> err = AUTHRET_INVALIDDATA then
        (if length (filter (\<lambda>u. t - u < INVALID_AUTH_PERIOD_NSECS) hist) \<ge> INVALID_AUTH_MAX_ATTEMPTS
         then AUTHRET_LOCKOUT else err) # window_all es (t # hist)
      else err # window_all es hist)"

text \<open>The attempts are the latest failures, in any order.\<close>

definition latest :: "int list \<Rightarrow> int list" where
  "latest hist = take 3 (hist @ [0, 0, 0])"

definition tracks :: "int list \<Rightarrow> int list \<Rightarrow> int \<Rightarrow> bool" where
  "tracks ats hist t_now \<longleftrightarrow> mset ats = mset (latest hist) \<and> sorted_wrt (\<ge>) hist \<and> (\<forall>u \<in> set hist. 60 < u \<and> u \<le> t_now)"

lemma scan_attempts:
  assumes "fold (scan_attempt t ats) [0 ..< 3] (0, 1) = (k, n)" "length ats = 3"
  shows "k < 3 \<and> (\<forall>u \<in> set ats. ats ! k \<le> u) \<and> n = 1 + length (filter (\<lambda>u. u > t - 60) ats)"
proof -
  obtain a b c where "ats = [a, b, c]" using assms(2) by (auto simp: length_Suc_conv eval_nat_numeral)
  then show ?thesis using assms(1) by (auto simp: scan_attempt_def upt_rec split: if_splits)
qed

lemma length_latest [simp]: "length (latest hist) = 3"
  by (simp add: latest_def)

lemma latest_cases:
  obtains "hist = []" "latest hist = [0, 0, 0]"
  | p where "hist = [p]" "latest hist = [p, 0, 0]"
  | p q where "hist = [p, q]" "latest hist = [p, q, 0]"
  | p q r rest where "hist = p # q # r # rest" "latest hist = [p, q, r]"
proof (cases hist)
  case (Cons p h1)
  then show ?thesis
  proof (cases h1)
    case (Cons q h2)
    then show ?thesis using \<open>hist = p # h1\<close> that(3,4) by (cases h2) (auto simp: latest_def eval_nat_numeral)
  qed (use that(2) in \<open>auto simp: latest_def eval_nat_numeral\<close>)
qed (use that(1) in \<open>auto simp: latest_def\<close>)

lemma tracks_step:
  assumes "tracks ats hist t0" "t0 \<le> t" "60 < t" "fold (scan_attempt t ats) [0 ..< 3] (0, 1) = (k, n)"
  shows "(n > 3 \<longleftrightarrow> length (filter (\<lambda>u. t - u < 60) hist) \<ge> 3) \<and> tracks (ats[k := t]) (t # hist) t"
proof -
  have m: "mset ats = mset (latest hist)" and s: "sorted_wrt (\<ge>) hist" "\<forall>u \<in> set hist. 60 < u \<and> u \<le> t"
    using assms(1,2) by (auto simp: tracks_def)
  have len: "length ats = 3" using mset_eq_length [OF m] by simp
  note k = scan_attempts [OF assms(4) len]
  have set: "set ats = set (latest hist)" using m by (metis set_mset_mset)
  obtain p q r where pqr: "latest hist = [p, q, r]" "r \<le> p" "r \<le> q"
    using s by (cases hist rule: latest_cases) auto
  have "ats ! k = r"
  proof (rule antisym)
    show "ats ! k \<le> r" using k set pqr(1) by simp
    have "ats ! k \<in> set (latest hist)" using k len set by (metis nth_mem)
    then show "r \<le> ats ! k" using pqr by auto
  qed
  then have "mset (ats[k := t]) = mset [t, p, q]" using k len m pqr(1) by (simp add: mset_update)
  moreover have "latest (t # hist) = [t, p, q]"
    using pqr(1) by (cases hist rule: latest_cases) (auto simp: latest_def eval_nat_numeral)
  ultimately have tr: "tracks (ats[k := t]) (t # hist) t" using s assms(3) by (simp add: tracks_def)
  have "length (filter (\<lambda>u. u > t - 60) ats) = size (filter_mset (\<lambda>u. u > t - 60) (mset ats))"
    by (simp flip: mset_filter)
  also have "\<dots> = length (filter (\<lambda>u. u > t - 60) (latest hist))" unfolding m by (simp flip: mset_filter)
  finally have n: "n = 1 + length (filter (\<lambda>u. u > t - 60) (latest hist))" using k by simp
  have "length (filter (\<lambda>u. u > t - 60) (latest hist)) = 3 \<longleftrightarrow> length (filter (\<lambda>u. t - u < 60) hist) \<ge> 3"
  proof (cases hist rule: latest_cases)
    case (4 p q r rest)
    then have "filter (\<lambda>u. t - u < 60) rest = []" if "\<not> t - r < 60"
      using s that by (auto simp: filter_empty_conv)
    then show ?thesis using 4 s by auto
  qed (use s assms(3) in auto)
  moreover have "length (filter (\<lambda>u. u > t - 60) (latest hist)) \<le> 3" by (metis length_filter_le length_latest)
  ultimately show ?thesis using n tr by auto
qed

lemma tracks_all:
  assumes "tracks ats hist t0" "sorted (t0 # map fst es)" "\<forall>e \<in> set es. 60 < fst e"
  shows "track_all es ats = window_all es hist"
  using assms
proof (induction es arbitrary: ats hist t0)
  case (Cons e es)
  obtain t err where e: "e = (t, err)" by (cases e)
  have later: "t0 \<le> t" "sorted (t # map fst es)" "60 < t" using Cons.prems(2,3) by (auto simp: e)
  obtain k n where f: "fold (scan_attempt t ats) [0 ..< 3] (0, 1) = (k, n)" by fastforce
  note step = tracks_step [OF Cons.prems(1) later(1,3) f]
  have reset: "tracks (replicate 3 0) [] t" by (simp add: tracks_def latest_def eval_nat_numeral)
  have same: "tracks ats hist t" using Cons.prems(1) later(1) by (auto simp: tracks_def)
  have IH: "tracks a h t \<Longrightarrow> track_all es a = window_all es h" for a h
    using Cons.IH [of a h t] later(2) Cons.prems(3) by simp
  show ?case using f step IH [OF reset] IH [OF same] IH [of "ats[k := t]" "t # hist"]
    by (simp add: e auth_track_attempt_def)
qed simp

text \<open>
  C31. The count of three times that the server keeps decides like one that remembers every failure: in every
  series of attempts with an ordered clock, a failed attempt is answered with a lockout exactly when three or
  more failures since the last success lie less than a minute back, and every other answer is what
  the check found.
\<close>

theorem lockout_is_a_window:
  assumes "sorted (map fst es)" "\<forall>e \<in> set es. 60 < fst e"
  shows "track_all es (ats_attempts auth_reset) = window_all es []"
proof (rule tracks_all)
  show "tracks (ats_attempts auth_reset) [] 60"
    by (simp add: tracks_def latest_def auth_reset_def eval_nat_numeral)
  show "sorted (60 # map fst es)" using assms by (auto simp: less_imp_le)
qed (rule assms(2))

theorem lockout_is_a_window_witness:
  "track_all [(100, AUTHRET_UNAUTHORIZED), (110, AUTHRET_INVALIDDATA), (120, AUTHRET_UNAUTHORIZED), (159, AUTHRET_UNAUTHORIZED),
     (300, AUTHRET_UNAUTHORIZED)] [0, 0, 0] =
   [AUTHRET_UNAUTHORIZED, AUTHRET_INVALIDDATA, AUTHRET_UNAUTHORIZED, AUTHRET_LOCKOUT, AUTHRET_UNAUTHORIZED]"
  using lockout_is_a_window [of "[(100, AUTHRET_UNAUTHORIZED), (110, AUTHRET_INVALIDDATA), (120, AUTHRET_UNAUTHORIZED),
      (159, AUTHRET_UNAUTHORIZED), (300, AUTHRET_UNAUTHORIZED)]"]
  by (simp add: auth_reset_def eval_nat_numeral)

section \<open>Who gets in\<close>

lemma authenticate_client_ok:
  assumes "authenticate_client os buf n (st, w) = (AUTHRET_OK, st', w')"
  shows "n \<le> 129 \<and> hd buf \<le> AUTH_HDR_VERSION \<and> ats_attempts st' = [0, 0, 0] \<and> t_lockout st' = t_lockout st \<and>
    (\<exists>w1 w2. pam_start os w = (True, w1) \<and>
      pam_authenticate os (password_of (take MAX_PW_LEN (tl (strip_newline (take (nat n) buf) @ drop (nat n) buf)))) w1 = (True, w2))"
  using assms
  by (auto simp: authenticate_client_def credentials_are_valid_def auth_track_attempt_def Let_def numeral_3_eq_3
      split: if_splits prod.splits)

text \<open>With the zeros behind it, the password is what was sent up to the first zero or new line.\<close>

lemma strip_newline_takeWhile:
  "takeWhile (\<lambda>b. b \<noteq> 0) (strip_newline bs @ 0 # zs) = takeWhile (\<lambda>b. b \<noteq> 0 \<and> b \<noteq> 10) bs"
  by (induction bs rule: strip_newline.induct) auto

lemma entered_password:
  assumes "bs \<noteq> []" "length bs \<le> 129" "hd bs \<noteq> 10"
  shows "password_of (take MAX_PW_LEN (tl (strip_newline (take (length bs) (bs @ replicate k 0)) @
      drop (length bs) (bs @ replicate k 0)))) = takeWhile (\<lambda>b. b \<noteq> 0 \<and> b \<noteq> 10) (tl bs)"
proof -
  obtain b cs where bs: "bs = b # cs" using assms(1) by (cases bs) auto
  have len: "length (strip_newline cs) = length cs" by (induction cs rule: strip_newline.induct) auto
  have "take 128 (strip_newline cs @ replicate k 0) = strip_newline cs @ replicate (min (128 - length cs) k) 0"
    using assms(2) by (simp add: bs len min_def)
  moreover have "takeWhile (\<lambda>b. b \<noteq> 0) (strip_newline cs @ replicate j 0) = takeWhile (\<lambda>b. b \<noteq> 0 \<and> b \<noteq> 10) cs" for j
  proof (cases j)
    case 0
    have "takeWhile (\<lambda>b. b \<noteq> 0) (strip_newline cs) = takeWhile (\<lambda>b. b \<noteq> 0 \<and> b \<noteq> 10) cs"
      by (induction cs rule: strip_newline.induct) auto
    then show ?thesis using 0 by simp
  qed (simp add: strip_newline_takeWhile)
  ultimately show ?thesis using assms(3) by (simp add: bs password_of_def)
qed

lemma handshake_ok:
  assumes "authpam_client_handshake os s net c (st, w) = (ST_OK, st', w')"
  shows "session_get_authenticated_conn s = None \<and> ats_attempts st' = [0, 0, 0] \<and> t_lockout st' = t_lockout st \<and>
    (\<exists>rnd w1 n bs w2 t w3 w4 pw w5. get_random_string os MAX_PW_LEN w = (Some rnd, w1) \<and>
      net_recv os net c 10240 False w1 = (n, bs, False, w2) \<and> 0 < n \<and> n \<le> 129 \<and>
      hd (bs @ replicate (10240 - length bs) 0) \<le> AUTH_HDR_VERSION \<and>
      clock os w2 = (t, w3) \<and> t_lockout st \<le> t \<and> pam_start os w3 = (True, w4) \<and> pam_authenticate os pw w4 = (True, w5) \<and>
      (n = int (length bs) \<and> hd bs \<noteq> 10 \<longrightarrow> pw = takeWhile (\<lambda>b. b \<noteq> 0 \<and> b \<noteq> 10) (tl bs)))"
proof -
  obtain ret st1 w6 where r: "read_credentials os net c (st, w) = (ret, st1, w6)" by (metis prod_cases3)
  have ok: "ret = AUTHRET_OK" "session_get_authenticated_conn s = None" "st' = st1"
    using assms r by (auto simp: authpam_client_handshake_def split: auth_ret.splits if_splits prod.splits)
  obtain rnd w1 where g: "get_random_string os 128 w = (Some rnd, w1)"
    using r ok(1) by (cases "get_random_string os 128 w") (auto simp: read_credentials_def split: option.splits)
  obtain n bs pending w2 where n: "net_recv os net c 10240 False w1 = (n, bs, pending, w2)" by (metis prod_cases4)
  obtain t w3 where t: "clock os w2 = (t, w3)" by fastforce
  let ?buf = "bs @ replicate (10240 - length bs) 0"
  have a: "authenticate_client os ?buf n (st, w3) = (AUTHRET_OK, st1, w6)" "0 < n" "t_lockout st \<le> t" "\<not> pending"
    using r ok(1) g n t by (auto simp: read_credentials_def split: if_splits prod.splits)
  note c = authenticate_client_ok [OF a(1)]
  let ?pw = "password_of (take 128 (tl (strip_newline (take (nat n) ?buf) @ drop (nat n) ?buf)))"
  obtain w4 w5 where p: "pam_start os w3 = (True, w4)" "pam_authenticate os ?pw w4 = (True, w5)" using c by blast
  have pw: "?pw = takeWhile (\<lambda>b. b \<noteq> 0 \<and> b \<noteq> 10) (tl bs)" if "n = int (length bs) \<and> hd bs \<noteq> 10"
  proof -
    have n: "nat n = length bs" and bs: "bs \<noteq> []" "length bs \<le> 129" "hd bs \<noteq> 10" using that a(2) c by auto
    show ?thesis unfolding n by (rule entered_password [OF bs])
  qed
  have n': "net_recv os net c 10240 False w1 = (n, bs, False, w2)" using n a(4) by simp
  have kept: "ats_attempts st' = [0, 0, 0]" "t_lockout st' = t_lockout st" "n \<le> 129" "hd ?buf \<le> AUTH_HDR_VERSION"
    using c ok(3) by blast+
  show ?thesis
    by (rule conjI [OF ok(2) conjI [OF kept(1) conjI [OF kept(2)]]], intro exI conjI impI)
      (fact g n' a(2) kept(3,4) t a(3) p pw)+
qed


text \<open>A client that sends \<^verbatim>\<open>0pw\<close> and a new line, to modules that accept \<^verbatim>\<open>pw\<close>; the world is the clock.\<close>

definition demo_net :: "int net_os" where
  "demo_net = \<lparr>sock_recv = (\<lambda>fd len w. (4, \<lparr>ssl_n = 0, ssl_closed_st = ST_OK, ssl_error_st = ST_OK, ssl_pending = 0\<rparr>,
       [0x30, 112, 119, 10], w)),
     sock_send = (\<lambda>fd bs w. (int (length bs), \<lparr>ssl_n = 0, ssl_closed_st = ST_OK, ssl_error_st = ST_OK, ssl_pending = 0\<rparr>, w)),
     rand_bytes = (\<lambda>n w. (Some (replicate n 9), w)), clock = (\<lambda>w. (w, w + 1)), pam_start = (\<lambda>w. (True, w)),
     pam_authenticate = (\<lambda>pw w. (pw = [112, 119], w)), pam_end = (\<lambda>w. w)\<rparr>"

definition demo_session :: session where
  "demo_session = the (session_init (\<lambda>_. ST_OK) \<lparr>sockfd = 0, p_hdlr_data = None\<rparr>)"


end
