(* ===== verification/Asd_Main.thy ===== *)
theory Asd_Main
  imports Asd_Msg Auth_Pam
begin

text \<open>
  The server \<^verbatim>\<open>asd_main.c\<close>: its start and end, the life of the message engine with the connection of an
  authenticated client, and the loop that polls the listening socket, the pins and the clients.
\<close>

section \<open>The state\<close>

record session_options =
  n_port_number :: u16
  cp_certkeyfile :: "string option"
  cp_net_bind_device :: "string option"
  e_extnet_type :: hdlr_type
  e_auth_type :: auth_hdlr_type

record asd_args =
  session_opts :: session_options
  busopt :: bus_options
  use_syslog :: bool
  log_level :: nat
  log_streams :: u32
  arg_xdp_fail_enable :: bool

text \<open>
  The memory and the devices of the message engine stay when it is freed, so that \<open>asd_msg\<close> always has a
  value; the pointer is not null when it is \<open>alive\<close>. \<open>chosen_auth\<close> and \<open>auth\<close> are the static variables of the
  authentication, \<open>fds\<close> the open sockets and \<open>world\<close> the network.
\<close>

record ('d, 't, 'o, 'w) asd_state =
  args :: asd_args
  alive :: bool
  asd_msg :: "('d, 't, 'o) i2c_engine"
  host_fd :: int
  event_fd :: int
  server_config :: config
  sess :: session
  net_of :: extnet
  chosen_auth :: "auth_hdlr_type option"
  auth :: auth_static
  fds :: fds
  world :: 'w

text \<open>
  What surrounds the server: a new connection with its descriptor, what the TLS handshake says and the handler
  data it leaves, the answers to what is sent, given by the packets sent before, the version file and the
  events of the polled descriptors, \<^const>\<open>None\<close> when polling fails.
\<close>

record ('d, 't, 'o, 'w) server_env =
  engine_of :: "('d, 't, 'o) engine_env"
  network :: "'w net_os"
  accepts :: "'w \<Rightarrow> int \<times> status \<times> nat option \<times> 'w"
  send_answer :: "extnet_conn \<Rightarrow> u8 list list \<Rightarrow> u8 list \<Rightarrow> int \<times> ssl_answers"
  version_file :: "'w \<Rightarrow> u8 list list option"
  polls :: "(int \<times> u16) list \<Rightarrow> int \<Rightarrow> 'w \<Rightarrow> u16 list option \<times> 'w"

section \<open>The connection of the engine\<close>

definition send_out_msg_on_socket :: "('d, 't, 'o, 'w) server_env \<Rightarrow> extnet \<Rightarrow> session \<Rightarrow> u8 list list \<Rightarrow> u8 list \<Rightarrow> status" where
  "send_out_msg_on_socket env net s before bs = (case session_get_authenticated_conn s of
       None \<Rightarrow> ST_ERR
     | Some c \<Rightarrow> let (n, ssl) = send_answer env c before bs
                 in if extnet_send (p_hdlrs net) n ssl c = int (length bs) then ST_OK else ST_ERR)"

text \<open>The engine with the send function as the table of sessions is now.\<close>

definition connected :: "('d, 't, 'o, 'w) server_env \<Rightarrow> ('d, 't, 'o, 'w) asd_state \<Rightarrow> ('d, 't, 'o) i2c_engine" where
  "connected env st = (asd_msg st)\<lparr>client := (client (asd_msg st))
     \<lparr>send_function := send_out_msg_on_socket env (net_of st) (sess st)\<rparr>\<rparr>"

definition read_data :: "('d, 't, 'o, 'w) server_env \<Rightarrow> extnet \<Rightarrow> extnet_conn \<Rightarrow> 'w read_function" where
  "read_data env net c want pending w =
     (let (cnt, bs, pending, w) = net_recv (network env) net c want pending w
      in if cnt < 1 then (ST_ERR, [], pending, w) else (ST_OK, take (nat cnt) bs, pending, w))"

text \<open>The default configuration; neither pointer is null, so that this cannot fail.\<close>

definition default_config :: "('d, 't, 'o, 'w) asd_state \<Rightarrow> config" where
  "default_config st = the (snd (set_config_defaults (Some (server_config st)) (Some (busopt (args st)))))"

definition on_client_connect :: "('d, 't, 'o, 'w) server_env \<Rightarrow> ('d, 't, 'o, 'w) asd_state \<Rightarrow> ('d, 't, 'o, 'w) asd_state outcome" where
  "on_client_connect env st =
     map_option (\<lambda>(ok, e). if ok
         then (ST_OK, st\<lparr>alive := True, asd_msg := e\<lparr>client := \<lparr>send_function = (\<lambda>_ _. ST_ERR), sent = []\<rparr>\<rparr>\<rparr>)
         else (ST_ERR, st\<lparr>alive := False, asd_msg := e\<rparr>))
       (asd_msg_init (engine_of env) True (alive st) (version_file env (world st)) (server_config st) (asd_msg st))"

definition on_client_disconnect :: "('d, 't, 'o, 'w) server_env \<Rightarrow> ('d, 't, 'o, 'w) asd_state \<Rightarrow> status \<times> ('d, 't, 'o, 'w) asd_state" where
  "on_client_disconnect env st =
     (let st = st\<lparr>server_config := default_config st\<rparr>
      in if alive st then
           let (r, e) = asd_msg_free (engine_of env) ((asd_msg st)\<lparr>asd_cfg := server_config st\<rparr>)
           in (if r \<noteq> ST_OK then ST_ERR else ST_OK, st\<lparr>alive := False, asd_msg := e\<rparr>)
         else (ST_OK, st))"

definition close_session :: "extnet_conn \<Rightarrow> ('d, 't, 'o, 'w) asd_state \<Rightarrow> ('d, 't, 'o, 'w) asd_state" where
  "close_session c st = (let (_, s, f) = session_close (sess st) c (fds st) in st\<lparr>sess := s, fds := f\<rparr>)"

definition close_connection :: "('d, 't, 'o, 'w) server_env \<Rightarrow> ('d, 't, 'o, 'w) asd_state \<Rightarrow> status \<times> ('d, 't, 'o, 'w) asd_state" where
  "close_connection env st = (case session_get_authenticated_conn (sess st) of
       None \<Rightarrow> (ST_OK, st)
     | Some c \<Rightarrow> let (r, st) = on_client_disconnect env st in (r, if r = ST_OK then close_session c st else st))"

section \<open>Messages of a client\<close>

definition ensure_client_authenticated :: "('d, 't, 'o, 'w) server_env \<Rightarrow> extnet_conn \<Rightarrow> ('d, 't, 'o, 'w) asd_state
    \<Rightarrow> ('d, 't, 'o, 'w) asd_state outcome" where
  "ensure_client_authenticated env c st =
     (if session_already_authenticated (sess st) c = ST_OK then Some (ST_OK, st)
      else let (r, a, w) = auth_client_handshake (network env) (chosen_auth st) (sess st) (net_of st) c (auth st, world st);
               st = st\<lparr>auth := a, world := w\<rparr>;
               (r, s) = (if r = ST_OK then session_auth_complete (sess st) c else (r, sess st)); st = st\<lparr>sess := s\<rparr>
           in if r \<noteq> ST_OK then Some (r, close_session c st)
              else case on_client_connect env st of
                     None \<Rightarrow> None
                   | Some (r, st) \<Rightarrow>
                       if r = ST_OK then Some (ST_OK, st)
                       else Some (r, close_session c (snd (on_client_disconnect env st))))"

text \<open>
  A message reaches the engine through its pointer, which is not checked. The pending flag of the client
  is stored when the packet was read.
\<close>

definition process_client_message :: "('d, 't, 'o, 'w) server_env \<Rightarrow> int \<times> u16 \<Rightarrow> ('d, 't, 'o, 'w) asd_state
    \<Rightarrow> ('d, 't, 'o, 'w) asd_state outcome" where
  "process_client_message env = (\<lambda>(fd, revents) st.
     case session_lookup_conn (sess st) fd of
       None \<Rightarrow> Some (ST_ERR, st)
     | Some c \<Rightarrow>
         (case session_get_data_pending (sess st) c of
            None \<Rightarrow> Some (ST_ERR, st)
          | Some pending \<Rightarrow>
              if pending \<or> revents AND 1 \<noteq> 0 then
                (case ensure_client_authenticated env c st of
                   None \<Rightarrow> None
                 | Some (r, st) \<Rightarrow>
                     if r \<noteq> ST_OK then Some (r, st)
                     else if \<not> alive st then None
                     else case asd_msg_read (engine_of env) (read_data env (net_of st) c)
                                 ((connected env st)\<lparr>xdp_fail_enable := arg_xdp_fail_enable (args st)\<rparr>, world st, pending) of
                            None \<Rightarrow> None
                          | Some (r, e, w, pending) \<Rightarrow>
                              let st = st\<lparr>asd_msg := e, world := w\<rparr>
                              in if r \<noteq> ST_OK then Some (r, close_session c (snd (on_client_disconnect env st)))
                                 else let (r, s) = session_set_data_pending (sess st) c pending in Some (r, st\<lparr>sess := s\<rparr>))
              else Some (ST_OK, st)))"

text \<open>An error with one client does not keep the others from being processed.\<close>

fun process_clients :: "('d, 't, 'o, 'w) server_env \<Rightarrow> (int \<times> u16) list \<Rightarrow> status \<Rightarrow> ('d, 't, 'o, 'w) asd_state
    \<Rightarrow> ('d, 't, 'o, 'w) asd_state outcome" where
  "process_clients env [] result st = Some (result, st)"
| "process_clients env (p # ps) result st =
     (if snd p AND 1 = 1 then
        case process_client_message env p st of
          None \<Rightarrow> None
        | Some (r, st) \<Rightarrow> process_clients env ps (if r \<noteq> ST_OK then r else result) st
      else process_clients env ps result st)"

definition process_all_client_messages :: "('d, 't, 'o, 'w) server_env \<Rightarrow> (int \<times> u16) list \<Rightarrow> ('d, 't, 'o, 'w) asd_state
    \<Rightarrow> ('d, 't, 'o, 'w) asd_state outcome" where
  "process_all_client_messages env ps st =
     (let (now, w) = clock (network env) (world st); (s, f) = session_close_expired_unauth now (sess st) (fds st)
      in process_clients env ps ST_OK (st\<lparr>world := w, sess := s, fds := f\<rparr>))"

section \<open>Pins and new clients\<close>

fun process_all_gpio_events :: "('d, 't, 'o, 'w) server_env \<Rightarrow> pollfd list \<Rightarrow> ('d, 't, 'o, 'w) asd_state
    \<Rightarrow> ('d, 't, 'o, 'w) asd_state outcome" where
  "process_all_gpio_events env [] st = Some (ST_OK, st)"
| "process_all_gpio_events env (p # ps) st =
     (case asd_msg_event (engine_of env) p (connected env st) of
        None \<Rightarrow> None
      | Some (r, e) \<Rightarrow> if r \<noteq> ST_OK then Some (r, st\<lparr>asd_msg := e\<rparr>) else process_all_gpio_events env ps (st\<lparr>asd_msg := e\<rparr>))"

text \<open>
  The array of polled descriptors, each with the events it is polled for and those that were found. Its
  entries stay from one turn of the loop to the next.
\<close>

type_synonym poll_array = "(int \<times> u16 \<times> u16) list"

abbreviation (input) "HOST_FD_INDEX \<equiv> 0 :: nat"
abbreviation (input) "GPIO_FD_INDEX \<equiv> 1 :: nat"
abbreviation (input) "MAX_FDS \<equiv> 18 :: nat"

definition put_fds :: "nat \<Rightarrow> poll_array \<Rightarrow> poll_array \<Rightarrow> poll_array" where
  "put_fds i xs arr = take i arr @ xs @ drop (i + length xs) arr"

text \<open>A client of a server without authentication is processed at once, as if it had sent something.\<close>

definition process_new_client :: "('d, 't, 'o, 'w) server_env \<Rightarrow> nat \<Rightarrow> poll_array \<times> nat \<times> ('d, 't, 'o, 'w) asd_state
    \<Rightarrow> status \<times> poll_array \<times> nat \<times> ('d, 't, 'o, 'w) asd_state" where
  "process_new_client env client_index = (\<lambda>(arr, n, st).
     let (fd, hst, hdlr_data, w) = accepts env (world st);
         on_accept = (case p_hdlrs (net_of st) of Tcp \<Rightarrow> exttcp_on_accept | Tls \<Rightarrow> \<lambda>c. (hst, c));
         (r, c, f) = extnet_accept_connection on_accept ST_OK True fd \<lparr>sockfd = -1, p_hdlr_data = hdlr_data\<rparr> (fds st);
         st = st\<lparr>fds := f, world := w\<rparr>
     in if r \<noteq> ST_OK then (r, arr, n, st)
        else let (now, w) = clock (network env) (world st); (r, s) = session_open now (sess st) c; st = st\<lparr>sess := s, world := w\<rparr>
             in if r \<noteq> ST_OK then let (_, _, f) = extnet_close_client ST_OK True c (fds st) in (r, arr, n, st\<lparr>fds := f\<rparr>)
                else if e_auth_type (session_opts (args st)) = AUTH_HDLR_NONE \<and> client_index + n < length arr then
                  let (_, e, rev) = arr ! (client_index + n)
                  in (ST_OK, arr[client_index + n := (sockfd c, e, rev OR 1)], n + 1, st)
                else (ST_OK, arr, n, st))"

section \<open>The loop\<close>

text \<open>
  One turn: the descriptors of the pins and the clients are entered into the array, which is polled with
  the number of pins counted twice; then a new client is taken, the events of the pins are handled and, when
  none of them fails, the messages of the clients. The loop ends when polling fails.
\<close>

definition after_poll :: "('d, 't, 'o, 'w) server_env \<Rightarrow> nat \<Rightarrow> nat \<Rightarrow> poll_array \<times> ('d, 't, 'o, 'w) asd_state
    \<Rightarrow> (status \<times> poll_array \<times> ('d, 't, 'o, 'w) asd_state) option" where
  "after_poll env n_gpios n_clients = (\<lambda>(arr, st).
     let ci = GPIO_FD_INDEX + n_gpios;
         (arr, n, st) = (if snd (snd (arr ! HOST_FD_INDEX)) AND 1 \<noteq> 0 then snd (process_new_client env ci (arr, n_clients, st))
                         else (arr, n_clients, st));
         found = (\<lambda>i k. map (\<lambda>(fd, _, rev). (fd, rev)) (take k (drop i arr)))
     in case (if alive st \<and> n_gpios > 0 then process_all_gpio_events env (found GPIO_FD_INDEX n_gpios) st
              else Some (ST_OK, st)) of
          None \<Rightarrow> None
        | Some (r, st) \<Rightarrow>
            if r \<noteq> ST_OK then Some (ST_OK, arr, snd (close_connection env st))
            else map_option (\<lambda>(_, st). (ST_OK, arr, st)) (process_all_client_messages env (found ci n) st))"

definition request_processing_turn :: "('d, 't, 'o, 'w) server_env \<Rightarrow> poll_array \<times> ('d, 't, 'o, 'w) asd_state
    \<Rightarrow> (status \<times> poll_array \<times> ('d, 't, 'o, 'w) asd_state) option" where
  "request_processing_turn env = (\<lambda>(arr, st).
     let gpio = (if alive st then let (r, ps) = asd_msg_get_fds (engine_of env) (asd_msg st) in if r = ST_OK then ps else []
                 else []);
         (now, w) = clock (network env) (world st); st = st\<lparr>world := w\<rparr>
     in case session_getfds now (sess st) (-1) of
          None \<Rightarrow> Some (ST_ERR, arr, st)
        | Some (clients, timeout) \<Rightarrow>
            let ci = GPIO_FD_INDEX + length gpio;
                arr = put_fds ci (map (\<lambda>fd. (fd, 1, 0)) clients) (put_fds GPIO_FD_INDEX (map (\<lambda>(fd, e). (fd, e, 0)) gpio) arr);
                n = ci + length clients + length gpio;
                (r, w) = polls env (map (\<lambda>(fd, e, _). (fd, e)) (take n arr)) timeout (world st); st = st\<lparr>world := w\<rparr>
            in case r of
                 None \<Rightarrow> Some (ST_ERR, arr, st)
               | Some revs \<Rightarrow>
                   after_poll env (length gpio) (length clients)
                     (map2 (\<lambda>(fd, e, _) rev. (fd, e, rev)) (take n arr) revs @ drop n arr, st))"

text \<open>The array at the start of the loop.\<close>

definition poll_fds_init :: "int \<Rightarrow> poll_array" where
  "poll_fds_init host = (host, 1, 0) # replicate (MAX_FDS - 1) (0, 0, 0)"

section \<open>Start and end\<close>

text \<open>What the system answers while the server is set up; \<open>memory\<close> is an engine as allocated.\<close>

record ('d, 't, 'o) init_answers =
  tls_ok :: bool
  init_client_answers :: "nat \<Rightarrow> status"
  stack_conn :: extnet_conn
  r_eventfd :: int
  host_calls :: socket_calls
  memory :: "('d, 't, 'o) i2c_engine"

definition init_asd_state :: "('d, 't, 'o) init_answers \<Rightarrow> asd_args \<Rightarrow> config \<Rightarrow> fds \<Rightarrow> 'w
    \<Rightarrow> status \<times> fds \<times> ('d, 't, 'o, 'w) asd_state option" where
  "init_asd_state ans a cfg f w =
     (let cfg = the (snd (set_config_defaults (Some cfg) (Some (busopt a)))); so = session_opts a
      in case extnet_init (tls_ok ans) (e_extnet_type so) (map_option length (cp_certkeyfile so)) 5 of
           None \<Rightarrow> (ST_ERR, f, None)
         | Some net \<Rightarrow>
             let (r, h) = auth_init (Some (e_auth_type so))
             in if r \<noteq> ST_OK then (ST_ERR, f, None)
                else case session_init (init_client_answers ans) (stack_conn ans) of
                       None \<Rightarrow> (ST_ERR, f, None)
                     | Some s \<Rightarrow>
                         let st = \<lparr>args = a, alive = False, asd_msg = memory ans, host_fd = 0, event_fd = r_eventfd ans,
                               server_config = cfg, sess = s, net_of = net, chosen_auth = h, auth = auth_reset, fds = f, world = w\<rparr>
                         in if r_eventfd ans = -1 then (ST_ERR, f, Some st)
                            else let (r, fd, f) = extnet_open_external_socket (host_calls ans) (cp_net_bind_device so \<noteq> None)
                                       (insert (r_eventfd ans) f)
                                 in (r, f, Some (st\<lparr>host_fd := fd, fds := f\<rparr>)))"

definition deinit_asd_state :: "('d, 't, 'o, 'w) server_env \<Rightarrow> ('d, 't, 'o, 'w) asd_state \<Rightarrow> ('d, 't, 'o, 'w) asd_state" where
  "deinit_asd_state env st =
     (let (s, f) = session_close_all (sess st) (fds st);
          f = (if host_fd st \<noteq> 0 then f - {host_fd st} else f); st = st\<lparr>sess := s, fds := f\<rparr>
      in if alive st then let (_, e) = asd_msg_free (engine_of env) (asd_msg st) in st\<lparr>alive := False, asd_msg := e\<rparr> else st)"
section \<open>The engine belongs to an authenticated session\<close>

text \<open>What every step keeps; no session is opened or made to wait longer except by a new connection.\<close>

definition server_inv :: "('d, 't, 'o, 'w) asd_state \<Rightarrow> bool" where
  "server_inv st \<longleftrightarrow> session_inv (sess st) (fds st) \<and> (alive st \<longrightarrow> n_authenticated_id (sess st) \<noteq> -1)"

definition narrows :: "session \<Rightarrow> session \<Rightarrow> bool" where
  "narrows s' s \<longleftrightarrow> (\<forall>i < MAX_SESSIONS. 0 \<le> fd_of (slot s' i) \<and> \<not> s_b_authenticated (slot s' i) \<longrightarrow>
     fd_of (slot s i) = fd_of (slot s' i) \<and> \<not> s_b_authenticated (slot s i) \<and> s_t_auth_tout (slot s i) = s_t_auth_tout (slot s' i))"

lemma narrows_refl [simp]: "narrows s s"
  by (simp add: narrows_def)

lemma narrows_trans [trans]: "narrows s'' s' \<Longrightarrow> narrows s' s \<Longrightarrow> narrows s'' s"
  unfolding narrows_def by metis

lemma session_close_narrows:
  assumes inv: "session_inv s f" and e: "session_close s c f = (r, s', f')"
  shows "narrows s' s \<and> session_inv s' f' \<and>
    (session_already_authenticated s c \<noteq> ST_OK \<longrightarrow> n_authenticated_id s' = n_authenticated_id s)"
proof (cases "r = ST_OK")
  case False
  then have "s' = s" "f' = f" using e by (auto simp: session_close_def split: if_splits option.splits)
  then show ?thesis using inv by simp
next
  case True
  then obtain i where i: "session_find_private s (sockfd c) = Some i" "sockfd c \<noteq> -1"
      "session_close_private s i f = (s', f')"
    using e by (auto simp: session_close_def split: if_splits option.splits)
  note fi = find_Some [OF i(1)]
  have len: "i < length (sessions s)" using fi(1) session_invD(2) [OF inv] by simp
  have fd: "0 \<le> sockfd c" using session_invD(4) [OF inv fi(1)] fi(2) i(2) by simp
  have s': "s' = s\<lparr>sessions := (sessions s)[i := (slot s i)\<lparr>s_extconn := (s_extconn (slot s i))\<lparr>sockfd := -1, p_hdlr_data := None\<rparr>,
       s_t_auth_tout := 0, s_b_authenticated := False\<rparr>],
       n_authenticated_id := (if n_authenticated_id s = int i then -1 else n_authenticated_id s)\<rparr>"
    using i(3) fi(2) fd session_invD(3) [OF inv fi(1)]
    by (auto simp: session_close_private_def extnet_is_client_closed_def extnet_close_client_def slot_def Let_def)
  have "narrows s' s" by (auto simp: narrows_def s' slot_update [OF len])
  moreover have "n_authenticated_id s' = n_authenticated_id s" if "session_already_authenticated s c \<noteq> ST_OK"
    using that i(1) fi(1,3) fd session_invD(6) [OF inv fi(1)]
    by (simp add: session_already_authenticated_def extnet_is_client_closed_def s' slot_def split: if_splits)
  moreover have "session_inv s' f'" using session_close_inv [OF inv, of c] by (simp add: e)
  ultimately show ?thesis by blast
qed

lemma close_session_keeps:
  assumes "session_inv (sess st) (fds st)"
  shows "narrows (sess (close_session c st)) (sess st) \<and> session_inv (sess (close_session c st)) (fds (close_session c st)) \<and>
    alive (close_session c st) = alive st \<and>
    (session_already_authenticated (sess st) c \<noteq> ST_OK \<longrightarrow>
       n_authenticated_id (sess (close_session c st)) = n_authenticated_id (sess st))"
  using session_close_narrows [OF assms, of c] by (simp add: close_session_def split: prod.split)

lemma auth_complete_keeps:
  assumes inv: "session_inv s f" and c: "0 \<le> sockfd c" and e: "session_auth_complete s c = (r, s')"
  shows "narrows s' s \<and> session_inv s' f \<and> (if r = ST_OK then n_authenticated_id s' \<noteq> -1 else s' = s)"
proof (cases "r = ST_OK")
  case False
  then show ?thesis using e inv by (auto simp: session_auth_complete_def split: if_splits option.splits)
next
  case True
  then obtain i where i: "session_find_private s (sockfd c) = Some i"
      "s' = s\<lparr>sessions := (sessions s)[i := (slot s i)\<lparr>s_b_authenticated := True\<rparr>], n_authenticated_id := s_id (slot s i)\<rparr>"
    using e by (auto simp: session_auth_complete_def slot_def split: if_splits option.splits)
  note fi = find_Some [OF i(1)]
  have len: "i < length (sessions s)" using fi(1) session_invD(2) [OF inv] by simp
  have "narrows s' s" by (auto simp: narrows_def i(2) slot_update [OF len])
  moreover have "session_inv s' f" using session_auth_complete_inv [OF inv c] by (simp add: e)
  moreover have "n_authenticated_id s' \<noteq> -1" using session_invD(3) [OF inv fi(1)] by (simp add: i(2))
  ultimately show ?thesis using True by simp
qed

lemma set_pending_keeps:
  assumes inv: "session_inv s f" and e: "session_set_data_pending s c b = (r, s')"
  shows "narrows s' s \<and> session_inv s' f \<and> n_authenticated_id s' = n_authenticated_id s"
proof (cases "session_find_private s (sockfd c)")
  case None
  then show ?thesis using e inv by (simp add: session_set_data_pending_def split: if_splits)
next
  case (Some i)
  note fi = find_Some [OF this]
  have len: "i < length (sessions s)" using fi(1) session_invD(2) [OF inv] by simp
  have s': "s' = s\<lparr>sessions := (sessions s)[i := (slot s i)\<lparr>s_b_data_pending := b\<rparr>]\<rparr>"
    using e Some fi(3) by (simp add: session_set_data_pending_def slot_def)
  have "narrows s' s" by (auto simp: narrows_def s' slot_update [OF len])
  then show ?thesis using session_set_data_pending_inv [OF inv, of c b] e by (simp add: s')
qed
text \<open>The steps before a message is read, and the whole of a message.\<close>

lemma disconnect_keeps [simp]:
  "sess (snd (on_client_disconnect env st)) = sess st" "fds (snd (on_client_disconnect env st)) = fds st"
  "world (snd (on_client_disconnect env st)) = world st" "\<not> alive (snd (on_client_disconnect env st))"
  by (simp_all add: on_client_disconnect_def Let_def split: prod.split)

lemma connect_keeps:
  assumes "on_client_connect env st = Some (r, st')"
  shows "sess st' = sess st \<and> fds st' = fds st \<and> alive st' = (r = ST_OK)"
  using assms by (auto simp: on_client_connect_def split: if_splits)

lemma lookup_connD:
  assumes inv: "session_inv s f" and e: "session_lookup_conn s fd = Some c"
  obtains i where "i < MAX_SESSIONS" "c = s_extconn (slot s i)" "0 \<le> sockfd c" "sockfd c = fd"
proof -
  obtain i where i: "session_find_private s fd = Some i" "c = s_extconn (sessions s ! i)" "0 \<le> fd_of (sessions s ! i)"
    using e by (auto simp: session_lookup_conn_def split: option.splits if_splits)
  show ?thesis using that [of i] i find_Some [OF i(1)] by (simp add: slot_def)
qed

lemma closed_after_disconnect:
  assumes "session_inv (sess st) (fds st)"
  shows "server_inv (close_session c (snd (on_client_disconnect env st))) \<and>
    narrows (sess (close_session c (snd (on_client_disconnect env st)))) (sess st)"
  using close_session_keeps [of "snd (on_client_disconnect env st)" c] assms by (simp add: server_inv_def)

lemma ensure_keeps:
  assumes inv: "server_inv st" and c: "0 \<le> sockfd c"
    and e: "ensure_client_authenticated env c st = Some (r, st')"
  shows "server_inv st' \<and> narrows (sess st') (sess st)"
proof (cases "session_already_authenticated (sess st) c = ST_OK")
  case True
  then show ?thesis using e inv by (simp add: ensure_client_authenticated_def)
next
  case False
  have s: "session_inv (sess st) (fds st)" using inv by (simp add: server_inv_def)
  obtain r1 a w where h: "auth_client_handshake (network env) (chosen_auth st) (sess st) (net_of st) c (auth st, world st) =
      (r1, a, w)" by (metis prod_cases3)
  obtain r2 s2 where ac: "(if r1 = ST_OK then session_auth_complete (sess st) c else (r1, sess st)) = (r2, s2)" by fastforce
  define st2 where "st2 = st\<lparr>auth := a, world := w, sess := s2\<rparr>"
  have s2: "narrows s2 (sess st) \<and> session_inv s2 (fds st) \<and> (if r2 = ST_OK then n_authenticated_id s2 \<noteq> -1 else s2 = sess st)"
    using auth_complete_keeps [OF s c, of r2 s2] ac s by (auto split: if_splits)
  have e': "(if r2 \<noteq> ST_OK then Some (r2, close_session c st2) else case on_client_connect env st2 of None \<Rightarrow> None
      | Some (r, st) \<Rightarrow> if r = ST_OK then Some (ST_OK, st) else Some (r, close_session c (snd (on_client_disconnect env st)))) =
      Some (r, st')"
  proof -
    have "(if r1 = ST_OK then session_auth_complete (sess (st\<lparr>auth := a, world := w\<rparr>)) c
        else (r1, sess (st\<lparr>auth := a, world := w\<rparr>))) = (r2, s2)" using ac by (auto split: if_splits)
    then show ?thesis using e False by (simp add: ensure_client_authenticated_def st2_def h Let_def split: if_splits)
  qed
  show ?thesis
  proof (cases "r2 = ST_OK")
    case failed: False
    then show ?thesis
      using e' close_session_keeps [of st2 c] s s2 False inv by (auto simp: st2_def server_inv_def)
  next
    case True
    obtain r3 st3 where co: "on_client_connect env st2 = Some (r3, st3)"
      using e' True by (cases "on_client_connect env st2") auto
    have st3: "sess st3 = s2" "fds st3 = fds st" using connect_keeps [OF co] by (simp_all add: st2_def)
    show ?thesis
    proof (cases "r3 = ST_OK")
      case ok: True
      then have "st' = st3" using e' True co by simp
      then show ?thesis using s2 st3 True by (simp add: server_inv_def)
    next
      case failed: False
      then have "st' = close_session c (snd (on_client_disconnect env st3))" using e' True co by simp
      then show ?thesis using closed_after_disconnect [of st3 c env] s2 st3 narrows_trans by metis
    qed
  qed
qed

lemma message_keeps:
  assumes inv: "server_inv st" and e: "process_client_message env p st = Some (r, st')"
  shows "server_inv st' \<and> narrows (sess st') (sess st)"
proof -
  obtain fd revents where p: "p = (fd, revents)" by fastforce
  have s: "session_inv (sess st) (fds st)" using inv by (simp add: server_inv_def)
  show ?thesis
  proof (cases "session_lookup_conn (sess st) fd")
    case None
    then show ?thesis using e inv by (simp add: p process_client_message_def)
  next
    case (Some c)
    note c = this
    have cfd: "0 \<le> sockfd c" using lookup_connD [OF s c] by metis
    show ?thesis
    proof (cases "ensure_client_authenticated env c st")
      case None
      then show ?thesis using e inv c by (auto simp: p process_client_message_def split: option.splits if_splits)
    next
      case (Some x)
      obtain r1 st1 where x: "x = (r1, st1)" by fastforce
      note en = ensure_keeps [OF inv cfd Some [unfolded x]]
      have s1: "session_inv (sess st1) (fds st1)" using en by (simp add: server_inv_def)
      consider "st' = st" | "st' = st1"
        | (read) r2 e2 w pending where "alive st1" "r1 = ST_OK" "Some (r, st') = (let st = st1\<lparr>asd_msg := e2, world := w\<rparr>
              in if r2 \<noteq> ST_OK then Some (r2, close_session c (snd (on_client_disconnect env st)))
                 else let (r, s) = session_set_data_pending (sess st) c pending in Some (r, st\<lparr>sess := s\<rparr>))"
      proof (cases "\<exists>pending. session_get_data_pending (sess st) c = Some pending \<and> (pending \<or> revents AND 1 \<noteq> 0) \<and> r1 = ST_OK")
        case False
        then have "st' = st \<or> st' = st1"
          using e c Some by (auto simp: p x process_client_message_def split: option.splits if_splits)
        then show ?thesis using that(1,2) by blast
      next
        case True
        then have al: "alive st1" using e c Some by (auto simp: p x process_client_message_def split: if_splits)
        from True obtain pending where pe: "session_get_data_pending (sess st) c = Some pending"
          "pending \<or> revents AND 1 \<noteq> 0" "r1 = ST_OK" by blast
        define y where "y = asd_msg_read (engine_of env) (read_data env (net_of st1) c)
            ((connected env st1)\<lparr>xdp_fail_enable := arg_xdp_fail_enable (args st1)\<rparr>, world st1, pending)"
        have y: "Some (r, st') = (case y of None \<Rightarrow> None | Some (r, e, w, pending) \<Rightarrow> let st = st1\<lparr>asd_msg := e, world := w\<rparr>
              in if r \<noteq> ST_OK then Some (r, close_session c (snd (on_client_disconnect env st)))
                 else let (r, s) = session_set_data_pending (sess st) c pending in Some (r, st\<lparr>sess := s\<rparr>))"
          using pe e c Some al by (simp add: p x process_client_message_def y_def)
        then obtain r2 e2 w pend where "y = Some (r2, e2, w, pend)" by (cases y) auto
        then show ?thesis using that(3) al pe(3) y by simp
      qed
      then show ?thesis
      proof cases
        case read
        define st2 where "st2 = st1\<lparr>asd_msg := e2, world := w\<rparr>"
        have st2: "sess st2 = sess st1" "fds st2 = fds st1" "alive st2" using read(1) by (simp_all add: st2_def)
        show ?thesis
        proof (cases "r2 = ST_OK")
          case False
          then have "st' = close_session c (snd (on_client_disconnect env st2))" using read(3) by (simp add: st2_def Let_def)
          then show ?thesis using closed_after_disconnect [of st2 c env] s1 st2 en narrows_trans by metis
        next
          case True
          obtain r3 s3 where p3: "session_set_data_pending (sess st2) c pending = (r3, s3)" by fastforce
          then have st': "st' = st2\<lparr>sess := s3\<rparr>" using read(3) True by (simp add: st2_def Let_def)
          note k = set_pending_keeps [OF s1 p3 [unfolded st2]]
          have "narrows s3 (sess st)" using k en narrows_trans by blast
          then show ?thesis using k en st2 read(1) by (simp add: st' server_inv_def)
        qed
      qed (use inv en in auto)
    qed
  qed
qed

lemma clients_keep:
  assumes "server_inv st" "process_clients env ps res st = Some (r, st')"
  shows "server_inv st' \<and> narrows (sess st') (sess st)"
  using assms
proof (induction ps arbitrary: res st)
  case (Cons p ps)
  show ?case
  proof (cases "snd p AND 1 = 1")
    case True
    then obtain r1 st1 where m: "process_client_message env p st = Some (r1, st1)"
        "process_clients env ps (if r1 \<noteq> ST_OK then r1 else res) st1 = Some (r, st')"
      using Cons.prems(2) by (auto split: option.splits)
    note k = message_keeps [OF Cons.prems(1) m(1)]
    show ?thesis using Cons.IH [of st1] k m(2) narrows_trans by blast
  qed (use Cons in simp)
qed simp
subsection \<open>A turn of the loop\<close>

lemma close_when_narrows:
  assumes inv: "session_inv s f" and k: "k < MAX_SESSIONS" and P: "\<And>p. P p \<Longrightarrow> \<not> s_b_authenticated p"
  shows "narrows (fst (close_when P k (s, f))) s \<and>
    n_authenticated_id (fst (close_when P k (s, f))) = n_authenticated_id s"
proof (cases "P (slot s k)")
  case True
  have len: "k < length (sessions s)" using k session_invD(2) [OF inv] by simp
  have "n_authenticated_id s \<noteq> s_id (slot s k)"
    using P [OF True] session_invD(3,6) [OF inv k] by simp
  moreover have "close_when P k (s, f) = session_close_private s k f" using True by (simp add: close_when_def slot_def)
  moreover have "narrows (fst (session_close_private s k f)) s"
    by (auto simp: narrows_def session_close_private_def Let_def split_beta slot_update [OF len]
        extnet_close_client_def extnet_is_client_closed_def split: if_splits)
  ultimately show ?thesis by (simp add: session_close_private_def Let_def split_beta slot_def)
qed (simp add: close_when_def slot_def)

lemma fold_close_when_narrows:
  assumes "session_inv s f" "\<forall>k \<in> set ks. k < MAX_SESSIONS" "\<And>p. P p \<Longrightarrow> \<not> s_b_authenticated p"
  shows "narrows (fst (fold (close_when P) ks (s, f))) s \<and>
    n_authenticated_id (fst (fold (close_when P) ks (s, f))) = n_authenticated_id s"
  using assms(1,2)
proof (induction ks arbitrary: s f)
  case (Cons k ks)
  obtain s1 f1 where p: "close_when P k (s, f) = (s1, f1)" by fastforce
  have k: "narrows s1 s \<and> n_authenticated_id s1 = n_authenticated_id s"
    using close_when_narrows [OF Cons.prems(1), of k P] Cons.prems(2) assms(3) by (simp add: p)
  have "session_inv s1 f1" using close_when_inv [of "(s, f)" k P] Cons.prems by (simp add: p)
  then show ?case using Cons.IH [of s1 f1] Cons.prems(2) k narrows_trans by (auto simp: p)
qed simp

lemma expire_keeps:
  assumes inv: "session_inv s f" and e: "session_close_expired_unauth now s f = (s', f')"
  shows "narrows s' s \<and> session_inv s' f' \<and> n_authenticated_id s' = n_authenticated_id s"
proof -
  let ?P = "\<lambda>p. \<not> extnet_is_client_closed (s_extconn p) \<and> \<not> s_b_authenticated p \<and> s_t_auth_tout p \<le> now"
  have "fold (close_when ?P) [0 ..< MAX_SESSIONS] (s, f) = (s', f')"
    using e session_invD(1) [OF inv] by (simp only: session_close_expired_unauth_def if_True)
  then show ?thesis
    using fold_close_when_narrows [OF inv, of "[0 ..< MAX_SESSIONS]" ?P] session_close_many_inv(2) [OF inv, of now] e by simp
qed

lemma all_messages_keep:
  assumes inv: "server_inv st" and e: "process_all_client_messages env ps st = Some (r, st')"
  shows "server_inv st' \<and> narrows (sess st') (sess st)"
proof -
  obtain now w where c: "clock (network env) (world st) = (now, w)" by fastforce
  obtain s f where x: "session_close_expired_unauth now (sess st) (fds st) = (s, f)" by fastforce
  have k: "narrows s (sess st) \<and> session_inv s f \<and> n_authenticated_id s = n_authenticated_id (sess st)"
    using expire_keeps [OF _ x] inv by (simp add: server_inv_def)
  let ?st = "st\<lparr>world := w, sess := s, fds := f\<rparr>"
  have "server_inv ?st" using k inv by (simp add: server_inv_def)
  moreover have "process_clients env ps ST_OK ?st = Some (r, st')" using e by (simp add: process_all_client_messages_def c x)
  ultimately have "server_inv st' \<and> narrows (sess st') (sess ?st)" using clients_keep by blast
  then show ?thesis using k narrows_trans by auto
qed

lemma gpio_events_keep:
  assumes "process_all_gpio_events env ps st = Some (r, st')"
  shows "sess st' = sess st \<and> fds st' = fds st \<and> alive st' = alive st \<and> world st' = world st"
  using assms
proof (induction ps arbitrary: st)
  case (Cons p ps)
  show ?case using Cons.prems Cons.IH [of "st\<lparr>asd_msg := x\<rparr>" for x] by (fastforce split: option.splits if_splits)
qed simp

lemma close_connection_keeps:
  assumes "server_inv st"
  shows "server_inv (snd (close_connection env st))"
proof (cases "session_get_authenticated_conn (sess st)")
  case None
  then show ?thesis using assms by (simp add: close_connection_def)
next
  case (Some c)
  have "session_inv (sess st) (fds st)" using assms by (simp add: server_inv_def)
  then show ?thesis
    using Some closed_after_disconnect [of st c env] disconnect_keeps [where env = env and st = st]
    by (cases "on_client_disconnect env st") (simp add: close_connection_def server_inv_def)
qed
text \<open>A new connection; the system gives it a descriptor that is not in use.\<close>

lemma new_client_keeps:
  assumes inv: "server_inv st" and fresh: "fst (accepts env (world st)) \<notin> fds st"
    and e: "process_new_client env ci (arr, n, st) = (r, arr', n', st')"
  shows "server_inv st'"
proof -
  have s: "session_inv (sess st) (fds st)" using inv by (simp add: server_inv_def)
  obtain fd hst hd w where a: "accepts env (world st) = (fd, hst, hd, w)" by (metis prod_cases4)
  define on_accept where "on_accept = (case p_hdlrs (net_of st) of Tcp \<Rightarrow> exttcp_on_accept | Tls \<Rightarrow> \<lambda>c. (hst, c))"
  obtain r1 c f where x: "extnet_accept_connection on_accept ST_OK True fd \<lparr>sockfd = -1, p_hdlr_data = hd\<rparr> (fds st) = (r1, c, f)"
    by (metis prod_cases3)
  have fd: "fd \<notin> fds st" using fresh a by simp
  have oa: "sockfd (snd (on_accept c)) = sockfd c" for c
    by (cases "p_hdlrs (net_of st)") (simp_all add: on_accept_def exttcp_on_accept_def)
  show ?thesis
  proof (cases "r1 = ST_OK")
    case False
    have "f = fds st" using accept_keeps_fds_on_failure [OF x False fd oa] by simp
    moreover have "st' = st\<lparr>fds := f, world := w\<rparr>" using e a x False by (simp add: process_new_client_def on_accept_def)
    ultimately show ?thesis using inv by (simp add: server_inv_def)
  next
    case True
    have c: "sockfd c = fd" "0 \<le> fd" "f = insert fd (fds st)"
      using x True oa [of "\<lparr>sockfd = fd, p_hdlr_data = hd\<rparr>"]
      by (auto simp: extnet_accept_connection_def Let_def split: if_splits prod.splits)
    have si: "session_inv (sess st) f" using session_inv_more_fds [OF s] c(3) by simp
    obtain now w2 where cl: "clock (network env) w = (now, w2)" by fastforce
    obtain r2 s2 where o: "session_open now (sess st) c = (r2, s2)" by fastforce
    have na: "n_authenticated_id s2 = n_authenticated_id (sess st)"
      using o by (auto simp: session_open_def split: option.splits)
    have no: "\<forall>i < MAX_SESSIONS. fd_of (slot (sess st) i) \<noteq> sockfd c"
      using session_invD(5) [OF s] c(1,2) fd by metis
    show ?thesis
    proof (cases "r2 = ST_OK")
      case False
      then have "s2 = sess st" using o by (auto simp: session_open_def split: option.splits)
      moreover have "snd (snd (extnet_close_client ST_OK True c f)) = fds st"
        using c fd by (auto simp: extnet_close_client_def Let_def split: prod.split)
      ultimately show ?thesis
        using e a x cl o True False inv s
        by (auto simp: process_new_client_def on_accept_def server_inv_def split: prod.splits)
    next
      case ok: True
      have "session_inv s2 f"
        using session_open_inv [OF si _ _ no, of now] c o by simp
      moreover have "sess st' = s2" "fds st' = f" "alive st' = alive st"
        using e a x cl o True ok by (auto simp: process_new_client_def on_accept_def Let_def split: if_splits prod.splits)
      ultimately show ?thesis using na inv by (simp add: server_inv_def)
    qed
  qed
qed

lemma after_poll_keeps:
  assumes inv: "server_inv st" and fresh: "fst (accepts env (world st)) \<notin> fds st"
    and e: "after_poll env g n (arr, st) = Some (r, arr', st')"
  shows "server_inv st'"
proof -
  obtain arr1 n1 st1 where p: "(if snd (snd (arr ! 0)) AND 1 \<noteq> 0 then snd (process_new_client env (1 + g) (arr, n, st)) else (arr, n, st)) =
      (arr1, n1, st1)" by (metis prod_cases3)
  have i1: "server_inv st1"
    using p inv new_client_keeps [OF inv fresh, of "1 + g" arr n] by (cases "process_new_client env (1 + g) (arr, n, st)") (auto split: if_splits)
  define found where "found = (\<lambda>i k. map (\<lambda>(fd, _, rev). (fd, rev)) (take k (drop i arr1)) :: (int \<times> u16) list)"
  define q where "q = (if alive st1 \<and> g > 0 then process_all_gpio_events env (found 1 g) st1 else Some (ST_OK, st1))"
  have e: "(case q of None \<Rightarrow> None | Some (r, st) \<Rightarrow> if r \<noteq> ST_OK then Some (ST_OK, arr1, snd (close_connection env st))
      else map_option (\<lambda>(_, st). (ST_OK, arr1, st)) (process_all_client_messages env (found (1 + g) n1) st)) = Some (r, arr', st')"
    using e p unfolding after_poll_def q_def found_def Let_def prod.case by simp
  then obtain r2 st2 where q: "q = Some (r2, st2)" by (cases q) auto
  have i2: "server_inv st2"
    using q i1 gpio_events_keep [of env "found 1 g" st1 r2 st2] by (auto simp: q_def server_inv_def split: if_splits)
  show ?thesis
    using e q close_connection_keeps [OF i2, of env] all_messages_keep [OF i2, of env "found (1 + g) n1"]
    by (auto split: if_splits)
qed

lemma turn_keeps:
  assumes inv: "server_inv st" and fresh: "\<forall>w. fst (accepts env w) \<notin> fds st"
    and e: "request_processing_turn env (arr, st) = Some (r, arr', st')"
  shows "server_inv st'"
proof -
  define gpio where "gpio = (if alive st then let (r, ps) = asd_msg_get_fds (engine_of env) (asd_msg st) in if r = ST_OK then ps else []
      else [])"
  obtain now w where c: "clock (network env) (world st) = (now, w)" by fastforce
  have s: "session_inv (sess st) (fds st)" using inv by (simp add: server_inv_def)
  obtain clients timeout where g: "session_getfds now (sess st) (-1) = Some (clients, timeout)"
    using session_invD(1) [OF s] by (cases "session_getfds now (sess st) (-1)") (auto simp: session_getfds_def split_beta)
  define arr1 where "arr1 = put_fds (1 + length gpio) (map (\<lambda>fd. (fd, 1, 0)) clients)
      (put_fds 1 (map (\<lambda>(fd, e). (fd, e, 0)) gpio) arr)"
  define n where "n = 1 + length gpio + length clients + length gpio"
  obtain revs w2 where p: "polls env (map (\<lambda>(fd, e, _). (fd, e)) (take n arr1)) timeout w = (revs, w2)" by fastforce
  have e: "(case revs of None \<Rightarrow> Some (ST_ERR, arr1, st\<lparr>world := w2\<rparr>) | Some revs \<Rightarrow>
      after_poll env (length gpio) (length clients)
        (map2 (\<lambda>(fd, e, _) rev. (fd, e, rev)) (take n arr1) revs @ drop n arr1, st\<lparr>world := w2\<rparr>)) = Some (r, arr', st')"
    using e unfolding request_processing_turn_def prod.case gpio_def [symmetric]
    by (simp add: Let_def c g p [unfolded arr1_def n_def] arr1_def n_def
        del: One_nat_def plus_1_eq_Suc split: option.splits)
  have "server_inv (st\<lparr>world := w2\<rparr>)" using inv by (simp add: server_inv_def)
  then show ?thesis
    using e after_poll_keeps [of "st\<lparr>world := w2\<rparr>" env "length gpio" "length clients"] fresh by (auto split: option.splits)
qed

text \<open>
  A run of the server: what a start that succeeds leaves, then any number of turns that end normally,
  each in surroundings of its own.
\<close>

inductive server_run :: "poll_array \<Rightarrow> ('d, 't, 'o, 'w) asd_state \<Rightarrow> bool" where
  start: "init_asd_state ans a cfg f w = (ST_OK, f', Some st) \<Longrightarrow> server_run (poll_fds_init (host_fd st)) st"
| turn: "server_run arr st \<Longrightarrow> \<forall>w. fst (accepts env w) \<notin> fds st \<Longrightarrow>
    request_processing_turn env (arr, st) = Some (ST_OK, arr', st') \<Longrightarrow> server_run arr' st'"

lemma init_inv:
  assumes "init_asd_state ans a cfg f w = (ST_OK, f', Some st)"
  shows "server_inv st"
  using assms
  by (auto simp: init_asd_state_def Let_def server_inv_def session_init_inv split: option.splits if_splits prod.splits)

lemma server_run_inv: "server_run arr st \<Longrightarrow> server_inv st"
  by (induction rule: server_run.induct) (blast intro: init_inv turn_keeps)+
text \<open>
  C3. There is a message engine only while a client is authenticated, in every state the server reaches: the
  client has an open descriptor, which no other session has, and it is the one the engine sends to. The table
  of sessions is well formed and each of its descriptors is an open one.
\<close>

theorem engine_needs_authentication:
  assumes "server_run arr st"
  shows "session_inv (sess st) (fds st) \<and>
    (alive st \<longrightarrow> (\<exists>c. session_get_authenticated_conn (sess st) = Some c \<and> sockfd c \<in> fds st \<and>
       (\<forall>d. session_already_authenticated (sess st) d = ST_OK \<longleftrightarrow> sockfd d = sockfd c)))"
proof -
  have i: "server_inv st" by (rule server_run_inv [OF assms])
  then have s: "session_inv (sess st) (fds st)" by (simp add: server_inv_def)
  moreover have "\<exists>c. session_get_authenticated_conn (sess st) = Some c \<and> sockfd c \<in> fds st \<and>
       (\<forall>d. session_already_authenticated (sess st) d = ST_OK \<longleftrightarrow> sockfd d = sockfd c)" if al: "alive st"
  proof -
    have "auth_fd (sess st) \<noteq> None" using al i auth_fd_None [OF s] by (simp add: server_inv_def)
    then obtain c where c: "session_get_authenticated_conn (sess st) = Some c" "auth_fd (sess st) = Some (sockfd c)"
      by (auto simp: auth_fd_def)
    obtain k where "k < MAX_SESSIONS" "fd_of (slot (sess st) k) = sockfd c" "0 \<le> sockfd c" using c(2) auth_fd_Some [OF s] by blast
    then have "sockfd c \<in> fds st" using session_invD(5) [OF s, of k] by simp
    moreover have "session_already_authenticated (sess st) d = ST_OK \<longleftrightarrow> sockfd d = sockfd c" for d
      unfolding already_authenticated_iff [OF s] c(2) by auto
    ultimately show ?thesis using c(1) by blast
  qed
  ultimately show ?thesis by blast
qed

text \<open>
  C22. A client that does not authenticate is disconnected: after the messages have been handled, every session
  that is not authenticated was open before, is not older than fifteen seconds and has kept its deadline.
\<close>

theorem silent_clients_are_closed:
  assumes "server_inv st" "clock (network env) (world st) = (now, w)"
    and "process_all_client_messages env ps st = Some (r, st')"
    and "open_map (sess st') fd = Some deadline" "auth_fd (sess st') \<noteq> Some fd"
  shows "now < deadline \<and> open_map (sess st) fd = Some deadline"
proof -
  have s: "session_inv (sess st) (fds st)" using assms(1) by (simp add: server_inv_def)
  obtain s1 f1 where x: "session_close_expired_unauth now (sess st) (fds st) = (s1, f1)" by fastforce
  note k = expire_keeps [OF s x]
  let ?st = "st\<lparr>world := w, sess := s1, fds := f1\<rparr>"
  have i1: "server_inv ?st" using k assms(1) by (simp add: server_inv_def)
  have "process_clients env ps ST_OK ?st = Some (r, st')"
    using assms(2,3) by (simp add: process_all_client_messages_def x)
  from clients_keep [OF i1 this] have k2: "session_inv (sess st') (fds st')" "narrows (sess st') s1"
    by (simp_all add: server_inv_def)
  obtain i where i: "i < MAX_SESSIONS" "fd_of (slot (sess st') i) = fd" "0 \<le> fd" "deadline = s_t_auth_tout (slot (sess st') i)"
    using assms(4) open_map_Some [OF k2(1)] by blast
  have "\<not> s_b_authenticated (slot (sess st') i)" using auth_fd_slot [OF k2(1) i(1)] i(2,3) assms(5) by simp
  then have 1: "fd_of (slot s1 i) = fd" "\<not> s_b_authenticated (slot s1 i)" "deadline = s_t_auth_tout (slot s1 i)"
    using k2(2) i by (auto simp: narrows_def)
  have s1: "session_inv s1 f1" using k by blast
  have "open_map s1 fd = Some deadline" "auth_fd s1 \<noteq> Some fd"
    using 1 i(1,3) open_map_Some [OF s1] auth_fd_slot [OF s1 i(1)] by auto
  then show ?thesis
    using refine_expire [OF s, of now] by (auto simp: x session_abs_def restrict_map_def split: if_splits)
qed

lemma probes_untouched:
  "vprobe_handler (snd (on_i2c f s)) = vprobe_handler s" "vprobe_handler (snd (on_i3c g s)) = vprobe_handler s"
  "vprobe_handler (snd (on_target h s)) = vprobe_handler s"
  by (simp_all add: on_i2c_def on_i3c_def on_target_def set_cfg_def split: prod.split)

lemma free_reports_probes:
  "\<not> vp_initialized (vprobe_handler e) \<Longrightarrow> fst (asd_msg_free env e) = ST_ERR"
  by (simp add: asd_msg_free_def Let_def split_beta probes_untouched vProbe_deinitialize_def)

text \<open>
  C23. When a pin event must end the connection and the client never asked for its remote probes, the
  engine is freed but the client stays authenticated, because freeing the engine reports the probes
  as an error: \<^verbatim>\<open>close_connection\<close> then leaves the session as it is. The next thing this client sends
  is handed to an engine that does not exist, a null pointer.
\<close>

theorem freed_engine_is_used:
  assumes "server_run arr st" "alive st" "\<not> vp_initialized (vprobe_handler (asd_msg st))"
  shows "\<exists>c st'. session_get_authenticated_conn (sess st) = Some c \<and>
    close_connection env st = (ST_ERR, st') \<and> \<not> alive st' \<and>
    session_get_authenticated_conn (sess st') = Some c \<and>
    (\<forall>revents. revents AND 1 \<noteq> 0 \<longrightarrow> process_client_message env (sockfd c, revents) st' = None)"
proof -
  have i: "server_inv st" by (rule server_run_inv [OF assms(1)])
  then have s: "session_inv (sess st) (fds st)" by (simp add: server_inv_def)
  have "auth_fd (sess st) \<noteq> None" using assms(2) i auth_fd_None [OF s] by (simp add: server_inv_def)
  then obtain c where c: "session_get_authenticated_conn (sess st) = Some c" "auth_fd (sess st) = Some (sockfd c)"
    by (auto simp: auth_fd_def)
  let ?st = "st\<lparr>server_config := default_config st\<rparr>"
  have "fst (asd_msg_free (engine_of env) ((asd_msg ?st)\<lparr>asd_cfg := server_config ?st\<rparr>)) = ST_ERR"
    by (rule free_reports_probes) (simp add: assms(3))
  then obtain e where "asd_msg_free (engine_of env) ((asd_msg ?st)\<lparr>asd_cfg := server_config ?st\<rparr>) = (ST_ERR, e)"
    by (cases "asd_msg_free (engine_of env) ((asd_msg ?st)\<lparr>asd_cfg := server_config ?st\<rparr>)") simp
  then obtain st' where d: "on_client_disconnect env st = (ST_ERR, st')"
    using assms(2) by (simp add: on_client_disconnect_def)
  have st': "sess st' = sess st" "\<not> alive st'" using disconnect_keeps [where env = env and st = st] by (simp_all add: d)
  obtain k where k: "k < MAX_SESSIONS" "n_authenticated_id (sess st) = int k" "fd_of (slot (sess st) k) = sockfd c" "0 \<le> sockfd c"
    using c(2) auth_fd_Some [OF s] by blast
  have find: "session_find_private (sess st) (sockfd c) = Some k" using find_open [OF s k(1)] k(3,4) by simp
  then have l: "session_lookup_conn (sess st) (sockfd c) = Some (s_extconn (slot (sess st) k))"
    using k by (simp add: session_lookup_conn_def slot_def)
  obtain p where p: "session_get_data_pending (sess st) (s_extconn (slot (sess st) k)) = Some p"
    using find k(3) session_invD(1) [OF s] by (simp add: session_get_data_pending_def)
  have a: "session_already_authenticated (sess st) (s_extconn (slot (sess st) k)) = ST_OK"
    using already_authenticated_iff [OF s] c(2) k(3) by simp
  have "process_client_message env (sockfd c, revents) st' = None" if "revents AND 1 \<noteq> 0" for revents
    using that l p a st' by (simp add: process_client_message_def ensure_client_authenticated_def)
  then show ?thesis
    using c(1) d st' by (intro exI [of _ c] exI [of _ st']) (simp add: close_connection_def)
qed
section \<open>A concrete server\<close>

text \<open>
  A server without authentication on descriptor 4: one client connects and sends two bytes of a header. Time
  stands still; the descriptor of the connection is 7.
\<close>

definition demo_args :: asd_args where
  "demo_args = \<lparr>session_opts = \<lparr>n_port_number = 5123, cp_certkeyfile = Some [], cp_net_bind_device = None,
       e_extnet_type = EXTNET_HDLR_NON_ENCRYPT, e_auth_type = AUTH_HDLR_NONE\<rparr>,
     busopt = \<lparr>opt_enable_i2c = False, opt_enable_i3c = False, opt_bus_config_map = [], opt_bus_config_type = [], opt_bus = 0\<rparr>,
     use_syslog = False, log_level = 0, log_streams = 0, arg_xdp_fail_enable = True\<rparr>"

definition demo_init :: "(aspeed_jtag, unit, int list) init_answers" where
  "demo_init = \<lparr>tls_ok = True, init_client_answers = (\<lambda>_. ST_OK), stack_conn = \<lparr>sockfd = 0, p_hdlr_data = None\<rparr>, r_eventfd = 3,
     host_calls = \<lparr>r_socket = 4, r_nodelay = 0, r_reuse = 0, r_bindtodevice = 0, r_bind = 0, r_listen = 0\<rparr>,
     memory = demo_i2c_state\<rparr>"

definition demo_server :: "(aspeed_jtag, unit, int list, int) server_env" where
  "demo_server = \<lparr>engine_of = demo_engine,
     network = demo_net\<lparr>sock_recv := (\<lambda>fd len w. (2, \<lparr>ssl_n = 0, ssl_closed_st = ST_OK, ssl_error_st = ST_OK, ssl_pending = 0\<rparr>,
         [0x20, 1], w)), clock := (\<lambda>w. (w, w))\<rparr>,
     accepts = (\<lambda>w. (7, ST_OK, None, w)),
     send_answer = (\<lambda>_ _ bs. (int (length bs), \<lparr>ssl_n = 0, ssl_closed_st = ST_OK, ssl_error_st = ST_OK, ssl_pending = 0\<rparr>)),
     version_file = (\<lambda>_. None), polls = (\<lambda>ps t w. (Some (map (\<lambda>_. 1) ps), w))\<rparr>"

text \<open>The server before and after the connection is open.\<close>

definition demo_open :: session where
  "demo_open = snd (session_open 100 demo_session \<lparr>sockfd = 7, p_hdlr_data = None\<rparr>)"

definition demo_state :: "session \<Rightarrow> fds \<Rightarrow> (aspeed_jtag, unit, int list, int) asd_state" where
  "demo_state s f = \<lparr>args = demo_args, alive = False, asd_msg = demo_i2c_state, host_fd = 4, event_fd = 3,
     server_config = the (snd (set_config_defaults (Some demo_config) (Some (busopt demo_args)))), sess = s,
     net_of = \<lparr>p_hdlrs = Tcp, n_max_sessions = 5\<rparr>, chosen_auth = Some AUTH_HDLR_NONE, auth = auth_reset, fds = f, world = 100\<rparr>"

lemma demo_begins: "server_run (poll_fds_init 4) (demo_state demo_session {3, 4})"
proof -
  obtain s where s: "session_init (\<lambda>_. ST_OK) \<lparr>sockfd = 0, p_hdlr_data = None\<rparr> = Some s"
    by (simp add: session_init_def extnet_init_client_def list_all_iff)
  then have "demo_session = s" by (simp add: demo_session_def)
  then have "init_asd_state demo_init demo_args demo_config {} 100 = (ST_OK, {3, 4}, Some (demo_state demo_session {3, 4}))"
    using s by (simp add: init_asd_state_def demo_init_def demo_args_def demo_state_def extnet_init_def auth_init_def
        extnet_open_external_socket_def insert_commute)
  from server_run.start [OF this] show ?thesis by (simp add: demo_state_def)
qed

lemma demo_sessions:
  "session_open 100 demo_session \<lparr>sockfd = 7, p_hdlr_data = None\<rparr> = (ST_OK, demo_open)"
  "fst (session_close_expired_unauth 100 demo_open {}) = demo_open"
  "session_lookup_conn demo_open 7 = Some \<lparr>sockfd = 7, p_hdlr_data = None\<rparr>"
  "session_get_data_pending demo_open \<lparr>sockfd = 7, p_hdlr_data = None\<rparr> = Some False"
  "session_already_authenticated demo_open \<lparr>sockfd = 7, p_hdlr_data = None\<rparr> = ST_ERR"
  "fst (session_auth_complete demo_open \<lparr>sockfd = 7, p_hdlr_data = None\<rparr>) = ST_OK"
  "fst (session_set_data_pending (snd (session_auth_complete demo_open \<lparr>sockfd = 7, p_hdlr_data = None\<rparr>))
     \<lparr>sockfd = 7, p_hdlr_data = None\<rparr> False) = ST_OK"
  "session_getfds 100 demo_session (-1) = Some ([], -1)"
proof -
  have "fst (session_open 100 demo_session \<lparr>sockfd = 7, p_hdlr_data = None\<rparr>) = ST_OK" by code_simp
  then show "session_open 100 demo_session \<lparr>sockfd = 7, p_hdlr_data = None\<rparr> = (ST_OK, demo_open)"
    by (simp add: demo_open_def prod_eq_iff)
qed (code_simp)+
lemma demo_read:
  assumes "read_state (in_msg e) = READ_STATE_INITIAL" "0 \<le> sockfd c"
  shows "\<exists>e'. asd_msg_read demo_engine (read_data demo_server \<lparr>p_hdlrs = Tcp, n_max_sessions = 5\<rparr> c) (e, w, False) =
      Some (ST_OK, e', w, False) \<and> vprobe_handler e' = vprobe_handler e"
  using assms
  by (simp add: asd_msg_read_def read_header_def start_reading_def read_data_def net_recv_def extnet_recv_def exttcp_recv_def
      demo_server_def)

lemma demo_message:
  "\<exists>st'. process_client_message demo_server (7, 1) (demo_state demo_open f) = Some (ST_OK, st') \<and> alive st' \<and>
     \<not> vp_initialized (vprobe_handler (asd_msg st'))"
proof -
  let ?c = "\<lparr>sockfd = 7, p_hdlr_data = None\<rparr>"
  obtain s2 where s2: "session_auth_complete demo_open ?c = (ST_OK, s2)"
    using demo_sessions(6) by (cases "session_auth_complete demo_open ?c") simp
  let ?st = "demo_state s2 f"
  obtain e where e: "asd_msg_init demo_engine True False None (server_config ?st) demo_i2c_state = Some (True, e)"
      "read_state (in_msg e) = READ_STATE_INITIAL" "\<not> vp_initialized (vprobe_handler e)"
    by (simp add: asd_msg_init_def demo_engine_def demo_admin_def read_openbmc_version_def fresh_handlers_def vProbeHandler_def Let_def)
  let ?e = "e\<lparr>client := \<lparr>send_function = (\<lambda>_ _. ST_ERR), sent = []\<rparr>\<rparr>"
  have co: "on_client_connect demo_server ?st = Some (ST_OK, ?st\<lparr>alive := True, asd_msg := ?e\<rparr>)"
    using e(1) by (simp add: on_client_connect_def demo_server_def demo_state_def)
  have en: "ensure_client_authenticated demo_server ?c (demo_state demo_open f) = Some (ST_OK, ?st\<lparr>alive := True, asd_msg := ?e\<rparr>)"
    using demo_sessions(5) s2 co
    by (simp add: ensure_client_authenticated_def auth_client_handshake_def auth_none_def demo_state_def)
  let ?st1 = "?st\<lparr>alive := True, asd_msg := ?e\<rparr>"
  let ?in = "(connected demo_server ?st1)\<lparr>xdp_fail_enable := arg_xdp_fail_enable (args ?st1)\<rparr>"
  obtain e' where rd: "asd_msg_read demo_engine (read_data demo_server \<lparr>p_hdlrs = Tcp, n_max_sessions = 5\<rparr> ?c) (?in, 100, False) =
      Some (ST_OK, e', 100, False)" "vprobe_handler e' = vprobe_handler ?in"
    using demo_read [of ?in ?c 100] e(2) by (auto simp: connected_def)
  obtain s3 where s3: "session_set_data_pending s2 ?c False = (ST_OK, s3)"
    using demo_sessions(7) s2 by (cases "session_set_data_pending s2 ?c False") simp
  have "process_client_message demo_server (7, 1) (demo_state demo_open f) =
      Some (ST_OK, ?st1\<lparr>asd_msg := e', world := 100, sess := s3\<rparr>)"
    using demo_sessions(3,4) en rd(1) s3
    by (simp add: process_client_message_def demo_server_def demo_state_def)
  then show ?thesis using rd(2) e(3) by (simp add: connected_def)
qed

text \<open>The turn in which the client connects.\<close>

lemma demo_run: "\<exists>arr (st :: (aspeed_jtag, unit, int list, int) asd_state). server_run arr st \<and> alive st \<and> \<not> vp_initialized (vprobe_handler (asd_msg st))"
proof -
  obtain st' where m: "process_client_message demo_server (7, 1) (demo_state demo_open {3, 4, 7}) = Some (ST_OK, st')" "alive st'"
      "\<not> vp_initialized (vprobe_handler (asd_msg st'))" using demo_message by blast
  have ex: "session_close_expired_unauth 100 demo_open {3, 4, 7} = (demo_open, {3, 4, 7})"
    by code_simp
  let ?st = "demo_state demo_session {3, 4}"
  have "request_processing_turn demo_server (poll_fds_init 4, ?st) =
      after_poll demo_server 0 0 ((4, 1, 1) # replicate 17 (0, 0, 0), ?st)"
    using demo_sessions(8) by (simp add: request_processing_turn_def demo_state_def demo_server_def poll_fds_init_def put_fds_def)
  also have "\<dots> = Some (ST_OK, (4, 1, 1) # (7, 0, 1) # replicate 16 (0, 0, 0), st')"
  proof -
    have p: "process_new_client demo_server 1 ((4, 1, 1) # replicate 17 (0, 0, 0), 0, ?st) =
        (ST_OK, (4, 1, 1) # (7, 0, 1) # replicate 16 (0, 0, 0), 1, demo_state demo_open {3, 4, 7})"
      using demo_sessions(1)
      by (simp add: process_new_client_def demo_server_def demo_state_def extnet_accept_connection_def exttcp_on_accept_def
          demo_args_def Let_def numeral_eq_Suc insert_commute)
    have "process_all_client_messages demo_server [(7, 1)] (demo_state demo_open {3, 4, 7}) = Some (ST_OK, st')"
      using ex m(1) by (simp add: process_all_client_messages_def demo_server_def demo_state_def)
    then show ?thesis using p by (simp add: after_poll_def demo_state_def)
  qed
  finally have t: "request_processing_turn demo_server (poll_fds_init 4, ?st) =
      Some (ST_OK, (4, 1, 1) # (7, 0, 1) # replicate 16 (0, 0, 0), st')" .
  have "\<forall>w. fst (accepts demo_server w) \<notin> fds ?st" by (simp add: demo_server_def demo_state_def)
  from server_run.turn [OF demo_begins this t] m(2,3) show ?thesis by blast
qed
theorem engine_needs_authentication_witness:
  "\<exists>(st :: (aspeed_jtag, unit, int list, int) asd_state) c. alive st \<and> session_get_authenticated_conn (sess st) = Some c \<and> sockfd c \<in> fds st"
proof -
  obtain arr and st :: "(aspeed_jtag, unit, int list, int) asd_state" where "server_run arr st" "alive st" using demo_run by blast
  from engine_needs_authentication [OF this(1)] this(2) show ?thesis by blast
qed

theorem freed_engine_is_used_witness:
  "\<exists>(st :: (aspeed_jtag, unit, int list, int) asd_state) c st'. alive st \<and> close_connection demo_server st = (ST_ERR, st') \<and>
     session_get_authenticated_conn (sess st') = Some c \<and> process_client_message demo_server (sockfd c, 1) st' = None"
proof -
  obtain arr and st :: "(aspeed_jtag, unit, int list, int) asd_state" where r: "server_run arr st" "alive st"
    "\<not> vp_initialized (vprobe_handler (asd_msg st))" using demo_run by blast
  have "(1 :: u16) AND 1 \<noteq> 0" by simp
  with freed_engine_is_used [OF r, of demo_server] r(2) show ?thesis by blast
qed

text \<open>The connection of 100 seconds is kept at 114, and closed at 115.\<close>

theorem silent_clients_are_closed_witness:
  "\<exists>r st'. process_all_client_messages demo_server [] ((demo_state demo_open {3, 4, 7})\<lparr>world := 114\<rparr>) = Some (r, st') \<and>
     open_map (sess st') 7 = Some 115 \<and> (114 :: int) < 115 \<and> open_map demo_open 7 = Some 115"
proof -
  let ?st = "(demo_state demo_open {3, 4, 7})\<lparr>world := 114\<rparr>"
  have i: "session_inv demo_session {3, 4, 7}"
  proof -
    obtain s where "session_init (\<lambda>_. ST_OK) \<lparr>sockfd = 0, p_hdlr_data = None\<rparr> = Some s"
      by (simp add: session_init_def extnet_init_client_def list_all_iff)
    then show ?thesis using session_init_inv by (simp add: demo_session_def)
  qed
  have "\<forall>k < MAX_SESSIONS. fd_of (slot demo_session k) \<noteq> 7" by code_simp
  then have "session_inv demo_open {3, 4, 7}" using session_open_inv [OF i, of "\<lparr>sockfd = 7, p_hdlr_data = None\<rparr>" 100] by (simp add: demo_open_def)
  then have inv: "server_inv ?st" by (simp add: server_inv_def demo_state_def)
  have x: "session_close_expired_unauth 114 demo_open {3, 4, 7} = (demo_open, {3, 4, 7})" by code_simp
  have c: "clock (network demo_server) (world ?st) = (114, 114)" by (simp add: demo_server_def)
  have p: "process_all_client_messages demo_server [] ?st = Some (ST_OK, ?st)"
    using x by (simp add: process_all_client_messages_def demo_server_def demo_state_def)
  have o: "open_map (sess ?st) 7 = Some 115" "auth_fd (sess ?st) \<noteq> Some 7"
    by (simp_all add: demo_state_def) (code_simp)+
  from silent_clients_are_closed [OF inv c p o] p o show ?thesis by (simp add: demo_state_def)
qed

end
