(* ===== verification/Safec.thy ===== *)
theory Safec
  imports Asd_Message
begin

text \<open>
  The safe C library that is built into the server, \<^verbatim>\<open>safec/\<close>: setting and moving memory with words and unrolled
  loops, and the checked functions that the macros \<^verbatim>\<open>memset_s\<close>, \<^verbatim>\<open>memcpy_s\<close>, \<^verbatim>\<open>memcmp_s\<close>, \<^verbatim>\<open>strnlen_s\<close> and \<^verbatim>\<open>strcmp_s\<close>
  stand for. The fast routines are shown equal to plain ones, a checked copy writes nowhere but into its
  destination, and it implements the copy between buffers that the other theories use.
\<close>

text \<open>Memory by address; an address is a natural number, the null pointer is 0.\<close>

type_synonym 'a mem = "nat \<Rightarrow> 'a"

section \<open>Setting memory\<close>

fun set_up :: "nat \<Rightarrow> nat \<Rightarrow> 'a \<Rightarrow> 'a mem \<Rightarrow> 'a mem" where
  "set_up 0 dp v m = m"
| "set_up (Suc n) dp v m = set_up n (dp + 1) v (m(dp := v))"

text \<open>Sixteen at a time, and the rest through the cases of the \<^verbatim>\<open>switch\<close>.\<close>

fun set_unrolled :: "nat \<Rightarrow> nat \<Rightarrow> 'a \<Rightarrow> 'a mem \<Rightarrow> 'a mem" where
  "set_unrolled len dp v m =
     (if len = 0 then m
      else if len > 15 then set_unrolled (len - 16) (dp + 16) v (set_up 16 dp v m)
      else set_up len dp v m)"

definition mem_prim_set16 :: "nat \<Rightarrow> nat \<Rightarrow> u16 \<Rightarrow> u16 mem \<Rightarrow> u16 mem" where
  "mem_prim_set16 dest len v m = set_unrolled len dest v m"

definition mem_prim_set32 :: "nat \<Rightarrow> nat \<Rightarrow> u32 \<Rightarrow> u32 mem \<Rightarrow> u32 mem" where
  "mem_prim_set32 dest len v m = set_unrolled len dest v m"

text \<open>A word of four bytes is written; an address that is not a multiple of four is a fault.\<close>

definition put_word :: "nat \<Rightarrow> u32 \<Rightarrow> u8 mem \<Rightarrow> u8 mem option" where
  "put_word a w m = (if a mod 4 = 0
     then Some (m(a := ucast w, a + 1 := ucast (drop_bit 8 w), a + 2 := ucast (drop_bit 16 w), a + 3 := ucast (drop_bit 24 w)))
     else None)"

definition get_word :: "nat \<Rightarrow> u8 mem \<Rightarrow> u32 option" where
  "get_word a m = (if a mod 4 = 0
     then Some (ucast (m a) OR push_bit 8 (ucast (m (a + 1))) OR push_bit 16 (ucast (m (a + 2))) OR push_bit 24 (ucast (m (a + 3))))
     else None)"

fun put_words :: "nat \<Rightarrow> nat \<Rightarrow> u32 \<Rightarrow> u8 mem \<Rightarrow> u8 mem option" where
  "put_words 0 lp w m = Some m"
| "put_words (Suc n) lp w m = (case put_word lp w m of None \<Rightarrow> None | Some m \<Rightarrow> put_words n (lp + 4) w m)"

fun put_words_unrolled :: "nat \<Rightarrow> nat \<Rightarrow> u32 \<Rightarrow> u8 mem \<Rightarrow> u8 mem option" where
  "put_words_unrolled lcount lp w m =
     (if lcount = 0 then Some m
      else if lcount > 15 then
        (case put_words 16 lp w m of None \<Rightarrow> None | Some m \<Rightarrow> put_words_unrolled (lcount - 16) (lp + 64) w m)
      else put_words lcount lp w m)"

text \<open>The bytes up to the next word.\<close>

fun set_align :: "nat \<Rightarrow> nat \<Rightarrow> 'a \<Rightarrow> 'a mem \<Rightarrow> nat \<times> nat \<times> 'a mem" where
  "set_align dp 0 v m = (dp, 0, m)"
| "set_align dp (Suc count) v m =
     (if dp mod 4 \<noteq> 0 then set_align (dp + 1) count v (m(dp := v)) else (dp, Suc count, m))"

definition mem_prim_set :: "nat \<Rightarrow> nat \<Rightarrow> u8 \<Rightarrow> u8 mem \<Rightarrow> u8 mem option" where
  "mem_prim_set dest len v m =
     (let w = ucast v :: u32; value32 = w OR push_bit 8 w OR push_bit 16 w OR push_bit 24 w;
          (dp, count, m) = set_align dest len v m; lcount = count div 4
      in case put_words_unrolled lcount dp value32 m of
           None \<Rightarrow> None
         | Some m \<Rightarrow> Some (set_up (count mod 4) (dp + 4 * lcount) v m))"

section \<open>Moving memory\<close>

fun copy_up :: "nat \<Rightarrow> nat \<Rightarrow> nat \<Rightarrow> 'a mem \<Rightarrow> 'a mem" where
  "copy_up 0 dp sp m = m"
| "copy_up (Suc n) dp sp m = copy_up n (dp + 1) (sp + 1) (m(dp := m sp))"

text \<open>Down from the ends; an address below zero is not reached.\<close>

fun copy_down :: "nat \<Rightarrow> nat \<Rightarrow> nat \<Rightarrow> 'a mem \<Rightarrow> 'a mem" where
  "copy_down 0 dp sp m = m"
| "copy_down (Suc n) dp sp m = copy_down n (dp - 1) (sp - 1) (m(dp - 1 := m (sp - 1)))"

definition copy_word :: "nat \<Rightarrow> nat \<Rightarrow> u8 mem \<Rightarrow> u8 mem option" where
  "copy_word dp sp m = (case get_word sp m of None \<Rightarrow> None | Some w \<Rightarrow> put_word dp w m)"

fun words_up :: "nat \<Rightarrow> nat \<Rightarrow> nat \<Rightarrow> u8 mem \<Rightarrow> u8 mem option" where
  "words_up 0 dp sp m = Some m"
| "words_up (Suc n) dp sp m = (case copy_word dp sp m of None \<Rightarrow> None | Some m \<Rightarrow> words_up n (dp + 4) (sp + 4) m)"

fun words_down :: "nat \<Rightarrow> nat \<Rightarrow> nat \<Rightarrow> u8 mem \<Rightarrow> u8 mem option" where
  "words_down 0 dp sp m = Some m"
| "words_down (Suc n) dp sp m =
     (case copy_word (dp - 4) (sp - 4) m of None \<Rightarrow> None | Some m \<Rightarrow> words_down n (dp - 4) (sp - 4) m)"

text \<open>\<^verbatim>\<open>do { ... } while (--tsp)\<close> with a word of 32 bits: zero counts as its full range.\<close>

definition do_times :: "nat \<Rightarrow> nat" where
  "do_times tsp = (if tsp = 0 then 2 ^ 32 else tsp)"

definition mem_prim_move :: "nat \<Rightarrow> nat \<Rightarrow> nat \<Rightarrow> u8 mem \<Rightarrow> u8 mem option" where
  "mem_prim_move dest src len m =
     (if dest < src then
        let (dp, sp, len, m) =
              (if src mod 4 \<noteq> 0 \<or> dest mod 4 \<noteq> 0 then
                 let tsp = (if src mod 4 \<noteq> dest mod 4 \<or> len < 4 then len else 4 - src mod 4); n = do_times tsp
                 in (dest + n, src + n, len - tsp, copy_up n dest src m)
               else (dest, src, len, m));
            k = len div 4
        in case words_up k dp sp m of
             None \<Rightarrow> None
           | Some m \<Rightarrow> Some (copy_up (len mod 4) (dp + 4 * k) (sp + 4 * k) m)
      else
        let sp = src + len; dp = dest + len;
            (dp, sp, len, m) =
              (if sp mod 4 \<noteq> 0 \<or> dp mod 4 \<noteq> 0 then
                 let tsp = (if sp mod 4 \<noteq> dp mod 4 \<or> len \<le> 4 then len else sp mod 4); n = do_times tsp
                 in (dp - n, sp - n, len - tsp, copy_down n dp sp m)
               else (dp, sp, len, m));
            k = len div 4
        in case words_down k dp sp m of
             None \<Rightarrow> None
           | Some m \<Rightarrow> Some (copy_down (len mod 4) (dp - 4 * k) (sp - 4 * k) m))"

text \<open>The same for elements, unrolled.\<close>

fun up_unrolled :: "nat \<Rightarrow> nat \<Rightarrow> nat \<Rightarrow> 'a mem \<Rightarrow> 'a mem" where
  "up_unrolled len dp sp m =
     (if len = 0 then m
      else if len > 15 then up_unrolled (len - 16) (dp + 16) (sp + 16) (copy_up 16 dp sp m)
      else copy_up len dp sp m)"

fun down_unrolled :: "nat \<Rightarrow> nat \<Rightarrow> nat \<Rightarrow> 'a mem \<Rightarrow> 'a mem" where
  "down_unrolled len dp sp m =
     (if len = 0 then m
      else if len > 15 then down_unrolled (len - 16) (dp - 16) (sp - 16) (copy_down 16 dp sp m)
      else copy_down len dp sp m)"

definition move_unrolled :: "nat \<Rightarrow> nat \<Rightarrow> nat \<Rightarrow> 'a mem \<Rightarrow> 'a mem" where
  "move_unrolled dest src len m =
     (if dest < src then up_unrolled len dest src m else down_unrolled len (dest + len) (src + len) m)"

definition mem_prim_move8 :: "nat \<Rightarrow> nat \<Rightarrow> nat \<Rightarrow> u8 mem \<Rightarrow> u8 mem" where
  "mem_prim_move8 = move_unrolled"

definition mem_prim_move16 :: "nat \<Rightarrow> nat \<Rightarrow> nat \<Rightarrow> u16 mem \<Rightarrow> u16 mem" where
  "mem_prim_move16 = move_unrolled"

definition mem_prim_move32 :: "nat \<Rightarrow> nat \<Rightarrow> nat \<Rightarrow> u32 mem \<Rightarrow> u32 mem" where
  "mem_prim_move32 = move_unrolled"

section \<open>The references\<close>

declare set_unrolled.simps [simp del] put_words_unrolled.simps [simp del] up_unrolled.simps [simp del] down_unrolled.simps [simp del]

definition filled :: "nat \<Rightarrow> nat \<Rightarrow> 'a \<Rightarrow> 'a mem \<Rightarrow> 'a mem" where
  "filled d n v m = (\<lambda>a. if d \<le> a \<and> a < d + n then v else m a)"

definition moved :: "nat \<Rightarrow> nat \<Rightarrow> nat \<Rightarrow> 'a mem \<Rightarrow> 'a mem" where
  "moved d s n m = (\<lambda>a. if d \<le> a \<and> a < d + n then m (s + (a - d)) else m a)"

lemma filled_zero [simp]: "filled d 0 v m = m"
  by (auto simp: filled_def fun_eq_iff)

lemma filled_filled: "filled (d + j) k v (filled d j v m) = filled d (j + k) v m"
  by (auto simp: filled_def fun_eq_iff)

lemma moved_zero [simp]: "moved d s 0 m = m"
  by (auto simp: moved_def fun_eq_iff)

text \<open>Two pieces in a row, upwards or downwards; the second reads what the first has not overwritten.\<close>

lemma moved_up: "d \<le> s \<Longrightarrow> moved (d + j) (s + j) k (moved d s j m) = moved d s (j + k) m"
  by (auto simp: moved_def fun_eq_iff)

lemma moved_down: "s \<le> d \<Longrightarrow> moved d s k (moved (d + k) (s + k) j m) = moved d s (k + j) m"
  by (auto simp: moved_def fun_eq_iff)

lemma set_up_filled: "set_up n d v m = filled d n v m"
proof (induction n arbitrary: d m)
  case (Suc n)
  have "m(d := v) = filled d 1 v m" by (auto simp: filled_def)
  then show ?case using Suc filled_filled [of d 1 n v m] by simp
qed simp

lemma copy_up_moved: "d \<le> s \<Longrightarrow> copy_up n d s m = moved d s n m"
proof (induction n arbitrary: d s m)
  case (Suc n)
  have "m(d := m s) = moved d s 1 m" by (auto simp: moved_def)
  then show ?case using Suc moved_up [of d s 1 n m] by simp
qed simp

lemma copy_down_moved: "s \<le> d \<Longrightarrow> copy_down n (d + n) (s + n) m = moved d s n m"
proof (induction n arbitrary: m)
  case (Suc n)
  have "m(d + n := m (s + n)) = moved (d + n) (s + n) 1 m" by (auto simp: moved_def)
  then show ?case using Suc moved_down [of s d n 1 m] by simp
qed simp

lemma set_unrolled_filled: "set_unrolled len d v m = filled d len v m"
proof (induction len d v m rule: set_unrolled.induct)
  case (1 len d v m)
  show ?case
  proof (cases "len > 15")
    case True
    then show ?thesis using 1 filled_filled [of d 16 "len - 16" v m] by (subst set_unrolled.simps) (simp add: set_up_filled)
  next
    case False
    then show ?thesis by (subst set_unrolled.simps) (simp add: set_up_filled)
  qed
qed

lemma up_unrolled_moved: "d \<le> s \<Longrightarrow> up_unrolled len d s m = moved d s len m"
proof (induction len d s m rule: up_unrolled.induct)
  case (1 len d s m)
  show ?case
  proof (cases "len > 15")
    case True
    then show ?thesis using 1 moved_up [of d s 16 "len - 16" m] by (subst up_unrolled.simps) (simp add: copy_up_moved)
  next
    case False
    then show ?thesis using 1 by (subst up_unrolled.simps) (simp add: copy_up_moved)
  qed
qed

lemma down_unrolled_moved: "s \<le> d \<Longrightarrow> down_unrolled len (d + len) (s + len) m = moved d s len m"
proof (induction len arbitrary: m rule: less_induct)
  case (less len)
  show ?case
  proof (cases "len > 15")
    case True
    then obtain k where k: "len = k + 16" using that [of "len - 16"] by simp
    have c: "copy_down 16 (d + len) (s + len) m = moved (d + k) (s + k) 16 m"
      using copy_down_moved [of "s + k" "d + k" 16 m] less.prems by (simp add: k add.assoc)
    have "down_unrolled len (d + len) (s + len) m = down_unrolled k (d + k) (s + k) (moved (d + k) (s + k) 16 m)"
      by (subst down_unrolled.simps, subst c) (simp add: k)
    also have "\<dots> = moved d s k (moved (d + k) (s + k) 16 m)" by (rule less.IH) (simp_all add: k less.prems)
    also have "\<dots> = moved d s len m" using moved_down [OF less.prems, of k 16 m] by (simp add: k)
    finally show ?thesis .
  next
    case False
    then show ?thesis using less.prems by (subst down_unrolled.simps) (simp add: copy_down_moved)
  qed
qed

lemma move_unrolled_moved: "move_unrolled d s len m = moved d s len m"
  by (simp add: move_unrolled_def up_unrolled_moved down_unrolled_moved)
subsection \<open>Words\<close>

abbreviation (input) word_of :: "u8 \<Rightarrow> u8 \<Rightarrow> u8 \<Rightarrow> u8 \<Rightarrow> u32" where
  "word_of b0 b1 b2 b3 \<equiv> ucast b0 OR push_bit 8 (ucast b1) OR push_bit 16 (ucast b2) OR push_bit 24 (ucast b3)"

lemma word_of_bytes:
  "ucast (word_of b0 b1 b2 b3) = b0" "ucast (drop_bit 8 (word_of b0 b1 b2 b3)) = b1"
  "ucast (drop_bit 16 (word_of b0 b1 b2 b3)) = b2" "ucast (drop_bit 24 (word_of b0 b1 b2 b3)) = b3"
  by (rule bit_word_eqI; auto simp: bit_simps dest: bit_imp_le_length)+

lemma four_bytes:
  "m(a := x, a + 1 := y, a + 2 := z, a + 3 := w) =
     (\<lambda>b. if b = a then x else if b = a + 1 then y else if b = a + 2 then z else if b = a + 3 then w else m b)" for a :: nat
  by (auto simp: fun_eq_iff)

lemma in_word: "d \<le> a \<and> a < d + 4 \<longleftrightarrow> a = d \<or> a = d + 1 \<or> a = d + 2 \<or> a = d + 3" for a :: nat
  by auto

lemma put_word_bytes:
  "dp mod 4 = 0 \<Longrightarrow> put_word dp (word_of b0 b1 b2 b3) m = Some (m(dp := b0, dp + 1 := b1, dp + 2 := b2, dp + 3 := b3))"
  unfolding put_word_def word_of_bytes by simp

lemma put_word_filled:
  "dp mod 4 = 0 \<Longrightarrow> put_word dp (word_of v v v v) m = Some (filled dp 4 v m)"
  unfolding put_word_bytes by (auto simp: filled_def fun_eq_iff in_word)

lemma copy_word_moved:
  assumes "dp mod 4 = 0" "sp mod 4 = 0"
  shows "copy_word dp sp m = Some (moved dp sp 4 m)"
proof -
  have "copy_word dp sp m = put_word dp (word_of (m sp) (m (sp + 1)) (m (sp + 2)) (m (sp + 3))) m"
    using assms(2) by (simp only: copy_word_def get_word_def if_True option.case simp_thms)
  also have "\<dots> = Some (moved dp sp 4 m)"
    unfolding put_word_bytes [OF assms(1)] by (auto simp: moved_def fun_eq_iff in_word)
  finally show ?thesis .
qed

lemma put_words_filled:
  "dp mod 4 = 0 \<Longrightarrow> put_words n dp (word_of v v v v) m = Some (filled dp (4 * n) v m)"
proof (induction n arbitrary: dp m)
  case (Suc n)
  have "(dp + 4) mod 4 = 0" using Suc.prems by simp
  from Suc.IH [OF this] show ?case
    using put_word_filled [OF Suc.prems] filled_filled [of dp 4 "4 * n" v m] by simp
qed simp

lemma put_words_unrolled_filled:
  assumes "dp mod 4 = 0"
  shows "put_words_unrolled n dp (word_of v v v v) m = Some (filled dp (4 * n) v m)"
  using assms
proof (induction n arbitrary: dp m rule: less_induct)
  case (less n)
  show ?case
  proof (cases "n > 15")
    case True
    then obtain k where k: "n = k + 16" using that [of "n - 16"] by simp
    have "(dp + 64) mod 4 = 0" using less.prems by presburger
    then have "put_words_unrolled k (dp + 64) (word_of v v v v) (filled dp 64 v m) =
        Some (filled (dp + 64) (4 * k) v (filled dp 64 v m))" by (intro less.IH) (simp_all add: k)
    then show ?thesis
      using filled_filled [of dp 64 "4 * k" v m]
      by (subst put_words_unrolled.simps, subst put_words_filled [OF less.prems]) (simp add: k add.commute)
  next
    case False
    then show ?thesis using put_words_filled [OF less.prems] by (subst put_words_unrolled.simps) simp
  qed
qed

lemma set_align_filled:
  "set_align dp n v m = (dp', n', m') \<Longrightarrow>
     \<exists>k \<le> n. dp' = dp + k \<and> n' = n - k \<and> m' = filled dp k v m \<and> (n' = 0 \<or> dp' mod 4 = 0)"
proof (induction dp n v m rule: set_align.induct)
  case (2 dp count v m)
  show ?case
  proof (cases "dp mod 4 = 0")
    case True
    then show ?thesis using 2 by (auto intro!: exI [of _ 0])
  next
    case False
    then have "set_align (dp + 1) count v (m(dp := v)) = (dp', n', m')" using 2(2) by (simp add: fun_upd_def)
    from 2(1) [OF False this] obtain k where "k \<le> count" "dp' = dp + 1 + k" "n' = count - k" "m' = filled (dp + 1) k v (m(dp := v))"
      "n' = 0 \<or> dp' mod 4 = 0" by (elim exE conjE) (rule that)
    moreover have "m(dp := v) = filled dp 1 v m" by (auto simp: filled_def)
    ultimately show ?thesis using filled_filled [of dp 1 k v m] by (intro exI [of _ "Suc k"]) simp
  qed
qed simp

lemma mem_prim_set_filled: "mem_prim_set dest len v m = Some (filled dest len v m)"
proof -
  obtain dp count m1 where a: "set_align dest len v m = (dp, count, m1)" by (metis prod_cases3)
  obtain k where k: "k \<le> len" "dp = dest + k" "count = len - k" "m1 = filled dest k v m" "count = 0 \<or> dp mod 4 = 0"
    using set_align_filled [OF a] by (elim exE conjE) (rule that)
  have w: "put_words_unrolled (count div 4) dp (word_of v v v v) m1 = Some (filled dp (4 * (count div 4)) v m1)"
  proof (cases "count = 0")
    case True
    then show ?thesis by (simp add: put_words_unrolled.simps)
  next
    case False
    then have "dp mod 4 = 0" using k(5) by simp
    then show ?thesis by (rule put_words_unrolled_filled)
  qed
  have "mem_prim_set dest len v m = Some (set_up (count mod 4) (dp + 4 * (count div 4)) v (filled dp (4 * (count div 4)) v m1))"
    using a w by (simp add: mem_prim_set_def Let_def)
  also have "\<dots> = Some (filled dp count v m1)" unfolding set_up_filled filled_filled by simp
  also have "\<dots> = Some (filled dest len v m)" using k(1) by (simp add: k filled_filled)
  finally show ?thesis .
qed
lemma words_up_moved:
  "d \<le> s \<Longrightarrow> d mod 4 = 0 \<Longrightarrow> s mod 4 = 0 \<Longrightarrow> words_up n d s m = Some (moved d s (4 * n) m)"
proof (induction n arbitrary: d s m)
  case (Suc n)
  have "words_up n (d + 4) (s + 4) (moved d s 4 m) = Some (moved (d + 4) (s + 4) (4 * n) (moved d s 4 m))"
    using Suc.prems by (intro Suc.IH) simp_all
  then show ?case using copy_word_moved [OF Suc.prems(2,3)] moved_up [OF Suc.prems(1), of 4 "4 * n" m] by simp
qed simp

lemma words_down_moved:
  "s \<le> d \<Longrightarrow> d mod 4 = 0 \<Longrightarrow> s mod 4 = 0 \<Longrightarrow> words_down n (d + 4 * n) (s + 4 * n) m = Some (moved d s (4 * n) m)"
proof (induction n arbitrary: m)
  case (Suc n)
  have e: "d + 4 * Suc n - 4 = d + 4 * n" "s + 4 * Suc n - 4 = s + 4 * n" by simp_all
  have al: "(d + 4 * n) mod 4 = 0" "(s + 4 * n) mod 4 = 0" using Suc.prems(2,3) by simp_all
  have "words_down (Suc n) (d + 4 * Suc n) (s + 4 * Suc n) m =
      words_down n (d + 4 * n) (s + 4 * n) (moved (d + 4 * n) (s + 4 * n) 4 m)"
    unfolding words_down.simps e copy_word_moved [OF al] option.case ..
  also have "\<dots> = Some (moved d s (4 * n) (moved (d + 4 * n) (s + 4 * n) 4 m))" by (rule Suc.IH [OF Suc.prems])
  also have "\<dots> = Some (moved d s (4 * Suc n) m)" using moved_down [OF Suc.prems(1), of "4 * n" 4 m] by (simp add: add.commute)
  finally show ?case .
qed simp

text \<open>A lead of \<open>k\<close> elements, then words as far as they are aligned, then the rest.\<close>

lemma up_in_words:
  assumes "d \<le> s" "k \<le> len" "len - k < 4 \<or> (d + k) mod 4 = 0 \<and> (s + k) mod 4 = 0"
  shows "(case words_up ((len - k) div 4) (d + k) (s + k) (copy_up k d s m) of None \<Rightarrow> None
     | Some m \<Rightarrow> Some (copy_up ((len - k) mod 4) (d + k + 4 * ((len - k) div 4)) (s + k + 4 * ((len - k) div 4)) m)) =
     Some (moved d s len m)"
proof -
  let ?w = "(len - k) div 4" let ?m = "copy_up k d s m"
  have le: "d + k \<le> s + k" "d + k + 4 * ?w \<le> s + k + 4 * ?w" using assms(1) by simp_all
  have w: "words_up ?w (d + k) (s + k) ?m = Some (moved (d + k) (s + k) (4 * ?w) ?m)"
    using assms(3) words_up_moved [OF le(1)] by (cases "len - k < 4") auto
  have "moved (d + k + 4 * ?w) (s + k + 4 * ?w) ((len - k) mod 4) (moved (d + k) (s + k) (4 * ?w) ?m) =
      moved (d + k) (s + k) (len - k) ?m"
    using moved_up [OF le(1), of "4 * ?w" "(len - k) mod 4" ?m] by simp
  also have "\<dots> = moved d s len m" using moved_up [OF assms(1), of k "len - k" m] assms(2) by (simp add: copy_up_moved [OF assms(1)])
  finally show ?thesis by (simp add: w copy_up_moved [OF le(2)])
qed

lemma down_in_words:
  assumes "s \<le> d" "k \<le> len" "len - k < 4 \<or> (d + (len - k)) mod 4 = 0 \<and> (s + (len - k)) mod 4 = 0"
  shows "(case words_down ((len - k) div 4) (d + (len - k)) (s + (len - k)) (copy_down k (d + len) (s + len) m) of None \<Rightarrow> None
     | Some m \<Rightarrow> Some (copy_down ((len - k) mod 4) (d + (len - k) - 4 * ((len - k) div 4)) (s + (len - k) - 4 * ((len - k) div 4)) m)) =
     Some (moved d s len m)"
proof -
  let ?j = "len - k" let ?w = "?j div 4" let ?r = "?j mod 4"
  have j: "?j = ?r + 4 * ?w" by simp
  have sub: "d + ?j - 4 * ?w = d + ?r" "s + ?j - 4 * ?w = s + ?r" "d + ?j = d + ?r + 4 * ?w" "s + ?j = s + ?r + 4 * ?w"
    using j by linarith+
  have lead: "copy_down k (d + len) (s + len) m = moved (d + ?j) (s + ?j) k m"
    using copy_down_moved [of "s + ?j" "d + ?j" k m] assms(1,2) by simp
  let ?m = "moved (d + ?j) (s + ?j) k m"
  have "words_down ?w (d + ?r + 4 * ?w) (s + ?r + 4 * ?w) ?m = Some (moved (d + ?r) (s + ?r) (4 * ?w) ?m)"
  proof (cases "?j < 4")
    case False
    then have "(d + ?r) mod 4 = 0" "(s + ?r) mod 4 = 0" using assms(3) by (simp_all add: mod_simps)
    then show ?thesis using words_down_moved [of "s + ?r" "d + ?r" ?w ?m] assms(1) by simp
  qed simp
  then have w: "words_down ?w (d + ?j) (s + ?j) ?m = Some (moved (d + ?r) (s + ?r) (4 * ?w) ?m)" unfolding sub(3,4) .
  have "copy_down ?r (d + ?r) (s + ?r) (moved (d + ?r) (s + ?r) (4 * ?w) ?m) = moved d s (?r + 4 * ?w) ?m"
    unfolding copy_down_moved [OF assms(1)] by (rule moved_down [OF assms(1)])
  also have "\<dots> = moved d s (?j + k) m" unfolding j [symmetric] by (rule moved_down [OF assms(1)])
  also have "?j + k = len" using assms(2) by simp
  finally have "copy_down ?r (d + ?j - 4 * ?w) (s + ?j - 4 * ?w) (moved (d + ?r) (s + ?r) (4 * ?w) ?m) = moved d s len m"
    unfolding sub(1,2) .
  then show ?thesis unfolding lead w option.case by simp
qed

text \<open>
  With a length that is not zero, moving memory by words is moving it all at once, whichever way the two areas
  overlap, and no word is accessed at an address that is not aligned.
\<close>

lemma mem_prim_move_up:
  assumes "dest < src" "0 < len"
  shows "mem_prim_move dest src len m = Some (moved dest src len m)"
proof -
  define k where "k = (if src mod 4 \<noteq> 0 \<or> dest mod 4 \<noteq> 0 then
      (if src mod 4 \<noteq> dest mod 4 \<or> len < 4 then len else 4 - src mod 4) else 0)"
  have k: "k \<le> len" "len - k < 4 \<or> (dest + k) mod 4 = 0 \<and> (src + k) mod 4 = 0"
  proof -
    have "4 - src mod 4 \<le> 4" by simp
    then show "k \<le> len" by (auto simp: k_def)
    have "(x + (4 - x mod 4)) mod 4 = 0" for x :: nat by presburger
    from this [of dest] this [of src] show "len - k < 4 \<or> (dest + k) mod 4 = 0 \<and> (src + k) mod 4 = 0" by (auto simp: k_def)
  qed
  have "(if src mod 4 \<noteq> 0 \<or> dest mod 4 \<noteq> 0 then
        let tsp = (if src mod 4 \<noteq> dest mod 4 \<or> len < 4 then len else 4 - src mod 4); n = do_times tsp
        in (dest + n, src + n, len - tsp, copy_up n dest src m)
      else (dest, src, len, m)) = (dest + k, src + k, len - k, copy_up k dest src m)"
    using assms(2) by (auto simp: k_def do_times_def Let_def)
  then have "mem_prim_move dest src len m =
      (case words_up ((len - k) div 4) (dest + k) (src + k) (copy_up k dest src m) of None \<Rightarrow> None
        | Some m \<Rightarrow> Some (copy_up ((len - k) mod 4) (dest + k + 4 * ((len - k) div 4)) (src + k + 4 * ((len - k) div 4)) m))"
    using assms(1) unfolding mem_prim_move_def by (simp only: if_True prod.case Let_def)
  also have "\<dots> = Some (moved dest src len m)" using assms(1) k by (intro up_in_words) simp_all
  finally show ?thesis .
qed

lemma mem_prim_move_down:
  assumes "src \<le> dest" "0 < len"
  shows "mem_prim_move dest src len m = Some (moved dest src len m)"
proof -
  let ?sp = "src + len" let ?dp = "dest + len"
  define k where "k = (if ?sp mod 4 \<noteq> 0 \<or> ?dp mod 4 \<noteq> 0 then
      (if ?sp mod 4 \<noteq> ?dp mod 4 \<or> len \<le> 4 then len else ?sp mod 4) else 0)"
  have k: "k \<le> len" "len - k < 4 \<or> (?dp - k) mod 4 = 0 \<and> (?sp - k) mod 4 = 0"
  proof -
    have "?sp mod 4 < 4" by simp
    then show "k \<le> len" by (auto simp: k_def)
    have "(x - x mod 4) mod 4 = 0" for x :: nat by presburger
    note aligned = this [of ?dp] this [of ?sp]
    show "len - k < 4 \<or> (?dp - k) mod 4 = 0 \<and> (?sp - k) mod 4 = 0"
    proof (cases "?sp mod 4 \<noteq> ?dp mod 4 \<or> len \<le> 4")
      case True
      then show ?thesis by (auto simp: k_def)
    next
      case False
      then have "k = ?sp mod 4" "k = ?dp mod 4" by (auto simp: k_def)
      then show ?thesis using aligned by metis
    qed
  qed
  have e: "?dp - k = dest + (len - k)" "?sp - k = src + (len - k)" using k(1) by simp_all
  have "(if ?sp mod 4 \<noteq> 0 \<or> ?dp mod 4 \<noteq> 0 then
        let tsp = (if ?sp mod 4 \<noteq> ?dp mod 4 \<or> len \<le> 4 then len else ?sp mod 4); n = do_times tsp
        in (?dp - n, ?sp - n, len - tsp, copy_down n ?dp ?sp m)
      else (?dp, ?sp, len, m)) = (?dp - k, ?sp - k, len - k, copy_down k ?dp ?sp m)"
    using assms(2) by (auto simp: k_def do_times_def Let_def)
  moreover have "(dest < src) = False" using assms(1) by simp
  ultimately have "mem_prim_move dest src len m =
      (case words_down ((len - k) div 4) (?dp - k) (?sp - k) (copy_down k ?dp ?sp m) of None \<Rightarrow> None
        | Some m \<Rightarrow> Some (copy_down ((len - k) mod 4) (?dp - k - 4 * ((len - k) div 4)) (?sp - k - 4 * ((len - k) div 4)) m))"
    unfolding mem_prim_move_def by (simp only: if_False prod.case Let_def)
  also have "\<dots> = Some (moved dest src len m)"
    unfolding e using assms(1) k unfolding e by (intro down_in_words) simp_all
  finally show ?thesis .
qed

lemma mem_prim_move_moved: "0 < len \<Longrightarrow> mem_prim_move dest src len m = Some (moved dest src len m)"
  using mem_prim_move_up mem_prim_move_down by (cases "dest < src") auto
section \<open>The checked functions\<close>

datatype errno_t = EOK | ESNULLP | ESZEROL | ESLEMAX | ESOVRLP | ESNOSPC | ESUNTERM | EOVERFLOW

text \<open>
  What the compiler knows of the sizes of the objects, \<open>destbos\<close> and \<open>srcbos\<close>, is \<^const>\<open>None\<close> when it does not
  know them. The check of \<open>dmax\<close> is the same for all functions.
\<close>

definition check_dmax :: "nat option \<Rightarrow> nat \<Rightarrow> errno_t" where
  "check_dmax destbos dmax = (case destbos of
       None \<Rightarrow> if dmax > RSIZE_MAX_MEM then ESLEMAX else EOK
     | Some bos \<Rightarrow> if dmax > bos then if dmax > RSIZE_MAX_MEM then ESLEMAX else EOVERFLOW else EOK)"

definition handle_mem_error :: "nat \<Rightarrow> nat \<Rightarrow> u8 mem \<Rightarrow> u8 mem" where
  "handle_mem_error dest dmax m = set_up dmax dest 0 m"

definition overlap_but_same :: "nat \<Rightarrow> nat \<Rightarrow> nat \<Rightarrow> nat \<Rightarrow> bool" where
  "overlap_but_same dp dlen sp slen \<longleftrightarrow> (dp > sp \<and> dp < sp + slen) \<or> (dp < sp \<and> sp < dp + dlen)"

definition memcpy_s_chk :: "nat \<Rightarrow> nat \<Rightarrow> nat \<Rightarrow> nat \<Rightarrow> nat option \<Rightarrow> nat option \<Rightarrow> u8 mem \<Rightarrow> (errno_t \<times> u8 mem) option" where
  "memcpy_s_chk dest dmax src slen destbos srcbos m =
     (if slen = 0 then Some (EOK, m)
      else if dest = 0 then Some (ESNULLP, m)
      else if dmax = 0 then Some (ESZEROL, m)
      else if check_dmax destbos dmax \<noteq> EOK then Some (check_dmax destbos dmax, m)
      else if src = 0 then Some (ESNULLP, handle_mem_error dest dmax m)
      else if slen > dmax then Some (if slen > RSIZE_MAX_MEM then ESLEMAX else ESNOSPC, handle_mem_error dest dmax m)
      else if (case srcbos of None \<Rightarrow> False | Some bos \<Rightarrow> slen > bos) then Some (EOVERFLOW, m)
      else if overlap_but_same dest dmax src slen then map_option (Pair ESOVRLP) (mem_prim_set dest dmax 0 m)
      else map_option (Pair EOK) (mem_prim_move dest src slen m))"

definition memset_s_chk :: "nat \<Rightarrow> nat \<Rightarrow> int \<Rightarrow> nat \<Rightarrow> nat option \<Rightarrow> u8 mem \<Rightarrow> (errno_t \<times> u8 mem) option" where
  "memset_s_chk dest dmax value n destbos m =
     (if dest = 0 then Some (ESNULLP, m)
      else if n = 0 then Some (EOK, m)
      else if check_dmax destbos dmax \<noteq> EOK then Some (check_dmax destbos dmax, m)
      else let dmax = (case destbos of None \<Rightarrow> dmax | Some bos \<Rightarrow> bos)
           in if value > 255 then Some (ESLEMAX, m)
              else let (err, n) = (if n > dmax then (if n > RSIZE_MAX_MEM then ESLEMAX else ESNOSPC, dmax) else (EOK, n))
                   in map_option (Pair err) (mem_prim_set dest n (of_int value) m))"

fun mem_diff :: "nat \<Rightarrow> nat \<Rightarrow> nat \<Rightarrow> nat \<Rightarrow> u8 mem \<Rightarrow> int" where
  "mem_diff 0 slen dp sp m = 0"
| "mem_diff (Suc dmax) slen dp sp m =
     (if slen = 0 then 0
      else if m dp \<noteq> m sp then if m dp < m sp then -1 else 1
      else mem_diff dmax (slen - 1) (dp + 1) (sp + 1) m)"

text \<open>The status and the difference, which is -1 when the arguments are not accepted.\<close>

definition memcmp_s_chk :: "nat \<Rightarrow> nat \<Rightarrow> nat \<Rightarrow> nat \<Rightarrow> nat option \<Rightarrow> nat option \<Rightarrow> u8 mem \<Rightarrow> errno_t \<times> int" where
  "memcmp_s_chk dest dmax src slen destbos srcbos m =
     (if dest = 0 \<or> src = 0 then (ESNULLP, -1)
      else if dmax = 0 then (ESZEROL, -1)
      else if check_dmax destbos dmax \<noteq> EOK then (check_dmax destbos dmax, -1)
      else if slen = 0 then (ESZEROL, -1)
      else if check_dmax srcbos slen \<noteq> EOK then (check_dmax srcbos slen, -1)
      else if slen > dmax then (ESNOSPC, -1)
      else if dest = src then (EOK, 0)
      else (EOK, mem_diff dmax slen dest src m))"

text \<open>
  Strings are read from a list of bytes; running off its end is \<^const>\<open>None\<close>. The size of the source
  is counted down from what the compiler knows of it.
\<close>

abbreviation (input) "RSIZE_MAX_STRING \<equiv> 4096 :: nat"

fun count_string :: "u8 list \<Rightarrow> nat \<Rightarrow> nat option" where
  "count_string [] smax = None"
| "count_string (b # bs) smax = (if b = 0 \<or> smax = 0 then Some 0 else map_option Suc (count_string bs (smax - 1)))"

definition strnlen_s_chk :: "u8 list \<Rightarrow> nat \<Rightarrow> nat option" where
  "strnlen_s_chk str smax = (if smax = 0 \<or> smax > RSIZE_MAX_STRING then Some 0 else count_string str smax)"

fun compare_strings :: "u8 list \<Rightarrow> nat \<Rightarrow> u8 list \<Rightarrow> nat option \<Rightarrow> (errno_t \<times> int) option" where
  "compare_strings (d # ds) dmax (s # ss) srcleft =
     (if d \<noteq> 0 \<and> s \<noteq> 0 \<and> dmax \<noteq> 0 \<and> d = s
      then if (case srcleft of None \<Rightarrow> False | Some n \<Rightarrow> n \<le> 1) then Some (ESUNTERM, 0)
           else compare_strings ds (dmax - 1) ss (map_option (\<lambda>n. n - 1) srcleft)
      else Some (EOK, uint d - uint s))"
| "compare_strings _ _ _ _ = None"

definition strcmp_s_chk :: "u8 list \<Rightarrow> nat \<Rightarrow> u8 list \<Rightarrow> nat option \<Rightarrow> nat option \<Rightarrow> (errno_t \<times> int) option" where
  "strcmp_s_chk dest dmax src destbos srcbos =
     (if dmax = 0 then Some (ESZEROL, 0)
      else case destbos of
             None \<Rightarrow> if dmax > RSIZE_MAX_STRING then Some (ESLEMAX, 0) else compare_strings dest dmax src srcbos
           | Some bos \<Rightarrow> if dmax > bos then Some (if dmax > RSIZE_MAX_STRING then ESLEMAX else EOVERFLOW, 0)
               else compare_strings dest dmax src srcbos)"

subsection \<open>What a copy writes\<close>

lemma memcpy_s_chk_cases:
  "\<exists>e m'. memcpy_s_chk dest dmax src slen destbos srcbos m = Some (e, m') \<and>
     (e = EOK \<longleftrightarrow> slen = 0 \<or> dest \<noteq> 0 \<and> src \<noteq> 0 \<and> slen \<le> dmax \<and> (case destbos of None \<Rightarrow> dmax \<le> 268435456 | Some b \<Rightarrow> dmax \<le> b) \<and>
        (case srcbos of None \<Rightarrow> True | Some b \<Rightarrow> slen \<le> b) \<and> (dest = src \<or> src + slen \<le> dest \<or> dest + dmax \<le> src)) \<and>
     m' = (if e = EOK then (\<lambda>a. if dest \<le> a \<and> a < dest + slen then m (src + (a - dest)) else m a)
           else if (e = ESNULLP \<and> dest \<noteq> 0) \<or> e = ESOVRLP \<or> (slen > dmax \<and> dmax \<noteq> 0 \<and> dest \<noteq> 0 \<and> check_dmax destbos dmax = EOK)
           then (\<lambda>a. if dest \<le> a \<and> a < dest + dmax then 0 else m a)
           else m)"
proof -
  have f: "(\<lambda>a. if dest \<le> a \<and> a < dest + dmax then 0 else m a) = filled dest dmax 0 m" by (simp add: filled_def)
  have mv: "(\<lambda>a. if dest \<le> a \<and> a < dest + slen then m (src + (a - dest)) else m a) = moved dest src slen m" by (simp add: moved_def)
  show ?thesis
    unfolding f mv
    by (cases "slen = 0") (auto simp: memcpy_s_chk_def handle_mem_error_def set_up_filled mem_prim_set_filled mem_prim_move_moved
        check_dmax_def overlap_but_same_def not_less split: option.splits)
qed

text \<open>
  C10. The checked copy is safe and complete. It never accesses a word that is not aligned; it succeeds exactly when
  nothing is to be copied or the pointers are not null, the length fits the destination and the source, and
  the areas are apart or the same; then the source has been copied as a whole, although the copy goes by
  words and from either end. In every other case the destination is unchanged or cleared, and in no case is a
  byte written outside the destination.
\<close>

theorem memcpy_s_chk_contract:
  "\<exists>e m'. memcpy_s_chk dest dmax src slen destbos srcbos m = Some (e, m') \<and>
     (e = EOK \<longleftrightarrow> slen = 0 \<or> dest \<noteq> 0 \<and> src \<noteq> 0 \<and> slen \<le> dmax \<and> (case destbos of None \<Rightarrow> dmax \<le> 268435456 | Some b \<Rightarrow> dmax \<le> b) \<and>
        (case srcbos of None \<Rightarrow> True | Some b \<Rightarrow> slen \<le> b) \<and> (dest = src \<or> src + slen \<le> dest \<or> dest + dmax \<le> src)) \<and>
     m' = (if e = EOK then (\<lambda>a. if dest \<le> a \<and> a < dest + slen then m (src + (a - dest)) else m a)
           else if (e = ESNULLP \<and> dest \<noteq> 0) \<or> e = ESOVRLP \<or> (slen > dmax \<and> dmax \<noteq> 0 \<and> dest \<noteq> 0 \<and> check_dmax destbos dmax = EOK)
           then (\<lambda>a. if dest \<le> a \<and> a < dest + dmax then 0 else m a)
           else m)"
  by (rule memcpy_s_chk_cases)

text \<open>
  C11. On areas that are apart the checked copy is the copy between two buffers that the model of the server
  uses: the same outcome, and the same bytes in the destination and behind it.
\<close>

theorem memcpy_s_refines:
  assumes "memcpy_s_chk dest dmax src slen None None m = Some (e, m')"
    and "dest \<noteq> 0" "dmax \<le> n" "src + slen \<le> dest \<or> dest + dmax \<le> src"
  shows "memcpy_s (map m [dest ..< dest + n]) dmax (if src = 0 then None else Some (map m [src ..< src + slen])) slen =
    (e = EOK, map m' [dest ..< dest + n])"
proof -
  let ?b = "map m [dest ..< dest + n]"
  have cleared: "map (\<lambda>a. if dest \<le> a \<and> a < dest + dmax then 0 else m a) [dest ..< dest + n] =
      replicate dmax 0 @ drop dmax ?b"
    using assms(3) by (intro nth_equalityI) (auto simp: nth_append)
  have copied: "map (\<lambda>a. if dest \<le> a \<and> a < dest + slen then m (src + (a - dest)) else m a) [dest ..< dest + n] =
      take slen (map m [src ..< src + slen]) @ drop slen ?b" if "slen \<le> dmax"
    using assms(3) that by (intro nth_equalityI) (auto simp: nth_append)
  from memcpy_s_chk_cases [of dest dmax src slen None None m] assms(1)
  have r: "(e = EOK) = (slen = 0 \<or> dest \<noteq> 0 \<and> src \<noteq> 0 \<and> slen \<le> dmax \<and> dmax \<le> 268435456 \<and>
        (dest = src \<or> src + slen \<le> dest \<or> dest + dmax \<le> src))"
    "m' = (if e = EOK then (\<lambda>a. if dest \<le> a \<and> a < dest + slen then m (src + (a - dest)) else m a)
           else if (e = ESNULLP \<and> dest \<noteq> 0) \<or> e = ESOVRLP \<or> (slen > dmax \<and> dmax \<noteq> 0 \<and> dest \<noteq> 0 \<and> check_dmax None dmax = EOK)
           then (\<lambda>a. if dest \<le> a \<and> a < dest + dmax then 0 else m a)
           else m)" by auto
  have e: "e = (if slen = 0 then EOK else if dmax = 0 then ESZEROL else if dmax > 268435456 then ESLEMAX else if src = 0 then ESNULLP
      else if slen > dmax then if slen > 268435456 then ESLEMAX else ESNOSPC else EOK)"
    using assms by (auto simp: memcpy_s_chk_def check_dmax_def overlap_but_same_def split: if_splits)
  show ?thesis
  proof (cases "e = EOK")
    case True
    then have m: "m' = (\<lambda>a. if dest \<le> a \<and> a < dest + slen then m (src + (a - dest)) else m a)" using r(2) by simp
    show ?thesis
    proof (cases "slen = 0")
      case True
      then show ?thesis using e by (simp add: memcpy_s_def m)
    next
      case False
      then have "src \<noteq> 0" "slen \<le> dmax" "dmax \<le> 268435456" using True r(1) by auto
      then show ?thesis using False True copied by (simp add: memcpy_s_def m)
    qed
  next
    case False
    then have "slen \<noteq> 0" using r(1) by auto
    then show ?thesis
      using False e cleared r(2) assms(2) by (auto simp: memcpy_s_def check_dmax_def split: if_splits)
  qed
qed

theorem memcpy_s_refines_witness:
  "memcpy_s [0, 0, 0, 9] 3 (Some [1, 2]) 2 = (True, [1, 2, 0, 9])"
proof -
  let ?m = "(\<lambda>_. 0)(4 := 9, 10 := 1, 11 := 2) :: u8 mem"
  obtain e m' where c: "memcpy_s_chk 1 3 10 2 None None ?m = Some (e, m')"
    and r: "e = EOK" "m' = (\<lambda>a. if 1 \<le> a \<and> a < 1 + 2 then ?m (10 + (a - 1)) else ?m a)"
    using memcpy_s_chk_cases [of 1 3 10 2 None None ?m] by auto
  have l: "[1 ..< 1 + 4] = [1, 2, 3, 4 :: nat]" "[10 ..< 10 + 2] = [10, 11 :: nat]" by (simp_all add: upt_rec)
  show ?thesis using memcpy_s_refines [OF c, of 4] unfolding l by (simp add: r)
qed

end
