(* ===== verification/Logging.thy ===== *)
theory Logging
  imports Safec Vprobe
begin

text \<open>
  The log of the server, \<^verbatim>\<open>logging.c\<close>: which messages are written, how the names of levels and streams are
  read, and how the bits of a scan are written in hexadecimal.
\<close>

section \<open>Strings\<close>

text \<open>A C string as it lies in memory.\<close>

definition c_string :: "string \<Rightarrow> u8 list" where
  "c_string s = bytes_of s @ [0]"

text \<open>All pieces between the separators, also the empty ones.\<close>

fun strsep :: "char \<Rightarrow> string \<Rightarrow> string list" where
  "strsep sep [] = [[]]"
| "strsep sep (c # cs) = (if c = sep then [] # strsep sep cs
     else case strsep sep cs of [] \<Rightarrow> [[c]] | p # ps \<Rightarrow> (c # p) # ps)"

definition COMMA :: char where
  "COMMA = char_of (44 :: nat)"

section \<open>Levels and streams\<close>

definition tolower :: "u8 \<Rightarrow> u8" where
  "tolower b = (if 65 \<le> b \<and> b \<le> 90 then b + 32 else b)"

text \<open>The first ten characters in lower case, in a buffer of zeros; there is no terminating zero after ten.\<close>

definition lower_ten :: "string \<Rightarrow> u8 list" where
  "lower_ten s = (case strnlen_s_chk (c_string s) 10 of
       None \<Rightarrow> []
     | Some n \<Rightarrow> map tolower (take n (c_string s)) @ replicate (10 - n) 0)"

definition same_name :: "u8 list \<Rightarrow> string \<Rightarrow> bool" where
  "same_name temp name \<longleftrightarrow>
     map_option snd (strcmp_s_chk temp 10 (c_string name) (Some 10) (Some (length name + 1))) = Some 0"

definition strtolevel :: "string \<Rightarrow> nat option" where
  "strtolevel input =
     (let temp = lower_ten input
      in if same_name temp ''off'' then Some 5
         else if same_name temp ''trace'' then Some 0
         else if same_name temp ''debug'' then Some 1
         else if same_name temp ''info'' then Some 2
         else if same_name temp ''warning'' then Some 3
         else if same_name temp ''error'' then Some 4
         else None)"

definition stream_token :: "string \<Rightarrow> bool \<times> u32 \<Rightarrow> bool \<times> u32" where
  "stream_token token = (\<lambda>(_, out).
     let temp = lower_ten token
     in if same_name temp ''none'' then (True, out OR 0)
        else if same_name temp ''network'' then (True, out OR 1)
        else if same_name temp ''jtag'' then (True, out OR 2)
        else if same_name temp ''pins'' then (True, out OR 4)
        else if same_name temp ''i2c'' then (True, out OR 8)
        else if same_name temp ''test'' then (True, out OR 16)
        else if same_name temp ''daemon'' then (True, out OR 32)
        else if same_name temp ''sdk'' then (True, out OR 64)
        else if same_name temp ''all'' then (True, out OR 0xFFFF)
        else (False, out))"

definition strtostreams :: "string \<Rightarrow> bool \<times> u32" where
  "strtostreams input = fold stream_token (strsep COMMA input) (False, 0)"

section \<open>The streams that are chosen\<close>

definition lower :: "string \<Rightarrow> u8 list" where
  "lower s = map tolower (bytes_of s)"

definition stream_value :: "u8 list \<Rightarrow> u32 option" where
  "stream_value = map_of [(bytes_of ''none'', 0), (bytes_of ''network'', 1), (bytes_of ''jtag'', 2), (bytes_of ''pins'', 4),
     (bytes_of ''i2c'', 8), (bytes_of ''test'', 16), (bytes_of ''daemon'', 32), (bytes_of ''sdk'', 64), (bytes_of ''all'', 0xFFFF)]"

lemma count_string_min: "0 \<notin> set bs \<Longrightarrow> count_string (bs @ [0]) n = Some (min (length bs) n)"
proof (induction bs arbitrary: n)
  case (Cons b bs)
  then show ?case by (cases n) auto
qed simp

lemma compare_strings_eq:
  assumes "0 \<notin> set ts" "0 \<notin> set ns" "length ns < dmax" "length ns < length ts \<or> (\<exists>zs. rest = 0 # zs)" "length ns < left"
  shows "map_option snd (compare_strings (ts @ rest) dmax (ns @ [0]) (Some left)) = Some 0 \<longleftrightarrow> ts = ns"
  using assms
proof (induction ns arbitrary: ts dmax left)
  case Nil
  then show ?case by (cases ts) (auto simp: uint_0_iff)
next
  case (Cons n ns)
  have n: "n \<noteq> 0" using Cons.prems(2) by auto
  show ?case
  proof (cases ts)
    case Nil
    then obtain zs where "rest = 0 # zs" using Cons.prems(4) by auto
    then show ?thesis using Nil n by (auto simp: uint_0_iff)
  next
    case t: (Cons t ts')
    show ?thesis
    proof (cases "t = n")
      case True
      have "map_option snd (compare_strings (ts' @ rest) (dmax - 1) (ns @ [0]) (Some (left - 1))) = Some 0 \<longleftrightarrow> ts' = ns"
        using Cons.prems t by (intro Cons.IH) auto
      then show ?thesis using True t n Cons.prems(3,5) by simp
    next
      case False
      then show ?thesis using t by (auto simp: word_uint_eq_iff)
    qed
  qed
qed

lemma tolower_zero: "tolower b = 0 \<longleftrightarrow> b = 0"
proof
  assume a: "tolower b = 0"
  show "b = 0"
  proof (cases "65 \<le> b \<and> b \<le> 90")
    case True
    then have "uint (b + 32) = uint b + 32" by (simp add: word_le_def uint_word_ariths)
    moreover have "uint (b + 32) = 0" using a True by (simp add: tolower_def)
    ultimately show ?thesis using uint_nonnegative [of b] by linarith
  qed (use a in \<open>auto simp: tolower_def\<close>)
qed (simp add: tolower_def)

lemma bytes_of_zero: "0 \<in> set (bytes_of s) \<longleftrightarrow> CHR 0x00 \<in> set s"
proof -
  have z: "(of_char c :: u8) = 0 \<longleftrightarrow> c = CHR 0x00" for c
  proof -
    have "(of_char c :: u8) = of_nat (of_char c)" by (simp only: of_nat_of_char)
    moreover have "(of_nat n :: u8) = 0 \<longleftrightarrow> n = 0" if "n < 256" for n
      using that by (auto simp: word_of_nat_eq_0_iff dest: dvd_imp_le)
    ultimately have "(of_char c :: u8) = 0 \<longleftrightarrow> (of_char c :: nat) = 0" by simp
    also have "\<dots> \<longleftrightarrow> (of_char c :: nat) = of_char (CHR 0x00)" by simp
    finally show ?thesis by (simp only: of_char_eq_iff)
  qed
  show ?thesis unfolding bytes_of_def set_map image_iff using z by metis
qed

lemma same_name_iff:
  assumes "CHR 0x00 \<notin> set s" "CHR 0x00 \<notin> set name" "length name < 10"
  shows "same_name (lower_ten s) name \<longleftrightarrow> lower s = bytes_of name"
proof -
  let ?bs = "bytes_of s"
  have z: "0 \<notin> set ?bs" "0 \<notin> set (bytes_of name)" using assms(1,2) bytes_of_zero by blast+
  let ?ts = "map tolower (take 10 ?bs)" let ?rest = "replicate (10 - min (length ?bs) 10) 0 :: u8 list"
  have lt: "lower_ten s = ?ts @ ?rest" using count_string_min [OF z(1), of 10]
    by (cases "length ?bs \<le> 10") (auto simp: lower_ten_def strnlen_s_chk_def c_string_def min_def)
  have ln: "length (bytes_of name) = length name" by (simp add: bytes_of_def)
  have "0 \<notin> set ?ts" using z(1) by (auto simp: tolower_zero dest: in_set_takeD)
  moreover have "length (bytes_of name) < length ?ts \<or> (\<exists>zs. ?rest = 0 # zs)"
  proof (cases "length ?bs < 10")
    case True
    then obtain k where "10 - min (length ?bs) 10 = Suc k" using that [of "9 - length ?bs"] by simp
    then have "?rest = 0 # replicate k 0" by (simp only: replicate_Suc)
    then show ?thesis by blast
  qed (use assms(3) ln in simp)
  ultimately have "same_name (lower_ten s) name \<longleftrightarrow> ?ts = bytes_of name"
    using z(2) assms(3) ln compare_strings_eq [of ?ts "bytes_of name" 10 ?rest "length name + 1"]
    by (simp add: same_name_def lt c_string_def strcmp_s_chk_def)
  also have "\<dots> \<longleftrightarrow> lower s = bytes_of name"
  proof (cases "length ?bs \<le> 10")
    case False
    then have "length ?ts = 10" "length (lower s) > 10" by (simp_all add: lower_def)
    then show ?thesis using assms(3) ln by (metis less_irrefl less_trans)
  qed (simp add: lower_def)
  finally show ?thesis .
qed

lemma stream_token_value:
  assumes "CHR 0x00 \<notin> set t"
  shows "stream_token t (r, out) =
    (stream_value (lower t) \<noteq> None, case stream_value (lower t) of None \<Rightarrow> out | Some v \<Rightarrow> out OR v)"
proof -
  note n = same_name_iff [OF assms]
  have names: "same_name (lower_ten t) ''none'' \<longleftrightarrow> lower t = bytes_of ''none''"
    "same_name (lower_ten t) ''network'' \<longleftrightarrow> lower t = bytes_of ''network''"
    "same_name (lower_ten t) ''jtag'' \<longleftrightarrow> lower t = bytes_of ''jtag''"
    "same_name (lower_ten t) ''pins'' \<longleftrightarrow> lower t = bytes_of ''pins''"
    "same_name (lower_ten t) ''i2c'' \<longleftrightarrow> lower t = bytes_of ''i2c''"
    "same_name (lower_ten t) ''test'' \<longleftrightarrow> lower t = bytes_of ''test''"
    "same_name (lower_ten t) ''daemon'' \<longleftrightarrow> lower t = bytes_of ''daemon''"
    "same_name (lower_ten t) ''sdk'' \<longleftrightarrow> lower t = bytes_of ''sdk''"
    "same_name (lower_ten t) ''all'' \<longleftrightarrow> lower t = bytes_of ''all''"
    by (rule n; simp)+
  show ?thesis unfolding stream_token_def prod.case Let_def names stream_value_def by (simp add: bytes_of_def)
qed

lemma strsep_set: "p \<in> set (strsep sep s) \<Longrightarrow> set p \<subseteq> set s"
proof (induction sep s arbitrary: p rule: strsep.induct)
  case (2 sep c cs)
  show ?case
  proof (cases "c = sep")
    case False
    then show ?thesis using 2(3) 2(2) [OF False] by (cases "strsep sep cs") (auto, blast)
  qed (use 2 in auto)
qed simp

lemma strsep_not_empty [simp]: "strsep sep s \<noteq> []"
  by (cases s) (auto split: list.splits)

lemma stream_tokens:
  assumes "\<forall>t \<in> set ts. CHR 0x00 \<notin> set t"
  shows "fold stream_token ts (r, out) =
    (if ts = [] then r else stream_value (lower (last ts)) \<noteq> None,
     fold (\<lambda>t out. case stream_value (lower t) of None \<Rightarrow> out | Some v \<Rightarrow> out OR v) ts out)"
  using assms by (induction ts arbitrary: r out) (auto simp: stream_token_value)

text \<open>
  A list of streams selects every stream named in it, in upper or lower case: the mask is the union of the
  streams of its known pieces. It is accepted exactly when its last piece is known; a name that is not
  known is ignored anywhere else.
\<close>

theorem streams_selected:
  assumes "CHR 0x00 \<notin> set input"
  shows "strtostreams input =
    (stream_value (lower (last (strsep COMMA input))) \<noteq> None,
     fold (\<lambda>t out. case stream_value (lower t) of None \<Rightarrow> out | Some v \<Rightarrow> out OR v) (strsep COMMA input) 0)"
proof -
  have "\<forall>t \<in> set (strsep COMMA input). CHR 0x00 \<notin> set t" using assms strsep_set by blast
  then show ?thesis unfolding strtostreams_def by (simp add: stream_tokens)
qed

theorem streams_selected_witness:
  "strtostreams ''nonsense,JTAG,i2c'' = (True, 10) \<and> stream_value (lower ''nonsense'') = None"
proof -
  have 0: "CHR 0x00 \<notin> set ''nonsense,JTAG,i2c''" by simp
  have s: "strsep COMMA ''nonsense,JTAG,i2c'' = [''nonsense'', ''JTAG'', ''i2c'']" by code_simp
  have v: "stream_value (lower ''nonsense'') = None" "stream_value (lower ''JTAG'') = Some 2" "stream_value (lower ''i2c'') = Some 8"
    by code_simp+
  show ?thesis unfolding streams_selected [OF 0] s by (simp add: v)
qed
section \<open>Which messages are written\<close>

text \<open>The static variables; the two callbacks are set when the remote client can receive messages.\<close>

record log_settings =
  WriteToSyslog :: bool
  shouldLogCallback :: "(nat \<Rightarrow> u32 \<Rightarrow> bool) option"
  loggingCallback :: bool
  asd_log_level :: nat
  asd_log_streams :: u32

definition ASD_initialize_log_settings :: "nat \<Rightarrow> u32 \<Rightarrow> bool \<Rightarrow> (nat \<Rightarrow> u32 \<Rightarrow> bool) option \<Rightarrow> bool \<Rightarrow> log_settings" where
  "ASD_initialize_log_settings level stream write_to_syslog should_log_ptr log_ptr =
     \<lparr>WriteToSyslog = write_to_syslog, shouldLogCallback = should_log_ptr, loggingCallback = log_ptr,
      asd_log_level = level, asd_log_streams = stream\<rparr>"

definition ShouldLog :: "log_settings \<Rightarrow> nat \<Rightarrow> u32 \<Rightarrow> bool" where
  "ShouldLog g level stream \<longleftrightarrow> level \<ge> asd_log_level g \<and> asd_log_streams g AND stream \<noteq> 0"

text \<open>Whether a message goes to the local log and whether it goes to the client.\<close>

definition log_targets :: "log_settings \<Rightarrow> nat \<Rightarrow> u32 \<Rightarrow> u8 \<Rightarrow> bool \<times> bool" where
  "log_targets g level stream opts =
     (ShouldLog g level stream,
      opts AND 1 \<noteq> 1 \<and> loggingCallback g \<and>
        (case shouldLogCallback g of None \<Rightarrow> False | Some f \<Rightarrow> f level stream))"

section \<open>Bits in hexadecimal\<close>

definition itoh :: "u8 \<Rightarrow> u8" where
  "itoh d = (if d < 10 then 48 + d else 87 + d)"

text \<open>
  The digits of a byte are put before those of the bytes before it. The index of the next digit is negative when
  there is no room for it; \<^const>\<open>None\<close> is an access outside of a buffer.
\<close>

definition put_digit :: "int \<Rightarrow> u8 \<Rightarrow> u8 list \<Rightarrow> u8 list option" where
  "put_digit i d result = (if 0 \<le> i \<and> i < int (length result) then Some (result[nat i := d]) else None)"

definition hex_byte :: "u8 \<Rightarrow> int \<times> u8 list \<Rightarrow> (int \<times> u8 list) option" where
  "hex_byte b = (\<lambda>(i, result).
     case put_digit i (itoh (b AND 0xF)) result of
       None \<Rightarrow> None
     | Some result \<Rightarrow>
         if i - 1 \<ge> 0 then map_option (Pair (i - 2)) (put_digit (i - 1) (itoh (drop_bit 4 b)) result)
         else Some (i - 1, result))"

fun hex_bytes :: "u8 list \<Rightarrow> int \<times> u8 list \<Rightarrow> (int \<times> u8 list) option" where
  "hex_bytes [] x = Some x"
| "hex_bytes (b # bs) x = (case hex_byte b x of None \<Rightarrow> None | Some x \<Rightarrow> hex_bytes bs x)"

definition buffer_to_hex :: "nat \<Rightarrow> nat \<Rightarrow> u8 list \<Rightarrow> u8 list \<Rightarrow> u8 list option" where
  "buffer_to_hex number_of_bits number_of_bytes buf result =
     (let last_bit_mask = drop_bit (8 - number_of_bits mod 8) 0xFF :: u8; i = int (number_of_bytes * 2) - 1
      in if last_bit_mask \<noteq> 0 \<and> length buf \<le> number_of_bytes then None
         else let i = (if last_bit_mask \<noteq> 0 \<and> drop_bit 4 (buf ! number_of_bytes AND last_bit_mask) = 0 then i - 1 else i);
                  bs = take number_of_bytes buf;
                  bs = (if number_of_bits mod 8 \<noteq> 0 then bs[number_of_bytes - 1 := bs ! (number_of_bytes - 1) AND last_bit_mask] else bs)
              in map_option snd (hex_bytes bs (i, result)))"

text \<open>What a scan is logged as; \<^const>\<open>None\<close> inside when there is nothing to log.\<close>

definition ASD_log_shift :: "u32 \<Rightarrow> nat \<Rightarrow> u8 list \<Rightarrow> u8 list option option" where
  "ASD_log_shift number_of_bits size_bytes buf =
     (if size_bytes = 0 \<or> number_of_bits = 0 then Some None
      else let n = unat ((number_of_bits + 7) div 8);
               (n, bits) = (if n > size_bytes then (size_bytes, size_bytes * 8) else (n, unat number_of_bits))
           in map_option Some (buffer_to_hex bits n buf (replicate (size_bytes * 2 + 1) 0)))"

lemma put_digit_Some: "0 \<le> i \<Longrightarrow> i < int (length r) \<Longrightarrow> put_digit i d r = Some (r[nat i := d])"
  by (simp add: put_digit_def)

lemma hex_bytes_fit:
  assumes "int (2 * length bs) \<le> i + 2" "i < int (length r)" "bs \<noteq> [] \<Longrightarrow> 0 \<le> i"
  shows "\<exists>x. hex_bytes bs (i, r) = Some x"
  using assms
proof (induction bs arbitrary: i r)
  case (Cons b bs)
  have i: "0 \<le> i" using Cons.prems(3) by simp
  show ?case
  proof (cases "i \<ge> 1")
    case True
    then have "hex_byte b (i, r) = Some (i - 2, (r[nat i := itoh (b AND 0xF)])[nat (i - 1) := itoh (drop_bit 4 b)])"
      using Cons.prems(2) i by (simp add: hex_byte_def put_digit_Some)
    moreover have "\<exists>x. hex_bytes bs (i - 2, (r[nat i := itoh (b AND 0xF)])[nat (i - 1) := itoh (drop_bit 4 b)]) = Some x"
      using Cons.prems(1,2) by (intro Cons.IH) (auto simp: neq_Nil_conv)
    ultimately show ?thesis by simp
  next
    case False
    then have "i = 0" "bs = []" using i Cons.prems(1) by (cases bs; simp)+
    then show ?thesis using Cons.prems(2) by (simp add: hex_byte_def put_digit_Some)
  qed
qed simp

text \<open>
  Logging a scan never writes outside the text, but it reads one byte behind the bytes of the scan
  when the last one is not full: in a buffer that ends with the scan this is a read behind the buffer,
  and it happens for no other scan.
\<close>

theorem logging_reads_behind:
  assumes "length buf = size_bytes" "number_of_bits \<le> 4294967288"
  shows "ASD_log_shift number_of_bits size_bytes buf = None \<longleftrightarrow>
    unat number_of_bits mod 8 \<noteq> 0 \<and> (unat number_of_bits + 7) div 8 = size_bytes"
proof -
  define bits where "bits = unat number_of_bits"
  have n: "unat ((number_of_bits + 7) div 8) = (bits + 7) div 8"
    using assms(2) by (simp add: bits_def unat_div unat_plus_simple word_le_nat_alt unat_word_ariths)
  have z: "number_of_bits = 0 \<longleftrightarrow> bits = 0" by (simp add: bits_def unat_eq_zero)
  have mask: "drop_bit (8 - k mod 8) (0xFF :: u8) \<noteq> 0 \<longleftrightarrow> k mod 8 \<noteq> 0" for k :: nat
  proof -
    have "k mod 8 < 8" by simp
    then have "k mod 8 \<in> {0, 1, 2, 3, 4, 5, 6, 7}" by auto
    then show ?thesis by (auto simp: drop_bit_eq_div)
  qed
  have fit: "buffer_to_hex k m buf (replicate (size_bytes * 2 + 1) 0) \<noteq> None \<longleftrightarrow> k mod 8 = 0 \<or> m < size_bytes"
    if "0 < m" "m \<le> size_bytes" for k m
  proof -
    let ?mask = "drop_bit (8 - k mod 8) 0xFF :: u8" let ?r = "replicate (size_bytes * 2 + 1) 0 :: u8 list"
    define i where "i = int (m * 2) - 1"
    define j where "j = (if ?mask \<noteq> 0 \<and> drop_bit 4 (buf ! m AND ?mask) = 0 then i - 1 else i)"
    define bs where "bs = (if k mod 8 \<noteq> 0 then (take m buf)[m - 1 := take m buf ! (m - 1) AND ?mask] else take m buf)"
    have "length bs = m" using assms(1) that by (simp add: bs_def)
    moreover have "j = i \<or> j = i - 1" by (simp add: j_def)
    ultimately have "\<exists>x. hex_bytes bs (j, ?r) = Some x"
      using that by (intro hex_bytes_fit) (auto simp: i_def Suc_le_eq)
    moreover have "buffer_to_hex k m buf ?r =
        (if ?mask \<noteq> 0 \<and> length buf \<le> m then None else map_option snd (hex_bytes bs (j, ?r)))"
      unfolding buffer_to_hex_def Let_def bs_def j_def i_def ..
    ultimately show ?thesis using assms(1) that mask [of k] by auto
  qed
  show ?thesis
  proof (cases "bits = 0 \<or> size_bytes = 0")
    case True
    then show ?thesis using z by (auto simp: ASD_log_shift_def bits_def [symmetric] div_eq_0_iff mod_less)
  next
    case False
    then show ?thesis
      using fit [of "(bits + 7) div 8" bits] fit [of size_bytes "size_bytes * 8"] z
      by (auto simp: ASD_log_shift_def n bits_def [symmetric] Let_def not_less split: if_splits)
  qed
qed

theorem logging_reads_behind_witness:
  "ASD_log_shift 12 2 [1, 2] = None \<and> unat (12 :: u32) mod 8 \<noteq> 0"
proof -
  have "length [1, 2 :: u8] = 2" "(12 :: u32) \<le> 4294967288" by simp_all
  from logging_reads_behind [OF this] show ?thesis by simp
qed
section \<open>The dump of a buffer\<close>

text \<open>The formats \<^verbatim>\<open>%-6.6s\<close> and \<^verbatim>\<open>%07x\<close>: six characters, and at least \<open>k\<close> digits.\<close>

definition six_chars :: "u8 list \<Rightarrow> u8 list" where
  "six_chars s = take 6 (s @ replicate 6 32)"

function hex_number :: "nat \<Rightarrow> nat \<Rightarrow> u8 list" where
  "hex_number k n = (if n < 16 \<and> k \<le> 1 then [itoh (of_nat n)] else hex_number (k - 1) (n div 16) @ [itoh (of_nat (n mod 16))])"
  by pat_completeness auto
termination
proof (relation "measure (\<lambda>(k, n). n + k)")
  fix k n :: nat
  assume "\<not> (n < 16 \<and> k \<le> 1)"
  then show "((k - 1, n div 16), k, n) \<in> measure (\<lambda>(k, n). n + k)"
    by (cases "n < 16") (auto simp: add_less_le_mono)
qed simp

text \<open>The bytes of a line, with a space after every second one; they start at column 17.\<close>

fun dump_bytes :: "nat \<Rightarrow> u8 list \<Rightarrow> u8 list" where
  "dump_bytes l [] = []"
| "dump_bytes l (b # bs) = [itoh (drop_bit 4 b), itoh (b AND 0xF)] @ (if l mod 2 = 1 then [32] else []) @ dump_bytes (l + 1) bs"

definition dump_line :: "u8 list \<Rightarrow> nat \<Rightarrow> u8 list \<Rightarrow> u8 list" where
  "dump_line prefix i bs = take 17 (six_chars prefix @ [58, 32] @ hex_number 7 i @ [58, 32]) @ dump_bytes 0 bs"

function dump_lines :: "u8 list \<Rightarrow> nat \<Rightarrow> u8 list \<Rightarrow> u8 list list" where
  "dump_lines prefix i bs = (if bs = [] then [] else dump_line prefix i (take 16 bs) # dump_lines prefix (i + 16) (drop 16 bs))"
  by pat_completeness auto
termination by (relation "measure (\<lambda>(_, _, bs). length bs)") auto

text \<open>What goes to the local log, where each line ends, and what goes to the client.\<close>

definition ASD_log_buffer :: "log_settings \<Rightarrow> nat \<Rightarrow> u32 \<Rightarrow> u8 \<Rightarrow> u8 list \<Rightarrow> u8 list \<Rightarrow> u8 list list \<times> u8 list list" where
  "ASD_log_buffer g level stream opts bs prefix =
     (let (local_log, remote_log) = log_targets g level stream opts; ls = dump_lines prefix 0 bs
      in (if local_log then map (\<lambda>l. l @ [10]) ls else [], if remote_log then ls else []))"

declare dump_lines.simps [simp del] hex_number.simps [simp del]

lemma dump_bytes_length: "length (dump_bytes l bs) = 2 * length bs + (length bs + l mod 2) div 2"
proof (induction l bs rule: dump_bytes.induct)
  case (2 l b bs)
  then show ?case by (cases "l mod 2 = 1") (auto simp: mod_Suc)
qed simp

text \<open>Every line and the new line after it fit into the 256 bytes of the buffer.\<close>

lemma dump_lines_fit: "list_all (\<lambda>l. length l + 1 < 256) (dump_lines prefix i bs)"
proof (induction prefix i bs rule: dump_lines.induct)
  case (1 prefix i bs)
  have "length (dump_line prefix i (take 16 bs)) + 1 < 256"
    by (simp add: dump_line_def dump_bytes_length)
  then show ?case using 1 by (subst dump_lines.simps) simp
qed

lemma dump_lines_count: "length (dump_lines prefix i bs) = (length bs + 15) div 16"
proof (induction prefix i bs rule: dump_lines.induct)
  case (1 prefix i bs)
  show ?case
  proof (cases "bs = []")
    case False
    then have "length (dump_lines prefix i bs) = Suc ((length bs - 16 + 15) div 16)"
      using 1 by (subst dump_lines.simps) simp
    also have "\<dots> = (length bs + 15) div 16"
    proof (cases "16 \<le> length bs")
      case True
      then show ?thesis using div_add_self2 [of 16 "length bs - 16 + 15"] by simp
    next
      case less: False
      then have "1 \<le> length bs" "length bs \<le> 15" using False by (cases bs; simp)+
      then show ?thesis by (simp add: div_nat_eqI)
    qed
    finally show ?thesis .
  qed (simp add: dump_lines.simps)
qed


end
