(* ===== verification/Command_Line.thy ===== *)
theory Command_Line
  imports Asd_Main Logging
begin

text \<open>
  The command line of the server, \<^verbatim>\<open>process_command_line\<close> of \<^verbatim>\<open>asd_main.c\<close>. The options come from \<^verbatim>\<open>getopt_long\<close>, one after the other with their arguments.
\<close>

section \<open>Strings\<close>

text \<open>The pieces that are not empty.\<close>

definition strtok :: "char \<Rightarrow> string \<Rightarrow> string list" where
  "strtok sep s = filter (\<lambda>p. p \<noteq> []) (strsep sep s)"

definition is_space :: "char \<Rightarrow> bool" where
  "is_space c \<longleftrightarrow> (of_char c :: nat) = 32 \<or> (9 \<le> (of_char c :: nat) \<and> (of_char c :: nat) \<le> 13)"

definition digit_of :: "char \<Rightarrow> nat option" where
  "digit_of c = (if 48 \<le> (of_char c :: nat) \<and> (of_char c :: nat) \<le> 57 then Some (of_char c - 48) else None)"

fun digits :: "nat \<Rightarrow> string \<Rightarrow> nat" where
  "digits acc [] = acc"
| "digits acc (c # cs) = (case digit_of c of None \<Rightarrow> acc | Some d \<Rightarrow> digits (10 * acc + d) cs)"

text \<open>
  \<^verbatim>\<open>strtol\<close> for base ten, with a \<^verbatim>\<open>long\<close> of 32 bits: the value, whether it was out of range, and whether
  there was a number at all.
\<close>

definition strtol :: "string \<Rightarrow> int \<times> bool \<times> bool" where
  "strtol s =
     (let s = dropWhile is_space s;
          (neg, s) = (case s of c # cs \<Rightarrow> if of_char c = (45 :: nat) then (True, cs)
              else if of_char c = (43 :: nat) then (False, cs) else (False, s) | [] \<Rightarrow> (False, s));
          n = int (digits 0 s); v = (if neg then - n else n)
      in case s of
           [] \<Rightarrow> (0, False, False)
         | c # _ \<Rightarrow> if digit_of c = None then (0, False, False)
                   else if v > 2147483647 then (2147483647, True, True)
                   else if v < -2147483648 then (-2147483648, True, True)
                   else (v, False, True))"

section \<open>Options\<close>

datatype cmd_option = Opt_p string | Opt_s | Opt_u | Opt_k string | Opt_n string | Opt_i string | Opt_c string
  | Arg_xdp | Opt_v | Arg_log_level string | Arg_log_streams string | Arg_help | Opt_unknown

definition default_args :: asd_args where
  "default_args = \<lparr>session_opts = \<lparr>n_port_number = 5125, cp_certkeyfile = Some ''/conf/asd_ssl.pem'', cp_net_bind_device = None,
       e_extnet_type = EXTNET_HDLR_TLS, e_auth_type = AUTH_HDLR_PAM\<rparr>,
     busopt = \<lparr>opt_enable_i2c = False, opt_enable_i3c = False, opt_bus_config_map = replicate MAX_IxC_BUSES 0,
       opt_bus_config_type = replicate MAX_IxC_BUSES BUS_CONFIG_NOT_ALLOWED, opt_bus = 4\<rparr>,
     use_syslog = False, log_level = 3, log_streams = 0xFFFF, arg_xdp_fail_enable = True\<rparr>"

text \<open>
  The loop over the buses of a list. The counter of buses goes through all lists and has eight bits; the list
  ends at the first piece that is not a number.
\<close>

fun bus_list :: "bus_config_type \<Rightarrow> string list \<Rightarrow> bool \<Rightarrow> u8 \<times> bus_options \<Rightarrow> u8 \<times> bus_options" where
  "bus_list kind [] first x = x"
| "bus_list kind (pch # ps) first (counter, b) =
     (let (v, erange, number) = strtol pch; bus = word_of_int v
      in if erange \<or> \<not> number then (counter, b)
         else if unat counter \<ge> MAX_IxC_BUSES then bus_list kind ps first (counter + 1, b)
         else bus_list kind ps False (counter + 1,
           (if first then b\<lparr>opt_bus := bus\<rparr> else b)
             \<lparr>opt_bus_config_type := (opt_bus_config_type b)[unat counter := kind],
              opt_bus_config_map := (opt_bus_config_map b)[unat counter := bus]\<rparr>))"

text \<open>One option: \<^const>\<open>None\<close> when the program exits, else whether to go on.\<close>

definition process_option :: "cmd_option \<Rightarrow> u8 \<times> asd_args \<Rightarrow> (bool \<times> u8 \<times> asd_args) option" where
  "process_option opt = (\<lambda>(counter, a).
     let so = session_opts a; bo = busopt a
     in case opt of
          Opt_p s \<Rightarrow> Some (True, counter, a\<lparr>session_opts := so\<lparr>n_port_number := word_of_int (fst (strtol s))\<rparr>\<rparr>)
        | Opt_s \<Rightarrow> Some (True, counter, a\<lparr>use_syslog := True\<rparr>)
        | Opt_u \<Rightarrow> Some (True, counter,
            a\<lparr>session_opts := so\<lparr>e_extnet_type := EXTNET_HDLR_NON_ENCRYPT, e_auth_type := AUTH_HDLR_NONE\<rparr>\<rparr>)
        | Opt_k s \<Rightarrow> Some (True, counter, a\<lparr>session_opts := so\<lparr>cp_certkeyfile := Some s\<rparr>\<rparr>)
        | Opt_n s \<Rightarrow> Some (True, counter, a\<lparr>session_opts := so\<lparr>cp_net_bind_device := Some s\<rparr>\<rparr>)
        | Opt_i s \<Rightarrow> let (counter, bo) = bus_list BUS_CONFIG_I2C (strtok COMMA s) True (counter, bo\<lparr>opt_enable_i2c := True\<rparr>)
            in Some (True, counter, a\<lparr>busopt := bo\<rparr>)
        | Opt_c s \<Rightarrow> let (counter, bo) = bus_list BUS_CONFIG_I3C (strtok COMMA s) True (counter, bo\<lparr>opt_enable_i3c := True\<rparr>)
            in Some (True, counter, a\<lparr>busopt := bo\<rparr>)
        | Arg_xdp \<Rightarrow> Some (True, counter, a\<lparr>arg_xdp_fail_enable := False\<rparr>)
        | Opt_v \<Rightarrow> None
        | Arg_log_level s \<Rightarrow> (case strtolevel s of
              None \<Rightarrow> Some (False, counter, a) | Some l \<Rightarrow> Some (True, counter, a\<lparr>log_level := l\<rparr>))
        | Arg_log_streams s \<Rightarrow> let (ok, out) = strtostreams s in Some (ok, counter, a\<lparr>log_streams := out\<rparr>)
        | _ \<Rightarrow> Some (False, counter, a))"

fun process_options :: "cmd_option list \<Rightarrow> u8 \<times> asd_args \<Rightarrow> (bool \<times> asd_args) option" where
  "process_options [] x = Some (True, snd x)"
| "process_options (opt # opts) x = (case process_option opt x of
       None \<Rightarrow> None
     | Some (ok, x) \<Rightarrow> if ok then process_options opts x else Some (False, snd x))"

definition process_command_line :: "cmd_option list \<Rightarrow> (bool \<times> asd_args) option" where
  "process_command_line opts = process_options opts (0, default_args)"

section \<open>The program\<close>

text \<open>
  The loop goes on until a turn fails; a loop that runs forever is \<^const>\<open>None\<close>, and inside of it \<^const>\<open>None\<close> is a
  fault. Then the state is taken down, and the exit code is 0 only for success.
\<close>

partial_function (option) processing_loop :: "('d, 't, 'o, 'w) server_env \<Rightarrow> poll_array \<times> ('d, 't, 'o, 'w) asd_state
    \<Rightarrow> (status \<times> poll_array \<times> ('d, 't, 'o, 'w) asd_state) option option" where
  "processing_loop env x = (case request_processing_turn env x of
       None \<Rightarrow> Some None
     | Some (r, x) \<Rightarrow> if r = ST_OK then processing_loop env x else Some (Some (r, x)))"

definition request_processing_loop :: "('d, 't, 'o, 'w) server_env \<Rightarrow> ('d, 't, 'o, 'w) asd_state
    \<Rightarrow> (status \<times> poll_array \<times> ('d, 't, 'o, 'w) asd_state) option option" where
  "request_processing_loop env st = processing_loop env (poll_fds_init (host_fd st), st)"

text \<open>The exit code and the descriptors that are left; \<open>-v\<close> exits at once with success.\<close>

definition asd_main :: "('d, 't, 'o, 'w) server_env \<Rightarrow> ('d, 't, 'o) init_answers \<Rightarrow> cmd_option list \<Rightarrow> config \<Rightarrow> fds \<Rightarrow> 'w
    \<Rightarrow> (int \<times> fds) option option" where
  "asd_main env ans opts cfg f w =
     (case process_command_line opts of
        None \<Rightarrow> Some (Some (0, f))
      | Some (ok, a) \<Rightarrow>
          if \<not> ok then Some (Some (1, f))
          else let (r, f, st) = init_asd_state ans a cfg f w
               in case st of
                    None \<Rightarrow> Some (Some (if r = ST_OK then 0 else 1, f))
                  | Some st \<Rightarrow>
                      if r \<noteq> ST_OK then Some (Some (1, fds (deinit_asd_state env st)))
                      else case request_processing_loop env st of
                             None \<Rightarrow> None
                           | Some None \<Rightarrow> Some None
                           | Some (Some (r, _, st)) \<Rightarrow> Some (Some (if r = ST_OK then 0 else 1, fds (deinit_asd_state env st))))"

lemma loop_ends_with_error:
  assumes "processing_loop env x = Some (Some (r, y))"
  shows "r \<noteq> ST_OK"
proof -
  have "\<forall>r y. z = Some (r, y) \<longrightarrow> r \<noteq> ST_OK" if "processing_loop env x = Some z" for z
    by (rule processing_loop.raw_induct [where P = "\<lambda>_ _ z. \<forall>r y. z = Some (r, y) \<longrightarrow> r \<noteq> ST_OK" and xa = "(env, x)",
        unfolded prod.case, OF _ that])
      (auto split: option.splits if_splits prod.splits)
  with assms show ?thesis by blast
qed

text \<open>The server itself never ends with success: the exit code is 0 only when the version was asked for.\<close>

lemma server_never_succeeds:
  assumes "asd_main env ans opts cfg f w = Some (Some (code, f'))"
  shows "code = (if process_command_line opts = None then 0 else 1)"
proof -
  have i: "init_asd_state ans a cfg f w = (r, f1, None) \<Longrightarrow> r \<noteq> ST_OK" for a r f1
    by (auto simp: init_asd_state_def Let_def split: option.splits if_splits prod.splits)
  then show ?thesis
    using assms by (auto simp: asd_main_def request_processing_loop_def split: option.splits if_splits prod.splits
        dest: i loop_ends_with_error)
qed

section \<open>The buses that are chosen\<close>

definition bus_number :: "string \<Rightarrow> u8" where
  "bus_number p = word_of_int (fst (strtol p))"

definition bus_numbers :: "string \<Rightarrow> u8 list" where
  "bus_numbers s = map bus_number (takeWhile (\<lambda>p. snd (strtol p) = (False, True)) (strtok COMMA s))"

fun requested :: "cmd_option list \<Rightarrow> (bus_config_type \<times> u8) list" where
  "requested [] = []"
| "requested (Opt_i s # opts) = map (Pair BUS_CONFIG_I2C) (bus_numbers s) @ requested opts"
| "requested (Opt_c s # opts) = map (Pair BUS_CONFIG_I3C) (bus_numbers s) @ requested opts"
| "requested (_ # opts) = requested opts"

definition bus_table :: "(bus_config_type \<times> u8) list \<Rightarrow> bus_config_type list \<times> u8 list" where
  "bus_table req = (take 4 (map fst req @ replicate 4 BUS_CONFIG_NOT_ALLOWED), take 4 (map snd req @ replicate 4 0))"

definition table_of :: "bus_options \<Rightarrow> bus_config_type list \<times> u8 list" where
  "table_of b = (opt_bus_config_type b, opt_bus_config_map b)"

lemma take_pad_snoc:
  assumes "length xs < 4"
  shows "(take 4 (xs @ replicate 4 z))[length xs := x] = take 4 ((xs @ [x]) @ replicate 4 z)"
proof -
  obtain k where k: "4 = length xs + Suc k" using that [of "3 - length xs"] assms by simp
  show ?thesis by (simp add: k take_Cons' list_update_append del: replicate_Suc) (simp add: min_def)
qed

lemma take_pad_long: "4 \<le> length xs \<Longrightarrow> take 4 ((xs @ ys) @ replicate 4 z) = take 4 (xs @ replicate 4 z)"
  by simp

text \<open>One list: its numbers are appended to the request.\<close>

lemma bus_list_table:
  assumes "bus_list kind ps first (of_nat (length req), b) = (counter, b')" "table_of b = bus_table req"
    and "length req + length (takeWhile (\<lambda>p. snd (strtol p) = (False, True)) ps) < 256"
  shows "let ns = map bus_number (takeWhile (\<lambda>p. snd (strtol p) = (False, True)) ps)
    in counter = of_nat (length (req @ map (Pair kind) ns)) \<and> table_of b' = bus_table (req @ map (Pair kind) ns) \<and>
       opt_bus b' = (if first \<and> ns \<noteq> [] \<and> length req < 4 then hd ns else opt_bus b) \<and>
       opt_enable_i2c b' = opt_enable_i2c b \<and> opt_enable_i3c b' = opt_enable_i3c b"
  using assms
proof (induction ps arbitrary: first req b)
  case (Cons p ps)
  obtain v erange number where v: "strtol p = (v, erange, number)" by (metis prod_cases3)
  show ?case
  proof (cases "erange \<or> \<not> number")
    case True
    then show ?thesis using Cons.prems by (auto simp: v)
  next
    case False
    then have ok: "snd (strtol p) = (False, True)" "bus_number p = word_of_int v" by (simp_all add: v bus_number_def)
    let ?req = "req @ [(kind, bus_number p)]"
    have c: "of_nat (length req) + 1 = (of_nat (length ?req) :: u8)" by simp
    have u: "unat (of_nat (length req) :: u8) = length req" using Cons.prems(3) by (simp add: unat_of_nat)
    have len: "length ?req + length (takeWhile (\<lambda>p. snd (strtol p) = (False, True)) ps) < 256"
      using Cons.prems(3) ok(1) by simp
    show ?thesis
    proof (cases "4 \<le> length req")
      case True
      have "bus_list kind ps first (of_nat (length ?req), b) = (counter, b')"
        using Cons.prems(1) False True u c by (simp add: v)
      moreover have "table_of b = bus_table ?req" using Cons.prems(2) True by (simp add: bus_table_def)
      ultimately show ?thesis using Cons.IH [of first ?req b] len ok True by (simp add: Let_def)
    next
      case room: False
      define b1 where "b1 = (if first then b\<lparr>opt_bus := bus_number p\<rparr> else b)
          \<lparr>opt_bus_config_type := (opt_bus_config_type b)[length req := kind],
           opt_bus_config_map := (opt_bus_config_map b)[length req := bus_number p]\<rparr>"
      have "bus_list kind ps False (of_nat (length ?req), b1) = (counter, b')"
        using Cons.prems(1) False room u c ok(2) by (cases first) (simp_all add: v b1_def Let_def)
      moreover have "table_of b1 = bus_table ?req"
        using Cons.prems(2) room take_pad_snoc [of "map fst req" BUS_CONFIG_NOT_ALLOWED kind]
          take_pad_snoc [of "map snd req" 0 "bus_number p"]
        by (simp add: b1_def bus_table_def table_of_def)
      ultimately show ?thesis using Cons.IH [of False ?req b1] len ok room by (auto simp: Let_def b1_def)
    qed
  qed
qed simp
text \<open>All options: the table, the counter and the switches, from any state that fits the request so far.\<close>

lemma options_table:
  assumes "process_options opts (of_nat (length req), a) = Some (True, a')" "table_of (busopt a) = bus_table req"
    and "length req + length (requested opts) < 256"
  shows "table_of (busopt a') = bus_table (req @ requested opts) \<and>
    (opt_enable_i2c (busopt a') \<longleftrightarrow> opt_enable_i2c (busopt a) \<or> (\<exists>s. Opt_i s \<in> set opts)) \<and>
    (opt_enable_i3c (busopt a') \<longleftrightarrow> opt_enable_i3c (busopt a) \<or> (\<exists>s. Opt_c s \<in> set opts))"
  using assms
proof (induction opts arbitrary: req a)
  case (Cons opt opts)
  obtain counter a1 where p: "process_option opt (of_nat (length req), a) = Some (True, counter, a1)"
      "process_options opts (counter, a1) = Some (True, a')"
    using Cons.prems(1) by (auto split: option.splits if_splits)
  consider (i) s where "opt = Opt_i s" | (c) s where "opt = Opt_c s" | (other) "\<forall>s. opt \<noteq> Opt_i s \<and> opt \<noteq> Opt_c s" by blast
  then show ?case
  proof cases
    case i
    let ?b = "busopt a\<lparr>opt_enable_i2c := True\<rparr>" let ?new = "map (Pair BUS_CONFIG_I2C) (bus_numbers s)"
    obtain b where l: "bus_list BUS_CONFIG_I2C (strtok COMMA s) True (of_nat (length req), ?b) = (counter, b)" "a1 = a\<lparr>busopt := b\<rparr>"
      using p(1) by (auto simp: i process_option_def Let_def split: prod.splits)
    have "table_of ?b = bus_table req" using Cons.prems(2) by (simp add: table_of_def)
    from bus_list_table [OF l(1) this] Cons.prems(3)
    have k: "counter = of_nat (length (req @ ?new))" "table_of b = bus_table (req @ ?new)" "opt_enable_i2c b" "opt_enable_i3c b = opt_enable_i3c (busopt a)"
      by (simp_all add: i bus_numbers_def Let_def)
    show ?thesis using Cons.IH [of "req @ ?new" a1] p(2) k l(2) Cons.prems(3) by (auto simp: i)
  next
    case c
    let ?b = "busopt a\<lparr>opt_enable_i3c := True\<rparr>" let ?new = "map (Pair BUS_CONFIG_I3C) (bus_numbers s)"
    obtain b where l: "bus_list BUS_CONFIG_I3C (strtok COMMA s) True (of_nat (length req), ?b) = (counter, b)" "a1 = a\<lparr>busopt := b\<rparr>"
      using p(1) by (auto simp: c process_option_def Let_def split: prod.splits)
    have "table_of ?b = bus_table req" using Cons.prems(2) by (simp add: table_of_def)
    from bus_list_table [OF l(1) this] Cons.prems(3)
    have k: "counter = of_nat (length (req @ ?new))" "table_of b = bus_table (req @ ?new)" "opt_enable_i3c b" "opt_enable_i2c b = opt_enable_i2c (busopt a)"
      by (simp_all add: c bus_numbers_def Let_def)
    show ?thesis using Cons.IH [of "req @ ?new" a1] p(2) k l(2) Cons.prems(3) by (auto simp: c)
  next
    case other
    have same: "counter = of_nat (length req)" "busopt a1 = busopt a"
      using p(1) other by (auto simp: process_option_def Let_def split: cmd_option.splits option.splits prod.splits)
    have req: "requested (opt # opts) = requested opts" using other by (cases opt) auto
    show ?thesis using Cons.IH [of req a1] p(2) same Cons.prems(2,3) other unfolding req by auto
  qed
qed simp

text \<open>
  The table of buses holds the first four numbers of all lists on the command line, in their order and each
  with the kind of its list; the rest of the table is not allowed, and further numbers are discarded. A kind of
  bus is enabled exactly when it has a list. This holds for up to 255 numbers, as many as the counter
  can tell apart.
\<close>

theorem buses_in_order:
  assumes "process_command_line opts = Some (True, a)" "length (requested opts) < 256"
  shows "opt_bus_config_type (busopt a) = take 4 (map fst (requested opts) @ replicate 4 BUS_CONFIG_NOT_ALLOWED) \<and>
    opt_bus_config_map (busopt a) = take 4 (map snd (requested opts) @ replicate 4 0) \<and>
    (opt_enable_i2c (busopt a) \<longleftrightarrow> (\<exists>s. Opt_i s \<in> set opts)) \<and> (opt_enable_i3c (busopt a) \<longleftrightarrow> (\<exists>s. Opt_c s \<in> set opts))"
  using options_table [of opts "[]" default_args a] assms
  by (simp add: process_command_line_def default_args_def table_of_def bus_table_def)

theorem buses_in_order_witness:
  "\<exists>a. process_command_line [Opt_i ''2,9'', Opt_s, Opt_c ''0,x,1''] = Some (True, a) \<and>
     opt_bus_config_map (busopt a) = [2, 9, 0, 0] \<and>
     opt_bus_config_type (busopt a) = [BUS_CONFIG_I2C, BUS_CONFIG_I2C, BUS_CONFIG_I3C, BUS_CONFIG_NOT_ALLOWED]"
proof -
  let ?opts = "[Opt_i ''2,9'', Opt_s, Opt_c ''0,x,1'']"
  have "map_option fst (process_command_line ?opts) = Some True" by code_simp
  then obtain a where p: "process_command_line ?opts = Some (True, a)" by auto
  have r: "requested ?opts = [(BUS_CONFIG_I2C, 2), (BUS_CONFIG_I2C, 9), (BUS_CONFIG_I3C, 0)]" by code_simp
  have "length (requested ?opts) < 256" by (simp only: r) simp
  from buses_in_order [OF p this] p show ?thesis unfolding r by (simp add: numeral_eq_Suc)
qed

section \<open>Who needs a password\<close>

lemma option_auth:
  assumes "process_options opts (counter, a) = Some (True, a')" "Opt_u \<notin> set opts"
  shows "e_auth_type (session_opts a') = e_auth_type (session_opts a) \<and> e_extnet_type (session_opts a') = e_extnet_type (session_opts a)"
  using assms
proof (induction opts arbitrary: counter a)
  case (Cons opt opts)
  obtain k a1 where p: "process_option opt (counter, a) = Some (True, k, a1)" "process_options opts (k, a1) = Some (True, a')"
    using Cons.prems(1) by (auto split: option.splits if_splits)
  have "e_auth_type (session_opts a1) = e_auth_type (session_opts a) \<and> e_extnet_type (session_opts a1) = e_extnet_type (session_opts a)"
    using p(1) Cons.prems(2) by (auto simp: process_option_def Let_def split: cmd_option.splits option.splits prod.splits)
  then show ?case using Cons.IH [OF p(2)] Cons.prems(2) by simp
qed simp


text \<open>The default server and a client that sends \<^verbatim>\<open>0pw\<close> and a new line over TLS.\<close>

definition demo_tls :: "int net_os" where
  "demo_tls = demo_net\<lparr>sock_recv := (\<lambda>fd len w. (4, \<lparr>ssl_n = 4, ssl_closed_st = ST_OK, ssl_error_st = ST_OK, ssl_pending = 0\<rparr>,
       [0x30, 112, 119, 10], w)),
     sock_send := (\<lambda>fd bs w. (0, \<lparr>ssl_n = int (length bs), ssl_closed_st = ST_OK, ssl_error_st = ST_OK, ssl_pending = 0\<rparr>, w))\<rparr>"


end
