(* ===== verification/Jtag_Test.thy ===== *)
theory Jtag_Test
  imports Jtag_Handler Logging "HOL-Library.Sublist"
begin

text \<open>
  The test program \<^verbatim>\<open>jtag_test.c\<close>: it finds the devices of the scan chain by their identification codes and
  then reads the codes again and again. It is a second client of the JTAG handler. The lemmas show
  which instructions it shifts, how many devices it finds, and when the test passes and ends.
\<close>

section \<open>Arguments\<close>

record jtag_test_args =
  human_readable :: "64 word"
  ir_shift_size :: u32
  loop_forever :: bool
  numIterations :: int
  ir_value :: u32
  dr_shift_size :: u32
  manual_mode :: bool
  count_mode :: bool
  random_mode :: bool
  hw_test :: bool
  test_tck :: u32
  tap_data_pattern :: "u8 list"
  test_log_level :: nat
  test_log_streams :: u32

abbreviation (input) "MAX_TDO_SIZE \<equiv> 2048 :: nat"
abbreviation (input) "DISCOVERY_BITS \<equiv> 576 :: nat"

text \<open>The options with their arguments as \<^verbatim>\<open>strtol\<close> and \<^verbatim>\<open>strtoull\<close> read them; everything else shows the usage.\<close>

datatype test_option = Test_f | Test_c | Test_r | Test_i int | Test_h | Test_t int | Test_ir_size int | Test_dr_size int
  | Test_ir_value int | Test_dr_overshift "64 word" | Test_log_level string | Test_log_streams string | Test_help

definition pattern_bytes :: "64 word \<Rightarrow> u8 list" where
  "pattern_bytes w = map (\<lambda>i. ucast (drop_bit (8 * i) w)) [0 ..< 8]"

text \<open>The pattern is set only when all options are read.\<close>

definition default_test_args :: "u8 list \<Rightarrow> jtag_test_args" where
  "default_test_args garbage = \<lparr>human_readable = 0xdeadbeefbad4f00d, ir_shift_size = 11, loop_forever = False,
     numIterations = 1, ir_value = 2, dr_shift_size = 32, manual_mode = False, count_mode = False, random_mode = False,
     hw_test = False, test_tck = 1, tap_data_pattern = garbage, test_log_level = 2, test_log_streams = 16\<rparr>"

definition apply_test_option :: "test_option \<Rightarrow> jtag_test_args \<Rightarrow> bool \<times> jtag_test_args" where
  "apply_test_option opt a = (case opt of
       Test_f \<Rightarrow> (True, a\<lparr>loop_forever := True\<rparr>)
     | Test_c \<Rightarrow> (True, a\<lparr>count_mode := True\<rparr>)
     | Test_r \<Rightarrow> (True, a\<lparr>random_mode := True\<rparr>)
     | Test_i n \<Rightarrow> (n > 0, a\<lparr>numIterations := n\<rparr>)
     | Test_h \<Rightarrow> (True, a\<lparr>hw_test := True\<rparr>)
     | Test_t n \<Rightarrow> (True, a\<lparr>test_tck := word_of_int n\<rparr>)
     | Test_ir_size n \<Rightarrow> (word_of_int n \<le> (0x400 :: u32), a\<lparr>ir_shift_size := word_of_int n\<rparr>)
     | Test_dr_size n \<Rightarrow> (word_of_int n \<le> (0x20000 :: u32), a\<lparr>dr_shift_size := word_of_int n, manual_mode := True\<rparr>)
     | Test_ir_value n \<Rightarrow> (True, a\<lparr>ir_value := word_of_int n, manual_mode := True\<rparr>)
     | Test_dr_overshift w \<Rightarrow> (True, a\<lparr>human_readable := w\<rparr>)
     | Test_log_level s \<Rightarrow> (case strtolevel s of None \<Rightarrow> (False, a) | Some l \<Rightarrow> (True, a\<lparr>test_log_level := l\<rparr>))
     | Test_log_streams s \<Rightarrow> let (ok, out) = strtostreams s in (ok, a\<lparr>test_log_streams := out\<rparr>)
     | Test_help \<Rightarrow> (False, a))"

fun test_options :: "test_option list \<Rightarrow> jtag_test_args \<Rightarrow> bool \<times> jtag_test_args" where
  "test_options [] a = (True, a)"
| "test_options (opt # opts) a = (let (ok, a) = apply_test_option opt a in if ok then test_options opts a else (False, a))"

definition parse_arguments :: "test_option list \<Rightarrow> u8 list \<Rightarrow> bool \<times> jtag_test_args" where
  "parse_arguments opts garbage =
     (let (ok, a) = test_options opts (default_test_args garbage)
      in if \<not> ok then (False, a)
         else if unat (dr_shift_size a) > MAX_TDO_SIZE * 8 then (False, a)
         else let (ok, p) = memcpy_s (tap_data_pattern a) 8 (Some (pattern_bytes (human_readable a))) 8
              in (ok, a\<lparr>tap_data_pattern := p\<rparr>))"

section \<open>Buffers\<close>

text \<open>Two areas of memory for \<^const>\<open>memcmp_s_chk\<close>: the buffers lie apart.\<close>

definition areas :: "u8 list \<Rightarrow> u8 list \<Rightarrow> u8 mem" where
  "areas xs ys a = (if 4096 \<le> a \<and> a < 4096 + length xs then xs ! (a - 4096)
     else if 1048576 \<le> a \<and> a < 1048576 + length ys then ys ! (a - 1048576) else 0)"

definition memcmp_s :: "u8 list \<Rightarrow> nat \<Rightarrow> u8 list \<Rightarrow> nat \<Rightarrow> int" where
  "memcmp_s dest dmax src slen = snd (memcmp_s_chk 4096 dmax 1048576 slen None None (areas dest src))"

text \<open>The size of the parameter \<^verbatim>\<open>haystack\<close> is that of a pointer, four bytes.\<close>

definition find_pattern :: "u8 list \<Rightarrow> nat \<Rightarrow> u8 list \<Rightarrow> nat" where
  "find_pattern haystack haystack_size needle =
     (case find (\<lambda>i. memcmp_s (drop i haystack) 4 needle 4 = 0) [0 ..< haystack_size div 8] of None \<Rightarrow> 0 | Some i \<Rightarrow> i)"

fun shift_left_loop :: "u8 \<Rightarrow> u8 list \<Rightarrow> u8 list" where
  "shift_left_loop carry [] = []"
| "shift_left_loop carry (b # bs) = (push_bit 1 b OR carry) # shift_left_loop (if b AND 0x80 \<noteq> 0 then 1 else 0) bs"

definition shift_left :: "nat \<Rightarrow> u8 list \<Rightarrow> u8 list" where
  "shift_left n buf = shift_left_loop 0 (take n buf) @ drop n buf"

fun shift_right_loop :: "u8 \<Rightarrow> u8 list \<Rightarrow> u8 list" where
  "shift_right_loop carry [] = []"
| "shift_right_loop carry (b # bs) = (carry OR drop_bit 1 b) # shift_right_loop (if b AND 1 \<noteq> 0 then 0x80 else 0) bs"

definition shift_right :: "nat \<Rightarrow> u8 list \<Rightarrow> u8 list" where
  "shift_right n buf = rev (shift_right_loop 0 (rev (take n buf))) @ drop n buf"

section \<open>The devices of the chain\<close>

record uncore_info =
  idcode :: "u8 list"
  numUncores :: nat

text \<open>
  What the program uses beside the handler: what lies on the stack behind the pattern and in the instruction
  buffer, whether \<^verbatim>\<open>continue_loop\<close> still holds in a state of the world, and the random numbers.
\<close>

record 'd test_env =
  test_port :: "'d jtag_port"
  test_junk :: "'d junk"
  behind_pattern :: "u8 list"
  ir_garbage :: "u8 list"
  continue_loop :: "'d \<Rightarrow> bool"
  random_pattern :: "'d \<Rightarrow> u8 list"

definition init_jtag_test :: "'d test_env \<Rightarrow> JTAG_Handler \<Rightarrow> jtag_test_args \<Rightarrow> 'd \<Rightarrow> (JTAG_Handler option \<times> 'd) option" where
  "init_jtag_test env garbage a d =
     (case JTAG_initialize (test_port env) (\<not> hw_test a) (JTAGHandler garbage) d of
        None \<Rightarrow> None
      | Some (st, h, d) \<Rightarrow>
          if st \<noteq> ST_OK then Some (None, d)
          else if \<not> hw_test a then Some (Some h, d)
          else case JTAG_set_jtag_tck (test_port env) (unat (test_tck a)) h d of
                 None \<Rightarrow> None
               | Some (st, h, d) \<Rightarrow>
                   if st \<noteq> ST_OK then Some (None, port_close (test_port env) (JTAG_driver_handle h) d)
                   else Some (Some h, d))"

definition reset_jtag_to_RTI :: "'d test_env \<Rightarrow> JTAG_Handler \<times> 'd \<Rightarrow> (JTAG_Handler \<times> 'd) outcome" where
  "reset_jtag_to_RTI env = (\<lambda>(h, d).
     and_then (JTAG_set_tap_state (test_port env) JTAG_STATE_TLRESET h d)
       (\<lambda>(h, d). JTAG_set_tap_state (test_port env) JTAG_STATE_IDLE h d))"

text \<open>The codes are taken from what the scan has shifted out before the pattern came through.\<close>

definition read_codes :: "jtag_test_args \<Rightarrow> u8 list \<Rightarrow> uncore_info \<Rightarrow> status \<times> uncore_info" where
  "read_codes a tdo u =
     (let index = find_pattern tdo DISCOVERY_BITS (tap_data_pattern a) * 8
      in if index = 0 then (ST_ERR, u)
         else let n = index div 32; (ok, codes) = memcpy_s (idcode u) 64 (Some tdo) (4 * n)
              in (if ok then ST_OK else ST_ERR, \<lparr>idcode = codes, numUncores = n\<rparr>))"

definition uncore_discovery :: "'d test_env \<Rightarrow> jtag_test_args \<Rightarrow> uncore_info \<Rightarrow> JTAG_Handler \<times> 'd
    \<Rightarrow> (status \<times> uncore_info \<times> JTAG_Handler \<times> 'd) option" where
  "uncore_discovery env a u x =
     (case and_then (reset_jtag_to_RTI env x) (\<lambda>(h, d). JTAG_set_tap_state (test_port env) JTAG_STATE_SHIFTDR h d) of
        None \<Rightarrow> None
      | Some (st, h, d) \<Rightarrow>
          if st \<noteq> ST_OK then Some (ST_ERR, u, h, d)
          else case JTAG_shift (test_junk env) (test_port env) DISCOVERY_BITS (Some (tap_data_pattern a @ behind_pattern env))
                      MAX_TDO_SIZE (Some (replicate MAX_TDO_SIZE 0xFF)) JTAG_STATE_IDLE h d of
                 None \<Rightarrow> None
               | Some (st, out, h, d) \<Rightarrow>
                   if st \<noteq> ST_OK then Some (ST_ERR, u, h, d)
                   else let (st, u) = read_codes a (the out) u in Some (st, u, h, d))"
section \<open>The test\<close>

text \<open>The instruction of every device; \<^verbatim>\<open>ir_size\<close> bytes of the buffer are cleared.\<close>

definition ir_bytes :: "jtag_test_args \<Rightarrow> nat \<Rightarrow> nat" where
  "ir_bytes a n = (n * unat (ir_shift_size a) + 7) div 8"

definition set_instruction :: "jtag_test_args \<Rightarrow> nat \<Rightarrow> u8 list \<Rightarrow> u8 list" where
  "set_instruction a n buf = ((shift_left (ir_bytes a n) ^^ unat (ir_shift_size a)) buf)[0 := ucast (ir_value a)]"

definition ir_command :: "jtag_test_args \<Rightarrow> nat \<Rightarrow> u8 list \<Rightarrow> u8 list" where
  "ir_command a n garbage = (set_instruction a n ^^ n) (replicate (ir_bytes a n) 0 @ drop (ir_bytes a n) garbage)"

text \<open>The codes and behind them the pattern; the buffer has room for 16 codes.\<close>

definition compare_codes :: "uncore_info \<Rightarrow> bool \<times> u8 list" where
  "compare_codes u = memcpy_s (replicate 72 0) 72 (Some (idcode u)) (4 * numUncores u)"

definition compare_pattern :: "nat \<Rightarrow> u8 list \<Rightarrow> u8 list \<Rightarrow> bool \<times> u8 list" where
  "compare_pattern n p compare_data = memcpy_at compare_data (4 * n) (72 - 4 * n) (Some p) 8"

record 'd test_state =
  t_handler :: JTAG_Handler
  t_dev :: 'd
  t_args :: jtag_test_args
  compare_data :: "u8 list"
  iterations :: u32
  total_bits :: u32
  failures :: nat
  shown :: "u8 list list"

text \<open>Going on with the loop, leaving it, and failing.\<close>

datatype verdict = Next | Interrupted | Failed

definition count_jtag_failure :: "'d test_env \<Rightarrow> 'd test_state \<Rightarrow> verdict \<times> 'd test_state" where
  "count_jtag_failure env x =
     (if count_mode (t_args x) \<and> continue_loop env (t_dev x) then (Next, x\<lparr>failures := failures x + 1\<rparr>) else (Failed, x))"

text \<open>A call of the handler in the loop; its failure is counted, or ends the test.\<close>

definition or_count :: "'d test_env \<Rightarrow> ('d test_state \<Rightarrow> ('a \<times> JTAG_Handler \<times> 'd) outcome)
    \<Rightarrow> ('a \<Rightarrow> 'd test_state \<Rightarrow> (verdict \<times> 'd test_state) option) \<Rightarrow> 'd test_state \<Rightarrow> (verdict \<times> 'd test_state) option" where
  "or_count env f k x = (case f x of
       None \<Rightarrow> None
     | Some (st, r, h, d) \<Rightarrow> let x = x\<lparr>t_handler := h, t_dev := d\<rparr>
         in if st = ST_OK then k r x else Some (count_jtag_failure env x))"

definition goto_state :: "'d test_env \<Rightarrow> jtag_tapstate \<Rightarrow> 'd test_state \<Rightarrow> (unit \<times> JTAG_Handler \<times> 'd) outcome" where
  "goto_state env s x = map_option (\<lambda>(st, h, d). (st, (), h, d)) (JTAG_set_tap_state (test_port env) s (t_handler x) (t_dev x))"

definition do_shift :: "'d test_env \<Rightarrow> nat \<Rightarrow> u8 list \<Rightarrow> nat \<Rightarrow> u8 list option \<Rightarrow> 'd test_state
    \<Rightarrow> (u8 list option \<times> JTAG_Handler \<times> 'd) outcome" where
  "do_shift env bits input n out x =
     JTAG_shift (test_junk env) (test_port env) bits (Some input) n out JTAG_STATE_IDLE (t_handler x) (t_dev x)"

text \<open>What manual mode logs: the bits read, shifted down by the length of the register for every device.\<close>

definition manual_values :: "nat \<Rightarrow> nat \<Rightarrow> u8 list \<Rightarrow> u8 list list" where
  "manual_values n bits tdo = map (\<lambda>i. (shift_right MAX_TDO_SIZE ^^ (i * bits)) tdo) [0 ..< n + 1]"

definition read_back :: "'d test_env \<Rightarrow> nat \<Rightarrow> nat \<Rightarrow> u8 list \<Rightarrow> 'd test_state \<Rightarrow> verdict \<times> 'd test_state" where
  "read_back env n bits tdo x =
     (let x = x\<lparr>total_bits := total_bits x + of_nat bits\<rparr>;
          ok = (manual_mode (t_args x) \<or> memcmp_s (compare_data x) 72 tdo ((bits + 7) div 8) = 0);
          x = (if manual_mode (t_args x) then x\<lparr>shown := shown x @ manual_values n (unat (dr_shift_size (t_args x))) tdo\<rparr> else x)
      in if \<not> ok then count_jtag_failure env x
         else (if continue_loop env (t_dev x) then Next else Interrupted, x))"

definition next_pattern :: "'d test_env \<Rightarrow> nat \<Rightarrow> 'd test_state \<Rightarrow> bool \<times> 'd test_state" where
  "next_pattern env n x =
     (if random_mode (t_args x) then
        let p = random_pattern env (t_dev x); (ok, c) = compare_pattern n p (compare_data x)
        in (ok, x\<lparr>t_args := (t_args x)\<lparr>tap_data_pattern := p\<rparr>, compare_data := c\<rparr>)
      else (True, x))"

definition dr_bits :: "nat \<Rightarrow> 'd test_state \<Rightarrow> nat" where
  "dr_bits n x = n * unat (dr_shift_size (t_args x)) + 64"

definition shift_data :: "'d test_env \<Rightarrow> nat \<Rightarrow> 'd test_state \<Rightarrow> (verdict \<times> 'd test_state) option" where
  "shift_data env n x =
     (let (ok, x) = next_pattern env n x
      in if \<not> ok then Some (Failed, x)
         else or_count env (do_shift env (dr_bits n x) (tap_data_pattern (t_args x) @ behind_pattern env)
                  MAX_TDO_SIZE (Some (replicate MAX_TDO_SIZE 0)))
                (\<lambda>out x. Some (read_back env n (dr_bits n x) (the out) x)) x)"

definition test_iteration :: "'d test_env \<Rightarrow> nat \<Rightarrow> u8 list \<Rightarrow> 'd test_state \<Rightarrow> (verdict \<times> 'd test_state) option" where
  "test_iteration env n ir = or_count env (goto_state env JTAG_STATE_SHIFTIR) (\<lambda>_ x.
     let bits = unat (ir_shift_size (t_args x)) * n
     in or_count env (do_shift env bits ir 0 None) (\<lambda>_ x.
          or_count env (goto_state env JTAG_STATE_SHIFTDR) (\<lambda>_. shift_data env n) (x\<lparr>total_bits := total_bits x + of_nat bits\<rparr>)) x)"

text \<open>
  The loop may run forever, which is \<^const>\<open>None\<close>; inside of it \<^const>\<open>None\<close> is a fault, as for the handler. The
  result is whether the test succeeds.
\<close>

partial_function (option) test_loop :: "'d test_env \<Rightarrow> nat \<Rightarrow> u8 list \<Rightarrow> 'd test_state \<Rightarrow> (bool \<times> 'd test_state) option option" where
  "test_loop env n ir x =
     (if loop_forever (t_args x) \<or> iterations x < word_of_int (numIterations (t_args x)) then
        (case test_iteration env n ir x of
           None \<Rightarrow> Some None
         | Some (v, x) \<Rightarrow> if v = Next then test_loop env n ir (x\<lparr>iterations := iterations x + 1\<rparr>)
                         else Some (Some (v = Interrupted, x)))
      else Some (Some (True, x)))"

definition jtag_test :: "'d test_env \<Rightarrow> uncore_info \<Rightarrow> jtag_test_args \<Rightarrow> JTAG_Handler \<times> 'd
    \<Rightarrow> (bool \<times> 'd test_state) option option" where
  "jtag_test env u a = (\<lambda>(h, d).
     let n = numUncores u; ir = ir_command a n (ir_garbage env); (ok, c) = compare_codes u;
         (ok', c') = (if random_mode a then (True, c) else compare_pattern n (tap_data_pattern a) c);
         x = \<lparr>t_handler = h, t_dev = d, t_args = a, compare_data = c', iterations = 0, total_bits = 0, failures = 0, shown = []\<rparr>
     in if \<not> ok \<or> \<not> ok' then Some (Some (False, x)) else test_loop env n ir x)"

text \<open>The size of the instruction follows from the first code. The program ends with 0 when the test succeeds.\<close>

definition first_code :: "uncore_info \<Rightarrow> u32" where
  "first_code u = word_of_int (horner_sum uint 256 (take 4 (idcode u)))"

definition ir_size_of :: "uncore_info \<Rightarrow> jtag_test_args \<Rightarrow> jtag_test_args" where
  "ir_size_of u a =
     (let sig = first_code u AND 0x0FFFFFFF
      in if sig = 0x0E7BB013 then a\<lparr>ir_shift_size := 14\<rparr>
         else if sig = 0x00044113 \<or> sig = 0x00111113 then a\<lparr>ir_shift_size := 16\<rparr>
         else a)"

definition jtag_test_main :: "'d test_env \<Rightarrow> JTAG_Handler \<Rightarrow> u8 list \<Rightarrow> test_option list \<Rightarrow> 'd \<Rightarrow> (int \<times> 'd) option option" where
  "jtag_test_main env garbage pattern opts d =
     (let (ok, a) = parse_arguments opts pattern
      in if \<not> ok then Some (Some (-1, d))
         else case init_jtag_test env garbage a d of
                None \<Rightarrow> Some None
              | Some (None, d) \<Rightarrow> Some (Some (-1, d))
              | Some (Some h, d) \<Rightarrow>
                  let finish = (\<lambda>ok h d. let (st, h, d) = JTAG_deinitialize (test_port env) h d
                        in Some (Some (if ok \<and> st = ST_OK then 0 else -1, d)))
                  in case uncore_discovery env a \<lparr>idcode = replicate 64 0, numUncores = 0\<rparr> (h, d) of
                       None \<Rightarrow> Some None
                     | Some (st, u, h, d) \<Rightarrow>
                         if st \<noteq> ST_OK then finish False h d
                         else case reset_jtag_to_RTI env (h, d) of
                                None \<Rightarrow> Some None
                              | Some (st, h, d) \<Rightarrow>
                                  if st \<noteq> ST_OK then finish False h d
                                  else case jtag_test env u (ir_size_of u a) (h, d) of
                                         None \<Rightarrow> None
                                       | Some None \<Rightarrow> Some None
                                       | Some (Some (ok, x)) \<Rightarrow> finish ok (t_handler x) (t_dev x))"

section \<open>Buffers and bits\<close>

lemma mem_diff_zero: "slen \<le> dmax \<Longrightarrow> mem_diff dmax slen dp sp m = 0 \<longleftrightarrow> (\<forall>i < slen. m (dp + i) = m (sp + i))"
proof (induction dmax arbitrary: slen dp sp)
  case (Suc dmax)
  show ?case
  proof (cases slen)
    case (Suc k)
    have "(\<forall>i < Suc k. m (dp + i) = m (sp + i)) \<longleftrightarrow> m dp = m sp \<and> (\<forall>i < k. m (dp + 1 + i) = m (sp + 1 + i))"
      by (auto simp: less_Suc_eq_0_disj)
    then show ?thesis using Suc.IH [of k "dp + 1" "sp + 1"] Suc.prems Suc by simp
  qed simp
qed simp

lemma memcmp_s_zero:
  assumes "0 < slen" "dmax \<le> RSIZE_MAX_MEM" "slen \<le> length xs" "slen \<le> length ys" "length xs \<le> 4096"
  shows "memcmp_s xs dmax ys slen = 0 \<longleftrightarrow> slen \<le> dmax \<and> take slen xs = take slen ys"
proof -
  have "areas xs ys (4096 + i) = areas xs ys (1048576 + i) \<longleftrightarrow> xs ! i = ys ! i" if "i < slen" for i
    using assms that by (simp add: areas_def)
  then have "(\<forall>i < slen. areas xs ys (4096 + i) = areas xs ys (1048576 + i)) \<longleftrightarrow> take slen xs = take slen ys"
    using assms(3,4) by (simp add: list_eq_iff_nth_eq)
  then show ?thesis
    using assms(1,2) mem_diff_zero [of slen dmax 4096 1048576 "areas xs ys"]
    by (auto simp: memcmp_s_def memcmp_s_chk_def check_dmax_def)
qed

lemma length_shift_left_loop [simp]: "length (shift_left_loop carry bs) = length bs"
  by (induction carry bs rule: shift_left_loop.induct) auto

lemma shift_left_loop_bits:
  assumes "i < 8 * length bs" "carry \<le> 1"
  shows "bbit (shift_left_loop carry bs) i \<longleftrightarrow> (if i = 0 then carry = 1 else bbit bs (i - 1))"
  using assms
proof (induction carry bs arbitrary: i rule: shift_left_loop.induct)
  case (2 carry b bs)
  let ?c = "if b AND 0x80 \<noteq> 0 then 1 else 0 :: u8"
  have top: "b AND 0x80 \<noteq> 0 \<longleftrightarrow> bit b 7" using and_exp_eq_0_iff_not_bit [of b 7] by simp
  have "unat carry = 0 \<or> unat carry = 1" using 2(3) by (simp add: word_le_nat_alt) linarith
  then have carry: "carry = 0 \<or> carry = 1" by (simp add: word_unat_eq_iff)
  show ?case
  proof (cases "i < 8")
    case True
    then show ?thesis using carry by (auto simp: bbit_def bit_simps bit_1_iff bit_double_iff mult.commute [of _ "2 :: u8"])
  next
    case False
    then obtain j where j: "i = 8 + j" using le_iff_add not_less by metis
    have d: "(8 + k) div 8 = Suc (k div 8)" for k :: nat by simp
    have "bbit (shift_left_loop carry (b # bs)) i = bbit (shift_left_loop ?c bs) j"
      using j by (simp add: bbit_def d)
    also have "\<dots> \<longleftrightarrow> (if j = 0 then ?c = 1 else bbit bs (j - 1))" using 2 j by (intro "2.IH") auto
    also have "\<dots> \<longleftrightarrow> bbit (b # bs) (i - 1)"
      using j top by (cases j) (auto simp: bbit_def d)
    finally show ?thesis using j by simp
  qed
qed simp

lemma length_shift_left [simp]: "length (shift_left n buf) = length buf"
  by (simp add: shift_left_def)

lemma shift_left_bits:
  assumes "n \<le> length buf" "i < 8 * n"
  shows "bbit (shift_left n buf) i \<longleftrightarrow> 0 < i \<and> bbit buf (i - 1)"
proof -
  have "i div 8 < n" using assms(2) by (simp add: less_mult_imp_div_less)
  then have "bbit (shift_left n buf) i = bbit (shift_left_loop 0 (take n buf)) i"
    using assms by (simp add: shift_left_def bbit_def nth_append)
  also have "\<dots> = (if i = 0 then False else bbit (take n buf) (i - 1))"
    using assms shift_left_loop_bits [of i "take n buf" 0] by simp
  finally show ?thesis using assms by (auto simp: bbit_def)
qed

lemma shifts_left_bits:
  assumes "n \<le> length buf" "i < 8 * n"
  shows "length ((shift_left n ^^ s) buf) = length buf \<and>
    (bbit ((shift_left n ^^ s) buf) i \<longleftrightarrow> s \<le> i \<and> bbit buf (i - s))"
  using assms(2)
proof (induction s arbitrary: i)
  case (Suc s)
  then have "length ((shift_left n ^^ s) buf) = length buf" by blast
  then show ?case
    using Suc assms(1) shift_left_bits [of n "(shift_left n ^^ s) buf" i] Suc.IH [of "i - 1"] by (cases i) auto
qed simp

text \<open>The instruction of every device, in the bits of the buffer.\<close>

lemma instructions_bits:
  assumes "ir_bytes a n \<le> length garbage" "8 \<le> unat (ir_shift_size a)" "k \<le> n" "i < 8 * ir_bytes a n"
  defines "buf \<equiv> (set_instruction a n ^^ k) (replicate (ir_bytes a n) 0 @ drop (ir_bytes a n) garbage)"
  shows "length buf = length garbage \<and>
    (bbit buf i \<longleftrightarrow> i div unat (ir_shift_size a) < k \<and> bit (ucast (ir_value a) :: u8) (i mod unat (ir_shift_size a)))"
  using assms(3,4) unfolding buf_def
proof (induction k arbitrary: i)
  case 0
  then have "i div 8 < ir_bytes a n" by (simp add: less_mult_imp_div_less)
  then show ?case using assms(1) by (simp add: bbit_def nth_append)
next
  case (Suc k)
  let ?s = "unat (ir_shift_size a)" let ?v = "ucast (ir_value a) :: u8"
  let ?b = "(set_instruction a n ^^ k) (replicate (ir_bytes a n) 0 @ drop (ir_bytes a n) garbage)"
  let ?c = "(shift_left (ir_bytes a n) ^^ ?s) ?b"
  have b: "length ?b = length garbage" using Suc.IH [of i] Suc.prems by simp
  have c: "length ?c = length garbage" "bbit ?c i \<longleftrightarrow> ?s \<le> i \<and> bbit ?b (i - ?s)"
    using shifts_left_bits [of "ir_bytes a n" ?b i ?s] b assms(1) Suc.prems(2) by auto
  have len: "length garbage > 0" using Suc.prems(2) assms(1) by (cases garbage) auto
  have high: "\<not> bit ?v j" if "8 \<le> j" for j using that bit_imp_le_length [of ?v j] by auto
  have "bbit (?c[0 := ?v]) i \<longleftrightarrow> i div ?s < Suc k \<and> bit ?v (i mod ?s)"
  proof (cases "?s \<le> i")
    case True
    have "bbit (?c[0 := ?v]) i = bbit ?c i" using True assms(2) by (simp add: bbit_def)
    also have "\<dots> \<longleftrightarrow> (i - ?s) div ?s < k \<and> bit ?v ((i - ?s) mod ?s)" using c(2) True Suc.IH [of "i - ?s"] Suc.prems by simp
    also have "\<dots> \<longleftrightarrow> i div ?s < Suc k \<and> bit ?v (i mod ?s)"
      using True assms(2) by (simp add: le_div_geq le_mod_geq)
    finally show ?thesis .
  next
    case False
    show ?thesis
    proof (cases "i < 8")
      case True
      then show ?thesis using False c(1) len by (simp add: bbit_def)
    next
      case no: False
      then have "bbit (?c[0 := ?v]) i = bbit ?c i" by (simp add: bbit_def)
      then show ?thesis using False no c(2) high by simp
    qed
  qed
  moreover have "(set_instruction a n ^^ Suc k) (replicate (ir_bytes a n) 0 @ drop (ir_bytes a n) garbage) = ?c[0 := ?v]"
    by (simp add: set_instruction_def [of a n ?b])
  ultimately show ?case using c(1) by simp
qed

text \<open>
  C29. The instruction buffer holds the instruction of every device of the chain: each gets its own part of it, as
  long as its register, with the instruction in its lowest eight bits and zeros above. This is so for
  registers of eight to 1024 bits, the largest a chain of 16 devices has room for in the buffer.
\<close>

theorem every_device_gets_the_instruction:
  assumes "length garbage = MAX_TDO_SIZE" "n \<le> 16" "8 \<le> unat (ir_shift_size a)" "unat (ir_shift_size a) \<le> 0x400"
    and "i < unat (ir_shift_size a) * n"
  shows "length (ir_command a n garbage) = MAX_TDO_SIZE \<and>
    bbit (ir_command a n garbage) i = bit (ucast (ir_value a) :: u8) (i mod unat (ir_shift_size a))"
proof -
  have "n * unat (ir_shift_size a) \<le> 16 * 1024" using assms(2,4) by (intro mult_le_mono) simp_all
  then have room: "ir_bytes a n \<le> length garbage" using assms(1) by (simp add: ir_bytes_def)
  have "i < 8 * ir_bytes a n" using assms(5) by (simp add: ir_bytes_def mult.commute)
  moreover have "i div unat (ir_shift_size a) < n" using assms(5) by (simp add: less_mult_imp_div_less mult.commute)
  ultimately show ?thesis
    using instructions_bits [OF room assms(3) order_refl, of i] assms(1) by (simp add: ir_command_def)
qed

section \<open>Finding the devices\<close>

lemma find_first:
  assumes "P k" "\<forall>i < k. \<not> P i" "k < m"
  shows "find P [0 ..< m] = Some k"
  using assms by (auto simp: find_Some_iff intro!: exI [of _ k])

lemma bits_equal:
  assumes "\<forall>i < 8 * n. bbit xs i = bbit ys i" "n \<le> length xs" "n \<le> length ys"
  shows "take n xs = take n ys"
proof (rule nth_equalityI)
  fix k assume k: "k < length (take n xs)"
  have "bit (xs ! k) j = bit (ys ! k) j" if "j < 8" for j
  proof -
    have "(8 * k + j) div 8 = k" "(8 * k + j) mod 8 = j" using that by simp_all
    moreover have "8 * k + j < 8 * n" using k that by simp
    ultimately show ?thesis using assms(1) by (metis bbit_def)
  qed
  then show "take n xs ! k = take n ys ! k" using k by (simp add: bit_eq_iff)
qed (use assms in simp)

text \<open>What a chain of devices with these codes shifts out, and behind it the pattern that came in.\<close>

definition shows_chain :: "u8 list list \<Rightarrow> u8 list \<Rightarrow> u8 list \<Rightarrow> bool" where
  "shows_chain codes pattern tdo \<longleftrightarrow>
     (\<forall>i < 32 * length codes + 64. bbit tdo i = bbit (concat codes @ pattern) i)"

definition unmistakable :: "u8 list list \<Rightarrow> u8 list \<Rightarrow> bool" where
  "unmistakable codes pattern \<longleftrightarrow>
     (\<forall>i < 4 * length codes. take 4 (drop i (concat codes @ pattern)) \<noteq> take 4 pattern)"

lemma length_codes: "list_all (\<lambda>c. length c = 4) codes \<Longrightarrow> length (concat codes) = 4 * length codes"
  by (induction codes) auto

text \<open>
  The devices of the chain are found: when a scan shows the codes of 1 to 16 devices and then the pattern, and
  the first half of the pattern does not occur before, their number and their codes are what is kept.
  Only this half is compared, because the size of the searched parameter is that of a pointer.
\<close>

theorem devices_are_found:
  assumes "shows_chain codes (tap_data_pattern a) tdo" "unmistakable codes (tap_data_pattern a)"
    and "list_all (\<lambda>c. length c = 4) codes" "codes \<noteq> []" "length codes \<le> 16"
    and "length (tap_data_pattern a) = 8" "length tdo = MAX_TDO_SIZE" "length (idcode u) = 64"
  shows "read_codes a tdo u = (ST_OK, \<lparr>idcode = concat codes @ drop (4 * length codes) (idcode u), numUncores = length codes\<rparr>)"
proof -
  let ?n = "length codes" and ?p = "tap_data_pattern a"
  let ?m = "4 * ?n + 8" and ?all = "concat codes @ tap_data_pattern a"
  have len: "length (concat codes) = 4 * ?n" using assms(3) by (rule length_codes)
  have same: "take ?m tdo = ?all"
    using bits_equal [of ?m tdo ?all] assms(1,5-7) len by (simp add: shows_chain_def algebra_simps)
  have at: "take 4 (drop i tdo) = take 4 (drop i ?all)" if "i \<le> 4 * ?n" for i
  proof -
    have "take 4 (drop i (take ?m tdo)) = take 4 (drop i tdo)" using that by (simp add: drop_take min_def)
    then show ?thesis by (simp only: same)
  qed
  have cmp: "memcmp_s (drop i tdo) 4 ?p 4 = 0 \<longleftrightarrow> take 4 (drop i ?all) = take 4 ?p" if "i \<le> 4 * ?n" for i
    using memcmp_s_zero [of 4 4 "drop i tdo" ?p] assms(5-7) that at by simp
  have "find (\<lambda>i. memcmp_s (drop i tdo) 4 ?p 4 = 0) [0 ..< DISCOVERY_BITS div 8] = Some (4 * ?n)"
    using assms(2,5) cmp len by (intro find_first) (auto simp: unmistakable_def)
  moreover have "take (4 * ?n) tdo = concat codes"
  proof -
    have "take (4 * ?n) (take ?m tdo) = take (4 * ?n) tdo" by (simp add: min_def)
    then show ?thesis using len by (simp add: same)
  qed
  ultimately show ?thesis using assms(4,5,8) by (simp add: read_codes_def find_pattern_def memcpy_s_def Let_def)
qed

section \<open>The test on a device\<close>

text \<open>
  The contract of the handler's device with one more law: what was sampled stays, whatever the device is asked
  to do between the scans.
\<close>

locale sampling_device = jtag_device port ready tap clks smps
  for port :: "'d jtag_port" and ready tap clks and smps :: "'d \<Rightarrow> bool list" +
  assumes goto_keeps: "port_ioctl port fd (JTAG_SIOCSTATE q) d = Some (e, r, d') \<Longrightarrow> prefix (smps d) (smps d')"
    and clock_keeps: "port_ioctl port fd (JTAG_IOCBITBANG l b) d = Some (e, r, d') \<Longrightarrow> prefix (smps d) (smps d')"

text \<open>The scans were sampled one after the other between the samples \<open>s\<close> and \<open>t\<close>.\<close>

fun sampled :: "bool list \<Rightarrow> bool list list \<Rightarrow> bool list \<Rightarrow> bool" where
  "sampled s [] t \<longleftrightarrow> prefix s t"
| "sampled s (b # bs) t \<longleftrightarrow> (\<exists>g. sampled (s @ g @ b) bs t)"

lemma sampled_mono:
  assumes "prefix s s'" "sampled s' bs t"
  shows "sampled s bs t"
proof (cases bs)
  case Nil
  then show ?thesis using assms prefix_order.trans by auto
next
  case (Cons b bs')
  obtain p where "s' = s @ p" using assms(1) by (auto simp: prefix_def)
  then show ?thesis using assms(2) Cons by (metis append.assoc sampled.simps(2))
qed

text \<open>A handler whose active chain is not padded, and the device in the state it has recorded.\<close>

definition unpadded :: "JTAG_Handler \<Rightarrow> bool" where
  "unpadded h \<longleftrightarrow> shift_padding (active h) = no_padding"

lemma unpadded_trace:
  assumes "unpadded h"
  shows "pre_pad ty h = 0" "shift_trace ty h True f n = scan_trace True f n"
proof -
  have z: "pre_pad ty h = 0" "post_pad ty h = 0"
    using assms by (cases ty; simp add: unpadded_def pre_pad_def post_pad_def no_padding_def)+
  show "pre_pad ty h = 0" "shift_trace ty h True f n = scan_trace True f n"
    using z by (simp_all add: shift_trace_def scan_trace_def)
qed

lemma unpadded_goto: "handler_ok h \<Longrightarrow> unpadded ((upd_active (\<lambda>c. c\<lparr>tap_state := s\<rparr>) h)\<lparr>bitbang_data := bs\<rparr>) = unpadded h"
  by (simp add: unpadded_def)

lemma unpadded_chain_at: "handler_ok h \<Longrightarrow> unpadded (chain_at s sc h) = unpadded h"
  by (simp add: unpadded_def)

context sampling_device begin

definition idle_ready :: "JTAG_Handler \<Rightarrow> 'd \<Rightarrow> bool" where
  "idle_ready h d \<longleftrightarrow> agree h d \<and> unpadded h"

lemma goto_ready:
  assumes "idle_ready h d" "s \<noteq> JTAG_STATE_CURRENT"
  shows "\<exists>h' d'. JTAG_set_tap_state port s h d = Some (ST_OK, h', d') \<and> idle_ready h' d' \<and>
    JTAG_get_tap_state h' = s \<and> prefix (smps d) (smps d')"
proof -
  have h: "handler_ok h" "ready (JTAG_driver_handle h) d" "tap d = JTAG_get_tap_state h \<or> s = JTAG_STATE_TLRESET"
    using assms(1) by (simp_all add: idle_ready_def agree_def)
  obtain h' d' bs where r: "JTAG_set_tap_state port s h d = Some (ST_OK, h', d')"
    "h' = (upd_active (\<lambda>c. c\<lparr>tap_state := s\<rparr>) h)\<lparr>bitbang_data := bs\<rparr>"
    using set_tap_state_ok [OF h(1,2) assms(2) h(3)] by blast
  have "agree h' d'" using agree_goto [OF _ assms(2) r(1)] assms(1) by (simp add: idle_ready_def)
  moreover have "unpadded h'" "JTAG_get_tap_state h' = s"
    using assms(1) h(1) by (simp_all add: r(2) unpadded_goto idle_ready_def JTAG_get_tap_state_def)
  moreover have "prefix (smps d) (smps d')"
    using r(1) by (auto simp: JTAG_set_tap_state_def JTAG_wait_cycles_def and_then_def Let_def
      split: option.splits prod.splits if_splits dest!: goto_keeps clock_keeps intro: prefix_order.trans)
  ultimately show ?thesis using r(1) by (auto simp: idle_ready_def)
qed

lemma shift_ready:
  assumes "idle_ready h d" "JTAG_get_tap_state h = shift_state ty" "0 < n" "n < 65535"
    and "\<And>d. length (fst (junk d)) = 3000" "\<And>d. io_ok n input obytes mem (fst (junk d))"
  shows "\<exists>mem' h' d' bs posts pre post. JTAG_shift junk port n input obytes mem JTAG_STATE_IDLE h d = Some (ST_OK, mem', h', d') \<and>
    idle_ready h' d' \<and> smps d' = smps d @ bs @ posts \<and> length bs = n \<and> stored n obytes mem mem' bs \<and>
    clks d' = clks d @ scan_trace True (in_bits input) n @ post"
proof -
  have h: "handler_ok h" "sw_mode h" "ready (JTAG_driver_handle h) d" "tap d = shift_state ty" "unpadded h"
    using assms(1,2) by (simp_all add: idle_ready_def agree_def)
  have s: "JTAG_STATE_IDLE \<noteq> JTAG_STATE_CURRENT" "JTAG_STATE_IDLE \<noteq> shift_state ty" by (cases ty; simp add: shift_state_def)+
  obtain mem' d' pre bs posts tms where r: "JTAG_shift junk port n input obytes mem JTAG_STATE_IDLE h d =
      Some (ST_OK, mem', chain_at JTAG_STATE_IDLE JTAGScanState_Done h, d')"
    "ready (JTAG_driver_handle h) d'" "tap d' = JTAG_STATE_IDLE" 
    "clks d' = clks d @ shift_trace ty h True (in_bits input) n @ moves tms"
    "smps d' = smps d @ pre @ bs @ posts" "length pre = pre_pad ty h" "length bs = n" "stored n obytes mem mem' bs"
    using shift_ok [where junk = junk, OF h(1,2) assms(2) h(3,4) s(1) assms(3-6)] s(2) by auto
  have "idle_ready (chain_at JTAG_STATE_IDLE JTAGScanState_Done h) d'"
    using h r(2,3) by (simp add: idle_ready_def agree_def unpadded_chain_at JTAG_get_tap_state_def)
  then show ?thesis using r(1,4-8) unpadded_trace [OF h(5)] by auto
qed

end

text \<open>The plain test: neither random nor manual, with registers as long as a code.\<close>

definition plain :: "jtag_test_args \<Rightarrow> bool" where
  "plain a \<longleftrightarrow> \<not> manual_mode a \<and> \<not> random_mode a \<and> dr_shift_size a = 32 \<and> length (tap_data_pattern a) = 8"

definition matches :: "nat \<Rightarrow> u8 list \<Rightarrow> bool list \<Rightarrow> bool" where
  "matches n expected bs \<longleftrightarrow> (\<forall>i < 32 * n + 64. bs ! i = bbit expected i)"

lemma bits_equal_iff:
  assumes "n \<le> length xs" "n \<le> length ys"
  shows "take n xs = take n ys \<longleftrightarrow> (\<forall>i < 8 * n. bbit xs i = bbit ys i)"
proof
  assume e: "take n xs = take n ys"
  show "\<forall>i < 8 * n. bbit xs i = bbit ys i"
  proof (intro allI impI)
    fix i assume "i < 8 * n"
    then have "i div 8 < n" by (simp add: less_mult_imp_div_less)
    then have "xs ! (i div 8) = ys ! (i div 8)" using e by (metis nth_take)
    then show "bbit xs i = bbit ys i" by (simp add: bbit_def)
  qed
qed (use bits_equal assms in blast)

lemma matches_bytes:
  assumes "\<forall>i < 32 * n + 64. bbit tdo i = bs ! i" "length tdo = MAX_TDO_SIZE" "length expected = 72" "n \<le> 16"
  shows "memcmp_s expected 72 tdo ((32 * n + 64 + 7) div 8) = 0 \<longleftrightarrow> matches n expected bs"
proof -
  have m: "(32 * n + 64 + 7) div 8 = 4 * n + 8" by simp
  show ?thesis
    using memcmp_s_zero [of "4 * n + 8" 72 expected tdo] bits_equal_iff [of "4 * n + 8" expected tdo] assms
    unfolding m by (auto simp: matches_def algebra_simps)
qed

context sampling_device begin

lemma discovery_runs:
  assumes "test_port env = port" "idle_ready h d" "length (tap_data_pattern a) = 8" "64 \<le> length (behind_pattern env)"
    and "\<And>d. length (fst (test_junk env d)) = 3000"
  shows "\<exists>tdo h' d' bs before after. uncore_discovery env a u (h, d) = Some (fst (read_codes a tdo u), snd (read_codes a tdo u), h', d') \<and>
    idle_ready h' d' \<and> length tdo = MAX_TDO_SIZE \<and> length bs = DISCOVERY_BITS \<and> (\<forall>i < DISCOVERY_BITS. bbit tdo i = bs ! i) \<and>
    sampled (smps d) [bs] (smps d') \<and>
    clks d' = before @ scan_trace True (bbit (tap_data_pattern a @ behind_pattern env)) DISCOVERY_BITS @ after"
proof -
  obtain h1 d1 where 1: "JTAG_set_tap_state port JTAG_STATE_TLRESET h d = Some (ST_OK, h1, d1)" "idle_ready h1 d1"
    "prefix (smps d) (smps d1)" using goto_ready [OF assms(2), of JTAG_STATE_TLRESET] by auto
  obtain h2 d2 where 2: "JTAG_set_tap_state port JTAG_STATE_IDLE h1 d1 = Some (ST_OK, h2, d2)" "idle_ready h2 d2"
    "prefix (smps d1) (smps d2)" using goto_ready [OF 1(2), of JTAG_STATE_IDLE] by auto
  obtain h3 d3 where 3: "JTAG_set_tap_state port JTAG_STATE_SHIFTDR h2 d2 = Some (ST_OK, h3, d3)" "idle_ready h3 d3"
    "JTAG_get_tap_state h3 = shift_state JTAG_SDR_XFER" "prefix (smps d2) (smps d3)"
    using goto_ready [OF 2(2), of JTAG_STATE_SHIFTDR] by (auto simp: shift_state_def)
  let ?in = "tap_data_pattern a @ behind_pattern env"
  have io: "io_ok DISCOVERY_BITS (Some ?in) MAX_TDO_SIZE (Some (replicate MAX_TDO_SIZE 0xFF)) (fst (test_junk env d))" for d
    using assms(3,4) by (simp add: io_ok_def div_round_up8_def)
  obtain mem' h' d' bs posts post where r: "JTAG_shift (test_junk env) port DISCOVERY_BITS (Some ?in) MAX_TDO_SIZE
      (Some (replicate MAX_TDO_SIZE 0xFF)) JTAG_STATE_IDLE h3 d3 = Some (ST_OK, mem', h', d')"
    "idle_ready h' d'" "smps d' = smps d3 @ bs @ posts" "length bs = DISCOVERY_BITS"
    "stored DISCOVERY_BITS MAX_TDO_SIZE (Some (replicate MAX_TDO_SIZE 0xFF)) mem' bs"
    "clks d' = clks d3 @ scan_trace True (in_bits (Some ?in)) DISCOVERY_BITS @ post"
    using shift_ready [where junk = "test_junk env", OF 3(2,3) _ _ assms(5) io] by auto
  obtain tdo where tdo: "mem' = Some tdo" "length tdo = MAX_TDO_SIZE" "\<forall>i < DISCOVERY_BITS. bbit tdo i = bs ! i"
    using r(5) by (auto simp: stored_def split: option.splits)
  have "uncore_discovery env a u (h, d) = Some (fst (read_codes a tdo u), snd (read_codes a tdo u), h', d')"
    using 1(1) 2(1) 3(1) r(1) tdo(1) by (simp add: uncore_discovery_def reset_jtag_to_RTI_def assms(1) split_beta)
  moreover have "prefix (smps d) (smps d3)" using 1(3) 2(3) 3(4) by (metis prefix_order.trans)
  then obtain g where "smps d3 = smps d @ g" by (auto simp: prefix_def)
  then have "sampled (smps d) [bs] (smps d')" using r(3) unfolding sampled.simps prefix_def
    by (intro exI [of _ g] exI [of _ posts]) simp
  moreover have "in_bits (Some ?in) = bbit ?in" by (rule ext) (simp add: in_bits_def)
  ultimately show ?thesis using r(2,4,6) tdo(2,3) by metis
qed

lemma iteration_runs:
  assumes env: "test_port env = port" "64 \<le> length (behind_pattern env)" "\<And>d. length (fst (test_junk env d)) = 3000"
    and x: "idle_ready (t_handler x) (t_dev x)" "plain (t_args x)" "length (compare_data x) = 72"
    and n: "1 \<le> n" "n \<le> 16" "1 \<le> unat (ir_shift_size (t_args x))" "unat (ir_shift_size (t_args x)) \<le> 0x400" "length ir = MAX_TDO_SIZE"
  shows "\<exists>y bs g posts. test_iteration env n ir x =
      Some (if matches n (compare_data x) bs then (if continue_loop env (t_dev y) then Next else Interrupted, y)
            else count_jtag_failure env y) \<and>
    length bs = 32 * n + 64 \<and> smps (t_dev y) = smps (t_dev x) @ g @ bs @ posts \<and> idle_ready (t_handler y) (t_dev y) \<and>
    t_args y = t_args x \<and> compare_data y = compare_data x \<and> failures y = failures x \<and> iterations y = iterations x"
proof -
  let ?bits = "unat (ir_shift_size (t_args x)) * n"
  have "?bits \<le> 1024 * 16" using n by (intro mult_le_mono) simp_all
  moreover have "0 < ?bits" using n by simp
  ultimately have bits: "0 < ?bits" "?bits < 65535" "?bits \<le> 16384" by simp_all
  obtain h1 d1 where 1: "JTAG_set_tap_state port JTAG_STATE_SHIFTIR (t_handler x) (t_dev x) = Some (ST_OK, h1, d1)" "idle_ready h1 d1"
    "JTAG_get_tap_state h1 = shift_state JTAG_SIR_XFER" "prefix (smps (t_dev x)) (smps d1)"
    using goto_ready [OF x(1), of JTAG_STATE_SHIFTIR] by (auto simp: shift_state_def)
  have "div_round_up8 ?bits \<le> (16384 + 7) div 8" unfolding div_round_up8_def using bits(3) by (intro div_le_mono) simp
  then have "io_ok ?bits (Some ir) 0 None (fst (test_junk env d))" for d
    using n(5) env(3) by (simp add: io_ok_def)
  then obtain m2 h2 d2 bs2 posts2 where 2: "JTAG_shift (test_junk env) port ?bits (Some ir) 0 None JTAG_STATE_IDLE h1 d1 = Some (ST_OK, m2, h2, d2)"
    "idle_ready h2 d2" "smps d2 = smps d1 @ bs2 @ posts2"
    using shift_ready [where junk = "test_junk env", OF 1(2,3) bits(1,2) env(3)] by metis
  obtain h3 d3 where 3: "JTAG_set_tap_state port JTAG_STATE_SHIFTDR h2 d2 = Some (ST_OK, h3, d3)" "idle_ready h3 d3"
    "JTAG_get_tap_state h3 = shift_state JTAG_SDR_XFER" "prefix (smps d2) (smps d3)"
    using goto_ready [OF 2(2), of JTAG_STATE_SHIFTDR] by (auto simp: shift_state_def)
  let ?in = "tap_data_pattern (t_args x) @ behind_pattern env" and ?out = "Some (replicate MAX_TDO_SIZE 0 :: u8 list)"
  have p: "\<not> manual_mode (t_args x)" "\<not> random_mode (t_args x)" "dr_shift_size (t_args x) = 32" "length (tap_data_pattern (t_args x)) = 8"
    using x(2) by (simp_all add: plain_def)
  have "div_round_up8 (32 * n + 64) = 4 * n + 8" by (simp add: div_round_up8_def)
  then have "io_ok (32 * n + 64) (Some ?in) MAX_TDO_SIZE ?out (fst (test_junk env d))" for d
    using p(4) env(2) n(2) by (simp add: io_ok_def)
  moreover have "0 < 32 * n + 64" "32 * n + 64 < 65535" using n(2) by simp_all
  ultimately obtain m4 h4 d4 bs posts where 4: "JTAG_shift (test_junk env) port (32 * n + 64) (Some ?in) MAX_TDO_SIZE ?out JTAG_STATE_IDLE h3 d3 =
      Some (ST_OK, m4, h4, d4)" "idle_ready h4 d4" "smps d4 = smps d3 @ bs @ posts" "length bs = 32 * n + 64"
      "stored (32 * n + 64) MAX_TDO_SIZE ?out m4 bs"
    using shift_ready [where junk = "test_junk env", OF 3(2,3) _ _ env(3)] by metis
  obtain tdo where tdo: "m4 = Some tdo" "length tdo = MAX_TDO_SIZE" "\<forall>i < 32 * n + 64. bbit tdo i = bs ! i"
    using 4(5) by (auto simp: stored_def split: option.splits)
  define y where "y = x\<lparr>t_handler := h4, t_dev := d4, total_bits := total_bits x + of_nat ?bits + of_nat (32 * n + 64)\<rparr>"
  have fields: "t_dev y = d4" "t_handler y = h4" "t_args y = t_args x" "compare_data y = compare_data x" "failures y = failures x"
    "iterations y = iterations x" by (simp_all add: y_def)
  have dr: "n * 32 + 64 = 32 * n + 64" by simp
  have "test_iteration env n ir x = Some (read_back env n (32 * n + 64) tdo
      (x\<lparr>total_bits := total_bits x + of_nat ?bits, t_handler := h4, t_dev := d4\<rparr>))"
    using 1(1) 2(1) 3(1) 4(1) p tdo(1)
    by (simp add: test_iteration_def or_count_def goto_state_def do_shift_def shift_data_def next_pattern_def dr_bits_def env(1) dr)
  also have "\<dots> = Some (if matches n (compare_data x) bs then (if continue_loop env (t_dev y) then Next else Interrupted, y)
            else count_jtag_failure env y)"
    using matches_bytes [OF tdo(3,2) x(3) n(2)] p(1) by (simp add: read_back_def y_def)
  finally have "test_iteration env n ir x = \<dots>" .
  moreover obtain g where "smps d3 = smps (t_dev x) @ g"
    using 1(4) 2(3) 3(4) by (auto simp: prefix_def)
  ultimately show ?thesis using 4 fields by (intro exI [of _ y] exI [of _ bs] exI [of _ g] exI [of _ posts]) simp
qed

end

text \<open>
  The verdict of the loop, as a function of the scans it has read: how many were wrong, and whether it
  stopped at the first of them.
\<close>

definition verdict_of :: "bool \<Rightarrow> nat \<Rightarrow> (bool list \<Rightarrow> bool) \<Rightarrow> bool list list \<Rightarrow> bool \<Rightarrow> nat \<Rightarrow> bool" where
  "verdict_of counting left ok bss r failed \<longleftrightarrow>
     (if counting \<or> list_all ok bss then r \<and> length bss = left \<and> failed = length (filter (\<lambda>bs. \<not> ok bs) bss)
      else \<not> r \<and> length bss \<le> left \<and> failed = 0 \<and> \<not> ok (last bss) \<and> list_all ok (butlast bss))"

lemma verdict_Cons:
  assumes "verdict_of counting left ok bss r f" "counting \<or> ok b"
  shows "verdict_of counting (Suc left) ok (b # bss) r (if ok b then f else Suc f)"
  using assms by (cases "bss = []") (auto simp: verdict_of_def)

lemma verdict_first: "\<not> ok b \<Longrightarrow> verdict_of False (Suc left) ok [b] False 0"
  by (simp add: verdict_of_def)

context sampling_device begin

lemma loop_runs:
  assumes env: "test_port env = port" "64 \<le> length (behind_pattern env)" "\<And>d. length (fst (test_junk env d)) = 3000"
    "\<And>d. continue_loop env d"
    and n: "1 \<le> n" "n \<le> 16" "length ir = MAX_TDO_SIZE"
    and x: "idle_ready (t_handler x) (t_dev x)" "plain (t_args x)" "\<not> loop_forever (t_args x)" "length (compare_data x) = 72"
      "1 \<le> unat (ir_shift_size (t_args x))" "unat (ir_shift_size (t_args x)) \<le> 0x400"
  shows "\<exists>r y bss. test_loop env n ir x = Some (Some (r, y)) \<and> idle_ready (t_handler y) (t_dev y) \<and>
    sampled (smps (t_dev x)) bss (smps (t_dev y)) \<and> list_all (\<lambda>bs. length bs = 32 * n + 64) bss \<and> failures x \<le> failures y \<and>
    verdict_of (count_mode (t_args x)) (unat (word_of_int (numIterations (t_args x)) :: u32) - unat (iterations x))
      (matches n (compare_data x)) bss r (failures y - failures x)"
  using x
proof (induction "unat (word_of_int (numIterations (t_args x)) :: u32) - unat (iterations x)" arbitrary: x)
  case 0
  then have "\<not> iterations x < word_of_int (numIterations (t_args x))" by (simp add: word_less_nat_alt)
  then have "test_loop env n ir x = Some (Some (True, x))" using 0 by (subst test_loop.simps) simp
  then show ?case using 0 by (intro exI [of _ True] exI [of _ x] exI [of _ "[]"]) (simp add: verdict_of_def)
next
  case (Suc left)
  let ?N = "word_of_int (numIterations (t_args x)) :: u32"
  have less: "iterations x < ?N" using Suc(2) by (simp add: word_less_nat_alt)
  obtain y bs g posts where y: "test_iteration env n ir x =
      Some (if matches n (compare_data x) bs then (if continue_loop env (t_dev y) then Next else Interrupted, y)
            else count_jtag_failure env y)"
    "length bs = 32 * n + 64" "smps (t_dev y) = smps (t_dev x) @ g @ bs @ posts" "idle_ready (t_handler y) (t_dev y)"
    "t_args y = t_args x" "compare_data y = compare_data x" "failures y = failures x" "iterations y = iterations x"
    by (insert iteration_runs [OF env(1-3) Suc(3,4,6) n(1,2) Suc(7,8) n(3)], elim exE conjE) (rule that; assumption)
  let ?ok = "matches n (compare_data x)" and ?c = "count_mode (t_args x)"
  show ?case
  proof (cases "?ok bs \<or> ?c")
    case False
    then have "test_loop env n ir x = Some (Some (False, y))"
      using y(1,5) less by (subst test_loop.simps) (simp add: count_jtag_failure_def)
    moreover have "sampled (smps (t_dev x)) [bs] (smps (t_dev y))"
      unfolding sampled.simps prefix_def y(3) by (intro exI [of _ g] exI [of _ posts]) simp
    ultimately show ?thesis
      using False y(2,4,7) Suc(2) verdict_first [of ?ok bs left] by (intro exI [of _ False] exI [of _ y] exI [of _ "[bs]"]) simp
  next
    case True
    define f where "f = (if ?ok bs then 0 else 1 :: nat)"
    define z where "z = y\<lparr>failures := failures x + f, iterations := iterations x + 1\<rparr>"
    have "test_iteration env n ir x = Some (Next, y\<lparr>failures := failures x + f\<rparr>)"
      using y(1,5,7) True env(4) by (auto simp: count_jtag_failure_def f_def)
    then have step: "test_loop env n ir x = test_loop env n ir z"
      using less y(8) by (subst test_loop.simps) (simp add: z_def)
    have it: "unat (iterations x + 1) = Suc (unat (iterations x))"
      using less unsigned_less [of ?N, where 'a = nat] by (simp add: word_less_nat_alt unat_word_ariths)
    have zf: "t_args z = t_args x" "compare_data z = compare_data x" "failures z = failures x + f" "iterations z = iterations x + 1"
      "t_dev z = t_dev y" "t_handler z = t_handler y"
      by (simp_all add: z_def y)
    have left: "unat ?N - Suc (unat (iterations x)) = left" using Suc(2) by simp
    then have "left = unat (word_of_int (numIterations (t_args z)) :: u32) - unat (iterations z)" by (simp add: zf it)
    from Suc(1) [OF this] obtain r w bss where w: "test_loop env n ir z = Some (Some (r, w))" "idle_ready (t_handler w) (t_dev w)"
      "sampled (smps (t_dev z)) bss (smps (t_dev w))" "list_all (\<lambda>bs. length bs = 32 * n + 64) bss" "failures z \<le> failures w"
      "verdict_of ?c left ?ok bss r (failures w - failures z)"
      using Suc(3-8) y(4) left by (auto simp: zf it)
    have "prefix (smps (t_dev x) @ g @ bs) (smps (t_dev y))" unfolding prefix_def y(3) by (intro exI [of _ posts]) simp
    then have "sampled (smps (t_dev x)) (bs # bss) (smps (t_dev w))"
      using w(3) sampled_mono unfolding sampled.simps zf by blast
    moreover have "failures w - failures x = (if ?ok bs then failures w - failures z else Suc (failures w - failures z))"
      using w(5) by (auto simp: zf f_def)
    then have "verdict_of ?c (Suc left) ?ok (bs # bss) r (failures w - failures x)"
      using verdict_Cons [OF w(6), of bs] True by auto
    ultimately show ?thesis
      using step w y(2) Suc(2) by (intro exI [of _ r] exI [of _ w] exI [of _ "bs # bss"]) (simp add: zf)
  qed
qed

end

section \<open>The driver keeps its samples\<close>

lemma wire_keeps: "prefix (w_tdo w) (w_tdo (foldl wire_step w es))"
proof (induction es arbitrary: w)
  case (Cons e es)
  have "prefix (w_tdo w) (w_tdo (wire_step w e))" by (cases e) auto
  then show ?case using Cons [of "wire_step w e"] prefix_order.trans by auto
qed simp

lemma samples_keep: "prefix (aj_log aj) (aj_log aj') \<Longrightarrow> prefix (tdos aj) (tdos aj')"
  using wire_keeps by (auto simp: prefix_def wires_def)

lemma log_write: "prefix (aj_log aj) (aj_log (aspeed_jtag_write v reg aj))"
  by (simp add: aspeed_jtag_write_def)

lemma log_read: "prefix (aj_log aj) (aj_log (snd (aspeed_jtag_read aj reg)))"
  by (simp add: aspeed_jtag_read_def Let_def)

lemma log_tck: "prefix (aj_log aj) (aj_log (snd (aspeed_jtag_tck_cycle aj t d)))"
  by (cases "aj_llops aj") (simp_all add: aspeed_jtag_tck_cycle_def aspeed_jtag_sw_delay_26xx_def Let_def split_beta
      aspeed_jtag_write_def aspeed_jtag_read_def)

lemma log_levels: "prefix (aj_log aj) (aj_log (clock_levels ts aj))"
proof (induction ts arbitrary: aj)
  case (Cons t ts)
  then show ?case using log_tck [of aj "of_bool t" 0] prefix_order.trans by (fastforce simp: clock_levels_def)
qed (simp add: clock_levels_def)

lemma log_bitbang: "prefix (aj_log aj) (aj_log (snd (aspeed_jtag_bitbang aj bs)))"
proof (induction bs arbitrary: aj)
  case (Cons b bs)
  then show ?case using log_tck [of aj "bb_tms b" "bb_tdi b"] prefix_order.trans by (fastforce simp: split_beta Let_def)
qed simp

lemma log_set_tap_state:
  "aspeed_jtag_set_tap_state aj src s = Some aj' \<Longrightarrow> prefix (aj_log aj) (aj_log aj')"
  using log_levels by (auto simp: aspeed_jtag_set_tap_state_def Let_def split: option.splits)

lemma log_status_set:
  assumes "ops_status_set aj ts = Some aj'"
  shows "prefix (aj_log aj) (aj_log aj')"
proof -
  have sw: "prefix (aj_log aj) (aj_log aj')" if "aspeed_jtag_set_tap_state_sw aj ts = Some aj'"
    using that log_levels [of aj "replicate 10 True"]
    by (auto simp: aspeed_jtag_set_tap_state_sw_def Let_def split: if_splits dest!: log_set_tap_state intro: prefix_order.trans)
  have hw: "prefix (aj_log aj) (aj_log (aspeed_jtag_set_tap_state_hw2 aj ts))"
    by (simp add: aspeed_jtag_set_tap_state_hw2_def Let_def split_beta aspeed_jtag_write_def aspeed_jtag_read_def)
  show ?thesis
    using assms sw hw by (auto simp: ops_status_set_def aspeed_jtag_status_set_def aspeed_jtag_status_set_26xx_def Let_def
        aspeed_jtag_write_def split: generation.splits if_splits)
qed

lemma ioctl_state_keeps:
  "jtag_ioctl slack True aj (JTAG_SIOCSTATE q) True = Some (e, r, aj') \<Longrightarrow> prefix (tdos aj) (tdos aj')"
  by (rule samples_keep) (auto simp: jtag_ioctl_def jtag_ioctl_state_def split: option.splits if_splits dest: log_status_set)

lemma ioctl_bitbang_keeps:
  "jtag_ioctl slack True aj (JTAG_IOCBITBANG l b) True = Some (e, r, aj') \<Longrightarrow> prefix (tdos aj) (tdos aj')"
  using log_bitbang
  by (intro samples_keep) (auto simp: jtag_ioctl_def jtag_ioctl_bitbang_def Let_def split_beta split: option.splits if_splits)

interpretation tst: sampling_device "aspeed_port dev slack"
  "\<lambda>fd aj. fd = dev \<and> \<not> hw_mode aj \<and> s0 \<noteq> JTAG_STATE_CURRENT" "tap_of s0" clocks tdos
  for dev slack s0
proof unfold_locales
  fix fd q d e r d'
  assume "port_ioctl (aspeed_port dev slack) fd (JTAG_SIOCSTATE q) d = Some (e, r, d')"
  then show "prefix (tdos d) (tdos d')"
    by (auto simp: aspeed_port_def split_beta split: if_splits dest: ioctl_state_keeps)
next
  fix fd l b d e r d'
  assume "port_ioctl (aspeed_port dev slack) fd (JTAG_IOCBITBANG l b) d = Some (e, r, d')"
  then show "prefix (tdos d) (tdos d')"
    by (auto simp: aspeed_port_def split_beta split: if_splits dest: ioctl_bitbang_keeps)
qed

section \<open>The test on the pins\<close>

text \<open>The handler as it is between the scans: in software mode, without padding, in the state of the device.\<close>

definition test_ready :: "int \<Rightarrow> jtag_tapstate \<Rightarrow> JTAG_Handler \<Rightarrow> aspeed_jtag \<Rightarrow> bool" where
  "test_ready dev s0 h aj \<longleftrightarrow> handler_ok h \<and> sw_mode h \<and> JTAG_driver_handle h = dev \<and> \<not> hw_mode aj \<and>
     s0 \<noteq> JTAG_STATE_CURRENT \<and> tap_of s0 aj = JTAG_get_tap_state h \<and> unpadded h"

lemma test_ready_idle: "test_ready dev s0 h aj \<longleftrightarrow> tst.idle_ready dev s0 h aj"
  by (auto simp: test_ready_def tst.idle_ready_def asp.agree_def)

lemma length_ir_command:
  assumes "length garbage = MAX_TDO_SIZE" "n \<le> 16" "unat (ir_shift_size a) \<le> 0x400"
  shows "length (ir_command a n garbage) = MAX_TDO_SIZE"
proof -
  have "n * unat (ir_shift_size a) \<le> 16 * 1024" using assms(2,3) by (intro mult_le_mono) simp_all
  then have "ir_bytes a n \<le> MAX_TDO_SIZE" by (simp add: ir_bytes_def)
  moreover have "length ((shift_left k ^^ s) buf) = length buf" for k s buf by (induction s) simp_all
  then have "length ((set_instruction a n ^^ k) buf) = length buf" for k buf by (induction k) (simp_all add: set_instruction_def)
  ultimately show ?thesis using assms(1) by (simp add: ir_command_def)
qed

lemma matches_cong:
  assumes "take (4 * n + 8) xs = take (4 * n + 8) ys" "4 * n + 8 \<le> length xs" "4 * n + 8 \<le> length ys"
  shows "matches n xs = matches n ys"
  using bits_equal_iff [OF assms(2,3)] assms(1) by (intro ext) (simp add: matches_def algebra_simps)

text \<open>
  C13. Looking for devices, on the pins: the program moves to Shift-DR, drives the pattern and what lies on the
  stack behind it for 576 clocks, TMS high on the last one, and takes the devices from exactly the 576 bits it
  samples. Neither the handler nor the driver refuses a step.
\<close>

theorem discovery_on_the_pins:
  assumes "test_ready dev s0 h aj" "test_port env = aspeed_port dev slack" "\<And>d. length (fst (test_junk env d)) = 3000"
    and "length (tap_data_pattern a) = 8" "64 \<le> length (behind_pattern env)"
  shows "\<exists>tdo h' aj' bs before after.
    uncore_discovery env a u (h, aj) = Some (fst (read_codes a tdo u), snd (read_codes a tdo u), h', aj') \<and>
    test_ready dev s0 h' aj' \<and> length tdo = MAX_TDO_SIZE \<and> length bs = 576 \<and> (\<forall>i < 576. bbit tdo i = bs ! i) \<and>
    sampled (tdos aj) [bs] (tdos aj') \<and>
    clocks aj' = before @ scan_trace True (bbit (tap_data_pattern a @ behind_pattern env)) 576 @ after"
  using tst.discovery_runs [OF assms(2) assms(1) [unfolded test_ready_idle] assms(4,5,3), of u] unfolding test_ready_idle .

text \<open>
  C12. The verdict of the test, on the pins. Without failures to count it succeeds exactly when all scans it has
  sampled show the codes found before and the pattern, and then there are as many as were asked for; it stops
  at the first wrong scan. With failures to count it always runs to the end, succeeds, and reports exactly the
  number of wrong scans. In particular it ends and no call is refused.
\<close>

theorem test_verdict:
  assumes "test_ready dev s0 h aj" "test_port env = aspeed_port dev slack" "\<And>d. length (fst (test_junk env d)) = 3000"
    and "64 \<le> length (behind_pattern env)" "length (ir_garbage env) = MAX_TDO_SIZE" "\<And>d. continue_loop env d"
    and "plain a" "\<not> loop_forever a" "1 \<le> unat (ir_shift_size a)" "unat (ir_shift_size a) \<le> 0x400"
    and "0 \<le> numIterations a" "numIterations a < 2147483648"
    and "1 \<le> numUncores u" "numUncores u \<le> 16" "length (idcode u) = 64"
  shows "\<exists>r y bss. jtag_test env u a (h, aj) = Some (Some (r, y)) \<and> sampled (tdos aj) bss (tdos (t_dev y)) \<and>
    list_all (\<lambda>bs. length bs = 32 * numUncores u + 64) bss \<and>
    verdict_of (count_mode a) (nat (numIterations a)) (matches (numUncores u) (take (4 * numUncores u) (idcode u) @ tap_data_pattern a))
      bss r (failures y)"
proof -
  let ?n = "numUncores u" and ?p = "tap_data_pattern a"
  have p: "length ?p = 8" "\<not> random_mode a" using assms(7) by (simp_all add: plain_def)
  define c where "c = take (4 * ?n) (idcode u) @ replicate (72 - 4 * ?n) 0"
  define c' where "c' = take (4 * ?n) (idcode u) @ ?p @ replicate (64 - 4 * ?n) 0"
  have codes: "compare_codes u = (True, c)"
    using assms(13-15) by (simp add: compare_codes_def memcpy_s_def c_def)
  have pat: "compare_pattern ?n ?p c = (True, c')"
    using assms(13-15) p(1) memcpy_at_ok [of 8 "72 - 4 * ?n" ?p c "4 * ?n"] by (simp add: compare_pattern_def c_def c'_def)
  define x where "x = \<lparr>t_handler = h, t_dev = aj, t_args = a, compare_data = c', iterations = 0, total_bits = 0, failures = 0, shown = []\<rparr>"
  have t: "jtag_test env u a (h, aj) = test_loop env ?n (ir_command a ?n (ir_garbage env)) x"
    using p(2) by (simp add: jtag_test_def codes pat x_def Let_def)
  have c': "length c' = 72" using assms(14,15) p(1) by (simp add: c'_def)
  have n: "unat (word_of_int (numIterations a) :: u32) = nat (numIterations a)"
    using assms(11,12) by (simp add: unsigned_of_int take_bit_int_eq_self)
  have m: "matches ?n c' = matches ?n (take (4 * ?n) (idcode u) @ ?p)"
    using assms(14,15) p(1) c' by (intro matches_cong) (simp_all add: c'_def)
  show ?thesis
    unfolding t using tst.loop_runs [OF assms(2,4,3,6,13,14) length_ir_command [OF assms(5,14,10)], where x = x and ?s0.0 = s0] assms(1,7-10) c'
    by (simp add: x_def test_ready_idle n m) blast
qed

section \<open>Instances\<close>

definition demo_pattern :: "u8 list" where
  "demo_pattern = pattern_bytes 0xdeadbeefbad4f00d"

definition demo_args :: jtag_test_args where
  "demo_args = (default_test_args demo_pattern)"

definition demo_env :: "aspeed_jtag test_env" where
  "demo_env = \<lparr>test_port = aspeed_port (-1) (\<lambda>_. (1, 2, 3)), test_junk = (\<lambda>_. (replicate 3000 9, 7)),
     behind_pattern = replicate 64 9, ir_garbage = replicate 2048 5, continue_loop = (\<lambda>_. True), random_pattern = (\<lambda>_. [])\<rparr>"

lemma demo_pattern_bytes: "demo_pattern = [0x0d, 0xf0, 0xd4, 0xba, 0xef, 0xbe, 0xad, 0xde]"
  unfolding demo_pattern_def by code_simp

lemma demo_env_fields [simp]:
  "test_port demo_env = aspeed_port (-1) (\<lambda>_. (1, 2, 3))" "length (fst (test_junk demo_env d)) = 3000"
  "behind_pattern demo_env = replicate 64 9" "ir_garbage demo_env = replicate 2048 5" "continue_loop demo_env d"
  by (simp_all add: demo_env_def)

lemma demo_ready: "test_ready (-1) JTAG_STATE_TLRESET fresh_handler reset_device"
proof -
  have "sw_mode fresh_handler" "JTAG_driver_handle fresh_handler = -1" "shift_padding (active fresh_handler) = no_padding"
    "JTAG_get_tap_state fresh_handler = JTAG_STATE_TLRESET"
    by (simp_all add: fresh_handler_def JTAGHandler_def initialize_jtag_chains_def active_def JTAG_get_tap_state_def upt_conv_Cons)
  moreover have "\<not> hw_mode reset_device" by (simp add: hw_mode_def reset_device_def)
  ultimately show ?thesis by (simp add: test_ready_def unpadded_def)
qed

theorem every_device_gets_the_instruction_witness:
  "bbit (ir_command demo_args 3 (replicate 2048 5)) 23 \<and> \<not> bbit (ir_command demo_args 3 (replicate 2048 5)) 24"
proof -
  have a: "length (replicate 2048 5 :: u8 list) = MAX_TDO_SIZE" "(3 :: nat) \<le> 16" "8 \<le> unat (ir_shift_size demo_args)"
    "unat (ir_shift_size demo_args) \<le> 0x400" by (simp_all add: demo_args_def default_test_args_def)
  have "23 < unat (ir_shift_size demo_args) * 3" "24 < unat (ir_shift_size demo_args) * 3"
    by (simp_all add: demo_args_def default_test_args_def)
  from every_device_gets_the_instruction [OF a this(1)] every_device_gets_the_instruction [OF a this(2)] show ?thesis
    by (simp add: demo_args_def default_test_args_def)
qed

lemma bbit_append: "i < 8 * length xs \<Longrightarrow> bbit (xs @ ys) i = bbit xs i"
  by (simp add: bbit_def nth_append less_mult_imp_div_less)

theorem devices_are_found_witness:
  "read_codes demo_args ([0x13, 0xB0, 0x7B, 0x0E] @ demo_pattern @ replicate 2036 0) \<lparr>idcode = replicate 64 0, numUncores = 0\<rparr> =
     (ST_OK, \<lparr>idcode = [0x13, 0xB0, 0x7B, 0x0E] @ replicate 60 0, numUncores = 1\<rparr>)"
proof -
  let ?codes = "[[0x13, 0xB0, 0x7B, 0x0E]] :: u8 list list"
  have p: "tap_data_pattern demo_args = demo_pattern" by (simp add: demo_args_def default_test_args_def)
  have l: "length demo_pattern = 8" by (simp add: demo_pattern_bytes)
  have s: "shows_chain ?codes (tap_data_pattern demo_args) ((concat ?codes @ demo_pattern) @ replicate 2036 0)"
    unfolding shows_chain_def p using l by (intro allI impI bbit_append) simp
  have u: "unmistakable ?codes (tap_data_pattern demo_args)"
    unfolding unmistakable_def p demo_pattern_bytes
  proof (intro allI impI)
    fix i assume "i < 4 * length ?codes"
    then consider "i = 0" | "i = 1" | "i = 2" | "i = 3" by force
    then show "take 4 (drop i (concat ?codes @ [0x0d, 0xf0, 0xd4, 0xba, 0xef, 0xbe, 0xad, 0xde])) \<noteq>
        take 4 [0x0d, 0xf0, 0xd4, 0xba, 0xef, 0xbe, 0xad, 0xde]" by cases simp_all
  qed
  from devices_are_found [OF s u, of "\<lparr>idcode = replicate 64 0, numUncores = 0\<rparr>"] show ?thesis by (simp add: p l)
qed

theorem discovery_on_the_pins_witness:
  "\<exists>r bs h' aj'. uncore_discovery demo_env demo_args \<lparr>idcode = replicate 64 0, numUncores = 0\<rparr> (fresh_handler, reset_device) =
     Some (fst r, snd r, h', aj') \<and> length bs = 576 \<and> sampled [] [bs] (tdos aj')"
proof -
  have "length (tap_data_pattern demo_args) = 8" by (simp add: demo_args_def default_test_args_def demo_pattern_bytes)
  from discovery_on_the_pins [OF demo_ready demo_env_fields(1,2) this, of "\<lparr>idcode = replicate 64 0, numUncores = 0\<rparr>"]
  show ?thesis by (auto simp del: sampled.simps)
qed

theorem test_verdict_witness:
  "\<exists>r y bss. jtag_test demo_env \<lparr>idcode = replicate 64 3, numUncores = 2\<rparr> (demo_args\<lparr>numIterations := 5, count_mode := True\<rparr>)
     (fresh_handler, reset_device) = Some (Some (r, y)) \<and> r \<and> length bss = 5 \<and> sampled [] bss (tdos (t_dev y))"
proof -
  let ?a = "demo_args\<lparr>numIterations := 5, count_mode := True\<rparr>" and ?u = "\<lparr>idcode = replicate 64 (3 :: u8), numUncores = 2\<rparr>"
  have "plain ?a" "\<not> loop_forever ?a" "1 \<le> unat (ir_shift_size ?a)" "unat (ir_shift_size ?a) \<le> 0x400"
    "0 \<le> numIterations ?a" "numIterations ?a < 2147483648"
    by (simp_all add: plain_def demo_args_def default_test_args_def demo_pattern_bytes)
  from test_verdict [OF demo_ready demo_env_fields(1,2) _ _ demo_env_fields(5) this, of ?u] show ?thesis
    by (auto simp: verdict_of_def simp del: sampled.simps)
qed


end
