(* ===== verification/Checksum.thy ===== *)
theory Checksum
  imports Prelude
begin

text \<open>
  The library \<^verbatim>\<open>libchecksum-src\<close>: the byte sum of \<^verbatim>\<open>module100.c\<close>, the 8-bit code of \<^verbatim>\<open>crc8.c\<close> and the
  32-bit code of \<^verbatim>\<open>crc32.c\<close>, with their tables. The specification of both codes is the shift register
  that takes one bit of the message after the other; the tables are compared with it entry by entry.
  A buffer is the list of the bytes that may be read from it, and a read behind it is
  \<^const>\<open>None\<close>.
\<close>

section \<open>The sum of the bytes\<close>

fun sum_loop :: "u8 \<Rightarrow> u8 list \<Rightarrow> nat \<Rightarrow> u8 option" where
  "sum_loop s Buffer 0 = Some s"
| "sum_loop s [] (Suc Size) = None"
| "sum_loop s (b # Buffer) (Suc Size) = sum_loop (s + b) Buffer Size"

definition CalculateModule100 :: "u8 list \<Rightarrow> nat \<Rightarrow> u8 option" where
  "CalculateModule100 Buffer Size = (case sum_loop 0 Buffer Size of
     None \<Rightarrow> None
   | Some s \<Rightarrow> Some (NOT s + 1))"

definition ValidateModule100 :: "u8 list \<Rightarrow> nat \<Rightarrow> u8 option" where
  "ValidateModule100 Buffer Size = sum_loop 0 Buffer Size"

lemma funpow_8: "(f ^^ 8) x = f (f (f (f (f (f (f (f x)))))))"
  by (simp add: eval_nat_numeral)

lemma sum_loop_eq: "n \<le> length bs \<Longrightarrow> sum_loop s bs n = Some (s + sum_list (take n bs))"
  by (induction s bs n rule: sum_loop.induct) (simp_all add: add.assoc)

section \<open>The 8-bit code\<close>

text \<open>The table \<^verbatim>\<open>crctable\<close> of \<^verbatim>\<open>crc8.h\<close>.\<close>

definition crctable :: "u8 list" where
  "crctable = [
    0x00, 0x07, 0x0E, 0x09, 0x1C, 0x1B, 0x12, 0x15, 0x38, 0x3F, 0x36, 0x31, 0x24, 0x23, 0x2A, 0x2D,
    0x70, 0x77, 0x7E, 0x79, 0x6C, 0x6B, 0x62, 0x65, 0x48, 0x4F, 0x46, 0x41, 0x54, 0x53, 0x5A, 0x5D,
    0xE0, 0xE7, 0xEE, 0xE9, 0xFC, 0xFB, 0xF2, 0xF5, 0xD8, 0xDF, 0xD6, 0xD1, 0xC4, 0xC3, 0xCA, 0xCD,
    0x90, 0x97, 0x9E, 0x99, 0x8C, 0x8B, 0x82, 0x85, 0xA8, 0xAF, 0xA6, 0xA1, 0xB4, 0xB3, 0xBA, 0xBD,
    0xC7, 0xC0, 0xC9, 0xCE, 0xDB, 0xDC, 0xD5, 0xD2, 0xFF, 0xF8, 0xF1, 0xF6, 0xE3, 0xE4, 0xED, 0xEA,
    0xB7, 0xB0, 0xB9, 0xBE, 0xAB, 0xAC, 0xA5, 0xA2, 0x8F, 0x88, 0x81, 0x86, 0x93, 0x94, 0x9D, 0x9A,
    0x27, 0x20, 0x29, 0x2E, 0x3B, 0x3C, 0x35, 0x32, 0x1F, 0x18, 0x11, 0x16, 0x03, 0x04, 0x0D, 0x0A,
    0x57, 0x50, 0x59, 0x5E, 0x4B, 0x4C, 0x45, 0x42, 0x6F, 0x68, 0x61, 0x66, 0x73, 0x74, 0x7D, 0x7A,
    0x89, 0x8E, 0x87, 0x80, 0x95, 0x92, 0x9B, 0x9C, 0xB1, 0xB6, 0xBF, 0xB8, 0xAD, 0xAA, 0xA3, 0xA4,
    0xF9, 0xFE, 0xF7, 0xF0, 0xE5, 0xE2, 0xEB, 0xEC, 0xC1, 0xC6, 0xCF, 0xC8, 0xDD, 0xDA, 0xD3, 0xD4,
    0x69, 0x6E, 0x67, 0x60, 0x75, 0x72, 0x7B, 0x7C, 0x51, 0x56, 0x5F, 0x58, 0x4D, 0x4A, 0x43, 0x44,
    0x19, 0x1E, 0x17, 0x10, 0x05, 0x02, 0x0B, 0x0C, 0x21, 0x26, 0x2F, 0x28, 0x3D, 0x3A, 0x33, 0x34,
    0x4E, 0x49, 0x40, 0x47, 0x52, 0x55, 0x5C, 0x5B, 0x76, 0x71, 0x78, 0x7F, 0x6A, 0x6D, 0x64, 0x63,
    0x3E, 0x39, 0x30, 0x37, 0x22, 0x25, 0x2C, 0x2B, 0x06, 0x01, 0x08, 0x0F, 0x1A, 0x1D, 0x14, 0x13,
    0xAE, 0xA9, 0xA0, 0xA7, 0xB2, 0xB5, 0xBC, 0xBB, 0x96, 0x91, 0x98, 0x9F, 0x8A, 0x8D, 0x84, 0x83,
    0xDE, 0xD9, 0xD0, 0xD7, 0xC2, 0xC5, 0xCC, 0xCB, 0xE6, 0xE1, 0xE8, 0xEF, 0xFA, 0xFD, 0xF4, 0xF3]"

definition CRC8_InitChecksum :: u8 where
  "CRC8_InitChecksum = 0x0000"

text \<open>
  The loop counts \<^verbatim>\<open>length\<close> down to 0; a negative one is counted through the whole range of an \<^verbatim>\<open>int\<close>,
  so that the reads leave the buffer.
\<close>

fun CRC8_UpdateChecksum :: "u8 \<Rightarrow> u8 list \<Rightarrow> int \<Rightarrow> u8 option" where
  "CRC8_UpdateChecksum crc [] len = (if len = 0 then Some crc else None)"
| "CRC8_UpdateChecksum crc (b # buf) len = (if len = 0 then Some crc
     else CRC8_UpdateChecksum (crctable ! unat (crc XOR b)) buf (len - 1))"

definition CRC8_FinishChecksum :: "u8 \<Rightarrow> u8" where
  "CRC8_FinishChecksum crcvalue = crcvalue XOR 0x0000"

definition CalculateCRC8 :: "u8 list \<Rightarrow> int \<Rightarrow> u8 option" where
  "CalculateCRC8 data len = (case CRC8_UpdateChecksum CRC8_InitChecksum data len of
     None \<Rightarrow> None
   | Some crc \<Rightarrow> Some (CRC8_FinishChecksum crc))"

text \<open>The shift register of the polynomial x^8 + x^2 + x + 1, by bits and by bytes.\<close>

definition crc8_bit :: "u8 \<Rightarrow> u8" where
  "crc8_bit c = (if bit c 7 then push_bit 1 c XOR 0x07 else push_bit 1 c)"

definition crc8_byte :: "u8 \<Rightarrow> u8 \<Rightarrow> u8" where
  "crc8_byte b c = (crc8_bit ^^ 8) (c XOR b)"

definition crc8_spec :: "u8 list \<Rightarrow> u8" where
  "crc8_spec bs = fold crc8_byte bs 0"

definition nat8 :: "nat \<Rightarrow> nat" where
  "nat8 n = (if n < 128 then 2 * n else (2 * n - 256) XOR 7)"

lemma nat8_simps:
  "nat8 0 = 0" "nat8 (Suc 0) = 2"
  "nat8 (numeral k) = (if numeral k < (128 :: nat) then 2 * numeral k else (2 * numeral k - 256) XOR 7)"
  by (simp_all add: nat8_def)

lemma bit_top8: "bit (c :: u8) 7 \<longleftrightarrow> 128 \<le> unat c"
proof -
  have "unat c < 256" using unsigned_less [of c] by simp
  then have "unat c div 128 = 0 \<or> unat c div 128 = 1" by linarith
  moreover have "bit c 7 \<longleftrightarrow> bit (unat c) 7" by (simp add: bit_unsigned_iff)
  then have "bit c 7 \<longleftrightarrow> odd (unat c div 128)" by (simp add: bit_iff_odd)
  ultimately show ?thesis by (auto simp: div_eq_0_iff)
qed

lemma unat_crc8_bit: "unat (crc8_bit c) = nat8 (unat c)"
proof -
  have lt: "unat c < 256" using unsigned_less [of c] by simp
  have "unat (2 * c) = (2 * unat c) mod 256"
    by (simp add: unat_word_ariths)
  then have p: "unat (push_bit 1 c) = (2 * unat c) mod 256"
    by (simp add: push_bit_eq_mult mult.commute [of c])
  have m: "(2 * unat c) mod 256 = (if unat c < 128 then 2 * unat c else 2 * unat c - 256)"
    using lt by (simp add: mod_if)
  show ?thesis
    by (simp add: crc8_bit_def bit_top8 unsigned_xor_eq p m nat8_def not_less del: push_bit_of_Suc_0 push_bit_Suc push_bit_numeral One_nat_def)
qed

lemma crctable_nat: "map unat crctable
    = map (\<lambda>i. nat8 (nat8 (nat8 (nat8 (nat8 (nat8 (nat8 (nat8 i)))))))) [0..<256]"
  by (simp add: crctable_def nat8_simps upt_from_0 numeral_2_eq_2 [symmetric] numeral_3_eq_3 [symmetric])

lemma length_crctable: "length crctable = 256"
  using arg_cong [OF crctable_nat, of length] by simp

lemma crctable_entry: "crctable ! unat c = (crc8_bit ^^ 8) c"
proof -
  have "unat c < 256" using unsigned_less [of c] by simp
  then have "unat (crctable ! unat c) = map unat crctable ! unat c"
    by (simp add: length_crctable)
  also have "\<dots> = unat ((crc8_bit ^^ 8) c)"
    using \<open>unat c < 256\<close> by (simp add: crctable_nat funpow_8 unat_crc8_bit del: upt_rec_numeral)
  finally show ?thesis by (simp only: word_unat_eq_iff)
qed

lemma CRC8_UpdateChecksum_eq:
  "n \<le> length bs \<Longrightarrow> CRC8_UpdateChecksum c bs (int n) = Some (fold crc8_byte (take n bs) c)"
proof (induction bs arbitrary: c n)
  case (Cons b bs)
  then show ?case
    by (cases n) (simp_all add: crctable_entry crc8_byte_def)
qed simp

lemma CalculateCRC8_eq: "n \<le> length bs \<Longrightarrow> CalculateCRC8 bs (int n) = Some (crc8_spec (take n bs))"
  by (simp add: CalculateCRC8_def CRC8_UpdateChecksum_eq CRC8_InitChecksum_def CRC8_FinishChecksum_def
      crc8_spec_def)

lemma CalculateCRC8_negative: "len < 0 \<Longrightarrow> CalculateCRC8 data len = None"
proof -
  have "len < 0 \<Longrightarrow> CRC8_UpdateChecksum c bs len = None" for c bs
    by (induction bs arbitrary: c len) auto
  then show "len < 0 \<Longrightarrow> ?thesis" by (simp add: CalculateCRC8_def)
qed

lemma inj_crc8_bit: "inj crc8_bit"
proof (rule injI)
  fix x y :: u8
  assume eq: "crc8_bit x = crc8_bit y"
  have low: "bit (crc8_bit z) 0 = bit z 7" for z
    by (simp add: crc8_bit_def bit_0 even_xor_iff)
  have "bit x 7 = bit y 7" using low [of x] low [of y] eq by simp
  with eq have p: "push_bit 1 x = push_bit 1 y"
    by (auto simp: crc8_bit_def xor_same_iff split: if_splits)
  show "x = y"
  proof (rule bit_word_eqI)
    fix n assume "n < LENGTH(8)"
    then consider "n = 7" | "n < 7" by fastforce
    then show "bit x n = bit y n"
    proof cases
      case 2
      then show ?thesis
        using arg_cong [OF p, of "\<lambda>w. bit w (Suc n)"] unfolding bit_push_bit_iff by simp
    qed (use \<open>bit x 7 = bit y 7\<close> in simp)
  qed
qed

lemma inj_crc8_bits: "inj (crc8_bit ^^ n)"
  by (induction n) (simp_all add: inj_compose [unfolded comp_def] inj_crc8_bit comp_def)

lemma crc8_byte_eq_iff [simp]: "crc8_byte b c = crc8_byte b' c \<longleftrightarrow> b = b'"
  "crc8_byte b c = crc8_byte b c' \<longleftrightarrow> c = c'"
  by (simp_all add: crc8_byte_def inj_eq [OF inj_crc8_bits] xor_same_iff)

lemma fold_crc8_byte_eq_iff: "fold crc8_byte s c = fold crc8_byte s c' \<longleftrightarrow> c = c'"
  by (induction s arbitrary: c c') simp_all

section \<open>The 32-bit code\<close>

text \<open>The table \<^verbatim>\<open>CrcLookUpTable\<close> of \<^verbatim>\<open>crc32.h\<close>.\<close>

definition CrcLookUpTable :: "u32 list" where
  "CrcLookUpTable = [
    0x00000000, 0x77073096, 0xEE0E612C, 0x990951BA, 0x076DC419, 0x706AF48F, 0xE963A535, 0x9E6495A3,
    0x0EDB8832, 0x79DCB8A4, 0xE0D5E91E, 0x97D2D988, 0x09B64C2B, 0x7EB17CBD, 0xE7B82D07, 0x90BF1D91,
    0x1DB71064, 0x6AB020F2, 0xF3B97148, 0x84BE41DE, 0x1ADAD47D, 0x6DDDE4EB, 0xF4D4B551, 0x83D385C7,
    0x136C9856, 0x646BA8C0, 0xFD62F97A, 0x8A65C9EC, 0x14015C4F, 0x63066CD9, 0xFA0F3D63, 0x8D080DF5,
    0x3B6E20C8, 0x4C69105E, 0xD56041E4, 0xA2677172, 0x3C03E4D1, 0x4B04D447, 0xD20D85FD, 0xA50AB56B,
    0x35B5A8FA, 0x42B2986C, 0xDBBBC9D6, 0xACBCF940, 0x32D86CE3, 0x45DF5C75, 0xDCD60DCF, 0xABD13D59,
    0x26D930AC, 0x51DE003A, 0xC8D75180, 0xBFD06116, 0x21B4F4B5, 0x56B3C423, 0xCFBA9599, 0xB8BDA50F,
    0x2802B89E, 0x5F058808, 0xC60CD9B2, 0xB10BE924, 0x2F6F7C87, 0x58684C11, 0xC1611DAB, 0xB6662D3D,
    0x76DC4190, 0x01DB7106, 0x98D220BC, 0xEFD5102A, 0x71B18589, 0x06B6B51F, 0x9FBFE4A5, 0xE8B8D433,
    0x7807C9A2, 0x0F00F934, 0x9609A88E, 0xE10E9818, 0x7F6A0DBB, 0x086D3D2D, 0x91646C97, 0xE6635C01,
    0x6B6B51F4, 0x1C6C6162, 0x856530D8, 0xF262004E, 0x6C0695ED, 0x1B01A57B, 0x8208F4C1, 0xF50FC457,
    0x65B0D9C6, 0x12B7E950, 0x8BBEB8EA, 0xFCB9887C, 0x62DD1DDF, 0x15DA2D49, 0x8CD37CF3, 0xFBD44C65,
    0x4DB26158, 0x3AB551CE, 0xA3BC0074, 0xD4BB30E2, 0x4ADFA541, 0x3DD895D7, 0xA4D1C46D, 0xD3D6F4FB,
    0x4369E96A, 0x346ED9FC, 0xAD678846, 0xDA60B8D0, 0x44042D73, 0x33031DE5, 0xAA0A4C5F, 0xDD0D7CC9,
    0x5005713C, 0x270241AA, 0xBE0B1010, 0xC90C2086, 0x5768B525, 0x206F85B3, 0xB966D409, 0xCE61E49F,
    0x5EDEF90E, 0x29D9C998, 0xB0D09822, 0xC7D7A8B4, 0x59B33D17, 0x2EB40D81, 0xB7BD5C3B, 0xC0BA6CAD,
    0xEDB88320, 0x9ABFB3B6, 0x03B6E20C, 0x74B1D29A, 0xEAD54739, 0x9DD277AF, 0x04DB2615, 0x73DC1683,
    0xE3630B12, 0x94643B84, 0x0D6D6A3E, 0x7A6A5AA8, 0xE40ECF0B, 0x9309FF9D, 0x0A00AE27, 0x7D079EB1,
    0xF00F9344, 0x8708A3D2, 0x1E01F268, 0x6906C2FE, 0xF762575D, 0x806567CB, 0x196C3671, 0x6E6B06E7,
    0xFED41B76, 0x89D32BE0, 0x10DA7A5A, 0x67DD4ACC, 0xF9B9DF6F, 0x8EBEEFF9, 0x17B7BE43, 0x60B08ED5,
    0xD6D6A3E8, 0xA1D1937E, 0x38D8C2C4, 0x4FDFF252, 0xD1BB67F1, 0xA6BC5767, 0x3FB506DD, 0x48B2364B,
    0xD80D2BDA, 0xAF0A1B4C, 0x36034AF6, 0x41047A60, 0xDF60EFC3, 0xA867DF55, 0x316E8EEF, 0x4669BE79,
    0xCB61B38C, 0xBC66831A, 0x256FD2A0, 0x5268E236, 0xCC0C7795, 0xBB0B4703, 0x220216B9, 0x5505262F,
    0xC5BA3BBE, 0xB2BD0B28, 0x2BB45A92, 0x5CB36A04, 0xC2D7FFA7, 0xB5D0CF31, 0x2CD99E8B, 0x5BDEAE1D,
    0x9B64C2B0, 0xEC63F226, 0x756AA39C, 0x026D930A, 0x9C0906A9, 0xEB0E363F, 0x72076785, 0x05005713,
    0x95BF4A82, 0xE2B87A14, 0x7BB12BAE, 0x0CB61B38, 0x92D28E9B, 0xE5D5BE0D, 0x7CDCEFB7, 0x0BDBDF21,
    0x86D3D2D4, 0xF1D4E242, 0x68DDB3F8, 0x1FDA836E, 0x81BE16CD, 0xF6B9265B, 0x6FB077E1, 0x18B74777,
    0x88085AE6, 0xFF0F6A70, 0x66063BCA, 0x11010B5C, 0x8F659EFF, 0xF862AE69, 0x616BFFD3, 0x166CCF45,
    0xA00AE278, 0xD70DD2EE, 0x4E048354, 0x3903B3C2, 0xA7672661, 0xD06016F7, 0x4969474D, 0x3E6E77DB,
    0xAED16A4A, 0xD9D65ADC, 0x40DF0B66, 0x37D83BF0, 0xA9BCAE53, 0xDEBB9EC5, 0x47B2CF7F, 0x30B5FFE9,
    0xBDBDF21C, 0xCABAC28A, 0x53B39330, 0x24B4A3A6, 0xBAD03605, 0xCDD70693, 0x54DE5729, 0x23D967BF,
    0xB3667A2E, 0xC4614AB8, 0x5D681B02, 0x2A6F2B94, 0xB40BBE37, 0xC30C8EA1, 0x5A05DF1B, 0x2D02EF8D]"

text \<open>
  The buffer at once. Its register is an \<^verbatim>\<open>unsigned long\<close>, which has 32 or 64 bits: the type
  variable is its width, and the entries of the table are widened to it.
\<close>

function crc32_loop :: "u8 list \<Rightarrow> nat \<Rightarrow> nat \<Rightarrow> 'l :: len word \<Rightarrow> 'l word option" where
  "crc32_loop Buffer Size i crc32 = (if i < Size
     then if i < length Buffer
       then crc32_loop Buffer Size (Suc i) (drop_bit 8 crc32
         XOR ucast (CrcLookUpTable ! unat (ucast (Buffer ! i) XOR (crc32 AND 0x000000FF))))
       else None
     else Some crc32)"
  by pat_completeness auto
termination by (relation "measure (\<lambda>(Buffer, Size, i, crc32). Size - i)") auto

declare crc32_loop.simps [simp del]

definition CalculateCRC32 :: "u8 list \<Rightarrow> nat \<Rightarrow> 'l :: len word option" where
  "CalculateCRC32 Buffer Size = (case crc32_loop Buffer Size 0 0xFFFFFFFF of
     None \<Rightarrow> None
   | Some crc32 \<Rightarrow> Some (NOT crc32))"

text \<open>The same in pieces.\<close>

definition BeginCRC32 :: u32 where
  "BeginCRC32 = 0xFFFFFFFF"

definition DoCRC32 :: "u8 \<Rightarrow> u32 \<Rightarrow> u32" where
  "DoCRC32 Data crc32 = drop_bit 8 crc32
     XOR CrcLookUpTable ! unat (ucast Data XOR (crc32 AND 0x000000FF))"

definition EndCRC32 :: "u32 \<Rightarrow> u32" where
  "EndCRC32 crc32 = NOT crc32"

text \<open>The shift register of the Ethernet polynomial, the lowest bit first.\<close>

definition crc32_bit :: "u32 \<Rightarrow> u32" where
  "crc32_bit c = (if bit c 0 then drop_bit 1 c XOR 0xEDB88320 else drop_bit 1 c)"

definition crc32_byte :: "u8 \<Rightarrow> u32 \<Rightarrow> u32" where
  "crc32_byte b c = (crc32_bit ^^ 8) (c XOR ucast b)"

definition crc32_spec :: "u8 list \<Rightarrow> u32" where
  "crc32_spec bs = NOT (fold crc32_byte bs 0xFFFFFFFF)"

definition nat32 :: "nat \<Rightarrow> nat" where
  "nat32 n = (if even n then n div 2 else n div 2 XOR 0xEDB88320)"

lemma nat32_simps:
  "nat32 0 = 0" "nat32 (Suc 0) = 0xEDB88320" "nat32 1 = 0xEDB88320"
  "nat32 (numeral (num.Bit0 k)) = numeral k" "nat32 (numeral (num.Bit1 k)) = numeral k XOR 0xEDB88320"
  by (simp_all add: nat32_def)

lemma unat_crc32_bit: "unat (crc32_bit c) = nat32 (unat c)"
proof -
  have d: "unat (c div 2) = unat c div 2" by (simp add: unat_div)
  have "bit c 0 \<longleftrightarrow> bit (unat c) 0" by (simp add: bit_unsigned_iff del: bit_0)
  then have "bit c 0 \<longleftrightarrow> odd (unat c)" by (simp add: bit_0)
  then show ?thesis
    by (simp add: crc32_bit_def nat32_def unsigned_xor_eq d drop_bit_Suc)
qed

lemma CrcLookUpTable_nat: "map unat CrcLookUpTable
    = map (\<lambda>i. nat32 (nat32 (nat32 (nat32 (nat32 (nat32 (nat32 (nat32 i)))))))) [0..<256]"
  by (simp add: CrcLookUpTable_def nat32_simps upt_from_0)

lemma length_CrcLookUpTable: "length CrcLookUpTable = 256"
  using arg_cong [OF CrcLookUpTable_nat, of length] by simp

lemma CrcLookUpTable_entry:
  assumes "unat c < 256"
  shows "CrcLookUpTable ! unat c = (crc32_bit ^^ 8) c"
proof -
  have "unat (CrcLookUpTable ! unat c) = map unat CrcLookUpTable ! unat c"
    using assms by (simp add: length_CrcLookUpTable)
  also have "\<dots> = unat ((crc32_bit ^^ 8) c)"
    using assms by (simp add: CrcLookUpTable_nat funpow_8 unat_crc32_bit del: upt_rec_numeral)
  finally show ?thesis by (simp only: word_unat_eq_iff)
qed

text \<open>The register is linear, so that the byte that leaves it can be looked up.\<close>

lemma crc32_bit_xor: "crc32_bit (x XOR y) = crc32_bit x XOR crc32_bit y"
  by (rule bit_word_eqI) (auto simp: crc32_bit_def bit_xor_iff bit_drop_bit_eq)

lemma crc32_bits_xor: "(crc32_bit ^^ n) (x XOR y) = (crc32_bit ^^ n) x XOR (crc32_bit ^^ n) y"
  by (induction n) (simp_all add: crc32_bit_xor)

lemma crc32_bits_shift: "take_bit n x = 0 \<Longrightarrow> (crc32_bit ^^ n) x = drop_bit n x"
proof (induction n arbitrary: x)
  case (Suc n)
  have low: "\<not> bit x k" if "k \<le> n" for k
    using arg_cong [OF Suc.prems, of "\<lambda>w. bit w k"] that by (simp add: bit_take_bit_iff)
  then have "crc32_bit x = drop_bit 1 x" by (simp add: crc32_bit_def)
  moreover have "take_bit n (drop_bit 1 x) = 0"
    using low by (intro bit_word_eqI) (auto simp: bit_take_bit_iff bit_drop_bit_eq)
  ultimately show ?case
    using Suc.IH [of "drop_bit 1 x"] by (simp add: funpow_swap1 drop_bit_drop_bit)
qed simp

lemma DoCRC32_eq: "DoCRC32 = crc32_byte"
proof (intro ext)
  fix b :: u8 and c :: u32
  define low where "low = ucast b XOR (c AND 0xFF)"
  have mask: "c AND 0xFF = take_bit 8 c" by (simp add: take_bit_eq_mask mask_eq_exp_minus_1)
  have "take_bit 8 low = low"
    by (rule bit_word_eqI) (auto simp: low_def mask bit_take_bit_iff bit_xor_iff bit_ucast_iff dest: bit_imp_le_length)
  then have "unat low = take_bit 8 (unat low)" by (metis unsigned_take_bit_eq)
  moreover have "take_bit 8 (unat low) < 256" using take_bit_nat_less_exp [of 8 "unat low"] by simp
  ultimately have "unat low < 256" by metis
  have split: "c XOR ucast b = low XOR push_bit 8 (drop_bit 8 c)"
    by (rule bit_word_eqI) (auto simp: low_def mask bit_take_bit_iff bit_xor_iff bit_ucast_iff bit_push_bit_iff
        bit_drop_bit_eq dest: bit_imp_le_length)
  have "take_bit 8 (push_bit 8 (drop_bit 8 c)) = 0"
    by (rule bit_word_eqI) (simp add: bit_take_bit_iff bit_push_bit_iff)
  moreover have "drop_bit 8 (push_bit 8 (drop_bit 8 c)) = drop_bit 8 c"
    by (rule bit_word_eqI) (auto simp: bit_push_bit_iff bit_drop_bit_eq dest: bit_imp_le_length)
  ultimately show "DoCRC32 b c = crc32_byte b c"
    unfolding DoCRC32_def crc32_byte_def split crc32_bits_xor
    using \<open>unat low < 256\<close>
    by (simp add: low_def [symmetric] crc32_bits_shift CrcLookUpTable_entry xor.commute)
qed

text \<open>What the wider register does to the lower half.\<close>

lemma widen_low:
  fixes b :: u8 and c :: u32
  assumes "LENGTH(32) \<le> LENGTH('l :: len)"
  shows "ucast b XOR (ucast c AND 0xFF) = (ucast (ucast b XOR (c AND 0xFF) :: u32) :: 'l word)"
proof -
  have mask: "(0xFF :: 'l word) = mask 8" "(0xFF :: u32) = mask 8" by (simp_all add: mask_eq_exp_minus_1)
  show ?thesis unfolding mask using assms
    by (intro bit_word_eqI) (auto simp: bit_xor_iff bit_and_iff bit_ucast_iff bit_mask_iff dest: bit_imp_le_length)
qed

lemma widen_high:
  fixes c t :: u32
  assumes "LENGTH(32) \<le> LENGTH('l :: len)"
  shows "drop_bit 8 (ucast c) XOR ucast t = (ucast (drop_bit 8 c XOR t) :: 'l word)"
  using assms
  by (intro bit_word_eqI) (auto simp: bit_xor_iff bit_drop_bit_eq bit_ucast_iff dest: bit_imp_le_length)

lemma widen_same:
  fixes t :: u32
  assumes "LENGTH(32) \<le> LENGTH('l :: len)"
  shows "unat (ucast t :: 'l word) = unat t"
proof -
  have "unat t < 2 ^ LENGTH(32)" by (rule unsigned_less)
  also have "\<dots> \<le> 2 ^ LENGTH('l)" using assms by (intro power_increasing) simp_all
  finally show ?thesis by (simp add: unsigned_ucast_eq take_bit_nat_eq_self)
qed

lemma crc32_loop_eq:
  fixes c :: u32
  assumes "LENGTH(32) \<le> LENGTH('l :: len)" "n \<le> length bs" "i \<le> n"
  shows "crc32_loop bs n i (ucast c :: 'l word) = Some (ucast (fold DoCRC32 (drop i (take n bs)) c))"
  using assms(2,3)
proof (induction "n - i" arbitrary: i c)
  case 0
  then show ?case by (simp add: crc32_loop.simps)
next
  case (Suc k)
  then have i: "i < n" "i < length bs" by simp_all
  have low: "ucast (bs ! i) XOR (ucast c AND 0xFF) = (ucast (ucast (bs ! i) XOR (c AND 0xFF) :: u32) :: 'l word)"
    by (rule widen_low [OF assms(1)])
  have high: "drop_bit 8 (ucast c) XOR ucast t = (ucast (drop_bit 8 c XOR t) :: 'l word)" for t :: u32
    by (rule widen_high [OF assms(1)])
  have same: "unat (ucast t :: 'l word) = unat t" for t :: u32
    by (rule widen_same [OF assms(1)])
  have "crc32_loop bs n i (ucast c :: 'l word) = crc32_loop bs n (Suc i) (ucast (DoCRC32 (bs ! i) c) :: 'l word)"
    using i by (subst crc32_loop.simps) (simp only: low high same DoCRC32_def simp_thms if_True)
  also have "\<dots> = Some (ucast (fold DoCRC32 (drop (Suc i) (take n bs)) (DoCRC32 (bs ! i) c)))"
    using Suc by (intro Suc.hyps) simp_all
  finally show ?case using i by (simp add: Cons_nth_drop_Suc [symmetric])
qed

lemma crc32_pieces: "EndCRC32 (fold DoCRC32 bs BeginCRC32) = crc32_spec bs"
  by (simp add: EndCRC32_def BeginCRC32_def DoCRC32_eq crc32_spec_def)

section \<open>What the codes promise\<close>

text \<open>A buffer that ends in its checksum passes, and the sum passes for no other last byte.\<close>

lemma sum_appended:
  "ValidateModule100 (bs @ [c]) (Suc (length bs)) = Some 0 \<longleftrightarrow> CalculateModule100 bs (length bs) = Some c"
proof -
  have "sum_list bs + c = 0 \<longleftrightarrow> NOT (sum_list bs) + 1 = c"
    by (metis add.commute add_eq_0_iff minus_eq_not_plus_1)
  then show ?thesis
    by (simp add: ValidateModule100_def CalculateModule100_def sum_loop_eq)
qed

lemma crc8_appended: "CalculateCRC8 (bs @ [crc8_spec bs]) (int (Suc (length bs))) = Some 0"
proof -
  have "(crc8_bit ^^ n) 0 = 0" for n by (induction n) (simp_all add: crc8_bit_def)
  then show ?thesis
    using CalculateCRC8_eq [of "Suc (length bs)" "bs @ [crc8_spec bs]"]
    by (simp add: crc8_spec_def crc8_byte_def)
qed

text \<open>
  C28. The 32-bit code by the table, at once and in pieces, is that of the shift register; when
  \<^verbatim>\<open>unsigned long\<close> has more than 32 bits, the result of the code at once has ones above them.
\<close>

theorem crc32_is_the_register:
  assumes "32 \<le> LENGTH('l :: len)" "Size \<le> length Buffer"
  shows "CalculateCRC32 Buffer Size = Some (NOT (ucast (NOT (crc32_spec (take Size Buffer)))) :: 'l word)
    \<and> EndCRC32 (fold DoCRC32 (take Size Buffer) BeginCRC32) = crc32_spec (take Size Buffer)"
proof (rule conjI)
  have "(0xFFFFFFFF :: 'l word) = ucast (0xFFFFFFFF :: u32)" by simp
  then show "CalculateCRC32 Buffer Size = Some (NOT (ucast (NOT (crc32_spec (take Size Buffer)))) :: 'l word)"
    using assms crc32_loop_eq [of Size Buffer 0 "0xFFFFFFFF", where 'l = 'l]
    by (simp add: CalculateCRC32_def crc32_spec_def DoCRC32_eq)
qed (rule crc32_pieces)

lemma crc32_is_the_register_witness:
  "CalculateCRC32 [0x31, 0x32, 0x33, 0x34, 0x35, 0x36, 0x37, 0x38, 0x39] 9 = Some (0xCBF43926 :: 32 word)
   \<and> CalculateCRC32 [0x31, 0x32, 0x33, 0x34, 0x35, 0x36, 0x37, 0x38, 0x39] 9 = Some (0xFFFFFFFFCBF43926 :: 64 word)"
proof -
  let ?b = "[0x31, 0x32, 0x33, 0x34, 0x35, 0x36, 0x37, 0x38, 0x39] :: u8 list"
  have c: "crc32_spec ?b = 0xCBF43926"
    by (simp add: crc32_pieces [symmetric] EndCRC32_def BeginCRC32_def DoCRC32_def CrcLookUpTable_def)
  show ?thesis
    using crc32_is_the_register [of 9 ?b, where 'l = 32] crc32_is_the_register [of 9 ?b, where 'l = 64]
    by (simp add: c)
qed

text \<open>
  A single changed byte is noticed: the 8-bit code, which is that of its shift register, changes, and
  a buffer that passed the sum fails it.
\<close>

theorem changed_byte_is_noticed:
  assumes "x \<noteq> y"
  shows "CalculateCRC8 (p @ x # s) (int (length (p @ x # s))) = Some (crc8_spec (p @ x # s))
    \<and> crc8_spec (p @ x # s) \<noteq> crc8_spec (p @ y # s)
    \<and> \<not> (ValidateModule100 (p @ x # s) (length (p @ x # s)) = Some 0
      \<and> ValidateModule100 (p @ y # s) (length (p @ y # s)) = Some 0)"
proof (intro conjI notI)
  show "CalculateCRC8 (p @ x # s) (int (length (p @ x # s))) = Some (crc8_spec (p @ x # s))"
    using CalculateCRC8_eq [of "length (p @ x # s)" "p @ x # s"] by simp
  show False if "crc8_spec (p @ x # s) = crc8_spec (p @ y # s)"
    using that assms by (simp add: crc8_spec_def fold_crc8_byte_eq_iff)
  show False if "ValidateModule100 (p @ x # s) (length (p @ x # s)) = Some 0
      \<and> ValidateModule100 (p @ y # s) (length (p @ y # s)) = Some 0"
    using that assms by (auto simp: ValidateModule100_def sum_loop_eq algebra_simps add_eq_0_iff)
qed

lemma changed_byte_is_noticed_witness:
  "CalculateCRC8 [0x31, 0x32] 2 = Some (crc8_spec [0x31, 0x32]) \<and> crc8_spec [0x31, 0x32] \<noteq> crc8_spec [0x30, 0x32]
   \<and> \<not> (ValidateModule100 [0x31, 0x32] 2 = Some 0 \<and> ValidateModule100 [0x30, 0x32] 2 = Some 0)"
  using changed_byte_is_noticed [of "0x31" "0x30" "[]" "[0x32]"] by (simp add: numeral_2_eq_2)

end
