(* ===== verification/Base_Encoding.thy ===== *)
theory Base_Encoding
  imports Prelude "HOL-Library.Signed_Division"
begin

text \<open>
  The library \<^verbatim>\<open>libencoding-src\<close>: base 32 and base 64 of \<^verbatim>\<open>CyoEncode.c\<close> and \<^verbatim>\<open>CyoDecode.c\<close>, and the
  functions of \<^verbatim>\<open>Encode.c\<close> around them. A null pointer is \<^const>\<open>None\<close>, a buffer the list of its bytes;
  an access outside of a buffer and a failed \<^verbatim>\<open>assert\<close> make a call \<^const>\<open>None\<close>. The
  assertions of the encoders that digits are in range cannot fail (\<open>sextets_bounded\<close>,
  \<open>quintets_bounded\<close>) and are not part of the definitions.
\<close>

section \<open>Buffers and strings\<close>

definition store :: "u8 list \<Rightarrow> nat \<Rightarrow> u8 \<Rightarrow> u8 list option" where
  "store d k v = (if k < length d then Some (d[k := v]) else None)"

fun stores :: "u8 list \<Rightarrow> nat \<Rightarrow> u8 list \<Rightarrow> u8 list option" where
  "stores d k [] = Some d"
| "stores d k (v # vs) = (case store d k v of None \<Rightarrow> None | Some d' \<Rightarrow> stores d' (Suc k) vs)"

fun strlen :: "u8 list \<Rightarrow> nat option" where
  "strlen [] = None"
| "strlen (c # s) = (if c = 0 then Some 0 else map_option Suc (strlen s))"

text \<open>A buffer after bytes were stored at a place.\<close>

definition overlay :: "u8 list \<Rightarrow> nat \<Rightarrow> u8 list \<Rightarrow> u8 list" where
  "overlay d k vs = take k d @ vs @ drop (k + length vs) d"

lemma length_overlay [simp]: "k + length vs \<le> length d \<Longrightarrow> length (overlay d k vs) = length d"
  by (simp add: overlay_def)

lemma overlay_Nil [simp]: "overlay d k [] = d"
  by (simp add: overlay_def)

lemma overlay_overlay: "k + length vs \<le> length d \<Longrightarrow> overlay (overlay d k vs) (k + length vs) ws = overlay d k (vs @ ws)"
  by (simp add: overlay_def ac_simps)

lemma overlay_one: "k < length d \<Longrightarrow> d[k := v] = overlay d k [v]"
  by (simp add: overlay_def upd_conv_take_nth_drop)

lemma take_overlay: "k + length vs \<le> length d \<Longrightarrow> take (length vs) (drop k (overlay d k vs)) = vs"
  by (simp add: overlay_def)

lemma stores_eq: "stores d k vs = (if vs = [] \<or> k + length vs \<le> length d then Some (overlay d k vs) else None)"
proof (induction vs arbitrary: d k)
  case (Cons v vs)
  show ?case
  proof (cases "k < length d")
    case True
    then show ?thesis
      using Cons [of "d[k := v]" "Suc k"] overlay_overlay [of k "[v]" d vs]
      by (auto simp: store_def overlay_one)
  qed (simp add: store_def)
qed simp

lemma strlen_prefix: "0 \<notin> set s \<Longrightarrow> strlen (s @ 0 # t) = Some (length s)"
  by (induction s) auto

lemma strlen_SomeD: "strlen s = Some n \<Longrightarrow> n < length s \<and> s ! n = 0 \<and> 0 \<notin> set (take n s)"
  by (induction s arbitrary: n) (auto split: if_splits)

section \<open>Codes by blocks\<close>

text \<open>
  What the two encodings share: \<open>m\<close> bytes or fewer become \<open>w\<close> characters, and the encoder stores those
  of one block after the other. \<open>code\<close> is the encoding of a list.
\<close>

locale block_code =
  fixes m w :: nat
    and chars code :: "u8 list \<Rightarrow> u8 list"
    and enc :: "u8 list \<Rightarrow> nat \<Rightarrow> u8 list \<Rightarrow> nat \<Rightarrow> nat \<Rightarrow> (u8 list \<times> nat \<times> nat) option"
  assumes block_size: "0 < m" "0 < w"
    and length_chars: "xs \<noteq> [] \<Longrightarrow> length xs \<le> m \<Longrightarrow> length (chars xs) = w"
    and code_Nil: "code [] = []"
    and code_block: "xs \<noteq> [] \<Longrightarrow> code xs = chars (take m xs) @ code (drop m xs)"
    and enc_end: "enc d k src 0 ds = Some (d, k, ds)"
    and enc_block: "0 < n \<Longrightarrow> n \<le> length src \<Longrightarrow> enc d k src n ds
      = (case stores d k (chars (take m (take n src))) of None \<Rightarrow> None
         | Some d' \<Rightarrow> enc d' (k + w) (drop m src) (n - m) (ds + w))"
begin

lemma code_step:
  assumes "xs \<noteq> []"
  obtains ys zs where "xs = ys @ zs" "ys \<noteq> []" "length ys \<le> m" "code xs = chars ys @ code zs"
    "length (code xs) = w + length (code zs)" "length zs < length xs" "ys = take m xs" "zs = drop m xs"
proof
  show "xs = take m xs @ drop m xs" "length (take m xs) \<le> m" by simp_all
  show "take m xs \<noteq> []" "length (drop m xs) < length xs" using assms block_size by simp_all
  then show "length (code xs) = w + length (code (drop m xs))"
    using assms by (simp add: code_block length_chars)
qed (use assms in \<open>simp_all add: code_block\<close>)

lemma code_pos: "xs \<noteq> [] \<Longrightarrow> 0 < length (code xs)"
  using block_size by (metis add_gr_0 code_step)

lemma length_code: "length (code xs) = w * ((length xs + (m - 1)) div m)"
proof (induction "length xs" arbitrary: xs rule: less_induct)
  case less
  show ?case
  proof (cases "xs = []")
    case False
    then obtain zs where zs: "length (code xs) = w + length (code zs)" "length zs < length xs" "zs = drop m xs"
      by (rule code_step)
    have "(length xs + (m - 1)) div m = Suc ((length zs + (m - 1)) div m)"
    proof (cases "m \<le> length xs")
      case True
      then have "length xs + (m - 1) = (length zs + (m - 1)) + m" by (simp add: zs(3))
      then show ?thesis using block_size by (metis div_add_self2 Suc_eq_plus1 not_less0)
    next
      case short: False
      then have "length zs = 0" by (simp add: zs(3))
      moreover have "(length xs + (m - 1)) div m = 1"
        using short False block_size by (cases xs) (auto intro!: div_nat_eqI)
      ultimately show ?thesis using block_size by simp
    qed
    then show ?thesis using less [OF zs(2)] by (simp add: zs(1))
  qed (use block_size in \<open>simp add: code_Nil\<close>)
qed

text \<open>The encoder in memory is the function on lists.\<close>

lemma enc_eq:
  assumes "n \<le> length src"
  shows "enc d k src n ds = (if n = 0 \<or> k + length (code (take n src)) \<le> length d
    then Some (overlay d k (code (take n src)), k + length (code (take n src)), ds + length (code (take n src)))
    else None)"
  using assms
proof (induction n arbitrary: d k src ds rule: less_induct)
  case (less n)
  show ?case
  proof (cases "n = 0")
    case False
    let ?c = "chars (take m (take n src))" and ?t = "code (take (n - m) (drop m src))"
    have ne: "take n src \<noteq> []" using False less.prems by auto
    then have w: "code (take n src) = ?c @ ?t" by (simp add: code_block drop_take)
    have c: "length ?c = w" using ne block_size by (intro length_chars) auto
    have IH: "enc d' (k + w) (drop m src) (n - m) (ds + w)
      = (if n - m = 0 \<or> k + w + length ?t \<le> length d'
         then Some (overlay d' (k + w) ?t, k + w + length ?t, ds + w + length ?t) else None)" for d'
      using False less.prems block_size by (intro less.IH) simp_all
    show ?thesis
      using False less.prems c block_size overlay_overlay [of k ?c d ?t]
      by (subst enc_block) (auto simp: stores_eq IH w code_Nil split: if_splits)
  qed (simp add: enc_end code_Nil)
qed

end

text \<open>
  A decoder that takes the blocks of a code back: it may store padding behind the bytes of the last one,
  \<open>fill\<close>, and \<open>fin\<close> makes its result of the output, the place in it and the count.
\<close>

locale block_decoder = block_code +
  fixes dec :: "u8 list \<Rightarrow> nat \<Rightarrow> u8 list \<Rightarrow> nat \<Rightarrow> nat \<Rightarrow> 'r option"
    and fill :: "u8 list \<Rightarrow> u8 list"
    and fin :: "u8 list \<Rightarrow> nat \<Rightarrow> nat \<Rightarrow> 'r"
  assumes fill_Nil: "fill [] = []"
    and fill_block: "fill xs = fill (take m xs) @ fill (drop m xs)"
    and fill_length: "length xs \<le> length (fill xs)"
    and dec_end: "dec d k rest 0 ds = Some (fin d k ds)"
    and dec_block: "w \<le> sz \<Longrightarrow> xs \<noteq> [] \<Longrightarrow> length xs \<le> m \<Longrightarrow> dec d k (chars xs @ rest) sz ds
      = (case stores d k (fill xs) of None \<Rightarrow> None
         | Some d' \<Rightarrow> dec d' (k + length (fill xs)) rest (sz - w) (ds + length xs))"
begin

lemma dec_eq:
  "dec d k (code xs @ rest) (length (code xs)) ds = (if xs = [] \<or> k + length (fill xs) \<le> length d
    then Some (fin (overlay d k (fill xs)) (k + length (fill xs)) (ds + length xs)) else None)"
proof (induction "length xs" arbitrary: xs d k ds rule: less_induct)
  case less
  show ?case
  proof (cases "xs = []")
    case False
    then obtain ys zs where xs: "xs = ys @ zs" "ys \<noteq> []" "length ys \<le> m" "code xs = chars ys @ code zs"
      "length (code xs) = w + length (code zs)" "length zs < length xs" "ys = take m xs" "zs = drop m xs"
      by (rule code_step)
    have f: "fill xs = fill ys @ fill zs" unfolding xs(7,8) by (rule fill_block)
    have n: "length xs = length ys + length zs" by (simp add: xs(1))
    have "fill ys \<noteq> []" using fill_length [of ys] xs(2) by auto
    have "dec d k (code xs @ rest) (length (code xs)) ds = (case stores d k (fill ys) of None \<Rightarrow> None
       | Some d' \<Rightarrow> dec d' (k + length (fill ys)) (code zs @ rest) (length (code zs)) (ds + length ys))"
      by (subst xs(5)) (use xs(2,3) in \<open>simp add: xs(4) dec_block cong: option.case_cong\<close>)
    also have "\<dots> = (if k + length (fill xs) \<le> length d
       then Some (fin (overlay d k (fill xs)) (k + length (fill xs)) (ds + length xs)) else None)"
      using \<open>fill ys \<noteq> []\<close> less [OF xs(6)] overlay_overlay [of k "fill ys" d "fill zs"]
      by (auto simp: stores_eq f n fill_Nil add.assoc split: if_splits)
    finally show ?thesis using False by simp
  qed (simp add: code_Nil dec_end fill_Nil)
qed

end

section \<open>Base 64\<close>

definition BASE64_TABLE :: "u8 list" where
  "BASE64_TABLE = map of_char ''ABCDEFGHIJKLMNOPQRSTUVWXYZabcdefghijklmnopqrstuvwxyz0123456789+/=''"

text \<open>
  The digits of a block of one, two or three bytes; 64 pads. The cases of the \<^verbatim>\<open>switch\<close> fall through
  to the smaller ones.
\<close>

fun sextets :: "u8 list \<Rightarrow> u8 list" where
  "sextets [p0] = [drop_bit 2 (p0 AND 0xfc), push_bit 4 (p0 AND 0x03), 64, 64]"
| "sextets [p0, p1] = [drop_bit 2 (p0 AND 0xfc), drop_bit 4 (p1 AND 0xf0) OR push_bit 4 (p0 AND 0x03),
     push_bit 2 (p1 AND 0x0f), 64]"
| "sextets [p0, p1, p2] = [drop_bit 2 (p0 AND 0xfc), drop_bit 4 (p1 AND 0xf0) OR push_bit 4 (p0 AND 0x03),
     drop_bit 6 (p2 AND 0xc0) OR push_bit 2 (p1 AND 0x0f), p2 AND 0x3f]"
| "sextets _ = []"

function base64_encode_loop :: "u8 list \<Rightarrow> nat \<Rightarrow> u8 list \<Rightarrow> nat \<Rightarrow> nat \<Rightarrow> (u8 list \<times> nat \<times> nat) option" where
  "base64_encode_loop dest k pSrc dwSrcSize dwDestSize = (if dwSrcSize \<ge> 1
     then let dwBlockSize = (if dwSrcSize < 3 then dwSrcSize else 3) in
       if length pSrc < dwBlockSize then None
       else case stores dest k (map (\<lambda>n. BASE64_TABLE ! unat n) (sextets (take dwBlockSize pSrc))) of
         None \<Rightarrow> None
       | Some dest' \<Rightarrow> base64_encode_loop dest' (k + 4) (drop dwBlockSize pSrc) (dwSrcSize - dwBlockSize) (dwDestSize + 4)
     else Some (dest, k, dwDestSize))"
  by pat_completeness auto
termination by (relation "measure (\<lambda>(dest, k, pSrc, dwSrcSize, dwDestSize). dwSrcSize)") (auto split: if_splits)

declare base64_encode_loop.simps [simp del]

definition cyoBase64Encode :: "u8 list option \<Rightarrow> u8 list option \<Rightarrow> nat \<Rightarrow> (nat \<times> u8 list option) option" where
  "cyoBase64Encode dest src sz = (case (dest, src) of
     (Some d, Some s) \<Rightarrow> (case base64_encode_loop d 0 s sz 0 of
         None \<Rightarrow> None
       | Some (d', k, dwDestSize) \<Rightarrow> map_option (\<lambda>d''. (dwDestSize, Some d'')) (store d' k 0))
   | _ \<Rightarrow> Some (0, dest))"

text \<open>The decoding table \<^verbatim>\<open>BASE64_TABLE\<close> of \<^verbatim>\<open>CyoDecode.c\<close>; 0x40 is the padding, 0xFF no digit.\<close>

definition BASE64_DECODE_TABLE :: "u8 list" where
  "BASE64_DECODE_TABLE = [
    0xFF, 0xFF, 0xFF, 0xFF, 0xFF, 0xFF, 0xFF, 0xFF, 0xFF, 0xFF, 0xFF, 0xFF, 0xFF, 0xFF, 0xFF, 0xFF,
    0xFF, 0xFF, 0xFF, 0xFF, 0xFF, 0xFF, 0xFF, 0xFF, 0xFF, 0xFF, 0xFF, 0xFF, 0xFF, 0xFF, 0xFF, 0xFF,
    0xFF, 0xFF, 0xFF, 0xFF, 0xFF, 0xFF, 0xFF, 0xFF, 0xFF, 0xFF, 0xFF, 0x3e, 0xFF, 0xFF, 0xFF, 0x3f,
    0x34, 0x35, 0x36, 0x37, 0x38, 0x39, 0x3a, 0x3b, 0x3c, 0x3d, 0xFF, 0xFF, 0xFF, 0x40, 0xFF, 0xFF,
    0xFF, 0x00, 0x01, 0x02, 0x03, 0x04, 0x05, 0x06, 0x07, 0x08, 0x09, 0x0a, 0x0b, 0x0c, 0x0d, 0x0e,
    0x0f, 0x10, 0x11, 0x12, 0x13, 0x14, 0x15, 0x16, 0x17, 0x18, 0x19, 0xFF, 0xFF, 0xFF, 0xFF, 0xFF,
    0xFF, 0x1a, 0x1b, 0x1c, 0x1d, 0x1e, 0x1f, 0x20, 0x21, 0x22, 0x23, 0x24, 0x25, 0x26, 0x27, 0x28,
    0x29, 0x2a, 0x2b, 0x2c, 0x2d, 0x2e, 0x2f, 0x30, 0x31, 0x32, 0x33, 0xFF, 0xFF, 0xFF, 0xFF, 0xFF]"

text \<open>
  The loop of the decoder, at place \<open>k\<close> of the output: it ends with 0 on an invalid character, and else with
  the count of the bytes, which is not the place when a padding digit comes before another digit.
\<close>

fun base64_decode_loop :: "u8 list \<Rightarrow> nat \<Rightarrow> u8 list \<Rightarrow> nat \<Rightarrow> nat \<Rightarrow> (nat \<times> u8 list) option" where
  "base64_decode_loop dest k (c1 # c2 # c3 # c4 # src) dwSrcSize dwDestSize = (if dwSrcSize \<ge> 1 then
     if c1 \<ge> 0x80 \<or> c2 \<ge> 0x80 \<or> c3 \<ge> 0x80 \<or> c4 \<ge> 0x80 then Some (0, dest)
     else let in1 = BASE64_DECODE_TABLE ! unat c1; in2 = BASE64_DECODE_TABLE ! unat c2;
              in3 = BASE64_DECODE_TABLE ! unat c3; in4 = BASE64_DECODE_TABLE ! unat c4 in
       if in1 > 63 \<or> in2 > 63 then Some (0, dest)
       else if in3 > 64 \<or> in4 > 64 then Some (0, dest)
       else let outs = [push_bit 2 (in1 AND 0x3f) OR drop_bit 4 (in2 AND 0x30)]
                @ (if in2 \<noteq> 64 \<and> in3 \<noteq> 64 then [push_bit 4 (in2 AND 0x0f) OR drop_bit 2 (in3 AND 0x3c)] else [])
                @ (if in4 \<noteq> 64 \<and> in3 \<noteq> 64 then [push_bit 6 (in3 AND 0x03) OR (in4 AND 0x3f)] else []);
              dwDestSize = dwDestSize + 3;
              dwDestSize = (if in4 = 64 then if in3 = 64 then dwDestSize - 2 else dwDestSize - 1 else dwDestSize) in
         (case stores dest k outs of
            None \<Rightarrow> None
          | Some dest' \<Rightarrow> base64_decode_loop dest' (k + length outs) src (dwSrcSize - 4) dwDestSize)
     else Some (dwDestSize, dest))"
| "base64_decode_loop dest k src dwSrcSize dwDestSize =
     (if dwSrcSize \<ge> 1 then None else Some (dwDestSize, dest))"

definition cyoBase64DecodeBinary :: "u8 list option \<Rightarrow> u8 list option \<Rightarrow> nat \<Rightarrow> (nat \<times> u8 list option) option" where
  "cyoBase64DecodeBinary dest src sz = (case (dest, src) of
     (Some d, Some s) \<Rightarrow> if sz mod 4 = 0
       then map_option (\<lambda>(n, d'). (n, Some d')) (base64_decode_loop d 0 s sz 0) else Some (0, dest)
   | _ \<Rightarrow> Some (0, dest))"

definition cyoBase64Decode :: "u8 list option \<Rightarrow> u8 list option \<Rightarrow> nat \<Rightarrow> (nat \<times> u8 list option) option" where
  "cyoBase64Decode dest src sz = (case cyoBase64DecodeBinary dest src sz of
     Some (dwDestSize, Some d) \<Rightarrow> map_option (\<lambda>d'. (dwDestSize, Some d')) (store d dwDestSize 0)
   | _ \<Rightarrow> None)"

section \<open>Base 32\<close>

definition BASE32_TABLE :: "u8 list" where
  "BASE32_TABLE = map of_char ''ABCDEFGHIJKLMNOPQRSTUVWXYZ234567=''"

text \<open>The digits of a block of up to five bytes; 32 pads.\<close>

fun quintets :: "u8 list \<Rightarrow> u8 list" where
  "quintets [p0] = [drop_bit 3 (p0 AND 0xf8), push_bit 2 (p0 AND 0x07), 32, 32, 32, 32, 32, 32]"
| "quintets [p0, p1] = [drop_bit 3 (p0 AND 0xf8), drop_bit 6 (p1 AND 0xc0) OR push_bit 2 (p0 AND 0x07),
     drop_bit 1 (p1 AND 0x3e), push_bit 4 (p1 AND 0x01), 32, 32, 32, 32]"
| "quintets [p0, p1, p2] = [drop_bit 3 (p0 AND 0xf8), drop_bit 6 (p1 AND 0xc0) OR push_bit 2 (p0 AND 0x07),
     drop_bit 1 (p1 AND 0x3e), drop_bit 4 (p2 AND 0xf0) OR push_bit 4 (p1 AND 0x01),
     push_bit 1 (p2 AND 0x0f), 32, 32, 32]"
| "quintets [p0, p1, p2, p3] = [drop_bit 3 (p0 AND 0xf8), drop_bit 6 (p1 AND 0xc0) OR push_bit 2 (p0 AND 0x07),
     drop_bit 1 (p1 AND 0x3e), drop_bit 4 (p2 AND 0xf0) OR push_bit 4 (p1 AND 0x01),
     drop_bit 7 (p3 AND 0x80) OR push_bit 1 (p2 AND 0x0f), drop_bit 2 (p3 AND 0x7c), push_bit 3 (p3 AND 0x03), 32]"
| "quintets [p0, p1, p2, p3, p4] = [drop_bit 3 (p0 AND 0xf8), drop_bit 6 (p1 AND 0xc0) OR push_bit 2 (p0 AND 0x07),
     drop_bit 1 (p1 AND 0x3e), drop_bit 4 (p2 AND 0xf0) OR push_bit 4 (p1 AND 0x01),
     drop_bit 7 (p3 AND 0x80) OR push_bit 1 (p2 AND 0x0f), drop_bit 2 (p3 AND 0x7c),
     drop_bit 5 (p4 AND 0xe0) OR push_bit 3 (p3 AND 0x03), p4 AND 0x1f]"
| "quintets _ = []"

function base32_encode_loop :: "u8 list \<Rightarrow> nat \<Rightarrow> u8 list \<Rightarrow> nat \<Rightarrow> nat \<Rightarrow> (u8 list \<times> nat \<times> nat) option" where
  "base32_encode_loop dest k pSrc dwSrcSize dwDestSize = (if dwSrcSize \<ge> 1
     then let dwBlockSize = (if dwSrcSize < 5 then dwSrcSize else 5) in
       if length pSrc < dwBlockSize then None
       else case stores dest k (map (\<lambda>n. BASE32_TABLE ! unat n) (quintets (take dwBlockSize pSrc))) of
         None \<Rightarrow> None
       | Some dest' \<Rightarrow> base32_encode_loop dest' (k + 8) (drop dwBlockSize pSrc) (dwSrcSize - dwBlockSize) (dwDestSize + 8)
     else Some (dest, k, dwDestSize))"
  by pat_completeness auto
termination by (relation "measure (\<lambda>(dest, k, pSrc, dwSrcSize, dwDestSize). dwSrcSize)") (auto split: if_splits)

declare base32_encode_loop.simps [simp del]

definition cyoBase32Encode :: "u8 list option \<Rightarrow> u8 list option \<Rightarrow> nat \<Rightarrow> (nat \<times> u8 list option) option" where
  "cyoBase32Encode dest src sz = (case (dest, src) of
     (Some d, Some s) \<Rightarrow> (case base32_encode_loop d 0 s sz 0 of
         None \<Rightarrow> None
       | Some (d', k, dwDestSize) \<Rightarrow> map_option (\<lambda>d''. (dwDestSize, Some d'')) (store d' k 0))
   | _ \<Rightarrow> Some (0, dest))"

text \<open>The decoding table \<^verbatim>\<open>BASE32_TABLE\<close> of \<^verbatim>\<open>CyoDecode.c\<close>; 0x20 is the padding.\<close>

definition BASE32_DECODE_TABLE :: "u8 list" where
  "BASE32_DECODE_TABLE = [
    0xFF, 0xFF, 0xFF, 0xFF, 0xFF, 0xFF, 0xFF, 0xFF, 0xFF, 0xFF, 0xFF, 0xFF, 0xFF, 0xFF, 0xFF, 0xFF,
    0xFF, 0xFF, 0xFF, 0xFF, 0xFF, 0xFF, 0xFF, 0xFF, 0xFF, 0xFF, 0xFF, 0xFF, 0xFF, 0xFF, 0xFF, 0xFF,
    0xFF, 0xFF, 0xFF, 0xFF, 0xFF, 0xFF, 0xFF, 0xFF, 0xFF, 0xFF, 0xFF, 0xFF, 0xFF, 0xFF, 0xFF, 0xFF,
    0xFF, 0xFF, 0x1a, 0x1b, 0x1c, 0x1d, 0x1e, 0x1f, 0xFF, 0xFF, 0xFF, 0xFF, 0xFF, 0x20, 0xFF, 0xFF,
    0xFF, 0x00, 0x01, 0x02, 0x03, 0x04, 0x05, 0x06, 0x07, 0x08, 0x09, 0x0a, 0x0b, 0x0c, 0x0d, 0x0e,
    0x0f, 0x10, 0x11, 0x12, 0x13, 0x14, 0x15, 0x16, 0x17, 0x18, 0x19, 0xFF, 0xFF, 0xFF, 0xFF, 0xFF,
    0xFF, 0x00, 0x01, 0x02, 0x03, 0x04, 0x05, 0x06, 0x07, 0x08, 0x09, 0x0a, 0x0b, 0x0c, 0x0d, 0x0e,
    0x0f, 0x10, 0x11, 0x12, 0x13, 0x14, 0x15, 0x16, 0x17, 0x18, 0x19, 0xFF, 0xFF, 0xFF, 0xFF, 0xFF]"

text \<open>
  The padding of a block takes bytes off its count, and an odd place for its first digit fails an
  assertion.
\<close>

definition base32_padding :: "u8 \<Rightarrow> u8 \<Rightarrow> u8 \<Rightarrow> u8 \<Rightarrow> u8 \<Rightarrow> u8 \<Rightarrow> nat option" where
  "base32_padding in3 in4 in5 in6 in7 in8 = (if in8 = 32 then
     if (in7 = 32 \<and> in6 = 32) \<or> in7 \<noteq> 32 then
       if in6 = 32 then
         if in5 = 32 then
           if (in4 = 32 \<and> in3 = 32) \<or> in4 \<noteq> 32 then
             if in3 = 32 then Some 4 else Some 3
           else None
         else Some 2
       else Some 1
     else None
   else Some 0)"

text \<open>
  The loop of the decoder. It stores five bytes for every eight digits, padding or not, and asserts that
  padding starts at the places where a block can end.
\<close>

fun base32_decode_loop :: "u8 list \<Rightarrow> nat \<Rightarrow> u8 list \<Rightarrow> nat \<Rightarrow> nat \<Rightarrow> (nat \<times> u8 list \<times> nat option) option" where
  "base32_decode_loop dest k (c1 # c2 # c3 # c4 # c5 # c6 # c7 # c8 # src) dwSrcSize dwDestSize = (if dwSrcSize \<ge> 1 then
     if c1 \<ge> 0x80 \<or> c2 \<ge> 0x80 \<or> c3 \<ge> 0x80 \<or> c4 \<ge> 0x80 \<or> c5 \<ge> 0x80 \<or> c6 \<ge> 0x80 \<or> c7 \<ge> 0x80 \<or> c8 \<ge> 0x80
     then Some (0, dest, None)
     else let in1 = BASE32_DECODE_TABLE ! unat c1; in2 = BASE32_DECODE_TABLE ! unat c2;
              in3 = BASE32_DECODE_TABLE ! unat c3; in4 = BASE32_DECODE_TABLE ! unat c4;
              in5 = BASE32_DECODE_TABLE ! unat c5; in6 = BASE32_DECODE_TABLE ! unat c6;
              in7 = BASE32_DECODE_TABLE ! unat c7; in8 = BASE32_DECODE_TABLE ! unat c8 in
       if in1 > 31 \<or> in2 > 31 then Some (0, dest, None)
       else if in3 > 32 \<or> in4 > 32 \<or> in5 > 32 \<or> in6 > 32 \<or> in7 > 32 \<or> in8 > 32 then Some (0, dest, None)
       else (case stores dest k
           [push_bit 3 (in1 AND 0x1f) OR drop_bit 2 (in2 AND 0x1c),
            push_bit 6 (in2 AND 0x03) OR push_bit 1 (in3 AND 0x1f) OR drop_bit 4 (in4 AND 0x10),
            push_bit 4 (in4 AND 0x0f) OR drop_bit 1 (in5 AND 0x1e),
            push_bit 7 (in5 AND 0x01) OR push_bit 2 (in6 AND 0x1f) OR drop_bit 3 (in7 AND 0x18),
            push_bit 5 (in7 AND 0x07) OR (in8 AND 0x1f)] of
          None \<Rightarrow> None
        | Some dest' \<Rightarrow> (case base32_padding in3 in4 in5 in6 in7 in8 of
            None \<Rightarrow> None
          | Some pad \<Rightarrow> base32_decode_loop dest' (k + 5) src (dwSrcSize - 8) (dwDestSize + 5 - pad)))
     else Some (dwDestSize, dest, Some k))"
| "base32_decode_loop dest k src dwSrcSize dwDestSize =
     (if dwSrcSize \<ge> 1 then None else Some (dwDestSize, dest, Some k))"

definition cyoBase32Decode :: "u8 list option \<Rightarrow> u8 list option \<Rightarrow> nat \<Rightarrow> (nat \<times> u8 list option) option" where
  "cyoBase32Decode dest src sz = (case (dest, src) of
     (Some d, Some s) \<Rightarrow> if sz mod 8 = 0
       then (case base32_decode_loop d 0 s sz 0 of
           None \<Rightarrow> None
         | Some (n, d', None) \<Rightarrow> Some (n, Some d')
         | Some (n, d', Some k) \<Rightarrow> map_option (\<lambda>d''. (n, Some d'')) (store d' k 0))
       else Some (0, dest)
   | _ \<Rightarrow> Some (0, dest))"

section \<open>The functions around them\<close>

definition int_ok :: "int \<Rightarrow> bool" where
  "int_ok x \<longleftrightarrow> - (2 ^ 31) \<le> x \<and> x < 2 ^ 31"

definition to_size :: "int \<Rightarrow> nat" where
  "to_size x = nat (x mod 2 ^ 32)"

definition to_int :: "nat \<Rightarrow> int" where
  "to_int n = (int n + 2 ^ 31) mod 2 ^ 32 - 2 ^ 31"

definition put_at :: "u8 list \<Rightarrow> int \<Rightarrow> u8 \<Rightarrow> u8 list option" where
  "put_at d i v = (if i < 0 then None else store d (nat i) v)"

definition Encode64nChar :: "u8 list option \<Rightarrow> u8 list option \<Rightarrow> int \<Rightarrow> int \<Rightarrow> u8 list option option" where
  "Encode64nChar outbuf string outlen inlen = (case (string, outbuf) of
     (Some s, Some d) \<Rightarrow> if outlen \<noteq> 0 then
       if inlen = 0 then map_option Some (store d 0 0)
       else if \<not> int_ok (inlen + 2) \<or> \<not> int_ok (4 * ((inlen + 2) sdiv 3)) then None
       else if outlen \<ge> 4 * ((inlen + 2) sdiv 3) then
         (case cyoBase64Encode outbuf string (to_size inlen) of
            Some (_, Some d') \<Rightarrow> map_option Some (put_at d' (outlen - 1) 0)
          | _ \<Rightarrow> None)
       else Some outbuf
     else Some outbuf
   | _ \<Rightarrow> Some outbuf)"

definition Encode64 :: "u8 list option \<Rightarrow> u8 list option \<Rightarrow> int \<Rightarrow> u8 list option option" where
  "Encode64 outbuf string outlen = (case Option.bind string strlen of
     None \<Rightarrow> None
   | Some n \<Rightarrow> Encode64nChar outbuf string outlen (to_int n))"

definition DecodeCheck :: "u8 list option \<Rightarrow> u8 list option \<Rightarrow> int \<Rightarrow> (int \<times> u8 list option) option" where
  "DecodeCheck outbuf string outlen = (case (string, outbuf) of
     (Some s, Some d) \<Rightarrow> (case strlen s of
         None \<Rightarrow> None
       | Some n \<Rightarrow> if n = 0 then map_option (\<lambda>d'. (0, Some d')) (store d 0 0) else Some (1, outbuf))
   | _ \<Rightarrow> Some (-1, outbuf))"

definition Decode64 :: "u8 list option \<Rightarrow> u8 list option \<Rightarrow> int \<Rightarrow> (int \<times> u8 list option) option" where
  "Decode64 outbuf string outlen = (case DecodeCheck outbuf string outlen of
     None \<Rightarrow> None
   | Some (ret, out) \<Rightarrow> if ret \<noteq> 1 then Some (ret, out)
       else (case cyoBase64Decode out string (the (Option.bind string strlen)) of
           Some (n, Some d) \<Rightarrow> map_option (\<lambda>d'. (to_int n, Some d')) (put_at d (outlen - 1) 0)
         | _ \<Rightarrow> None))"

definition Decode64Binary :: "u8 list option \<Rightarrow> u8 list option \<Rightarrow> int \<Rightarrow> (int \<times> u8 list option) option" where
  "Decode64Binary outbuf string outlen = (case DecodeCheck outbuf string outlen of
     None \<Rightarrow> None
   | Some (ret, out) \<Rightarrow> if ret \<noteq> 1 then Some (ret, out)
       else map_option (\<lambda>(n, d). (to_int n, d)) (cyoBase64DecodeBinary out string (the (Option.bind string strlen))))"

definition GetEncode32Length :: "int \<Rightarrow> u32 option" where
  "GetEncode32Length bytes = (if \<not> int_ok (bytes * 8) then None
     else let bits = bytes * 8; len = word_of_int (bits sdiv 5) :: u32 in
       Some (if bits smod 5 > 0 then len + 1 else len))"

definition cyoBase32EncodeGetLength :: "u32 \<Rightarrow> u32 option" where
  "cyoBase32EncodeGetLength sz = GetEncode32Length (sint sz)"

definition Encode32 :: "u8 list option \<Rightarrow> int \<Rightarrow> u8 list option \<Rightarrow> (int \<times> u8 list option) option" where
  "Encode32 inp inLen out = (case (inp, out) of
     (Some i, Some o') \<Rightarrow> if inLen = 0 then map_option (\<lambda>d. (0, Some d)) (store o' 0 0)
       else (case cyoBase32Encode out inp (to_size inLen) of
           Some (ret, Some d) \<Rightarrow> (case GetEncode32Length inLen of
               None \<Rightarrow> None
             | Some len \<Rightarrow> map_option (\<lambda>d'. (to_int ret, Some d')) (store d (unat len) 0))
         | _ \<Rightarrow> None)
   | _ \<Rightarrow> Some (-1, out))"

text \<open>
  The input is copied to \<^verbatim>\<open>temp_in\<close>, 256 zero bytes, and padded there to whole blocks: each of the
  three steps may leave the array.
\<close>

definition temp_length :: "int \<Rightarrow> int" where
  "temp_length inLen = (if inLen smod 8 \<noteq> 0 then inLen + (8 - inLen smod 8) else inLen)"

definition Decode32 :: "u8 list option \<Rightarrow> int \<Rightarrow> u8 list option \<Rightarrow> (int \<times> u8 list option) option" where
  "Decode32 inp inLen out = (let temp_len = temp_length inLen in
     if \<not> int_ok temp_len then None
     else case (inp, out) of
       (Some i, Some o') \<Rightarrow> if inLen = 0 then map_option (\<lambda>d. (1, Some d)) (store o' 0 0)
         else if inLen < 0 \<or> temp_len > 256 \<or> nat inLen > length i then None
         else let temp_in = overlay (replicate 256 0) 0 (take (nat inLen) i @ replicate (nat (temp_len - inLen)) 0x3D) in
           map_option (\<lambda>(n, d). (to_int n, d)) (cyoBase32Decode out (Some temp_in) (nat temp_len))
     | _ \<Rightarrow> Some (0, out))"

section \<open>Base 64 returns what it was given\<close>

text \<open>Digits fit, so that the assertions of the encoder hold and its table is not left.\<close>

lemma sextets_bounded:
  "unat (drop_bit 2 (a AND 0xfc) :: u8) < 64" "unat (push_bit 4 (a AND 0x03) :: u8) < 64"
  "unat (drop_bit 4 (b AND 0xf0) OR push_bit 4 (a AND 0x03) :: u8) < 64"
  "unat (push_bit 2 (b AND 0x0f) :: u8) < 64"
  "unat (drop_bit 6 (c AND 0xc0) OR push_bit 2 (b AND 0x0f) :: u8) < 64" "unat (c AND 0x3f :: u8) < 64"
proof -
  have c: "k = 6 \<or> k = 7" if "6 \<le> k" "k < (8 :: nat)" for k using that by auto
  show "unat (drop_bit 2 (a AND 0xfc) :: u8) < 64" "unat (push_bit 4 (a AND 0x03) :: u8) < 64"
    "unat (drop_bit 4 (b AND 0xf0) OR push_bit 4 (a AND 0x03) :: u8) < 64"
    "unat (push_bit 2 (b AND 0x0f) :: u8) < 64"
    "unat (drop_bit 6 (c AND 0xc0) OR push_bit 2 (b AND 0x0f) :: u8) < 64" "unat (c AND 0x3f :: u8) < 64"
    by (rule byte_bits_le [where n = 6, simplified], drule (1) c, auto simp: bit_simps)+
qed

fun base64 :: "u8 list \<Rightarrow> u8 list" where
  "base64 (a # b # c # xs) = map (\<lambda>n. BASE64_TABLE ! unat n) (sextets [a, b, c]) @ base64 xs"
| "base64 [] = []"
| "base64 xs = map (\<lambda>n. BASE64_TABLE ! unat n) (sextets xs)"

lemma length_sextets: "xs \<noteq> [] \<Longrightarrow> length xs \<le> 3 \<Longrightarrow> length (sextets xs) = 4"
  by (cases xs rule: sextets.cases) simp_all

text \<open>The decoding table undoes the other one.\<close>

lemma base64_tables:
  "map (\<lambda>c. BASE64_DECODE_TABLE ! unat c) BASE64_TABLE = map word_of_nat [0..<65]
   \<and> (\<forall>c \<in> set BASE64_TABLE. \<not> c \<ge> 0x80 \<and> c \<noteq> 0)"
  by (simp add: BASE64_TABLE_def BASE64_DECODE_TABLE_def upt_from_0)

lemma base64_digit:
  assumes "n \<le> 64"
  shows "BASE64_DECODE_TABLE ! unat (BASE64_TABLE ! unat n) = n"
    and "\<not> BASE64_TABLE ! unat n \<ge> 0x80" "BASE64_TABLE ! unat n \<noteq> 0"
proof -
  have len: "length BASE64_TABLE = 65" by (simp add: BASE64_TABLE_def)
  have n: "unat n < 65" using assms by (simp add: word_le_nat_alt)
  then have "BASE64_DECODE_TABLE ! unat (BASE64_TABLE ! unat n)
      = map (\<lambda>c. BASE64_DECODE_TABLE ! unat c) BASE64_TABLE ! unat n" by (simp add: len)
  also have "\<dots> = n" using n by (simp only: base64_tables) (simp del: upt_rec_numeral)
  finally show "BASE64_DECODE_TABLE ! unat (BASE64_TABLE ! unat n) = n" .
  have "BASE64_TABLE ! unat n \<in> set BASE64_TABLE" using n len by simp
  then show "\<not> BASE64_TABLE ! unat n \<ge> 0x80" "BASE64_TABLE ! unat n \<noteq> 0"
    using base64_tables by blast+
qed

lemma base64_bits:
  "push_bit 2 (drop_bit 2 (a AND 0xfc) AND 0x3f)
    OR drop_bit 4 ((drop_bit 4 (b AND 0xf0) OR push_bit 4 (a AND 0x03)) AND 0x30) = (a :: u8)"
  "push_bit 2 (drop_bit 2 (a AND 0xfc) AND 0x3f) OR drop_bit 4 (push_bit 4 (a AND 0x03) AND 0x30) = a"
  "push_bit 4 ((drop_bit 4 (b AND 0xf0) OR push_bit 4 (a AND 0x03)) AND 0x0f)
    OR drop_bit 2 ((drop_bit 6 (c AND 0xc0) OR push_bit 2 (b AND 0x0f)) AND 0x3c) = b"
  "push_bit 4 ((drop_bit 4 (b AND 0xf0) OR push_bit 4 (a AND 0x03)) AND 0x0f)
    OR drop_bit 2 (push_bit 2 (b AND 0x0f) AND 0x3c) = b"
  "push_bit 6 ((drop_bit 6 (c AND 0xc0) OR push_bit 2 (b AND 0x0f)) AND 0x03) OR ((c AND 0x3f) AND 0x3f) = c"
  by (rule byte_eqI; simp add: bit_simps del: bit_0)+

lemma base64_decode_digits:
  assumes "1 \<le> sz" "unat n1 < 64" "unat n2 < 64"
  shows "unat n3 < 64 \<Longrightarrow> unat n4 < 64 \<Longrightarrow> base64_decode_loop d k (BASE64_TABLE ! unat n1 # BASE64_TABLE ! unat n2
      # BASE64_TABLE ! unat n3 # BASE64_TABLE ! unat n4 # rest) sz ds
    = (case stores d k [push_bit 2 (n1 AND 0x3f) OR drop_bit 4 (n2 AND 0x30),
        push_bit 4 (n2 AND 0x0f) OR drop_bit 2 (n3 AND 0x3c), push_bit 6 (n3 AND 0x03) OR (n4 AND 0x3f)] of
      None \<Rightarrow> None | Some d' \<Rightarrow> base64_decode_loop d' (k + 3) rest (sz - 4) (ds + 3))"
    and "unat n3 < 64 \<Longrightarrow> base64_decode_loop d k (BASE64_TABLE ! unat n1 # BASE64_TABLE ! unat n2
      # BASE64_TABLE ! unat n3 # BASE64_TABLE ! unat (64 :: u8) # rest) sz ds
    = (case stores d k [push_bit 2 (n1 AND 0x3f) OR drop_bit 4 (n2 AND 0x30),
        push_bit 4 (n2 AND 0x0f) OR drop_bit 2 (n3 AND 0x3c)] of
      None \<Rightarrow> None | Some d' \<Rightarrow> base64_decode_loop d' (k + 2) rest (sz - 4) (ds + 2))"
    and "base64_decode_loop d k (BASE64_TABLE ! unat n1 # BASE64_TABLE ! unat n2
      # BASE64_TABLE ! unat (64 :: u8) # BASE64_TABLE ! unat (64 :: u8) # rest) sz ds
    = (case stores d k [push_bit 2 (n1 AND 0x3f) OR drop_bit 4 (n2 AND 0x30)] of
      None \<Rightarrow> None | Some d' \<Rightarrow> base64_decode_loop d' (k + 1) rest (sz - 4) (ds + 1))"
proof -
  have digit: "BASE64_DECODE_TABLE ! unat (BASE64_TABLE ! unat n) = n" "\<not> BASE64_TABLE ! unat n \<ge> 0x80"
    "\<not> n > 63" "\<not> n > 64" "n \<noteq> 64" if "unat n < 64" for n
    using that base64_digit [of n] by (auto simp: word_le_nat_alt word_less_nat_alt)
  have pad: "BASE64_DECODE_TABLE ! unat (BASE64_TABLE ! unat (64 :: u8)) = 64"
    "\<not> BASE64_TABLE ! unat (64 :: u8) \<ge> 0x80" "\<not> (64 :: u8) > 64"
    using base64_digit [of 64] by simp_all
  have len: "length [w] = 1" "length [w, x] = 2" "length [w, x, y] = 3" for w x y :: u8 by simp_all
  have num: "m + 3 - 2 = m + 1" "m + 3 - 1 = m + 2" for m :: nat by simp_all
  note step = base64_decode_loop.simps(1) Let_def digit pad assms len num simp_thms if_True if_False
    append_Cons append_Nil append_Nil2
  show "unat n3 < 64 \<Longrightarrow> unat n4 < 64 \<Longrightarrow> base64_decode_loop d k (BASE64_TABLE ! unat n1 # BASE64_TABLE ! unat n2
      # BASE64_TABLE ! unat n3 # BASE64_TABLE ! unat n4 # rest) sz ds
    = (case stores d k [push_bit 2 (n1 AND 0x3f) OR drop_bit 4 (n2 AND 0x30),
        push_bit 4 (n2 AND 0x0f) OR drop_bit 2 (n3 AND 0x3c), push_bit 6 (n3 AND 0x03) OR (n4 AND 0x3f)] of
      None \<Rightarrow> None | Some d' \<Rightarrow> base64_decode_loop d' (k + 3) rest (sz - 4) (ds + 3))"
    by (simp only: step)
  show "unat n3 < 64 \<Longrightarrow> base64_decode_loop d k (BASE64_TABLE ! unat n1 # BASE64_TABLE ! unat n2
      # BASE64_TABLE ! unat n3 # BASE64_TABLE ! unat (64 :: u8) # rest) sz ds
    = (case stores d k [push_bit 2 (n1 AND 0x3f) OR drop_bit 4 (n2 AND 0x30),
        push_bit 4 (n2 AND 0x0f) OR drop_bit 2 (n3 AND 0x3c)] of
      None \<Rightarrow> None | Some d' \<Rightarrow> base64_decode_loop d' (k + 2) rest (sz - 4) (ds + 2))"
    by (simp only: step)
  show "base64_decode_loop d k (BASE64_TABLE ! unat n1 # BASE64_TABLE ! unat n2
      # BASE64_TABLE ! unat (64 :: u8) # BASE64_TABLE ! unat (64 :: u8) # rest) sz ds
    = (case stores d k [push_bit 2 (n1 AND 0x3f) OR drop_bit 4 (n2 AND 0x30)] of
      None \<Rightarrow> None | Some d' \<Rightarrow> base64_decode_loop d' (k + 1) rest (sz - 4) (ds + 1))"
    by (simp only: step)
qed

lemma base64_decode_block:
  assumes "1 \<le> sz" "xs \<noteq> []" "length xs \<le> 3"
  shows "base64_decode_loop d k (map (\<lambda>n. BASE64_TABLE ! unat n) (sextets xs) @ rest) sz ds
    = (case stores d k xs of None \<Rightarrow> None
       | Some d' \<Rightarrow> base64_decode_loop d' (k + length xs) rest (sz - 4) (ds + length xs))"
proof -
  note decode = base64_decode_digits [OF assms(1) sextets_bounded(1)]
  consider a where "xs = [a]" | a b where "xs = [a, b]" | a b c where "xs = [a, b, c]"
    using assms(2,3) by (cases xs rule: sextets.cases) auto
  then show ?thesis
  proof cases
    case 1
    show ?thesis
      unfolding 1 sextets.simps list.map append_Cons append_Nil decode(3) [OF sextets_bounded(2)] base64_bits
      by (simp cong: option.case_cong)
  next
    case 2
    show ?thesis
      unfolding 2 sextets.simps list.map append_Cons append_Nil
        decode(2) [OF sextets_bounded(3) sextets_bounded(4)] base64_bits
      by (simp add: numeral_2_eq_2 cong: option.case_cong)
  next
    case 3
    show ?thesis
      unfolding 3 sextets.simps list.map append_Cons append_Nil
        decode(1) [OF sextets_bounded(3) sextets_bounded(5) sextets_bounded(6)] base64_bits
      by (simp add: numeral_3_eq_3 cong: option.case_cong)
  qed
qed

interpretation b64: block_decoder 3 4 "\<lambda>xs. map (\<lambda>n. BASE64_TABLE ! unat n) (sextets xs)" base64 base64_encode_loop
  base64_decode_loop "\<lambda>xs. xs" "\<lambda>d k n. (n, d)"
proof unfold_locales
  fix xs rest :: "u8 list" and d k ds
  show "xs \<noteq> [] \<Longrightarrow> base64 xs = map (\<lambda>n. BASE64_TABLE ! unat n) (sextets (take 3 xs)) @ base64 (drop 3 xs)"
    by (cases xs rule: base64.cases) simp_all
  show "base64_decode_loop d k rest 0 ds = Some (ds, d)"
    by (cases "(d, k, rest, 0 :: nat, ds)" rule: base64_decode_loop.cases) simp_all
next
  fix n k ds and d src :: "u8 list"
  assume "0 < n" "n \<le> length src"
  then show "base64_encode_loop d k src n ds
    = (case stores d k (map (\<lambda>n. BASE64_TABLE ! unat n) (sextets (take 3 (take n src)))) of None \<Rightarrow> None
       | Some d' \<Rightarrow> base64_encode_loop d' (k + 4) (drop 3 src) (n - 3) (ds + 4))"
    by (subst base64_encode_loop.simps) (auto simp: Let_def min_def base64_encode_loop.simps [of _ _ _ 0] split: option.splits)
qed (simp_all add: length_sextets base64_encode_loop.simps [of _ _ _ 0] base64_decode_block)

lemma length_base64: "length (base64 xs) = 4 * ((length xs + 2) div 3)"
  using b64.length_code by simp

lemma base64_no_zero: "0 \<notin> set (base64 xs)"
proof -
  have "n \<le> 64" if "n \<in> set (sextets xs)" for n xs
    using that sextets_bounded [THEN less_imp_le]
    by (cases xs rule: sextets.cases) (auto simp: word_le_nat_alt)
  then have digits: "0 \<notin> set (map (\<lambda>n. BASE64_TABLE ! unat n) (sextets xs))" for xs
    using base64_digit(3) by auto
  show ?thesis
    by (induction xs rule: base64.induct) (simp_all only: base64.simps set_append Un_iff digits simp_thms list.set empty_iff)
qed

lemma cyoBase64Encode_eq:
  assumes "data \<noteq> []"
  shows "cyoBase64Encode (Some d) (Some data) (length data) = (if length (base64 data) < length d
    then Some (length (base64 data), Some (overlay d 0 (base64 data @ [0]))) else None)"
  using assms overlay_overlay [of 0 "base64 data" d "[0]"]
  by (auto simp: cyoBase64Encode_def b64.enc_eq Let_def store_def overlay_one)

lemma cyoBase64Decode_eq:
  assumes "data \<noteq> []"
  shows "cyoBase64Decode (Some d) (Some (base64 data @ rest)) (length (base64 data)) = (if length data < length d
    then Some (length data, Some (overlay d 0 (data @ [0]))) else None)"
proof -
  have "length (base64 data) mod 4 = 0" by (simp add: length_base64)
  then show ?thesis
    using assms overlay_overlay [of 0 data d "[0]"]
    by (auto simp: cyoBase64Decode_def cyoBase64DecodeBinary_def b64.dec_eq store_def overlay_one)
qed

lemma to_int_small: "n < 2 ^ 31 \<Longrightarrow> to_int n = int n"
  by (simp add: to_int_def)

lemma to_size_small: "n < 2 ^ 32 \<Longrightarrow> to_size (int n) = n"
  by (simp add: to_size_def nat_mod_distrib)

lemma ended_string:
  assumes "length v < length b"
  shows "\<exists>t. (overlay b 0 (v @ [0]))[length b - 1 := 0] = v @ 0 # t"
proof -
  let ?x = "(overlay b 0 (v @ [0]))[length b - 1 := 0]"
  have "take (Suc (length v)) ?x = v @ [0]"
    using assms by (intro nth_equalityI) (auto simp: overlay_def nth_list_update nth_append less_Suc_eq)
  then have "?x = (v @ [0]) @ drop (Suc (length v)) ?x" by (metis append_take_drop_id)
  then show ?thesis by (metis append.assoc append_Cons append_Nil)
qed

lemma Encode64nChar_eq:
  assumes "data \<noteq> []" "length (base64 data) < 2 ^ 31" "length (base64 data) \<le> length d"
  shows "Encode64nChar (Some d) (Some data) (int (length d)) (int (length data))
    = (if length (base64 data) < length d
       then Some (Some ((overlay d 0 (base64 data @ [0]))[length d - 1 := 0])) else None)"
proof -
  have n: "0 < length data" using assms(1) by simp
  have four: "4 * ((int (length data) + 2) sdiv 3) = int (length (base64 data))"
    by (simp add: length_base64 signed_divide_int_def zdiv_int)
  have "length data \<le> length (base64 data)" by (simp add: length_base64)
  then have small: "int_ok (int (length data) + 2)" "length data < 2 ^ 32"
    using assms(2) by (simp_all add: int_ok_def length_base64)
  have "length d \<noteq> 0" using assms(3) b64.code_pos [OF assms(1)] by linarith
  then show ?thesis
    using n assms(2,3) small
    by (auto simp: Encode64nChar_def Let_def four to_size_small cyoBase64Encode_eq [OF assms(1)] put_at_def store_def
        int_ok_def nat_diff_distrib)
qed

lemma Decode64_eq:
  assumes "data \<noteq> []" "length data < 2 ^ 31"
  shows "Decode64 (Some d) (Some (base64 data @ 0 # rest)) outlen = (if length data < length d
    then map_option (\<lambda>d'. (int (length data), Some d')) (put_at (overlay d 0 (data @ [0])) (outlen - 1) 0)
    else None)"
proof -
  have len: "strlen (base64 data @ 0 # rest) = Some (length (base64 data))"
    using base64_no_zero by (rule strlen_prefix)
  show ?thesis using b64.code_pos [OF assms(1)]
    by (simp add: Decode64_def DecodeCheck_def len cyoBase64Decode_eq [OF assms(1)] to_int_small [OF assms(2)])
qed

text \<open>
  C15. What base 64 encodes it also decodes, when the output of each call has a byte more than the text: the
  encoder leaves a string of four characters for every three bytes begun, and the decoder returns the count
  of the bytes, stores them and ends them by a zero.
\<close>

theorem base64_round_trip:
  assumes "data \<noteq> []" "4 * ((length data + 2) div 3) < 2 ^ 31"
    and "4 * ((length data + 2) div 3) < length outbuf" "length data < length out2"
  shows "\<exists>enc dec. Encode64nChar (Some outbuf) (Some data) (int (length outbuf)) (int (length data)) = Some (Some enc)
    \<and> length enc = length outbuf \<and> strlen enc = Some (4 * ((length data + 2) div 3))
    \<and> Decode64 (Some out2) (Some enc) (int (length out2)) = Some (int (length data), Some dec)
    \<and> length dec = length out2 \<and> take (length data) dec = data \<and> dec ! length data = 0"
proof -
  let ?w = "base64 data"
  have w: "length ?w = 4 * ((length data + 2) div 3)" by (rule length_base64)
  define enc where "enc = (overlay outbuf 0 (?w @ [0]))[length outbuf - 1 := 0]"
  obtain t where enc: "enc = ?w @ 0 # t"
    using ended_string [of ?w outbuf] assms(3) by (auto simp: enc_def w)
  define dec where "dec = (overlay out2 0 (data @ [0]))[length out2 - 1 := 0]"
  obtain u where dec: "dec = data @ 0 # u"
    using ended_string [of data out2] assms(4) by (auto simp: dec_def)
  have small: "length data < 2 ^ 31" using assms(2) by simp
  have "Encode64nChar (Some outbuf) (Some data) (int (length outbuf)) (int (length data)) = Some (Some enc)"
    using assms by (subst Encode64nChar_eq) (simp_all add: enc_def w)
  moreover have "strlen enc = Some (length ?w)"
    unfolding enc using base64_no_zero by (rule strlen_prefix)
  moreover have "Decode64 (Some out2) (Some enc) (int (length out2)) = Some (int (length data), Some dec)"
    unfolding enc Decode64_eq [OF assms(1) small]
    using assms(4) by (auto simp: put_at_def store_def dec_def nat_diff_distrib)
  moreover have "take (length data) dec = data \<and> dec ! length data = 0"
    by (simp add: dec)
  moreover have "length enc = length outbuf" "length dec = length out2"
    using assms(3,4) by (simp_all add: enc_def dec_def w)
  ultimately show ?thesis using w by metis
qed

lemma base64_round_trip_witness:
  "\<exists>enc dec. Encode64nChar (Some (replicate 9 0)) (Some [1, 2, 3, 4]) 9 4 = Some (Some enc)
    \<and> length enc = 9 \<and> strlen enc = Some 8
    \<and> Decode64 (Some [9, 9, 9, 9, 9]) (Some enc) 5 = Some (4, Some dec)
    \<and> length dec = 5 \<and> take 4 dec = [1, 2, 3, 4] \<and> dec ! 4 = 0"
proof -
  have l: "length [1, 2, 3, 4 :: u8] = 4" "length [9, 9, 9, 9, 9 :: u8] = 5" "length (replicate 9 (0 :: u8)) = 9"
    by simp_all
  show ?thesis
    using base64_round_trip [of "[1, 2, 3, 4]" "replicate 9 0" "[9, 9, 9, 9, 9]"] unfolding l by simp
qed

text \<open>
  C36. The check of the output length asks for no room for the terminating zero: an output of exactly the
  length it asks for is written behind. The decoder asks for nothing: whatever length it is told, data that
  is not shorter than the output is written behind it.
\<close>

theorem base64_writes_behind:
  assumes "data \<noteq> []" "4 * ((length data + 2) div 3) < 2 ^ 31"
    and "length outbuf = 4 * ((length data + 2) div 3)" "length out2 \<le> length data"
  shows "Encode64nChar (Some outbuf) (Some data) (int (length outbuf)) (int (length data)) = None
    \<and> Decode64 (Some out2) (Some (base64 data @ 0 # rest)) outlen = None"
proof -
  have "length data < 2 ^ 31" using assms(2) by simp
  then show ?thesis
    using assms Encode64nChar_eq [of data outbuf] Decode64_eq [of data out2 rest outlen]
    by (simp add: length_base64)
qed

lemma base64_writes_behind_witness:
  "Encode64nChar (Some (replicate 8 0)) (Some [1, 2, 3, 4]) 8 4 = None
    \<and> Decode64 (Some [9, 9]) (Some (base64 [1, 2, 3, 4] @ [0])) 2 = None"
  using base64_writes_behind [of "[1, 2, 3, 4]" "replicate 8 0" "[9, 9]" "[]" 2] by simp

section \<open>Base 32 returns what it was given\<close>

lemma quintets_bounded:
  "unat (drop_bit 3 (a AND 0xf8) :: u8) < 32" "unat (push_bit 2 (a AND 0x07) :: u8) < 32"
  "unat (drop_bit 6 (b AND 0xc0) OR push_bit 2 (a AND 0x07) :: u8) < 32" "unat (drop_bit 1 (b AND 0x3e) :: u8) < 32"
  "unat (push_bit 4 (b AND 0x01) :: u8) < 32"
  "unat (drop_bit 4 (c AND 0xf0) OR push_bit 4 (b AND 0x01) :: u8) < 32"
  "unat (push_bit 1 (c AND 0x0f) :: u8) < 32"
  "unat (drop_bit 7 (p AND 0x80) OR push_bit 1 (c AND 0x0f) :: u8) < 32" "unat (drop_bit 2 (p AND 0x7c) :: u8) < 32"
  "unat (push_bit 3 (p AND 0x03) :: u8) < 32"
  "unat (drop_bit 5 (e AND 0xe0) OR push_bit 3 (p AND 0x03) :: u8) < 32" "unat (e AND 0x1f :: u8) < 32"
proof -
  have c: "k = 5 \<or> k = 6 \<or> k = 7" if "5 \<le> k" "k < (8 :: nat)" for k using that by auto
  show "unat (drop_bit 3 (a AND 0xf8) :: u8) < 32" "unat (push_bit 2 (a AND 0x07) :: u8) < 32"
    "unat (drop_bit 6 (b AND 0xc0) OR push_bit 2 (a AND 0x07) :: u8) < 32" "unat (drop_bit 1 (b AND 0x3e) :: u8) < 32"
    "unat (push_bit 4 (b AND 0x01) :: u8) < 32"
    "unat (drop_bit 4 (c AND 0xf0) OR push_bit 4 (b AND 0x01) :: u8) < 32"
    "unat (push_bit 1 (c AND 0x0f) :: u8) < 32"
    "unat (drop_bit 7 (p AND 0x80) OR push_bit 1 (c AND 0x0f) :: u8) < 32" "unat (drop_bit 2 (p AND 0x7c) :: u8) < 32"
    "unat (push_bit 3 (p AND 0x03) :: u8) < 32"
    "unat (drop_bit 5 (e AND 0xe0) OR push_bit 3 (p AND 0x03) :: u8) < 32" "unat (e AND 0x1f :: u8) < 32"
    by (rule byte_bits_le [where n = 5, simplified], drule (1) c,
        auto simp: bit_simps numeral_2_eq_2 [symmetric] simp del: push_bit_Suc drop_bit_Suc)+
qed

fun base32 :: "u8 list \<Rightarrow> u8 list" where
  "base32 (a # b # c # d # e # xs) = map (\<lambda>n. BASE32_TABLE ! unat n) (quintets [a, b, c, d, e]) @ base32 xs"
| "base32 [] = []"
| "base32 xs = map (\<lambda>n. BASE32_TABLE ! unat n) (quintets xs)"

lemma length_quintets: "xs \<noteq> [] \<Longrightarrow> length xs \<le> 5 \<Longrightarrow> length (quintets xs) = 8"
  by (cases xs rule: quintets.cases) simp_all

lemma base32_tables:
  "map (\<lambda>c. BASE32_DECODE_TABLE ! unat c) BASE32_TABLE = map word_of_nat [0..<33]
   \<and> (\<forall>c \<in> set BASE32_TABLE. \<not> c \<ge> 0x80 \<and> c \<noteq> 0)"
  by (simp add: BASE32_TABLE_def BASE32_DECODE_TABLE_def upt_from_0)

lemma base32_digit:
  assumes "n \<le> 32"
  shows "BASE32_DECODE_TABLE ! unat (BASE32_TABLE ! unat n) = n"
    and "\<not> BASE32_TABLE ! unat n \<ge> 0x80" "BASE32_TABLE ! unat n \<noteq> 0"
proof -
  have len: "length BASE32_TABLE = 33" by (simp add: BASE32_TABLE_def)
  have n: "unat n < 33" using assms by (simp add: word_le_nat_alt)
  then have "BASE32_DECODE_TABLE ! unat (BASE32_TABLE ! unat n)
      = map (\<lambda>c. BASE32_DECODE_TABLE ! unat c) BASE32_TABLE ! unat n" by (simp add: len)
  also have "\<dots> = n" using n by (simp only: base32_tables) (simp del: upt_rec_numeral)
  finally show "BASE32_DECODE_TABLE ! unat (BASE32_TABLE ! unat n) = n" .
  have "BASE32_TABLE ! unat n \<in> set BASE32_TABLE" using n len by simp
  then show "\<not> BASE32_TABLE ! unat n \<ge> 0x80" "BASE32_TABLE ! unat n \<noteq> 0"
    using base32_tables by blast+
qed

lemma base32_bits:
  "push_bit 3 ((drop_bit 3 (a AND 0xf8)) AND 0x1f) OR drop_bit 2 ((push_bit 2 (a AND 0x07)) AND 0x1c) = (a
      :: u8)"
  "push_bit 6 ((push_bit 2 (a AND 0x07)) AND 0x03) OR push_bit 1 (32 AND 0x1f) OR drop_bit 4 (32 AND 0x10) =
      (0 :: u8)"
  "push_bit 4 (32 AND 0x0f) OR drop_bit 1 (32 AND 0x1e) = (0 :: u8)"
  "push_bit 7 (32 AND 0x01) OR push_bit 2 (32 AND 0x1f) OR drop_bit 3 (32 AND 0x18) = (0 :: u8)"
  "push_bit 5 (32 AND 0x07) OR (32 AND 0x1f) = (0 :: u8)"
  "push_bit 3 ((drop_bit 3 (a AND 0xf8)) AND 0x1f) OR drop_bit 2 ((drop_bit 6 (b AND 0xc0) OR push_bit 2 (a
      AND 0x07)) AND 0x1c) = (a :: u8)"
  "push_bit 6 ((drop_bit 6 (b AND 0xc0) OR push_bit 2 (a AND 0x07)) AND 0x03) OR push_bit 1 ((drop_bit 1 (b
      AND 0x3e)) AND 0x1f) OR drop_bit 4 ((push_bit 4 (b AND 0x01)) AND 0x10) = (b :: u8)"
  "push_bit 4 ((push_bit 4 (b AND 0x01)) AND 0x0f) OR drop_bit 1 (32 AND 0x1e) = (0 :: u8)"
  "push_bit 6 ((drop_bit 6 (b AND 0xc0) OR push_bit 2 (a AND 0x07)) AND 0x03) OR push_bit 1 ((drop_bit 1 (b
      AND 0x3e)) AND 0x1f) OR drop_bit 4 ((drop_bit 4 (c AND 0xf0) OR push_bit 4 (b AND 0x01)) AND 0x10) = (b
      :: u8)"
  "push_bit 4 ((drop_bit 4 (c AND 0xf0) OR push_bit 4 (b AND 0x01)) AND 0x0f) OR drop_bit 1 ((push_bit 1 (c
      AND 0x0f)) AND 0x1e) = (c :: u8)"
  "push_bit 7 ((push_bit 1 (c AND 0x0f)) AND 0x01) OR push_bit 2 (32 AND 0x1f) OR drop_bit 3 (32 AND 0x18) =
      (0 :: u8)"
  "push_bit 4 ((drop_bit 4 (c AND 0xf0) OR push_bit 4 (b AND 0x01)) AND 0x0f) OR drop_bit 1 ((drop_bit 7 (p
      AND 0x80) OR push_bit 1 (c AND 0x0f)) AND 0x1e) = (c :: u8)"
  "push_bit 7 ((drop_bit 7 (p AND 0x80) OR push_bit 1 (c AND 0x0f)) AND 0x01) OR push_bit 2 ((drop_bit 2 (p
      AND 0x7c)) AND 0x1f) OR drop_bit 3 ((push_bit 3 (p AND 0x03)) AND 0x18) = (p :: u8)"
  "push_bit 5 ((push_bit 3 (p AND 0x03)) AND 0x07) OR (32 AND 0x1f) = (0 :: u8)"
  "push_bit 7 ((drop_bit 7 (p AND 0x80) OR push_bit 1 (c AND 0x0f)) AND 0x01) OR push_bit 2 ((drop_bit 2 (p
      AND 0x7c)) AND 0x1f) OR drop_bit 3 ((drop_bit 5 (e AND 0xe0) OR push_bit 3 (p AND 0x03)) AND 0x18) = (p
      :: u8)"
  "push_bit 5 ((drop_bit 5 (e AND 0xe0) OR push_bit 3 (p AND 0x03)) AND 0x07) OR ((e AND 0x1f) AND 0x1f) =
      (e :: u8)"
  by (rule byte_eqI; simp add: bit_simps numeral_2_eq_2 [symmetric] del: bit_0 push_bit_Suc drop_bit_Suc)+

text \<open>A block of digits, with the bytes stored for them and what its padding does.\<close>

lemma base32_decode_digits:
  assumes "1 \<le> sz" "unat n1 < 32" "unat n2 < 32"
    and "n3 \<le> 32" "n4 \<le> 32" "n5 \<le> 32" "n6 \<le> 32" "n7 \<le> 32" "n8 \<le> 32"
  shows "base32_decode_loop d k (BASE32_TABLE ! unat n1 # BASE32_TABLE ! unat n2 # BASE32_TABLE ! unat n3
      # BASE32_TABLE ! unat n4 # BASE32_TABLE ! unat n5 # BASE32_TABLE ! unat n6 # BASE32_TABLE ! unat n7
      # BASE32_TABLE ! unat n8 # rest) sz ds
    = (case stores d k
           [push_bit 3 (n1 AND 0x1f) OR drop_bit 2 (n2 AND 0x1c),
            push_bit 6 (n2 AND 0x03) OR push_bit 1 (n3 AND 0x1f) OR drop_bit 4 (n4 AND 0x10),
            push_bit 4 (n4 AND 0x0f) OR drop_bit 1 (n5 AND 0x1e),
            push_bit 7 (n5 AND 0x01) OR push_bit 2 (n6 AND 0x1f) OR drop_bit 3 (n7 AND 0x18),
            push_bit 5 (n7 AND 0x07) OR (n8 AND 0x1f)] of
        None \<Rightarrow> None
      | Some d' \<Rightarrow> (case base32_padding n3 n4 n5 n6 n7 n8 of
          None \<Rightarrow> None
        | Some pad \<Rightarrow> base32_decode_loop d' (k + 5) rest (sz - 8) (ds + 5 - pad)))"
proof -
  have le: "n1 \<le> 32" "n2 \<le> 32" "\<not> n1 > 31" "\<not> n2 > 31"
    using assms(2,3) by (simp_all add: word_le_nat_alt word_less_nat_alt)
  have gt: "\<not> n3 > 32" "\<not> n4 > 32" "\<not> n5 > 32" "\<not> n6 > 32" "\<not> n7 > 32" "\<not> n8 > 32"
    using assms(4-9) by (simp_all add: not_less)
  note digits = base32_digit(1,2) [OF le(1)] base32_digit(1,2) [OF le(2)] base32_digit(1,2) [OF assms(4)]
    base32_digit(1,2) [OF assms(5)] base32_digit(1,2) [OF assms(6)] base32_digit(1,2) [OF assms(7)]
    base32_digit(1,2) [OF assms(8)] base32_digit(1,2) [OF assms(9)]
  show ?thesis
    by (simp only: base32_decode_loop.simps(1) Let_def digits le gt assms(1) simp_thms if_True if_False)
qed

definition fill32 :: "u8 list \<Rightarrow> u8 list" where
  "fill32 xs = xs @ replicate ((5 - length xs mod 5) mod 5) 0"

lemma base32_decode_block:
  assumes "8 \<le> sz" "xs \<noteq> []" "length xs \<le> 5"
  shows "base32_decode_loop d k (map (\<lambda>n. BASE32_TABLE ! unat n) (quintets xs) @ rest) sz ds
    = (case stores d k (fill32 xs) of None \<Rightarrow> None
       | Some d' \<Rightarrow> base32_decode_loop d' (k + length (fill32 xs)) rest (sz - 8) (ds + length xs))"
proof -
  have sz: "1 \<le> sz" using assms(1) by simp
  have le: "n \<le> 32" "n \<noteq> 32" if "unat n < 32" for n :: u8 using that by (auto simp: word_le_nat_alt)
  have le32: "(32 :: u8) \<le> 32" by simp
  note b = quintets_bounded and n = quintets_bounded [THEN le(2)] and l = quintets_bounded [THEN le(1)]
  note decode = base32_decode_digits [OF sz b(1)]
  have five: "length (fill32 xs) = 5"
    using assms(2,3) by (cases xs rule: quintets.cases) (simp_all add: fill32_def)
  have zeros: "replicate 4 (0 :: u8) = [0, 0, 0, 0]" "replicate 3 (0 :: u8) = [0, 0, 0]"
    "replicate 2 (0 :: u8) = [0, 0]" by (simp_all add: numeral_eq_Suc)
  have fill: "fill32 [x] = [x, 0, 0, 0, 0]" "fill32 [x, y] = [x, y, 0, 0, 0]" "fill32 [x, y, z] = [x, y, z, 0, 0]"
    "fill32 [x, y, z, u] = [x, y, z, u, 0]" "fill32 [x, y, z, u, v] = [x, y, z, u, v]" for x y z u v
    by (simp_all add: fill32_def zeros)
  have count: "length [w] = 1" "length [w, x] = 2" "length [w, x, y] = 3" "length [w, x, y, z] = 4"
    "length [w, x, y, z, u] = 5" "m + 5 - 4 = m + 1" "m + 5 - 3 = m + 2" "m + 5 - 2 = m + 3" "m + 5 - 1 = m + 4"
    "m + 5 - 0 = m + 5" for m :: nat and w x y z u :: u8
    by simp_all
  note ends = base32_padding_def n simp_thms if_True if_False option.case fill count
  consider x where "xs = [x]" | x y where "xs = [x, y]" | x y z where "xs = [x, y, z]"
    | x y z u where "xs = [x, y, z, u]" | x y z u v where "xs = [x, y, z, u, v]"
    using assms(2,3) by (cases xs rule: quintets.cases) auto
  then show ?thesis
  proof cases
    case 1
    show ?thesis unfolding five unfolding 1 quintets.simps list.map append_Cons append_Nil
        decode [OF b(2) le32 le32 le32 le32 le32 le32] base32_bits
      by (simp only: ends)
  next
    case 2
    show ?thesis unfolding five unfolding 2 quintets.simps list.map append_Cons append_Nil
        decode [OF b(3) l(4) l(5) le32 le32 le32 le32] base32_bits
      by (simp only: ends)
  next
    case 3
    show ?thesis unfolding five unfolding 3 quintets.simps list.map append_Cons append_Nil
        decode [OF b(3) l(4) l(6) l(7) le32 le32 le32] base32_bits
      by (simp only: ends)
  next
    case 4
    show ?thesis unfolding five unfolding 4 quintets.simps list.map append_Cons append_Nil
        decode [OF b(3) l(4) l(6) l(8) l(9) l(10) le32] base32_bits
      by (simp only: ends)
  next
    case 5
    show ?thesis unfolding five unfolding 5 quintets.simps list.map append_Cons append_Nil
        decode [OF b(3) l(4) l(6) l(8) l(9) l(11) l(12)] base32_bits
      by (simp only: ends)
  qed
qed

interpretation b32: block_decoder 5 8 "\<lambda>xs. map (\<lambda>n. BASE32_TABLE ! unat n) (quintets xs)" base32 base32_encode_loop
  base32_decode_loop fill32 "\<lambda>d k n. (n, d, Some k)"
proof unfold_locales
  fix xs rest :: "u8 list" and d k ds
  show "xs \<noteq> [] \<Longrightarrow> base32 xs = map (\<lambda>n. BASE32_TABLE ! unat n) (quintets (take 5 xs)) @ base32 (drop 5 xs)"
    by (cases xs rule: base32.cases) simp_all
  show "base32_decode_loop d k rest 0 ds = Some (ds, d, Some k)"
    by (cases "(d, k, rest, 0 :: nat, ds)" rule: base32_decode_loop.cases) simp_all
  show "fill32 xs = fill32 (take 5 xs) @ fill32 (drop 5 xs)"
  proof (cases "length xs < 5")
    case False
    then have "(length xs - 5) mod 5 = length xs mod 5" by (simp add: le_mod_geq)
    then show ?thesis using False by (simp add: fill32_def min_def)
  qed (simp add: fill32_def)
next
  fix n k ds and d src :: "u8 list"
  assume "0 < n" "n \<le> length src"
  then show "base32_encode_loop d k src n ds
    = (case stores d k (map (\<lambda>n. BASE32_TABLE ! unat n) (quintets (take 5 (take n src)))) of None \<Rightarrow> None
       | Some d' \<Rightarrow> base32_encode_loop d' (k + 8) (drop 5 src) (n - 5) (ds + 8))"
    by (subst base32_encode_loop.simps) (auto simp: Let_def min_def base32_encode_loop.simps [of _ _ _ 0] split: option.splits)
next
  fix sz k ds :: nat and d xs rest :: "u8 list"
  assume "8 \<le> sz" "xs \<noteq> []" "length xs \<le> 5"
  then show "base32_decode_loop d k (map (\<lambda>n. BASE32_TABLE ! unat n) (quintets xs) @ rest) sz ds
    = (case stores d k (fill32 xs) of None \<Rightarrow> None
       | Some d' \<Rightarrow> base32_decode_loop d' (k + length (fill32 xs)) rest (sz - 8) (ds + length xs))"
    by (rule base32_decode_block)
next
  show "base32_encode_loop d k src 0 ds = Some (d, k, ds)" for d k src ds
    by (simp add: base32_encode_loop.simps [of _ _ _ 0])
  show "fill32 [] = []" "length xs \<le> length (fill32 xs)" for xs by (simp_all add: fill32_def)
  show "xs \<noteq> [] \<Longrightarrow> length xs \<le> 5 \<Longrightarrow> length (map (\<lambda>n. BASE32_TABLE ! unat n) (quintets xs)) = 8" for xs
    by (simp add: length_quintets)
qed simp_all

lemma length_base32: "length (base32 xs) = 8 * ((length xs + 4) div 5)"
  using b32.length_code by simp

lemma length_fill32: "length (fill32 xs) = 5 * ((length xs + 4) div 5)"
proof -
  have "n + (5 - n mod 5) mod 5 = 5 * ((n + 4) div 5)" for n :: nat
  proof -
    define q r where "q = n div 5" and "r = n mod 5"
    have n: "n = 5 * q + r" "r < 5" by (simp_all add: q_def r_def)
    have "(n + 4) div 5 = Suc q" if "r \<noteq> 0"
    proof -
      have "n + 4 = 5 * Suc q + (r - 1)" using n that by simp
      then show ?thesis using n(2) by (metis div_mult_self4 div_less less_imp_diff_less add_0_right zero_neq_numeral)
    qed
    then show ?thesis using n(2) by (cases "r = 0") (simp_all add: n(1))
  qed
  then show ?thesis by (simp add: fill32_def)
qed

text \<open>The padding of the text is what is left of its blocks.\<close>

definition quintet_count :: "nat \<Rightarrow> nat" where
  "quintet_count n = (8 * n + 4) div 5"

lemma quintet_count_bounds:
  "quintet_count n \<le> 8 * ((n + 4) div 5)" "quintet_count (n + 5) = quintet_count n + 8"
  "(quintet_count n + 7) div 8 = (n + 4) div 5"
proof -
  have div: "(m * k + x) div m = k + x div m" if "0 < m" for m k x :: nat
    using that by simp
  define q r where "q = n div 5" and "r = n mod 5"
  have n: "n = 5 * q + r" by (simp add: q_def r_def)
  have r: "r = 0 \<or> r = 1 \<or> r = 2 \<or> r = 3 \<or> r = 4"
    using mod_less_divisor [of 5 n] unfolding r_def by linarith
  have "quintet_count n = (5 * (8 * q) + (8 * r + 4)) div 5" by (simp add: quintet_count_def n)
  then have count: "quintet_count n = 8 * q + (8 * r + 4) div 5" by (simp only: div zero_less_numeral)
  have blocks: "(n + 4) div 5 = q + (r + 4) div 5" using div [of 5 q "r + 4"] by (simp add: n add.assoc)
  show "quintet_count n \<le> 8 * ((n + 4) div 5)" unfolding count blocks using r by auto
  have "quintet_count (n + 5) = (5 * 8 + (8 * n + 4)) div 5" by (simp add: quintet_count_def)
  also have "\<dots> = 8 + (8 * n + 4) div 5" by (rule div) simp
  finally show "quintet_count (n + 5) = quintet_count n + 8" by (simp add: quintet_count_def)
  have "(quintet_count n + 7) div 8 = q + ((8 * r + 4) div 5 + 7) div 8"
    using div [of 8 q "(8 * r + 4) div 5 + 7"] by (simp add: count add.assoc)
  then show "(quintet_count n + 7) div 8 = (n + 4) div 5" unfolding blocks using r by auto
qed

lemma base32_padded:
  "base32 xs = take (quintet_count (length xs)) (base32 xs)
    @ replicate (length (base32 xs) - quintet_count (length xs)) 0x3D"
proof (induction xs rule: base32.induct)
  case (1 a b c d e xs)
  let ?b = "map (\<lambda>n. BASE32_TABLE ! unat n) (quintets [a, b, c, d, e])"
  have b: "length ?b = 8" by simp
  have l: "length (a # b # c # d # e # xs) = length xs + 5" by simp
  have n: "quintet_count (length (a # b # c # d # e # xs)) = length ?b + quintet_count (length xs)"
    unfolding b l quintet_count_bounds(2) by simp
  show ?case
    unfolding base32.simps(1) n length_append take_append using 1 b by simp
qed (simp_all add: quintet_count_def BASE32_TABLE_def)

lemma base32_no_zero: "0 \<notin> set (base32 xs)"
proof -
  have "n \<le> 32" if "n \<in> set (quintets xs)" for n xs
    using that quintets_bounded [THEN less_imp_le]
    by (cases xs rule: quintets.cases) (auto simp: word_le_nat_alt)
  then have digits: "0 \<notin> set (map (\<lambda>n. BASE32_TABLE ! unat n) (quintets xs))" for xs
    using base32_digit(3) by auto
  show ?thesis
    by (induction xs rule: base32.induct)
      (simp_all only: base32.simps set_append Un_iff digits simp_thms list.set empty_iff)
qed

lemma sdiv_nonneg: "0 \<le> k \<Longrightarrow> 0 < l \<Longrightarrow> k sdiv l = k div l" "0 \<le> k \<Longrightarrow> 0 < l \<Longrightarrow> k smod l = k mod l" for k l :: int
  by (cases "k = 0"; simp add: signed_divide_int_def signed_modulo_int_def)+

lemma ceil_div: "0 < m \<Longrightarrow> (n + (m - 1)) div m = (if n mod m > 0 then n div m + 1 else n div m)" for m n :: nat
proof -
  assume "0 < m"
  define q r where "q = n div m" and "r = n mod m"
  have n: "n = m * q + r" "r < m" using \<open>0 < m\<close> by (simp_all add: q_def r_def)
  have "(n + (m - 1)) div m = q + (r + (m - 1)) div m"
    using \<open>0 < m\<close> div_mult_self4 [of m q "r + (m - 1)"] by (simp add: n add.assoc)
  moreover have "(r + (m - 1)) div m = (if r > 0 then 1 else 0)"
    using n(2) by (auto intro!: div_nat_eqI)
  ultimately show ?thesis by (simp add: q_def r_def)
qed

lemma GetEncode32Length_eq:
  assumes "8 * n < 2 ^ 31"
  shows "GetEncode32Length (int n) = Some (word_of_nat (quintet_count n))"
proof -
  have "(8 * n + 4) div 5 = (if (n * 8) mod 5 > 0 then (n * 8) div 5 + 1 else (n * 8) div 5)"
    using ceil_div [of 5 "n * 8"] by (simp add: mult.commute)
  moreover have "int n * 8 sdiv 5 = int ((n * 8) div 5)" "int n * 8 smod 5 = int ((n * 8) mod 5)"
    by (simp_all add: sdiv_nonneg zdiv_int zmod_int)
  ultimately show ?thesis
    using assms by (auto simp: GetEncode32Length_def int_ok_def Let_def quintet_count_def)
qed

lemma cyoBase32Encode_eq:
  assumes "data \<noteq> []"
  shows "cyoBase32Encode (Some d) (Some data) (length data) = (if length (base32 data) < length d
    then Some (length (base32 data), Some (overlay d 0 (base32 data @ [0]))) else None)"
  using assms overlay_overlay [of 0 "base32 data" d "[0]"]
  by (auto simp: cyoBase32Encode_def b32.enc_eq Let_def store_def overlay_one)

lemma cyoBase32Decode_eq:
  assumes "data \<noteq> []"
  shows "cyoBase32Decode (Some d) (Some (base32 data @ rest)) (length (base32 data)) = (if length (fill32 data) < length d
    then Some (length data, Some (overlay d 0 (fill32 data @ [0]))) else None)"
proof -
  have "length (base32 data) mod 8 = 0" by (simp add: length_base32)
  then show ?thesis
    using assms overlay_overlay [of 0 "fill32 data" d "[0]"]
    by (auto simp: cyoBase32Decode_def b32.dec_eq store_def overlay_one)
qed

lemma round8: "8 * ((n + 7) div 8) = (if n mod 8 \<noteq> 0 then n + (8 - n mod 8) else n)" for n :: nat
  using ceil_div [of 8 n] minus_mod_eq_mult_div [of n 8, symmetric] mod_less_eq_dividend [of n 8]
    mod_less_divisor [of 8 n] by (auto simp: algebra_simps)

lemma temp_length_eq: "temp_length (int n) = int (8 * ((n + 7) div 8))"
proof -
  have "int n smod 8 = int (n mod 8)" by (simp add: sdiv_nonneg zmod_int)
  then show ?thesis using round8 [of n] by (auto simp: temp_length_def)
qed

lemma Encode32_eq:
  assumes "data \<noteq> []" "length data < 2 ^ 28 - 4" "length (base32 data) < length d"
  shows "Encode32 (Some data) (int (length data)) (Some d)
    = Some (int (length (base32 data)), Some ((overlay d 0 (base32 data @ [0]))[quintet_count (length data) := 0]))"
proof -
  have "length (base32 data) < 2 ^ 31" using assms(2) by (simp add: length_base32)
  moreover have "quintet_count (length data) < length d"
    using quintet_count_bounds(1) [of "length data"] assms(3) by (simp add: length_base32)
  moreover have "quintet_count (length data) < 2 ^ 32"
    using quintet_count_bounds(1) [of "length data"] calculation(1) by (simp add: length_base32)
  moreover have "length data < 2 ^ 32" "8 * length data < 2 ^ 31" "int (length data) \<noteq> 0" using assms(1,2) by simp_all
  ultimately show ?thesis
    using assms(3)
    by (simp add: Encode32_def to_size_small cyoBase32Encode_eq [OF assms(1)] GetEncode32Length_eq store_def
        to_int_small unsigned_of_nat take_bit_nat_eq_self)
qed

text \<open>The copy of a text without its padding has it back.\<close>

lemma temp_in_text:
  assumes "data \<noteq> []" "length data \<le> 160"
  defines "n \<equiv> quintet_count (length data)"
  shows "\<exists>t. overlay (replicate 256 0) 0 (take n (take n (base32 data) @ rest) @ replicate (length (base32 data) - n) 0x3D)
    = base32 data @ t"
proof -
  have "n \<le> length (base32 data)" using quintet_count_bounds(1) by (simp add: n_def length_base32)
  then have "take n (take n (base32 data) @ rest) @ replicate (length (base32 data) - n) 0x3D = base32 data"
    using base32_padded [of data] by (simp add: n_def min_def)
  then show ?thesis by (simp add: overlay_def)
qed

text \<open>
  C16. Base 32 without padding returns what was encoded: the text has eight characters for five bytes, rounded
  up, and a text of at most 256 characters is padded again and decoded to its bytes. The encoder returns the
  length with the padding it cuts off.
\<close>

theorem base32_round_trip:
  assumes "data \<noteq> []" "length data \<le> 160"
    and "8 * ((length data + 4) div 5) < length out" "5 * ((length data + 4) div 5) < length out2"
  shows "\<exists>enc dec. Encode32 (Some data) (int (length data)) (Some out) = Some (8 * ((int (length data) + 4) div 5), Some enc)
    \<and> length enc = length out \<and> strlen enc = Some ((8 * length data + 4) div 5)
    \<and> Decode32 (Some enc) (int ((8 * length data + 4) div 5)) (Some out2) = Some (int (length data), Some dec)
    \<and> length dec = length out2 \<and> take (length data) dec = data"
proof -
  let ?w = "base32 data" and ?n = "quintet_count (length data)"
  have w: "length ?w = 8 * ((length data + 4) div 5)" by (rule length_base32)
  have n: "?n \<le> length ?w" using quintet_count_bounds(1) by (simp add: w)
  define enc where "enc = (overlay out 0 (?w @ [0]))[?n := 0]"
  define rest where "rest = drop ?n enc"
  have enc: "enc = take ?n ?w @ rest" "rest \<noteq> []" "hd rest = 0"
  proof -
    have "take ?n enc = take ?n ?w" using n assms(3) by (simp add: enc_def overlay_def w)
    then show "enc = take ?n ?w @ rest" by (metis append_take_drop_id rest_def)
    have "?n < length enc" using n assms(3) by (simp add: enc_def w)
    then show "rest \<noteq> []" "hd rest = 0" by (simp_all add: rest_def hd_drop_conv_nth) (simp add: enc_def)
  qed
  have "0 \<notin> set (take ?n ?w)" using base32_no_zero [of data] by (auto dest: in_set_takeD)
  then have "strlen (take ?n ?w @ 0 # tl rest) = Some (length (take ?n ?w))" by (rule strlen_prefix)
  then have len: "strlen enc = Some ?n" using enc n by (cases rest) simp_all
  have E: "Encode32 (Some data) (int (length data)) (Some out) = Some (int (length ?w), Some enc)"
    using assms by (simp add: Encode32_eq enc_def w)
  have temp: "temp_length (int ?n) = int (length ?w)"
    by (simp only: temp_length_eq quintet_count_bounds(3) w)
  obtain t where t: "overlay (replicate 256 0) 0 (take ?n enc @ replicate (length ?w - ?n) 0x3D) = ?w @ t"
    using temp_in_text [OF assms(1,2)] enc(1) by metis
  define dec where "dec = overlay out2 0 (fill32 data @ [0])"
  have small: "length ?w \<le> 256" "length data < 2 ^ 31" using assms(2) by (simp_all add: w)
  have pos: "0 < ?n" using assms(1) by (cases data) (simp_all add: quintet_count_def div_greater_zero_iff)
  have "?n \<le> length enc" using n assms(3) by (simp add: enc_def w)
  then have D: "Decode32 (Some enc) (int ?n) (Some out2) = Some (int (length data), Some dec)"
    using pos n small t assms(4)
    by (simp add: Decode32_def Let_def temp int_ok_def cyoBase32Decode_eq [OF assms(1)] length_fill32 dec_def
        to_int_small nat_diff_distrib flip: of_nat_diff)
  have "length enc = length out" "length dec = length out2" "take (length data) dec = data"
    using assms(3,4) n by (simp_all add: enc_def dec_def w length_fill32) (simp add: overlay_def fill32_def)
  then show ?thesis
    using E D len by (auto simp: w quintet_count_def zdiv_int)
qed

lemma base32_round_trip_witness:
  "\<exists>enc dec. Encode32 (Some [1, 2, 3]) 3 (Some (replicate 9 7)) = Some (8, Some enc)
    \<and> length enc = 9 \<and> strlen enc = Some 5
    \<and> Decode32 (Some enc) 5 (Some (replicate 6 7)) = Some (3, Some dec)
    \<and> length dec = 6 \<and> take 3 dec = [1, 2, 3]"
proof -
  have l: "length [1, 2, 3 :: u8] = 3" "length (replicate 9 (7 :: u8)) = 9" "length (replicate 6 (7 :: u8)) = 6"
    by simp_all
  show ?thesis
    using base32_round_trip [of "[1, 2, 3]" "replicate 9 7" "replicate 6 7"] unfolding l by simp
qed

text \<open>Digits that end at a wrong place in a block fail an assertion of the decoder.\<close>

lemma base32_decode_aborts:
  fixes ns :: "u8 list"
  assumes "length ns mod 8 = 3 \<or> length ns mod 8 = 6" "\<forall>n \<in> set ns. unat n < 32"
  shows "base32_decode_loop d k (map (\<lambda>n. BASE32_TABLE ! unat n) ns @ replicate (8 - length ns mod 8) 0x3D @ rest)
    (length ns + (8 - length ns mod 8)) ds = None"
  using assms
proof (induction "length ns" arbitrary: ns d k ds rule: less_induct)
  case less
  have digit: "\<forall>n \<in> set ns. unat n < 32 \<and> n \<le> 32 \<and> n \<noteq> 32"
    using less.prems(2) by (auto simp: word_le_nat_alt)
  have le32: "(32 :: u8) \<le> 32" by simp
  have pad: "(0x3D :: u8) = BASE32_TABLE ! unat (32 :: u8)" by (simp add: BASE32_TABLE_def)
  have five: "replicate 5 (0x3D :: u8) = [0x3D, 0x3D, 0x3D, 0x3D, 0x3D]"
    and two: "replicate 2 (0x3D :: u8) = [0x3D, 0x3D]" by (simp_all add: numeral_eq_Suc)
  consider "8 \<le> length ns" | "length ns < 8" by linarith
  then show ?case
  proof cases
    case 1
    then obtain n1 n2 n3 n4 n5 n6 n7 n8 ns' where ns: "ns = n1 # n2 # n3 # n4 # n5 # n6 # n7 # n8 # ns'"
      by (auto simp: numeral_eq_Suc Suc_le_length_iff)
    have digits: "unat n1 < 32" "unat n2 < 32" "n3 \<le> 32" "n4 \<le> 32" "n5 \<le> 32" "n6 \<le> 32" "n7 \<le> 32" "n8 \<le> 32"
      "n8 \<noteq> 32"
      using digit unfolding ns by simp_all
    have same: "length ns mod 8 = length ns' mod 8" by (simp add: ns)
    have len: "length ns + (8 - length ns mod 8) = length ns' + (8 - length ns' mod 8) + 8"
      unfolding same by (simp add: ns)
    have one: "1 \<le> length ns' + (8 - length ns' mod 8) + 8" by simp
    have rec: "base32_decode_loop d' k' (map (\<lambda>n. BASE32_TABLE ! unat n) ns'
        @ replicate (8 - length ns' mod 8) 0x3D @ rest) (length ns' + (8 - length ns' mod 8)) ds' = None" for d' k' ds'
      using less.prems same by (intro less.hyps) (simp_all add: ns)
    show ?thesis
      unfolding len unfolding same unfolding ns list.map append_Cons
      by (subst base32_decode_digits [OF one digits(1-8)])
        (simp only: base32_padding_def digits(9) simp_thms if_False option.case add_diff_cancel_right' rec
          split: option.split)
  next
    case 2
    then have "length ns = 3 \<or> length ns = 6" using less.prems(1) by auto
    then show ?thesis
    proof
      assume three: "length ns = 3"
      then obtain n1 n2 n3 where ns: "ns = [n1, n2, n3]" by (auto simp: numeral_3_eq_3 length_Suc_conv)
      have digits: "unat n1 < 32" "unat n2 < 32" "n3 \<le> 32" "n3 \<noteq> 32"
        using digit unfolding ns by simp_all
      have r: "replicate (8 - length ns mod 8) (0x3D :: u8) = [0x3D, 0x3D, 0x3D, 0x3D, 0x3D]"
        using five by (simp add: three)
      have "base32_padding n3 32 32 32 32 32 = None" by (simp add: base32_padding_def digits(4))
      then show ?thesis
        unfolding r unfolding pad ns list.map append_Cons append_Nil
        by (subst base32_decode_digits [OF _ digits(1,2,3) le32 le32 le32 le32 le32]) (simp_all split: option.split)
    next
      assume six: "length ns = 6"
      then obtain n1 n2 n3 n4 n5 n6 where ns: "ns = [n1, n2, n3, n4, n5, n6]"
        by (auto simp: numeral_eq_Suc length_Suc_conv)
      have digits: "unat n1 < 32" "unat n2 < 32" "n3 \<le> 32" "n4 \<le> 32" "n5 \<le> 32" "n6 \<le> 32" "n6 \<noteq> 32"
        using digit unfolding ns by simp_all
      have r: "replicate (8 - length ns mod 8) (0x3D :: u8) = [0x3D, 0x3D]"
        using two by (simp add: six)
      have "base32_padding n3 n4 n5 n6 32 32 = None" by (simp add: base32_padding_def digits(7))
      then show ?thesis
        unfolding r unfolding pad ns list.map append_Cons append_Nil
        by (subst base32_decode_digits [OF _ digits(1-6) le32 le32]) (simp_all split: option.split)
    qed
  qed
qed

text \<open>
  C37. The decoder pads its input whatever its length: when three or six digits are left for the last block, it
  runs into an assertion, and with more than 256 characters it leaves its array. No output is large
  enough for either.
\<close>

theorem decode32_rejects_no_length:
  fixes ns :: "u8 list"
  assumes "\<forall>n \<in> set ns. unat n < 32"
    and "length ns mod 8 \<in> {3, 6} \<or> 256 < length ns" "length ns < 2 ^ 30"
  shows "Decode32 (Some (map (\<lambda>n. BASE32_TABLE ! unat n) ns @ rest)) (int (length ns)) (Some out) = None"
proof -
  let ?s = "map (\<lambda>n. BASE32_TABLE ! unat n) ns"
  define m where "m = 8 * ((length ns + 7) div 8)"
  have m: "temp_length (int (length ns)) = int m" by (simp only: temp_length_eq m_def)
  have le: "length ns \<le> m" "m < length ns + 8" "m mod 8 = 0"
    using mult_div_mod_eq [of 8 "length ns + 7"] mod_less_divisor [of 8 "length ns + 7"] by (simp_all add: m_def)
  have "length ns \<noteq> 0" using assms(2) by auto
  show ?thesis
  proof (cases "m \<le> 256")
    case False
    then show ?thesis using le assms(3) \<open>length ns \<noteq> 0\<close> by (simp add: Decode32_def m Let_def)
  next
    case True
    then have r: "length ns mod 8 = 3 \<or> length ns mod 8 = 6" using assms(2) le by auto
    have "m = length ns + (8 - length ns mod 8)"
    proof -
      define q r where "q = length ns div 8" and "r = length ns mod 8"
      have n: "length ns = 8 * q + r" by (simp add: q_def r_def)
      have "r = 3 \<or> r = 6" using r by (simp add: r_def)
      moreover have "(length ns + 7) div 8 = q + (r + 7) div 8"
        using div_mult_self4 [of 8 q "r + 7"] by (simp add: n add.assoc)
      ultimately show ?thesis unfolding m_def r_def [symmetric] by (auto simp: n)
    qed
    moreover obtain t where "overlay (replicate 256 0) 0 (?s @ replicate (m - length ns) 0x3D)
        = ?s @ replicate (m - length ns) 0x3D @ t"
      by (simp add: overlay_def)
    ultimately have "cyoBase32Decode (Some out) (Some (overlay (replicate 256 0) 0 (?s @ replicate (m - length ns) 0x3D))) m = None"
      using base32_decode_aborts [OF r assms(1), of out 0 t 0] le(3)
      by (simp add: cyoBase32Decode_def)
    then show ?thesis
      using True le(1) \<open>length ns \<noteq> 0\<close> by (simp add: Decode32_def m Let_def nat_diff_distrib flip: of_nat_diff)
  qed
qed

lemma decode32_rejects_no_length_witness:
  "Decode32 (Some (map (\<lambda>n. BASE32_TABLE ! unat n) [1, 2, 3 :: u8])) 3 (Some (replicate 50 0)) = None"
  using decode32_rejects_no_length [of "[1, 2, 3]" "[]" "replicate 50 0"] by simp

end
