(* ===== verification/Blowfish.thy ===== *)
theory Blowfish
  imports Base_Encoding
begin

text \<open>
  The library \<^verbatim>\<open>libblowfish-src\<close>: the cipher with its tables and key schedule, packets, and the passwords
  and the key file of the vendor. Words are kept in memory with the lowest byte first, as on both
  processors the library is built for. A null pointer is \<^const>\<open>None\<close>, an access outside of a buffer
  makes a call \<^const>\<open>None\<close>, and what \<^verbatim>\<open>malloc\<close> returns is an argument.
\<close>

section \<open>The cipher\<close>

record BLOWFISH_CTX =
  ctx_P :: "u32 list"
  ctx_S :: "u32 list list"
  ctx_init :: u32

definition ORIG_P :: "u32 list" where
  "ORIG_P = [
    0x243F6A88, 0x85A308D3, 0x13198A2E, 0x03707344, 0xA4093822, 0x299F31D0, 0x082EFA98, 0xEC4E6C89, 0x452821E6,
    0x38D01377, 0xBE5466CF, 0x34E90C6C, 0xC0AC29B7, 0xC97C50DD, 0x3F84D5B5, 0xB5470917, 0x9216D5D9, 0x8979FB1B]"

definition ORIG_S0 :: "u32 list" where
  "ORIG_S0 = [
    0xD1310BA6, 0x98DFB5AC, 0x2FFD72DB, 0xD01ADFB7, 0xB8E1AFED, 0x6A267E96, 0xBA7C9045, 0xF12C7F99,
    0x24A19947, 0xB3916CF7, 0x0801F2E2, 0x858EFC16, 0x636920D8, 0x71574E69, 0xA458FEA3, 0xF4933D7E,
    0x0D95748F, 0x728EB658, 0x718BCD58, 0x82154AEE, 0x7B54A41D, 0xC25A59B5, 0x9C30D539, 0x2AF26013,
    0xC5D1B023, 0x286085F0, 0xCA417918, 0xB8DB38EF, 0x8E79DCB0, 0x603A180E, 0x6C9E0E8B, 0xB01E8A3E,
    0xD71577C1, 0xBD314B27, 0x78AF2FDA, 0x55605C60, 0xE65525F3, 0xAA55AB94, 0x57489862, 0x63E81440,
    0x55CA396A, 0x2AAB10B6, 0xB4CC5C34, 0x1141E8CE, 0xA15486AF, 0x7C72E993, 0xB3EE1411, 0x636FBC2A,
    0x2BA9C55D, 0x741831F6, 0xCE5C3E16, 0x9B87931E, 0xAFD6BA33, 0x6C24CF5C, 0x7A325381, 0x28958677,
    0x3B8F4898, 0x6B4BB9AF, 0xC4BFE81B, 0x66282193, 0x61D809CC, 0xFB21A991, 0x487CAC60, 0x5DEC8032,
    0xEF845D5D, 0xE98575B1, 0xDC262302, 0xEB651B88, 0x23893E81, 0xD396ACC5, 0x0F6D6FF3, 0x83F44239,
    0x2E0B4482, 0xA4842004, 0x69C8F04A, 0x9E1F9B5E, 0x21C66842, 0xF6E96C9A, 0x670C9C61, 0xABD388F0,
    0x6A51A0D2, 0xD8542F68, 0x960FA728, 0xAB5133A3, 0x6EEF0B6C, 0x137A3BE4, 0xBA3BF050, 0x7EFB2A98,
    0xA1F1651D, 0x39AF0176, 0x66CA593E, 0x82430E88, 0x8CEE8619, 0x456F9FB4, 0x7D84A5C3, 0x3B8B5EBE,
    0xE06F75D8, 0x85C12073, 0x401A449F, 0x56C16AA6, 0x4ED3AA62, 0x363F7706, 0x1BFEDF72, 0x429B023D,
    0x37D0D724, 0xD00A1248, 0xDB0FEAD3, 0x49F1C09B, 0x075372C9, 0x80991B7B, 0x25D479D8, 0xF6E8DEF7,
    0xE3FE501A, 0xB6794C3B, 0x976CE0BD, 0x04C006BA, 0xC1A94FB6, 0x409F60C4, 0x5E5C9EC2, 0x196A2463,
    0x68FB6FAF, 0x3E6C53B5, 0x1339B2EB, 0x3B52EC6F, 0x6DFC511F, 0x9B30952C, 0xCC814544, 0xAF5EBD09,
    0xBEE3D004, 0xDE334AFD, 0x660F2807, 0x192E4BB3, 0xC0CBA857, 0x45C8740F, 0xD20B5F39, 0xB9D3FBDB,
    0x5579C0BD, 0x1A60320A, 0xD6A100C6, 0x402C7279, 0x679F25FE, 0xFB1FA3CC, 0x8EA5E9F8, 0xDB3222F8,
    0x3C7516DF, 0xFD616B15, 0x2F501EC8, 0xAD0552AB, 0x323DB5FA, 0xFD238760, 0x53317B48, 0x3E00DF82,
    0x9E5C57BB, 0xCA6F8CA0, 0x1A87562E, 0xDF1769DB, 0xD542A8F6, 0x287EFFC3, 0xAC6732C6, 0x8C4F5573,
    0x695B27B0, 0xBBCA58C8, 0xE1FFA35D, 0xB8F011A0, 0x10FA3D98, 0xFD2183B8, 0x4AFCB56C, 0x2DD1D35B,
    0x9A53E479, 0xB6F84565, 0xD28E49BC, 0x4BFB9790, 0xE1DDF2DA, 0xA4CB7E33, 0x62FB1341, 0xCEE4C6E8,
    0xEF20CADA, 0x36774C01, 0xD07E9EFE, 0x2BF11FB4, 0x95DBDA4D, 0xAE909198, 0xEAAD8E71, 0x6B93D5A0,
    0xD08ED1D0, 0xAFC725E0, 0x8E3C5B2F, 0x8E7594B7, 0x8FF6E2FB, 0xF2122B64, 0x8888B812, 0x900DF01C,
    0x4FAD5EA0, 0x688FC31C, 0xD1CFF191, 0xB3A8C1AD, 0x2F2F2218, 0xBE0E1777, 0xEA752DFE, 0x8B021FA1,
    0xE5A0CC0F, 0xB56F74E8, 0x18ACF3D6, 0xCE89E299, 0xB4A84FE0, 0xFD13E0B7, 0x7CC43B81, 0xD2ADA8D9,
    0x165FA266, 0x80957705, 0x93CC7314, 0x211A1477, 0xE6AD2065, 0x77B5FA86, 0xC75442F5, 0xFB9D35CF,
    0xEBCDAF0C, 0x7B3E89A0, 0xD6411BD3, 0xAE1E7E49, 0x00250E2D, 0x2071B35E, 0x226800BB, 0x57B8E0AF,
    0x2464369B, 0xF009B91E, 0x5563911D, 0x59DFA6AA, 0x78C14389, 0xD95A537F, 0x207D5BA2, 0x02E5B9C5,
    0x83260376, 0x6295CFA9, 0x11C81968, 0x4E734A41, 0xB3472DCA, 0x7B14A94A, 0x1B510052, 0x9A532915,
    0xD60F573F, 0xBC9BC6E4, 0x2B60A476, 0x81E67400, 0x08BA6FB5, 0x571BE91F, 0xF296EC6B, 0x2A0DD915,
    0xB6636521, 0xE7B9F9B6, 0xFF34052E, 0xC5855664, 0x53B02D5D, 0xA99F8FA1, 0x08BA4799, 0x6E85076A]"

definition ORIG_S1 :: "u32 list" where
  "ORIG_S1 = [
    0x4B7A70E9, 0xB5B32944, 0xDB75092E, 0xC4192623, 0xAD6EA6B0, 0x49A7DF7D, 0x9CEE60B8, 0x8FEDB266,
    0xECAA8C71, 0x699A17FF, 0x5664526C, 0xC2B19EE1, 0x193602A5, 0x75094C29, 0xA0591340, 0xE4183A3E,
    0x3F54989A, 0x5B429D65, 0x6B8FE4D6, 0x99F73FD6, 0xA1D29C07, 0xEFE830F5, 0x4D2D38E6, 0xF0255DC1,
    0x4CDD2086, 0x8470EB26, 0x6382E9C6, 0x021ECC5E, 0x09686B3F, 0x3EBAEFC9, 0x3C971814, 0x6B6A70A1,
    0x687F3584, 0x52A0E286, 0xB79C5305, 0xAA500737, 0x3E07841C, 0x7FDEAE5C, 0x8E7D44EC, 0x5716F2B8,
    0xB03ADA37, 0xF0500C0D, 0xF01C1F04, 0x0200B3FF, 0xAE0CF51A, 0x3CB574B2, 0x25837A58, 0xDC0921BD,
    0xD19113F9, 0x7CA92FF6, 0x94324773, 0x22F54701, 0x3AE5E581, 0x37C2DADC, 0xC8B57634, 0x9AF3DDA7,
    0xA9446146, 0x0FD0030E, 0xECC8C73E, 0xA4751E41, 0xE238CD99, 0x3BEA0E2F, 0x3280BBA1, 0x183EB331,
    0x4E548B38, 0x4F6DB908, 0x6F420D03, 0xF60A04BF, 0x2CB81290, 0x24977C79, 0x5679B072, 0xBCAF89AF,
    0xDE9A771F, 0xD9930810, 0xB38BAE12, 0xDCCF3F2E, 0x5512721F, 0x2E6B7124, 0x501ADDE6, 0x9F84CD87,
    0x7A584718, 0x7408DA17, 0xBC9F9ABC, 0xE94B7D8C, 0xEC7AEC3A, 0xDB851DFA, 0x63094366, 0xC464C3D2,
    0xEF1C1847, 0x3215D908, 0xDD433B37, 0x24C2BA16, 0x12A14D43, 0x2A65C451, 0x50940002, 0x133AE4DD,
    0x71DFF89E, 0x10314E55, 0x81AC77D6, 0x5F11199B, 0x043556F1, 0xD7A3C76B, 0x3C11183B, 0x5924A509,
    0xF28FE6ED, 0x97F1FBFA, 0x9EBABF2C, 0x1E153C6E, 0x86E34570, 0xEAE96FB1, 0x860E5E0A, 0x5A3E2AB3,
    0x771FE71C, 0x4E3D06FA, 0x2965DCB9, 0x99E71D0F, 0x803E89D6, 0x5266C825, 0x2E4CC978, 0x9C10B36A,
    0xC6150EBA, 0x94E2EA78, 0xA5FC3C53, 0x1E0A2DF4, 0xF2F74EA7, 0x361D2B3D, 0x1939260F, 0x19C27960,
    0x5223A708, 0xF71312B6, 0xEBADFE6E, 0xEAC31F66, 0xE3BC4595, 0xA67BC883, 0xB17F37D1, 0x018CFF28,
    0xC332DDEF, 0xBE6C5AA5, 0x65582185, 0x68AB9802, 0xEECEA50F, 0xDB2F953B, 0x2AEF7DAD, 0x5B6E2F84,
    0x1521B628, 0x29076170, 0xECDD4775, 0x619F1510, 0x13CCA830, 0xEB61BD96, 0x0334FE1E, 0xAA0363CF,
    0xB5735C90, 0x4C70A239, 0xD59E9E0B, 0xCBAADE14, 0xEECC86BC, 0x60622CA7, 0x9CAB5CAB, 0xB2F3846E,
    0x648B1EAF, 0x19BDF0CA, 0xA02369B9, 0x655ABB50, 0x40685A32, 0x3C2AB4B3, 0x319EE9D5, 0xC021B8F7,
    0x9B540B19, 0x875FA099, 0x95F7997E, 0x623D7DA8, 0xF837889A, 0x97E32D77, 0x11ED935F, 0x16681281,
    0x0E358829, 0xC7E61FD6, 0x96DEDFA1, 0x7858BA99, 0x57F584A5, 0x1B227263, 0x9B83C3FF, 0x1AC24696,
    0xCDB30AEB, 0x532E3054, 0x8FD948E4, 0x6DBC3128, 0x58EBF2EF, 0x34C6FFEA, 0xFE28ED61, 0xEE7C3C73,
    0x5D4A14D9, 0xE864B7E3, 0x42105D14, 0x203E13E0, 0x45EEE2B6, 0xA3AAABEA, 0xDB6C4F15, 0xFACB4FD0,
    0xC742F442, 0xEF6ABBB5, 0x654F3B1D, 0x41CD2105, 0xD81E799E, 0x86854DC7, 0xE44B476A, 0x3D816250,
    0xCF62A1F2, 0x5B8D2646, 0xFC8883A0, 0xC1C7B6A3, 0x7F1524C3, 0x69CB7492, 0x47848A0B, 0x5692B285,
    0x095BBF00, 0xAD19489D, 0x1462B174, 0x23820E00, 0x58428D2A, 0x0C55F5EA, 0x1DADF43E, 0x233F7061,
    0x3372F092, 0x8D937E41, 0xD65FECF1, 0x6C223BDB, 0x7CDE3759, 0xCBEE7460, 0x4085F2A7, 0xCE77326E,
    0xA6078084, 0x19F8509E, 0xE8EFD855, 0x61D99735, 0xA969A7AA, 0xC50C06C2, 0x5A04ABFC, 0x800BCADC,
    0x9E447A2E, 0xC3453484, 0xFDD56705, 0x0E1E9EC9, 0xDB73DBD3, 0x105588CD, 0x675FDA79, 0xE3674340,
    0xC5C43465, 0x713E38D8, 0x3D28F89E, 0xF16DFF20, 0x153E21E7, 0x8FB03D4A, 0xE6E39F2B, 0xDB83ADF7]"

definition ORIG_S2 :: "u32 list" where
  "ORIG_S2 = [
    0xE93D5A68, 0x948140F7, 0xF64C261C, 0x94692934, 0x411520F7, 0x7602D4F7, 0xBCF46B2E, 0xD4A20068,
    0xD4082471, 0x3320F46A, 0x43B7D4B7, 0x500061AF, 0x1E39F62E, 0x97244546, 0x14214F74, 0xBF8B8840,
    0x4D95FC1D, 0x96B591AF, 0x70F4DDD3, 0x66A02F45, 0xBFBC09EC, 0x03BD9785, 0x7FAC6DD0, 0x31CB8504,
    0x96EB27B3, 0x55FD3941, 0xDA2547E6, 0xABCA0A9A, 0x28507825, 0x530429F4, 0x0A2C86DA, 0xE9B66DFB,
    0x68DC1462, 0xD7486900, 0x680EC0A4, 0x27A18DEE, 0x4F3FFEA2, 0xE887AD8C, 0xB58CE006, 0x7AF4D6B6,
    0xAACE1E7C, 0xD3375FEC, 0xCE78A399, 0x406B2A42, 0x20FE9E35, 0xD9F385B9, 0xEE39D7AB, 0x3B124E8B,
    0x1DC9FAF7, 0x4B6D1856, 0x26A36631, 0xEAE397B2, 0x3A6EFA74, 0xDD5B4332, 0x6841E7F7, 0xCA7820FB,
    0xFB0AF54E, 0xD8FEB397, 0x454056AC, 0xBA489527, 0x55533A3A, 0x20838D87, 0xFE6BA9B7, 0xD096954B,
    0x55A867BC, 0xA1159A58, 0xCCA92963, 0x99E1DB33, 0xA62A4A56, 0x3F3125F9, 0x5EF47E1C, 0x9029317C,
    0xFDF8E802, 0x04272F70, 0x80BB155C, 0x05282CE3, 0x95C11548, 0xE4C66D22, 0x48C1133F, 0xC70F86DC,
    0x07F9C9EE, 0x41041F0F, 0x404779A4, 0x5D886E17, 0x325F51EB, 0xD59BC0D1, 0xF2BCC18F, 0x41113564,
    0x257B7834, 0x602A9C60, 0xDFF8E8A3, 0x1F636C1B, 0x0E12B4C2, 0x02E1329E, 0xAF664FD1, 0xCAD18115,
    0x6B2395E0, 0x333E92E1, 0x3B240B62, 0xEEBEB922, 0x85B2A20E, 0xE6BA0D99, 0xDE720C8C, 0x2DA2F728,
    0xD0127845, 0x95B794FD, 0x647D0862, 0xE7CCF5F0, 0x5449A36F, 0x877D48FA, 0xC39DFD27, 0xF33E8D1E,
    0x0A476341, 0x992EFF74, 0x3A6F6EAB, 0xF4F8FD37, 0xA812DC60, 0xA1EBDDF8, 0x991BE14C, 0xDB6E6B0D,
    0xC67B5510, 0x6D672C37, 0x2765D43B, 0xDCD0E804, 0xF1290DC7, 0xCC00FFA3, 0xB5390F92, 0x690FED0B,
    0x667B9FFB, 0xCEDB7D9C, 0xA091CF0B, 0xD9155EA3, 0xBB132F88, 0x515BAD24, 0x7B9479BF, 0x763BD6EB,
    0x37392EB3, 0xCC115979, 0x8026E297, 0xF42E312D, 0x6842ADA7, 0xC66A2B3B, 0x12754CCC, 0x782EF11C,
    0x6A124237, 0xB79251E7, 0x06A1BBE6, 0x4BFB6350, 0x1A6B1018, 0x11CAEDFA, 0x3D25BDD8, 0xE2E1C3C9,
    0x44421659, 0x0A121386, 0xD90CEC6E, 0xD5ABEA2A, 0x64AF674E, 0xDA86A85F, 0xBEBFE988, 0x64E4C3FE,
    0x9DBC8057, 0xF0F7C086, 0x60787BF8, 0x6003604D, 0xD1FD8346, 0xF6381FB0, 0x7745AE04, 0xD736FCCC,
    0x83426B33, 0xF01EAB71, 0xB0804187, 0x3C005E5F, 0x77A057BE, 0xBDE8AE24, 0x55464299, 0xBF582E61,
    0x4E58F48F, 0xF2DDFDA2, 0xF474EF38, 0x8789BDC2, 0x5366F9C3, 0xC8B38E74, 0xB475F255, 0x46FCD9B9,
    0x7AEB2661, 0x8B1DDF84, 0x846A0E79, 0x915F95E2, 0x466E598E, 0x20B45770, 0x8CD55591, 0xC902DE4C,
    0xB90BACE1, 0xBB8205D0, 0x11A86248, 0x7574A99E, 0xB77F19B6, 0xE0A9DC09, 0x662D09A1, 0xC4324633,
    0xE85A1F02, 0x09F0BE8C, 0x4A99A025, 0x1D6EFE10, 0x1AB93D1D, 0x0BA5A4DF, 0xA186F20F, 0x2868F169,
    0xDCB7DA83, 0x573906FE, 0xA1E2CE9B, 0x4FCD7F52, 0x50115E01, 0xA70683FA, 0xA002B5C4, 0x0DE6D027,
    0x9AF88C27, 0x773F8641, 0xC3604C06, 0x61A806B5, 0xF0177A28, 0xC0F586E0, 0x006058AA, 0x30DC7D62,
    0x11E69ED7, 0x2338EA63, 0x53C2DD94, 0xC2C21634, 0xBBCBEE56, 0x90BCB6DE, 0xEBFC7DA1, 0xCE591D76,
    0x6F05E409, 0x4B7C0188, 0x39720A3D, 0x7C927C24, 0x86E3725F, 0x724D9DB9, 0x1AC15BB4, 0xD39EB8FC,
    0xED545578, 0x08FCA5B5, 0xD83D7CD3, 0x4DAD0FC4, 0x1E50EF5E, 0xB161E6F8, 0xA28514D9, 0x6C51133C,
    0x6FD5C7E7, 0x56E14EC4, 0x362ABFCE, 0xDDC6C837, 0xD79A3234, 0x92638212, 0x670EFA8E, 0x406000E0]"

definition ORIG_S3 :: "u32 list" where
  "ORIG_S3 = [
    0x3A39CE37, 0xD3FAF5CF, 0xABC27737, 0x5AC52D1B, 0x5CB0679E, 0x4FA33742, 0xD3822740, 0x99BC9BBE,
    0xD5118E9D, 0xBF0F7315, 0xD62D1C7E, 0xC700C47B, 0xB78C1B6B, 0x21A19045, 0xB26EB1BE, 0x6A366EB4,
    0x5748AB2F, 0xBC946E79, 0xC6A376D2, 0x6549C2C8, 0x530FF8EE, 0x468DDE7D, 0xD5730A1D, 0x4CD04DC6,
    0x2939BBDB, 0xA9BA4650, 0xAC9526E8, 0xBE5EE304, 0xA1FAD5F0, 0x6A2D519A, 0x63EF8CE2, 0x9A86EE22,
    0xC089C2B8, 0x43242EF6, 0xA51E03AA, 0x9CF2D0A4, 0x83C061BA, 0x9BE96A4D, 0x8FE51550, 0xBA645BD6,
    0x2826A2F9, 0xA73A3AE1, 0x4BA99586, 0xEF5562E9, 0xC72FEFD3, 0xF752F7DA, 0x3F046F69, 0x77FA0A59,
    0x80E4A915, 0x87B08601, 0x9B09E6AD, 0x3B3EE593, 0xE990FD5A, 0x9E34D797, 0x2CF0B7D9, 0x022B8B51,
    0x96D5AC3A, 0x017DA67D, 0xD1CF3ED6, 0x7C7D2D28, 0x1F9F25CF, 0xADF2B89B, 0x5AD6B472, 0x5A88F54C,
    0xE029AC71, 0xE019A5E6, 0x47B0ACFD, 0xED93FA9B, 0xE8D3C48D, 0x283B57CC, 0xF8D56629, 0x79132E28,
    0x785F0191, 0xED756055, 0xF7960E44, 0xE3D35E8C, 0x15056DD4, 0x88F46DBA, 0x03A16125, 0x0564F0BD,
    0xC3EB9E15, 0x3C9057A2, 0x97271AEC, 0xA93A072A, 0x1B3F6D9B, 0x1E6321F5, 0xF59C66FB, 0x26DCF319,
    0x7533D928, 0xB155FDF5, 0x03563482, 0x8ABA3CBB, 0x28517711, 0xC20AD9F8, 0xABCC5167, 0xCCAD925F,
    0x4DE81751, 0x3830DC8E, 0x379D5862, 0x9320F991, 0xEA7A90C2, 0xFB3E7BCE, 0x5121CE64, 0x774FBE32,
    0xA8B6E37E, 0xC3293D46, 0x48DE5369, 0x6413E680, 0xA2AE0810, 0xDD6DB224, 0x69852DFD, 0x09072166,
    0xB39A460A, 0x6445C0DD, 0x586CDECF, 0x1C20C8AE, 0x5BBEF7DD, 0x1B588D40, 0xCCD2017F, 0x6BB4E3BB,
    0xDDA26A7E, 0x3A59FF45, 0x3E350A44, 0xBCB4CDD5, 0x72EACEA8, 0xFA6484BB, 0x8D6612AE, 0xBF3C6F47,
    0xD29BE463, 0x542F5D9E, 0xAEC2771B, 0xF64E6370, 0x740E0D8D, 0xE75B1357, 0xF8721671, 0xAF537D5D,
    0x4040CB08, 0x4EB4E2CC, 0x34D2466A, 0x0115AF84, 0xE1B00428, 0x95983A1D, 0x06B89FB4, 0xCE6EA048,
    0x6F3F3B82, 0x3520AB82, 0x011A1D4B, 0x277227F8, 0x611560B1, 0xE7933FDC, 0xBB3A792B, 0x344525BD,
    0xA08839E1, 0x51CE794B, 0x2F32C9B7, 0xA01FBAC9, 0xE01CC87E, 0xBCC7D1F6, 0xCF0111C3, 0xA1E8AAC7,
    0x1A908749, 0xD44FBD9A, 0xD0DADECB, 0xD50ADA38, 0x0339C32A, 0xC6913667, 0x8DF9317C, 0xE0B12B4F,
    0xF79E59B7, 0x43F5BB3A, 0xF2D519FF, 0x27D9459C, 0xBF97222C, 0x15E6FC2A, 0x0F91FC71, 0x9B941525,
    0xFAE59361, 0xCEB69CEB, 0xC2A86459, 0x12BAA8D1, 0xB6C1075E, 0xE3056A0C, 0x10D25065, 0xCB03A442,
    0xE0EC6E0E, 0x1698DB3B, 0x4C98A0BE, 0x3278E964, 0x9F1F9532, 0xE0D392DF, 0xD3A0342B, 0x8971F21E,
    0x1B0A7441, 0x4BA3348C, 0xC5BE7120, 0xC37632D8, 0xDF359F8D, 0x9B992F2E, 0xE60B6F47, 0x0FE3F11D,
    0xE54CDA54, 0x1EDAD891, 0xCE6279CF, 0xCD3E7E6F, 0x1618B166, 0xFD2C1D05, 0x848FD2C5, 0xF6FB2299,
    0xF523F357, 0xA6327623, 0x93A83531, 0x56CCCD02, 0xACF08162, 0x5A75EBB5, 0x6E163697, 0x88D273CC,
    0xDE966292, 0x81B949D0, 0x4C50901B, 0x71C65614, 0xE6C6C7BD, 0x327A140A, 0x45E1D006, 0xC3F27B9A,
    0xC9AA53FD, 0x62A80F00, 0xBB25BFE2, 0x35BDD2F6, 0x71126905, 0xB2040222, 0xB6CBCF7C, 0xCD769C2B,
    0x53113EC0, 0x1640E3D3, 0x38ABBD60, 0x2547ADF0, 0xBA38209C, 0xF746CE76, 0x77AFA1C5, 0x20756060,
    0x85CBFE4E, 0x8AE88DD8, 0x7AAAF9B0, 0x4CF9AA7E, 0x1948C25C, 0x02FB8A8C, 0x01C36AE4, 0xD6EBE1F9,
    0x90D4F869, 0xA65CDEA0, 0x3F09252D, 0xC208E69F, 0xB74E6132, 0xCE77E25B, 0x578FDFE3, 0x3AC372E6]"

definition ORIG_S :: "u32 list list" where
  "ORIG_S = [ORIG_S0, ORIG_S1, ORIG_S2, ORIG_S3]"

definition F :: "BLOWFISH_CTX \<Rightarrow> u32 \<Rightarrow> u32" where
  "F ctx x = (let d = x AND 0x00FF; x = drop_bit 8 x; c = x AND 0x00FF; x = drop_bit 8 x;
      b = x AND 0x00FF; x = drop_bit 8 x; a = x AND 0x00FF;
      y = ctx_S ctx ! 0 ! unat a + ctx_S ctx ! 1 ! unat b;
      y = y XOR ctx_S ctx ! 2 ! unat c in
    y + ctx_S ctx ! 3 ! unat d)"

text \<open>One turn of the loop of either direction, with the halves exchanged at its end.\<close>

definition bf_round :: "BLOWFISH_CTX \<Rightarrow> nat \<Rightarrow> u32 \<times> u32 \<Rightarrow> u32 \<times> u32" where
  "bf_round ctx i = (\<lambda>(Xl, Xr). let Xl = Xl XOR ctx_P ctx ! i; Xr = F ctx Xl XOR Xr in (Xr, Xl))"

definition blowfishEncrypt :: "BLOWFISH_CTX \<Rightarrow> u32 \<times> u32 \<Rightarrow> u32 \<times> u32" where
  "blowfishEncrypt ctx x = (case fold (bf_round ctx) [0..<16] x of
     (Xl, Xr) \<Rightarrow> let (Xl, Xr) = (Xr, Xl) in (Xl XOR ctx_P ctx ! 17, Xr XOR ctx_P ctx ! 16))"

definition blowfishDecrypt :: "BLOWFISH_CTX \<Rightarrow> u32 \<times> u32 \<Rightarrow> u32 \<times> u32" where
  "blowfishDecrypt ctx x = (case fold (bf_round ctx) (rev [2..<18]) x of
     (Xl, Xr) \<Rightarrow> let (Xl, Xr) = (Xr, Xl) in (Xl XOR ctx_P ctx ! 0, Xr XOR ctx_P ctx ! 1))"

section \<open>The key schedule\<close>

text \<open>Four bytes of the key, which starts again when \<^verbatim>\<open>keyLen\<close> is reached.\<close>

fun key_bytes :: "u8 list \<Rightarrow> int \<Rightarrow> nat \<Rightarrow> u32 \<Rightarrow> nat \<Rightarrow> (u32 \<times> nat) option" where
  "key_bytes key keyLen 0 data j = Some (data, j)"
| "key_bytes key keyLen (Suc k) data j = (if j < length key
     then key_bytes key keyLen k (push_bit 8 data OR ucast (key ! j)) (if int (j + 1) \<ge> keyLen then 0 else j + 1)
     else None)"

fun mix_key :: "u8 list \<Rightarrow> int \<Rightarrow> nat \<Rightarrow> u32 list \<Rightarrow> u32 list option" where
  "mix_key key keyLen j [] = Some []"
| "mix_key key keyLen j (p # ps) = (case key_bytes key keyLen 4 0 j of
     None \<Rightarrow> None
   | Some (data, j') \<Rightarrow> map_option ((#) (p XOR data)) (mix_key key keyLen j' ps))"

definition expand_P :: "nat \<Rightarrow> BLOWFISH_CTX \<times> u32 \<times> u32 \<Rightarrow> BLOWFISH_CTX \<times> u32 \<times> u32" where
  "expand_P i = (\<lambda>(ctx, d). case blowfishEncrypt ctx d of
     (datal, datar) \<Rightarrow> (ctx\<lparr>ctx_P := (ctx_P ctx)[i := datal, i + 1 := datar]\<rparr>, datal, datar))"

definition expand_S :: "nat \<times> nat \<Rightarrow> BLOWFISH_CTX \<times> u32 \<times> u32 \<Rightarrow> BLOWFISH_CTX \<times> u32 \<times> u32" where
  "expand_S = (\<lambda>(i, j) (ctx, d). case blowfishEncrypt ctx d of
     (datal, datar) \<Rightarrow> (ctx\<lparr>ctx_S := (ctx_S ctx)[i := (ctx_S ctx ! i)[j := datal, j + 1 := datar]]\<rparr>, datal, datar))"

definition evens :: "nat \<Rightarrow> nat list" where
  "evens n = map (\<lambda>k. 2 * k) [0..<n div 2]"

text \<open>\<open>mem\<close> is the memory of the new handle; a handle that is not allocated is null.\<close>

definition blowfishInit :: "BLOWFISH_CTX option \<Rightarrow> u8 list \<Rightarrow> int \<Rightarrow> BLOWFISH_CTX option option" where
  "blowfishInit mem key keyLen = (case mem of
     None \<Rightarrow> Some None
   | Some m \<Rightarrow> (case mix_key key keyLen 0 ORIG_P of
       None \<Rightarrow> None
     | Some P \<Rightarrow> (let s = (m\<lparr>ctx_S := ORIG_S, ctx_P := P\<rparr>, 0, 0);
           s = fold expand_P (evens 18) s;
           s = fold expand_S (concat (map (\<lambda>i. map (Pair i) (evens 256)) [0..<4])) s in
         Some (Some ((fst s)\<lparr>ctx_init := 1\<rparr>)))))"

definition isBlowfishInit :: "BLOWFISH_CTX \<Rightarrow> bool" where
  "isBlowfishInit ctx \<longleftrightarrow> ctx_init ctx \<noteq> 0"

section \<open>Packets\<close>

definition load32 :: "u8 list \<Rightarrow> u32" where
  "load32 bs = ucast (bs ! 0) OR push_bit 8 (ucast (bs ! 1)) OR push_bit 16 (ucast (bs ! 2)) OR push_bit 24 (ucast (bs ! 3))"

definition store32 :: "u32 \<Rightarrow> u8 list" where
  "store32 w = [ucast w, ucast (drop_bit 8 w), ucast (drop_bit 16 w), ucast (drop_bit 24 w)]"

definition rotatedWord :: "u32 \<Rightarrow> u32" where
  "rotatedWord dWord = (let pByte = store32 dWord;
      r = 0 OR ucast (pByte ! 0); r = push_bit 8 r;
      r = r OR ucast (pByte ! 1); r = push_bit 8 r;
      r = r OR ucast (pByte ! 2); r = push_bit 8 r in
    r OR ucast (pByte ! 3))"

text \<open>Eight bytes through the cipher.\<close>

definition crypt_block :: "(u32 \<times> u32 \<Rightarrow> u32 \<times> u32) \<Rightarrow> u8 list \<Rightarrow> u8 list" where
  "crypt_block f bs = (case f (rotatedWord (load32 (take 4 bs)), rotatedWord (load32 (drop 4 bs))) of
     (L, R) \<Rightarrow> store32 (rotatedWord L) @ store32 (rotatedWord R))"

function crypt_loop :: "(u32 \<times> u32 \<Rightarrow> u32 \<times> u32) \<Rightarrow> nat \<Rightarrow> nat \<Rightarrow> u8 list \<Rightarrow> u8 list option" where
  "crypt_loop f ByteCtr sz buf = (if ByteCtr < sz
     then if ByteCtr + 8 \<le> length buf
       then crypt_loop f (ByteCtr + 8) sz
         (take ByteCtr buf @ crypt_block f (take 8 (drop ByteCtr buf)) @ drop (ByteCtr + 8) buf)
       else None
     else Some buf)"
  by pat_completeness auto
termination by (relation "measure (\<lambda>(f, ByteCtr, sz, buf). sz - ByteCtr)") auto

declare crypt_loop.simps [simp del]

definition REQ_BUFF_SIZE :: "u32 \<Rightarrow> u32" where
  "REQ_BUFF_SIZE X = (if X mod 8 \<noteq> 0 then X + (8 - X mod 8) else X)"

definition padForEightMul :: "u8 list \<Rightarrow> nat \<Rightarrow> u8 list \<Rightarrow> u8 list option" where
  "padForEightMul buff sz padBuf = (let n = (if sz mod 8 \<noteq> 0 then 8 - sz mod 8 else 0) in
     if sz \<le> length buff \<and> sz + n \<le> length padBuf
     then Some (take sz buff @ replicate n 0 @ drop (sz + n) padBuf)
     else None)"

definition blowfishEncryptPacket :: "u8 list \<Rightarrow> u32 \<Rightarrow> u8 list \<Rightarrow> u32 \<Rightarrow> BLOWFISH_CTX option
    \<Rightarrow> (int \<times> u8 list) option" where
  "blowfishEncryptPacket inBuf sizeInBuf outBuf sizeOutBuf ctx =
    (if sizeOutBuf \<noteq> REQ_BUFF_SIZE sizeInBuf then Some (-1, outBuf)
     else case ctx of
       None \<Rightarrow> None
     | Some c \<Rightarrow> if \<not> isBlowfishInit c then Some (-1, outBuf)
         else (case padForEightMul inBuf (unat sizeInBuf) outBuf of
             None \<Rightarrow> None
           | Some out \<Rightarrow> map_option (Pair 0) (crypt_loop (blowfishEncrypt c) 0 (unat sizeOutBuf) out)))"

text \<open>The length of a packet to decrypt is an \<^verbatim>\<open>int\<close>.\<close>

definition REQ_DECRYPT_BUFF_SIZE :: "int \<Rightarrow> int" where
  "REQ_DECRYPT_BUFF_SIZE X = (if X smod 8 \<noteq> 0 then X + (8 - X smod 8) else X)"

definition blowfishDecryptPacket :: "u8 list \<Rightarrow> int \<Rightarrow> BLOWFISH_CTX option \<Rightarrow> (int \<times> u8 list) option" where
  "blowfishDecryptPacket packet packLen ctx =
    (if packLen \<noteq> REQ_DECRYPT_BUFF_SIZE packLen then Some (-1, packet)
     else if packLen smod 8 \<noteq> 0 then Some (-1, packet)
     else case ctx of
       None \<Rightarrow> None
     | Some c \<Rightarrow> if \<not> isBlowfishInit c then Some (-1, packet)
         else map_option (Pair 0) (crypt_loop (blowfishDecrypt c) 0 (nat packLen) packet))"

section \<open>Passwords\<close>

definition memset0 :: "u8 list \<Rightarrow> nat \<Rightarrow> u8 list option" where
  "memset0 buf n = (if n \<le> length buf then Some (replicate n 0 @ drop n buf) else None)"

definition EncryptPassword :: "BLOWFISH_CTX option \<Rightarrow> u8 list \<Rightarrow> u8 \<Rightarrow> u8 list \<Rightarrow> u8 \<Rightarrow> u8 list
    \<Rightarrow> (int \<times> u8 list) option" where
  "EncryptPassword mem PlainPswd sizeInBuf EncryptPswd sizeOutBuf EncryptKey =
    (case strlen EncryptKey of
       None \<Rightarrow> None
     | Some n \<Rightarrow> (case blowfishInit mem EncryptKey (int n) of
         None \<Rightarrow> None
       | Some None \<Rightarrow> Some (-1, EncryptPswd)
       | Some (Some PwdHandle) \<Rightarrow> (case memset0 EncryptPswd (unat sizeOutBuf) of
           None \<Rightarrow> None
         | Some E \<Rightarrow> blowfishEncryptPacket PlainPswd (ucast sizeInBuf) E (REQ_BUFF_SIZE (ucast sizeOutBuf)) (Some PwdHandle))))"

text \<open>\<open>tmp\<close> is the memory of the copy that is decrypted; it has the rounded length of the input.\<close>

definition DecryptPassword :: "u8 list option \<Rightarrow> BLOWFISH_CTX option \<Rightarrow> u8 list \<Rightarrow> u8 \<Rightarrow> u8 list \<Rightarrow> u8 \<Rightarrow> u8 list
    \<Rightarrow> (int \<times> u8 list) option" where
  "DecryptPassword tmp mem EncryptPswd sizeInBuf DecryptPswd sizeOutBuf EncryptKey = (case tmp of
     None \<Rightarrow> Some (-1, DecryptPswd)
   | Some DecryptedPass \<Rightarrow> (case strlen EncryptKey of
       None \<Rightarrow> None
     | Some n \<Rightarrow> (case blowfishInit mem EncryptKey (int n) of
         None \<Rightarrow> None
       | Some None \<Rightarrow> Some (-1, DecryptPswd)
       | Some (Some PwdHandle) \<Rightarrow> (case memset0 DecryptPswd (unat sizeOutBuf) of
           None \<Rightarrow> None
         | Some D \<Rightarrow> (let req = nat (REQ_DECRYPT_BUFF_SIZE (uint sizeInBuf)) in
             if req \<le> length DecryptedPass \<and> req \<le> length EncryptPswd then
               (case blowfishDecryptPacket (take req EncryptPswd @ drop req DecryptedPass)
                   (REQ_DECRYPT_BUFF_SIZE (uint sizeOutBuf)) (Some PwdHandle) of
                 None \<Rightarrow> None
               | Some (retVal, P) \<Rightarrow> if retVal \<noteq> 0 then Some (retVal, D)
                   else if unat sizeOutBuf \<le> length P
                     then Some (retVal, take (unat sizeOutBuf) P @ drop (unat sizeOutBuf) D) else None)
             else None)))))"

section \<open>The key file\<close>

text \<open>
  The file is its contents, or null when it cannot be opened; \<^verbatim>\<open>%s\<close> skips white space and reads up to
  white space, a null byte in the file included.
\<close>

definition isspace :: "u8 \<Rightarrow> bool" where
  "isspace c \<longleftrightarrow> c = 32 \<or> 9 \<le> c \<and> c \<le> 13"

definition getEncryptKey :: "u8 list option \<Rightarrow> u8 list \<Rightarrow> (int \<times> u8 list) option" where
  "getEncryptKey file EncryptKey = (case file of
     None \<Rightarrow> Some (-1, EncryptKey)
   | Some cs \<Rightarrow> (case memset0 EncryptKey 56 of
       None \<Rightarrow> None
     | Some K \<Rightarrow> (let w = takeWhile (\<lambda>c. \<not> isspace c) (dropWhile isspace cs) in
         if w = [] then Some (-1, K)
         else if length w < length K then Some (0, w @ 0 # drop (Suc (length w)) K)
         else None)))"

text \<open>The file after it was opened for writing, which truncates it.\<close>

definition setEncryptKey :: "bool \<Rightarrow> u8 list option \<Rightarrow> u8 list \<Rightarrow> (int \<times> u8 list option) option" where
  "setEncryptKey can_open file EncryptKey = (if \<not> can_open then Some (-1, file)
     else case strlen EncryptKey of
       None \<Rightarrow> None
     | Some n \<Rightarrow> Some (0, Some (take n EncryptKey)))"

section \<open>Decryption undoes encryption\<close>

lemma bf_rounds_back:
  "fold (bf_round ctx) [0..<n] (l, r) = (a, b) \<Longrightarrow>
   fold (bf_round ctx) (rev [2..<n + 2]) (b XOR ctx_P ctx ! (n + 1), a XOR ctx_P ctx ! n)
     = (r XOR ctx_P ctx ! 1, l XOR ctx_P ctx ! 0)"
proof (induction n arbitrary: a b)
  case (Suc n)
  obtain c d where cd: "fold (bf_round ctx) [0..<n] (l, r) = (c, d)" by fastforce
  with Suc.prems have "bf_round ctx n (c, d) = (a, b)" by simp
  then have ab: "a = F ctx (c XOR ctx_P ctx ! n) XOR d" "b = c XOR ctx_P ctx ! n"
    by (auto simp: bf_round_def Let_def)
  have "bf_round ctx (n + 2) (b XOR ctx_P ctx ! (n + 2), a XOR ctx_P ctx ! (n + 1))
    = (d XOR ctx_P ctx ! (n + 1), c XOR ctx_P ctx ! n)"
    by (simp add: bf_round_def Let_def ab xor.assoc xor.left_commute)
  then show ?case using Suc.IH [OF cd] by simp
qed simp

lemma blowfishDecrypt_Encrypt: "blowfishDecrypt ctx (blowfishEncrypt ctx x) = x"
proof -
  obtain l r a b where x: "x = (l, r)" and f: "fold (bf_round ctx) [0..<16] (l, r) = (a, b)"
    by (metis surj_pair)
  show ?thesis
    using bf_rounds_back [OF f]
    by (simp add: blowfishEncrypt_def blowfishDecrypt_def x f Let_def xor.assoc del: upt_rec_numeral)
qed

lemma word32_eqI:
  fixes x y :: u32
  assumes "\<And>k. k < 8 \<Longrightarrow> bit x k = bit y k" "\<And>k. k < 8 \<Longrightarrow> bit x (8 + k) = bit y (8 + k)"
    "\<And>k. k < 8 \<Longrightarrow> bit x (16 + k) = bit y (16 + k)" "\<And>k. k < 8 \<Longrightarrow> bit x (24 + k) = bit y (24 + k)"
  shows "x = y"
proof (rule bit_word_eqI)
  fix n assume "n < LENGTH(32)"
  then consider "n < 8" | "8 \<le> n" "n - 8 < 8" | "16 \<le> n" "n - 16 < 8" | "24 \<le> n" "n - 24 < 8" by fastforce
  then show "bit x n = bit y n"
    by cases (use assms(1) [of n] assms(2) [of "n - 8"] assms(3) [of "n - 16"] assms(4) [of "n - 24"] in simp_all)
qed

lemma rotatedWord_twice: "rotatedWord (rotatedWord w) = w"
  by (rule word32_eqI) (auto simp: rotatedWord_def store32_def Let_def bit_simps dest: bit_imp_le_length)

lemma load32_store32: "load32 (store32 w) = w"
  by (rule word32_eqI) (auto simp: load32_def store32_def bit_simps dest: bit_imp_le_length)

lemma store32_load32:
  assumes "length bs = 4"
  shows "store32 (load32 bs) = bs"
proof -
  obtain a b c d where bs: "bs = [a, b, c, d]" using assms by (auto simp: numeral_eq_Suc length_Suc_conv)
  show ?thesis unfolding bs store32_def load32_def
    by (simp; intro conjI bit_word_eqI) (auto simp: bit_simps dest: bit_imp_le_length)
qed

lemma length_crypt_block [simp]: "length (crypt_block f bs) = 8"
  by (simp add: crypt_block_def store32_def split: prod.split)

lemma crypt_block_back:
  assumes "\<And>x. g (f x) = x" "length bs = 8"
  shows "crypt_block g (crypt_block f bs) = bs"
proof -
  obtain L R where LR: "f (rotatedWord (load32 (take 4 bs)), rotatedWord (load32 (drop 4 bs))) = (L, R)" by fastforce
  have len: "length (store32 w) = 4" for w by (simp add: store32_def)
  have "crypt_block f bs = store32 (rotatedWord L) @ store32 (rotatedWord R)" by (simp add: crypt_block_def LR)
  then show ?thesis
    using assms(2) by (simp add: crypt_block_def [of g] len load32_store32 rotatedWord_twice LR [symmetric] assms(1)
        store32_load32)
qed

fun crypt_all :: "(u32 \<times> u32 \<Rightarrow> u32 \<times> u32) \<Rightarrow> nat \<Rightarrow> u8 list \<Rightarrow> u8 list" where
  "crypt_all f 0 bs = []"
| "crypt_all f (Suc n) bs = crypt_block f (take 8 bs) @ crypt_all f n (drop 8 bs)"

lemma length_crypt_all [simp]: "length (crypt_all f n bs) = 8 * n"
  by (induction n arbitrary: bs) simp_all

lemma crypt_all_back:
  assumes "\<And>x. g (f x) = x" "8 * n \<le> length bs"
  shows "crypt_all g n (crypt_all f n bs @ rest) = take (8 * n) bs"
  using assms(2)
proof (induction n arbitrary: bs)
  case (Suc n)
  then have "crypt_all g (Suc n) (crypt_all f (Suc n) bs @ rest) = take 8 bs @ take (8 * n) (drop 8 bs)"
    by (simp add: crypt_block_back [where f = f and g = g, OF assms(1)])
  also have "\<dots> = take (8 * Suc n) bs" by (simp flip: take_add)
  finally show ?case .
qed simp

text \<open>A packet of \<open>n\<close> blocks in its buffer.\<close>

lemma crypt_loop_eq:
  "crypt_loop f k (k + 8 * n) buf = (if n = 0 \<or> k + 8 * n \<le> length buf
     then Some (take k buf @ crypt_all f n (drop k buf) @ drop (k + 8 * n) buf) else None)"
proof (induction n arbitrary: k buf)
  case (Suc n)
  show ?case
  proof (cases "k + 8 \<le> length buf")
    case True
    let ?b = "take k buf @ crypt_block f (take 8 (drop k buf)) @ drop (k + 8) buf"
    have "crypt_loop f k (k + 8 * Suc n) buf = crypt_loop f (k + 8) (k + 8 + 8 * n) ?b"
      using True by (subst crypt_loop.simps) (simp add: add.assoc)
    also have "\<dots> = (if n = 0 \<or> k + 8 + 8 * n \<le> length ?b
      then Some (take (k + 8) ?b @ crypt_all f n (drop (k + 8) ?b) @ drop (k + 8 + 8 * n) ?b) else None)"
      by (rule Suc.IH)
    also have "\<dots> = (if k + 8 * Suc n \<le> length buf
      then Some (take k buf @ crypt_all f (Suc n) (drop k buf) @ drop (k + 8 * Suc n) buf) else None)"
      using True by (auto simp: ac_simps)
    finally show ?thesis by simp
  qed (subst crypt_loop.simps, simp)
qed (subst crypt_loop.simps, simp)

lemma packet_back:
  assumes "8 * n \<le> length buf"
  shows "crypt_loop (blowfishEncrypt c) 0 (8 * n) buf = Some (crypt_all (blowfishEncrypt c) n buf @ drop (8 * n) buf)"
    and "crypt_loop (blowfishDecrypt c) 0 (8 * n) (crypt_all (blowfishEncrypt c) n buf @ rest) = Some (take (8 * n) buf @ rest)"
  using assms crypt_loop_eq [of "blowfishEncrypt c" 0 n buf]
    crypt_loop_eq [of "blowfishDecrypt c" 0 n "crypt_all (blowfishEncrypt c) n buf @ rest"]
    crypt_all_back [of "blowfishDecrypt c" "blowfishEncrypt c" n buf rest]
  by (auto simp: blowfishDecrypt_Encrypt)

section \<open>The handle\<close>

definition ctx_ok :: "BLOWFISH_CTX \<Rightarrow> bool" where
  "ctx_ok c \<longleftrightarrow> length (ctx_P c) = 18 \<and> length (ctx_S c) = 4 \<and> (\<forall>i < 4. length (ctx_S c ! i) = 256)"

text \<open>With tables of this size no access of the cipher leaves them.\<close>

lemma F_index: "unat (x AND 0x00FF :: u32) < 256"
proof -
  have "x AND 0x00FF \<le> 0xFF" by (rule word_and_le1)
  then show ?thesis by (simp add: word_le_nat_alt)
qed

lemma key_bytes_Some:
  assumes "0 \<le> keyLen" "nat keyLen < length key" "int j < keyLen \<or> j = 0"
  shows "\<exists>data' j'. key_bytes key keyLen k data j = Some (data', j') \<and> (int j' < keyLen \<or> j' = 0)"
  using assms(3)
proof (induction k arbitrary: data j)
  case (Suc k)
  then have "j < length key" using assms by auto
  then show ?case using Suc by (cases "int (j + 1) \<ge> keyLen") (auto simp del: of_nat_add)
qed auto

lemma mix_key_Some:
  assumes "0 \<le> keyLen" "nat keyLen < length key" "int j < keyLen \<or> j = 0"
  shows "\<exists>qs. mix_key key keyLen j ps = Some qs \<and> length qs = length ps"
  using assms(3)
proof (induction ps arbitrary: j)
  case (Cons p ps)
  obtain data j' where "key_bytes key keyLen 4 0 j = Some (data, j')" "int j' < keyLen \<or> j' = 0"
    using key_bytes_Some [OF assms(1,2) Cons.prems] by blast
  then show ?case using Cons.IH [of j'] by auto
qed simp

lemma fold_inv: "(\<And>x s. P s \<Longrightarrow> P (f x s)) \<Longrightarrow> P s \<Longrightarrow> P (fold f xs s)"
  by (induction xs arbitrary: s) auto

lemma expand_ok:
  assumes "ctx_ok (fst s)"
  shows "ctx_ok (fst (expand_P i s))" "ctx_ok (fst (expand_S p s))"
proof -
  obtain c d where s: "s = (c, d)" by (cases s)
  obtain a b where p: "p = (a, b)" by (cases p)
  have "length (((ctx_S c)[a := (ctx_S c ! a)[b := x, Suc b := y]]) ! k) = 256" if "k < 4" for k x y
    using assms that by (cases "a = k") (simp_all add: s ctx_ok_def)
  then show "ctx_ok (fst (expand_S p s))"
    using assms by (simp add: s p expand_S_def ctx_ok_def split: prod.split)
  show "ctx_ok (fst (expand_P i s))"
    using assms by (simp add: s expand_P_def ctx_ok_def split: prod.split)
qed

lemma ORIG_S_length: "length ORIG_S = 4" "i < 4 \<Longrightarrow> length (ORIG_S ! i) = 256"
proof -
  show "length ORIG_S = 4" by (simp add: ORIG_S_def)
  assume "i < 4"
  then have "ORIG_S ! i \<in> set ORIG_S" using \<open>length ORIG_S = 4\<close> by simp
  moreover have "length ORIG_S0 = 256" by (simp add: ORIG_S0_def)
  moreover have "length ORIG_S1 = 256" by (simp add: ORIG_S1_def)
  moreover have "length ORIG_S2 = 256" by (simp add: ORIG_S2_def)
  moreover have "length ORIG_S3 = 256" by (simp add: ORIG_S3_def)
  ultimately show "length (ORIG_S ! i) = 256" by (auto simp: ORIG_S_def)
qed

lemma blowfishInit_ok:
  assumes "0 \<le> keyLen" "nat keyLen < length key"
  shows "\<exists>c. blowfishInit (Some m) key keyLen = Some (Some c) \<and> isBlowfishInit c \<and> ctx_ok c"
proof -
  have "length ORIG_P = 18" by (simp add: ORIG_P_def)
  then obtain P where P: "mix_key key keyLen 0 ORIG_P = Some P" "length P = 18"
    using mix_key_Some [OF assms, of 0 ORIG_P] by auto
  let ?s = "(m\<lparr>ctx_S := ORIG_S, ctx_P := P\<rparr>, 0, 0)"
  have "ctx_ok (fst ?s)"
    using P(2) by (simp add: ctx_ok_def ORIG_S_length)
  then have "ctx_ok (fst (fold expand_S qs (fold expand_P is ?s)))" for qs "is"
    using expand_ok by (intro fold_inv [where P = "\<lambda>s. ctx_ok (fst s)"]) auto
  then show ?thesis
    by (auto simp: blowfishInit_def P Let_def isBlowfishInit_def ctx_ok_def)
qed

section \<open>Passwords return\<close>

text \<open>The length rounded up to blocks, by any of the macros.\<close>

definition rounded :: "nat \<Rightarrow> nat" where
  "rounded n = (n + 7) div 8"

lemma unat_REQ_BUFF_SIZE:
  assumes "unat X \<le> 2 ^ 31"
  shows "unat (REQ_BUFF_SIZE X) = 8 * rounded (unat X)"
proof -
  have m: "unat (X mod 8) = unat X mod 8" by (simp add: unat_mod)
  show ?thesis
  proof (cases "unat X mod 8 = 0")
    case True
    then have "X mod 8 = 0" using m by (simp add: word_unat_eq_iff)
    then show ?thesis using True round8 [of "unat X"] by (simp add: REQ_BUFF_SIZE_def rounded_def)
  next
    case False
    then have "X mod 8 \<noteq> 0" using m by (auto simp: word_unat_eq_iff)
    moreover have "unat (8 - X mod 8) = 8 - unat X mod 8"
      by (subst unat_sub) (simp_all add: m word_le_nat_alt less_imp_le)
    moreover have "unat X + (8 - unat X mod 8) < 2 ^ 32" using assms by simp
    ultimately show ?thesis
      using False round8 [of "unat X"] by (simp add: REQ_BUFF_SIZE_def rounded_def unat_word_ariths)
  qed
qed

lemma REQ_DECRYPT_BUFF_SIZE_eq: "REQ_DECRYPT_BUFF_SIZE (int n) = int (8 * rounded n)"
  using temp_length_eq [of n] by (simp add: REQ_DECRYPT_BUFF_SIZE_def temp_length_def rounded_def)

lemma padForEightMul_eq: "padForEightMul buff n padBuf = (if n \<le> length buff \<and> 8 * rounded n \<le> length padBuf
   then Some (take n buff @ replicate (8 * rounded n - n) 0 @ drop (8 * rounded n) padBuf) else None)"
  using round8 [of n] by (auto simp: padForEightMul_def rounded_def Let_def)

lemma rounded_ge: "n \<le> 8 * rounded n"
  using round8 [of n] by (auto simp: rounded_def)

text \<open>What the memory of a handle held before makes no difference.\<close>

lemma init_ignored:
  "blowfishEncrypt (c\<lparr>ctx_init := v\<rparr>) = blowfishEncrypt c"
proof -
  have "F (c\<lparr>ctx_init := v\<rparr>) = F c" by (rule ext) (simp add: F_def)
  then have "bf_round (c\<lparr>ctx_init := v\<rparr>) = bf_round c" by (intro ext) (simp add: bf_round_def)
  then show ?thesis by (intro ext) (simp add: blowfishEncrypt_def)
qed

definition set_init :: "u32 \<Rightarrow> BLOWFISH_CTX \<times> u32 \<times> u32 \<Rightarrow> BLOWFISH_CTX \<times> u32 \<times> u32" where
  "set_init v = (\<lambda>(c, d). (c\<lparr>ctx_init := v\<rparr>, d))"

lemma expand_set_init: "expand_P i (set_init v s) = set_init v (expand_P i s)"
  "expand_S p (set_init v s) = set_init v (expand_S p s)"
  by (cases s; cases p; simp add: set_init_def expand_P_def expand_S_def init_ignored split: prod.split)+

lemma fold_commutes: "(\<And>x s. f x (h s) = h (f x s)) \<Longrightarrow> fold f xs (h s) = h (fold f xs s)"
  by (induction xs arbitrary: s) simp_all

lemma handle_is_fixed: "blowfishInit (Some m) key keyLen = blowfishInit (Some m') key keyLen"
proof (cases "mix_key key keyLen 0 ORIG_P")
  case (Some P)
  let ?s = "\<lambda>m. (m\<lparr>ctx_S := ORIG_S, ctx_P := P\<rparr>, 0, 0) :: BLOWFISH_CTX \<times> u32 \<times> u32"
  let ?all = "\<lambda>s. fold expand_S (concat (map (\<lambda>i. map (Pair i) (evens 256)) [0..<4])) (fold expand_P (evens 18) s)"
  have "?s m = set_init (ctx_init m) (?s m')" by (cases m; cases m') (simp add: set_init_def)
  then have "?all (?s m) = set_init (ctx_init m) (?all (?s m'))"
    by (simp only: fold_commutes [where h = "set_init (ctx_init m)"] expand_set_init)
  moreover have "(fst (set_init v s))\<lparr>ctx_init := 1\<rparr> = (fst s)\<lparr>ctx_init := 1\<rparr>" for v s
    by (cases s) (simp add: set_init_def)
  ultimately show ?thesis by (simp only: blowfishInit_def Some option.case Let_def)
qed (simp add: blowfishInit_def)

lemma unat_u8: "unat (ucast x :: u32) = unat x" "unat x < 256" for x :: u8
proof -
  show "unat x < 256" using unsigned_less [of x] by simp
  then show "unat (ucast x :: u32) = unat x" by (simp add: unsigned_ucast_eq take_bit_nat_eq_self)
qed

lemma blowfishDecryptPacket_blocks:
  assumes "isBlowfishInit c"
  shows "blowfishDecryptPacket p (int (8 * n)) (Some c) = map_option (Pair 0) (crypt_loop (blowfishDecrypt c) 0 (8 * n) p)"
proof -
  have "rounded (8 * n) = n" using round8 [of "8 * n"] by (simp add: rounded_def)
  then have "REQ_DECRYPT_BUFF_SIZE (int (8 * n)) = int (8 * n)" by (simp only: REQ_DECRYPT_BUFF_SIZE_eq)
  moreover have "int (8 * n) smod 8 = 0" by (subst sdiv_nonneg) simp_all
  moreover have "nat (int (8 * n)) = 8 * n" by (rule nat_int)
  ultimately show ?thesis using assms by (simp only: blowfishDecryptPacket_def simp_thms if_True if_False option.case)
qed

text \<open>
  C14. A password comes back from its encryption, with any key string and whatever the memory of the handles
  held, when the lengths told round to the same number of blocks and the buffers have room for whole blocks.
\<close>

theorem password_round_trip:
  assumes "0 \<notin> set k" "rounded (unat sz) = rounded (unat sz')"
    and "unat sz \<le> length plain" "8 * rounded (unat sz) \<le> length E"
    and "length tmp = 8 * rounded (unat sz)" "unat sz \<le> length D"
  shows "\<exists>E'. EncryptPassword (Some m) plain sz E sz' (k @ 0 # t) = Some (0, E') \<and> length E' = length E
    \<and> DecryptPassword (Some tmp) (Some m') E' sz' D sz (k @ 0 # t)
      = Some (0, take (unat sz) plain @ drop (unat sz) D)"
proof -
  let ?n = "rounded (unat sz)"
  note small = unat_u8
  have req: "unat (REQ_BUFF_SIZE (ucast sz)) = 8 * ?n" "unat (REQ_BUFF_SIZE (ucast sz')) = 8 * ?n"
    using small(2) [of sz] small(2) [of sz'] assms(2) by (simp_all add: unat_REQ_BUFF_SIZE small(1))
  then have same: "REQ_BUFF_SIZE (ucast sz') = REQ_BUFF_SIZE (ucast sz)" by (simp add: word_unat_eq_iff)
  obtain c where c: "blowfishInit (Some m) (k @ 0 # t) (int (length k)) = Some (Some c)" "isBlowfishInit c"
    using blowfishInit_ok [of "int (length k)" "k @ 0 # t" m] by auto
  have c': "blowfishInit (Some m') (k @ 0 # t) (int (length k)) = Some (Some c)"
    using c(1) handle_is_fixed by metis
  have len: "strlen (k @ 0 # t) = Some (length k)" using assms(1) by (rule strlen_prefix)
  have out: "unat sz' \<le> length E" using rounded_ge [of "unat sz'"] assms(2,4) by simp
  define Z where "Z = replicate (unat sz') 0 @ drop (unat sz') E"
  define pad where "pad = take (unat sz) plain @ replicate (8 * ?n - unat sz) 0 @ drop (8 * ?n) Z"
  have Z: "length Z = length E" "memset0 E (unat sz') = Some Z" using out by (simp_all add: Z_def memset0_def)
  have P: "padForEightMul plain (unat sz) Z = Some pad"
    using assms(3,4) by (simp add: padForEightMul_eq pad_def Z(1))
  have lp: "8 * ?n \<le> length pad" "length pad = length E"
    using assms(3,4) rounded_ge [of "unat sz"] by (simp_all add: pad_def Z(1))
  define E' where "E' = crypt_all (blowfishEncrypt c) ?n pad @ drop (8 * ?n) pad"
  have "EncryptPassword (Some m) plain sz E sz' (k @ 0 # t) = Some (0, E')"
    by (simp add: EncryptPassword_def len c Z(2) blowfishEncryptPacket_def same isBlowfishInit_def [symmetric] P small(1) req
        packet_back(1) [OF lp(1)] E'_def)
  moreover have "length E' = length E" using lp by (simp add: E'_def)
  moreover have "DecryptPassword (Some tmp) (Some m') E' sz' D sz (k @ 0 # t)
      = Some (0, take (unat sz) plain @ drop (unat sz) D)"
  proof -
    have r: "REQ_DECRYPT_BUFF_SIZE (uint sz) = int (8 * ?n)" "REQ_DECRYPT_BUFF_SIZE (uint sz') = int (8 * ?n)"
      using REQ_DECRYPT_BUFF_SIZE_eq [of "unat sz"] REQ_DECRYPT_BUFF_SIZE_eq [of "unat sz'"] assms(2) by simp_all
    have "take (8 * ?n) E' @ drop (8 * ?n) tmp = crypt_all (blowfishEncrypt c) ?n pad @ []"
      using assms(5) by (simp add: E'_def)
    then have "blowfishDecryptPacket (take (8 * ?n) E' @ drop (8 * ?n) tmp) (int (8 * ?n)) (Some c) = Some (0, take (8 * ?n) pad)"
      using packet_back(2) [OF lp(1), of c "[]"] by (simp only: blowfishDecryptPacket_blocks [OF c(2)]) simp
    moreover have "take (unat sz) (take (8 * ?n) pad) = take (unat sz) plain" "unat sz \<le> length (take (8 * ?n) pad)"
      using lp rounded_ge [of "unat sz"] assms(3) by (simp_all add: pad_def min_def)
    moreover have "8 * ?n \<le> length tmp" "8 * ?n \<le> length E'" using assms(4,5) lp by (simp_all add: E'_def)
    moreover have "memset0 D (unat sz) = Some (replicate (unat sz) 0 @ drop (unat sz) D)"
      using assms(6) by (simp add: memset0_def)
    ultimately show ?thesis
      by (simp only: DecryptPassword_def option.case len c' r Let_def nat_int simp_thms if_True prod.case) simp
  qed
  ultimately show ?thesis by blast
qed

lemma password_round_trip_witness:
  "\<exists>E'. EncryptPassword (Some \<lparr>ctx_P = [], ctx_S = [], ctx_init = 7\<rparr>) [0x61, 0x62] 2 (replicate 8 9) 5 [0x6B, 0] = Some (0, E')
    \<and> length E' = 8
    \<and> DecryptPassword (Some (replicate 8 3)) (Some \<lparr>ctx_P = [], ctx_S = [], ctx_init = 0\<rparr>) E' 5 [9, 9, 9] 2 [0x6B, 0]
      = Some (0, [0x61, 0x62, 9])"
  using password_round_trip [of "[0x6B]" 2 5 "[0x61, 0x62]" "replicate 8 9" "replicate 8 3" "[9, 9, 9]"
      "\<lparr>ctx_P = [], ctx_S = [], ctx_init = 7\<rparr>" "[]" "\<lparr>ctx_P = [], ctx_S = [], ctx_init = 0\<rparr>"]
  by (simp add: rounded_def numeral_2_eq_2 [symmetric])

text \<open>
  C35. The lengths that are told are not those that are used: a password is encrypted into whole blocks, behind
  an output of exactly the length told when that is not a multiple of eight, and an output that is told to
  have more blocks than the input makes the decryption leave its own copy of the input.
\<close>

theorem passwords_leave_buffers:
  assumes "0 \<notin> set k"
    and "rounded (unat sz) = rounded (unat sz')" "unat sz' mod 8 \<noteq> 0" "length E = unat sz'"
    and "rounded (unat sz) < rounded (unat big)" "length tmp = 8 * rounded (unat sz)"
  shows "EncryptPassword (Some m) plain sz E sz' (k @ 0 # t) = None
    \<and> DecryptPassword (Some tmp) (Some m) C sz D big (k @ 0 # t) = None"
proof
  obtain c where c: "blowfishInit (Some m) (k @ 0 # t) (int (length k)) = Some (Some c)" "isBlowfishInit c"
    using blowfishInit_ok [of "int (length k)" "k @ 0 # t" m] by auto
  have len: "strlen (k @ 0 # t) = Some (length k)" using assms(1) by (rule strlen_prefix)
  have "unat sz' < 8 * rounded (unat sz')" using assms(3) round8 [of "unat sz'"] by (simp add: rounded_def)
  moreover have "REQ_BUFF_SIZE (ucast sz') = REQ_BUFF_SIZE (ucast sz)"
    using unat_u8(2) [of sz] unat_u8(2) [of sz'] assms(2) by (simp add: word_unat_eq_iff unat_REQ_BUFF_SIZE unat_u8(1))
  moreover have "memset0 E (unat sz') = Some (replicate (unat sz') 0)" by (simp add: memset0_def assms(4))
  ultimately show "EncryptPassword (Some m) plain sz E sz' (k @ 0 # t) = None"
    using assms(2) c by (simp add: EncryptPassword_def len blowfishEncryptPacket_def padForEightMul_eq unat_u8(1))
  have r: "REQ_DECRYPT_BUFF_SIZE (uint sz) = int (8 * rounded (unat sz))"
    "REQ_DECRYPT_BUFF_SIZE (uint big) = int (8 * rounded (unat big))"
    using REQ_DECRYPT_BUFF_SIZE_eq [of "unat sz"] REQ_DECRYPT_BUFF_SIZE_eq [of "unat big"] by simp_all
  have "blowfishDecryptPacket p (int (8 * rounded (unat big))) (Some c) = None" if "length p = 8 * rounded (unat sz)" for p
    using crypt_loop_eq [of "blowfishDecrypt c" 0 "rounded (unat big)" p] that assms(5)
    by (subst blowfishDecryptPacket_blocks [OF c(2)]) simp
  then show "DecryptPassword (Some tmp) (Some m) C sz D big (k @ 0 # t) = None"
    using assms(6)
    by (simp only: DecryptPassword_def option.case len c(1) r Let_def nat_int) (auto split: option.split)
qed

lemma passwords_leave_buffers_witness:
  "EncryptPassword (Some \<lparr>ctx_P = [], ctx_S = [], ctx_init = 7\<rparr>) [0x61, 0x62] 2 [9, 9, 9] 3 [0x6B, 0] = None
    \<and> DecryptPassword (Some (replicate 8 3)) (Some \<lparr>ctx_P = [], ctx_S = [], ctx_init = 7\<rparr>) (replicate 8 9) 2 (replicate 9 9) 9
      [0x6B, 0] = None"
  using passwords_leave_buffers [of "[0x6B]" 2 3 "[9, 9, 9]" 9 "replicate 8 3"
      "\<lparr>ctx_P = [], ctx_S = [], ctx_init = 7\<rparr>" "[0x61, 0x62]" "[]" "replicate 8 9" "replicate 9 9"]
  by (simp add: rounded_def numeral_2_eq_2 [symmetric] numeral_3_eq_3 [symmetric])

section \<open>The key file keeps one word\<close>

lemma key_file_round_trip:
  assumes "k \<noteq> []" "\<forall>c \<in> set k. c \<noteq> 0 \<and> \<not> isspace c" "56 \<le> length K"
  shows "setEncryptKey True f (k @ 0 # t) = Some (0, Some k)"
    and "getEncryptKey (Some k) K = (if length k < length K
      then Some (0, k @ 0 # drop (Suc (length k)) (replicate 56 0 @ drop 56 K)) else None)"
proof -
  have "0 \<notin> set k" using assms(2) by auto
  then show "setEncryptKey True f (k @ 0 # t) = Some (0, Some k)"
    by (simp add: setEncryptKey_def strlen_prefix)
  have "dropWhile isspace k = k" using assms(1,2) by (cases k) auto
  moreover have "takeWhile (\<lambda>c. \<not> isspace c) k = k" using assms(2) by (auto simp: takeWhile_eq_all_conv)
  ultimately show "getEncryptKey (Some k) K = (if length k < length K
      then Some (0, k @ 0 # drop (Suc (length k)) (replicate 56 0 @ drop 56 K)) else None)"
    using assms(1,3) by (simp add: getEncryptKey_def memset0_def Let_def del: takeWhile_eq_all_conv)
qed

text \<open>A key with white space in it is read back as its first word.\<close>

lemma key_file_cuts:
  assumes "a \<noteq> []" "\<forall>c \<in> set a. \<not> isspace c" "isspace w" "56 \<le> length K" "length a < length K"
  shows "\<exists>r. getEncryptKey (Some (a @ w # b)) K = Some (0, a @ 0 # r)"
proof -
  have "dropWhile isspace (a @ w # b) = a @ w # b" using assms(1,2) by (cases a) auto
  moreover have "takeWhile (\<lambda>c. \<not> isspace c) (a @ w # b) = a" using assms(2,3) by (simp add: takeWhile_append)
  ultimately show ?thesis using assms(1,4,5) by (simp add: getEncryptKey_def memset0_def Let_def)
qed

end
