(* ===== verification/Spec2Isabelle.thy ===== *)
theory Spec2Isabelle
  imports Ext_Tls Session Asd_Scan Target_Handler Command_Line Jtag_Test Checksum
    Blowfish
begin

text \<open>
  At-Scale Debug: a debugger connects over the network to the management controller of a server, which drives
  the JTAG port, the debug pins and the I2C and I3C buses of the processors for it. The development models
  the package \<^verbatim>\<open>ASD\<close> of the repository and three helper libraries of the core. The package has two parts: the
  kernel driver of the JTAG master (\<^verbatim>\<open>jtag_intel-ARM-AST-src/\<close>, from the character device \<^verbatim>\<open>jtag.c\<close> to
  the registers in \<^verbatim>\<open>jtag-aspeed.c\<close>) and the server (\<^verbatim>\<open>jtag_intel_socket_svr-src/\<close>) with the test program
  and the safe C library that are built with it. Everything is modelled as it is built for the management
  controller, that is with \<^verbatim>\<open>SPX_BMC\<close>, for the new driver and for 32 bits.

  How the parts interact. \<^verbatim>\<open>asd_main.c\<close> waits for connections, messages and pins. A new connection is a
  session that has to authenticate; the first message of an authenticated one creates the message engine
  \<^verbatim>\<open>asd_msg.c\<close>, which puts a packet together from pieces, carries out its commands and answers. The
  commands of a JTAG packet go through \<^verbatim>\<open>jtag_handler.c\<close> to the character device and end as levels
  on the pins; those of an I2C packet go to a bus; events of the pins come back through
  \<^verbatim>\<open>target_handler.c\<close>. The engine is freed when its session closes.

  The theories and what they model:

  \<^item> \<^verbatim>\<open>Prelude\<close>: machine types, statuses, faults, file descriptors, facts on division.
  \<^item> \<^verbatim>\<open>Tap\<close>: the states of the port and the table of TMS levels (\<^verbatim>\<open>jtag.h\<close>); the state diagram of the JTAG
    standard is its specification, and every entry of the table is a shortest way in it.
  \<^item> \<^verbatim>\<open>Jtag_Driver\<close>, \<^verbatim>\<open>Jtag_Hw\<close>, \<^verbatim>\<open>Jtag_Ioctl\<close>: the driver. Its state is the \<^verbatim>\<open>struct aspeed_jtag\<close>
    with the log of all register accesses, from which the clocks and samples on the pins are read; what
    registers answer is a parameter. The software mode is proved down to the pins, of the hardware modes
    the transfer plan and the buffers, and of the device its checks and copies.
  \<^item> \<^verbatim>\<open>Jtag_Handler\<close>: scan chains, padding, shifting and waiting. The device is the locale \<open>jtag_device\<close>,
    of which the driver is an interpretation, so that a shift is proved on the pins.
  \<^item> \<^verbatim>\<open>Ext_Network\<close>, \<^verbatim>\<open>Ext_Tls\<close>, \<^verbatim>\<open>Session\<close>: sockets, TLS and the table of sessions, which refines a
    map of open descriptors with at most one authenticated.
  \<^item> \<^verbatim>\<open>Auth_Pam\<close>: authentication, the lockout after failures, the handshake.
  \<^item> \<^verbatim>\<open>Asd_Message\<close>, \<^verbatim>\<open>Config\<close>, \<^verbatim>\<open>Asd_State\<close>: packets and responses, configuration, \<^verbatim>\<open>struct ASD_MSG\<close>.
  \<^item> \<^verbatim>\<open>Asd_Jtag\<close>, \<^verbatim>\<open>Asd_Scan\<close>: the commands of a JTAG packet, one definition each, and a packet followed from
    the wire to the pins and back.
  \<^item> \<^verbatim>\<open>Bus_Handlers\<close>, \<^verbatim>\<open>Asd_I2c\<close>: the I2C and I3C handlers, clients of one locale \<open>bus_handler\<close>, and the
    commands of an I2C packet.
  \<^item> \<^verbatim>\<open>Vprobe\<close>, \<^verbatim>\<open>Gpio\<close>, \<^verbatim>\<open>Target_Handler\<close>: remote probes, pins, chassis commands and target events.
  \<^item> \<^verbatim>\<open>Asd_Msg\<close>: the engine: creation, agent control, initialization of the handlers, dispatch, and the
    state machine that reads a message.
  \<^item> \<^verbatim>\<open>Asd_Main\<close>, \<^verbatim>\<open>Command_Line\<close>: the server with its turns and connections, its options, its loop.
  \<^item> \<^verbatim>\<open>Safec\<close>, \<^verbatim>\<open>Logging\<close>: the copying and comparing of the safe C library by words and from both ends,
    the log.
  \<^item> \<^verbatim>\<open>Jtag_Test\<close>: the test program, a second client of the handler, on the locale \<open>sampling_device\<close>
    that extends \<open>jtag_device\<close>.
  \<^item> \<^verbatim>\<open>Checksum\<close>, \<^verbatim>\<open>Base_Encoding\<close>, \<^verbatim>\<open>Blowfish\<close>: three helper libraries of the core, \<^verbatim>\<open>libchecksum-src\<close>,
    \<^verbatim>\<open>libencoding-src\<close> and \<^verbatim>\<open>libblowfish-src\<close>. The tables of the checksums are compared with shift
    registers, base 32 and base 64 are the interpretations of one locale of block codes,
    \<open>block_decoder\<close>, and decryption is proved to undo encryption for every handle, then for packets
    and passwords.

  Conventions. A function that can fault (a wild access, a null pointer, a trap) returns an option, and
  \<^const>\<open>None\<close> is the fault; status codes are values beside it. Integers keep their width where it matters.
  A file descriptor, a null pointer or a chosen handler is modelled as in the source, by -1 or an option.
  What the kernel, a library or the hardware answers is a field of an environment record or an argument,
  and what the proofs need of it is a named hypothesis or a law of a locale, with an instance in each
  witness. Uninitialized memory is an argument as well. The properties are numbered C1, C2 and so on in the
  order of their importance.

  Loops. Loops over data are structural or have a measure. The polling loops of the driver count down the
  retries of the source. The loop of the server and that of the test program may run forever and are
  partial functions; the test is proved to end when it has a number of iterations, the server to end only by
  an error. There is no fuel anywhere.

  What the lemmas show. Invariants: sessions, descriptors, the well-formed engine, the engine that exists
  only for an authenticated client. Refinements: the driver by the pins, the handler by the driver, the
  packet by the handler, the sessions by a map, the copies by copies at once, the encoders in memory by
  functions on lists. Equivalences and round trips: checksums and shift registers, encodings and what was
  encoded, ciphers and passwords. Answers: every message is
  answered, with sizes that fit. Error behaviour: several properties state precisely what goes wrong in
  the code, such as an engine that is used after it was freed, a header in two pieces, a lock on the
  wrong bus or descriptors that stay open.

  Not modelled. Of this package: printing, the process and version files, the registration of the driver with
  the kernel, the certificate a client shows, and the D-Bus helper, which is not built for the management
  controller. Of the libraries: the hexadecimal strings of \<^verbatim>\<open>Encode.c\<close>, which are formats of \<^verbatim>\<open>sscanf\<close> and
  \<^verbatim>\<open>sprintf\<close>. The other packages of the repository are third-party programs with the changes of the vendor,
  patches to code that is not in it, drivers around calls of the kernel, and programs such as the
  crash dump that share nothing with this one; they are listed in the manifest with their reasons.
\<close>

end
